(* ===== verification/Prelude.thy ===== *)
theory Prelude
  imports Main "HOL-Library.Word" "HOL-Library.List_Lexorder" "HOL-Library.Char_ord"
begin

text \<open>
  Shared vocabulary of the development: the error values of \<^verbatim>\<open>errors.go\<close>, Go byte slices and
  strings, the big-endian words of \<^verbatim>\<open>encoding/binary\<close>, and the generic facts on lists and words
  that the component theories use.

  A Go \<^verbatim>\<open>string\<close> is a sequence of bytes and is modelled by the type of character lists (a HOL
  character is a byte); a \<^verbatim>\<open>[]byte\<close> is a list of 8-bit words. \<^verbatim>\<open>bytes.Compare\<close>,
  \<^verbatim>\<open>strings.Compare\<close> and the operator \<open><\<close> on Go strings are the lexicographic order of the
  library theory List_Lexorder. \<^verbatim>\<open>int64\<close> and \<^verbatim>\<open>uint64\<close> are 64-bit words read with \<open>sint\<close>
  and \<open>uint\<close>; a Go \<^verbatim>\<open>int\<close> that is a length is a natural number.
\<close>

unbundle bit_operations_syntax

named_theorems go_simps \<open>unfolding rules for the Go library operations\<close>
named_theorems codec_simps \<open>what a decoder returns on the bytes an encoder wrote\<close>

section \<open>Error values\<close>

text \<open>
  \<^verbatim>\<open>errors.go\<close>: the codes of the error struct. \<^verbatim>\<open>(*Error).Is\<close> compares codes only, so the model
  keeps the code and drops the message text. Errors that do not carry a code
  (\<^verbatim>\<open>fmt.Errorf\<close>, \<^verbatim>\<open>io.ErrUnexpectedEOF\<close>, and the errors of packages outside the
  repository) are values of their own.
\<close>

datatype ErrorCode =
    CodeClosed | CodeNotFound | CodeCollectionExists | CodeCollectionAbsent
  | CodeIndexNotFound | CodeUniqueConstraint | CodeReadOnlyTx | CodeInvalidCollection
  | CodeInvalidIndexMode | CodeMismatchedIndexUniqueness | CodeInvalidQuery
  | CodeInvalidPlaceholder | CodeUnsetPlaceholder | CodeNoCollection | CodeSkipAlreadySet
  | CodeLimitAlreadySet | CodeOrderByMaxLimit | CodeInvalidValueType | CodeIncompatibleFormat

datatype error = Coded ErrorCode | Plain string | UnexpectedEOF | Foreign nat

type_synonym 'a result = "error + 'a"

definition CodeOf :: "error \<Rightarrow> ErrorCode option" where
  "CodeOf e = (case e of Coded c \<Rightarrow> Some c | _ \<Rightarrow> None)"

text \<open>\<^verbatim>\<open>(*Error).Is\<close>: two errors of this package are the same when their codes are.\<close>

definition errorIs :: "error \<Rightarrow> error \<Rightarrow> bool" where
  "errorIs e target =
     (case (e, target) of (Coded c, Coded d) \<Rightarrow> c = d | _ \<Rightarrow> e = target)"

abbreviation ErrNotFound :: error where "ErrNotFound \<equiv> Coded CodeNotFound"
abbreviation ErrCollectionExists :: error where "ErrCollectionExists \<equiv> Coded CodeCollectionExists"
abbreviation ErrCollectionAbsent :: error where "ErrCollectionAbsent \<equiv> Coded CodeCollectionAbsent"
abbreviation ErrIndexNotFound :: error where "ErrIndexNotFound \<equiv> Coded CodeIndexNotFound"
abbreviation ErrUniqueConstraint :: error where "ErrUniqueConstraint \<equiv> Coded CodeUniqueConstraint"
abbreviation ErrClosed :: error where "ErrClosed \<equiv> Coded CodeClosed"
abbreviation ErrReadOnlyTx :: error where "ErrReadOnlyTx \<equiv> Coded CodeReadOnlyTx"

lemma errorIs_iff [simp]: "errorIs e t \<longleftrightarrow> e = t"
  by (auto simp: errorIs_def split: error.splits)

section \<open>Bytes and strings\<close>

type_synonym byte = "8 word"
type_synonym bytes = "8 word list"
type_synonym int64 = "64 word"
type_synonym uint64 = "64 word"

definition bytes_of_string :: "string \<Rightarrow> bytes" where
  "bytes_of_string s = map of_char s"

definition string_of_bytes :: "bytes \<Rightarrow> string" where
  "string_of_bytes b = map (\<lambda>w. char_of (unat w)) b"

lemma unat_byte_lt [simp]: "unat (b :: byte) < 256"
  using unsigned_less [of b, where 'a = nat] by simp

lemma char_of_unat_of_char [simp]: "char_of (unat (of_char c :: byte)) = c"
proof -
  have "unat (of_nat (of_char c) :: byte) = (of_char c :: nat)"
    by (simp add: unat_of_nat)
  then show ?thesis by (simp del: unat_of_nat add: of_nat_of_char)
qed

lemma of_char_char_of_unat [simp]: "(of_char (char_of (unat (w :: byte))) :: byte) = w"
proof -
  have "(of_char (char_of (unat w)) :: byte) = of_nat (of_char (char_of (unat w) :: char))"
    by (rule of_nat_of_char [symmetric])
  also have "\<dots> = of_nat (unat w)"
    by (simp only: of_char_of mod_less unat_byte_lt)
  finally show ?thesis by simp
qed

lemma length_bytes_of_string [simp]: "length (bytes_of_string s) = length s"
  by (simp add: bytes_of_string_def)

lemma string_of_bytes_of_string [simp, codec_simps]: "string_of_bytes (bytes_of_string s) = s"
  by (induction s) (simp_all add: string_of_bytes_def bytes_of_string_def)

lemma bytes_of_string_inject [simp]: "bytes_of_string s = bytes_of_string t \<longleftrightarrow> s = t"
  by (metis string_of_bytes_of_string)

text \<open>\<^verbatim>\<open>strings.HasPrefix\<close> and \<^verbatim>\<open>bytes.HasPrefix\<close>.\<close>

definition HasPrefix :: "'a list \<Rightarrow> 'a list \<Rightarrow> bool" where
  "HasPrefix s p \<longleftrightarrow> take (length p) s = p"

lemma HasPrefix_iff: "HasPrefix s p \<longleftrightarrow> (\<exists>r. s = p @ r)"
  by (metis HasPrefix_def append_eq_conv_conj)

lemma HasPrefix_append [simp]: "HasPrefix (p @ r) p"
  by (simp add: HasPrefix_def)

section \<open>Lexicographic order\<close>

lemma append_less_append [simp]: "q @ xs < q @ ys \<longleftrightarrow> xs < (ys :: 'a :: linorder list)"
  by (induction q) auto

lemma append_le_append [simp]: "q @ xs \<le> q @ ys \<longleftrightarrow> xs \<le> (ys :: 'a :: linorder list)"
  by (simp add: linorder_not_less [symmetric])

lemma append_less_same_length:
  "length xs = length ys \<Longrightarrow>
   xs @ r < ys @ s \<longleftrightarrow> xs < ys \<or> xs = ys \<and> r < (s :: 'a :: linorder list)"
  by (induction xs ys rule: list_induct2) auto

lemma le_append_self [simp]: "q \<le> q @ (xs :: 'a :: linorder list)"
  by (induction q) auto

section \<open>Big-endian words: the package encoding/binary\<close>

text \<open>
  \<open>be_bytes n v\<close> are the low \<open>n\<close> bytes of \<open>v\<close>, the most significant first, and \<open>be_nat\<close> reads
  them back. \<^verbatim>\<open>binary.BigEndian.PutUint64\<close> and its siblings are instances.
\<close>

fun be_bytes :: "nat \<Rightarrow> nat \<Rightarrow> bytes" where
  "be_bytes 0 v = []"
| "be_bytes (Suc n) v = be_bytes n (v div 256) @ [of_nat (v mod 256)]"

definition be_nat :: "bytes \<Rightarrow> nat" where
  "be_nat bs = foldl (\<lambda>a b. a * 256 + unat b) 0 bs"

lemma length_be_bytes [simp]: "length (be_bytes n v) = n"
  by (induction n arbitrary: v) auto

lemma be_nat_Nil [simp]: "be_nat [] = 0"
  by (simp add: be_nat_def)

lemma be_nat_snoc [simp]: "be_nat (bs @ [b]) = be_nat bs * 256 + unat b"
  by (simp add: be_nat_def)

lemma be_nat_be_bytes [simp]: "be_nat (be_bytes n v) = v mod 256 ^ n"
proof (induction n arbitrary: v)
  case (Suc n)
  have "v mod (256 * 256 ^ n) = 256 * (v div 256 mod 256 ^ n) + v mod 256"
    by (rule mod_mult2_eq)
  then show ?case by (simp add: Suc unat_of_nat)
qed simp

lemma be_nat_less: "be_nat bs < 256 ^ length bs"
proof (induction bs rule: rev_induct)
  case (snoc b bs)
  have "unat b < 256" by simp
  with snoc show ?case by (simp only: be_nat_snoc length_append_singleton power_Suc)
qed simp

lemma be_bytes_be_nat [simp]: "be_bytes (length bs) (be_nat bs) = bs"
proof (induction bs rule: rev_induct)
  case (snoc b bs)
  have "(be_nat bs * 256 + unat b) div 256 = be_nat bs" "(be_nat bs * 256 + unat b) mod 256 = unat b"
    by (simp_all add: div_nat_eqI)
  with snoc show ?case by simp
qed simp

lemma be_nat_append: "be_nat (xs @ ys) = be_nat xs * 256 ^ length ys + be_nat ys"
proof (induction ys rule: rev_induct)
  case (snoc y ys)
  then show ?case by (simp add: algebra_simps flip: append_assoc)
qed simp

lemma be_nat_Cons: "be_nat (x # xs) = unat x * 256 ^ length xs + be_nat xs"
  using be_nat_append [of "[x]" xs] by (simp add: be_nat_def)

lemma be_nat_less_iff: "length xs = length ys \<Longrightarrow> be_nat xs < be_nat ys \<longleftrightarrow> xs < ys"
proof (induction xs ys rule: list_induct2)
  case (Cons x xs y ys)
  let ?m = "256 ^ length ys :: nat"
  have b: "be_nat xs < ?m" "be_nat ys < ?m"
    using be_nat_less [of xs] be_nat_less [of ys] Cons.hyps by simp_all
  have "be_nat (x # xs) < be_nat (y # ys) \<longleftrightarrow> unat x < unat y \<or> unat x = unat y \<and> be_nat xs < be_nat ys"
  proof (cases "unat x" "unat y" rule: linorder_cases)
    case less
    then have "(unat x + 1) * ?m \<le> unat y * ?m" by (intro mult_right_mono) simp_all
    with less b show ?thesis by (simp add: be_nat_Cons Cons.hyps)
  next
    case greater
    then have "(unat y + 1) * ?m \<le> unat x * ?m" by (intro mult_right_mono) simp_all
    with greater b show ?thesis by (simp add: be_nat_Cons Cons.hyps)
  qed (simp add: be_nat_Cons Cons.hyps)
  also have "\<dots> \<longleftrightarrow> x # xs < y # ys"
    by (auto simp: Cons.IH word_less_nat_alt word_unat_eq_iff)
  finally show ?case .
qed simp

lemma be_nat_inj: "length xs = length ys \<Longrightarrow> be_nat xs = be_nat ys \<longleftrightarrow> xs = ys"
  by (metis be_bytes_be_nat)
definition PutUint16 :: "16 word \<Rightarrow> bytes" where "PutUint16 w = be_bytes 2 (unat w)"
definition PutUint32 :: "32 word \<Rightarrow> bytes" where "PutUint32 w = be_bytes 4 (unat w)"
definition PutUint64 :: "64 word \<Rightarrow> bytes" where "PutUint64 w = be_bytes 8 (unat w)"
definition Uint16 :: "bytes \<Rightarrow> 16 word" where "Uint16 b = of_nat (be_nat b)"
definition Uint32 :: "bytes \<Rightarrow> 32 word" where "Uint32 b = of_nat (be_nat b)"
definition Uint64 :: "bytes \<Rightarrow> 64 word" where "Uint64 b = of_nat (be_nat b)"

lemma length_PutUint [simp]:
  "length (PutUint16 a) = 2" "length (PutUint32 b) = 4" "length (PutUint64 c) = 8"
  by (simp_all add: PutUint16_def PutUint32_def PutUint64_def)

lemma be_nat_PutUint [simp]:
  "be_nat (PutUint16 a) = unat a" "be_nat (PutUint32 b) = unat b" "be_nat (PutUint64 c) = unat c"
  using unsigned_less [of a, where 'a = nat] unsigned_less [of b, where 'a = nat]
    unsigned_less [of c, where 'a = nat]
  by (simp_all add: PutUint16_def PutUint32_def PutUint64_def)

lemma Uint_PutUint [simp, codec_simps]:
  "Uint16 (PutUint16 a) = a" "Uint32 (PutUint32 b) = b" "Uint64 (PutUint64 c) = c"
  by (simp_all add: Uint16_def Uint32_def Uint64_def)

lemma PutUint64_less_iff: "PutUint64 a < PutUint64 b \<longleftrightarrow> a < b"
  using be_nat_less_iff [of "PutUint64 a" "PutUint64 b"] by (simp add: word_less_nat_alt)

section \<open>The sign bit of a 64-bit word\<close>

text \<open>Flipping the top bit of an \<^verbatim>\<open>int64\<close> turns its signed order into the unsigned order.\<close>

lemma and_top_bit: "\<not> bit (v::'a::len word) k \<Longrightarrow> v AND 2 ^ k = 0"
  by (intro bit_word_eqI) (auto simp: bit_and_iff bit_exp_iff)

lemma xor_pow63: "(v::64 word) XOR 2 ^ 63 = v + 2 ^ 63"
proof (cases "bit v 63")
  case False
  then show ?thesis by (simp only: disjunctive_add_eq_xor and_top_bit not_False_eq_True)
next
  case True
  define u where "u = v XOR 2 ^ 63"
  have "\<not> bit u 63"
    using True bit_exp_iff [where 'a = "64 word", of 63 63] by (simp add: u_def bit_xor_iff)
  then have "u + 2 ^ 63 = u XOR 2 ^ 63" by (intro disjunctive_add_eq_xor and_top_bit)
  then have v: "v = u + 2 ^ 63" by (simp only: u_def xor.assoc xor_self_eq xor.right_neutral)
  have "u = v + 2 ^ 63" by (simp only: v add.assoc) simp
  then show ?thesis by (simp only: u_def)
qed

lemma xor_sign: "(v::64 word) XOR 0x8000000000000000 = v + 0x8000000000000000"
  using xor_pow63 [of v] by simp

lemma uint_xor_sign: "uint ((v::64 word) XOR 0x8000000000000000) = sint v + 2 ^ 63"
proof -
  have r: "- (2 ^ 63) \<le> sint v" "sint v < 2 ^ 63"
    using sint_range_size [of v] by (simp_all add: word_size)
  have "v + 0x8000000000000000 = word_of_int (sint v + 2 ^ 63)"
    by (simp add: of_int_sint)
  then have "uint (v XOR 0x8000000000000000) = uint (word_of_int (sint v + 2 ^ 63) :: 64 word)"
    by (simp only: xor_sign)
  also have "\<dots> = sint v + 2 ^ 63"
    using r by (simp add: uint_word_of_int_eq take_bit_int_eq_self del: of_int_add)
  finally show ?thesis .
qed
lemma xor_sign_less_iff:
  "(v :: int64) XOR 0x8000000000000000 < w XOR 0x8000000000000000 \<longleftrightarrow> sint v < sint w"
  by (simp only: word_less_def uint_xor_sign) simp

section \<open>Interfaces of the byte codecs\<close>

text \<open>
  A reader of the code takes the source slice and an offset and returns the value and the offset
  behind it; a writer appends the bytes of a value. The contract of such a pair: wherever the
  writer put its bytes, the reader finds the value and stops right behind them.
\<close>

locale offset_codec =
  fixes enc :: "'a \<Rightarrow> bytes"
    and dec :: "bytes \<Rightarrow> nat \<Rightarrow> ('a \<times> nat) option"
    and ok :: "'a \<Rightarrow> bool"
  assumes dec_enc:
    "ok x \<Longrightarrow> dec (pre @ enc x @ post) (length pre) = Some (x, length pre + length (enc x))"
begin

lemma dec_enc_at: "ok x \<Longrightarrow> off = length pre \<Longrightarrow>
    dec (pre @ enc x @ post) off = Some (x, off + length (enc x))"
  using dec_enc by simp

lemma enc_prefix_free:
  assumes "ok x" and "ok y" and eq: "enc x @ r = enc y @ s"
  shows "x = y \<and> r = s"
proof -
  have "dec (enc x @ r) 0 = Some (x, length (enc x))"
    using dec_enc [OF assms(1), of "[]" r] by simp
  moreover have "dec (enc y @ s) 0 = Some (y, length (enc y))"
    using dec_enc [OF assms(2), of "[]" s] by simp
  ultimately have "x = y" using eq by simp
  with eq show ?thesis by simp
qed

lemma enc_inject: "ok x \<Longrightarrow> ok y \<Longrightarrow> enc x = enc y \<longleftrightarrow> x = y"
  using enc_prefix_free [of x y "[]" "[]"] by auto

end

text \<open>
  A codec of constant width whose bytes compare, lexicographically, as the values do: such a field
  in front of a storage key makes a range scan of the store return the entries in value order.
\<close>

locale ordered_codec = offset_codec +
  fixes width :: nat
    and lt :: "'a \<Rightarrow> 'a \<Rightarrow> bool"
  assumes enc_width: "ok x \<Longrightarrow> length (enc x) = width"
    and enc_less: "ok x \<Longrightarrow> ok y \<Longrightarrow> enc x < enc y \<longleftrightarrow> lt x y"
begin

lemma enc_append_less:
  assumes "ok x" and "ok y"
  shows "enc x @ r < enc y @ s \<longleftrightarrow> lt x y \<or> x = y \<and> r < s"
  using assms by (simp add: append_less_same_length enc_width enc_less enc_inject)

lemma field_append_less:
  assumes "ok x" and "ok y"
  shows "p @ enc x @ r < p @ enc y @ s \<longleftrightarrow> lt x y \<or> x = y \<and> r < s"
  using enc_append_less [OF assms] by simp

end

end
