(* ===== verification/Types.thy ===== *)
theory Types
  imports Prelude "HOL-Library.AList" "HOL-Library.Product_Lexorder" "HOL-Library.Multiset"
begin

text \<open>
  \<^verbatim>\<open>types.go\<close> and the catalog part of \<^verbatim>\<open>storage.go\<close>: index kinds and modes, the in-memory catalog
  (\<^verbatim>\<open>dbState\<close>, \<^verbatim>\<open>collectionState\<close>, \<^verbatim>\<open>indexState\<close>, \<^verbatim>\<open>indexRuntime\<close>), its persistent form
  (\<^verbatim>\<open>catalogState\<close>) and the metadata report \<^verbatim>\<open>toMeta\<close>.

  A Go map whose iteration order the code depends on nowhere is an association list with
  distinct keys, updated with \<open>AList.update\<close> and \<open>AList.delete\<close>; iterating over it visits the
  entries in list order, one of the orders Go may choose.
\<close>

section \<open>Index kinds and modes\<close>

text \<open>
  \<^verbatim>\<open>IndexKind\<close> is a string type with three constants; any other string can be passed by a
  caller, hence \<open>OtherKind\<close>.
\<close>

datatype IndexKind = IndexString | IndexInt64 | IndexFloat | OtherKind string

fun kindText :: "IndexKind \<Rightarrow> string" where
  "kindText IndexString = ''str''"
| "kindText IndexInt64 = ''i64''"
| "kindText IndexFloat = ''f64''"
| "kindText (OtherKind s) = s"

fun knownKind :: "IndexKind \<Rightarrow> bool" where
  "knownKind (OtherKind s) = False"
| "knownKind k = True"

type_synonym IndexMode = "8 word"

definition IdxUnique :: IndexMode where "IdxUnique = 0x01"
definition IdxString :: IndexMode where "IdxString = 0x04"
definition IdxInt64 :: IndexMode where "IdxInt64 = 0x08"
definition IdxFloat :: IndexMode where "IdxFloat = 0x10"

lemmas Idx_defs [go_simps] = IdxUnique_def IdxString_def IdxInt64_def IdxFloat_def

definition indexModeParts :: "IndexMode \<Rightarrow> (IndexKind \<times> bool) result" where
  "indexModeParts mode =
     (let unique = (mode AND IdxUnique \<noteq> 0);
          (kinds, kind) = (0 :: nat, OtherKind []);
          (kinds, kind) = (if mode AND IdxString \<noteq> 0 then (Suc kinds, IndexString) else (kinds, kind));
          (kinds, kind) = (if mode AND IdxInt64 \<noteq> 0 then (Suc kinds, IndexInt64) else (kinds, kind));
          (kinds, kind) = (if mode AND IdxFloat \<noteq> 0 then (Suc kinds, IndexFloat) else (kinds, kind))
      in if kinds \<noteq> 1 then Inl (Coded CodeInvalidIndexMode) else Inr (kind, unique))"

definition indexMode :: "IndexKind \<Rightarrow> bool \<Rightarrow> IndexMode" where
  "indexMode kind unique =
     (let mode = (if unique then IdxUnique else 0)
      in case kind of
           IndexString \<Rightarrow> mode OR IdxString
         | IndexInt64 \<Rightarrow> mode OR IdxInt64
         | IndexFloat \<Rightarrow> mode OR IdxFloat
         | OtherKind _ \<Rightarrow> mode)"

section \<open>The catalog in memory\<close>

record indexState =
  idxPath :: string
  idxKind :: IndexKind
  idxUnique :: bool
  idxDBID :: int64
  idxRNum :: int

text \<open>The runtime maps \<open>unique\<close> and \<open>multi\<close> from index value to document ids.\<close>

record indexRuntime =
  rtDef :: indexState
  rtUnique :: "(string \<times> int64) list"
  rtMulti :: "(string \<times> int64 list) list"

text \<open>
  The field \<open>runtime\<close> of a collection is never nil: every constructor of the code (the three
  \<^verbatim>\<open>ensureCollection\<close> variants, \<^verbatim>\<open>stateFromCatalog\<close>, \<^verbatim>\<open>clone\<close>) makes it, so the model has no nil value.
\<close>

record collectionState =
  colName :: string
  colDBID :: int64
  colNextID :: int64
  colRNum :: int
  colIndexes :: "(string \<times> indexState) list"
  colRuntime :: "(string \<times> indexRuntime) list"

record dbState =
  stVersion :: string
  stNextCollectionID :: int64
  stCreatedAt :: int64
  stCollections :: "(string \<times> collectionState) list"

definition newState :: "int64 \<Rightarrow> dbState" where
  "newState now = \<lparr>stVersion = ''2.0-go'', stNextCollectionID = 1, stCreatedAt = now,
     stCollections = []\<rparr>"

definition boolText :: "bool \<Rightarrow> string" where
  "boolText b = (if b then ''true'' else ''false'')"

definition indexKey :: "string \<Rightarrow> IndexKind \<Rightarrow> bool \<Rightarrow> string" where
  "indexKey path kind unique = path @ ''|'' @ kindText kind @ ''|'' @ boolText unique"

definition newRuntime :: "indexState \<Rightarrow> indexRuntime" where
  "newRuntime idx = \<lparr>rtDef = idx, rtUnique = [], rtMulti = []\<rparr>"

text \<open>\<^verbatim>\<open>(*collectionState).initRuntime\<close>: every index gets a fresh, empty runtime entry.\<close>

definition initRuntime :: "collectionState \<Rightarrow> collectionState" where
  "initRuntime c = c\<lparr>colRuntime :=
     fold (\<lambda>(k, idx) rts. AList.update k (newRuntime idx) rts) (colIndexes c) (colRuntime c)\<rparr>"

text \<open>
  \<^verbatim>\<open>(*dbState).clone\<close>: the state goes through JSON text and back (\<open>roundtrip\<close>, the go-json-experiment
  package, a parameter), then the fields without a JSON name are set up again.
\<close>

definition clone :: "(dbState \<Rightarrow> dbState result) \<Rightarrow> dbState \<Rightarrow> dbState result" where
  "clone roundtrip s =
     (case roundtrip s of
        Inl e \<Rightarrow> Inl e
      | Inr out \<Rightarrow> Inr (out\<lparr>stCollections :=
          map (\<lambda>(name, c). (name, initRuntime (c\<lparr>colName := name, colRuntime := []\<rparr>)))
            (stCollections out)\<rparr>))"

section \<open>The persistent catalog\<close>

record catalogCollection =
  ccDBID :: int64
  ccNextID :: int64
  ccRNum :: int
  ccIndexes :: "(string \<times> indexState) list"

record catalogState =
  catFormatVersion :: int
  catVersion :: string
  catNextCollectionID :: int64
  catCreatedAt :: int64
  catCollections :: "(string \<times> catalogCollection) list"

definition currentFormatVersion :: int where
  "currentFormatVersion = 6"

definition catalogFromState :: "dbState \<Rightarrow> catalogState" where
  "catalogFromState s =
     \<lparr>catFormatVersion = currentFormatVersion, catVersion = stVersion s,
      catNextCollectionID = stNextCollectionID s, catCreatedAt = stCreatedAt s,
      catCollections = map (\<lambda>(name, col). (name,
        \<lparr>ccDBID = colDBID col, ccNextID = colNextID col, ccRNum = colRNum col,
         ccIndexes = colIndexes col\<rparr>)) (stCollections s)\<rparr>"

definition stateFromCatalog :: "int64 \<Rightarrow> catalogState \<Rightarrow> dbState" where
  "stateFromCatalog now cat =
     (let st = newState now;
          st = (if catVersion cat \<noteq> [] then st\<lparr>stVersion := catVersion cat\<rparr> else st);
          st = (if 0 < sint (catNextCollectionID cat)
                then st\<lparr>stNextCollectionID := catNextCollectionID cat\<rparr> else st);
          st = (if 0 < sint (catCreatedAt cat) then st\<lparr>stCreatedAt := catCreatedAt cat\<rparr> else st)
      in st\<lparr>stCollections := map (\<lambda>(name, c). (name,
           \<lparr>colName = name, colDBID = ccDBID c, colNextID = ccNextID c, colRNum = ccRNum c,
            colIndexes = ccIndexes c, colRuntime = []\<rparr>)) (catCollections cat)\<rparr>)"

text \<open>
  Encoding a catalog as JSON text and reading it back are functions of the JSON package: the
  parameters \<open>marshal\<close> and \<open>unmarshal\<close>.
\<close>

definition encodeCatalog :: "(catalogState \<Rightarrow> bytes result) \<Rightarrow> dbState \<Rightarrow> bytes result" where
  "encodeCatalog marshal s = marshal (catalogFromState s)"

definition decodeCatalog ::
  "(bytes \<Rightarrow> catalogState result) \<Rightarrow> int64 \<Rightarrow> bytes \<Rightarrow> dbState result" where
  "decodeCatalog unmarshal now raw =
     (case unmarshal raw of
        Inl e \<Rightarrow> Inl e
      | Inr cat \<Rightarrow>
          if catFormatVersion cat \<noteq> currentFormatVersion then Inl (Coded CodeIncompatibleFormat)
          else Inr (stateFromCatalog now cat))"

text \<open>\<^verbatim>\<open>(*DB).prepareState\<close>, run after a load: names and runtime entries of every collection.\<close>

definition prepareState :: "dbState \<Rightarrow> dbState" where
  "prepareState st = st\<lparr>stCollections :=
     map (\<lambda>(name, c). (name, initRuntime (c\<lparr>colName := name\<rparr>))) (stCollections st)\<rparr>"

section \<open>The metadata report\<close>

record IndexMeta =
  imPath :: string
  imKind :: IndexKind
  imUnique :: bool
  imMode :: IndexMode
  imDBID :: int64
  imRNum :: int
  imIDBF :: int

record CollectionMeta =
  cmName :: string
  cmDBID :: int64
  cmRNum :: int
  cmIndexes :: "IndexMeta list"

record Meta =
  mVersion :: string
  mFile :: string
  mSize :: int
  mCollections :: "CollectionMeta list"

definition indexIDBF :: "indexState \<Rightarrow> int" where
  "indexIDBF idx = (if idxUnique idx then 2 else 8)"

text \<open>\<^verbatim>\<open>indexRuntimeRNum\<close>; a nil runtime is \<open>None\<close>.\<close>

definition indexRuntimeRNum :: "indexRuntime option \<Rightarrow> nat" where
  "indexRuntimeRNum rt =
     (case rt of
        None \<Rightarrow> 0
      | Some r \<Rightarrow> if idxUnique (rtDef r) then length (rtUnique r)
                  else sum_list (map (\<lambda>(_, ids). length ids) (rtMulti r)))"

definition indexMetaOf :: "indexState \<Rightarrow> IndexMeta" where
  "indexMetaOf idx =
     \<lparr>imPath = idxPath idx, imKind = idxKind idx, imUnique = idxUnique idx,
      imMode = indexMode (idxKind idx) (idxUnique idx), imDBID = idxDBID idx,
      imRNum = idxRNum idx, imIDBF = indexIDBF idx\<rparr>"

text \<open>
  The two sorts of \<^verbatim>\<open>toMeta\<close>: collections by name, indexes by path, then kind, then the non-unique
  one first. \<^verbatim>\<open>sort.Slice\<close> is not stable, but the indexes of a collection differ in these three
  fields, so that the sorted list is determined.
\<close>

definition indexMetaSortKey :: "IndexMeta \<Rightarrow> string \<times> string \<times> bool" where
  "indexMetaSortKey m = (imPath m, kindText (imKind m), imUnique m)"

definition indexMetaLess :: "IndexMeta \<Rightarrow> IndexMeta \<Rightarrow> bool" where
  "indexMetaLess i j =
     (if imPath i = imPath j then
        if kindText (imKind i) = kindText (imKind j) then \<not> imUnique i \<and> imUnique j
        else kindText (imKind i) < kindText (imKind j)
      else imPath i < imPath j)"

text \<open>Insertion sort by a less-than test, the specification of \<^verbatim>\<open>sort.Slice\<close> on distinct elements.\<close>

fun insertBy :: "('a \<Rightarrow> 'a \<Rightarrow> bool) \<Rightarrow> 'a \<Rightarrow> 'a list \<Rightarrow> 'a list" where
  "insertBy lt x [] = [x]"
| "insertBy lt x (y # ys) = (if lt y x then y # insertBy lt x ys else x # y # ys)"

definition sortBy :: "('a \<Rightarrow> 'a \<Rightarrow> bool) \<Rightarrow> 'a list \<Rightarrow> 'a list" where
  "sortBy lt xs = foldr (insertBy lt) xs []"

definition collectionMetaOf :: "string \<times> collectionState \<Rightarrow> CollectionMeta" where
  "collectionMetaOf nc =
     (case nc of (name, c) \<Rightarrow>
        \<lparr>cmName = name, cmDBID = colDBID c, cmRNum = colRNum c,
         cmIndexes = sortBy indexMetaLess (map (indexMetaOf \<circ> snd) (colIndexes c))\<rparr>)"

text \<open>\<^verbatim>\<open>toMeta\<close>; \<open>statSize\<close> is the size \<^verbatim>\<open>os.Stat\<close> reports for the path, if it reports one.\<close>

definition toMeta :: "int option \<Rightarrow> string \<Rightarrow> dbState \<Rightarrow> Meta" where
  "toMeta statSize path st =
     \<lparr>mVersion = stVersion st, mFile = path,
      mSize = (case statSize of None \<Rightarrow> 0 | Some n \<Rightarrow> n),
      mCollections = map collectionMetaOf (sort_key fst (stCollections st))\<rparr>"

section \<open>Well-formed catalogs\<close>

text \<open>
  The runtime entries of a collection mirror its index definitions, key by key; the catalog
  names every collection by its map key, and its counters have been set.
\<close>

definition runtimeSynced :: "collectionState \<Rightarrow> bool" where
  "runtimeSynced c \<longleftrightarrow> distinct (map fst (colIndexes c)) \<and>
     colRuntime c = map (\<lambda>(k, idx). (k, newRuntime idx)) (colIndexes c)"

definition wfState :: "dbState \<Rightarrow> bool" where
  "wfState st \<longleftrightarrow> stVersion st \<noteq> [] \<and> 0 < sint (stNextCollectionID st) \<and> 0 < sint (stCreatedAt st)
     \<and> distinct (map fst (stCollections st))
     \<and> (\<forall>(name, c) \<in> set (stCollections st). colName c = name \<and> runtimeSynced c)"

section \<open>Index modes: correctness\<close>

lemma and_exp_cases: "(w :: 'a :: len word) AND 2 ^ k = 0 \<or> w AND 2 ^ k = 2 ^ k"
proof (cases "bit w k")
  case True
  then have "w AND 2 ^ k = 2 ^ k"
    by (intro bit_word_eqI) (auto simp: bit_and_iff bit_exp_iff)
  then show ?thesis ..
qed (simp add: and_top_bit)

lemma mode_mask_split:
  "(m :: IndexMode) AND 0x1d = (m AND IdxUnique) OR (m AND IdxString) OR (m AND IdxInt64) OR (m AND IdxFloat)"
proof -
  have "(0x1d :: IndexMode) = IdxUnique OR IdxString OR IdxInt64 OR IdxFloat"
    by (simp add: go_simps)
  then show ?thesis by (simp only: bit.conj_disj_distrib)
qed

lemma mode_bit_cases:
  "(m :: IndexMode) AND IdxUnique = 0 \<or> m AND IdxUnique = IdxUnique"
  "m AND IdxString = 0 \<or> m AND IdxString = IdxString"
  "m AND IdxInt64 = 0 \<or> m AND IdxInt64 = IdxInt64"
  "m AND IdxFloat = 0 \<or> m AND IdxFloat = IdxFloat"
  using and_exp_cases [of m 0] and_exp_cases [of m 2] and_exp_cases [of m 3] and_exp_cases [of m 4]
  by (simp_all add: go_simps)

lemma Idx_nonzero [simp]: "IdxUnique \<noteq> 0" "IdxString \<noteq> 0" "IdxInt64 \<noteq> 0" "IdxFloat \<noteq> 0"
  by (simp_all add: go_simps)

text \<open>
  Every kind and uniqueness flag survives the trip through the mode bits that callers of
  \<^verbatim>\<open>EnsureIndexMode\<close> pass.
\<close>

theorem indexModeParts_indexMode:
  "knownKind kind \<Longrightarrow> indexModeParts (indexMode kind unique) = Inr (kind, unique)"
  by (cases kind; cases unique) (simp_all add: indexModeParts_def indexMode_def go_simps)

theorem indexModeParts_indexMode_witness:
  "indexModeParts (indexMode IndexInt64 True) = Inr (IndexInt64, True)"
  using indexModeParts_indexMode [of IndexInt64 True] by simp

text \<open>
  An accepted mode is determined, up to the bits the code does not look at, by the kind and the
  flag it is split into, and the kind is one of the three known ones.
\<close>

theorem indexMode_indexModeParts:
  "indexModeParts mode = Inr (kind, unique) \<Longrightarrow>
     knownKind kind \<and> indexMode kind unique = mode AND 0x1d"
  using mode_bit_cases [of mode]
  by (auto simp: indexModeParts_def indexMode_def Let_def mode_mask_split split: if_splits prod.splits)

theorem indexMode_indexModeParts_witness:
  "knownKind IndexFloat \<and> indexMode IndexFloat True = (0x13 :: IndexMode) AND 0x1d"
proof -
  have "indexModeParts 0x13 = Inr (IndexFloat, True)"
    by (simp add: indexModeParts_def go_simps)
  then show ?thesis by (rule indexMode_indexModeParts)
qed

lemma indexModeParts_error_iff:
  "indexModeParts mode = Inl e \<longleftrightarrow> e = Coded CodeInvalidIndexMode \<and>
     mode AND 0x1c \<noteq> IdxString \<and> mode AND 0x1c \<noteq> IdxInt64 \<and> mode AND 0x1c \<noteq> IdxFloat"
proof -
  have "(0x1c :: IndexMode) = IdxString OR IdxInt64 OR IdxFloat"
    by (simp add: go_simps)
  then have m: "mode AND 0x1c = (mode AND IdxString) OR (mode AND IdxInt64) OR (mode AND IdxFloat)"
    by (simp only: bit.conj_disj_distrib)
  show ?thesis unfolding m indexModeParts_def Let_def
    using mode_bit_cases [of mode]
    by (elim disjE) (simp_all add: go_simps, auto)
qed

section \<open>Index keys\<close>

lemma kindText_inject: "knownKind k \<Longrightarrow> knownKind k' \<Longrightarrow> kindText k = kindText k' \<longleftrightarrow> k = k'"
  by (cases k; cases k') auto

lemma indexKey_eq_iff:
  assumes "knownKind k" and "knownKind k'"
  shows "indexKey p k u = indexKey p' k' u' \<longleftrightarrow> p = p' \<and> k = k' \<and> u = u'"
proof
  assume eq: "indexKey p k u = indexKey p' k' u'"
  then have "last (indexKey p k u) = last (indexKey p' k' u') \<and> rev (indexKey p k u) = rev (indexKey p' k' u')"
    by simp
  then show "p = p' \<and> k = k' \<and> u = u'"
    using assms by (cases k; cases k'; cases u; cases u') (simp_all add: indexKey_def boolText_def)
qed simp

text \<open>
  The map key of an index definition, path, kind and flag joined with a bar, tells the indexes of
  a collection apart even when a path contains bars itself.
\<close>

theorem indexKey_inject:
  assumes "knownKind k" and "knownKind k'"
  shows "indexKey p k u = indexKey p' k' u' \<longleftrightarrow> p = p' \<and> k = k' \<and> u = u'"
  using indexKey_eq_iff [OF assms] .

theorem indexKey_inject_witness:
  "indexKey ''/a|i64'' IndexString True \<noteq> indexKey ''/a'' IndexInt64 True"
  using indexKey_inject [of IndexString IndexInt64 "''/a|i64''" True "''/a''" True] by simp

section \<open>The catalog survives persisting and reopening\<close>

lemma AList_update_fresh: "k \<notin> fst ` set xs \<Longrightarrow> AList.update k v xs = xs @ [(k, v)]"
  by (induction xs) auto

lemma fold_update_fresh:
  "distinct (map fst xs) \<Longrightarrow> fst ` set xs \<inter> fst ` set acc = {} \<Longrightarrow>
   fold (\<lambda>(k, v) rts. AList.update k (f v) rts) xs acc = acc @ map (\<lambda>(k, v). (k, f v)) xs"
proof (induction xs arbitrary: acc)
  case (Cons x xs)
  obtain k v where x: "x = (k, v)" by force
  have "AList.update k (f v) acc = acc @ [(k, f v)]"
    using Cons.prems x by (intro AList_update_fresh) auto
  moreover have "fst ` set xs \<inter> fst ` set (acc @ [(k, f v)]) = {}"
    using Cons.prems x by (auto simp: image_iff)
  ultimately show ?case using Cons.IH [of "acc @ [(k, f v)]"] Cons.prems x by simp
qed simp

lemma initRuntime_synced:
  "distinct (map fst (colIndexes c)) \<Longrightarrow> colRuntime c = [] \<Longrightarrow> runtimeSynced (initRuntime c)"
  by (simp add: runtimeSynced_def initRuntime_def fold_update_fresh)

lemma initRuntime_of_synced:
  "runtimeSynced c \<Longrightarrow> initRuntime (c\<lparr>colRuntime := []\<rparr>) = c"
  by (simp add: runtimeSynced_def initRuntime_def fold_update_fresh)

lemma prepareState_stateFromCatalog:
  assumes "wfState st"
  shows "prepareState (stateFromCatalog now (catalogFromState st)) = st"
proof -
  have "initRuntime \<lparr>colName = name, colDBID = colDBID c, colNextID = colNextID c, colRNum = colRNum c,
      colIndexes = colIndexes c, colRuntime = []\<rparr> = c" if "(name, c) \<in> set (stCollections st)" for name c
  proof -
    from that assms have "colName c = name" "runtimeSynced c" by (auto simp: wfState_def)
    then show ?thesis using initRuntime_of_synced [of c] by (cases c) auto
  qed
  then have "map (\<lambda>(name, c). (name, initRuntime \<lparr>colName = name, colDBID = colDBID c,
      colNextID = colNextID c, colRNum = colRNum c, colIndexes = colIndexes c, colRuntime = []\<rparr>))
      (stCollections st) = stCollections st"
    by (intro map_idI) auto
  then show ?thesis using assms
    by (simp add: prepareState_def stateFromCatalog_def catalogFromState_def Let_def wfState_def
        comp_def case_prod_beta' newState_def)
qed

text \<open>
  C29: what \<^verbatim>\<open>encodeCatalog\<close> writes, \<^verbatim>\<open>load\<close> reads back: for a well-formed state, decoding the persisted
  catalog and preparing it gives exactly the state that was persisted. The hypothesis on the JSON
  package is that unmarshalling the text of a catalog gives the catalog.
\<close>

theorem catalog_roundtrip:
  assumes "wfState st"
    and json: "\<And>cat raw. marshal cat = Inr raw \<Longrightarrow> unmarshal raw = Inr cat"
    and "encodeCatalog marshal st = Inr raw"
  shows "map_sum id prepareState (decodeCatalog unmarshal now raw) = Inr st"
  using assms by (simp add: encodeCatalog_def decodeCatalog_def prepareState_stateFromCatalog
    catalogFromState_def [THEN arg_cong [where f = catFormatVersion]])

theorem catalog_roundtrip_witness:
  "let idx = \<lparr>idxPath = ''/a'', idxKind = IndexInt64, idxUnique = True, idxDBID = 3, idxRNum = 0\<rparr>;
       col = \<lparr>colName = ''c'', colDBID = 2, colNextID = 7, colRNum = 1,
         colIndexes = [(''k'', idx)], colRuntime = [(''k'', newRuntime idx)]\<rparr>;
       st = \<lparr>stVersion = ''2.0-go'', stNextCollectionID = 3, stCreatedAt = 5,
         stCollections = [(''c'', col)]\<rparr>;
       cat = catalogFromState st
   in map_sum id prepareState (decodeCatalog (\<lambda>raw. if raw = [1] then Inr cat else Inl UnexpectedEOF) 9 [1]) = Inr st"
  unfolding Let_def
  by (rule catalog_roundtrip [where marshal = "\<lambda>c. if c = catalogFromState
        \<lparr>stVersion = ''2.0-go'', stNextCollectionID = 3, stCreatedAt = 5,
         stCollections = [(''c'', \<lparr>colName = ''c'', colDBID = 2, colNextID = 7, colRNum = 1,
         colIndexes = [(''k'', \<lparr>idxPath = ''/a'', idxKind = IndexInt64, idxUnique = True, idxDBID = 3, idxRNum = 0\<rparr>)],
         colRuntime = [(''k'', newRuntime \<lparr>idxPath = ''/a'', idxKind = IndexInt64, idxUnique = True, idxDBID = 3, idxRNum = 0\<rparr>)]\<rparr>)]\<rparr>
        then Inr [1] else Inl UnexpectedEOF"])
    (auto simp: wfState_def runtimeSynced_def encodeCatalog_def split: if_splits)

lemma decodeCatalog_rejects_version:
  "unmarshal raw = Inr cat \<Longrightarrow> catFormatVersion cat \<noteq> 6 \<Longrightarrow>
   decodeCatalog unmarshal now raw = Inl (Coded CodeIncompatibleFormat)"
  by (simp add: decodeCatalog_def currentFormatVersion_def)

section \<open>The metadata report is ordered\<close>

lemma set_insertBy: "set (insertBy lt x ys) = insert x (set ys)"
  by (induction ys) auto

lemma set_sortBy [simp]: "set (sortBy lt xs) = set xs"
  by (induction xs) (auto simp: sortBy_def set_insertBy)

lemma sortBy_eq_sort_key:
  assumes "\<And>a b. lt a b \<longleftrightarrow> f a < f b"
  shows "sortBy lt xs = sort_key f xs"
proof -
  have "insertBy lt x ys = insort_key f x ys" for x ys
    by (induction ys) (auto simp: assms not_le)
  then have "insertBy lt = insort_key f" by blast
  then show ?thesis by (simp add: sortBy_def sort_key_def)
qed

lemma indexMetaLess_iff: "indexMetaLess i j \<longleftrightarrow> indexMetaSortKey i < indexMetaSortKey j"
  by (auto simp: indexMetaLess_def indexMetaSortKey_def)

text \<open>
  The metadata report lists every collection exactly once, in the order of the names, and the
  indexes of each by path, then kind, then the non-unique one first.
\<close>

theorem toMeta_sorted:
  "sorted (map cmName (mCollections (toMeta sz path st)))
   \<and> mset (map cmName (mCollections (toMeta sz path st))) = mset (map fst (stCollections st))
   \<and> list_all (\<lambda>cm. sorted (map indexMetaSortKey (cmIndexes cm))) (mCollections (toMeta sz path st))"
proof -
  have n: "map cmName (map collectionMetaOf xs) = map fst xs" for xs
    by (simp add: collectionMetaOf_def comp_def case_prod_beta')
  have "sorted (map indexMetaSortKey (cmIndexes (collectionMetaOf nc)))" for nc
    by (simp add: collectionMetaOf_def case_prod_beta' sortBy_eq_sort_key [OF indexMetaLess_iff])
  then show ?thesis by (auto simp: toMeta_def n mset_map list_all_iff simp del: map_map)
qed

end
