(* ===== verification/Strconv.thy ===== *)
theory Strconv
  imports Prelude
begin

text \<open>
  What the code uses of the Go packages \<^verbatim>\<open>strconv\<close> and \<^verbatim>\<open>strings\<close>: decimal and hexadecimal text of
  integers and the parsers for it, \<^verbatim>\<open>TrimSpace\<close>, \<^verbatim>\<open>TrimPrefix\<close>, \<^verbatim>\<open>TrimSuffix\<close>, \<^verbatim>\<open>Split\<close>, \<^verbatim>\<open>Join\<close> and
  \<^verbatim>\<open>ReplaceAll\<close>, with the round trips and the order facts the components need.
\<close>

section \<open>Integers as text\<close>

definition digitChar :: "nat \<Rightarrow> char" where
  "digitChar d = (if d < 10 then char_of (48 + d) else char_of (87 + d))"

text \<open>The value of a digit character in the largest base, as \<^verbatim>\<open>strconv.ParseUint\<close> reads it.\<close>

definition digitVal :: "char \<Rightarrow> nat option" where
  "digitVal c =
     (let n = of_char c :: nat in
      if 48 \<le> n \<and> n \<le> 57 then Some (n - 48)
      else if 97 \<le> n \<and> n \<le> 122 then Some (n - 87)
      else if 65 \<le> n \<and> n \<le> 90 then Some (n - 55)
      else None)"

function fmtBase :: "nat \<Rightarrow> nat \<Rightarrow> string" where
  "fmtBase b n = (if b < 2 \<or> n < b then [digitChar n] else fmtBase b (n div b) @ [digitChar (n mod b)])"
  by pat_completeness auto
termination
  by (relation "measure snd") (auto intro: div_less_dividend)

declare fmtBase.simps [simp del]

definition FormatUint :: "uint64 \<Rightarrow> string" where
  "FormatUint v = fmtBase 10 (unat v)"

definition FormatInt :: "int64 \<Rightarrow> string" where
  "FormatInt v = (if sint v < 0 then CHR ''-'' # fmtBase 10 (nat (- sint v)) else fmtBase 10 (nat (sint v)))"

definition Itoa :: "nat \<Rightarrow> string" where
  "Itoa n = fmtBase 10 n"

fun parseDigitsAcc :: "nat \<Rightarrow> nat \<Rightarrow> string \<Rightarrow> nat option" where
  "parseDigitsAcc b acc [] = Some acc"
| "parseDigitsAcc b acc (c # cs) =
     (case digitVal c of
        None \<Rightarrow> None
      | Some d \<Rightarrow> if d < b then parseDigitsAcc b (acc * b + d) cs else None)"

text \<open>Digits only, at least one; a value of \<open>2 ^ 64\<close> or more is a range error.\<close>

definition ParseUint :: "nat \<Rightarrow> string \<Rightarrow> uint64 option" where
  "ParseUint b s =
     (if s = [] then None
      else case parseDigitsAcc b 0 s of
             None \<Rightarrow> None
           | Some n \<Rightarrow> if n < 2 ^ 64 then Some (of_nat n) else None)"

text \<open>\<^verbatim>\<open>strconv.ParseInt(s, 10, 64)\<close>: an optional sign, then digits within the signed range.\<close>

definition ParseInt :: "string \<Rightarrow> int64 option" where
  "ParseInt s =
     (if s = [] then None
      else let neg = (hd s = CHR ''-'');
               ds = (if hd s = CHR ''+'' \<or> hd s = CHR ''-'' then tl s else s)
           in if ds = [] then None
              else case parseDigitsAcc 10 0 ds of
                     None \<Rightarrow> None
                   | Some un \<Rightarrow>
                       if \<not> neg \<and> 2 ^ 63 \<le> un then None
                       else if neg \<and> 2 ^ 63 < un then None
                       else Some (if neg then - of_nat un else of_nat un))"

text \<open>\<^verbatim>\<open>strconv.Atoi\<close> on a 64-bit platform accepts what \<^verbatim>\<open>ParseInt\<close> in base ten accepts.\<close>

definition Atoi :: "string \<Rightarrow> int option" where
  "Atoi s = map_option sint (ParseInt s)"

text \<open>\<^verbatim>\<open>db.go\<close>, \<^verbatim>\<open>fixedHex64\<close>: sixteen hexadecimal digits, padded with zeros on the left.\<close>

definition fixedHex64 :: "uint64 \<Rightarrow> string" where
  "fixedHex64 v =
     (let s = fmtBase 16 (unat v)
      in if 16 \<le> length s then s else replicate (16 - length s) (CHR ''0'') @ s)"

section \<open>Strings\<close>

text \<open>The UTF-8 byte sequences of the white space that \<^verbatim>\<open>strings.TrimSpace\<close> removes.\<close>

definition spaceSeqs :: "string list" where
  "spaceSeqs = map (map char_of)
     ([[9], [10], [11], [12], [13], [32], [0xc2, 0x85], [0xc2, 0xa0], [0xe1, 0x9a, 0x80],
       [0xe2, 0x80, 0xa8], [0xe2, 0x80, 0xa9], [0xe2, 0x80, 0xaf], [0xe2, 0x81, 0x9f],
       [0xe3, 0x80, 0x80], [0xe2, 0x80, 0x80], [0xe2, 0x80, 0x81], [0xe2, 0x80, 0x82],
       [0xe2, 0x80, 0x83], [0xe2, 0x80, 0x84], [0xe2, 0x80, 0x85], [0xe2, 0x80, 0x86],
       [0xe2, 0x80, 0x87], [0xe2, 0x80, 0x88], [0xe2, 0x80, 0x89], [0xe2, 0x80, 0x8a :: nat]])"

text \<open>Remove from the front, as long as there is one, any of the sequences \<open>ws\<close> (none is empty).\<close>

function trimSeqs :: "string list \<Rightarrow> string \<Rightarrow> string" where
  "trimSeqs ws s =
     (case find (\<lambda>w. w \<noteq> [] \<and> HasPrefix s w) ws of
        None \<Rightarrow> s
      | Some w \<Rightarrow> trimSeqs ws (drop (length w) s))"
  by pat_completeness auto
termination
proof (relation "measure (length \<circ> snd)")
  fix ws s w
  assume "find (\<lambda>w. w \<noteq> [] \<and> HasPrefix s w) ws = Some w"
  then have "w \<noteq> []" "HasPrefix s w" by (auto simp: find_Some_iff)
  then show "((ws, drop (length w) s), ws, s) \<in> measure (length \<circ> snd)"
    by (auto simp: HasPrefix_iff)
qed simp

declare trimSeqs.simps [simp del]

definition TrimSpace :: "string \<Rightarrow> string" where
  "TrimSpace s = rev (trimSeqs (map rev spaceSeqs) (rev (trimSeqs spaceSeqs s)))"

definition TrimPrefix :: "string \<Rightarrow> string \<Rightarrow> string" where
  "TrimPrefix s p = (if HasPrefix s p then drop (length p) s else s)"

definition HasSuffix :: "string \<Rightarrow> string \<Rightarrow> bool" where
  "HasSuffix s p \<longleftrightarrow> HasPrefix (rev s) (rev p)"

definition TrimSuffix :: "string \<Rightarrow> string \<Rightarrow> string" where
  "TrimSuffix s p = (if HasSuffix s p then take (length s - length p) s else s)"

text \<open>\<^verbatim>\<open>strings.Split\<close> for a separator of one byte, \<^verbatim>\<open>strings.Join\<close>.\<close>

fun Split :: "char \<Rightarrow> string \<Rightarrow> string list" where
  "Split c [] = [[]]"
| "Split c (x # xs) =
     (if x = c then [] # Split c xs
      else case Split c xs of [] \<Rightarrow> [[x]] | p # ps \<Rightarrow> (x # p) # ps)"

fun Join :: "string list \<Rightarrow> string \<Rightarrow> string" where
  "Join [] sep = []"
| "Join [p] sep = p"
| "Join (p # q # ps) sep = p @ sep @ Join (q # ps) sep"

text \<open>\<^verbatim>\<open>strings.ReplaceAll\<close> of a non-empty string: leftmost, non-overlapping occurrences.\<close>

function ReplaceAll :: "string \<Rightarrow> string \<Rightarrow> string \<Rightarrow> string" where
  "ReplaceAll [] old new = []"
| "ReplaceAll (x # xs) old new =
     (if old \<noteq> [] \<and> HasPrefix (x # xs) old then new @ ReplaceAll (drop (length old) (x # xs)) old new
      else x # ReplaceAll xs old new)"
  by pat_completeness auto
termination
  by (relation "measure (\<lambda>(s, _, _). length s)") (auto simp: HasPrefix_iff neq_Nil_conv)

section \<open>Round trips\<close>

lemma of_char_char_of_lt: "n < 256 \<Longrightarrow> (of_char (char_of n :: char) :: nat) = n"
  by (simp add: of_char_of)

lemma digitVal_digitChar [simp]: "d < 36 \<Longrightarrow> digitVal (digitChar d) = Some d"
  by (auto simp: digitVal_def digitChar_def of_char_char_of_lt Let_def)

lemma parseDigitsAcc_append:
  "parseDigitsAcc b acc (xs @ ys) =
     (case parseDigitsAcc b acc xs of None \<Rightarrow> None | Some n \<Rightarrow> parseDigitsAcc b n ys)"
  by (induction xs arbitrary: acc) (auto split: option.splits)

lemma fmtBase_not_Nil [simp]: "fmtBase b n \<noteq> []"
  by (subst fmtBase.simps) simp

lemma parseDigits_fmtBase:
  assumes "2 \<le> b" and "b \<le> 36"
  shows "parseDigitsAcc b 0 (fmtBase b n) = Some n"
  using assms
proof (induction b n rule: fmtBase.induct)
  case (1 b n)
  show ?case
  proof (cases "n < b")
    case True
    with "1.prems" show ?thesis by (simp add: fmtBase.simps [of b n])
  next
    case False
    then have "fmtBase b n = fmtBase b (n div b) @ [digitChar (n mod b)]"
      using "1.prems" by (simp add: fmtBase.simps [of b n])
    moreover have "n mod b < b" using "1.prems" by simp
    moreover from this have "n mod b < 36" using "1.prems" by linarith
    ultimately show ?thesis
      using "1.IH" "1.prems" False by (simp add: parseDigitsAcc_append)
  qed
qed

lemma hd_fmtBase_10: "hd (fmtBase 10 n) \<noteq> CHR ''-'' \<and> hd (fmtBase 10 n) \<noteq> CHR ''+''"
proof -
  have "parseDigitsAcc 10 0 (fmtBase 10 n) \<noteq> None" by (simp add: parseDigits_fmtBase)
  then have "digitVal (hd (fmtBase 10 n)) \<noteq> None"
    by (cases "fmtBase 10 n") (auto split: option.splits)
  then show ?thesis by (auto simp: digitVal_def)
qed

lemma sint_int64_range: "- (2 ^ 63) \<le> sint (v :: int64)" "sint (v :: int64) < 2 ^ 63"
  using sint_range_size [of v] by (simp_all add: word_size)

theorem ParseInt_FormatInt [simp, codec_simps]: "ParseInt (FormatInt v) = Some v"
proof (cases "sint v < 0")
  case True
  have "nat (- sint v) \<le> 2 ^ 63" using sint_int64_range(1) [of v] by simp
  moreover have "- (of_nat (nat (- sint v)) :: int64) = v"
    using True by (simp add: of_int_sint)
  ultimately show ?thesis using True by (simp add: ParseInt_def FormatInt_def parseDigits_fmtBase)
next
  case False
  have "nat (sint v) < 2 ^ 63" using sint_int64_range(2) [of v] False by simp
  moreover have "(of_nat (nat (sint v)) :: int64) = v"
    using False by (simp add: of_int_sint)
  ultimately show ?thesis using False hd_fmtBase_10
    by (simp add: ParseInt_def FormatInt_def parseDigits_fmtBase)
qed

lemma FormatInt_inject: "FormatInt v = FormatInt w \<longleftrightarrow> v = w"
  by (metis ParseInt_FormatInt option.inject)

lemma Atoi_FormatInt [simp]: "Atoi (FormatInt v) = Some (sint v)"
  by (simp add: Atoi_def)

lemma sint_of_nat_small: "n < 2 ^ 63 \<Longrightarrow> sint (of_nat n :: int64) = int n"
  by (simp add: signed_of_nat signed_take_bit_int_eq_self)

lemma Atoi_Itoa: "n < 2 ^ 63 \<Longrightarrow> Atoi (Itoa n) = Some (int n)"
  using hd_fmtBase_10 [of n] sint_of_nat_small [of n]
  by (simp add: Atoi_def Itoa_def ParseInt_def parseDigits_fmtBase)

section \<open>Sixteen hexadecimal digits\<close>

fun hexFixed :: "nat \<Rightarrow> nat \<Rightarrow> string" where
  "hexFixed 0 v = []"
| "hexFixed (Suc n) v = hexFixed n (v div 16) @ [digitChar (v mod 16)]"

lemma length_hexFixed [simp]: "length (hexFixed n v) = n"
  by (induction n arbitrary: v) auto

lemma hexFixed_0: "hexFixed n 0 = replicate n (CHR ''0'')"
proof (induction n)
  case (Suc n)
  have "digitChar 0 = CHR ''0''" by code_simp
  with Suc show ?case by (simp add: replicate_append_same)
qed simp

lemma pad_fmtBase_16:
  "0 < n \<Longrightarrow> v < 16 ^ n \<Longrightarrow>
   length (fmtBase 16 v) \<le> n \<and> replicate (n - length (fmtBase 16 v)) (CHR ''0'') @ fmtBase 16 v = hexFixed n v"
proof (induction n arbitrary: v)
  case (Suc n)
  show ?case
  proof (cases "v < 16")
    case True
    then show ?thesis by (simp add: fmtBase.simps [of 16 v] hexFixed_0)
  next
    case False
    then have n: "0 < n" using Suc.prems by (cases n) auto
    have "v div 16 < 16 ^ n" using Suc.prems by (simp add: div_less_iff_less_mult)
    with Suc.IH [OF n, of "v div 16"] False show ?thesis
      by (auto simp: fmtBase.simps [of 16 v] simp flip: append_assoc)
  qed
qed simp

lemma fixedHex64_hexFixed: "fixedHex64 v = hexFixed 16 (unat v)"
proof -
  have "unat v < 16 ^ 16" using unsigned_less [of v, where 'a = nat] by simp
  then show ?thesis using pad_fmtBase_16 [of 16 "unat v"] by (auto simp: fixedHex64_def Let_def)
qed

lemma digitChar_less: "d < 16 \<Longrightarrow> e < 16 \<Longrightarrow> digitChar d < digitChar e \<longleftrightarrow> d < e"
  by (auto simp: less_char_def digitChar_def of_char_char_of_lt)

lemma div_mod_less_iff:
  assumes "0 < (k :: nat)"
  shows "a div k < b div k \<or> a div k = b div k \<and> a mod k < b mod k \<longleftrightarrow> a < b"
proof (cases "a div k" "b div k" rule: linorder_cases)
  case less
  then have "a < b" by (metis div_le_mono not_le)
  with less show ?thesis by simp
next
  case equal
  have "a < b \<longleftrightarrow> a div k * k + a mod k < b div k * k + b mod k" by (simp only: div_mult_mod_eq)
  with equal show ?thesis by (simp only: add_less_cancel_left) simp
next
  case greater
  then have "b < a" by (metis div_le_mono not_le)
  with greater show ?thesis by simp
qed

lemma hexFixed_less: "a < 16 ^ n \<Longrightarrow> b < 16 ^ n \<Longrightarrow> hexFixed n a < hexFixed n b \<longleftrightarrow> a < b"
proof (induction n arbitrary: a b)
  case (Suc n)
  have d: "a div 16 < 16 ^ n" "b div 16 < 16 ^ n"
    using Suc.prems by (simp_all add: div_less_iff_less_mult)
  have eq: "hexFixed n (a div 16) = hexFixed n (b div 16) \<longleftrightarrow> a div 16 = b div 16"
    using Suc.IH [OF d] Suc.IH [OF d(2,1)] by (metis linorder_neq_iff)
  have "hexFixed (Suc n) a < hexFixed (Suc n) b \<longleftrightarrow>
      a div 16 < b div 16 \<or> a div 16 = b div 16 \<and> a mod 16 < b mod 16"
    by (simp add: append_less_same_length Suc.IH [OF d] eq digitChar_less)
  also have "\<dots> \<longleftrightarrow> a < b"
    by (rule div_mod_less_iff) simp
  finally show ?case .
qed simp

lemma fixedHex64_less: "fixedHex64 a < fixedHex64 b \<longleftrightarrow> a < b"
proof -
  have "unat a < 16 ^ 16" "unat b < 16 ^ 16"
    using unsigned_less [of a, where 'a = nat] unsigned_less [of b, where 'a = nat] by simp_all
  then show ?thesis by (simp only: fixedHex64_hexFixed hexFixed_less word_less_nat_alt)
qed

lemma fixedHex64_inject [simp]: "fixedHex64 a = fixedHex64 b \<longleftrightarrow> a = b"
  by (metis fixedHex64_less linorder_neq_iff)

lemma length_fixedHex64 [simp]: "length (fixedHex64 v) = 16"
  by (simp add: fixedHex64_hexFixed)

lemma parseDigits_hexFixed: "v < 16 ^ n \<Longrightarrow> parseDigitsAcc 16 0 (hexFixed n v) = Some v"
proof (induction n arbitrary: v)
  case (Suc n)
  then have "v div 16 < 16 ^ n" by (simp add: div_less_iff_less_mult)
  with Suc.IH show ?case by (simp add: parseDigitsAcc_append)
qed simp

lemma ParseUint_fixedHex64 [simp, codec_simps]: "ParseUint 16 (fixedHex64 v) = Some v"
proof -
  have l: "unat v < 16 ^ 16" "unat v < 2 ^ 64" using unsigned_less [of v, where 'a = nat] by simp_all
  have "hexFixed 16 (unat v) \<noteq> []" by (metis length_hexFixed list.size(3) zero_neq_numeral)
  then show ?thesis using parseDigits_hexFixed [OF l(1)] l(2)
    by (simp add: ParseUint_def fixedHex64_hexFixed)
qed

section \<open>Splitting and joining\<close>

lemma Split_not_Nil [simp]: "Split c s \<noteq> []"
  by (cases s) (auto split: list.splits)

lemma Split_no_sep: "c \<notin> set s \<Longrightarrow> Split c s = [s]"
  by (induction s) auto

lemma Split_append_sep: "c \<notin> set p \<Longrightarrow> Split c (p @ c # s) = p # Split c s"
  by (induction p) auto

lemma Split_Join:
  "ps \<noteq> [] \<Longrightarrow> \<forall>p \<in> set ps. c \<notin> set p \<Longrightarrow> Split c (Join ps [c]) = ps"
  by (induction ps "[c]" rule: Join.induct) (auto simp: Split_no_sep Split_append_sep)

lemma Split_parts_no_sep: "p \<in> set (Split c s) \<Longrightarrow> c \<notin> set p"
  by (induction s arbitrary: p) (auto split: if_splits list.splits)

lemma Join_Split: "Join (Split c s) [c] = s"
proof (induction s)
  case (Cons x xs)
  then show ?case by (cases "Split c xs"; cases "tl (Split c xs)") auto
qed simp

end
