(* ===== verification/Values.thy ===== *)
theory Values
  imports Strconv
begin

text \<open>
  The dynamic Go values (\<^verbatim>\<open>any\<close>) the code works on: decoded JSON, query arguments and the results
  of arithmetic. Numbers decoded from JSON stay text (\<^verbatim>\<open>jsonNumber\<close>, \<^verbatim>\<open>json.go\<close>); a
  \<^verbatim>\<open>map[string]any\<close> is an association list kept sorted by key, the one representative of each
  Go map; a \<^verbatim>\<open>float64\<close> is its bit pattern. The conversions \<^verbatim>\<open>toInt64\<close>, \<^verbatim>\<open>toFloat64\<close>, \<^verbatim>\<open>toIDSlice\<close> and
  \<^verbatim>\<open>toAnySlice\<close> of \<^verbatim>\<open>query.go\<close> and the JSON reader \<^verbatim>\<open>readJSONAny\<close> are here.
\<close>

section \<open>Dynamic values\<close>

datatype int_kind = KInt | KInt64 | KInt32 | KInt16 | KInt8 | KUint | KUint64 | KUint32 | KUint16 | KUint8

type_synonym float64 = "64 word"
type_synonym float32 = "32 word"

text \<open>
  \<open>VSlice\<close> is one of the typed slices that \<^verbatim>\<open>toAnySlice\<close> knows (\<^verbatim>\<open>[]string\<close>, \<^verbatim>\<open>[]int\<close>,
  \<^verbatim>\<open>[]int64\<close>, \<^verbatim>\<open>[]float64\<close>, \<^verbatim>\<open>[]jsonNumber\<close>); \<open>VOther\<close> stands for every Go type the code names nowhere.
\<close>

datatype gv =
    VNil
  | VBool bool
  | VString string
  | VNumber string
  | VInt int_kind int
  | VFloat64 float64
  | VFloat32 float32
  | VRegexp string
  | VBytes bytes
  | VBlob bytes
  | VTyped int gv
  | VArray "gv list"
  | VObject "(string \<times> gv) list"
  | VSlice "gv list"
  | VOther nat

text \<open>
  Text conversion and addition of floating-point numbers, \<^verbatim>\<open>fmt.Sprint\<close> and regular expressions
  are given by the Go run-time library; the definitions that use them take them as one argument.
\<close>

record go_lib =
  parseFloat :: "string \<Rightarrow> float64 option"
  formatG64 :: "float64 \<Rightarrow> string"
  formatF64 :: "float64 \<Rightarrow> string"
  formatG32 :: "float32 \<Rightarrow> string"
  widenF32 :: "float32 \<Rightarrow> float64"
  narrowF64 :: "float64 \<Rightarrow> float32"
  addF64 :: "float64 \<Rightarrow> float64 \<Rightarrow> float64"
  sprint :: "gv \<Rightarrow> string"
  regexpMatch :: "string \<Rightarrow> string \<Rightarrow> bool option"

section \<open>Objects: Go maps with string keys\<close>

abbreviation objGet :: "(string \<times> 'a) list \<Rightarrow> string \<Rightarrow> 'a option" where
  "objGet \<equiv> map_of"

fun objSet :: "string \<Rightarrow> 'a \<Rightarrow> (string \<times> 'a) list \<Rightarrow> (string \<times> 'a) list" where
  "objSet k v [] = [(k, v)]"
| "objSet k v ((k', v') # kvs) =
     (if k' < k then (k', v') # objSet k v kvs
      else if k' = k then (k, v) # kvs
      else (k, v) # (k', v') # kvs)"

definition objDel :: "string \<Rightarrow> (string \<times> 'a) list \<Rightarrow> (string \<times> 'a) list" where
  "objDel k kvs = filter (\<lambda>(k', _). k' \<noteq> k) kvs"

definition objOk :: "(string \<times> 'a) list \<Rightarrow> bool" where
  "objOk kvs \<longleftrightarrow> sorted_wrt (<) (map fst kvs)"

text \<open>A well-formed value: every object in it is sorted by key, so has each key once.\<close>

fun wfv :: "gv \<Rightarrow> bool" where
  "wfv (VArray vs) = list_all wfv vs"
| "wfv (VObject kvs) = (objOk kvs \<and> list_all (\<lambda>(k, v). wfv v) kvs)"
| "wfv (VSlice vs) = list_all wfv vs"
| "wfv (VTyped t v) = wfv v"
| "wfv v = True"

section \<open>Floating-point bit patterns\<close>

text \<open>
  IEEE 754 binary64: sign bit 63, eleven exponent bits, 52 fraction bits. Comparison is that of the
  standard: a NaN is unordered, the two zeros are equal, and otherwise the magnitude bits order the
  numbers of one sign.
\<close>

definition f64Exp :: "float64 \<Rightarrow> nat" where "f64Exp u = unat u div 2 ^ 52 mod 2 ^ 11"
definition f64Frac :: "float64 \<Rightarrow> nat" where "f64Frac u = unat u mod 2 ^ 52"
definition f64Neg :: "float64 \<Rightarrow> bool" where "f64Neg u \<longleftrightarrow> 2 ^ 63 \<le> unat u"
definition f64NaN :: "float64 \<Rightarrow> bool" where "f64NaN u \<longleftrightarrow> f64Exp u = 2047 \<and> f64Frac u \<noteq> 0"

definition f64Key :: "float64 \<Rightarrow> int" where
  "f64Key u = (if f64Neg u then - (int (unat u) - 2 ^ 63) else int (unat u))"

definition f64Less :: "float64 \<Rightarrow> float64 \<Rightarrow> bool" where
  "f64Less a b \<longleftrightarrow> \<not> f64NaN a \<and> \<not> f64NaN b \<and> f64Key a < f64Key b"

definition f64Eq :: "float64 \<Rightarrow> float64 \<Rightarrow> bool" where
  "f64Eq a b \<longleftrightarrow> \<not> f64NaN a \<and> \<not> f64NaN b \<and> f64Key a = f64Key b"

text \<open>The position of the leading one bit.\<close>

fun topBit :: "nat \<Rightarrow> nat" where
  "topBit n = (if n < 2 then 0 else Suc (topBit (n div 2)))"

declare topBit.simps [simp del]

text \<open>The conversion \<^verbatim>\<open>float64(i)\<close> of an integer: round to nearest, ties to even.\<close>

definition f64OfInt :: "int \<Rightarrow> float64" where
  "f64OfInt i =
     (if i = 0 then 0
      else let m = nat \<bar>i\<bar>; e = topBit m;
               q = (if e \<le> 52 then m * 2 ^ (52 - e)
                    else let s = e - 52; q = m div 2 ^ s; r = m mod 2 ^ s
                         in if 2 ^ (s - 1) < r \<or> r = 2 ^ (s - 1) \<and> odd q then q + 1 else q)
           in of_nat ((if i < 0 then 2 ^ 63 else 0) + (e + 1022) * 2 ^ 52 + q))"

text \<open>
  The conversion \<^verbatim>\<open>int64(x)\<close>: truncation towards zero. Where the value does not fit, Go leaves the
  result to the implementation; the model has the result of amd64, the least integer.
\<close>

definition int64OfF64 :: "float64 \<Rightarrow> int64" where
  "int64OfF64 u =
     (let e = f64Exp u; m = (if e = 0 then f64Frac u else 2 ^ 52 + f64Frac u);
          n = (if e = 0 then 0
               else if 1139 < e then 2 ^ 64
               else if 1075 \<le> e then int m * 2 ^ (e - 1075)
               else int m div 2 ^ (1075 - e));
          i = (if f64Neg u then - n else n)
      in if - (2 ^ 63) \<le> i \<and> i < 2 ^ 63 then of_int i else - (2 ^ 63))"

text \<open>The test \<^verbatim>\<open>i := int64(x); float64(i) == x\<close> that several functions make.\<close>

definition f64Integral :: "float64 \<Rightarrow> int64 option" where
  "f64Integral x = (let i = int64OfF64 x in if f64Eq (f64OfInt (sint i)) x then Some i else None)"

section \<open>Conversions\<close>

text \<open>\<^verbatim>\<open>maxJBLInt64\<close> and the literal \<^verbatim>\<open>uint64(^uint64(0)>>1)\<close>.\<close>

definition maxInt64 :: int where "maxInt64 = 2 ^ 63 - 1"

fun toInt64 :: "gv \<Rightarrow> int64 option" where
  "toInt64 (VFloat64 x) = f64Integral x"
| "toInt64 (VInt KInt i) = Some (of_int i)"
| "toInt64 (VInt KInt64 i) = Some (of_int i)"
| "toInt64 (VInt KInt32 i) = Some (of_int i)"
| "toInt64 (VInt KInt16 i) = Some (of_int i)"
| "toInt64 (VInt KInt8 i) = Some (of_int i)"
| "toInt64 (VInt KUint i) = (if i \<le> maxInt64 then Some (of_int i) else None)"
| "toInt64 (VInt KUint64 i) = (if maxInt64 < i then None else Some (of_int i))"
| "toInt64 (VNumber s) = ParseInt s"
| "toInt64 (VString s) = ParseInt (TrimSpace s)"
| "toInt64 _ = None"

fun toFloat64 :: "go_lib \<Rightarrow> gv \<Rightarrow> float64 option" where
  "toFloat64 L (VFloat64 x) = Some x"
| "toFloat64 L (VFloat32 x) = Some (widenF32 L x)"
| "toFloat64 L (VInt k i) = Some (f64OfInt i)"
| "toFloat64 L (VNumber s) = parseFloat L s"
| "toFloat64 L (VString s) = parseFloat L (TrimSpace s)"
| "toFloat64 L _ = None"

fun toIDs :: "gv list \<Rightarrow> int64 list result" where
  "toIDs [] = Inr []"
| "toIDs (v # vs) =
     (case toInt64 v of
        None \<Rightarrow> Inl (Coded CodeInvalidQuery)
      | Some i \<Rightarrow> (case toIDs vs of Inl e \<Rightarrow> Inl e | Inr is \<Rightarrow> Inr (i # is)))"

fun toIDSlice :: "gv \<Rightarrow> int64 list result" where
  "toIDSlice (VArray vs) = toIDs vs"
| "toIDSlice v = (case toInt64 v of None \<Rightarrow> Inl (Coded CodeInvalidQuery) | Some i \<Rightarrow> Inr [i])"

fun toAnySlice :: "gv \<Rightarrow> gv list option" where
  "toAnySlice (VArray vs) = Some vs"
| "toAnySlice (VSlice vs) = Some vs"
| "toAnySlice _ = None"

section \<open>Reading JSON\<close>

text \<open>
  The jsontext decoder delivers tokens until its input ends or an error occurs: the list of
  tokens, and the error its next read reports (end of file included).
\<close>

datatype jtok =
    TNull | TFalse | TTrue | TString string | TNumber string
  | TBeginArray | TEndArray | TBeginObject | TEndObject

type_synonym jstream = "jtok list \<times> error"

definition EOF :: error where "EOF = Plain ''EOF''"

text \<open>
  \<^verbatim>\<open>readJSONAny\<close> and its two loops. A result of \<open>None\<close> means the recursion budget \<open>n\<close> ran out;
  \<open>readJSONAny_total\<close> below shows that the number of tokens is always enough.
\<close>

fun readJSONAny :: "nat \<Rightarrow> jstream \<Rightarrow> (gv \<times> jstream) result option"
  and readArray :: "nat \<Rightarrow> gv list \<Rightarrow> jstream \<Rightarrow> (gv \<times> jstream) result option"
  and readObject :: "nat \<Rightarrow> (string \<times> gv) list \<Rightarrow> jstream \<Rightarrow> (gv \<times> jstream) result option" where
  "readJSONAny 0 s = None"
| "readJSONAny (Suc n) (ts, e) =
     (case ts of
        [] \<Rightarrow> Some (Inl e)
      | t # ts \<Rightarrow>
          (case t of
             TNull \<Rightarrow> Some (Inr (VNil, ts, e))
           | TFalse \<Rightarrow> Some (Inr (VBool False, ts, e))
           | TTrue \<Rightarrow> Some (Inr (VBool True, ts, e))
           | TString s \<Rightarrow> Some (Inr (VString s, ts, e))
           | TNumber s \<Rightarrow> Some (Inr (VNumber s, ts, e))
           | TBeginArray \<Rightarrow> readArray n [] (ts, e)
           | TBeginObject \<Rightarrow> readObject n [] (ts, e)
           | _ \<Rightarrow> Some (Inl (Plain ''invalid JSON value''))))"
| "readArray 0 acc s = None"
| "readArray (Suc n) acc (ts, e) =
     (if ts \<noteq> [] \<and> hd ts = TEndArray then Some (Inr (VArray acc, tl ts, e))
      else case readJSONAny n (ts, e) of
             None \<Rightarrow> None
           | Some (Inl err) \<Rightarrow> Some (Inl err)
           | Some (Inr (v, s)) \<Rightarrow> readArray n (acc @ [v]) s)"
| "readObject 0 acc s = None"
| "readObject (Suc n) acc (ts, e) =
     (if ts \<noteq> [] \<and> hd ts = TEndObject then Some (Inr (VObject acc, tl ts, e))
      else case ts of
             [] \<Rightarrow> Some (Inl e)
           | name # ts \<Rightarrow>
               (case name of
                  TString key \<Rightarrow>
                    (case readJSONAny n (ts, e) of
                       None \<Rightarrow> None
                     | Some (Inl err) \<Rightarrow> Some (Inl err)
                     | Some (Inr (v, s)) \<Rightarrow> readObject n (objSet key v acc) s)
                | _ \<Rightarrow> Some (Inl (Plain ''invalid JSON object name''))))"

text \<open>\<^verbatim>\<open>decodeJSONAny\<close>: one value, then the end of the input.\<close>

definition decodeJSONAny :: "jstream \<Rightarrow> gv result option" where
  "decodeJSONAny s =
     (case readJSONAny (2 * length (fst s) + 1) s of
        None \<Rightarrow> None
      | Some (Inl e) \<Rightarrow> Some (Inl e)
      | Some (Inr (v, ts, e)) \<Rightarrow>
          Some (case ts of
                  [] \<Rightarrow> if e = EOF then Inr v else Inl e
                | _ # _ \<Rightarrow> Inl (Plain ''invalid JSON after top-level value'')))"

section \<open>Objects are maps\<close>

locale go_map =
  fixes get :: "'m \<Rightarrow> 'k \<Rightarrow> 'v option"
    and put :: "'k \<Rightarrow> 'v \<Rightarrow> 'm \<Rightarrow> 'm"
    and del :: "'k \<Rightarrow> 'm \<Rightarrow> 'm"
    and inv :: "'m \<Rightarrow> bool"
  assumes get_put: "inv m \<Longrightarrow> get (put k v m) = (get m)(k \<mapsto> v)"
    and get_del: "inv m \<Longrightarrow> get (del k m) = (get m)(k := None)"
    and inv_put: "inv m \<Longrightarrow> inv (put k v m)"
    and inv_del: "inv m \<Longrightarrow> inv (del k m)"
    and get_ext: "inv m \<Longrightarrow> inv n \<Longrightarrow> get m = get n \<Longrightarrow> m = n"
begin

lemma put_put_same: "inv m \<Longrightarrow> put k v (put k w m) = put k v m"
  by (rule get_ext) (simp_all add: get_put inv_put)

lemma put_put_commute: "inv m \<Longrightarrow> k \<noteq> l \<Longrightarrow> put k v (put l w m) = put l w (put k v m)"
  by (rule get_ext) (simp_all add: get_put inv_put fun_upd_twist)

lemma del_put_same: "inv m \<Longrightarrow> del k (put k v m) = del k m"
  by (rule get_ext) (simp_all add: get_put get_del inv_put inv_del)

lemma put_get: "inv m \<Longrightarrow> get m k = Some v \<Longrightarrow> put k v m = m"
  by (rule get_ext) (simp_all add: get_put inv_put map_upd_triv)

lemma del_absent: "inv m \<Longrightarrow> get m k = None \<Longrightarrow> del k m = m"
  by (rule get_ext) (auto simp: get_del inv_del)

lemma put_del: "inv m \<Longrightarrow> put k v (del k m) = put k v m"
  by (rule get_ext) (simp_all add: get_put get_del inv_put inv_del)

end

lemma objOk_Cons: "objOk ((k, v) # kvs) \<longleftrightarrow> (\<forall>k' \<in> fst ` set kvs. k < k') \<and> objOk kvs"
  by (auto simp: objOk_def)

lemma objOk_Nil [simp]: "objOk []"
  by (simp add: objOk_def)

lemma fst_set_objSet [simp]: "fst ` set (objSet k v kvs) = insert k (fst ` set kvs)"
  by (induction k v kvs rule: objSet.induct) auto

lemma objOk_objSet: "objOk kvs \<Longrightarrow> objOk (objSet k v kvs)"
  by (induction k v kvs rule: objSet.induct) (auto simp: objOk_Cons)

lemma objGet_objSet: "objGet (objSet k v kvs) = (objGet kvs)(k \<mapsto> v)"
  by (induction k v kvs rule: objSet.induct) (auto simp: fun_eq_iff)

lemma objGet_objDel: "objGet (objDel k kvs) = (objGet kvs)(k := None)"
  unfolding objDel_def by (induction kvs) (auto simp: fun_eq_iff)

lemma objOk_objDel: "objOk kvs \<Longrightarrow> objOk (objDel k kvs)"
  unfolding objDel_def by (induction kvs) (auto simp: objOk_Cons)

lemma objOk_ext:
  "objOk kvs \<Longrightarrow> objOk kvs' \<Longrightarrow> objGet kvs = objGet kvs' \<Longrightarrow> kvs = kvs'"
proof (induction kvs arbitrary: kvs')
  case Nil
  then show ?case by (metis map_of_eq_empty_iff)
next
  case (Cons kv kvs)
  obtain k v where kv: "kv = (k, v)" by force
  have "kvs' \<noteq> []" using Cons.prems(3) kv by (metis map_of_eq_empty_iff list.distinct(1))
  then obtain k' v' r where kvs': "kvs' = (k', v') # r" by (cases kvs') auto
  have dom_eq: "insert k (fst ` set kvs) = insert k' (fst ` set r)"
    using arg_cong [OF Cons.prems(3), of dom] by (simp only: kv kvs' dom_map_of_conv_image_fst) simp
  have k1: "\<forall>x \<in> fst ` set kvs. k < x" and k2: "\<forall>x \<in> fst ` set r. k' < x"
    using Cons.prems(1,2) by (simp_all add: kv kvs' objOk_Cons)
  have "k = k'"
  proof (rule ccontr)
    assume "k \<noteq> k'"
    have "k \<in> insert k' (fst ` set r)" unfolding dom_eq [symmetric] by simp
    then have "k \<in> fst ` set r" using \<open>k \<noteq> k'\<close> by simp
    then have lt1: "k' < k" by (rule bspec [OF k2])
    have "k' \<in> insert k (fst ` set kvs)" unfolding dom_eq by simp
    then have "k' \<in> fst ` set kvs" using \<open>k \<noteq> k'\<close> by simp
    then have lt2: "k < k'" by (rule bspec [OF k1])
    show False by (rule less_asym [OF lt1 lt2])
  qed
  moreover have "v = v'" using fun_cong [OF Cons.prems(3), of k] \<open>k = k'\<close> by (simp add: kv kvs')
  moreover have "objGet kvs = objGet r"
  proof
    fix x
    show "objGet kvs x = objGet r x"
    proof (cases "x = k")
      case True
      have "k \<notin> fst ` set kvs" "k \<notin> fst ` set r" using k1 k2 \<open>k = k'\<close> by auto
      then show ?thesis using True by (metis map_of_eq_None_iff)
    next
      case False
      then show ?thesis using fun_cong [OF Cons.prems(3), of x] \<open>k = k'\<close> by (simp add: kv kvs')
    qed
  qed
  ultimately show ?case using Cons.IH [of r] Cons.prems(1,2) by (simp add: kv kvs' objOk_Cons)
qed

interpretation obj: go_map objGet objSet objDel objOk
  by unfold_locales (simp_all add: objGet_objSet objGet_objDel objOk_objSet objOk_objDel objOk_ext)

lemma set_objSet_subset: "set (objSet k v kvs) \<subseteq> insert (k, v) (set kvs)"
  by (induction k v kvs rule: objSet.induct) auto

lemma wfv_objSet: "wfv (VObject kvs) \<Longrightarrow> wfv v \<Longrightarrow> wfv (VObject (objSet k v kvs))"
  using set_objSet_subset [of k v kvs] by (fastforce simp: objOk_objSet list_all_iff)

lemma wfv_objDel: "wfv (VObject kvs) \<Longrightarrow> wfv (VObject (objDel k kvs))"
  by (auto simp: objOk_objDel objDel_def list_all_iff) (simp add: objOk_objDel [unfolded objDel_def])

lemma wfv_objGet: "wfv (VObject kvs) \<Longrightarrow> objGet kvs k = Some v \<Longrightarrow> wfv v"
  by (auto simp: list_all_iff dest!: map_of_SomeD)

section \<open>The JSON reader\<close>

lemma readJSON_consumes:
  "readJSONAny n s = Some (Inr (v, s')) \<Longrightarrow> length (fst s') < length (fst s)"
  "readArray n acc s = Some (Inr (v, s')) \<Longrightarrow> length (fst s') < length (fst s)"
  "readObject n oacc s = Some (Inr (v, s')) \<Longrightarrow> length (fst s') < length (fst s)"
proof (induction n s and n acc s and n oacc s arbitrary: v s' and v s' and v s'
    rule: readJSONAny_readArray_readObject.induct)
  case (4 n acc ts e)
  show ?case
  proof (cases "ts \<noteq> [] \<and> hd ts = TEndArray")
    case True
    then show ?thesis using "4.prems" by (cases ts) auto
  next
    case False
    then obtain w s1 where r: "readJSONAny n (ts, e) = Some (Inr (w, s1))"
      and l: "readArray n (acc @ [w]) s1 = Some (Inr (v, s'))"
      using "4.prems" by (auto split: option.splits sum.splits)
    have "length (fst s1) < length ts" using "4.IH"(1) [OF False r] by simp
    moreover have "length (fst s') < length (fst s1)" using "4.IH"(2) [OF False r] l by auto
    ultimately show ?thesis by simp
  qed
next
  case (6 n acc ts e)
  show ?case
  proof (cases "ts \<noteq> [] \<and> hd ts = TEndObject")
    case True
    then show ?thesis using "6.prems" by (cases ts) auto
  next
    case False
    then obtain key ts' w s1 where ts: "ts = TString key # ts'"
      and r: "readJSONAny n (ts', e) = Some (Inr (w, s1))"
      and l: "readObject n (objSet key w acc) s1 = Some (Inr (v, s'))"
      using "6.prems" by (auto split: option.splits sum.splits list.splits jtok.splits)
    have "length (fst s1) < length ts'" using "6.IH"(1) [OF False ts] r by auto
    moreover have "length (fst s') < length (fst s1)" using "6.IH"(2) [OF False ts] r l by auto
    ultimately show ?thesis by (simp add: ts)
  qed
qed (fastforce split: list.splits jtok.splits)+

lemma readJSON_total:
  "2 * length (fst s) < n \<Longrightarrow> readJSONAny n s \<noteq> None"
  "2 * length (fst s) + 1 < n \<Longrightarrow> readArray n acc s \<noteq> None"
  "2 * length (fst s) + 1 < n \<Longrightarrow> readObject n oacc s \<noteq> None"
proof (induction n s and n acc s and n oacc s rule: readJSONAny_readArray_readObject.induct)
  case (4 n acc ts e)
  show ?case
  proof (cases "ts \<noteq> [] \<and> hd ts = TEndArray")
    case False
    then have "readJSONAny n (ts, e) \<noteq> None" using "4.IH"(1) "4.prems" by simp
    moreover have "readArray n (acc @ [w]) s1 \<noteq> None"
      if r: "readJSONAny n (ts, e) = Some (Inr (w, s1))" for w s1
      using "4.IH"(2) [OF False r] "4.prems" readJSON_consumes(1) [OF r] by auto
    ultimately show ?thesis using False by (auto split: sum.splits)
  qed simp
next
  case (6 n acc ts e)
  show ?case
  proof (cases "\<exists>key ts'. ts = TString key # ts'")
    case True
    then obtain key ts' where ts: "ts = TString key # ts'" by blast
    have f: "\<not> (ts \<noteq> [] \<and> hd ts = TEndObject)" by (simp add: ts)
    have "readJSONAny n (ts', e) \<noteq> None" using "6.IH"(1) [OF f ts] "6.prems" ts by simp
    moreover have "readObject n (objSet key w acc) s1 \<noteq> None"
      if r: "readJSONAny n (ts', e) = Some (Inr (w, s1))" for w s1
      using "6.IH"(2) [OF f ts] r "6.prems" ts readJSON_consumes(1) [OF r] by auto
    ultimately show ?thesis by (auto simp: ts split: sum.splits)
  qed (auto split: list.splits jtok.splits)
qed (auto split: list.splits jtok.splits)

lemma decodeJSONAny_returns: "decodeJSONAny s \<noteq> None"
  using readJSON_total(1) [of s "2 * length (fst s) + 1"]
  by (auto simp: decodeJSONAny_def split: sum.splits prod.splits)

text \<open>
  Reading a JSON document always ends: whatever tokens the decoder delivers, \<^verbatim>\<open>decodeJSONAny\<close>
  returns a value or an error within a recursion budget linear in the number of tokens.
\<close>

theorem decodeJSONAny_total: "decodeJSONAny s \<noteq> None"
  by (rule decodeJSONAny_returns)

end
