(* ===== verification/Jbl.thy ===== *)
theory Jbl
  imports Values
begin

text \<open>
  \<^verbatim>\<open>jbl.go\<close>: the Binn encoding in which documents are stored, its decoder, and the round trip
  between them. Offsets and sizes are natural numbers; the four-byte size fields keep 31 bits, as in
  the code, so that the round trip is for encodings shorter than \<open>2 ^ 31\<close> bytes.
\<close>

unbundle bit_operations_syntax
section \<open>Tags\<close>

definition binnList :: int where "binnList = 0xe0"
definition binnMap :: int where "binnMap = 0xe1"
definition binnObject :: int where "binnObject = 0xe2"
definition binnNull :: byte where "binnNull = 0x00"
definition binnTrue :: byte where "binnTrue = 0x01"
definition binnFalse :: byte where "binnFalse = 0x02"
definition binnString :: int where "binnString = 0xa0"
definition binnFloat32 :: int where "binnFloat32 = 0x62"
definition binnFloat64 :: int where "binnFloat64 = 0x82"
definition binnCurrency :: int where "binnCurrency = 0x83"
definition binnBlob :: int where "binnBlob = 0xc0"

text \<open>
  The string family: \<^verbatim>\<open>binnString\<close>, \<^verbatim>\<open>binnDateTime\<close>, \<^verbatim>\<open>binnDate\<close>, \<^verbatim>\<open>binnTime\<close>, \<^verbatim>\<open>binnDecimal\<close>,
  \<^verbatim>\<open>binnCurrencyStr\<close>, \<^verbatim>\<open>binnSingleStr\<close>, \<^verbatim>\<open>binnDoubleStr\<close>, \<^verbatim>\<open>binnHTML\<close>, \<^verbatim>\<open>binnXML\<close>, \<^verbatim>\<open>binnJSON\<close>,
  \<^verbatim>\<open>binnJavaScript\<close>, \<^verbatim>\<open>binnCSS\<close>; the blob family: \<^verbatim>\<open>binnBlob\<close>, \<^verbatim>\<open>binnJPEG\<close>, \<^verbatim>\<open>binnGIF\<close>, \<^verbatim>\<open>binnPNG\<close>,
  \<^verbatim>\<open>binnBMP\<close>.
\<close>

definition stringTags :: "int list" where
  "stringTags = [0xa0, 0xa1, 0xa2, 0xa3, 0xa4, 0xa5, 0xa6, 0xa7, 0xb001, 0xb002, 0xb003, 0xb004, 0xb005]"

definition blobTags :: "int list" where
  "blobTags = [0xc0, 0xd001, 0xd002, 0xd003, 0xd004]"

definition binnStorage :: "int \<Rightarrow> byte" where
  "binnStorage typ = (if 0xff < typ then of_int (typ div 256) AND 0xe0 else of_int typ AND 0xe0)"

definition binnTypeLen :: "int \<Rightarrow> nat" where
  "binnTypeLen typ = (if 0xff < typ then 2 else 1)"

section \<open>Encoding\<close>

definition appendBinnType :: "bytes \<Rightarrow> int \<Rightarrow> bytes" where
  "appendBinnType dst typ =
     (if 0xff < typ then dst @ [of_int (typ div 256), of_int typ] else dst @ [of_int typ])"

definition binnSizedLen :: "nat \<Rightarrow> nat" where
  "binnSizedLen v = (if 127 < v then 4 else 1)"

definition appendBinnSized :: "bytes \<Rightarrow> nat \<Rightarrow> bytes" where
  "appendBinnSized dst v =
     (if 127 < v then dst @ PutUint32 (of_nat v OR 0x80000000) else dst @ [of_nat v])"

definition appendBinnString :: "bytes \<Rightarrow> int \<Rightarrow> string \<Rightarrow> bytes" where
  "appendBinnString dst typ s =
     (let dst = appendBinnType dst typ;
          dst = appendBinnSized dst (length s);
          dst = dst @ bytes_of_string s
      in dst @ [0])"

definition appendBinnBlob :: "bytes \<Rightarrow> int \<Rightarrow> bytes \<Rightarrow> bytes" where
  "appendBinnBlob dst typ b =
     (let dst = appendBinnType dst typ;
          dst = dst @ PutUint32 (of_nat (length b))
      in dst @ b)"

text \<open>The loop of \<^verbatim>\<open>binnContainer\<close> that looks for a size consistent with the width of its own field.\<close>

definition containerNext :: "nat \<Rightarrow> nat \<Rightarrow> nat \<Rightarrow> nat" where
  "containerNext count len sz = 1 + binnSizedLen sz + binnSizedLen count + len"

function containerSize :: "nat \<Rightarrow> nat \<Rightarrow> nat \<Rightarrow> nat" where
  "containerSize count len sz =
     (let nxt = containerNext count len sz
      in if nxt = sz then sz else containerSize count len nxt)"
  by pat_completeness auto
termination
  by (relation "measure (\<lambda>(c, l, s). let f = containerNext c l in
        if f s = s then 0 else if f (f s) = f s then 1 else 2)")
     (auto simp: containerNext_def binnSizedLen_def Let_def)

declare containerSize.simps [simp del]

definition binnContainer :: "int \<Rightarrow> nat \<Rightarrow> bytes \<Rightarrow> bytes" where
  "binnContainer typ count payload =
     (let sz = containerSize count (length payload) (1 + 1 + binnSizedLen count + length payload);
          dst = appendBinnType [] typ;
          dst = appendBinnSized dst sz;
          dst = appendBinnSized dst count
      in dst @ payload)"

definition binnEncodeInt :: "int64 \<Rightarrow> bytes" where
  "binnEncodeInt v =
     (let i = sint v in
      if 0 \<le> i \<and> i \<le> 255 then [0x20, ucast v]
      else if - 128 \<le> i \<and> i \<le> 127 then [0x21, ucast v]
      else if 0 \<le> i \<and> i \<le> 65535 then 0x40 # PutUint16 (ucast v)
      else if - 32768 \<le> i \<and> i \<le> 32767 then 0x41 # PutUint16 (ucast v)
      else if 0 \<le> i \<and> i \<le> 4294967295 then 0x60 # PutUint32 (ucast v)
      else if - 2147483648 \<le> i \<and> i \<le> 2147483647 then 0x61 # PutUint32 (ucast v)
      else 0x81 # PutUint64 v)"

definition binnEncodeUint :: "int \<Rightarrow> bytes result" where
  "binnEncodeUint v = (if maxInt64 < v then Inl (Coded CodeInvalidValueType) else Inr (binnEncodeInt (of_int v)))"

definition binnEncodeFloat32 :: "float32 \<Rightarrow> bytes" where
  "binnEncodeFloat32 v = 0x62 # PutUint32 v"

definition binnEncodeDouble :: "float64 \<Rightarrow> bytes" where
  "binnEncodeDouble v = 0x82 # PutUint64 v"

definition binnEncodeIntLike :: "int \<Rightarrow> gv \<Rightarrow> bytes result" where
  "binnEncodeIntLike typ v =
     (case (case v of
              VInt KInt64 i \<Rightarrow> Some i
            | VInt KInt i \<Rightarrow> Some i
            | VInt KInt32 i \<Rightarrow> Some i
            | VInt KUint64 i \<Rightarrow> if maxInt64 < i then None else Some i
            | _ \<Rightarrow> None) of
        None \<Rightarrow> Inl (Coded CodeInvalidValueType)
      | Some i \<Rightarrow> Inr (appendBinnType [] typ @ PutUint64 (of_int i)))"

definition binnEncodeTypedValue :: "go_lib \<Rightarrow> int \<Rightarrow> gv \<Rightarrow> bytes result" where
  "binnEncodeTypedValue L typ val =
     (let bad = Inl (Coded CodeInvalidValueType) in
      if binnStorage typ = 0xa0 then
        (case val of VString s \<Rightarrow> Inr (appendBinnString [] typ s) | _ \<Rightarrow> bad)
      else if binnStorage typ = 0xc0 then
        (case val of VBytes b \<Rightarrow> Inr (appendBinnBlob [] typ b) | _ \<Rightarrow> bad)
      else if binnStorage typ = 0x60 then
        (if typ = binnFloat32 then
           (case val of
              VFloat32 x \<Rightarrow> Inr (binnEncodeFloat32 x)
            | VFloat64 x \<Rightarrow> Inr (binnEncodeFloat32 (narrowF64 L x))
            | _ \<Rightarrow> bad)
         else bad)
      else if binnStorage typ = 0x80 then
        (if typ = binnFloat64 then
           (case val of
              VFloat64 x \<Rightarrow> Inr (binnEncodeDouble x)
            | VFloat32 x \<Rightarrow> Inr (binnEncodeDouble (widenF32 L x))
            | _ \<Rightarrow> bad)
         else if typ = binnCurrency then binnEncodeIntLike typ val
         else bad)
      else bad)"

definition signedKind :: "int_kind \<Rightarrow> bool" where
  "signedKind k \<longleftrightarrow> k \<in> {KInt, KInt64, KInt32, KInt16, KInt8}"

definition maxBinnObjectKeyLen :: nat where "maxBinnObjectKeyLen = 255"

text \<open>
  \<^verbatim>\<open>binnEncodeValue\<close>, with its loops over the elements of an array and over the sorted keys of an
  object. The code tests the key lengths of an object before it encodes anything.
\<close>

fun binnEncodeValue :: "go_lib \<Rightarrow> gv \<Rightarrow> bytes result"
  and encodeItems :: "go_lib \<Rightarrow> gv list \<Rightarrow> bytes result"
  and encodeEntries :: "go_lib \<Rightarrow> (string \<times> gv) list \<Rightarrow> bytes result" where
  "binnEncodeValue L VNil = Inr [binnNull]"
| "binnEncodeValue L (VBool x) = Inr (if x then [binnTrue] else [binnFalse])"
| "binnEncodeValue L (VString x) = Inr (appendBinnString [] binnString x)"
| "binnEncodeValue L (VBlob x) = Inr (appendBinnBlob [] binnBlob x)"
| "binnEncodeValue L (VTyped t x) = binnEncodeTypedValue L t x"
| "binnEncodeValue L (VNumber x) =
     (case ParseInt x of
        Some i \<Rightarrow> Inr (binnEncodeInt i)
      | None \<Rightarrow> (case parseFloat L x of
                   None \<Rightarrow> Inl (Coded CodeInvalidValueType)
                 | Some f \<Rightarrow> Inr (binnEncodeDouble f)))"
| "binnEncodeValue L (VFloat64 x) =
     (case f64Integral x of Some i \<Rightarrow> Inr (binnEncodeInt i) | None \<Rightarrow> Inr (binnEncodeDouble x))"
| "binnEncodeValue L (VFloat32 x) = Inr (binnEncodeFloat32 x)"
| "binnEncodeValue L (VInt k x) = (if signedKind k then Inr (binnEncodeInt (of_int x)) else binnEncodeUint x)"
| "binnEncodeValue L (VArray x) =
     (case encodeItems L x of
        Inl e \<Rightarrow> Inl e
      | Inr payload \<Rightarrow> Inr (binnContainer binnList (length x) payload))"
| "binnEncodeValue L (VObject x) =
     (if \<exists>(k, v) \<in> set x. maxBinnObjectKeyLen < length k then Inl (Coded CodeInvalidValueType)
      else case encodeEntries L x of
             Inl e \<Rightarrow> Inl e
           | Inr payload \<Rightarrow> Inr (binnContainer binnObject (length x) payload))"
| "binnEncodeValue L _ = Inl (Coded CodeInvalidValueType)"
| "encodeItems L [] = Inr []"
| "encodeItems L (v # vs) =
     (case binnEncodeValue L v of
        Inl e \<Rightarrow> Inl e
      | Inr b \<Rightarrow> (case encodeItems L vs of Inl e \<Rightarrow> Inl e | Inr p \<Rightarrow> Inr (b @ p)))"
| "encodeEntries L [] = Inr []"
| "encodeEntries L ((k, v) # kvs) =
     (case binnEncodeValue L v of
        Inl e \<Rightarrow> Inl e
      | Inr b \<Rightarrow>
          (case encodeEntries L kvs of
             Inl e \<Rightarrow> Inl e
           | Inr p \<Rightarrow> Inr (of_nat (length k) # bytes_of_string k @ b @ p)))"

fun encodeStoredDocument :: "go_lib \<Rightarrow> gv \<Rightarrow> bytes result" where
  "encodeStoredDocument L (VObject kvs) = binnEncodeValue L (VObject kvs)"
| "encodeStoredDocument L (VArray vs) = binnEncodeValue L (VArray vs)"
| "encodeStoredDocument L _ = Inl (Coded CodeInvalidValueType)"

section \<open>Decoding\<close>

text \<open>The decoder is the buffer and the offset; a reader returns the value and the offset behind it.\<close>

type_synonym 'a reader = "bytes \<Rightarrow> nat \<Rightarrow> ('a \<times> nat) result"

definition rdByte :: "byte reader" where
  "rdByte buf off = (if length buf \<le> off then Inl UnexpectedEOF else Inr (buf ! off, off + 1))"

definition rdBytes :: "nat \<Rightarrow> bytes reader" where
  "rdBytes n buf off =
     (if length buf - off < n then Inl UnexpectedEOF else Inr (take n (drop off buf), off + n))"

definition rdSized :: "nat reader" where
  "rdSized buf off =
     (case rdByte buf off of
        Inl e \<Rightarrow> Inl e
      | Inr (b, o1) \<Rightarrow>
          if b AND 0x80 = 0 then Inr (unat b, o1)
          else if length buf - o1 < 3 then Inl UnexpectedEOF
          else Inr (unat (Uint32 (b # take 3 (drop o1 buf)) AND 0x7fffffff), o1 + 3))"

definition rdU16 :: "16 word reader" where
  "rdU16 buf off =
     (if length buf - off < 2 then Inl UnexpectedEOF else Inr (Uint16 (take 2 (drop off buf)), off + 2))"

definition rdU32 :: "32 word reader" where
  "rdU32 buf off =
     (if length buf - off < 4 then Inl UnexpectedEOF else Inr (Uint32 (take 4 (drop off buf)), off + 4))"

definition rdU64 :: "64 word reader" where
  "rdU64 buf off =
     (if length buf - off < 8 then Inl UnexpectedEOF else Inr (Uint64 (take 8 (drop off buf)), off + 8))"

definition rdString :: "string reader" where
  "rdString buf off =
     (case rdSized buf off of
        Inl e \<Rightarrow> Inl e
      | Inr (n, o1) \<Rightarrow>
          (case rdBytes n buf o1 of
             Inl e \<Rightarrow> Inl e
           | Inr (b, o2) \<Rightarrow>
               (case rdByte buf o2 of
                  Inl e \<Rightarrow> Inl e
                | Inr (zero, o3) \<Rightarrow>
                    if zero \<noteq> 0 then Inl (Coded CodeIncompatibleFormat) else Inr (string_of_bytes b, o3))))"

definition rdBlob :: "bytes reader" where
  "rdBlob buf off =
     (case rdU32 buf off of Inl e \<Rightarrow> Inl e | Inr (n, o1) \<Rightarrow> rdBytes (unat n) buf o1)"

definition readType :: "int reader" where
  "readType buf off =
     (case rdByte buf off of
        Inl e \<Rightarrow> Inl e
      | Inr (b, o1) \<Rightarrow>
          if b AND 0x10 \<noteq> 0 then
            (case rdByte buf o1 of
               Inl e \<Rightarrow> Inl e
             | Inr (nxt, o2) \<Rightarrow> Inr (uint b * 256 + uint nxt, o2))
          else Inr (uint b, o1))"

text \<open>\<^verbatim>\<open>containerAfterType\<close>: the number of entries and the offset where the container ends.\<close>

definition containerAfterType :: "int \<Rightarrow> (nat \<times> nat) reader" where
  "containerAfterType typ buf off =
     (case rdSized buf off of
        Inl e \<Rightarrow> Inl e
      | Inr (sz, o1) \<Rightarrow>
          (case rdSized buf o1 of
             Inl e \<Rightarrow> Inl e
           | Inr (count, o2) \<Rightarrow>
               let en = int o2 + int sz - int (binnTypeLen typ + binnSizedLen sz + binnSizedLen count)
               in if sz < 3 \<or> en < int o2 \<or> int (length buf) < en
                     \<or> typ \<notin> {binnList, binnObject, binnMap}
                  then Inl (Coded CodeIncompatibleFormat)
                  else Inr ((count, nat en), o2)))"

definition mapRead :: "('a \<Rightarrow> gv) \<Rightarrow> ('a \<times> nat) result \<Rightarrow> (gv \<times> nat) result" where
  "mapRead f r = (case r of Inl e \<Rightarrow> Inl e | Inr (x, off) \<Rightarrow> Inr (f x, off))"

text \<open>The branches of \<^verbatim>\<open>value\<close> for everything but the containers.\<close>

definition decodeScalar :: "go_lib \<Rightarrow> int \<Rightarrow> gv reader" where
  "decodeScalar L typ buf off =
     (if typ = 0x00 then Inr (VNil, off)
      else if typ = 0x01 then Inr (VBool True, off)
      else if typ = 0x02 then Inr (VBool False, off)
      else if typ = 0x20 then mapRead (\<lambda>v. VNumber (FormatUint (ucast v))) (rdByte buf off)
      else if typ = 0x21 then mapRead (\<lambda>v. VNumber (FormatInt (scast v))) (rdByte buf off)
      else if typ = 0x40 then mapRead (\<lambda>v. VNumber (FormatUint (ucast v))) (rdU16 buf off)
      else if typ = 0x41 then mapRead (\<lambda>v. VNumber (FormatInt (scast v))) (rdU16 buf off)
      else if typ = 0x60 then mapRead (\<lambda>v. VNumber (FormatUint (ucast v))) (rdU32 buf off)
      else if typ = 0x61 then mapRead (\<lambda>v. VNumber (FormatInt (scast v))) (rdU32 buf off)
      else if typ = 0x80 then mapRead (\<lambda>v. VNumber (FormatUint v)) (rdU64 buf off)
      else if typ = 0x81 \<or> typ = 0x83 then mapRead (\<lambda>v. VNumber (FormatInt v)) (rdU64 buf off)
      else if typ = 0x62 then mapRead (\<lambda>v. VNumber (formatG32 L v)) (rdU32 buf off)
      else if typ = 0x82 then mapRead (\<lambda>v. VNumber (formatG64 L v)) (rdU64 buf off)
      else if typ \<in> set stringTags then mapRead VString (rdString buf off)
      else if typ \<in> set blobTags then mapRead VBytes (rdBlob buf off)
      else Inl (Coded CodeIncompatibleFormat))"

text \<open>
  \<^verbatim>\<open>value\<close> and the loops over the entries of a list, an object and a map. \<open>None\<close> means that the
  nesting budget \<open>n\<close> ran out, which \<open>decValue_total\<close> excludes for the budget that is used.
\<close>

function decValue :: "go_lib \<Rightarrow> nat \<Rightarrow> bytes \<Rightarrow> nat \<Rightarrow> (gv \<times> nat) result option"
  and decList :: "go_lib \<Rightarrow> nat \<Rightarrow> nat \<Rightarrow> gv list \<Rightarrow> bytes \<Rightarrow> nat \<Rightarrow> (gv list \<times> nat) result option"
  and decObject :: "go_lib \<Rightarrow> nat \<Rightarrow> nat \<Rightarrow> (string \<times> gv) list \<Rightarrow> bytes \<Rightarrow> nat \<Rightarrow> ((string \<times> gv) list \<times> nat) result option"
  and decMap :: "go_lib \<Rightarrow> nat \<Rightarrow> nat \<Rightarrow> (string \<times> gv) list \<Rightarrow> bytes \<Rightarrow> nat \<Rightarrow> ((string \<times> gv) list \<times> nat) result option" where
  "decValue L 0 buf off = None"
| "decValue L (Suc n) buf off =
     (case readType buf off of
        Inl e \<Rightarrow> Some (Inl e)
      | Inr (typ, o1) \<Rightarrow>
          if typ = binnList \<or> typ = binnObject \<or> typ = binnMap then
            (case containerAfterType typ buf o1 of
               Inl e \<Rightarrow> Some (Inl e)
             | Inr ((count, en), o2) \<Rightarrow>
                 if typ = binnList then
                   (case decList L n count [] buf o2 of
                      None \<Rightarrow> None
                    | Some (Inl e) \<Rightarrow> Some (Inl e)
                    | Some (Inr (vs, o3)) \<Rightarrow>
                        Some (if o3 \<noteq> en then Inl (Coded CodeIncompatibleFormat) else Inr (VArray vs, o3)))
                 else
                   (case (if typ = binnObject then decObject L n count [] buf o2 else decMap L n count [] buf o2) of
                      None \<Rightarrow> None
                    | Some (Inl e) \<Rightarrow> Some (Inl e)
                    | Some (Inr (kvs, o3)) \<Rightarrow>
                        Some (if o3 \<noteq> en then Inl (Coded CodeIncompatibleFormat) else Inr (VObject kvs, o3))))
          else Some (decodeScalar L typ buf o1))"
| "decList L n 0 acc buf off = Some (Inr (acc, off))"
| "decList L n (Suc i) acc buf off =
     (case decValue L n buf off of
        None \<Rightarrow> None
      | Some (Inl e) \<Rightarrow> Some (Inl e)
      | Some (Inr (v, o1)) \<Rightarrow> decList L n i (acc @ [v]) buf o1)"
| "decObject L n 0 acc buf off = Some (Inr (acc, off))"
| "decObject L n (Suc i) acc buf off =
     (case rdByte buf off of
        Inl e \<Rightarrow> Some (Inl e)
      | Inr (keyLen, o1) \<Rightarrow>
          (case rdBytes (unat keyLen) buf o1 of
             Inl e \<Rightarrow> Some (Inl e)
           | Inr (key, o2) \<Rightarrow>
               (case decValue L n buf o2 of
                  None \<Rightarrow> None
                | Some (Inl e) \<Rightarrow> Some (Inl e)
                | Some (Inr (v, o3)) \<Rightarrow> decObject L n i (objSet (string_of_bytes key) v acc) buf o3)))"
| "decMap L n 0 acc buf off = Some (Inr (acc, off))"
| "decMap L n (Suc i) acc buf off =
     (case rdU32 buf off of
        Inl e \<Rightarrow> Some (Inl e)
      | Inr (k, o1) \<Rightarrow>
          (case decValue L n buf o1 of
             None \<Rightarrow> None
           | Some (Inl e) \<Rightarrow> Some (Inl e)
           | Some (Inr (v, o2)) \<Rightarrow> decMap L n i (objSet (FormatInt (scast k)) v acc) buf o2))"
  by pat_completeness auto
termination
  by (relation "measures [\<lambda>x. case x of Inl (Inl (L, n, _)) \<Rightarrow> n | Inl (Inr (L, n, _)) \<Rightarrow> n
                            | Inr (Inl (L, n, _)) \<Rightarrow> n | Inr (Inr (L, n, _)) \<Rightarrow> n,
                          \<lambda>x. case x of Inl (Inl _) \<Rightarrow> 0 | Inl (Inr (L, n, i, _)) \<Rightarrow> Suc i
                            | Inr (Inl (L, n, i, _)) \<Rightarrow> Suc i | Inr (Inr (L, n, i, _)) \<Rightarrow> Suc i]")
     auto

text \<open>\<^verbatim>\<open>binnHeader\<close>: type, size, count and header length; \<open>None\<close> where the code returns \<open>ok = false\<close>.\<close>

definition binnHeader :: "bytes \<Rightarrow> (int \<times> nat \<times> nat \<times> nat) option" where
  "binnHeader raw =
     (if length raw < 3 then None
      else case readType raw 0 of
             Inl e \<Rightarrow> None
           | Inr (typ, o1) \<Rightarrow>
               (case rdSized raw o1 of
                  Inl e \<Rightarrow> None
                | Inr (sz, o2) \<Rightarrow>
                    (case rdSized raw o2 of
                       Inl e \<Rightarrow> None
                     | Inr (count, o3) \<Rightarrow>
                         if o3 \<le> sz \<and> sz \<le> length raw then Some (typ, sz, count, o3) else None)))"

definition isJBLDocument :: "bytes \<Rightarrow> bool" where
  "isJBLDocument raw \<longleftrightarrow>
     \<not> length raw < 3 \<and>
     (case binnHeader raw of
        None \<Rightarrow> False
      | Some (typ, sz, count, header) \<Rightarrow>
          typ \<in> {binnObject, binnList, binnMap} \<and> sz = length raw \<and> header \<le> sz)"

text \<open>
  \<^verbatim>\<open>decodeStoredDocument\<close>: the canonical text, for which \<open>marshal\<close> stands, and the value. The budget
  is the number of bytes, and the outer \<open>None\<close> never occurs, as is shown below.
\<close>

definition decodeStoredDocument ::
    "go_lib \<Rightarrow> (gv \<Rightarrow> bytes result) \<Rightarrow> bytes \<Rightarrow> (bytes \<times> gv) result option" where
  "decodeStoredDocument L marshal raw =
     (if \<not> isJBLDocument raw then Some (Inl (Coded CodeIncompatibleFormat))
      else case decValue L (length raw + 1) raw 0 of
             None \<Rightarrow> None
           | Some (Inl e) \<Rightarrow> Some (Inl e)
           | Some (Inr (v, off)) \<Rightarrow>
               Some (if off \<noteq> length raw then Inl (Coded CodeIncompatibleFormat)
                     else case marshal v of Inl e \<Rightarrow> Inl e | Inr canon \<Rightarrow> Inr (canon, v)))"

section \<open>The contract: what a stored value reads back as\<close>

text \<open>
  Numbers come back as text, of the integer where the encoder found one and of the floating-point
  number otherwise; blobs and the typed values come back as plain bytes, strings and numbers.
\<close>

fun typedNorm :: "go_lib \<Rightarrow> int \<Rightarrow> gv \<Rightarrow> gv" where
  "typedNorm L t (VInt k i) = VNumber (FormatInt (of_int i))"
| "typedNorm L t (VFloat32 x) =
     VNumber (if t = binnFloat32 then formatG32 L x else formatG64 L (widenF32 L x))"
| "typedNorm L t (VFloat64 x) =
     VNumber (if t = binnFloat32 then formatG32 L (narrowF64 L x) else formatG64 L x)"
| "typedNorm L t v = v"

fun binnNorm :: "go_lib \<Rightarrow> gv \<Rightarrow> gv" where
  "binnNorm L (VBlob b) = VBytes b"
| "binnNorm L (VTyped t v) = typedNorm L t v"
| "binnNorm L (VNumber s) =
     VNumber (case ParseInt s of Some i \<Rightarrow> FormatInt i | None \<Rightarrow> formatG64 L (the (parseFloat L s)))"
| "binnNorm L (VFloat64 x) =
     VNumber (case f64Integral x of Some i \<Rightarrow> FormatInt i | None \<Rightarrow> formatG64 L x)"
| "binnNorm L (VFloat32 x) = VNumber (formatG32 L x)"
| "binnNorm L (VInt k i) = VNumber (FormatInt (of_int i))"
| "binnNorm L (VArray vs) = VArray (map (binnNorm L) vs)"
| "binnNorm L (VObject kvs) = VObject (map (\<lambda>(k, v). (k, binnNorm L v)) kvs)"
| "binnNorm L v = v"

text \<open>The typed values carry one of the tags the decoder knows.\<close>

fun tagsOk :: "gv \<Rightarrow> bool" where
  "tagsOk (VTyped t v) \<longleftrightarrow> t \<in> set stringTags \<union> set blobTags \<union> {binnFloat32, binnFloat64, binnCurrency}"
| "tagsOk (VArray vs) = list_all tagsOk vs"
| "tagsOk (VObject kvs) = list_all (\<lambda>(k, v). tagsOk v) kvs"
| "tagsOk v = True"

section \<open>Readers invert writers\<close>

lemma and_bit7: "(b :: byte) AND 0x80 = 0 \<longleftrightarrow> unat b < 128"
proof -
  have "b AND 2 ^ 7 = 0 \<longleftrightarrow> \<not> bit b 7"
    by (rule and_exp_eq_0_iff_not_bit)
  also have "bit b 7 \<longleftrightarrow> odd (unat b div 128)"
    using bit_unsigned_iff [of b 7, where 'a = nat] by (simp add: bit_iff_odd)
  also have "odd (unat b div 128) \<longleftrightarrow> \<not> unat b < 128"
  proof (cases "unat b < 128")
    case False
    then have "unat b div 128 = 1" using unat_byte_lt [of b] by (intro div_nat_eqI) simp_all
    with False show ?thesis by simp
  qed simp
  finally show ?thesis by simp
qed

lemma and_low31: "unat ((w :: 32 word) AND 0x7fffffff) = unat w mod 2 ^ 31"
proof -
  have "(0x7fffffff :: 32 word) = mask 31" by (simp add: mask_eq_exp_minus_1)
  then have "w AND 0x7fffffff = take_bit 31 w" by (simp only: take_bit_eq_mask)
  then show ?thesis by (simp add: unsigned_take_bit_eq take_bit_nat_def)
qed

lemma or_bit31: "v < 2 ^ 31 \<Longrightarrow> unat ((of_nat v :: 32 word) OR 0x80000000) = v + 2 ^ 31"
proof -
  assume v: "v < 2 ^ 31"
  have "\<not> bit (of_nat v :: 32 word) 31"
    using v bit_unsigned_iff [of "of_nat v :: 32 word" 31, where 'a = nat]
    by (simp add: unat_of_nat bit_iff_odd [where 'a = nat])
  then have "(of_nat v :: 32 word) OR 2 ^ 31 = of_nat v + 2 ^ 31"
    by (intro disjunctive_add_eq_or [symmetric] and_top_bit)
  then have "(of_nat v :: 32 word) OR 0x80000000 = of_nat (v + 2 ^ 31)" by simp
  then show ?thesis using v by (simp only: unat_of_nat) simp
qed

lemma rdByte_at: "off = length pre \<Longrightarrow> rdByte (pre @ b # post) off = Inr (b, off + 1)"
  by (simp add: rdByte_def)

lemma rdBytes_at: "off = length pre \<Longrightarrow> n = length b \<Longrightarrow> rdBytes n (pre @ b @ post) off = Inr (b, off + n)"
  by (simp add: rdBytes_def)

lemma rdU16_at: "off = length pre \<Longrightarrow> rdU16 (pre @ PutUint16 w @ post) off = Inr (w, off + 2)"
  by (simp add: rdU16_def)

lemma rdU32_at: "off = length pre \<Longrightarrow> rdU32 (pre @ PutUint32 w @ post) off = Inr (w, off + 4)"
  by (simp add: rdU32_def)

lemma rdU64_at: "off = length pre \<Longrightarrow> rdU64 (pre @ PutUint64 w @ post) off = Inr (w, off + 8)"
  by (simp add: rdU64_def)

definition encSized :: "nat \<Rightarrow> bytes" where
  "encSized v = appendBinnSized [] v"

lemma appendBinnSized_enc: "appendBinnSized dst v = dst @ encSized v"
  by (simp add: encSized_def appendBinnSized_def)

lemma length_encSized: "length (encSized v) = binnSizedLen v"
  by (simp add: encSized_def appendBinnSized_def binnSizedLen_def)

lemma rdSized_at:
  assumes "off = length pre" and "v < 2 ^ 31"
  shows "rdSized (pre @ encSized v @ post) off = Inr (v, off + binnSizedLen v)"
proof (cases "127 < v")
  case False
  then have "unat (of_nat v :: byte) = v" by (simp add: unat_of_nat)
  then show ?thesis
    using False assms by (simp add: rdSized_def encSized_def appendBinnSized_def rdByte_at and_bit7 binnSizedLen_def)
next
  case True
  define w where "w = (of_nat v OR 0x80000000 :: 32 word)"
  have w: "unat w = v + 2 ^ 31" unfolding w_def using assms(2) by (rule or_bit31)
  obtain b r where br: "PutUint32 w = b # r" "length r = 3"
    using length_PutUint(2) [of w] by (cases "PutUint32 w") auto
  have "be_nat (b # r) = v + 2 ^ 31" using be_nat_PutUint(2) [of w] by (simp only: br w)
  moreover have "be_nat r < 256 ^ 3" using be_nat_less [of r] by (simp only: br)
  ultimately have "128 \<le> unat b" by (simp add: be_nat_Cons br)
  then have "b AND 0x80 \<noteq> 0" by (simp add: and_bit7)
  moreover have "Uint32 (b # r) = w" using Uint_PutUint(2) [of w] by (simp only: br)
  moreover have "unat (w AND 0x7fffffff) = v" unfolding and_low31 w using assms(2) by simp
  ultimately show ?thesis
    using assms True by (simp add: rdSized_def encSized_def appendBinnSized_def rdByte_at br binnSizedLen_def w_def [symmetric])
qed

interpretation sized: offset_codec encSized "\<lambda>buf off. case rdSized buf off of Inl e \<Rightarrow> None | Inr r \<Rightarrow> Some r"
    "\<lambda>v. v < 2 ^ 31"
  by unfold_locales (simp add: rdSized_at length_encSized)

text \<open>One- and two-byte tags.\<close>

definition encType :: "int \<Rightarrow> bytes" where "encType t = appendBinnType [] t"

lemma appendBinnType_enc: "appendBinnType dst t = dst @ encType t"
  by (simp add: encType_def appendBinnType_def)

definition knownTag :: "int \<Rightarrow> bool" where
  "knownTag t \<longleftrightarrow> t \<in> {0, 1, 2, 0x20, 0x21, 0x40, 0x41, 0x60, 0x61, 0x80, 0x81, 0x62, 0x82, 0x83, 0xe0, 0xe1, 0xe2}
     \<union> set stringTags \<union> set blobTags"

lemma readType_at:
  assumes "knownTag t" and "off = length pre"
  shows "readType (pre @ encType t @ post) off = Inr (t, off + length (encType t))"
proof -
  have r: "rdByte (pre @ b # c # post) (Suc (length pre)) = Inr (c, length pre + 2)" for b c
    using rdByte_at [of "Suc (length pre)" "pre @ [b]" c post] by simp
  have "t \<in> {0, 1, 2, 0x20, 0x21, 0x40, 0x41, 0x60, 0x61, 0x80, 0x81, 0x62, 0x82, 0x83, 0xe0, 0xe1, 0xe2}
     \<union> set stringTags \<union> set blobTags" using assms(1) by (simp only: knownTag_def)
  then show ?thesis
    using assms(2) unfolding stringTags_def blobTags_def
    by (auto simp: readType_def encType_def appendBinnType_def rdByte_at r)
qed

section \<open>Integers\<close>

lemma uint_eq_sint: "0 \<le> sint (v :: int64) \<Longrightarrow> uint v = sint v"
  using uint_sint [of v] sint_int64_range [of v] by (simp add: take_bit_int_eq_self)

lemma sint_ucast_small:
  fixes v :: int64
  assumes "0 \<le> sint v" and "sint v < 2 ^ LENGTH('a)"
  shows "ucast (ucast v :: 'a::len word) = v"
proof (rule word_uint_eqI)
  have "take_bit LENGTH('a) (sint v) = sint v" using assms by (simp add: take_bit_int_eq_self)
  then show "uint (ucast (ucast v :: 'a word) :: int64) = uint v"
    using sint_int64_range [of v] assms(1)
    by (simp add: unsigned_ucast_eq uint_eq_sint take_bit_int_eq_self unsigned_take_bit_eq)
qed

lemma sint_scast_small:
  fixes v :: int64
  assumes "- (2 ^ (LENGTH('a) - 1)) \<le> sint v" and "sint v < 2 ^ (LENGTH('a) - 1)"
    and "LENGTH('a) \<le> 64"
  shows "scast (ucast v :: 'a::len word) = v"
proof -
  have "uint (ucast v :: 'a word) = uint (of_int (sint v) :: 'a word)"
    using assms(3) uint_sint [of v] by (simp only: unsigned_ucast_eq uint_word_of_int_eq take_bit_take_bit) simp
  then have "(ucast v :: 'a word) = of_int (sint v)" by (rule word_uint_eqI)
  then have "sint (ucast v :: 'a word) = signed_take_bit (LENGTH('a) - 1) (sint v)"
    by (simp add: signed_scast_eq)
  also have "\<dots> = sint v" using assms by (simp add: signed_take_bit_int_eq_self)
  finally have "sint (ucast v :: 'a word) = sint v" .
  then have "(of_int (sint (ucast v :: 'a word)) :: int64) = v" by simp
  then show ?thesis by simp
qed

lemma FormatUint_nonneg: "0 \<le> sint v \<Longrightarrow> FormatUint v = FormatInt v"
  by (simp add: FormatUint_def FormatInt_def uint_eq_sint [symmetric])

lemma decValue_int:
  assumes "off = length pre"
  shows "decValue L (Suc n) (pre @ binnEncodeInt v @ post) off =
    Some (Inr (VNumber (FormatInt v), off + length (binnEncodeInt v)))"
proof -
  have t: "readType (pre @ b # post') off = Inr (uint b, off + 1)" if "b AND 0x10 = 0" for b post'
    using that assms by (simp add: readType_def rdByte_at)
  have s: "rdByte (pre @ b # c # post') (Suc off) = Inr (c, off + 2)"
     "rdU16 (pre @ b # PutUint16 w16 @ post') (Suc off) = Inr (w16, off + 3)"
     "rdU32 (pre @ b # PutUint32 w32 @ post') (Suc off) = Inr (w32, off + 5)"
     "rdU64 (pre @ b # PutUint64 w64 @ post') (Suc off) = Inr (w64, off + 9)" for b c w16 w32 w64 post'
    using rdByte_at [of "Suc off" "pre @ [b]" c post'] rdU16_at [of "Suc off" "pre @ [b]" w16 post']
      rdU32_at [of "Suc off" "pre @ [b]" w32 post'] rdU64_at [of "Suc off" "pre @ [b]" w64 post'] assms by simp_all
  show ?thesis
    using sint_ucast_small [of v, where 'a = 8] sint_ucast_small [of v, where 'a = 16] sint_ucast_small [of v, where 'a = 32]
     sint_scast_small [of v, where 'a = 8] sint_scast_small [of v, where 'a = 16] sint_scast_small [of v, where 'a = 32]
    by (auto simp: binnEncodeInt_def Let_def t s decodeScalar_def mapRead_def FormatUint_nonneg binnList_def binnObject_def binnMap_def)
qed


section \<open>Round trip\<close>

lemma containerSize_fix: "containerNext count len (containerSize count len sz) = containerSize count len sz"
proof (induction count len sz rule: containerSize.induct)
  case (1 count len sz)
  then show ?case by (subst (1 2) containerSize.simps) (auto simp: Let_def)
qed

lemma binnContainer_enc:
  assumes "typ \<in> {binnList, binnObject, binnMap}"
  obtains sz where "binnContainer typ count payload = encType typ @ encSized sz @ encSized count @ payload"
    and "sz = length (binnContainer typ count payload)"
    and "sz = 1 + binnSizedLen sz + binnSizedLen count + length payload"
proof -
  define sz where "sz = containerSize count (length payload) (1 + 1 + binnSizedLen count + length payload)"
  have e: "binnContainer typ count payload = encType typ @ encSized sz @ encSized count @ payload"
    by (simp add: binnContainer_def sz_def Let_def appendBinnSized_enc appendBinnType_enc)
  have s: "sz = 1 + binnSizedLen sz + binnSizedLen count + length payload"
    using containerSize_fix [of count "length payload"] by (simp add: sz_def containerNext_def)
  have "length (encType typ) = 1"
    using assms by (auto simp: encType_def appendBinnType_def binnList_def binnObject_def binnMap_def)
  then have "length (binnContainer typ count payload) = sz"
    using s by (simp add: e length_encSized)
  with e s show thesis using that by simp
qed

lemma rdString_at:
  assumes "off = length pre" and "length s < 2 ^ 31"
  shows "rdString (pre @ encSized (length s) @ bytes_of_string s @ 0 # post) off =
    Inr (s, off + binnSizedLen (length s) + length s + 1)"
proof -
  let ?n = "encSized (length s)" let ?o = "off + binnSizedLen (length s)"
  have "rdBytes (length s) ((pre @ ?n) @ bytes_of_string s @ 0 # post) ?o = Inr (bytes_of_string s, ?o + length s)"
    by (rule rdBytes_at) (simp_all add: assms(1) length_encSized)
  moreover have "rdByte ((pre @ ?n @ bytes_of_string s) @ 0 # post) (?o + length s) = Inr (0, ?o + length s + 1)"
    by (rule rdByte_at) (simp add: assms(1) length_encSized)
  ultimately show ?thesis by (simp add: rdString_def rdSized_at [OF assms])
qed

lemma rdBlob_at:
  assumes "off = length pre" and "length b < 2 ^ 32"
  shows "rdBlob (pre @ PutUint32 (of_nat (length b)) @ b @ post) off = Inr (b, off + 4 + length b)"
proof -
  have "unat (of_nat (length b) :: 32 word) = length b" using assms by (simp add: unat_of_nat)
  then show ?thesis
    using assms rdBytes_at [of "off + 4" "pre @ PutUint32 (of_nat (length b))" "length b" b post]
    by (simp add: rdBlob_def rdU32_at)
qed

lemma tagNotContainer [simp]:
  "t \<in> set stringTags \<Longrightarrow> t \<noteq> binnList \<and> t \<noteq> binnObject \<and> t \<noteq> binnMap"
  "t \<in> set blobTags \<Longrightarrow> t \<noteq> binnList \<and> t \<noteq> binnObject \<and> t \<noteq> binnMap"
  by (auto simp: stringTags_def blobTags_def binnList_def binnObject_def binnMap_def)

lemma decodeScalar_string: "t \<in> set stringTags \<Longrightarrow> decodeScalar L t buf off = mapRead VString (rdString buf off)"
  unfolding decodeScalar_def stringTags_def by auto

lemma decodeScalar_blob: "t \<in> set blobTags \<Longrightarrow> decodeScalar L t buf off = mapRead VBytes (rdBlob buf off)"
  unfolding decodeScalar_def blobTags_def stringTags_def by auto

lemma decValue_string:
  assumes "off = length pre" and "t \<in> set stringTags" and "length (appendBinnString [] t s) < 2 ^ 31"
  shows "decValue L (Suc n) (pre @ appendBinnString [] t s @ post) off =
    Some (Inr (VString s, off + length (appendBinnString [] t s)))"
proof -
  have k: "knownTag t" using assms(2) by (simp add: knownTag_def)
  let ?o = "off + length (encType t)"
  have e: "appendBinnString [] t s = encType t @ encSized (length s) @ bytes_of_string s @ [0]"
    by (simp add: appendBinnString_def appendBinnSized_enc appendBinnType_enc Let_def)
  then have "length s < 2 ^ 31" using assms(3) by simp
  then have "rdString (pre @ encType t @ encSized (length s) @ bytes_of_string s @ 0 # post) ?o
      = Inr (s, ?o + binnSizedLen (length s) + length s + 1)"
    using rdString_at [of ?o "pre @ encType t" s post] assms(1) by simp
  then show ?thesis
    using assms(2) by (simp add: e readType_at [OF k assms(1)] decodeScalar_string mapRead_def length_encSized)
qed

lemma decValue_blob:
  assumes "off = length pre" and "t \<in> set blobTags" and "length (appendBinnBlob [] t b) < 2 ^ 31"
  shows "decValue L (Suc n) (pre @ appendBinnBlob [] t b @ post) off =
    Some (Inr (VBytes b, off + length (appendBinnBlob [] t b)))"
proof -
  have k: "knownTag t" using assms(2) by (simp add: knownTag_def)
  let ?o = "off + length (encType t)"
  have e: "appendBinnBlob [] t b = encType t @ PutUint32 (of_nat (length b)) @ b"
    by (simp add: appendBinnBlob_def appendBinnType_enc Let_def)
  then have "length b < 2 ^ 32" using assms(3) by simp
  then have "rdBlob (pre @ encType t @ PutUint32 (of_nat (length b)) @ b @ post) ?o = Inr (b, ?o + 4 + length b)"
    using rdBlob_at [of ?o "pre @ encType t" b post] assms(1) by simp
  then show ?thesis
    using assms(2) by (simp add: e readType_at [OF k assms(1)] decodeScalar_blob mapRead_def)
qed

lemma decValue_word:
  assumes "off = length pre"
  shows "decValue L (Suc n) (pre @ 0x62 # PutUint32 w @ post) off = Some (Inr (VNumber (formatG32 L w), off + 5))"
    "decValue L (Suc n) (pre @ 0x82 # PutUint64 x @ post) off = Some (Inr (VNumber (formatG64 L x), off + 9))"
    "decValue L (Suc n) (pre @ 0x83 # PutUint64 x @ post) off = Some (Inr (VNumber (FormatInt x), off + 9))"
proof -
  have t: "readType (pre @ b # post') off = Inr (uint b, off + 1)" if "b AND 0x10 = 0" for b post'
    using that assms by (simp add: readType_def rdByte_at)
  have s: "rdU32 (pre @ b # PutUint32 w @ post) (Suc off) = Inr (w, off + 5)"
    "rdU64 (pre @ b # PutUint64 x @ post) (Suc off) = Inr (x, off + 9)" for b
    using rdU32_at [of "Suc off" "pre @ [b]" w post] rdU64_at [of "Suc off" "pre @ [b]" x post] assms by simp_all
  show "decValue L (Suc n) (pre @ 0x62 # PutUint32 w @ post) off = Some (Inr (VNumber (formatG32 L w), off + 5))"
    "decValue L (Suc n) (pre @ 0x82 # PutUint64 x @ post) off = Some (Inr (VNumber (formatG64 L x), off + 9))"
    "decValue L (Suc n) (pre @ 0x83 # PutUint64 x @ post) off = Some (Inr (VNumber (FormatInt x), off + 9))"
    by (simp_all add: t s decodeScalar_def mapRead_def binnList_def binnObject_def binnMap_def)
qed

lemmas tagVals = binnFloat32_def binnFloat64_def binnCurrency_def

lemma decValue_typed:
  assumes "binnEncodeTypedValue L t v = Inr bs" and "tagsOk (VTyped t v)" and "length bs < 2 ^ 31" and "off = length pre"
  shows "decValue L (Suc n) (pre @ bs @ post) off = Some (Inr (typedNorm L t v, off + length bs))"
proof -
  have st: "t \<in> set stringTags \<Longrightarrow> binnStorage t = 0xa0" "t \<in> set blobTags \<Longrightarrow> binnStorage t = 0xc0"
    by (auto simp: stringTags_def blobTags_def binnStorage_def)
  consider "t \<in> set stringTags" | "t \<in> set blobTags" | "t = binnFloat32" | "t = binnFloat64" | "t = binnCurrency"
    using assms(2) by auto
  then show ?thesis
  proof cases
    case 1
    then obtain s where "v = VString s" "bs = appendBinnString [] t s"
      using assms(1) st by (cases v) (simp_all add: binnEncodeTypedValue_def)
    then show ?thesis using decValue_string [OF assms(4) 1] assms(3) by (simp del: decValue.simps)
  next
    case 2
    then obtain b where "v = VBytes b" "bs = appendBinnBlob [] t b"
      using assms(1) st by (cases v) (simp_all add: binnEncodeTypedValue_def)
    then show ?thesis using decValue_blob [OF assms(4) 2] assms(3) by (simp del: decValue.simps)
  next
    case 3
    then obtain w where "bs = 0x62 # PutUint32 w" "typedNorm L t v = VNumber (formatG32 L w)"
      using assms(1)
      by (cases v) (auto simp: tagVals binnEncodeTypedValue_def binnStorage_def binnEncodeFloat32_def Let_def)
    then show ?thesis using decValue_word(1) [OF assms(4)] by (simp del: decValue.simps)
  next
    case 4
    then obtain w where "bs = 0x82 # PutUint64 w" "typedNorm L t v = VNumber (formatG64 L w)"
      using assms(1)
      by (cases v) (auto simp: tagVals binnEncodeTypedValue_def binnStorage_def binnEncodeDouble_def Let_def)
    then show ?thesis using decValue_word(2) [OF assms(4)] by (simp del: decValue.simps)
  next
    case 5
    then have "binnEncodeIntLike binnCurrency v = Inr bs"
      using assms(1) by (simp add: tagVals binnEncodeTypedValue_def binnStorage_def)
    then obtain k i where "v = VInt k i" "bs = 0x83 # PutUint64 (of_int i)"
      by (auto simp: binnEncodeIntLike_def appendBinnType_def tagVals split: gv.splits int_kind.splits if_splits)
    then show ?thesis using decValue_word(3) [OF assms(4)] by (simp del: decValue.simps)
  qed
qed

lemma objSet_last: "\<forall>k' \<in> fst ` set acc. k' < k \<Longrightarrow> objSet k v acc = acc @ [(k, v)]"
  by (induction acc) auto

lemma binnContainer_not_Nil [simp]: "binnContainer t c p \<noteq> []"
  by (simp add: binnContainer_def Let_def appendBinnSized_def appendBinnType_def)

lemma binnEncodeValue_not_Nil: "binnEncodeValue L v = Inr bs \<Longrightarrow> bs \<noteq> []"
  by (cases v)
     (auto simp: appendBinnString_def appendBinnBlob_def Let_def binnEncodeInt_def binnEncodeUint_def
        binnEncodeDouble_def binnEncodeFloat32_def binnEncodeTypedValue_def binnEncodeIntLike_def appendBinnType_def
        split: sum.splits if_splits option.splits gv.splits)

lemma encodeItems_length: "encodeItems L vs = Inr p \<Longrightarrow> length vs \<le> length p"
  by (induction vs arbitrary: p)
     (fastforce dest: binnEncodeValue_not_Nil simp: Suc_le_eq neq_Nil_conv split: sum.splits)+

lemma encodeEntries_length: "encodeEntries L kvs = Inr p \<Longrightarrow> length kvs \<le> length p"
  by (induction kvs arbitrary: p) (fastforce split: sum.splits)+

lemma decValue_container:
  assumes t: "tg \<in> {binnList, binnObject}" and off: "off = length pre"
    and ln: "length (binnContainer tg count payload) < 2 ^ 31" and count: "count < 2 ^ 31"
  obtains o2 where "o2 + length payload = off + length (binnContainer tg count payload)"
    and "\<exists>pre'. pre @ binnContainer tg count payload @ post = pre' @ payload @ post \<and> length pre' = o2"
    and "readType (pre @ binnContainer tg count payload @ post) off = Inr (tg, off + 1)"
    and "containerAfterType tg (pre @ binnContainer tg count payload @ post) (off + 1)
      = Inr ((count, o2 + length payload), o2)"
proof -
  obtain sz where e: "binnContainer tg count payload = encType tg @ encSized sz @ encSized count @ payload"
    and s: "sz = length (binnContainer tg count payload)"
    and szeq: "sz = 1 + binnSizedLen sz + binnSizedLen count + length payload"
    using binnContainer_enc [of tg count payload] t by auto
  have k: "knownTag tg" using t by (auto simp: knownTag_def binnList_def binnObject_def)
  have l1: "length (encType tg) = 1" "binnTypeLen tg = 1"
    using t by (auto simp: encType_def appendBinnType_def binnTypeLen_def binnList_def binnObject_def)
  let ?buf = "pre @ binnContainer tg count payload @ post"
  let ?o1 = "off + 1 + binnSizedLen sz" let ?o2 = "off + 1 + binnSizedLen sz + binnSizedLen count"
  have "rdSized ((pre @ encType tg) @ encSized sz @ encSized count @ payload @ post) (off + 1) = Inr (sz, ?o1)"
    by (rule rdSized_at) (use l1 off ln s in simp_all)
  then have r1: "rdSized ?buf (off + 1) = Inr (sz, ?o1)" by (simp add: e)
  have "rdSized ((pre @ encType tg @ encSized sz) @ encSized count @ payload @ post) ?o1 = Inr (count, ?o2)"
    by (rule rdSized_at) (use l1 off count in \<open>simp_all add: length_encSized\<close>)
  then have r2: "rdSized ?buf ?o1 = Inr (count, ?o2)" by (simp add: e)
  have tot: "?o2 + length payload = off + length (binnContainer tg count payload)"
    unfolding s [symmetric] using szeq by linarith
  have ge: "1 \<le> binnSizedLen sz" "1 \<le> binnSizedLen count" by (simp_all add: binnSizedLen_def)
  have "containerAfterType tg ?buf (off + 1) = Inr ((count, ?o2 + length payload), ?o2)"
  proof -
    have en: "int ?o2 + int sz - int (binnTypeLen tg + binnSizedLen sz + binnSizedLen count) = int (?o2 + length payload)"
      using szeq l1 by linarith
    have "\<not> sz < 3" using szeq ge by linarith
    moreover have "\<not> int (length ?buf) < int (?o2 + length payload)" using tot off by simp
    ultimately show ?thesis
      unfolding containerAfterType_def r1 using t
      by (simp only: sum.case prod.case r2 Let_def en nat_int) auto
  qed
  moreover have "readType ?buf off = Inr (tg, off + 1)"
    using readType_at [OF k off] l1 by (simp add: e)
  moreover have "\<exists>pre'. ?buf = pre' @ payload @ post \<and> length pre' = ?o2"
    by (rule exI [of _ "pre @ encType tg @ encSized sz @ encSized count"]) (use off l1 in \<open>simp add: e length_encSized\<close>)
  ultimately show thesis using that tot by blast
qed

lemma length_binnContainer:
  assumes "tg \<in> {binnList, binnObject, binnMap}"
  shows "length payload < length (binnContainer tg count payload)"
  by (rule binnContainer_enc [OF assms, of count payload]) linarith

lemma encode_budget:
  assumes "binnEncodeValue L v = Inr bs" and "length bs \<le> n"
  obtains m where "n = Suc m"
  using binnEncodeValue_not_Nil [OF assms(1)] assms(2) that by (cases n) simp_all

lemma decValue_tag:
  assumes "off = length pre"
  shows "decValue L (Suc n) (pre @ 0 # post) off = Some (Inr (VNil, off + 1))"
    "decValue L (Suc n) (pre @ 1 # post) off = Some (Inr (VBool True, off + 1))"
    "decValue L (Suc n) (pre @ 2 # post) off = Some (Inr (VBool False, off + 1))"
  using assms
  by (simp_all add: readType_def rdByte_at decodeScalar_def binnList_def binnObject_def binnMap_def)

definition entriesOk :: "(string \<times> gv) list \<Rightarrow> bool" where
  "entriesOk kvs \<longleftrightarrow> objOk kvs \<and> list_all (\<lambda>(k, v). length k \<le> maxBinnObjectKeyLen \<and> wfv v \<and> tagsOk v) kvs"

lemma decode_encode:
  "binnEncodeValue L v = Inr bs \<Longrightarrow> wfv v \<Longrightarrow> tagsOk v \<Longrightarrow> length bs < 2 ^ 31 \<Longrightarrow> length bs \<le> n \<Longrightarrow>
     off = length pre \<Longrightarrow> decValue L n (pre @ bs @ post) off = Some (Inr (binnNorm L v, off + length bs))"
  "encodeItems L vs = Inr p \<Longrightarrow> list_all wfv vs \<Longrightarrow> list_all tagsOk vs \<Longrightarrow> length p < 2 ^ 31 \<Longrightarrow> length p \<le> n \<Longrightarrow>
     off = length pre \<Longrightarrow>
     decList L n (length vs) acc (pre @ p @ post) off = Some (Inr (acc @ map (binnNorm L) vs, off + length p))"
  "encodeEntries L kvs = Inr p \<Longrightarrow> entriesOk kvs \<Longrightarrow> \<forall>k' \<in> fst ` set oacc. \<forall>k \<in> fst ` set kvs. k' < k \<Longrightarrow>
     length p < 2 ^ 31 \<Longrightarrow> length p \<le> n \<Longrightarrow> off = length pre \<Longrightarrow>
     decObject L n (length kvs) oacc (pre @ p @ post) off =
       Some (Inr (oacc @ map (\<lambda>(k, v). (k, binnNorm L v)) kvs, off + length p))"
proof (induction L v and L vs and L kvs arbitrary: bs n off pre post and p n off pre post acc and p n off pre post oacc
    rule: binnEncodeValue_encodeItems_encodeEntries.induct)
  case (10 L x)
  then obtain p where p: "encodeItems L x = Inr p" and bs: "bs = binnContainer binnList (length x) p"
    by (auto split: sum.splits)
  have pl: "length p < length bs" unfolding bs by (rule length_binnContainer) simp
  have c: "length x < 2 ^ 31" using encodeItems_length [OF p] pl "10.prems"(4) by simp
  obtain m where n: "n = Suc m" using pl "10.prems"(5) by (cases n) auto
  obtain o2 pre' where o2: "o2 + length p = off + length bs" "pre @ bs @ post = pre' @ p @ post" "length pre' = o2"
    "readType (pre @ bs @ post) off = Inr (binnList, off + 1)"
    "containerAfterType binnList (pre @ bs @ post) (off + 1) = Inr ((length x, o2 + length p), o2)"
    using decValue_container [of binnList off pre "length x" p post] "10.prems"(4,6) c
    unfolding bs by blast
  have "decList L m (length x) [] (pre @ bs @ post) o2 = Some (Inr (map (binnNorm L) x, o2 + length p))"
    unfolding o2(2) using "10.IH" [OF p, of m o2 pre' "[]" post] "10.prems"(2-5) pl o2(3) n by simp
  then show ?case using o2(1,4,5) n by simp
next
  case (11 L x)
  then have keys: "\<forall>(k, v) \<in> set x. length k \<le> maxBinnObjectKeyLen"
    by (auto split: if_splits)
  with 11 obtain p where p: "encodeEntries L x = Inr p" and bs: "bs = binnContainer binnObject (length x) p"
    by (auto split: sum.splits if_splits)
  have nk: "\<not> (\<exists>(k, v) \<in> set x. maxBinnObjectKeyLen < length k)" using keys by fastforce
  have ok: "entriesOk x" using keys "11.prems"(2,3) by (auto simp: entriesOk_def list_all_iff)
  have pl: "length p < length bs" unfolding bs by (rule length_binnContainer) simp
  have c: "length x < 2 ^ 31" using encodeEntries_length [OF p] pl "11.prems"(4) by simp
  obtain m where n: "n = Suc m" using pl "11.prems"(5) by (cases n) auto
  obtain o2 pre' where o2: "o2 + length p = off + length bs" "pre @ bs @ post = pre' @ p @ post" "length pre' = o2"
    "readType (pre @ bs @ post) off = Inr (binnObject, off + 1)"
    "containerAfterType binnObject (pre @ bs @ post) (off + 1) = Inr ((length x, o2 + length p), o2)"
    using decValue_container [of binnObject off pre "length x" p post] "11.prems"(4,6) c
    unfolding bs by blast
  have "decObject L m (length x) [] (pre @ bs @ post) o2 =
      Some (Inr (map (\<lambda>(k, v). (k, binnNorm L v)) x, o2 + length p))"
    unfolding o2(2) using "11.IH" [OF nk p ok, of "[]" m o2 pre' post] "11.prems"(4,5) pl o2(3) n by simp
  moreover have "binnObject \<noteq> binnList" by (simp add: binnObject_def binnList_def)
  ultimately show ?case using o2(1,4,5) n by simp
next
  case (14 L v vs)
  then obtain b q where b: "binnEncodeValue L v = Inr b" and q: "encodeItems L vs = Inr q" and p: "p = b @ q"
    by (auto split: sum.splits)
  have "decValue L n (pre @ b @ q @ post) off = Some (Inr (binnNorm L v, off + length b))"
    using "14.IH"(1) [OF b] "14.prems"(2-6) by (simp add: p)
  moreover have "decList L n (length vs) (acc @ [binnNorm L v]) ((pre @ b) @ q @ post) (off + length b)
      = Some (Inr ((acc @ [binnNorm L v]) @ map (binnNorm L) vs, off + length b + length q))"
    by (rule "14.IH"(2) [OF b q]) (use "14.prems"(2-6) in \<open>simp_all add: p\<close>)
  ultimately show ?case by (simp add: p)
next
  case (16 L k v kvs)
  then obtain b q where b: "binnEncodeValue L v = Inr b" and q: "encodeEntries L kvs = Inr q"
    and p: "p = of_nat (length k) # bytes_of_string k @ b @ q"
    by (auto split: sum.splits)
  let ?buf = "pre @ p @ post" let ?l = "length k"
  have k: "?l \<le> 255" "wfv v" "tagsOk v" "entriesOk kvs" "\<forall>k' \<in> fst ` set kvs. k < k'"
    using "16.prems"(2) by (simp_all add: entriesOk_def objOk_Cons maxBinnObjectKeyLen_def)
  have "rdByte ?buf off = Inr (of_nat ?l, off + 1)" using rdByte_at [OF "16.prems"(6)] by (simp add: p)
  moreover have "unat (of_nat ?l :: byte) = ?l" using k(1) by (simp add: unat_of_nat)
  moreover have "rdBytes ?l ((pre @ [of_nat ?l]) @ bytes_of_string k @ b @ q @ post) (off + 1)
      = Inr (bytes_of_string k, off + 1 + ?l)"
    by (rule rdBytes_at) (simp_all add: "16.prems"(6))
  moreover have "decValue L n ((pre @ [of_nat ?l] @ bytes_of_string k) @ b @ q @ post) (off + 1 + ?l)
      = Some (Inr (binnNorm L v, off + 1 + ?l + length b))"
    by (rule "16.IH"(1) [OF b]) (use "16.prems"(4-6) k in \<open>simp_all add: p\<close>)
  moreover have "objSet k (binnNorm L v) oacc = oacc @ [(k, binnNorm L v)]"
    using "16.prems"(3) by (intro objSet_last) simp
  moreover have "decObject L n (length kvs) (oacc @ [(k, binnNorm L v)])
      ((pre @ [of_nat ?l] @ bytes_of_string k @ b) @ q @ post) (off + 1 + ?l + length b)
      = Some (Inr ((oacc @ [(k, binnNorm L v)]) @ map (\<lambda>(k, v). (k, binnNorm L v)) kvs, off + 1 + ?l + length b + length q))"
    by (rule "16.IH"(2) [OF b q k(4)]) (use "16.prems"(3-6) k(5) in \<open>auto simp add: p\<close>)
  ultimately show ?case by (simp add: p)
next
  case (3 L x)
  obtain m where "n = Suc m" using encode_budget [OF "3.prems"(1,5)] .
  then show ?case
    using decValue_string [of off pre binnString x L m post] "3.prems"
    by (auto simp: binnString_def stringTags_def simp del: decValue.simps)
next
  case (4 L x)
  obtain m where "n = Suc m" using encode_budget [OF "4.prems"(1,5)] .
  then show ?case
    using decValue_blob [of off pre binnBlob x L m post] "4.prems"
    by (auto simp: binnBlob_def blobTags_def simp del: decValue.simps)
next
  case (5 L t x)
  obtain m where "n = Suc m" using encode_budget [OF "5.prems"(1,5)] .
  then show ?case using decValue_typed [of L t x bs off pre m post] "5.prems" by (simp del: decValue.simps)
next
  case (6 L x)
  obtain m where "n = Suc m" using encode_budget [OF "6.prems"(1,5)] .
  then show ?case using decValue_int [OF "6.prems"(6)] decValue_word [OF "6.prems"(6)] "6.prems"(1)
    by (auto simp: binnEncodeDouble_def split: option.splits simp del: decValue.simps)
next
  case (7 L x)
  obtain m where "n = Suc m" using encode_budget [OF "7.prems"(1,5)] .
  then show ?case using decValue_int [OF "7.prems"(6)] decValue_word [OF "7.prems"(6)] "7.prems"(1)
    by (auto simp: binnEncodeDouble_def split: option.splits simp del: decValue.simps)
next
  case (8 L x)
  obtain m where "n = Suc m" using encode_budget [OF "8.prems"(1,5)] .
  then show ?case using decValue_word(1) [OF "8.prems"(6)] "8.prems"(1)
    by (auto simp: binnEncodeFloat32_def simp del: decValue.simps)
next
  case (9 L k x)
  obtain m where "n = Suc m" using encode_budget [OF "9.prems"(1,5)] .
  then show ?case using decValue_int [OF "9.prems"(6)] "9.prems"(1)
    by (auto simp: binnEncodeUint_def split: if_splits simp del: decValue.simps)
next
  case (1 L)
  obtain m where "n = Suc m" using encode_budget [OF "1.prems"(1,5)] .
  then show ?case using decValue_tag [OF "1.prems"(6)] "1.prems"(1)
    by (auto simp: binnNull_def simp del: decValue.simps)
next
  case (2 L x)
  obtain m where "n = Suc m" using encode_budget [OF "2.prems"(1,5)] .
  then show ?case using decValue_tag [OF "2.prems"(6)] "2.prems"(1)
    by (auto simp: binnTrue_def binnFalse_def split: if_splits simp del: decValue.simps)
qed simp_all

lemma rd_bounds:
  "rdByte buf off = Inr (b, o1) \<Longrightarrow> off < o1"
  "rdBytes n buf off = Inr (bb, o1) \<Longrightarrow> off \<le> o1"
  "rdU16 buf off = Inr (w2, o1) \<Longrightarrow> off \<le> o1"
  "rdU32 buf off = Inr (w4, o1) \<Longrightarrow> off \<le> o1"
  "rdU64 buf off = Inr (w8, o1) \<Longrightarrow> off \<le> o1"
  "rdSized buf off = Inr (sz, o1) \<Longrightarrow> off < o1"
  by (auto simp: rdByte_def rdBytes_def rdU16_def rdU32_def rdU64_def rdSized_def split: if_splits sum.splits)

lemma rd_bounds2:
  "rdString buf off = Inr (s, o1) \<Longrightarrow> off \<le> o1"
  "rdBlob buf off = Inr (bb, o1) \<Longrightarrow> off \<le> o1"
  "readType buf off = Inr (t, o1) \<Longrightarrow> off < o1"
  "containerAfterType t buf off = Inr (ce, o1) \<Longrightarrow> off \<le> o1"
  by (fastforce simp: rdString_def rdBlob_def readType_def containerAfterType_def Let_def
      dest: rd_bounds split: if_splits sum.splits prod.splits)+

lemma readType_in: "readType buf off = Inr (t, o1) \<Longrightarrow> off < length buf"
  by (auto simp: readType_def rdByte_def split: if_splits sum.splits)

lemma decodeScalar_mono: "decodeScalar L t buf off = Inr (v, o1) \<Longrightarrow> off \<le> o1"
  by (auto simp: decodeScalar_def mapRead_def split: if_splits sum.splits
      dest: rd_bounds rd_bounds2 less_imp_le)

lemma containerAfterType_en: "containerAfterType t buf off = Inr ((c, en), o1) \<Longrightarrow> o1 \<le> en"
  by (auto simp: containerAfterType_def Let_def split: sum.splits if_splits) arith+

lemma decValue_mono:
  assumes "decValue L n buf off = Some (Inr (v, o3))"
  shows "off \<le> o3"
proof -
  obtain m where n: "n = Suc m" using assms by (cases n) auto
  obtain t o1 where t: "readType buf off = Inr (t, o1)"
    using assms n by (cases "readType buf off") auto
  have o1: "off \<le> o1" using rd_bounds2(3) [OF t] by simp
  show ?thesis
  proof (cases "t = binnList \<or> t = binnObject \<or> t = binnMap")
    case False
    then have "decodeScalar L t buf o1 = Inr (v, o3)" using assms n t by simp
    then show ?thesis using decodeScalar_mono o1 by fastforce
  next
    case True
    then obtain c en o2 where c: "containerAfterType t buf o1 = Inr ((c, en), o2)"
      using assms n t by (cases "containerAfterType t buf o1") auto
    have "o3 = en"
      using assms True by (simp add: n t c split: option.splits sum.splits prod.splits if_splits)
    then show ?thesis using o1 rd_bounds2(4) [OF c] containerAfterType_en [OF c] by simp
  qed
qed

lemma decode_total:
  "length buf - off < n \<Longrightarrow> decValue L n buf off \<noteq> None"
  "length buf - off < n \<Longrightarrow> decList L n i acc buf off \<noteq> None"
  "length buf - off < n \<Longrightarrow> decObject L n i oacc buf off \<noteq> None"
  "length buf - off < n \<Longrightarrow> decMap L n i oacc buf off \<noteq> None"
proof (induction L n buf off and L n i acc buf off and L n i oacc buf off and L n i oacc buf off
    rule: decValue_decList_decObject_decMap.induct)
  case (2 L n buf off)
  show ?case
  proof (cases "readType buf off")
    case (Inr r)
    obtain t o1 where t: "r = (t, o1)" by force
    note rt = Inr [unfolded t]
    show ?thesis
    proof (cases "t = binnList \<or> t = binnObject \<or> t = binnMap")
      case True
      show ?thesis
      proof (cases "containerAfterType t buf o1")
        case (Inr r')
        obtain c en o2 where r': "r' = ((c, en), o2)" by (metis prod.exhaust)
        note ct = Inr [unfolded r']
        have lt: "length buf - o2 < n"
          using "2.prems" readType_in [OF rt] rd_bounds2(3) [OF rt] rd_bounds2(4) [OF ct] by linarith
        have l: "decList L n c [] buf o2 \<noteq> None" if "t = binnList"
          using "2.IH"(1) rt True ct lt that by simp
        have ob: "decObject L n c [] buf o2 \<noteq> None" if "t \<noteq> binnList" "t = binnObject"
          using "2.IH"(2) rt True ct lt that by simp
        have m: "decMap L n c [] buf o2 \<noteq> None" if "t \<noteq> binnList" "t \<noteq> binnObject"
          using "2.IH"(3) rt True ct lt that by simp
        consider "t = binnList" | "t \<noteq> binnList" "t = binnObject" | "t \<noteq> binnList" "t \<noteq> binnObject" by blast
        then show ?thesis
        proof cases
          case 1
          then show ?thesis using l rt ct by (auto split: sum.splits)
        next
          case 2
          then show ?thesis using ob rt ct by (auto split: sum.splits)
        next
          case 3
          then show ?thesis using m rt ct True by (auto split: sum.splits)
        qed
      qed (simp add: rt True)
    qed (simp add: rt)
  qed simp
next
  case (4 L n i acc buf off)
  then show ?case by (fastforce split: sum.splits dest: decValue_mono)
qed (fastforce split: sum.splits dest: rd_bounds decValue_mono)+

lemma decodeStoredDocument_returns: "decodeStoredDocument L marshal raw \<noteq> None"
  using decode_total(1) [of raw 0 "length raw + 1" L]
  by (auto simp: decodeStoredDocument_def split: sum.splits)

text \<open>
  Decoding a stored document always ends, with a document or an error, whatever bytes the store
  holds: the nesting budget of one level per byte is never used up.
\<close>

lemma decodeStoredDocument_total: "decodeStoredDocument L marshal raw \<noteq> None"
  by (rule decodeStoredDocument_returns)

lemma isJBLDocument_container:
  assumes "tg \<in> {binnList, binnObject}" and "length (binnContainer tg count p) < 2 ^ 31" and "count \<le> length p"
  shows "isJBLDocument (binnContainer tg count p)"
proof -
  let ?raw = "binnContainer tg count p"
  obtain sz where e: "?raw = encType tg @ encSized sz @ encSized count @ p" and s: "sz = length ?raw"
    and szeq: "sz = 1 + binnSizedLen sz + binnSizedLen count + length p"
    using binnContainer_enc [of tg count p] assms(1) by auto
  have k: "knownTag tg" using assms(1) by (auto simp: knownTag_def binnList_def binnObject_def)
  have l1: "length (encType tg) = 1"
    using assms(1) by (auto simp: encType_def appendBinnType_def binnList_def binnObject_def)
  let ?h = "1 + binnSizedLen sz + binnSizedLen count"
  have r1: "readType ?raw 0 = Inr (tg, 1)" using readType_at [OF k, of 0 "[]"] l1 by (simp add: e)
  have "rdSized (encType tg @ encSized sz @ encSized count @ p) 1 = Inr (sz, 1 + binnSizedLen sz)"
    by (rule rdSized_at) (use assms(2) s l1 in simp_all)
  then have r2: "rdSized ?raw 1 = Inr (sz, 1 + binnSizedLen sz)" by (simp only: e)
  have "count < 2 ^ 31" using assms(2,3) szeq unfolding s [symmetric] by linarith
  then have "rdSized ((encType tg @ encSized sz) @ encSized count @ p) (1 + binnSizedLen sz) = Inr (count, ?h)"
    by (intro rdSized_at) (simp_all add: length_encSized l1)
  then have r3: "rdSized ?raw (1 + binnSizedLen sz) = Inr (count, ?h)" by (simp only: e append_assoc)
  have ge: "?h \<le> sz" "\<not> sz < 3" using szeq by (auto simp: binnSizedLen_def split: if_splits)
  have "binnHeader ?raw = Some (tg, sz, count, ?h)"
    using ge by (simp only: binnHeader_def r1 r2 r3 sum.case prod.case s [symmetric]) simp
  then show ?thesis using assms(1) ge unfolding isJBLDocument_def s [symmetric] by auto
qed

lemma isJBLDocument_encoded:
  assumes "encodeStoredDocument L doc = Inr raw" and "length raw < 2 ^ 31"
  shows "isJBLDocument raw"
  using assms isJBLDocument_container encodeItems_length encodeEntries_length
  by (cases doc) (auto split: sum.splits if_splits)

lemma decodeStored_encodeStored:
  assumes "encodeStoredDocument L doc = Inr raw" and "wfv doc" and "tagsOk doc" and "length raw < 2 ^ 31"
  shows "decodeStoredDocument L marshal raw =
    Some (case marshal (binnNorm L doc) of Inl e \<Rightarrow> Inl e | Inr canon \<Rightarrow> Inr (canon, binnNorm L doc))"
proof -
  have "binnEncodeValue L doc = Inr raw" using assms(1) by (cases doc) auto
  then have "decValue L (length raw + 1) raw 0 = Some (Inr (binnNorm L doc, length raw))"
    using decode_encode(1) [of L doc raw "length raw + 1" 0 "[]" "[]"] assms(2-4) by simp
  then show ?thesis
    using isJBLDocument_encoded [OF assms(1,4)] by (simp add: decodeStoredDocument_def split: sum.splits)
qed

text \<open>
  C19: a document that was stored is read back: the decoder accepts the bytes the encoder wrote, and
  finds exactly the document, up to the number formatting and the typed values that \<open>binnNorm\<close> describes.
  Nothing is lost, reordered or truncated, whatever the nesting, as long as the encoding is shorter than
  two gigabytes, the range of the size fields.
\<close>

theorem stored_document_roundtrip:
  assumes "encodeStoredDocument L doc = Inr raw" and "wfv doc" and "tagsOk doc" and "length raw < 2 ^ 31"
  shows "decodeStoredDocument L marshal raw =
    Some (case marshal (binnNorm L doc) of Inl e \<Rightarrow> Inl e | Inr canon \<Rightarrow> Inr (canon, binnNorm L doc))"
  using decodeStored_encodeStored [OF assms] .

definition sampleDoc :: gv where
  "sampleDoc = VObject [(''a'', VNumber ''007''), (''b'', VArray [VBool True, VNil])]"

definition sampleRaw :: bytes where
  "sampleRaw = [0xe2, 14, 2, 1, 0x61, 0x20, 7, 1, 0x62, 0xe0, 5, 2, 1, 0]"

lemma sample_encoded: "encodeStoredDocument L sampleDoc = Inr sampleRaw"
proof -
  have "ParseInt ''007'' = Some 7" by (simp add: ParseInt_def digitVal_def)
  then show ?thesis
    by (simp add: sampleDoc_def sampleRaw_def binnContainer_def containerSize.simps containerNext_def
        binnSizedLen_def appendBinnType_def appendBinnSized_def binnEncodeInt_def bytes_of_string_def
        binnObject_def binnList_def binnTrue_def binnNull_def maxBinnObjectKeyLen_def Let_def)
qed

theorem stored_document_roundtrip_witness:
  "\<forall>L. decodeStoredDocument L (\<lambda>_. Inr []) sampleRaw =
     Some (Inr ([], VObject [(''a'', VNumber ''7''), (''b'', VArray [VBool True, VNil])]))"
proof
  fix L
  have n: "binnNorm L sampleDoc = VObject [(''a'', VNumber ''7''), (''b'', VArray [VBool True, VNil])]"
  proof -
    have "ParseInt ''007'' = Some 7" "FormatInt 7 = ''7''"
      by (simp_all add: ParseInt_def digitVal_def FormatInt_def fmtBase.simps digitChar_def char_of_def bit_0)
    then show ?thesis by (simp add: sampleDoc_def)
  qed
  have "wfv sampleDoc" "tagsOk sampleDoc" "length sampleRaw < 2 ^ 31"
    by (simp_all add: sampleDoc_def sampleRaw_def objOk_Cons)
  then show "decodeStoredDocument L (\<lambda>_. Inr []) sampleRaw =
     Some (Inr ([], VObject [(''a'', VNumber ''7''), (''b'', VArray [VBool True, VNil])]))"
    using stored_document_roundtrip [OF sample_encoded, of L "\<lambda>_. Inr []"] by (simp add: n)
qed

text \<open>
  The documents the encoder accepts, for a value decoded from JSON: an object or an array at the root,
  object keys of at most 255 bytes, and numbers that parse as an \<^verbatim>\<open>int64\<close> or a \<^verbatim>\<open>float64\<close>.
\<close>

fun jsonValue :: "gv \<Rightarrow> bool" where
  "jsonValue VNil = True"
| "jsonValue (VBool b) = True"
| "jsonValue (VString s) = True"
| "jsonValue (VNumber s) = True"
| "jsonValue (VArray vs) = list_all jsonValue vs"
| "jsonValue (VObject kvs) = list_all (\<lambda>(k, v). jsonValue v) kvs"
| "jsonValue _ = False"

fun storable :: "go_lib \<Rightarrow> gv \<Rightarrow> bool" where
  "storable L (VNumber s) \<longleftrightarrow> ParseInt s \<noteq> None \<or> parseFloat L s \<noteq> None"
| "storable L (VArray vs) \<longleftrightarrow> list_all (storable L) vs"
| "storable L (VObject kvs) \<longleftrightarrow> list_all (\<lambda>(k, v). length k \<le> maxBinnObjectKeyLen \<and> storable L v) kvs"
| "storable L v = True"

definition rootContainer :: "gv \<Rightarrow> bool" where
  "rootContainer v \<longleftrightarrow> (\<exists>vs. v = VArray vs) \<or> (\<exists>kvs. v = VObject kvs)"

lemma encode_ok_iff:
  "jsonValue v \<Longrightarrow> (\<exists>bs. binnEncodeValue L v = Inr bs) \<longleftrightarrow> storable L v"
  "list_all jsonValue vs \<Longrightarrow> (\<exists>p. encodeItems L vs = Inr p) \<longleftrightarrow> list_all (storable L) vs"
  "list_all (\<lambda>(k, v). jsonValue v) kvs \<Longrightarrow>
     (\<exists>p. encodeEntries L kvs = Inr p) \<longleftrightarrow> list_all (\<lambda>(k, v). storable L v) kvs"
proof (induction L v and L vs and L kvs rule: binnEncodeValue_encodeItems_encodeEntries.induct)
  case (11 L x)
  show ?case
  proof (cases "\<exists>(k, v) \<in> set x. maxBinnObjectKeyLen < length k")
    case True
    then have "\<not> storable L (VObject x)" by (fastforce simp: list_all_iff)
    with True show ?thesis by simp
  next
    case False
    then have "storable L (VObject x) \<longleftrightarrow> list_all (\<lambda>(k, v). storable L v) x"
      by (fastforce simp: list_all_iff)
    with False 11 show ?thesis by (auto split: sum.splits)
  qed
qed (auto split: sum.splits option.splits)

lemma encode_error_code:
  "binnEncodeValue L v = Inl e \<Longrightarrow> e = Coded CodeInvalidValueType"
  "encodeItems L vs = Inl e \<Longrightarrow> e = Coded CodeInvalidValueType"
  "encodeEntries L kvs = Inl e \<Longrightarrow> e = Coded CodeInvalidValueType"
  by (induction L v and L vs and L kvs rule: binnEncodeValue_encodeItems_encodeEntries.induct)
     (auto simp: binnEncodeTypedValue_def binnEncodeIntLike_def binnEncodeUint_def Let_def
       split: sum.splits if_splits option.splits gv.splits)

text \<open>
  C34: the encoder accepts exactly the storable documents, and whatever it refuses it refuses with the
  code for an invalid value type.
\<close>

theorem encodeStoredDocument_accepts:
  assumes "jsonValue doc"
  shows "if rootContainer doc \<and> storable L doc then \<exists>raw. encodeStoredDocument L doc = Inr raw
         else encodeStoredDocument L doc = Inl (Coded CodeInvalidValueType)"
proof -
  have "encodeStoredDocument L doc = binnEncodeValue L doc" if "rootContainer doc"
    using that by (auto simp: rootContainer_def)
  moreover have "encodeStoredDocument L doc = Inl (Coded CodeInvalidValueType)" if "\<not> rootContainer doc"
    using that by (cases doc) (auto simp: rootContainer_def)
  ultimately show ?thesis
    using encode_ok_iff(1) [OF assms, of L] encode_error_code(1) [of L doc]
    by (cases "binnEncodeValue L doc") auto
qed

theorem encodeStoredDocument_accepts_witness:
  "\<forall>L. (\<exists>raw. encodeStoredDocument L (VArray [VString ''x'']) = Inr raw)
       \<and> encodeStoredDocument L (VString ''x'') = Inl (Coded CodeInvalidValueType)"
proof
  fix L
  show "(\<exists>raw. encodeStoredDocument L (VArray [VString ''x'']) = Inr raw)
       \<and> encodeStoredDocument L (VString ''x'') = Inl (Coded CodeInvalidValueType)"
    using encodeStoredDocument_accepts [of "VArray [VString ''x'']" L]
      encodeStoredDocument_accepts [of "VString ''x''" L]
    by (simp add: rootContainer_def)
qed

text \<open>What the decoder returned is stored without further change, when its numbers are integers.\<close>

fun intNumbers :: "gv \<Rightarrow> bool" where
  "intNumbers (VNumber s) \<longleftrightarrow> (\<exists>i. s = FormatInt i)"
| "intNumbers (VArray vs) = list_all intNumbers vs"
| "intNumbers (VObject kvs) = list_all (\<lambda>(k, v). intNumbers v) kvs"
| "intNumbers v = True"

lemma binnNorm_int: "jsonValue v \<Longrightarrow> intNumbers v \<Longrightarrow> binnNorm L v = v"
proof (induction v rule: jsonValue.induct)
  case (5 vs)
  then show ?case by (auto simp: list_all_iff intro: map_idI)
next
  case (6 kvs)
  then show ?case by (fastforce simp: list_all_iff intro: map_idI)
qed auto

end
