(* ===== verification/Pointer.thy ===== *)
theory Pointer
  imports Values
begin

text \<open>
  \<^verbatim>\<open>pointer.go\<close>: JSON pointers, lookup, update, removal and pattern removal in a document, and the laws
  that connect them. A document is a tree: no two places of it share a map or an array, which holds
  for a decoded JSON text.
\<close>

section \<open>Pointers as token lists\<close>

definition unescapeToken :: "string \<Rightarrow> string" where
  "unescapeToken p = ReplaceAll (ReplaceAll p ''~1'' ''/'') ''~0'' ''~''"

definition pointerTokens :: "string \<Rightarrow> string list result" where
  "pointerTokens ptr =
     (if ptr = '''' \<or> ptr = ''/'' then Inr []
      else if \<not> HasPrefix ptr ''/'' then Inl (Plain ''pointer must start with /'')
      else Inr (map unescapeToken (Split (CHR ''/'') (tl ptr))))"

definition pointerEscapeToken :: "string \<Rightarrow> string" where
  "pointerEscapeToken tok = ReplaceAll (ReplaceAll tok ''~'' ''~0'') ''/'' ''~1''"

definition pointerJoin :: "string \<Rightarrow> string \<Rightarrow> string" where
  "pointerJoin base key =
     (if base = '''' \<or> base = ''/'' then ''/'' @ TrimPrefix key ''/''
      else TrimSuffix base ''/'' @ ''/'' @ TrimPrefix key ''/'')"

section \<open>Lookup\<close>

text \<open>The index a token names in an array of the given length, if it is in range.\<close>

definition indexIn :: "string \<Rightarrow> nat \<Rightarrow> nat option" where
  "indexIn t n =
     (case Atoi t of
        None \<Rightarrow> None
      | Some i \<Rightarrow> if i < 0 \<or> int n \<le> i then None else Some (nat i))"

fun getAt :: "gv \<Rightarrow> string list \<Rightarrow> gv option" where
  "getAt cur [] = Some cur"
| "getAt cur (t # ts) =
     (case cur of
        VObject v \<Rightarrow> (case objGet v t of None \<Rightarrow> None | Some n \<Rightarrow> getAt n ts)
      | VArray v \<Rightarrow> (case indexIn t (length v) of None \<Rightarrow> None | Some i \<Rightarrow> getAt (v ! i) ts)
      | _ \<Rightarrow> None)"

definition pointerGet :: "gv \<Rightarrow> string \<Rightarrow> gv option" where
  "pointerGet doc ptr = (case pointerTokens ptr of Inl _ \<Rightarrow> None | Inr tokens \<Rightarrow> getAt doc tokens)"

section \<open>Update\<close>

text \<open>The last token of \<^verbatim>\<open>setAt\<close>: a map entry, or an array element set, appended or inserted.\<close>

definition insertAt :: "nat \<Rightarrow> 'a \<Rightarrow> 'a list \<Rightarrow> 'a list" where
  "insertAt i x xs = take i xs @ x # drop i xs"

definition setLeaf :: "gv \<Rightarrow> string \<Rightarrow> gv \<Rightarrow> bool \<Rightarrow> bool \<Rightarrow> gv result" where
  "setLeaf cur t val allowLeafCreate arrayInsert =
     (case cur of
        VObject v \<Rightarrow>
          if objGet v t = None \<and> \<not> allowLeafCreate then Inl ErrNotFound
          else Inr (VObject (objSet t val v))
      | VArray v \<Rightarrow>
          if t = ''-'' \<and> allowLeafCreate \<and> arrayInsert then Inr (VArray (v @ [val]))
          else (case Atoi t of
                  None \<Rightarrow> Inl ErrNotFound
                | Some i \<Rightarrow>
                    if i < 0 then Inl ErrNotFound
                    else let idx = nat i in
                         if allowLeafCreate \<and> arrayInsert then
                           (if length v < idx then Inl ErrNotFound else Inr (VArray (insertAt idx val v)))
                         else if idx = length v \<and> allowLeafCreate then Inr (VArray (v @ [val]))
                         else if length v \<le> idx then Inl ErrNotFound
                         else Inr (VArray (v[idx := val])))
      | _ \<Rightarrow> Inl ErrNotFound)"

fun setAt :: "gv \<Rightarrow> string list \<Rightarrow> gv \<Rightarrow> bool \<Rightarrow> bool \<Rightarrow> bool \<Rightarrow> gv result" where
  "setAt cur [] val createParents allowLeafCreate arrayInsert = Inr val"
| "setAt cur (t # ts) val createParents allowLeafCreate arrayInsert =
     (if ts = [] then setLeaf cur t val allowLeafCreate arrayInsert
      else case cur of
             VObject v \<Rightarrow>
               (case (case objGet v t of
                        None \<Rightarrow> if createParents then Some (VObject []) else None
                      | Some n \<Rightarrow> Some n) of
                  None \<Rightarrow> Inl ErrNotFound
                | Some n \<Rightarrow>
                    (case setAt n ts val createParents allowLeafCreate arrayInsert of
                       Inl e \<Rightarrow> Inl e
                     | Inr updated \<Rightarrow> Inr (VObject (objSet t updated v))))
           | VArray v \<Rightarrow>
               (case indexIn t (length v) of
                  None \<Rightarrow> Inl ErrNotFound
                | Some idx \<Rightarrow>
                    (case setAt (v ! idx) ts val createParents allowLeafCreate arrayInsert of
                       Inl e \<Rightarrow> Inl e
                     | Inr updated \<Rightarrow> Inr (VArray (v[idx := updated]))))
           | _ \<Rightarrow> Inl ErrNotFound)"

text \<open>
  \<^verbatim>\<open>pointerSetMode\<close> and \<^verbatim>\<open>pointerRemove\<close> drop the value that \<^verbatim>\<open>setAt\<close> and \<^verbatim>\<open>removeAt\<close> return: their
  caller sees the changes made in place. A map is changed in place. A slice at the root keeps the
  length it has in the caller's variable: an element that was overwritten shows, an insertion shows
  up to the old length when the backing array had \<open>room\<close> and not at all otherwise, and a removal
  shows the shifted elements with the last one still in its place.
\<close>

definition seenByCaller :: "bool \<Rightarrow> gv \<Rightarrow> gv \<Rightarrow> gv" where
  "seenByCaller room old new =
     (case (old, new) of
        (VArray xs, VArray ys) \<Rightarrow>
          if length ys = length xs then new
          else if length xs < length ys then (if room then VArray (take (length xs) ys) else old)
          else VArray (ys @ drop (length ys) xs)
      | _ \<Rightarrow> new)"

definition pointerSetMode :: "bool \<Rightarrow> gv \<Rightarrow> string \<Rightarrow> gv \<Rightarrow> bool \<Rightarrow> bool \<Rightarrow> bool \<Rightarrow> gv result" where
  "pointerSetMode room doc ptr val createParents allowLeafCreate arrayInsert =
     (case pointerTokens ptr of
        Inl e \<Rightarrow> Inl e
      | Inr tokens \<Rightarrow>
          if tokens = [] then Inl (Plain ''cannot replace document root with pointerSet'')
          else case setAt doc tokens val createParents allowLeafCreate arrayInsert of
                 Inl e \<Rightarrow> Inl e
               | Inr doc' \<Rightarrow> Inr (seenByCaller room doc doc'))"

definition pointerSet :: "bool \<Rightarrow> gv \<Rightarrow> string \<Rightarrow> gv \<Rightarrow> bool \<Rightarrow> gv result" where
  "pointerSet room doc ptr val createMissing = pointerSetMode room doc ptr val createMissing createMissing False"

definition pointerAdd :: "bool \<Rightarrow> gv \<Rightarrow> string \<Rightarrow> gv \<Rightarrow> bool \<Rightarrow> gv result" where
  "pointerAdd room doc ptr val createParents = pointerSetMode room doc ptr val createParents True True"

definition pointerReplace :: "bool \<Rightarrow> gv \<Rightarrow> string \<Rightarrow> gv \<Rightarrow> gv result" where
  "pointerReplace room doc ptr val = pointerSetMode room doc ptr val False False False"

section \<open>Removal\<close>

definition removeIdx :: "nat \<Rightarrow> 'a list \<Rightarrow> 'a list" where
  "removeIdx i xs = take i xs @ drop (i + 1) xs"

fun removeAt :: "gv \<Rightarrow> string list \<Rightarrow> gv result" where
  "removeAt cur [] = Inr cur"
| "removeAt cur (t # ts) =
     (case cur of
        VObject v \<Rightarrow>
          (case objGet v t of
             None \<Rightarrow> Inl ErrNotFound
           | Some n \<Rightarrow>
               if ts = [] then Inr (VObject (objDel t v))
               else case removeAt n ts of
                      Inl e \<Rightarrow> Inl e
                    | Inr updated \<Rightarrow> Inr (VObject (objSet t updated v)))
      | VArray v \<Rightarrow>
          (case indexIn t (length v) of
             None \<Rightarrow> Inl ErrNotFound
           | Some idx \<Rightarrow>
               if ts = [] then Inr (VArray (removeIdx idx v))
               else case removeAt (v ! idx) ts of
                      Inl e \<Rightarrow> Inl e
                    | Inr updated \<Rightarrow> Inr (VArray (v[idx := updated])))
      | _ \<Rightarrow> Inl ErrNotFound)"

definition pointerRemove :: "gv \<Rightarrow> string \<Rightarrow> gv result" where
  "pointerRemove doc ptr =
     (case pointerTokens ptr of
        Inl e \<Rightarrow> Inl e
      | Inr tokens \<Rightarrow>
          if tokens = [] then Inl (Plain ''cannot remove root'')
          else case removeAt doc tokens of
                 Inl e \<Rightarrow> Inl e
               | Inr doc' \<Rightarrow> Inr (seenByCaller False doc doc'))"

text \<open>
  \<^verbatim>\<open>removePatternLeaf\<close>. After the wildcards have emptied a map, and have set every element of an array
  to nil, the loop over the children finds none it could change. Removing an array element shifts
  the others and leaves nil in the last place, since the shortened slice is local to the function.
\<close>

fun removePatternLeaf :: "gv \<Rightarrow> string \<Rightarrow> gv" where
  "removePatternLeaf (VObject v) t = VObject (if t = ''*'' \<or> t = ''**'' then [] else objDel t v)"
| "removePatternLeaf (VArray v) t =
     VArray (if t = ''*'' \<or> t = ''**'' then replicate (length v) VNil
             else case indexIn t (length v) of None \<Rightarrow> v | Some idx \<Rightarrow> removeIdx idx v @ [VNil])"
| "removePatternLeaf v t = v"

text \<open>Replace every immediate child in place.\<close>

fun mapChildren :: "(gv \<Rightarrow> gv) \<Rightarrow> gv \<Rightarrow> gv" where
  "mapChildren f (VObject v) = VObject (map (\<lambda>(k, x). (k, f x)) v)"
| "mapChildren f (VArray v) = VArray (map f v)"
| "mapChildren f v = v"

fun vdepth :: "gv \<Rightarrow> nat" where
  "vdepth (VObject v) = Suc (Max (insert 0 (set (map (\<lambda>(k, x). vdepth x) v))))"
| "vdepth (VArray v) = Suc (Max (insert 0 (set (map vdepth v))))"
| "vdepth v = 0"

text \<open>
  The token \<^verbatim>\<open>**\<close> applies the rest of the pattern to a value, then itself to the children the value has
  afterwards. The number of rounds is the nesting depth; \<open>removePatternAt_deep\<close> shows that this is the
  recursion of the source.
\<close>

fun everyLevel :: "nat \<Rightarrow> (gv \<Rightarrow> gv) \<Rightarrow> gv \<Rightarrow> gv" where
  "everyLevel 0 f v = f v"
| "everyLevel (Suc n) f v = mapChildren (everyLevel n f) (f v)"

fun removePatternAt :: "string list \<Rightarrow> gv \<Rightarrow> gv" where
  "removePatternAt [] cur = cur"
| "removePatternAt (t # ts) cur =
     (if ts = [] then removePatternLeaf cur t
      else if t = ''*'' then mapChildren (removePatternAt ts) cur
      else if t = ''**'' then everyLevel (vdepth cur) (removePatternAt ts) cur
      else case cur of
             VObject v \<Rightarrow> (case objGet v t of None \<Rightarrow> cur | Some child \<Rightarrow> VObject (objSet t (removePatternAt ts child) v))
           | VArray v \<Rightarrow>
               (case indexIn t (length v) of
                  None \<Rightarrow> cur
                | Some idx \<Rightarrow> VArray (v[idx := removePatternAt ts (v ! idx)]))
           | _ \<Rightarrow> cur)"

definition pointerRemovePattern :: "gv \<Rightarrow> string \<Rightarrow> gv result" where
  "pointerRemovePattern doc ptr =
     (case pointerTokens ptr of
        Inl e \<Rightarrow> Inl e
      | Inr tokens \<Rightarrow>
          if tokens = [] then Inl (Plain ''cannot remove root'') else Inr (removePatternAt tokens doc))"

section \<open>Escaping\<close>

lemma ReplaceAll_single: "ReplaceAll s [c] r = concat (map (\<lambda>x. if x = c then r else [x]) s)"
  by (induction s) (auto simp: HasPrefix_iff)

definition tildeEsc :: "string \<Rightarrow> string" where
  "tildeEsc s = concat (map (\<lambda>x. if x = CHR ''~'' then ''~0'' else [x]) s)"

lemma pointerEscapeToken_concat:
  "pointerEscapeToken s =
     concat (map (\<lambda>x. if x = CHR ''~'' then ''~0'' else if x = CHR ''/'' then ''~1'' else [x]) s)"
  by (induction s) (auto simp: pointerEscapeToken_def ReplaceAll_single)

lemma ReplaceAll_esc1: "ReplaceAll (pointerEscapeToken s) ''~1'' ''/'' = tildeEsc s"
proof (induction s)
  case (Cons x s)
  then show ?case
    by (auto simp: pointerEscapeToken_concat tildeEsc_def HasPrefix_iff)
qed (simp add: pointerEscapeToken_concat tildeEsc_def)

lemma ReplaceAll_esc0: "ReplaceAll (tildeEsc s) ''~0'' ''~'' = s"
proof (induction s)
  case (Cons x s)
  then show ?case by (auto simp: tildeEsc_def HasPrefix_iff)
qed (simp add: tildeEsc_def)

lemma unescape_escape [simp]: "unescapeToken (pointerEscapeToken t) = t"
  by (simp add: unescapeToken_def ReplaceAll_esc1 ReplaceAll_esc0)

lemma escape_no_slash: "CHR ''/'' \<notin> set (pointerEscapeToken t)"
  by (induction t) (auto simp: pointerEscapeToken_concat)

definition pointerOf :: "string list \<Rightarrow> string" where
  "pointerOf ts = concat (map (\<lambda>t. CHR ''/'' # pointerEscapeToken t) ts)"

lemma tl_pointerOf: "ts \<noteq> [] \<Longrightarrow> tl (pointerOf ts) = Join (map pointerEscapeToken ts) ''/''"
proof (induction ts rule: induct_list012)
  case (3 t u ts)
  then show ?case by (simp add: pointerOf_def)
qed (simp_all add: pointerOf_def)

text \<open>
  A pointer built from tokens, each escaped by \<^verbatim>\<open>pointerEscapeToken\<close> and introduced by a slash, is
  read back as those tokens, whatever slashes and tildes they contain. The one token list for which
  this fails is that of the single empty token: the code reads the pointer \<^verbatim>\<open>/\<close> as the whole document.
\<close>

lemma pointerTokens_pointerOf:
  assumes "ts \<noteq> [[]]"
  shows "pointerTokens (pointerOf ts) = Inr ts"
proof (cases "ts = []")
  case False
  then obtain t us where ts: "ts = t # us" by (cases ts) auto
  have ne: "pointerOf ts \<noteq> ''/''"
  proof
    assume "pointerOf ts = ''/''"
    then have e: "pointerEscapeToken t = []" "us = []" by (cases us; simp add: ts pointerOf_def)+
    have "t = unescapeToken (pointerEscapeToken t)" by (rule unescape_escape [symmetric])
    also have "\<dots> = []" by (simp add: e unescapeToken_def)
    finally show False using assms by (simp add: ts e)
  qed
  have "Split (CHR ''/'') (tl (pointerOf ts)) = map pointerEscapeToken ts"
    unfolding tl_pointerOf [OF False] using False by (intro Split_Join) (auto dest: escape_no_slash [THEN notE])
  moreover have "HasPrefix (pointerOf ts) ''/''" by (simp add: ts pointerOf_def HasPrefix_iff)
  moreover have "pointerOf ts \<noteq> []" by (simp add: ts pointerOf_def)
  ultimately show ?thesis using ne by (simp add: pointerTokens_def comp_def)
qed (simp add: pointerOf_def pointerTokens_def)

lemma pointerTokens_pointerOf_example: "pointerTokens (pointerOf [''a/b'', ''~'', '''']) = Inr [''a/b'', ''~'', '''']"
  by (rule pointerTokens_pointerOf) simp

section \<open>Lookup after update\<close>

lemma indexIn_Some: "indexIn t n = Some i \<longleftrightarrow> Atoi t = Some (int i) \<and> i < n"
  by (auto simp: indexIn_def split: option.splits)

lemma indexIn_lt: "indexIn t n = Some i \<Longrightarrow> i < n"
  by (simp add: indexIn_Some)

lemma nth_upd_indexIn [simp]: "indexIn t (length v) = Some i \<Longrightarrow> v[i := x] ! i = x"
  by (simp add: indexIn_Some)

lemma length_insertAt: "i \<le> length xs \<Longrightarrow> length (insertAt i x xs) = Suc (length xs)"
  by (simp add: insertAt_def)

lemma nth_insertAt: "i \<le> length xs \<Longrightarrow> insertAt i x xs ! i = x"
  by (simp add: insertAt_def nth_append)

lemma removeIdx_insertAt: "i \<le> length xs \<Longrightarrow> removeIdx i (insertAt i x xs) = xs"
  by (simp add: removeIdx_def insertAt_def)

lemma objGet_objSet_same [simp]: "objGet (objSet k v m) k = Some v"
  by (simp add: objGet_objSet)

lemma setLeaf_get:
  assumes "setLeaf cur t val lc ai = Inr d" and "t \<noteq> ''-'' \<or> \<not> ai"
  shows "getAt d [t] = Some val"
proof (cases cur)
  case (VArray v)
  then obtain i where i: "Atoi t = Some i" "0 \<le> i"
    using assms by (auto simp: setLeaf_def split: option.splits if_splits)
  have "nat i \<le> length v" and d: "d = VArray (insertAt (nat i) val v) \<or> (nat i = length v \<and> d = VArray (v @ [val]))
     \<or> (nat i < length v \<and> d = VArray (v[nat i := val]))"
    using assms VArray i by (auto simp: setLeaf_def Let_def split: if_splits)
  then show ?thesis
    using i by (auto simp: indexIn_def nth_insertAt length_insertAt nth_append split: if_splits)
qed (use assms in \<open>auto simp: setLeaf_def split: if_splits\<close>)

lemma setAt_get:
  "setAt cur ts val cp lc ai = Inr d \<Longrightarrow> ts \<noteq> [] \<Longrightarrow> last ts \<noteq> ''-'' \<or> \<not> ai \<Longrightarrow> getAt d ts = Some val"
proof (induction cur ts val cp lc ai arbitrary: d rule: setAt.induct)
  case (2 cur t ts val cp lc ai)
  show ?case
  proof (cases "ts = []")
    case True
    then show ?thesis using "2.prems" setLeaf_get [of cur t val lc ai d] by simp
  next
    case False
    then show ?thesis using "2.prems" "2.IH" False
      by (auto split: gv.splits option.splits sum.splits if_splits)
  qed
qed simp


text \<open>
  C37: what an add, a set or a replace put at a path is found there by a lookup of the same path,
  unless an add ends in the append token \<^verbatim>\<open>-\<close>.
\<close>

theorem setAt_getAt:
  assumes "setAt cur ts val createParents allowLeafCreate arrayInsert = Inr d"
    and "ts \<noteq> []" and "last ts \<noteq> ''-'' \<or> \<not> arrayInsert"
  shows "getAt d ts = Some val"
  using setAt_get [OF assms] .

theorem setAt_getAt_witness:
  "\<exists>d. setAt (VObject [(''a'', VArray [VNil])]) [''a'', ''0''] (VBool True) False True True = Inr d
       \<and> getAt d [''a'', ''0''] = Some (VBool True)"
proof -
  have i: "Atoi ''0'' = Some 0" by (simp add: Atoi_def ParseInt_def digitVal_def)
  have "setAt (VObject [(''a'', VArray [VNil])]) [''a'', ''0''] (VBool True) False True True
      = Inr (VObject [(''a'', VArray [VBool True, VNil])])"
    by (simp add: setLeaf_def i insertAt_def)
  then show ?thesis using setAt_getAt by fastforce
qed

section \<open>Paths apart\<close>

text \<open>
  Two paths are apart in a document when they part at an object, by different keys, or at an array,
  by tokens that do not name the same index.
\<close>

fun apart :: "gv \<Rightarrow> string list \<Rightarrow> string list \<Rightarrow> bool" where
  "apart (VObject v) (t # ts) (u # us) \<longleftrightarrow>
     t \<noteq> u \<or> (case objGet v t of None \<Rightarrow> False | Some n \<Rightarrow> apart n ts us)"
| "apart (VArray v) (t # ts) (u # us) \<longleftrightarrow>
     Atoi t \<noteq> Atoi u \<or> (case indexIn t (length v) of None \<Rightarrow> False | Some i \<Rightarrow> apart (v ! i) ts us)"
| "apart _ _ _ \<longleftrightarrow> False"

lemma apart_ne: "apart cur ts us \<Longrightarrow> ts \<noteq> [] \<and> us \<noteq> []"
  by (cases "(cur, ts, us)" rule: apart.cases) auto

lemma getAt_array_upd_other:
  assumes "Atoi t = Some (int i)" "i < length v" "Atoi t \<noteq> Atoi u"
  shows "getAt (VArray (v[i := x])) (u # us) = getAt (VArray v) (u # us)"
  using assms by (auto simp: indexIn_def split: option.splits)

lemma getAt_array_append_other:
  "Atoi t = Some i \<Longrightarrow> \<not> i < 0 \<Longrightarrow> nat i = length v \<Longrightarrow> Atoi t \<noteq> Atoi u \<Longrightarrow>
     getAt (VArray (v @ [x])) (u # us) = getAt (VArray v) (u # us)"
  by (auto simp: indexIn_def nth_append split: option.splits)

lemma setAt_frame_aux:
  "setAt cur ts val cp lc False = Inr d \<Longrightarrow> apart cur ts us \<Longrightarrow> getAt d us = getAt cur us"
proof (induction cur ts val cp lc False arbitrary: d us rule: setAt.induct)
  case (2 cur t ts val cp lc)
  obtain u us' where us: "us = u # us'" using apart_ne [OF "2.prems"(2)] by (cases us) auto
  show ?case
  proof (cases cur)
    case (VObject v)
    show ?thesis
    proof (cases "t = u")
      case True
      then obtain n where n: "objGet v u = Some n" "apart n ts us'"
        using "2.prems"(2) VObject us by (auto split: option.splits)
      then have "ts \<noteq> []" using apart_ne by blast
      then show ?thesis using "2" VObject True n us
        by (auto split: sum.splits)
    next
      case False
      then show ?thesis using "2.prems" VObject us
        by (auto simp: setLeaf_def objGet_objSet split: if_splits option.splits sum.splits)
    qed
  next
    case (VArray v)
    show ?thesis
    proof (cases "Atoi t = Atoi u")
      case True
      then have tu: "indexIn t (length v) = indexIn u (length v)" by (simp add: indexIn_def)
      then obtain i where i: "indexIn t (length v) = Some i" "apart (v ! i) ts us'"
        using "2.prems"(2) VArray us True by (auto split: option.splits)
      then have "ts \<noteq> []" using apart_ne by blast
      then show ?thesis using "2" VArray i us tu by (auto split: sum.splits)
    next
      case False
      then show ?thesis using "2.prems" VArray us getAt_array_upd_other [OF _ _ False]
          getAt_array_append_other [of t _ v u]
        by (auto simp: setLeaf_def Let_def indexIn_Some simp del: getAt.simps split: if_splits option.splits sum.splits)
    qed
  qed (use "2.prems" in auto)
qed simp

text \<open>
  C38: setting or replacing an element without insertion changes nothing elsewhere: every path that is
  apart from the changed one finds what it found before.
\<close>

theorem setAt_frame:
  assumes "setAt cur ts val createParents allowLeafCreate False = Inr d" and "apart cur ts us"
  shows "getAt d us = getAt cur us"
  using setAt_frame_aux [OF assms] .

theorem setAt_frame_witness:
  "\<exists>d. setAt (VObject [(''a'', VNil), (''b'', VArray [VNil])]) [''a''] (VBool True) True True False = Inr d
       \<and> getAt d [''b''] = Some (VArray [VNil])"
proof -
  let ?doc = "VObject [(''a'', VNil), (''b'', VArray [VNil])]"
  have "setAt ?doc [''a''] (VBool True) True True False = Inr (VObject [(''a'', VBool True), (''b'', VArray [VNil])])"
    by (simp add: setLeaf_def)
  moreover have "apart ?doc [''a''] [''b'']" by simp
  ultimately show ?thesis using setAt_frame by fastforce
qed

section \<open>Replacement and removal\<close>

lemma isl_bind [simp]: "isl (case r of Inl e \<Rightarrow> Inl e | Inr x \<Rightarrow> Inr (f x)) = isl r"
  by (cases r) simp_all

lemma replace_iff: "ts \<noteq> [] \<Longrightarrow> isl (setAt cur ts val False False False) \<longleftrightarrow> getAt cur ts = None"
proof (induction ts arbitrary: cur)
  case (Cons t ts)
  show ?case
  proof (cases "ts = []")
    case True
    then show ?thesis
      by (cases cur) (auto simp: setLeaf_def indexIn_def Let_def split: option.splits)
  next
    case False
    then show ?thesis using Cons.IH [OF False]
      by (cases cur) (auto split: option.splits)
  qed
qed simp

lemma remove_iff: "ts \<noteq> [] \<Longrightarrow> isl (removeAt cur ts) \<longleftrightarrow> getAt cur ts = None"
proof (induction ts arbitrary: cur)
  case (Cons t ts)
  show ?case
  proof (cases "ts = []")
    case True
    then show ?thesis by (cases cur) (auto split: option.splits)
  next
    case False
    then show ?thesis using Cons.IH [OF False]
      by (cases cur) (auto split: option.splits)
  qed
qed simp

text \<open>
  Replace and remove succeed exactly on the paths a lookup finds; on every other path, they
  report that nothing was found and the document is left as it was.
\<close>

lemma replace_remove_iff_found:
  assumes "ts \<noteq> []"
  shows "((\<exists>d. setAt doc ts val False False False = Inr d) \<longleftrightarrow> (\<exists>v. getAt doc ts = Some v))
    \<and> ((\<exists>d. removeAt doc ts = Inr d) \<longleftrightarrow> (\<exists>v. getAt doc ts = Some v))"
  using replace_iff [OF assms, of doc val] remove_iff [OF assms, of doc]
  by (cases "setAt doc ts val False False False"; cases "removeAt doc ts") auto

lemma replace_remove_iff_found_example:
  "\<not> (\<exists>d. setAt (VObject [(''a'', VNil)]) [''b''] VNil False False False = Inr d)
   \<and> (\<exists>d. removeAt (VObject [(''a'', VNil)]) [''a''] = Inr d)"
  using replace_remove_iff_found [of "[''b'']" "VObject [(''a'', VNil)]" VNil]
    replace_remove_iff_found [of "[''a'']" "VObject [(''a'', VNil)]" VNil] by simp

section \<open>Removal undoes addition\<close>

lemma remove_set:
  "setAt cur ts val False True True = Inr d \<Longrightarrow> wfv cur \<Longrightarrow> ts \<noteq> [] \<Longrightarrow> last ts \<noteq> ''-'' \<Longrightarrow>
     (getAt cur ts = None \<or> (\<exists>v. getAt cur (butlast ts) = Some (VArray v))) \<Longrightarrow> removeAt d ts = Inr cur"
proof (induction ts arbitrary: cur d)
  case (Cons t ts)
  show ?case
  proof (cases "ts = []")
    case True
    show ?thesis
    proof (cases cur)
      case (VObject m)
      then show ?thesis using Cons.prems True
        by (auto simp: setLeaf_def obj.del_put_same obj.del_absent split: option.splits)
    next
      case (VArray v)
      then obtain i where i: "Atoi t = Some i" "\<not> i < 0" "nat i \<le> length v" "d = VArray (insertAt (nat i) val v)"
        using Cons.prems True by (auto simp: setLeaf_def Let_def split: option.splits if_splits)
      then have "indexIn t (length (insertAt (nat i) val v)) = Some (nat i)"
        by (auto simp: indexIn_def length_insertAt)
      then show ?thesis using True VArray i by (simp add: removeIdx_insertAt)
    qed (use Cons.prems True in \<open>auto simp: setLeaf_def\<close>)
  next
    case False
    show ?thesis
    proof (cases cur)
      case (VObject m)
      then obtain n u where n: "objGet m t = Some n" "setAt n ts val False True True = Inr u" "d = VObject (objSet t u m)"
        using Cons.prems False by (auto split: option.splits sum.splits)
      have "removeAt u ts = Inr n"
        using Cons.IH [OF n(2)] Cons.prems VObject n(1) False wfv_objGet by (auto split: if_splits)
      then show ?thesis using n False VObject Cons.prems(2) by (simp add: obj.put_put_same obj.put_get)
    next
      case (VArray v)
      then obtain i u where n: "indexIn t (length v) = Some i" "setAt (v ! i) ts val False True True = Inr u" "d = VArray (v[i := u])"
        using Cons.prems False by (auto split: option.splits sum.splits)
      have "wfv (v ! i)" using Cons.prems(2) VArray indexIn_lt [OF n(1)] by (simp add: list_all_length)
      then have "removeAt u ts = Inr (v ! i)"
        using Cons.IH [OF n(2)] Cons.prems VArray n(1) False by (auto split: if_splits)
      then show ?thesis using n False VArray by simp
    qed (use Cons.prems False in auto)
  qed
qed simp

text \<open>
  Removing a path right after adding it gives the document back, when the add was of a new object
  key or an insertion into an array.
\<close>

lemma removeAt_setAt:
  assumes "setAt doc ts val False True True = Inr d" and "wfv doc" and "ts \<noteq> []" and "last ts \<noteq> ''-''"
    and "getAt doc ts = None \<or> (\<exists>v. getAt doc (butlast ts) = Some (VArray v))"
  shows "removeAt d ts = Inr doc"
  using remove_set [OF assms] .

lemma removeAt_setAt_example:
  "\<exists>d. setAt (VObject [(''a'', VNil)]) [''b''] (VBool True) False True True = Inr d
       \<and> removeAt d [''b''] = Inr (VObject [(''a'', VNil)])"
proof -
  have e: "setAt (VObject [(''a'', VNil)]) [''b''] (VBool True) False True True
      = Inr (VObject [(''a'', VNil), (''b'', VBool True)])"
    by (simp add: setLeaf_def)
  show ?thesis by (intro exI conjI, rule e, rule removeAt_setAt [OF e]) (simp_all add: objOk_Cons)
qed

section \<open>Well-formedness\<close>

lemma list_all_update: "list_all P xs \<Longrightarrow> P x \<Longrightarrow> list_all P (xs[i := x])"
  using set_update_subset_insert [of xs i x] by (auto simp: list_all_iff)

lemma list_all_insertAt: "list_all P xs \<Longrightarrow> P x \<Longrightarrow> list_all P (insertAt i x xs)"
  by (auto simp: insertAt_def list_all_iff dest: in_set_takeD in_set_dropD)

lemma wfv_setLeaf:
  assumes "setLeaf cur t val lc ai = Inr d" and "wfv cur" and "wfv val"
  shows "wfv d"
proof (cases cur)
  case (VObject m)
  then have "d = VObject (objSet t val m)" using assms(1) by (auto simp: setLeaf_def split: if_splits)
  then show ?thesis using assms(2,3) wfv_objSet VObject by blast
next
  case (VArray v)
  then show ?thesis using assms
    by (auto simp: setLeaf_def Let_def list_all_insertAt list_all_update split: if_splits option.splits)
qed (use assms in \<open>auto simp: setLeaf_def\<close>)

lemma wfv_nth: "wfv (VArray v) \<Longrightarrow> i < length v \<Longrightarrow> wfv (v ! i)"
  by (simp add: list_all_length)

lemma wfv_setAt: "setAt cur ts val cp lc ai = Inr d \<Longrightarrow> wfv cur \<Longrightarrow> wfv val \<Longrightarrow> wfv d"
proof (induction ts arbitrary: cur d)
  case (Cons t ts)
  show ?case
  proof (cases "ts = []")
    case True
    then show ?thesis using Cons.prems wfv_setLeaf by simp
  next
    case False
    show ?thesis
    proof (cases cur)
      case (VObject m)
      then obtain n u where n: "objGet m t = Some n \<or> n = VObject []" "setAt n ts val cp lc ai = Inr u" "d = VObject (objSet t u m)"
        using Cons.prems False by (auto split: option.splits sum.splits if_splits)
      have "wfv n" using n(1) Cons.prems(2) wfv_objGet [of m t n] by (auto simp: VObject simp del: wfv.simps(2)) (simp_all add: objOk_def)
      then have "wfv u" using Cons.IH n(2) Cons.prems(3) by blast
      then show ?thesis using Cons.prems(2) unfolding VObject n(3) by (rule wfv_objSet [rotated])
    next
      case (VArray v)
      then obtain i u where n: "indexIn t (length v) = Some i" "setAt (v ! i) ts val cp lc ai = Inr u" "d = VArray (v[i := u])"
        using Cons.prems False by (auto split: option.splits sum.splits)
      have "wfv u" using Cons.IH [OF n(2)] wfv_nth [OF _ indexIn_lt [OF n(1)]] Cons.prems(2,3) VArray by simp
      then show ?thesis using Cons.prems(2) by (simp add: VArray n(3) list_all_update)
    qed (use Cons.prems False in auto)
  qed
qed simp

lemma wfv_removeAt: "removeAt cur ts = Inr d \<Longrightarrow> wfv cur \<Longrightarrow> wfv d"
proof (induction ts arbitrary: cur d)
  case (Cons t ts)
  show ?case
  proof (cases cur)
    case (VObject m)
    then obtain n where n: "objGet m t = Some n"
      and d: "ts = [] \<and> d = VObject (objDel t m) \<or> (\<exists>u. removeAt n ts = Inr u \<and> d = VObject (objSet t u m))"
      using Cons.prems(1) by (auto split: option.splits sum.splits if_splits)
    have "wfv u" if "removeAt n ts = Inr u" for u
      using Cons.IH that n Cons.prems(2) wfv_objGet VObject by blast
    then show ?thesis using d Cons.prems(2) wfv_objDel wfv_objSet VObject by blast
  next
    case (VArray v)
    then obtain i where n: "indexIn t (length v) = Some i"
      and d: "ts = [] \<and> d = VArray (removeIdx i v) \<or> (\<exists>u. removeAt (v ! i) ts = Inr u \<and> d = VArray (v[i := u]))"
      using Cons.prems(1) by (auto split: option.splits sum.splits if_splits)
    have "wfv u" if "removeAt (v ! i) ts = Inr u" for u
      using Cons.IH [OF that] wfv_nth [OF _ indexIn_lt [OF n]] Cons.prems(2) VArray by simp
    moreover have "wfv (VArray (removeIdx i v))"
      using Cons.prems(2) VArray by (auto simp: removeIdx_def list_all_iff dest: in_set_takeD in_set_dropD)
    ultimately show ?thesis using d Cons.prems(2) VArray by (auto intro: list_all_update)
  qed (use Cons.prems in auto)
qed simp

section \<open>Pattern removal\<close>

definition immediateChildren :: "gv \<Rightarrow> gv list" where
  "immediateChildren v = (case v of VObject x \<Rightarrow> map snd x | VArray x \<Rightarrow> x | _ \<Rightarrow> [])"

lemma vdepth_le_Suc: "vdepth v \<le> Suc n \<longleftrightarrow> (\<forall>c \<in> set (immediateChildren v). vdepth c \<le> n)"
  by (cases v) (auto simp: immediateChildren_def)

lemma vdepth_child: "c \<in> set (immediateChildren v) \<Longrightarrow> vdepth c < vdepth v"
proof (cases "vdepth v")
  case 0
  then show "c \<in> set (immediateChildren v) \<Longrightarrow> vdepth c < vdepth v"
    by (cases v) (auto simp: immediateChildren_def)
next
  case (Suc n)
  then show "c \<in> set (immediateChildren v) \<Longrightarrow> vdepth c < vdepth v"
    using vdepth_le_Suc [of v n] by (auto simp: less_Suc_eq_le)
qed

lemma immediateChildren_map: "immediateChildren (mapChildren f v) = map f (immediateChildren v)"
  by (cases v) (auto simp: immediateChildren_def)

lemma mapChildren_cong: "(\<And>c. c \<in> set (immediateChildren v) \<Longrightarrow> f c = g c) \<Longrightarrow> mapChildren f v = mapChildren g v"
  by (cases v) (force simp: immediateChildren_def)+

lemma vdepth_0: "vdepth v = 0 \<Longrightarrow> mapChildren f v = v"
  by (cases v) auto

definition shrinking :: "(gv \<Rightarrow> gv) \<Rightarrow> bool" where
  "shrinking f \<longleftrightarrow> (\<forall>v. vdepth (f v) \<le> vdepth v)"

lemma shrink_children:
  assumes "\<And>c. c \<in> set (immediateChildren w) \<Longrightarrow> \<exists>c' \<in> set (immediateChildren v). vdepth c \<le> vdepth c'"
    and "vdepth v \<noteq> 0"
  shows "vdepth w \<le> vdepth v"
proof -
  obtain n where n: "vdepth v = Suc n" using assms(2) by (cases "vdepth v") auto
  have "vdepth c \<le> n" if "c \<in> set (immediateChildren w)" for c
    using assms(1) [OF that] n vdepth_child by fastforce
  then show ?thesis unfolding n vdepth_le_Suc by blast
qed

lemma vdepth_upd:
  assumes "set (immediateChildren w) \<subseteq> insert x (set (immediateChildren v))"
    and "c \<in> set (immediateChildren v)" and "vdepth x \<le> vdepth c"
  shows "vdepth w \<le> vdepth v"
proof (rule shrink_children)
  show "vdepth v \<noteq> 0" using vdepth_child [OF assms(2)] by simp
qed (use assms in blast)

lemma shrinking_mapChildren: "shrinking f \<Longrightarrow> shrinking (mapChildren f)"
  unfolding shrinking_def
proof
  fix v
  assume f: "\<forall>v. vdepth (f v) \<le> vdepth v"
  show "vdepth (mapChildren f v) \<le> vdepth v"
  proof (cases "vdepth v = 0")
    case False
    then show ?thesis using f by (intro shrink_children) (auto simp: immediateChildren_map)
  qed (simp add: vdepth_0)
qed

lemma shrinking_everyLevel: "shrinking f \<Longrightarrow> shrinking (everyLevel n f)"
proof (induction n)
  case (Suc n)
  then show ?case using shrinking_mapChildren unfolding shrinking_def
    by (metis everyLevel.simps(2) order_trans)
qed (simp add: shrinking_def)

lemma everyLevel_enough:
  assumes "shrinking f"
  shows "vdepth v \<le> n \<Longrightarrow> everyLevel n f v = everyLevel (vdepth v) f v"
proof (induction n arbitrary: v rule: less_induct)
  case (less n)
  have f: "vdepth (f v) \<le> vdepth v" using assms by (simp add: shrinking_def)
  show ?case
  proof (cases "vdepth v")
    case 0
    then show ?thesis using f by (cases n) (simp_all add: vdepth_0)
  next
    case (Suc m)
    then obtain k where n: "n = Suc k" "m \<le> k" using less.prems by (cases n) auto
    have "everyLevel k f c = everyLevel m f c" if "c \<in> set (immediateChildren (f v))" for c
    proof -
      have c: "vdepth c \<le> m" using vdepth_child [OF that] f Suc by simp
      show ?thesis using less.IH [of k c] less.IH [of m c] c n by simp
    qed
    then show ?thesis using Suc n by (simp cong: mapChildren_cong)
  qed
qed

lemma shrinking_removePatternLeaf: "vdepth (removePatternLeaf v t) \<le> vdepth v"
proof (cases "vdepth v = 0")
  case True
  then show ?thesis by (cases v) auto
next
  case False
  show ?thesis
  proof (rule ccontr)
    assume "\<not> ?thesis"
    moreover have "vdepth (removePatternLeaf v t) \<le> Suc (vdepth v - 1)"
      unfolding vdepth_le_Suc
    proof
      fix c assume c: "c \<in> set (immediateChildren (removePatternLeaf v t))"
      have "c = VNil \<or> c \<in> set (immediateChildren v)"
        using c by (cases v) (auto simp: immediateChildren_def objDel_def removeIdx_def
            dest: in_set_takeD in_set_dropD split: if_splits option.splits)
      then show "vdepth c \<le> vdepth v - 1" using vdepth_child by fastforce
    qed
    ultimately show False using False by simp
  qed
qed

lemma shrinking_removePatternAt: "shrinking (removePatternAt ts)"
proof (induction ts)
  case (Cons t ts)
  have *: "vdepth (removePatternAt ts c) \<le> vdepth c" for c using Cons.IH by (simp add: shrinking_def)
  have "vdepth (removePatternAt (t # ts) cur) \<le> vdepth cur" for cur
  proof -
    consider "ts = []" | "ts \<noteq> []" "t = ''*''" | "ts \<noteq> []" "t = ''**''" | "ts \<noteq> []" "t \<noteq> ''*''" "t \<noteq> ''**''" by blast
    then show ?thesis
    proof cases
      case 4
      show ?thesis
      proof (cases cur)
        case (VObject m)
        show ?thesis
        proof (cases "objGet m t")
          case (Some child)
          let ?r = "removePatternAt ts child"
          have e: "removePatternAt (t # ts) cur = VObject (objSet t ?r m)" by (simp add: 4 VObject Some)
          have c: "child \<in> snd ` set m" using map_of_SomeD [OF Some] by force
          have "snd ` set (objSet t ?r m) \<subseteq> insert ?r (snd ` set m)"
            using image_mono [OF set_objSet_subset, of snd t ?r m] by simp
          then show ?thesis unfolding e unfolding VObject
            using c * [of child] by - (rule vdepth_upd [of _ ?r _ child], simp_all add: immediateChildren_def)
        qed (simp add: 4 VObject)
      next
        case (VArray v)
        show ?thesis
        proof (cases "indexIn t (length v)")
          case (Some i)
          let ?r = "removePatternAt ts (v ! i)"
          have e: "removePatternAt (t # ts) cur = VArray (v[i := ?r])" by (simp add: 4 VArray Some)
          show ?thesis unfolding e unfolding VArray
            using * [of "v ! i"] set_update_subset_insert [of v i ?r] indexIn_lt [OF Some]
            by - (rule vdepth_upd [of _ ?r _ "v ! i"], simp_all add: immediateChildren_def)
        qed (simp add: 4 VArray)
      qed (simp_all add: 4)
    next
      case 2
      then show ?thesis using shrinking_mapChildren [OF Cons.IH] by (simp add: shrinking_def)
    next
      case 3
      then show ?thesis using shrinking_everyLevel [OF Cons.IH] by (simp add: shrinking_def)
    qed (simp add: shrinking_removePatternLeaf)
  qed
  then show ?case by (simp add: shrinking_def)
qed (simp add: shrinking_def)

text \<open>The recursion of \<^verbatim>\<open>removePatternAt\<close> on the token \<^verbatim>\<open>**\<close>, as the source writes it.\<close>

lemma removePatternAt_deep:
  assumes "ts \<noteq> []"
  shows "removePatternAt (''**'' # ts) cur = mapChildren (removePatternAt (''**'' # ts)) (removePatternAt ts cur)"
proof -
  let ?f = "removePatternAt ts"
  have s: "shrinking ?f" by (rule shrinking_removePatternAt)
  have f: "vdepth (?f cur) \<le> vdepth cur" using s by (simp add: shrinking_def)
  have "everyLevel (vdepth cur) ?f cur = everyLevel (Suc (vdepth cur)) ?f cur"
    using everyLevel_enough [OF s, of cur "Suc (vdepth cur)"] by simp
  also have "\<dots> = mapChildren (\<lambda>c. everyLevel (vdepth c) ?f c) (?f cur)"
    using vdepth_child [of _ "?f cur"] f
    by (auto intro!: mapChildren_cong everyLevel_enough [OF s] dest: less_imp_le order_trans)
  finally show ?thesis using assms by (simp cong: mapChildren_cong)
qed

fun keysAnywhere :: "gv \<Rightarrow> string list" where
  "keysAnywhere (VObject v) = map fst v @ concat (map (\<lambda>(k, x). keysAnywhere x) v)"
| "keysAnywhere (VArray v) = concat (map keysAnywhere v)"
| "keysAnywhere v = []"

lemma everyLevel_removes:
  assumes "k \<noteq> ''*''" and "k \<noteq> ''**''"
  shows "vdepth v \<le> n \<Longrightarrow> k \<notin> set (keysAnywhere (everyLevel n (\<lambda>c. removePatternLeaf c k) v))"
proof (induction n arbitrary: v)
  case 0
  then show ?case by (cases v) auto
next
  case (Suc n)
  let ?w = "removePatternLeaf v k"
  have "vdepth ?w \<le> Suc n" using shrinking_removePatternLeaf [of v k] Suc.prems by simp
  then have c: "vdepth c \<le> n" if "c \<in> set (immediateChildren ?w)" for c
    using that vdepth_le_Suc by blast
  have k: "k \<notin> set (keysAnywhere (everyLevel n (\<lambda>c. removePatternLeaf c k) c))" if "c \<in> set (immediateChildren ?w)" for c
    using Suc.IH [OF c [OF that]] .
  show ?case
  proof (cases v)
    case (VObject m)
    have "x \<in> set (immediateChildren ?w)" if "(k', x) \<in> set (objDel k m)" for k' x
      using that assms by (force simp: VObject immediateChildren_def)
    then show ?thesis using assms k by (fastforce simp: VObject objDel_def)
  next
    case (VArray xs)
    then obtain ys where "?w = VArray ys" by auto
    then show ?thesis using k by (auto simp: immediateChildren_def)
  qed simp_all
qed

text \<open>
  C39: the exclusion pattern \<^verbatim>\<open>/**/\<close>\<open>k\<close> removes the key \<open>k\<close> from every object of a document, at every depth.
\<close>

theorem removePattern_everywhere:
  assumes "k \<noteq> ''*''" and "k \<noteq> ''**''"
  shows "k \<notin> set (keysAnywhere (removePatternAt [''**'', k] doc))"
proof -
  have "removePatternAt [k] = (\<lambda>c. removePatternLeaf c k)" by (simp add: fun_eq_iff)
  then show ?thesis using everyLevel_removes [OF assms, of doc "vdepth doc"] by simp
qed

theorem removePattern_everywhere_witness:
  "''a'' \<notin> set (keysAnywhere (removePatternAt [''**'', ''a''] (VArray [VObject [(''a'', VNil), (''b'', VObject [(''a'', VNil)])]])))"
  by (rule removePattern_everywhere) simp_all

text \<open>
  A document whose root is an array keeps its length under \<^verbatim>\<open>pointerRemove\<close>: the element goes, and the last
  one is there twice.
\<close>

lemma pointerRemove_root_array:
  "pointerRemove (VArray [VNumber ''1'', VNumber ''2'', VNumber ''3'']) ''/0''
     = Inr (VArray [VNumber ''2'', VNumber ''3'', VNumber ''3''])"
proof -
  have "Atoi ''0'' = Some 0" by (simp add: Atoi_def ParseInt_def digitVal_def)
  moreover have "pointerTokens ''/0'' = Inr [''0'']"
    by (simp add: pointerTokens_def HasPrefix_iff unescapeToken_def)
  ultimately show ?thesis by (simp add: pointerRemove_def indexIn_def removeIdx_def seenByCaller_def)
qed

end
