(* ===== verification/Jqvalue.thy ===== *)
theory Jqvalue
  imports Values "HOL-Library.Product_Lexorder"
begin

text \<open>
  \<^verbatim>\<open>jqvalue.go\<close>: the conversion of dynamic values to query values, their comparison across kinds, and
  prefix matching; \<^verbatim>\<open>genericCmp\<close> of \<^verbatim>\<open>db.go\<close>, by which results are sorted.
\<close>

section \<open>Kinds and conversion\<close>

datatype jqKind = jqNull | jqBool | jqI64 | jqF64 | jqString | jqArray | jqObject

datatype jqValue =
    JNull | JBool bool | JI64 int64 | JF64 float64 | JString string
  | JArray "gv list" | JObject "(string \<times> gv) list"

fun jqKindOf :: "jqValue \<Rightarrow> jqKind" where
  "jqKindOf JNull = jqNull"
| "jqKindOf (JBool _) = jqBool"
| "jqKindOf (JI64 _) = jqI64"
| "jqKindOf (JF64 _) = jqF64"
| "jqKindOf (JString _) = jqString"
| "jqKindOf (JArray _) = jqArray"
| "jqKindOf (JObject _) = jqObject"

text \<open>The numbering of the kinds by \<^verbatim>\<open>iota\<close>.\<close>

fun kindRank :: "jqKind \<Rightarrow> int" where
  "kindRank jqNull = 0"
| "kindRank jqBool = 1"
| "kindRank jqI64 = 2"
| "kindRank jqF64 = 3"
| "kindRank jqString = 4"
| "kindRank jqArray = 5"
| "kindRank jqObject = 6"

fun toJQValue :: "go_lib \<Rightarrow> gv \<Rightarrow> jqValue" where
  "toJQValue L VNil = JNull"
| "toJQValue L (VBool x) = JBool x"
| "toJQValue L (VString x) = JString x"
| "toJQValue L (VRegexp x) = JString x"
| "toJQValue L (VNumber x) =
     (case ParseInt x of
        Some i \<Rightarrow> JI64 i
      | None \<Rightarrow> (case parseFloat L x of Some f \<Rightarrow> JF64 f | None \<Rightarrow> JString x))"
| "toJQValue L (VInt k x) =
     (if (k = KUint \<or> k = KUint64) \<and> maxInt64 < x then JF64 (f64OfInt x) else JI64 (of_int x))"
| "toJQValue L (VFloat64 x) = (case f64Integral x of Some i \<Rightarrow> JI64 i | None \<Rightarrow> JF64 x)"
| "toJQValue L (VFloat32 x) =
     (let f = widenF32 L x in case f64Integral f of Some i \<Rightarrow> JI64 i | None \<Rightarrow> JF64 f)"
| "toJQValue L (VArray x) = JArray x"
| "toJQValue L (VObject x) = JObject x"
| "toJQValue L v = JString (sprint L v)"

section \<open>Comparison\<close>

definition stringsCompare :: "string \<Rightarrow> string \<Rightarrow> int" where
  "stringsCompare a b = (if a < b then - 1 else if a = b then 0 else 1)"

definition boolInt :: "bool \<Rightarrow> int" where "boolInt v = (if v then 1 else 0)"

definition cmpInt64 :: "int64 \<Rightarrow> int64 \<Rightarrow> int" where
  "cmpInt64 a b = (if sint a < sint b then - 1 else if sint b < sint a then 1 else 0)"

definition cmpFloat :: "float64 \<Rightarrow> float64 \<Rightarrow> int" where
  "cmpFloat a b = (if f64Less a b then - 1 else if f64Less b a then 1 else 0)"

definition atoiOfficial :: "string \<Rightarrow> int64" where
  "atoiOfficial v = (case ParseInt (TrimSpace v) of None \<Rightarrow> 0 | Some i \<Rightarrow> i)"

definition atofOfficial :: "go_lib \<Rightarrow> string \<Rightarrow> float64" where
  "atofOfficial L v = (case parseFloat L (TrimSpace v) of None \<Rightarrow> 0 | Some f \<Rightarrow> f)"

definition formatJQFloat :: "go_lib \<Rightarrow> float64 \<Rightarrow> string" where
  "formatJQFloat L v = formatF64 L v"

text \<open>A comparison that the code reports as not possible is \<open>None\<close>.\<close>

fun cmpStringLeft :: "go_lib \<Rightarrow> string \<Rightarrow> jqValue \<Rightarrow> int option" where
  "cmpStringLeft L left (JString rs) =
     Some (if length left \<noteq> length rs then int (length left) - int (length rs) else stringsCompare left rs)"
| "cmpStringLeft L left (JBool rb) = Some (boolInt (left = ''true'') - boolInt rb)"
| "cmpStringLeft L left (JI64 r) = Some (stringsCompare left (FormatInt r))"
| "cmpStringLeft L left (JF64 r) = Some (stringsCompare left (formatJQFloat L r))"
| "cmpStringLeft L left JNull = Some (if left = '''' then 0 else 1)"
| "cmpStringLeft L left _ = None"

fun cmpI64Left :: "go_lib \<Rightarrow> int64 \<Rightarrow> jqValue \<Rightarrow> int option" where
  "cmpI64Left L left (JI64 r) = Some (cmpInt64 left r)"
| "cmpI64Left L left (JF64 r) = Some (cmpFloat (f64OfInt (sint left)) r)"
| "cmpI64Left L left (JString r) = Some (cmpInt64 left (atoiOfficial r))"
| "cmpI64Left L left JNull = Some 1"
| "cmpI64Left L left (JBool r) = Some (boolInt (left \<noteq> 0) - boolInt r)"
| "cmpI64Left L left _ = None"

fun cmpF64Left :: "go_lib \<Rightarrow> float64 \<Rightarrow> jqValue \<Rightarrow> int option" where
  "cmpF64Left L left (JF64 r) = Some (cmpFloat left r)"
| "cmpF64Left L left (JI64 r) = Some (cmpFloat left (f64OfInt (sint r)))"
| "cmpF64Left L left (JString r) = Some (cmpFloat left (atofOfficial L r))"
| "cmpF64Left L left JNull = Some 1"
| "cmpF64Left L left (JBool r) = Some (cmpFloat left (f64OfInt (boolInt r)))"
| "cmpF64Left L left _ = None"

fun cmpBoolLeft :: "bool \<Rightarrow> jqValue \<Rightarrow> int option" where
  "cmpBoolLeft left (JBool r) = Some (boolInt left - boolInt r)"
| "cmpBoolLeft left (JI64 r) = Some (boolInt left - boolInt (r \<noteq> 0))"
| "cmpBoolLeft left (JF64 r) = Some (boolInt left - boolInt (\<not> f64Eq r 0))"
| "cmpBoolLeft left (JString rs) =
     Some (if rs = ''true'' then boolInt left - 1 else if rs = ''false'' then boolInt left else - 1)"
| "cmpBoolLeft left JNull = Some (boolInt left)"
| "cmpBoolLeft left _ = None"

fun cmpNullLeft :: "jqValue \<Rightarrow> int" where
  "cmpNullLeft JNull = 0"
| "cmpNullLeft (JString r) = (if r = '''' then 0 else - 1)"
| "cmpNullLeft _ = - 1"

definition compareKindFallback :: "go_lib \<Rightarrow> gv \<Rightarrow> gv \<Rightarrow> int" where
  "compareKindFallback L a b =
     (let ak = kindRank (jqKindOf (toJQValue L a)); bk = kindRank (jqKindOf (toJQValue L b))
      in if ak < bk then - 1 else if bk < ak then 1 else 0)"

lemma toJQValue_size [termination_simp]:
  "toJQValue L a = JArray xs \<Longrightarrow> size_list size xs < size a"
  "toJQValue L a = JObject kvs \<Longrightarrow> size_list (size_prod (\<lambda>x. 0) size) kvs < size a"
  by (cases "(L, a)" rule: toJQValue.cases; simp split: option.splits if_splits add: Let_def)+

text \<open>
  \<^verbatim>\<open>jqCompare\<close> is \<^verbatim>\<open>compareJQValues\<close> on the converted values. The keys of an object are in order
  in the model, so that \<^verbatim>\<open>sortedKeys\<close> is the list of its keys as it stands.
\<close>

function jqCompare :: "go_lib \<Rightarrow> gv \<Rightarrow> gv \<Rightarrow> int option"
  and compareArrays :: "go_lib \<Rightarrow> gv list \<Rightarrow> gv list \<Rightarrow> int"
  and compareObjects :: "go_lib \<Rightarrow> (string \<times> gv) list \<Rightarrow> (string \<times> gv) list \<Rightarrow> int" where
  "jqCompare L a b =
     (case toJQValue L a of
        JString x \<Rightarrow> cmpStringLeft L x (toJQValue L b)
      | JI64 x \<Rightarrow> cmpI64Left L x (toJQValue L b)
      | JF64 x \<Rightarrow> cmpF64Left L x (toJQValue L b)
      | JBool x \<Rightarrow> cmpBoolLeft x (toJQValue L b)
      | JNull \<Rightarrow> Some (cmpNullLeft (toJQValue L b))
      | JArray xs \<Rightarrow> (case toJQValue L b of JArray ys \<Rightarrow> Some (compareArrays L xs ys) | _ \<Rightarrow> None)
      | JObject xs \<Rightarrow> (case toJQValue L b of JObject ys \<Rightarrow> Some (compareObjects L xs ys) | _ \<Rightarrow> None))"
| "compareArrays L [] ys = - int (length ys)"
| "compareArrays L (x # xs) [] = int (length (x # xs))"
| "compareArrays L (x # xs) (y # ys) =
     (let cmp = (case jqCompare L x y of None \<Rightarrow> compareKindFallback L x y | Some c \<Rightarrow> c)
      in if cmp \<noteq> 0 then cmp else compareArrays L xs ys)"
| "compareObjects L [] ys = - int (length ys)"
| "compareObjects L (x # xs) [] = int (length (x # xs))"
| "compareObjects L ((k, x) # xs) ((l, y) # ys) =
     (if k \<noteq> l then stringsCompare k l
      else let cmp = (case jqCompare L x y of None \<Rightarrow> compareKindFallback L x y | Some c \<Rightarrow> c)
           in if cmp \<noteq> 0 then cmp else compareObjects L xs ys)"
  by pat_completeness auto
termination
  by (relation "measure (\<lambda>x. case x of Inl (L, a, b) \<Rightarrow> size a
        | Inr (Inl (L, xs, ys)) \<Rightarrow> size_list size xs
        | Inr (Inr (L, xs, ys)) \<Rightarrow> size_list (size_prod (\<lambda>x. 0) size) xs)")
     (auto simp: toJQValue_size)

declare jqCompare.simps [simp del]

definition genericCmp :: "go_lib \<Rightarrow> gv \<Rightarrow> gv \<Rightarrow> int" where
  "genericCmp L a b = (case jqCompare L a b of Some c \<Rightarrow> c | None \<Rightarrow> compareKindFallback L a b)"

fun jqPrefixString :: "go_lib \<Rightarrow> jqValue \<Rightarrow> string option" where
  "jqPrefixString L (JString s) = Some s"
| "jqPrefixString L (JI64 i) = Some (FormatInt i)"
| "jqPrefixString L (JF64 f) = Some (formatJQFloat L f)"
| "jqPrefixString L (JBool b) = Some (if b then ''true'' else ''false'')"
| "jqPrefixString L _ = None"

definition jqPrefixMatch :: "go_lib \<Rightarrow> gv \<Rightarrow> gv \<Rightarrow> bool option" where
  "jqPrefixMatch L left right =
     (case jqPrefixString L (toJQValue L left) of
        None \<Rightarrow> None
      | Some ls \<Rightarrow>
          (case jqPrefixString L (toJQValue L right) of
             None \<Rightarrow> None
           | Some rs \<Rightarrow> Some (HasPrefix ls rs)))"

section \<open>Order facts\<close>

lemma stringsCompare_self [simp]: "stringsCompare a a = 0"
  by (simp add: stringsCompare_def)

lemma f64Less_irrefl [simp]: "\<not> f64Less f f"
  by (simp add: f64Less_def)

lemma cmp_self [simp]: "cmpInt64 i i = 0" "cmpFloat f f = 0"
  by (simp_all add: cmpInt64_def cmpFloat_def)

lemma compare_refl:
  "jqCompare L a a = Some 0"
  "compareArrays L xs xs = 0"
  "compareObjects L kvs kvs = 0"
proof -
  have "(b = a \<longrightarrow> jqCompare L a b = Some 0)"
    "(ys = xs \<longrightarrow> compareArrays L xs ys = 0)"
    "(lvs = kvs \<longrightarrow> compareObjects L kvs lvs = 0)" for b ys lvs
  proof (induction L a b and L xs ys and L kvs lvs rule: jqCompare_compareArrays_compareObjects.induct)
    case (1 L a b)
    show ?case
    proof
      assume "b = a"
      then show "jqCompare L a b = Some 0"
        using 1 by (cases "toJQValue L a") (simp_all add: jqCompare.simps [of L a])
    qed
  qed (auto simp: Let_def)
  then show "jqCompare L a a = Some 0" "compareArrays L xs xs = 0" "compareObjects L kvs kvs = 0" by blast+
qed

text \<open>
  Every value compares equal to itself, whatever its type and nesting: a comparison of a value
  with itself is possible and its result is zero.
\<close>

theorem jqCompare_refl: "jqCompare L v v = Some 0 \<and> genericCmp L v v = 0"
  by (simp add: genericCmp_def compare_refl)

section \<open>Three-way comparison by a key\<close>

text \<open>
  The contract of a Go comparison function: the sign of the result is the order of the keys. A
  sort that relies on it puts the values in key order.
\<close>

locale three_way =
  fixes cmp :: "'a \<Rightarrow> 'a \<Rightarrow> int" and key :: "'a \<Rightarrow> 'k :: linorder"
  assumes cmp_neg: "cmp a b < 0 \<longleftrightarrow> key a < key b"
    and cmp_pos: "0 < cmp a b \<longleftrightarrow> key b < key a"
begin

lemma cmp_zero: "cmp a b = 0 \<longleftrightarrow> key a = key b"
  using cmp_neg [of a b] cmp_pos [of a b] by (cases "key a" "key b" rule: linorder_cases) auto

lemma sgn_antisym: "sgn (cmp b a) = - sgn (cmp a b)"
  using cmp_neg [of a b] cmp_pos [of a b] cmp_neg [of b a] cmp_pos [of b a] cmp_zero [of a b] cmp_zero [of b a]
  by (cases "key a" "key b" rule: linorder_cases) (auto simp: sgn_if)

lemma le_trans: "cmp a b \<le> 0 \<Longrightarrow> cmp b c \<le> 0 \<Longrightarrow> cmp a c \<le> 0"
  by (metis cmp_pos not_le order_trans)

lemma sorted_iff: "sorted_wrt (\<lambda>a b. cmp a b \<le> 0) xs \<longleftrightarrow> sorted (map key xs)"
  by (simp add: sorted_wrt_map not_less [symmetric] cmp_pos)

end

definition cmpString :: "string \<Rightarrow> string \<Rightarrow> int" where
  "cmpString a b = (if length a \<noteq> length b then int (length a) - int (length b) else stringsCompare a b)"

interpretation scmp: three_way cmpString "\<lambda>s. (length s, s)"
  by unfold_locales (auto simp: cmpString_def stringsCompare_def)

interpretation icmp: three_way cmpInt64 sint
  by unfold_locales (auto simp: cmpInt64_def)

lemma jqCompare_string: "jqCompare L (VString a) (VString b) = Some (cmpString a b)"
  by (simp add: jqCompare.simps cmpString_def)

lemma jqCompare_int:
  "ParseInt s = Some i \<Longrightarrow> ParseInt t = Some j \<Longrightarrow> jqCompare L (VNumber s) (VNumber t) = Some (cmpInt64 i j)"
  by (simp add: jqCompare.simps)

text \<open>
  On strings and on integers the comparison is a total order: integers by value, strings by
  length first and then by bytes; it is zero only on equal values, its sign turns around with the
  arguments, and it is transitive, so a sort by it is determined.
\<close>

theorem genericCmp_total_order:
  "sgn (genericCmp L (VString b) (VString a)) = - sgn (genericCmp L (VString a) (VString b))
   \<and> (genericCmp L (VString a) (VString b) = 0 \<longleftrightarrow> a = b)
   \<and> (sorted_wrt (\<lambda>x y. genericCmp L x y \<le> 0) (map VString ss) \<longleftrightarrow> sorted (map (\<lambda>s. (length s, s)) ss))
   \<and> (genericCmp L (VNumber (FormatInt i)) (VNumber (FormatInt j)) = 0 \<longleftrightarrow> i = j)
   \<and> (sorted_wrt (\<lambda>x y. genericCmp L x y \<le> 0) (map (\<lambda>i. VNumber (FormatInt i)) is) \<longleftrightarrow> sorted (map sint is))"
  using scmp.sgn_antisym [of a b] scmp.cmp_zero [of a b] scmp.sorted_iff [of ss] icmp.cmp_zero [of i j] icmp.sorted_iff [of "is"]
  by (auto simp: genericCmp_def jqCompare_string jqCompare_int sorted_wrt_map dest: signed_word_eqI)

text \<open>
  Across kinds the comparison need not be an order: null is less than false, but false is not
  greater than null; a number compares with a string as a number from one side and as text from
  the other.
\<close>

lemma genericCmp_null_false: "genericCmp L VNil (VBool False) = - 1 \<and> genericCmp L (VBool False) VNil = 0"
  by (simp add: genericCmp_def jqCompare.simps boolInt_def)

end
