(* ===== verification/Patch.thy ===== *)
theory Patch
  imports Pointer Jqvalue
begin

text \<open>
  \<^verbatim>\<open>patch.go\<close>: JSON patches (a list of operations, with the extensions \<^verbatim>\<open>add_create\<close>, \<^verbatim>\<open>increment\<close> and
  \<^verbatim>\<open>swap\<close>) and merge patches, with \<^verbatim>\<open>equalValue\<close> of \<^verbatim>\<open>query.go\<close> and \<^verbatim>\<open>cloneAny\<close> of \<^verbatim>\<open>db.go\<close>.
\<close>

text \<open>
  The JSON package: the tokens its decoder delivers for a text, the text of a value
  (\<^verbatim>\<open>marshalJSON\<close>), and the generic decoding \<^verbatim>\<open>unmarshalJSON\<close> into an \<^verbatim>\<open>any\<close>, which reads every number
  as a \<^verbatim>\<open>float64\<close>.
\<close>

record json_lib =
  jsonTokens :: "bytes \<Rightarrow> jstream"
  marshalJSON :: "gv \<Rightarrow> bytes result"
  unmarshalJSON :: "bytes \<Rightarrow> gv result"

text \<open>\<^verbatim>\<open>decodeJSON\<close> into an \<^verbatim>\<open>any\<close>; reading always returns (\<open>decodeJSONAny_total\<close>).\<close>

definition decodeJSON :: "json_lib \<Rightarrow> bytes \<Rightarrow> gv result" where
  "decodeJSON J raw = the (decodeJSONAny (jsonTokens J raw))"

definition cloneAny :: "json_lib \<Rightarrow> gv \<Rightarrow> gv result" where
  "cloneAny J v = (case marshalJSON J v of Inl e \<Rightarrow> Inl e | Inr b \<Rightarrow> unmarshalJSON J b)"

text \<open>\<^verbatim>\<open>equalValue\<close> of \<^verbatim>\<open>query.go\<close>; a value that does not marshal counts as the empty text.\<close>

definition marshalText :: "json_lib \<Rightarrow> gv \<Rightarrow> bytes" where
  "marshalText J v = (case marshalJSON J v of Inl e \<Rightarrow> [] | Inr b \<Rightarrow> b)"

definition stringFloat :: "go_lib \<Rightarrow> gv \<Rightarrow> float64 option" where
  "stringFloat L v = (case v of VString s \<Rightarrow> parseFloat L s | _ \<Rightarrow> None)"

definition equalValue :: "go_lib \<Rightarrow> json_lib \<Rightarrow> gv \<Rightarrow> gv \<Rightarrow> bool" where
  "equalValue L J a b =
     (case (toFloat64 L a, toFloat64 L b) of
        (Some an, Some bn) \<Rightarrow> f64Eq an bn
      | (Some an, None) \<Rightarrow>
          (case stringFloat L b of
             Some bn \<Rightarrow> f64Eq an bn
           | None \<Rightarrow> marshalText J a = marshalText J b)
      | (None, Some bn) \<Rightarrow>
          (case stringFloat L a of
             Some an \<Rightarrow> f64Eq an bn
           | None \<Rightarrow> marshalText J a = marshalText J b)
      | (None, None) \<Rightarrow> marshalText J a = marshalText J b)"

section \<open>Increment\<close>

definition incrementValue :: "go_lib \<Rightarrow> gv \<Rightarrow> gv \<Rightarrow> gv result" where
  "incrementValue L cur inc =
     (case (toInt64 cur, toInt64 inc) of
        (Some ci, Some ii) \<Rightarrow> Inr (VInt KInt64 (sint (ci + ii)))
      | _ \<Rightarrow>
          (case toFloat64 L cur of
             None \<Rightarrow> Inl (Coded CodeInvalidValueType)
           | Some cf \<Rightarrow>
               (case toFloat64 L inc of
                  None \<Rightarrow> Inl (Coded CodeInvalidValueType)
                | Some iv \<Rightarrow> Inr (VFloat64 (addF64 L cf iv)))))"

section \<open>Patch operations\<close>

record patchOp =
  opOp :: string
  opPath :: string
  opFrom :: string
  opValue :: gv

definition strField :: "(string \<times> gv) list \<Rightarrow> string \<Rightarrow> string" where
  "strField m k = (case objGet m k of Some (VString s) \<Rightarrow> s | _ \<Rightarrow> [])"

fun decodePatchItems :: "gv list \<Rightarrow> patchOp list result" where
  "decodePatchItems [] = Inr []"
| "decodePatchItems (item # items) =
     (case item of
        VObject m \<Rightarrow>
          (case decodePatchItems items of
             Inl e \<Rightarrow> Inl e
           | Inr ops \<Rightarrow>
               Inr (\<lparr>opOp = strField m ''op'', opPath = strField m ''path'', opFrom = strField m ''from'',
                     opValue = (case objGet m ''value'' of None \<Rightarrow> VNil | Some v \<Rightarrow> v)\<rparr> # ops))
      | _ \<Rightarrow> Inl (Coded CodeInvalidValueType))"

definition decodePatchOps :: "json_lib \<Rightarrow> bytes \<Rightarrow> patchOp list result" where
  "decodePatchOps J raw =
     (case decodeJSON J raw of
        Inl e \<Rightarrow> Inl e
      | Inr (VArray items) \<Rightarrow> decodePatchItems items
      | Inr _ \<Rightarrow> Inl (Coded CodeInvalidValueType))"

text \<open>
  One operation of \<^verbatim>\<open>applyRFC6902\<close>. \<open>room\<close> says whether the backing array of a root array has spare
  capacity; it is a property of the decoded document and does not change during the patch.

  Values are trees here. On a document whose root is an object this is exact, since no operation makes two parts of the document share
  a container: \<open>copy\<close> and \<open>swap\<close> clone, \<open>move\<close> removes what it puts elsewhere, and every value of the patch is used once. On a
  document whose root is an array a removal at the root leaves the last element twice (\<^verbatim>\<open>pointer.go:154\<close>), as one shared value where
  it is a container: a later operation of the same patch through one of the two shows in both, which the model does not follow.
\<close>

definition applyOp :: "go_lib \<Rightarrow> json_lib \<Rightarrow> bool \<Rightarrow> gv \<Rightarrow> patchOp \<Rightarrow> gv result" where
  "applyOp L J room doc p =
     (if opOp p = ''add'' then pointerAdd room doc (opPath p) (opValue p) False
      else if opOp p = ''add_create'' then pointerAdd room doc (opPath p) (opValue p) True
      else if opOp p = ''replace'' then pointerReplace room doc (opPath p) (opValue p)
      else if opOp p = ''remove'' then pointerRemove doc (opPath p)
      else if opOp p = ''increment'' then
        (case pointerGet doc (opPath p) of
           None \<Rightarrow> Inl ErrNotFound
         | Some cur \<Rightarrow>
             (case incrementValue L cur (opValue p) of
                Inl e \<Rightarrow> Inl e
              | Inr nxt \<Rightarrow> pointerReplace room doc (opPath p) nxt))
      else if opOp p = ''move'' then
        (case pointerGet doc (opFrom p) of
           None \<Rightarrow> Inl ErrNotFound
         | Some v \<Rightarrow>
             (case pointerRemove doc (opFrom p) of
                Inl e \<Rightarrow> Inl e
              | Inr doc1 \<Rightarrow> pointerAdd room doc1 (opPath p) v False))
      else if opOp p = ''copy'' then
        (case pointerGet doc (opFrom p) of
           None \<Rightarrow> Inl ErrNotFound
         | Some v \<Rightarrow>
             (case cloneAny J v of
                Inl e \<Rightarrow> Inl e
              | Inr cl \<Rightarrow> pointerAdd room doc (opPath p) cl False))
      else if opOp p = ''swap'' then
        (case pointerGet doc (opFrom p) of
           None \<Rightarrow> Inl ErrNotFound
         | Some from' \<Rightarrow>
             (case cloneAny J from' of
                Inl e \<Rightarrow> Inl e
              | Inr fromCl \<Rightarrow>
                  (case pointerGet doc (opPath p) of
                     Some to \<Rightarrow>
                       (case cloneAny J to of
                          Inl e \<Rightarrow> Inl e
                        | Inr toCl \<Rightarrow>
                            (case pointerReplace room doc (opFrom p) toCl of
                               Inl e \<Rightarrow> Inl e
                             | Inr doc1 \<Rightarrow> pointerReplace room doc1 (opPath p) fromCl))
                   | None \<Rightarrow>
                       (case pointerAdd room doc (opPath p) fromCl False of
                          Inl e \<Rightarrow> Inl e
                        | Inr doc1 \<Rightarrow> pointerRemove doc1 (opFrom p)))))
      else if opOp p = ''test'' then
        (case pointerGet doc (opPath p) of
           None \<Rightarrow> Inl (Coded CodeInvalidQuery)
         | Some v \<Rightarrow> if equalValue L J v (opValue p) then Inr doc else Inl (Coded CodeInvalidQuery))
      else Inl (Plain ''unsupported patch op''))"

fun applyOps :: "go_lib \<Rightarrow> json_lib \<Rightarrow> bool \<Rightarrow> gv \<Rightarrow> patchOp list \<Rightarrow> gv result" where
  "applyOps L J room doc [] = Inr doc"
| "applyOps L J room doc (p # ps) =
     (case applyOp L J room doc p of Inl e \<Rightarrow> Inl e | Inr doc1 \<Rightarrow> applyOps L J room doc1 ps)"

definition applyRFC6902 :: "go_lib \<Rightarrow> json_lib \<Rightarrow> bool \<Rightarrow> bytes \<Rightarrow> bytes \<Rightarrow> bytes result" where
  "applyRFC6902 L J room raw patchRaw =
     (case decodeJSON J raw of
        Inl e \<Rightarrow> Inl e
      | Inr doc \<Rightarrow>
          (case decodePatchOps J patchRaw of
             Inl e \<Rightarrow> Inl e
           | Inr ops \<Rightarrow>
               (case applyOps L J room doc ops of Inl e \<Rightarrow> Inl e | Inr doc' \<Rightarrow> marshalJSON J doc')))"

section \<open>Merge patches\<close>

text \<open>
  \<^verbatim>\<open>mergePatchValue\<close>: the loop over the patch object runs in an unspecified order; the model goes by
  key, and \<open>mergeFields_objGet\<close> below determines the result without reference to the order.
\<close>

fun mergePatchValue :: "gv \<Rightarrow> gv \<Rightarrow> gv"
  and mergeFields :: "(string \<times> gv) list \<Rightarrow> (string \<times> gv) list \<Rightarrow> (string \<times> gv) list" where
  "mergePatchValue target (VObject pm) = VObject (mergeFields pm (case target of VObject tm \<Rightarrow> tm | _ \<Rightarrow> []))"
| "mergePatchValue target patch = patch"
| "mergeFields [] tm = tm"
| "mergeFields ((k, v) # pm) tm =
     mergeFields pm
       (if v = VNil then objDel k tm
        else objSet k (mergePatchValue (case objGet tm k of None \<Rightarrow> VNil | Some t \<Rightarrow> t) v) tm)"

definition isSpaceByte :: "byte \<Rightarrow> bool" where
  "isSpaceByte b \<longleftrightarrow> b = 0x20 \<or> b = 0x0a \<or> b = 0x0d \<or> b = 0x09"

definition bytesTrimSpace :: "bytes \<Rightarrow> bytes" where
  "bytesTrimSpace b = rev (dropWhile isSpaceByte (rev (dropWhile isSpaceByte b)))"

definition applyMergePatch :: "json_lib \<Rightarrow> bytes \<Rightarrow> bytes \<Rightarrow> bytes result" where
  "applyMergePatch J raw patchRaw =
     (case (if bytesTrimSpace raw = [] then Inr (VObject []) else decodeJSON J raw) of
        Inl e \<Rightarrow> Inl e
      | Inr target \<Rightarrow>
          (case decodeJSON J patchRaw of
             Inl e \<Rightarrow> Inl e
           | Inr patch \<Rightarrow> marshalJSON J (mergePatchValue target patch)))"

definition applyJSONPatch :: "go_lib \<Rightarrow> json_lib \<Rightarrow> bool \<Rightarrow> bytes \<Rightarrow> bytes \<Rightarrow> bytes result" where
  "applyJSONPatch L J room raw patchRaw =
     (let t = bytesTrimSpace patchRaw in
      if t = [] then Inr raw
      else if hd t = 0x5b then applyRFC6902 L J room raw t
      else applyMergePatch J raw t)"

definition applyPatchPayload :: "go_lib \<Rightarrow> json_lib \<Rightarrow> bool \<Rightarrow> bytes \<Rightarrow> gv \<Rightarrow> bytes result" where
  "applyPatchPayload L J room raw payload =
     (case marshalJSON J payload of Inl e \<Rightarrow> Inl e | Inr patch \<Rightarrow> applyJSONPatch L J room raw patch)"

section \<open>Merge patches: RFC 7396\<close>

definition nilOr :: "gv option \<Rightarrow> gv" where
  "nilOr t = (case t of None \<Rightarrow> VNil | Some v \<Rightarrow> v)"

text \<open>What the merge does to one key.\<close>

definition mergedKey :: "gv option \<Rightarrow> gv option \<Rightarrow> gv option" where
  "mergedKey t p =
     (case p of
        None \<Rightarrow> t
      | Some v \<Rightarrow> if v = VNil then None else Some (mergePatchValue (nilOr t) v))"

lemma mergeFields_objGet:
  "objOk pm \<Longrightarrow> objGet (mergeFields pm tm) k = mergedKey (objGet tm k) (objGet pm k)"
proof (induction pm arbitrary: tm)
  case (Cons kv pm)
  obtain k' v where kv: "kv = (k', v)" by force
  have "objGet pm k' = None"
    using Cons.prems kv by (auto simp: objOk_Cons map_of_eq_None_iff)
  then show ?case
    using Cons by (cases "objGet pm k") (auto simp: kv objOk_Cons objGet_objSet objGet_objDel mergedKey_def nilOr_def)
qed (simp add: mergedKey_def)

lemma objOk_mergeFields: "objOk tm \<Longrightarrow> objOk (mergeFields pm tm)"
  by (induction pm arbitrary: tm) (auto simp: objOk_objSet objOk_objDel)


definition fieldsOf :: "gv \<Rightarrow> (string \<times> gv) list" where
  "fieldsOf v = (case v of VObject m \<Rightarrow> m | _ \<Rightarrow> [])"

lemma objOk_fieldsOf: "wfv v \<Longrightarrow> objOk (fieldsOf v)"
  by (cases v) (simp_all add: fieldsOf_def)

lemma mergePatchValue_object: "mergePatchValue t (VObject pm) = VObject (mergeFields pm (fieldsOf t))"
  by (simp add: fieldsOf_def)

text \<open>
  C40: the merge of RFC 7396. A patch that is not an object replaces the target. An object patch gives
  an object in which a key the patch does not name keeps the target's value, a key the patch sets to
  null is absent, and any other key is the merge of the two values, a target that is not an object
  counting as an empty one.
\<close>

theorem mergePatchValue_spec:
  assumes "wfv target" and "wfv (VObject pm)"
  shows "\<exists>m. mergePatchValue target (VObject pm) = VObject m \<and> objOk m \<and>
    (\<forall>k. objGet m k =
       (case objGet pm k of
          None \<Rightarrow> objGet (fieldsOf target) k
        | Some v \<Rightarrow> if v = VNil then None
                    else Some (mergePatchValue (nilOr (objGet (fieldsOf target) k)) v)))"
proof -
  have "objOk pm" using assms(2) by simp
  then show ?thesis
    unfolding mergePatchValue_object
    using objOk_mergeFields [OF objOk_fieldsOf [OF assms(1)], of pm]
    by (simp add: mergeFields_objGet mergedKey_def del: mergePatchValue.simps)
qed

theorem mergePatchValue_spec_witness:
  "\<exists>m. mergePatchValue (VObject [(''a'', VBool True), (''b'', VNil)]) (VObject [(''a'', VNil), (''c'', VString ''x'')]) = VObject m
     \<and> objGet m ''a'' = None \<and> objGet m ''b'' = Some VNil \<and> objGet m ''c'' = Some (VString ''x'')"
  using mergePatchValue_spec [of "VObject [(''a'', VBool True), (''b'', VNil)]" "[(''a'', VNil), (''c'', VString ''x'')]"]
  by (auto simp: objOk_Cons fieldsOf_def)

lemma wfv_merge:
  "wfv t \<Longrightarrow> wfv p \<Longrightarrow> wfv (mergePatchValue t p)"
  "wfv (VObject tm) \<Longrightarrow> list_all (\<lambda>(k, v). wfv v) pm \<Longrightarrow> wfv (VObject (mergeFields pm tm))"
proof (induction t p and pm tm rule: mergePatchValue_mergeFields.induct)
  case (1 target pm)
  then show ?case by (cases target) simp_all
next
  case (4 k v pm tm)
  let ?t = "case objGet tm k of None \<Rightarrow> VNil | Some t \<Rightarrow> t"
  have "wfv ?t" using wfv_objGet [OF "4.prems"(1)] by (auto split: option.splits)
  then have "wfv (mergePatchValue ?t v)" if "v \<noteq> VNil" using "4.IH"(1) that "4.prems"(2) by simp
  then have "wfv (VObject (if v = VNil then objDel k tm else objSet k (mergePatchValue ?t v) tm))"
    using wfv_objDel [OF "4.prems"(1)] wfv_objSet [OF "4.prems"(1)] by simp
  then show ?case using "4.IH"(2) "4.prems"(2) by simp
qed simp_all

lemma merge_idem_aux:
  "wfv t \<Longrightarrow> wfv p \<Longrightarrow> mergePatchValue (mergePatchValue t p) p = mergePatchValue t p"
proof (induction p arbitrary: t rule: measure_induct_rule [of size])
  case (less p)
  show ?case
  proof (cases p)
    case (VObject pm)
    have pm: "objOk pm" using less.prems(2) VObject by simp
    let ?m = "mergeFields pm (fieldsOf t)"
    have m: "objOk ?m" using objOk_mergeFields objOk_fieldsOf [OF less.prems(1)] by blast
    have "mergeFields pm ?m = ?m"
    proof (rule obj.get_ext [OF objOk_mergeFields [OF m] m], rule ext)
      fix k
      show "objGet (mergeFields pm ?m) k = objGet ?m k"
      proof (cases "objGet pm k")
        case (Some v)
        then have "size v < size p"
          using VObject by (auto dest!: map_of_SomeD size_list_estimation' [where f = "size_prod (\<lambda>_. 0) size" and y = "size v"])
        moreover have "wfv v" using wfv_objGet less.prems(2) Some VObject by blast
        moreover have "wfv (nilOr (objGet (fieldsOf t) k))"
          using less.prems(1) wfv_objGet by (cases t) (auto simp: fieldsOf_def nilOr_def split: option.splits)
        ultimately have "mergePatchValue (mergePatchValue (nilOr (objGet (fieldsOf t) k)) v) v
            = mergePatchValue (nilOr (objGet (fieldsOf t) k)) v"
          using less.IH by blast
        then show ?thesis using pm Some by (simp add: mergeFields_objGet mergedKey_def nilOr_def)
      qed (simp add: pm mergeFields_objGet mergedKey_def)
    qed
    then show ?thesis by (simp add: VObject mergePatchValue_object fieldsOf_def del: mergePatchValue.simps(1))
  qed simp_all
qed

text \<open>Applying a merge patch twice is the same as applying it once.\<close>

lemma mergePatchValue_idem:
  assumes "wfv target" and "wfv patch"
  shows "mergePatchValue (mergePatchValue target patch) patch = mergePatchValue target patch"
  using merge_idem_aux [OF assms] .

lemma mergePatchValue_idem_example:
  "mergePatchValue (mergePatchValue (VString ''s'') (VObject [(''a'', VNil)])) (VObject [(''a'', VNil)])
     = mergePatchValue (VString ''s'') (VObject [(''a'', VNil)])"
  by (rule mergePatchValue_idem) (simp_all add: objOk_Cons)

section \<open>Patch operations on an object document\<close>

definition isObject :: "gv \<Rightarrow> bool" where
  "isObject v \<longleftrightarrow> (\<exists>m. v = VObject m)"

lemma seenByCaller_object [simp]: "isObject doc \<Longrightarrow> seenByCaller room doc d = d"
  by (auto simp: isObject_def seenByCaller_def)

lemma pointerSetMode_object:
  assumes "isObject doc" and "pointerTokens ptr = Inr ts" and "ts \<noteq> []"
  shows "pointerSetMode room doc ptr val cp lc ai = setAt doc ts val cp lc ai"
  using assms by (simp add: pointerSetMode_def split: sum.splits)

lemma pointerRemove_object:
  assumes "isObject doc" and "pointerTokens ptr = Inr ts" and "ts \<noteq> []"
  shows "pointerRemove doc ptr = removeAt doc ts"
  using assms by (simp add: pointerRemove_def split: sum.splits)

lemma isObject_setAt: "isObject doc \<Longrightarrow> ts \<noteq> [] \<Longrightarrow> setAt doc ts val cp lc ai = Inr d \<Longrightarrow> isObject d"
  by (cases ts) (auto simp: isObject_def setLeaf_def split: if_splits option.splits sum.splits)

lemma isObject_removeAt: "isObject doc \<Longrightarrow> removeAt doc ts = Inr d \<Longrightarrow> isObject d"
  by (cases ts) (auto simp: isObject_def split: if_splits option.splits sum.splits)

lemma applyOps_append:
  "applyOps L J room doc (ps @ qs) =
     (case applyOps L J room doc ps of Inl e \<Rightarrow> Inl e | Inr d \<Rightarrow> applyOps L J room d qs)"
  by (induction ps arbitrary: doc) (auto split: sum.splits)

text \<open>
  An increment of an integer field by an integer succeeds, stores the sum, wrapped to 64 bits, at
  the path, and leaves every path apart from it as it was.
\<close>

lemma increment_op:
  assumes "opOp p = ''increment''" and "isObject doc"
    and "pointerTokens (opPath p) = Inr ts" and "ts \<noteq> []"
    and "getAt doc ts = Some cur" and "toInt64 cur = Some a" and "toInt64 (opValue p) = Some b"
  shows "\<exists>d. applyOp L J room doc p = Inr d \<and> getAt d ts = Some (VInt KInt64 (sint (a + b)))
    \<and> (\<forall>us. apart doc ts us \<longrightarrow> getAt d us = getAt doc us)"
proof -
  let ?v = "VInt KInt64 (sint (a + b))"
  have "\<not> isl (setAt doc ts ?v False False False)" using replace_iff [OF assms(4)] assms(5) by simp
  then obtain d where d: "setAt doc ts ?v False False False = Inr d" by (cases "setAt doc ts ?v False False False") auto
  have "applyOp L J room doc p = Inr d"
    using assms d by (simp add: applyOp_def pointerGet_def incrementValue_def pointerReplace_def pointerSetMode_object)
  moreover have "getAt d ts = Some ?v" by (rule setAt_get [OF d assms(4)]) simp
  ultimately show ?thesis using setAt_frame_aux [OF d] by blast
qed

lemma increment_op_example:
  "\<forall>L J. \<exists>d. applyOp L J True (VObject [(''n'', VNumber ''5''), (''z'', VNil)])
       \<lparr>opOp = ''increment'', opPath = ''/n'', opFrom = '''', opValue = VNumber ''2''\<rparr> = Inr d
     \<and> getAt d [''n''] = Some (VInt KInt64 7) \<and> getAt d [''z''] = Some VNil"
proof (intro allI)
  fix L J
  let ?doc = "VObject [(''n'', VNumber ''5''), (''z'', VNil)]"
  let ?p = "\<lparr>opOp = ''increment'', opPath = ''/n'', opFrom = '''', opValue = VNumber ''2''\<rparr>"
  have t: "pointerTokens (opPath ?p) = Inr [''n'']"
    by (simp add: pointerTokens_def HasPrefix_iff unescapeToken_def)
  have i: "ParseInt ''5'' = Some 5" "ParseInt ''2'' = Some 2" by (simp_all add: ParseInt_def digitVal_def)
  have "\<exists>d. applyOp L J True ?doc ?p = Inr d \<and> getAt d [''n''] = Some (VInt KInt64 (sint (5 + 2 :: int64)))
     \<and> (\<forall>us. apart ?doc [''n''] us \<longrightarrow> getAt d us = getAt ?doc us)"
    by (rule increment_op [OF _ _ t, where cur = "VNumber ''5''"]) (simp_all add: i isObject_def)
  then obtain d where d: "applyOp L J True ?doc ?p = Inr d"
    "getAt d [''n''] = Some (VInt KInt64 (sint (5 + 2 :: int64)))"
    "\<forall>us. apart ?doc [''n''] us \<longrightarrow> getAt d us = getAt ?doc us" by blast
  have "apart ?doc [''n''] [''z'']" by simp
  then have "getAt d [''z''] = getAt ?doc [''z'']" using d(3) by blast
  also have "\<dots> = Some VNil" by simp
  finally show "\<exists>d. applyOp L J True ?doc ?p = Inr d \<and> getAt d [''n''] = Some (VInt KInt64 7) \<and> getAt d [''z''] = Some VNil"
    using d(1,2) by (auto simp del: getAt.simps)
qed

text \<open>
  A move takes the value from its source and puts it, unchanged, at its destination; it fails,
  like every operation that reads a path, when the source does not exist.
\<close>

lemma move_op:
  assumes "opOp p = ''move''" and "isObject doc"
    and "pointerTokens (opFrom p) = Inr fs" and "fs \<noteq> []"
    and "pointerTokens (opPath p) = Inr ts" and "ts \<noteq> []" and "last ts \<noteq> ''-''"
  shows "case applyOp L J room doc p of
      Inl e \<Rightarrow> getAt doc fs = None \<or> (\<exists>d1. removeAt doc fs = Inr d1 \<and> isl (setAt d1 ts (the (getAt doc fs)) False True True))
    | Inr d \<Rightarrow> getAt doc fs \<noteq> None \<and> getAt d ts = getAt doc fs"
proof (cases "getAt doc fs")
  case None
  then show ?thesis using assms by (simp add: applyOp_def pointerGet_def)
next
  case (Some v)
  have "\<not> isl (removeAt doc fs)" using remove_iff [OF assms(4)] Some by simp
  then obtain d1 where d1: "removeAt doc fs = Inr d1" by (cases "removeAt doc fs") auto
  have "isObject d1" using isObject_removeAt [OF assms(2) d1] .
  then have "applyOp L J room doc p = setAt d1 ts v False True True"
    using assms Some d1
    by (simp add: applyOp_def pointerGet_def pointerRemove_object pointerAdd_def pointerSetMode_object)
  then show ?thesis using Some d1 setAt_get [of d1 ts v False True True] assms(6,7) by (auto split: sum.splits)
qed

lemma move_op_example:
  "\<forall>L J. case applyOp L J True (VObject [(''a'', VBool True)])
       \<lparr>opOp = ''move'', opPath = ''/b'', opFrom = ''/a'', opValue = VNil\<rparr> of
     Inl e \<Rightarrow> False | Inr d \<Rightarrow> getAt d [''b''] = Some (VBool True)"
proof (intro allI)
  fix L J
  let ?doc = "VObject [(''a'', VBool True)]"
  let ?p = "\<lparr>opOp = ''move'', opPath = ''/b'', opFrom = ''/a'', opValue = VNil\<rparr>"
  have t: "pointerTokens (opFrom ?p) = Inr [''a'']" "pointerTokens (opPath ?p) = Inr [''b'']"
    by (simp_all add: pointerTokens_def HasPrefix_iff unescapeToken_def)
  show "case applyOp L J True ?doc ?p of Inl e \<Rightarrow> False | Inr d \<Rightarrow> getAt d [''b''] = Some (VBool True)"
    using move_op [of ?p ?doc "[''a'']" "[''b'']" L J True] t
    by (auto simp: isObject_def setLeaf_def objDel_def split: sum.splits)
qed

end
