(* ===== verification/Keys.thy ===== *)
theory Keys
  imports Types
begin

text \<open>
  The storage keys of \<^verbatim>\<open>storage.go\<close>: the byte layout of document, sequence and index keys, their
  decoders, the upper bound of a prefix range, and the eight-byte values. Shown here: each decoder
  inverts its encoder, keys of different kinds and of different owners never collide, a byte range
  scan of documents comes back in the signed order of the ids, and the range between a prefix and
  \<^verbatim>\<open>prefixEnd\<close> holds exactly the keys with that prefix.
\<close>

section \<open>Definitions\<close>

definition keyMetaState :: bytes where
  "keyMetaState = bytes_of_string ''meta/state''"

definition keyTagDoc :: byte where "keyTagDoc = 0x10"
definition keyTagSeq :: byte where "keyTagSeq = 0x11"
definition keyTagIdx :: byte where "keyTagIdx = 0x20"
definition keyTagUIdx :: byte where "keyTagUIdx = 0x21"

lemmas keyTag_defs [go_simps] = keyTagDoc_def keyTagSeq_def keyTagIdx_def keyTagUIdx_def

definition appendI64 :: "bytes \<Rightarrow> int64 \<Rightarrow> bytes" where
  "appendI64 dst v = dst @ PutUint64 (v XOR 0x8000000000000000)"

definition readI64 :: "bytes \<Rightarrow> nat \<Rightarrow> (int64 \<times> nat) option" where
  "readI64 src off =
     (if length src - off < 8 then None
      else Some (Uint64 (take 8 (drop off src)) XOR 0x8000000000000000, off + 8))"

definition appendSegment :: "bytes \<Rightarrow> string \<Rightarrow> bytes" where
  "appendSegment dst s = dst @ PutUint32 (of_nat (length s)) @ bytes_of_string s"

definition readSegment :: "bytes \<Rightarrow> nat \<Rightarrow> (string \<times> nat) option" where
  "readSegment src off =
     (if length src - off < 4 then None
      else let n = unat (Uint32 (take 4 (drop off src)));
               off = off + 4
           in if length src - off < n then None
              else Some (string_of_bytes (take n (drop off src)), off + n))"

definition keySeq :: "int64 \<Rightarrow> bytes" where
  "keySeq dbid = appendI64 [keyTagSeq] dbid"

definition keyDocPrefix :: "int64 \<Rightarrow> bytes" where
  "keyDocPrefix dbid = appendI64 [keyTagDoc] dbid"

definition keyDoc :: "int64 \<Rightarrow> int64 \<Rightarrow> bytes" where
  "keyDoc dbid i = appendI64 (keyDocPrefix dbid) i"

definition keyIndexPrefix :: "indexState \<Rightarrow> bytes" where
  "keyIndexPrefix idx = appendI64 [keyTagIdx] (idxDBID idx)"

definition keyUniqueIndexPrefix :: "indexState \<Rightarrow> bytes" where
  "keyUniqueIndexPrefix idx = appendI64 [keyTagUIdx] (idxDBID idx)"

definition keyIndexPathPrefix :: "indexState \<Rightarrow> bytes" where
  "keyIndexPathPrefix idx = keyIndexPrefix idx"

definition keyUniqueIndexPathPrefix :: "indexState \<Rightarrow> bytes" where
  "keyUniqueIndexPathPrefix idx = keyUniqueIndexPrefix idx"

definition keyIndexValuePrefix :: "indexState \<Rightarrow> string \<Rightarrow> bytes" where
  "keyIndexValuePrefix idx val = appendSegment (keyIndexPathPrefix idx) val"

definition keyUniqueIndexValuePrefix :: "indexState \<Rightarrow> string \<Rightarrow> bytes" where
  "keyUniqueIndexValuePrefix idx val = appendSegment (keyUniqueIndexPathPrefix idx) val"

definition keyIndex :: "indexState \<Rightarrow> string \<Rightarrow> int64 \<Rightarrow> bytes" where
  "keyIndex idx val i = appendI64 (keyIndexValuePrefix idx val) i"

definition keyUniqueIndex :: "indexState \<Rightarrow> string \<Rightarrow> bytes" where
  "keyUniqueIndex idx val = keyUniqueIndexValuePrefix idx val"

text \<open>The decoders return nothing where the code's last result is false.\<close>

definition decodeDocKey :: "bytes \<Rightarrow> (int64 \<times> int64) option" where
  "decodeDocKey key =
     (if key = [] \<or> hd key \<noteq> keyTagDoc then None
      else case readI64 key 1 of
             None \<Rightarrow> None
           | Some (dbid, off) \<Rightarrow>
               (case readI64 key off of
                  None \<Rightarrow> None
                | Some (i, off) \<Rightarrow> if off = length key then Some (dbid, i) else None))"

definition decodeIndexKey :: "bytes \<Rightarrow> (int64 \<times> string \<times> int64) option" where
  "decodeIndexKey key =
     (if key = [] \<or> hd key \<noteq> keyTagIdx then None
      else case readI64 key 1 of
             None \<Rightarrow> None
           | Some (dbid, off) \<Rightarrow>
               (case readSegment key off of
                  None \<Rightarrow> None
                | Some (val, off) \<Rightarrow>
                    (case readI64 key off of
                       None \<Rightarrow> None
                     | Some (i, off) \<Rightarrow>
                         if off \<noteq> length key then None else Some (dbid, val, i))))"

definition decodeUniqueIndexKey :: "bytes \<Rightarrow> (int64 \<times> string) option" where
  "decodeUniqueIndexKey key =
     (if key = [] \<or> hd key \<noteq> keyTagUIdx then None
      else case readI64 key 1 of
             None \<Rightarrow> None
           | Some (dbid, off) \<Rightarrow>
               (case readSegment key off of
                  None \<Rightarrow> None
                | Some (val, off) \<Rightarrow>
                    if off \<noteq> length key then None else Some (dbid, val)))"

text \<open>
  \<^verbatim>\<open>prefixEnd\<close>: the loop runs from the last byte down; \<open>[]\<close> is the nil slice the code returns when
  every byte is 0xff, which the storage engine takes as "no upper bound".
\<close>

fun prefixEndLoop :: "bytes \<Rightarrow> nat \<Rightarrow> bytes" where
  "prefixEndLoop e 0 = []"
| "prefixEndLoop e (Suc i) =
     (if e ! i \<noteq> 0xff then take (Suc i) (e[i := e ! i + 1]) else prefixEndLoop e i)"

definition prefixEnd :: "bytes \<Rightarrow> bytes" where
  "prefixEnd prefix = prefixEndLoop prefix (length prefix)"

text \<open>The range of keys an engine iterator visits, with \<open>[]\<close> for an absent upper bound.\<close>

definition inKeyRange :: "bytes \<Rightarrow> bytes \<Rightarrow> bytes \<Rightarrow> bool" where
  "inKeyRange lower upper k \<longleftrightarrow> lower \<le> k \<and> (upper = [] \<or> k < upper)"

definition putU64 :: "bytes \<Rightarrow> uint64 \<Rightarrow> bytes" where
  "putU64 dst v = dst @ PutUint64 v"

definition parseU64 :: "bytes \<Rightarrow> uint64 result" where
  "parseU64 raw = (if length raw \<noteq> 8 then Inl UnexpectedEOF else Inr (Uint64 raw))"

lemmas key_defs [go_simps] =
  keySeq_def keyDoc_def keyDocPrefix_def keyIndex_def keyIndexValuePrefix_def
  keyIndexPathPrefix_def keyIndexPrefix_def keyUniqueIndex_def keyUniqueIndexValuePrefix_def
  keyUniqueIndexPathPrefix_def keyUniqueIndexPrefix_def appendI64_def appendSegment_def

section \<open>The two field codecs\<close>

definition encI64 :: "int64 \<Rightarrow> bytes" where
  "encI64 v = appendI64 [] v"

definition encSegment :: "string \<Rightarrow> bytes" where
  "encSegment s = appendSegment [] s"

definition segmentFits :: "string \<Rightarrow> bool" where
  "segmentFits s \<longleftrightarrow> length s < 2 ^ 32"

lemma appendI64_enc: "appendI64 dst v = dst @ encI64 v"
  by (simp add: encI64_def appendI64_def)

lemma appendSegment_enc: "appendSegment dst s = dst @ encSegment s"
  by (simp add: encSegment_def appendSegment_def)

lemma length_encI64 [simp]: "length (encI64 v) = 8"
  by (simp add: encI64_def appendI64_def)

lemma length_encSegment [simp]: "length (encSegment s) = 4 + length s"
  by (simp add: encSegment_def appendSegment_def)

interpretation i64: ordered_codec encI64 readI64 "\<lambda>_. True" 8 "\<lambda>a b. sint a < sint b"
proof unfold_locales
  fix x :: int64 and pre post
  show "readI64 (pre @ encI64 x @ post) (length pre) = Some (x, length pre + length (encI64 x))"
    by (simp add: readI64_def encI64_def appendI64_def xor.assoc)
next
  fix x y :: int64
  show "encI64 x < encI64 y \<longleftrightarrow> sint x < sint y"
    by (simp only: encI64_def appendI64_def append_Nil PutUint64_less_iff xor_sign_less_iff)
qed simp

interpretation seg: offset_codec encSegment readSegment segmentFits
proof unfold_locales
  fix x pre post
  assume "segmentFits x"
  then have "unat (of_nat (length x) :: 32 word) = length x"
    by (simp add: segmentFits_def unat_of_nat take_bit_nat_eq_self)
  then show "readSegment (pre @ encSegment x @ post) (length pre)
      = Some (x, length pre + length (encSegment x))"
    by (simp add: readSegment_def encSegment_def appendSegment_def Let_def)
qed

lemmas key_layout =
  keySeq_def keyDoc_def keyDocPrefix_def keyIndex_def keyIndexValuePrefix_def
  keyIndexPathPrefix_def keyIndexPrefix_def keyUniqueIndex_def keyUniqueIndexValuePrefix_def
  keyUniqueIndexPathPrefix_def keyUniqueIndexPrefix_def appendI64_enc appendSegment_enc

lemma readI64_1: "readI64 (t # encI64 d @ post) (Suc 0) = Some (d, 9)"
  using i64.dec_enc [where x = d and pre = "[t]" and post = post] by simp

section \<open>Decoding inverts encoding\<close>

text \<open>The decoder of document keys returns the collection and the id the key was built from.\<close>

lemma decodeDocKey_keyDoc: "decodeDocKey (keyDoc dbid i) = Some (dbid, i)"
proof -
  have "readI64 (keyTagDoc # encI64 dbid @ encI64 i) 9 = Some (i, 17)"
    using i64.dec_enc_at [where x = i and off = 9 and pre = "keyTagDoc # encI64 dbid" and post = "[]"] by simp
  then show ?thesis by (simp add: decodeDocKey_def key_layout readI64_1)
qed

text \<open>
  An index key decodes to the index, the value and the document id it was built from, as long as
  the value's length fits the four-byte length field.
\<close>

lemma decodeIndexKey_keyIndex:
  assumes "length val < 2 ^ 32"
  shows "decodeIndexKey (keyIndex idx val i) = Some (idxDBID idx, val, i)"
proof -
  let ?key = "keyTagIdx # encI64 (idxDBID idx) @ encSegment val @ encI64 i"
  have "readSegment ?key 9 = Some (val, 13 + length val)"
    using seg.dec_enc_at [of val 9 "keyTagIdx # encI64 (idxDBID idx)" "encI64 i"] assms
    by (simp add: segmentFits_def)
  moreover have "readI64 ?key (13 + length val) = Some (i, 21 + length val)"
    using i64.dec_enc_at [where x = i and off = "13 + length val" and post = "[]"
        and pre = "keyTagIdx # encI64 (idxDBID idx) @ encSegment val"] by simp
  ultimately show ?thesis by (simp add: decodeIndexKey_def key_layout readI64_1)
qed

lemma decodeUniqueIndexKey_keyUniqueIndex:
  assumes "length val < 2 ^ 32"
  shows "decodeUniqueIndexKey (keyUniqueIndex idx val) = Some (idxDBID idx, val)"
proof -
  have "readSegment (keyTagUIdx # encI64 (idxDBID idx) @ encSegment val) 9 = Some (val, 13 + length val)"
    using seg.dec_enc_at [of val 9 "keyTagUIdx # encI64 (idxDBID idx)" "[]"] assms
    by (simp add: segmentFits_def)
  then show ?thesis by (simp add: decodeUniqueIndexKey_def key_layout readI64_1)
qed

text \<open>
  C30: every key decodes to the parts it was built from: a document key to the collection and the id,
  an index key to the index, the value and the document id, a unique key to the index and the value,
  as long as the value's length fits the four-byte length field.
\<close>

theorem decode_keys:
  assumes "length val < 2 ^ 32"
  shows "decodeDocKey (keyDoc dbid i) = Some (dbid, i)
    \<and> decodeIndexKey (keyIndex idx val i) = Some (idxDBID idx, val, i)
    \<and> decodeUniqueIndexKey (keyUniqueIndex idx val) = Some (idxDBID idx, val)"
  by (simp add: decodeDocKey_keyDoc decodeIndexKey_keyIndex [OF assms]
      decodeUniqueIndexKey_keyUniqueIndex [OF assms])

theorem decode_keys_witness:
  "decodeIndexKey (keyIndex \<lparr>idxPath = ''/a'', idxKind = IndexString, idxUnique = False,
      idxDBID = 7, idxRNum = 0\<rparr> ''xy'' (- 3)) = Some (7, ''xy'', - 3)"
  using decode_keys [of "''xy''" 7 "- 3" "\<lparr>idxPath = ''/a'', idxKind = IndexString,
      idxUnique = False, idxDBID = 7, idxRNum = 0\<rparr>"] by simp

lemma parseU64_putU64 [simp]: "parseU64 (putU64 [] v) = Inr v"
  by (simp add: parseU64_def putU64_def)

lemma parseU64_error_iff: "(\<exists>e. parseU64 raw = Inl e) \<longleftrightarrow> length raw \<noteq> 8"
  by (simp add: parseU64_def)

section \<open>Key spaces do not overlap\<close>

lemma hd_keys [simp]:
  "hd (keyDoc d i) = keyTagDoc" "hd (keySeq d) = keyTagSeq"
  "hd (keyIndex idx v i) = keyTagIdx" "hd (keyUniqueIndex idx v) = keyTagUIdx"
  "hd keyMetaState = 0x6d"
  by (simp_all add: key_layout keyMetaState_def bytes_of_string_def)

lemma keyDoc_inject [simp]: "keyDoc d i = keyDoc d' i' \<longleftrightarrow> d = d' \<and> i = i'"
  by (metis decodeDocKey_keyDoc option.inject prod.inject)

lemma keySeq_inject [simp]: "keySeq d = keySeq d' \<longleftrightarrow> d = d'"
  using i64.enc_inject [where x = d and y = d'] by (simp add: key_layout)

lemma keyIndex_DBID_cong: "idxDBID idx = idxDBID idx' \<Longrightarrow> keyIndex idx = keyIndex idx'"
  by (simp add: fun_eq_iff key_layout)

lemma keyUniqueIndex_DBID_cong: "idxDBID idx = idxDBID idx' \<Longrightarrow> keyUniqueIndex idx = keyUniqueIndex idx'"
  by (simp add: fun_eq_iff key_layout)

lemma keyIndex_inject:
  assumes "length v < 2 ^ 32" and "length v' < 2 ^ 32"
  shows "keyIndex idx v i = keyIndex idx' v' i' \<longleftrightarrow> idxDBID idx = idxDBID idx' \<and> v = v' \<and> i = i'"
    (is "?l \<longleftrightarrow> ?r")
proof
  assume ?l
  then have "decodeIndexKey (keyIndex idx v i) = decodeIndexKey (keyIndex idx' v' i')" by simp
  then show ?r by (simp only: decodeIndexKey_keyIndex [OF assms(1)] decodeIndexKey_keyIndex [OF assms(2)]
        option.inject prod.inject)
qed (auto dest: keyIndex_DBID_cong)

lemma keyUniqueIndex_inject:
  assumes "length v < 2 ^ 32" and "length v' < 2 ^ 32"
  shows "keyUniqueIndex idx v = keyUniqueIndex idx' v' \<longleftrightarrow> idxDBID idx = idxDBID idx' \<and> v = v'"
    (is "?l \<longleftrightarrow> ?r")
proof
  assume ?l
  then have "decodeUniqueIndexKey (keyUniqueIndex idx v) = decodeUniqueIndexKey (keyUniqueIndex idx' v')"
    by simp
  then show ?r by (simp only: decodeUniqueIndexKey_keyUniqueIndex [OF assms(1)]
        decodeUniqueIndexKey_keyUniqueIndex [OF assms(2)] option.inject prod.inject)
qed (auto dest: keyUniqueIndex_DBID_cong)

lemma tags_distinct: "distinct [keyTagDoc, keyTagSeq, keyTagIdx, keyTagUIdx, 0x6d]"
  by (simp add: keyTag_defs)

lemma key_spaces_distinct [simp]:
  "keyDoc d i \<noteq> keySeq d'" "keySeq d' \<noteq> keyDoc d i"
  "keyDoc d i \<noteq> keyIndex idx v i'" "keyIndex idx v i' \<noteq> keyDoc d i"
  "keyDoc d i \<noteq> keyUniqueIndex idx v" "keyUniqueIndex idx v \<noteq> keyDoc d i"
  "keyDoc d i \<noteq> keyMetaState" "keyMetaState \<noteq> keyDoc d i"
  "keySeq d' \<noteq> keyIndex idx v i'" "keyIndex idx v i' \<noteq> keySeq d'"
  "keySeq d' \<noteq> keyUniqueIndex idx v" "keyUniqueIndex idx v \<noteq> keySeq d'"
  "keySeq d' \<noteq> keyMetaState" "keyMetaState \<noteq> keySeq d'"
  "keyIndex idx v i \<noteq> keyUniqueIndex idx' v'" "keyUniqueIndex idx' v' \<noteq> keyIndex idx v i"
  "keyIndex idx v i \<noteq> keyMetaState" "keyMetaState \<noteq> keyIndex idx v i"
  "keyUniqueIndex idx v \<noteq> keyMetaState" "keyMetaState \<noteq> keyUniqueIndex idx v"
  using tags_distinct by (auto dest!: arg_cong [where f = hd])

section \<open>Byte order is id order\<close>

text \<open>
  Document keys sort, as bytes, first by collection and then by id in the signed order, so that
  an iterator over a collection visits ascending ids, negative ones included.
\<close>

lemma keyDoc_less_iff:
  "keyDoc d i < keyDoc d' i' \<longleftrightarrow> sint d < sint d' \<or> d = d' \<and> sint i < sint i'"
  using i64.enc_append_less [where x = d and y = d' and r = "encI64 i" and s = "encI64 i'"]
    i64.enc_less [where x = i and y = i']
  by (simp add: key_layout)

lemma keyIndex_less_same_value:
  "keyIndex idx v i < keyIndex idx v i' \<longleftrightarrow> sint i < sint i'"
  using i64.enc_less [where x = i and y = i'] by (simp add: key_layout)

section \<open>The upper bound of a prefix range\<close>

lemma prefixEndLoop_append: "i \<le> length p \<Longrightarrow> prefixEndLoop (p @ r) i = prefixEndLoop p i"
proof (induction i)
  case (Suc i)
  then show ?case by (simp add: nth_append list_update_append)
qed simp

lemma prefixEnd_Nil [simp]: "prefixEnd [] = []"
  by (simp add: prefixEnd_def)

lemma prefixEnd_snoc: "prefixEnd (q @ [b]) = (if b \<noteq> 0xff then q @ [b + 1] else prefixEnd q)"
  by (simp add: prefixEnd_def prefixEndLoop_append list_update_append)

lemma byte_less_Suc: "b \<noteq> (0xff :: byte) \<Longrightarrow> x < b + 1 \<longleftrightarrow> x \<le> b"
proof -
  assume "b \<noteq> 0xff"
  then have "unat b \<noteq> unat (0xff :: byte)" by (simp only: word_unat_eq_iff not_False_eq_True)
  then have "unat b \<noteq> 255" by simp
  with unat_byte_lt [of b] have "unat b + 1 < 256" by linarith
  then have "unat (b + 1) = unat b + 1" by (simp add: unat_word_ariths)
  then show ?thesis unfolding word_less_nat_alt word_le_nat_alt by linarith
qed

lemma byte_ge_max: "(0xff :: byte) \<le> b \<longleftrightarrow> b = 0xff"
proof
  assume "0xff \<le> b"
  then have "255 \<le> unat b" by (simp add: word_le_nat_alt)
  with unat_byte_lt [of b] have "unat b = 255" by linarith
  then have "unat b = unat (0xff :: byte)" by simp
  then show "b = 0xff" by (simp only: word_unat_eq_iff)
qed simp

lemma range_first_byte:
  assumes "b \<noteq> (0xff :: byte)"
  shows "[b] \<le> r \<and> r < [b + 1] \<longleftrightarrow> (\<exists>r'. r = b # r')"
  using assms by (cases r) (auto simp: byte_less_Suc)

lemma between_shared_prefix:
  "q @ xs \<le> k \<Longrightarrow> k < q @ ys \<Longrightarrow> \<exists>r. k = q @ (r :: 'a :: linorder list)"
proof (induction q arbitrary: k)
  case (Cons a q)
  then obtain k' where "k = a # k'" "q @ xs \<le> k'" "k' < q @ ys"
    by (cases k) auto
  with Cons.IH show ?case by auto
qed simp

lemma range_shared_prefix:
  "inKeyRange (q @ xs) (q @ [y]) k \<longleftrightarrow> (\<exists>r. k = q @ r \<and> xs \<le> r \<and> r < [y])"
  using between_shared_prefix [of q xs k "[y]"] by (auto simp: inKeyRange_def)

lemma single_max_le: "[0xff :: byte] \<le> r \<longleftrightarrow> (\<exists>r'. r = 0xff # r')"
  by (cases r) (auto simp: byte_ge_max dest: order.strict_implies_order)

lemma prefix_range: "inKeyRange p (prefixEnd p) k \<longleftrightarrow> HasPrefix k p"
proof (induction p rule: rev_induct)
  case Nil
  then show ?case by (simp add: inKeyRange_def HasPrefix_def)
next
  case (snoc b q)
  show ?case
  proof (cases "b = 0xff")
    case False
    have "inKeyRange (q @ [b]) (q @ [b + 1]) k \<longleftrightarrow> (\<exists>r. k = q @ r \<and> [b] \<le> r \<and> r < [b + 1])"
      by (rule range_shared_prefix)
    with False show ?thesis
      by (auto simp: prefixEnd_snoc range_first_byte HasPrefix_iff)
  next
    case True
    have "inKeyRange (q @ [b]) (prefixEnd q) k \<longleftrightarrow> q @ [b] \<le> k \<and> HasPrefix k q"
      using order_trans [OF le_append_self [of q "[b]"], of k] unfolding snoc [symmetric] inKeyRange_def
      by blast
    with True show ?thesis
      by (auto simp: prefixEnd_snoc HasPrefix_iff single_max_le)
  qed
qed

text \<open>
  C27: the keys between a prefix and \<^verbatim>\<open>prefixEnd\<close> of it are exactly the keys that start with the
  prefix; this is what \<^verbatim>\<open>scanPrefix\<close>, \<^verbatim>\<open>DeleteRange\<close> and the index range scans rely on. An all-0xff prefix,
  for which the code returns the unbounded range, is included.
\<close>

theorem prefixEnd_range: "inKeyRange p (prefixEnd p) k \<longleftrightarrow> HasPrefix k p"
  by (rule prefix_range)

end
