(* ===== verification/IndexKeys.thy ===== *)
theory IndexKeys
  imports Keys Pointer Jqvalue
begin

text \<open>
  The index values of \<^verbatim>\<open>db.go\<close>: how a value of a document becomes the text key of an index, the numeric
  keys that sort as the numbers do, and the order of the index entries in the store.
\<close>

unbundle bit_operations_syntax

section \<open>Keys for index values\<close>

definition encodeI64IndexKey :: "int64 \<Rightarrow> string" where
  "encodeI64IndexKey v = fixedHex64 (v XOR 0x8000000000000000)"

definition decodeI64IndexKey :: "string \<Rightarrow> int64 option" where
  "decodeI64IndexKey v =
     (case ParseUint 16 v of
        Some u \<Rightarrow> if length v \<noteq> 16 then ParseInt v else Some (u XOR 0x8000000000000000)
      | None \<Rightarrow> ParseInt v)"

definition encodeF64IndexKey :: "float64 \<Rightarrow> string" where
  "encodeF64IndexKey v =
     fixedHex64 (if v AND 0x8000000000000000 \<noteq> 0 then NOT v else v XOR 0x8000000000000000)"

definition decodeF64IndexKey :: "go_lib \<Rightarrow> string \<Rightarrow> float64 option" where
  "decodeF64IndexKey L v =
     (case ParseUint 16 v of
        Some u \<Rightarrow>
          if length v \<noteq> 16 then parseFloat L v
          else Some (if u AND 0x8000000000000000 \<noteq> 0 then u XOR 0x8000000000000000 else NOT u)
      | None \<Rightarrow> parseFloat L v)"

fun normalizeStringIndexValue :: "go_lib \<Rightarrow> gv \<Rightarrow> string option" where
  "normalizeStringIndexValue L (VString x) = Some x"
| "normalizeStringIndexValue L (VNumber x) = Some x"
| "normalizeStringIndexValue L (VFloat64 x) = Some (formatJQFloat L x)"
| "normalizeStringIndexValue L (VFloat32 x) = Some (formatJQFloat L (widenF32 L x))"
| "normalizeStringIndexValue L (VInt k x) =
     Some (if k \<in> {KUint, KUint64, KUint32, KUint16, KUint8} then FormatUint (of_int x) else FormatInt (of_int x))"
| "normalizeStringIndexValue L _ = None"

fun normalizeIndexValue :: "go_lib \<Rightarrow> gv \<Rightarrow> IndexKind \<Rightarrow> string option" where
  "normalizeIndexValue L v IndexString = normalizeStringIndexValue L v"
| "normalizeIndexValue L v IndexInt64 = map_option encodeI64IndexKey (toInt64 v)"
| "normalizeIndexValue L v IndexFloat = map_option encodeF64IndexKey (toFloat64 L v)"
| "normalizeIndexValue L v (OtherKind _) = None"

text \<open>The closure \<^verbatim>\<open>appendOne\<close> of \<^verbatim>\<open>valuesForIndex\<close>, over the values still to come.\<close>

fun appendValues :: "go_lib \<Rightarrow> IndexKind \<Rightarrow> gv list \<Rightarrow> string list \<Rightarrow> string list" where
  "appendValues L kind [] out = out"
| "appendValues L kind (x # xs) out =
     appendValues L kind xs
       (case normalizeIndexValue L x kind of
          None \<Rightarrow> out
        | Some s \<Rightarrow> if s \<in> set out then out else out @ [s])"

definition valuesForIndex :: "go_lib \<Rightarrow> gv \<Rightarrow> string \<Rightarrow> IndexKind \<Rightarrow> string list" where
  "valuesForIndex L doc path kind =
     (case pointerGet doc path of
        None \<Rightarrow> []
      | Some v \<Rightarrow> appendValues L kind (case v of VArray arr \<Rightarrow> arr | _ \<Rightarrow> [v]) [])"

definition compareIndexKeys :: "go_lib \<Rightarrow> IndexKind \<Rightarrow> string \<Rightarrow> string \<Rightarrow> int" where
  "compareIndexKeys L kind a b =
     (case kind of
        IndexInt64 \<Rightarrow>
          (case (decodeI64IndexKey a, decodeI64IndexKey b) of
             (Some ai, Some bi) \<Rightarrow> cmpInt64 ai bi
           | _ \<Rightarrow> stringsCompare a b)
      | IndexFloat \<Rightarrow>
          (case (decodeF64IndexKey L a, decodeF64IndexKey L b) of
             (Some af, Some bf) \<Rightarrow> cmpFloat af bf
           | _ \<Rightarrow> stringsCompare a b)
      | _ \<Rightarrow> stringsCompare a b)"

section \<open>Integers\<close>

lemma decodeI64_encodeI64 [simp]: "decodeI64IndexKey (encodeI64IndexKey v) = Some v"
  by (simp add: decodeI64IndexKey_def encodeI64IndexKey_def xor.assoc)

lemma encodeI64_less: "encodeI64IndexKey a < encodeI64IndexKey b \<longleftrightarrow> sint a < sint b"
  by (simp only: encodeI64IndexKey_def fixedHex64_less xor_sign_less_iff)

lemma length_encodeI64 [simp]: "length (encodeI64IndexKey v) = 16"
  by (simp add: encodeI64IndexKey_def)

section \<open>Floating-point numbers\<close>

lemma sign_bit: "(u :: 64 word) AND 0x8000000000000000 \<noteq> 0 \<longleftrightarrow> f64Neg u"
proof -
  have "u AND 2 ^ 63 = 0 \<longleftrightarrow> \<not> bit u 63" by (rule and_exp_eq_0_iff_not_bit)
  also have "bit u 63 \<longleftrightarrow> odd (unat u div 2 ^ 63)"
    using bit_unsigned_iff [of u 63, where 'a = nat] by (simp add: bit_iff_odd)
  also have "odd (unat u div 2 ^ 63) \<longleftrightarrow> f64Neg u"
  proof (cases "f64Neg u")
    case True
    have "unat u < 2 ^ 64" using unsigned_less [of u, where 'a = nat] by simp
    then have "unat u div 2 ^ 63 = 1" using True by (intro div_nat_eqI) (simp_all add: f64Neg_def)
    with True show ?thesis by simp
  qed (simp add: f64Neg_def)
  finally show ?thesis by simp
qed

lemma unat_not64: "unat (NOT u :: 64 word) = 2 ^ 64 - 1 - unat u"
proof -
  have m: "unat (- 1 :: 64 word) = 2 ^ 64 - 1" by (simp add: unsigned_minus_1_eq_mask mask_eq_exp_minus_1)
  have "NOT u = - 1 - u" by (simp add: not_eq_complement)
  moreover have "unat (- 1 - u :: 64 word) = unat (- 1 :: 64 word) - unat u"
    by (rule unat_sub) simp
  ultimately show ?thesis by (simp only: m)
qed

definition f64Bits :: "float64 \<Rightarrow> 64 word" where
  "f64Bits v = (if f64Neg v then NOT v else v XOR 0x8000000000000000)"

lemma encodeF64_bits: "encodeF64IndexKey v = fixedHex64 (f64Bits v)"
  by (simp only: encodeF64IndexKey_def f64Bits_def sign_bit)

lemma unat_f64Bits: "unat (f64Bits v) = (if f64Neg v then 2 ^ 64 - 1 - unat v else unat v + 2 ^ 63)"
proof -
  have "unat (v + 0x8000000000000000) = unat v + 2 ^ 63" if "\<not> f64Neg v"
    using that by (subst unat_plus_simple [THEN iffD1]) (auto simp: f64Neg_def word_le_nat_alt unat_word_ariths)
  then show ?thesis by (simp add: f64Bits_def unat_not64 xor_sign)
qed

lemma f64Bits_key: "int (unat (f64Bits v)) = 2 ^ 63 + f64Key v - (if f64Neg v then 1 else 0)"
  using unsigned_less [of v, where 'a = nat] by (auto simp: unat_f64Bits f64Key_def f64Neg_def)

lemma f64Key_sign: "f64Neg v \<Longrightarrow> f64Key v \<le> 0" "\<not> f64Neg v \<Longrightarrow> 0 \<le> f64Key v"
  using of_nat_le_iff [of "2 ^ 63" "unat v", where 'a = int] by (simp_all add: f64Key_def f64Neg_def)

lemma f64Bits_less: "f64Bits a < f64Bits b \<longleftrightarrow> f64Key a < f64Key b \<or> f64Key a = f64Key b \<and> f64Neg a \<and> \<not> f64Neg b"
proof -
  have "f64Bits a < f64Bits b \<longleftrightarrow> int (unat (f64Bits a)) < int (unat (f64Bits b))"
    by (simp only: word_less_nat_alt of_nat_less_iff)
  also have "\<dots> \<longleftrightarrow> f64Key a < f64Key b \<or> f64Key a = f64Key b \<and> f64Neg a \<and> \<not> f64Neg b"
    unfolding f64Bits_key using f64Key_sign [of a] f64Key_sign [of b] by auto
  finally show ?thesis .
qed

lemma encodeF64_less:
  "encodeF64IndexKey a < encodeF64IndexKey b \<longleftrightarrow>
     f64Key a < f64Key b \<or> f64Key a = f64Key b \<and> f64Neg a \<and> \<not> f64Neg b"
  by (simp only: encodeF64_bits fixedHex64_less f64Bits_less)

lemma f64Neg_bits: "f64Neg (f64Bits v) \<longleftrightarrow> \<not> f64Neg v"
  using unsigned_less [of v, where 'a = nat] by (auto simp: f64Neg_def [of "f64Bits v"] unat_f64Bits) (auto simp: f64Neg_def)

lemma decodeF64_encodeF64 [simp]: "decodeF64IndexKey L (encodeF64IndexKey v) = Some v"
proof -
  have "(if f64Neg (f64Bits v) then f64Bits v XOR 0x8000000000000000 else NOT (f64Bits v)) = v"
    by (simp only: f64Neg_bits) (simp add: f64Bits_def xor.assoc)
  then show ?thesis
    by (simp only: decodeF64IndexKey_def encodeF64_bits ParseUint_fixedHex64 option.case length_fixedHex64 sign_bit) simp
qed

lemma length_encodeF64 [simp]: "length (encodeF64IndexKey v) = 16"
  by (simp add: encodeF64_bits)

text \<open>
  C32: the keys of numeric index values sort, as text, the way the numbers do: signed integers by
  value over the whole 64-bit range, and floating-point numbers that are not NaN by value, negative
  zero before positive zero. The keys decode to the number they were made from.
\<close>

theorem index_value_order:
  "(encodeI64IndexKey i < encodeI64IndexKey j \<longleftrightarrow> sint i < sint j)
   \<and> (f64Less x y \<longrightarrow> encodeF64IndexKey x < encodeF64IndexKey y)
   \<and> (\<not> f64NaN x \<and> \<not> f64NaN y \<and> encodeF64IndexKey x < encodeF64IndexKey y \<longrightarrow>
        f64Less x y \<or> f64Eq x y \<and> f64Neg x \<and> \<not> f64Neg y)
   \<and> decodeI64IndexKey (encodeI64IndexKey i) = Some i
   \<and> decodeF64IndexKey L (encodeF64IndexKey x) = Some x"
  by (auto simp: encodeI64_less encodeF64_less f64Less_def f64Eq_def)

theorem index_value_order_witness:
  "encodeF64IndexKey 0xbff0000000000000 < encodeF64IndexKey 0x3ff0000000000000"
proof -
  have "f64Less 0xbff0000000000000 0x3ff0000000000000"
    by (simp add: f64Less_def f64NaN_def f64Exp_def f64Frac_def f64Key_def f64Neg_def)
  then show ?thesis using index_value_order [where x = "0xbff0000000000000" and y = "0x3ff0000000000000"] by blast
qed

text \<open>
  Comparing two numeric index values by \<^verbatim>\<open>compareIndexKeys\<close>, which decodes them, gives the order the
  store keeps their keys in.
\<close>

theorem compareIndexKeys_int:
  "(compareIndexKeys L IndexInt64 (encodeI64IndexKey i) (encodeI64IndexKey j) < 0
      \<longleftrightarrow> encodeI64IndexKey i < encodeI64IndexKey j)
   \<and> (compareIndexKeys L IndexInt64 (encodeI64IndexKey i) (encodeI64IndexKey j) = 0 \<longleftrightarrow> i = j)"
  using icmp.cmp_zero [of i j] icmp.cmp_neg [of i j]
  by (auto simp: compareIndexKeys_def encodeI64_less dest: signed_word_eqI)

section \<open>Values of a document\<close>

lemma appendValues_set:
  "set (appendValues L kind xs out) = set out \<union> {s. \<exists>x \<in> set xs. normalizeIndexValue L x kind = Some s}"
  by (induction xs arbitrary: out) (auto split: option.splits)

lemma appendValues_distinct: "distinct out \<Longrightarrow> distinct (appendValues L kind xs out)"
  by (induction xs arbitrary: out) (auto split: option.splits)

lemma valuesForIndex_distinct: "distinct (valuesForIndex L doc path kind)"
  by (simp add: valuesForIndex_def appendValues_distinct split: option.splits)

definition indexedElements :: "gv option \<Rightarrow> gv set" where
  "indexedElements v = (case v of None \<Rightarrow> {} | Some (VArray arr) \<Rightarrow> set arr | Some x \<Rightarrow> {x})"

text \<open>
  C33: the values a document contributes to an index are distinct, and they are the keys of exactly
  the value at the indexed path or, for an array there, of its elements, as far as they convert to the
  kind of the index.
\<close>

theorem valuesForIndex_spec:
  "distinct (valuesForIndex L doc path kind)
   \<and> set (valuesForIndex L doc path kind)
       = {s. \<exists>x \<in> indexedElements (pointerGet doc path). normalizeIndexValue L x kind = Some s}"
proof -
  have "set (valuesForIndex L doc path kind)
       = {s. \<exists>x \<in> indexedElements (pointerGet doc path). normalizeIndexValue L x kind = Some s}"
    by (auto simp: valuesForIndex_def indexedElements_def appendValues_set split: option.splits gv.splits)
  then show ?thesis using valuesForIndex_distinct by blast
qed

section \<open>The order of index entries\<close>

lemma unat_of_char_byte: "unat (of_char c :: byte) = of_char c"
proof -
  have "unat (of_nat (of_char c) :: byte) = (of_char c :: nat)" by (simp add: unat_of_nat)
  then show ?thesis by (simp del: unat_of_nat add: of_nat_of_char)
qed

lemma of_char_less: "(of_char c :: byte) < of_char d \<longleftrightarrow> c < d"
  by (simp only: word_less_nat_alt unat_of_char_byte less_char_def)

lemma of_char_eq: "(of_char c :: byte) = of_char d \<longleftrightarrow> c = d"
  by (metis char_of_unat_of_char)

lemma bytes_of_string_less: "bytes_of_string a < bytes_of_string b \<longleftrightarrow> a < b"
proof (induction a arbitrary: b)
  case Nil
  then show ?case by (cases b) (simp_all add: bytes_of_string_def)
next
  case (Cons c a)
  then show ?case by (cases b) (simp_all add: bytes_of_string_def of_char_less of_char_eq)
qed

lemma encSegment_append_less:
  assumes "length a < 2 ^ 32" and "length b < 2 ^ 32"
  shows "encSegment a @ r < encSegment b @ s \<longleftrightarrow>
    length a < length b \<or> length a = length b \<and> (a < b \<or> a = b \<and> r < s)"
proof -
  let ?w = "\<lambda>s :: string. of_nat (length s) :: 32 word"
  have u: "unat (?w a) = length a" "unat (?w b) = length b" using assms by (simp_all add: unat_of_nat)
  have lt: "PutUint32 (?w a) < PutUint32 (?w b) \<longleftrightarrow> length a < length b"
    using be_nat_less_iff [of "PutUint32 (?w a)" "PutUint32 (?w b)"] by (simp only: length_PutUint be_nat_PutUint u)
  have eq: "PutUint32 (?w a) = PutUint32 (?w b) \<longleftrightarrow> length a = length b"
    by (metis u be_nat_PutUint(2))
  have "encSegment a @ r < encSegment b @ s \<longleftrightarrow>
      PutUint32 (?w a) < PutUint32 (?w b) \<or> PutUint32 (?w a) = PutUint32 (?w b) \<and> bytes_of_string a @ r < bytes_of_string b @ s"
    by (simp add: encSegment_def appendSegment_def append_less_same_length)
  also have "\<dots> \<longleftrightarrow> length a < length b \<or> length a = length b \<and> (a < b \<or> a = b \<and> r < s)"
    unfolding lt eq by (auto simp: append_less_same_length bytes_of_string_less)
  finally show ?thesis .
qed

lemma keyIndex_less:
  assumes "length a < 2 ^ 32" and "length b < 2 ^ 32"
  shows "keyIndex idx a i < keyIndex idx b j \<longleftrightarrow>
    length a < length b \<or> length a = length b \<and> (a < b \<or> a = b \<and> sint i < sint j)"
  using encSegment_append_less [OF assms, of "encI64 i" "encI64 j"] i64.enc_less [where x = i and y = j]
  by (simp add: key_layout)

text \<open>
  C31: the entries of an integer index lie in the store in the order of the indexed numbers and, for
  equal numbers, of the document ids, so that an ordered scan of the index needs no sort.
\<close>

theorem integer_index_order:
  "keyIndex idx (encodeI64IndexKey a) i < keyIndex idx (encodeI64IndexKey b) j \<longleftrightarrow>
     sint a < sint b \<or> a = b \<and> sint i < sint j"
proof -
  have "encodeI64IndexKey a = encodeI64IndexKey b \<longleftrightarrow> a = b"
    by (metis decodeI64_encodeI64 option.inject)
  then show ?thesis by (simp add: keyIndex_less encodeI64_less)
qed

text \<open>
  The entries of a string index lie in the store by the length of the value first, the order
  \<^verbatim>\<open>genericCmp\<close> has on strings, while \<^verbatim>\<open>compareIndexKeys\<close> compares strings by their bytes alone.
\<close>

lemma string_index_order:
  assumes "length a < 2 ^ 32" and "length b < 2 ^ 32" and "a \<noteq> b"
  shows "keyIndex idx a i < keyIndex idx b j \<longleftrightarrow> genericCmp L (VString a) (VString b) < 0"
  using scmp.cmp_neg [of a b] assms
  by (auto simp: keyIndex_less genericCmp_def jqCompare_string)

lemma compareIndexKeys_string_differs:
  "compareIndexKeys L IndexString ''aa'' ''b'' < 0 \<and> 0 < genericCmp L (VString ''aa'') (VString ''b'')"
  by (simp add: compareIndexKeys_def stringsCompare_def genericCmp_def jqCompare_string cmpString_def)

end
