(* ===== verification/Engine.thy ===== *)
theory Engine
  imports Keys "HOL-Library.AList"
begin

text \<open>
  \<^verbatim>\<open>storage.go\<close>, lines 25-259 and \<^verbatim>\<open>scanPrefix\<close>: the storage engine interface, its contract as a locale, the
  wrapper around Pebble, which meets the contract when Pebble behaves as documented, and a reference
  engine on association lists.
\<close>

section \<open>The interface\<close>

text \<open>
  A batch is the list of the writes put into it; committing applies them in order, all or none.
  An iterator is the list of the entries it delivers, with the error it reports at the end, if any
  (a failure to create the iterator is an error after no entries); \<open>Cursor\<close> has the cursors this stands for.
  A snapshot is a state of the engine.
\<close>

datatype batchOp = BSet bytes bytes | BDelete bytes | BDeleteRange bytes bytes

type_synonym entries = "(bytes \<times> bytes) list \<times> error option"

record 'e StorageEngine =
  engGet :: "'e \<Rightarrow> bytes \<Rightarrow> bytes result"
  engIter :: "'e \<Rightarrow> bytes \<Rightarrow> bytes \<Rightarrow> entries"
  engCommit :: "'e \<Rightarrow> batchOp list \<Rightarrow> 'e result"

text \<open>
  \<^verbatim>\<open>scanPrefix\<close>: the callback \<open>fn\<close> carries the variables it captures as a state. The loop stops at the
  first key without the prefix, or at an error of the callback.
\<close>

fun scanEntries :: "bytes \<Rightarrow> (bytes \<Rightarrow> bytes \<Rightarrow> 's \<Rightarrow> 's result) \<Rightarrow> (bytes \<times> bytes) list \<Rightarrow> error option \<Rightarrow> 's \<Rightarrow> 's result" where
  "scanEntries prefix fn [] err s = (case err of None \<Rightarrow> Inr s | Some e \<Rightarrow> Inl e)"
| "scanEntries prefix fn ((k, v) # es) err s =
     (if \<not> HasPrefix k prefix then (case err of None \<Rightarrow> Inr s | Some e \<Rightarrow> Inl e)
      else case fn k v s of Inl e \<Rightarrow> Inl e | Inr s' \<Rightarrow> scanEntries prefix fn es err s')"

definition scanPrefix ::
    "'e StorageEngine \<Rightarrow> 'e \<Rightarrow> bytes \<Rightarrow> (bytes \<Rightarrow> bytes \<Rightarrow> 's \<Rightarrow> 's result) \<Rightarrow> 's \<Rightarrow> 's result" where
  "scanPrefix eng e prefix fn s =
     (case engIter eng e prefix (prefixEnd prefix) of (es, err) \<Rightarrow> scanEntries prefix fn es err s)"

section \<open>The contract\<close>

text \<open>What a batch does to the contents of the store.\<close>

type_synonym kv = "bytes \<Rightarrow> bytes option"

fun applyOp1 :: "batchOp \<Rightarrow> kv \<Rightarrow> kv" where
  "applyOp1 (BSet k v) m = m(k \<mapsto> v)"
| "applyOp1 (BDelete k) m = m(k := None)"
| "applyOp1 (BDeleteRange lo hi) m = (\<lambda>k. if lo \<le> k \<and> k < hi then None else m k)"

definition applyBatch :: "batchOp list \<Rightarrow> kv \<Rightarrow> kv" where
  "applyBatch ops m = fold applyOp1 ops m"

lemma applyBatch_simps [simp]:
  "applyBatch [] m = m"
  "applyBatch (x # ops) m = applyBatch ops (applyOp1 x m)"
  "applyBatch (ops @ ops') m = applyBatch ops' (applyBatch ops m)"
  by (simp_all add: applyBatch_def)

locale storage_engine =
  fixes eng :: "'e StorageEngine" and kv :: "'e \<Rightarrow> kv"
  assumes get_value: "engGet eng e k = Inr v \<Longrightarrow> kv e k = Some v"
    and get_absent: "engGet eng e k = Inl err \<Longrightarrow> errorIs err ErrNotFound \<Longrightarrow> kv e k = None"
    and commit: "engCommit eng e ops = Inr e' \<Longrightarrow> kv e' = applyBatch ops (kv e)"
    and iter_sorted: "engIter eng e lo hi = (es, None) \<Longrightarrow> sorted_wrt (<) (map fst es)"
    and iter_range: "engIter eng e lo hi = (es, None) \<Longrightarrow>
      (k, v) \<in> set es \<longleftrightarrow> inKeyRange lo hi k \<and> kv e k = Some v"
begin

lemma scanEntries_all:
  "\<forall>(k, v) \<in> set es. HasPrefix k prefix \<Longrightarrow>
     scanEntries prefix fn es None s =
       foldl (\<lambda>r (k, v). case r of Inl e \<Rightarrow> Inl e | Inr s \<Rightarrow> fn k v s) (Inr s) es"
proof (induction es arbitrary: s)
  case (Cons x es)
  obtain k v where x: "x = (k, v)" by force
  have err: "foldl (\<lambda>r (k, v). case r of Inl e \<Rightarrow> Inl e | Inr s \<Rightarrow> fn k v s) (Inl e) es = Inl e" for e es
    by (induction es) auto
  show ?case using Cons by (cases "fn k v s") (auto simp: x err)
qed simp

text \<open>A scan that reports no error runs the callback on exactly the entries with the prefix, by key.\<close>

lemma scanPrefix_visits:
  assumes "scanPrefix eng e prefix fn s = Inr s'"
  obtains es where "sorted_wrt (<) (map fst es)"
    and "\<And>k v. (k, v) \<in> set es \<longleftrightarrow> HasPrefix k prefix \<and> kv e k = Some v"
    and "foldl (\<lambda>r (k, v). case r of Inl e \<Rightarrow> Inl e | Inr s \<Rightarrow> fn k v s) (Inr s) es = Inr s'"
proof -
  obtain es err where it: "engIter eng e prefix (prefixEnd prefix) = (es, err)" by force
  have no_err: "err = None"
  proof (rule ccontr)
    assume "err \<noteq> None"
    then have "isl (scanEntries prefix fn es err s)" for s
      by (induction es arbitrary: s) (auto split: sum.splits simp: isl_def)
    then have "isl (scanPrefix eng e prefix fn s)" by (simp add: scanPrefix_def it)
    then show False by (simp add: assms)
  qed
  have mem: "(k, v) \<in> set es \<longleftrightarrow> HasPrefix k prefix \<and> kv e k = Some v" for k v
    using iter_range [OF it [unfolded no_err]] prefix_range by simp
  then have "\<forall>(k, v) \<in> set es. HasPrefix k prefix" by auto
  from that [OF iter_sorted [OF it [unfolded no_err]] mem] assms it no_err scanEntries_all [OF this, of fn s]
  show thesis by (simp add: scanPrefix_def)
qed

end

section \<open>The Pebble wrapper\<close>

text \<open>
  What the wrapper uses of Pebble: reads, bounded iteration and the commit of a batch, and the
  error value by which Pebble says that a key is absent.
\<close>

record 'p pebble =
  pbGet :: "'p \<Rightarrow> bytes \<Rightarrow> bytes result"
  pbErrNotFound :: error
  pbNewIter :: "'p \<Rightarrow> bytes \<Rightarrow> bytes \<Rightarrow> entries"
  pbCommit :: "'p \<Rightarrow> batchOp list \<Rightarrow> 'p result"

definition PebbleGet :: "'p pebble \<Rightarrow> 'p \<Rightarrow> bytes \<Rightarrow> bytes result" where
  "PebbleGet P d key =
     (case pbGet P d key of
        Inl err \<Rightarrow> if errorIs err (pbErrNotFound P) then Inl ErrNotFound else Inl err
      | Inr val \<Rightarrow> Inr val)"

definition PebbleEngine :: "'p pebble \<Rightarrow> 'p StorageEngine" where
  "PebbleEngine P = \<lparr>engGet = PebbleGet P, engIter = pbNewIter P, engCommit = pbCommit P\<rparr>"

text \<open>The documented behaviour of Pebble; an I/O error is none of the errors of this package.\<close>

locale pebble_db =
  fixes P :: "'p pebble" and pkv :: "'p \<Rightarrow> kv"
  assumes pb_get: "pbGet P d k = Inr v \<Longrightarrow> pkv d k = Some v"
    and pb_absent: "pbGet P d k = Inl err \<Longrightarrow> errorIs err (pbErrNotFound P) \<Longrightarrow> pkv d k = None"
    and pb_other: "pbGet P d k = Inl err \<Longrightarrow> \<not> errorIs err (pbErrNotFound P) \<Longrightarrow> \<not> errorIs err ErrNotFound"
    and pb_commit: "pbCommit P d ops = Inr d' \<Longrightarrow> pkv d' = applyBatch ops (pkv d)"
    and pb_sorted: "pbNewIter P d lo hi = (es, None) \<Longrightarrow> sorted_wrt (<) (map fst es)"
    and pb_range: "pbNewIter P d lo hi = (es, None) \<Longrightarrow>
      (k, v) \<in> set es \<longleftrightarrow> inKeyRange lo hi k \<and> pkv d k = Some v"

sublocale pebble_db \<subseteq> eng: storage_engine "PebbleEngine P" pkv
  by unfold_locales
     (auto simp: PebbleEngine_def PebbleGet_def split: sum.splits if_splits dest: pb_get pb_absent pb_other pb_commit pb_sorted
        pb_range [THEN iffD1] intro: pb_range [THEN iffD2])

lemma foldl_collect:
  "foldl (\<lambda>r (k, v). case r of Inl e \<Rightarrow> Inl e | Inr s \<Rightarrow> Inr (s @ [(k, v)])) (Inr acc) es = Inr (acc @ es)"
  by (induction es arbitrary: acc) auto

context pebble_db
begin

lemma collect_prefix:
  assumes "scanPrefix (PebbleEngine P) d prefix (\<lambda>k v acc. Inr (acc @ [(k, v)])) [] = Inr es"
  shows "sorted_wrt (<) (map fst es) \<and> (\<forall>k v. (k, v) \<in> set es \<longleftrightarrow> HasPrefix k prefix \<and> pkv d k = Some v)"
  by (rule eng.scanPrefix_visits [OF assms]) (auto simp: foldl_collect)

end

section \<open>A reference engine\<close>

text \<open>The store as an association list, with no I/O errors: an executable instance of the contract.\<close>

type_synonym memStore = "(bytes \<times> bytes) list"

fun memApply :: "batchOp \<Rightarrow> memStore \<Rightarrow> memStore" where
  "memApply (BSet k v) es = AList.update k v es"
| "memApply (BDelete k) es = AList.delete k es"
| "memApply (BDeleteRange lo hi) es = filter (\<lambda>(k, _). \<not> (lo \<le> k \<and> k < hi)) es"

definition memEngine :: "memStore StorageEngine" where
  "memEngine =
     \<lparr>engGet = (\<lambda>es k. case map_of es k of None \<Rightarrow> Inl ErrNotFound | Some v \<Rightarrow> Inr v),
      engIter = (\<lambda>es lo hi. (sort_key fst (filter (\<lambda>(k, _). inKeyRange lo hi k) (AList.clearjunk es)), None)),
      engCommit = (\<lambda>es ops. Inr (fold memApply ops es))\<rparr>"

lemma map_of_filter_keys: "map_of (filter (\<lambda>(k, _). P k) es) k = (if P k then map_of es k else None)"
  by (induction es) auto

lemma map_of_memApply: "map_of (memApply x es) = applyOp1 x (map_of es)"
  by (cases x) (auto simp: AList.update_conv' AList.delete_conv' fun_eq_iff map_of_filter_keys)

lemma map_of_memCommit: "map_of (fold memApply ops es) = applyBatch ops (map_of es)"
  by (induction ops arbitrary: es) (simp_all add: map_of_memApply)

interpretation mem: storage_engine memEngine map_of
proof unfold_locales
  fix e :: memStore and lo hi es k v
  assume it: "engIter memEngine e lo hi = (es, None)"
  then have es: "es = sort_key fst (filter (\<lambda>(k, _). inKeyRange lo hi k) (AList.clearjunk e))"
    by (simp add: memEngine_def)
  have d: "distinct (map fst (AList.clearjunk e))" by (rule distinct_clearjunk)
  then have "distinct (map fst es)"
    unfolding es by (simp add: distinct_map inj_on_def)
  moreover have "sorted (map fst es)" unfolding es by simp
  ultimately show "sorted_wrt (<) (map fst es)" by (simp add: strict_sorted_iff)
  have "(k, v) \<in> set (AList.clearjunk e) \<longleftrightarrow> map_of e k = Some v"
    using d by (metis map_of_clearjunk map_of_eq_Some_iff)
  then show "(k, v) \<in> set es \<longleftrightarrow> inKeyRange lo hi k \<and> map_of e k = Some v"
    unfolding es by auto
qed (auto simp: memEngine_def map_of_memCommit split: option.splits)

definition memPebble :: "memStore pebble" where
  "memPebble =
     \<lparr>pbGet = (\<lambda>es k. case map_of es k of None \<Rightarrow> Inl (Plain ''pebble: not found'') | Some v \<Rightarrow> Inr v),
      pbErrNotFound = Plain ''pebble: not found'', pbNewIter = engIter memEngine, pbCommit = engCommit memEngine\<rparr>"

interpretation memPb: pebble_db memPebble map_of
  by unfold_locales
     (auto simp: memPebble_def split: option.splits intro: mem.iter_sorted mem.commit
        dest: mem.iter_range [THEN iffD1] mem.iter_range [THEN iffD2])

end
