(* ===== verification/Db.thy ===== *)
theory Db
  imports Types Jbl Patch IndexKeys Engine
begin

text \<open>
  \<^verbatim>\<open>db.go\<close> without the query engine: the database object, its pending mutations and their commit, the
  maintenance of the indexes and their unique constraints, and the operations on collections,
  documents and indexes. Every operation returns its result and the database object it leaves behind,
  also when it fails. The lock of the object serialises the operations, so each is one step.
\<close>

section \<open>The database object\<close>

datatype storageMutationKind = mutationPut | mutationDelete

record storageMutation =
  mKind :: storageMutationKind
  mCollection :: string
  mId :: int64
  mOldRaw :: bytes
  mNewRaw :: bytes
  mOldDoc :: gv
  mNewDoc :: gv

record 'e DB =
  dbPath :: string
  dbEngine :: 'e
  dbSt :: dbState
  dbClosed :: bool
  dbPending :: "storageMutation list"
  dbDirtyMeta :: bool
  dbDirtyFull :: bool

text \<open>
  What the code calls outside the repository: the run-time library, the JSON package (also for the
  catalog and for cloning a state), the storage engine, the clock, the size \<^verbatim>\<open>os.Stat\<close> reports, and
  whether the array a JSON text decodes to has spare capacity.
\<close>

record 'e env =
  envLib :: go_lib
  envJson :: json_lib
  envEng :: "'e StorageEngine"
  envMarshalCat :: "catalogState \<Rightarrow> bytes result"
  envUnmarshalCat :: "bytes \<Rightarrow> catalogState result"
  envCloneJSON :: "dbState \<Rightarrow> dbState result"
  envNow :: int64
  envStat :: "string \<Rightarrow> int option"
  envRoom :: "bytes \<Rightarrow> bool"

abbreviation collections :: "'e DB \<Rightarrow> (string \<times> collectionState) list" where
  "collections db \<equiv> stCollections (dbSt db)"

definition setCollections :: "(string \<times> collectionState) list \<Rightarrow> 'e DB \<Rightarrow> 'e DB" where
  "setCollections cs db = db\<lparr>dbSt := (dbSt db)\<lparr>stCollections := cs\<rparr>\<rparr>"

text \<open>A collection is changed through its pointer: it is written back under its name.\<close>

definition setCol :: "collectionState \<Rightarrow> 'e DB \<Rightarrow> 'e DB" where
  "setCol col db = setCollections (AList.update (colName col) col (collections db)) db"

section \<open>Loading and metadata\<close>

definition load :: "'e env \<Rightarrow> 'e \<Rightarrow> dbState result" where
  "load E e =
     (case engGet (envEng E) e keyMetaState of
        Inl err \<Rightarrow> if errorIs err ErrNotFound then Inr (prepareState (newState (envNow E))) else Inl err
      | Inr raw \<Rightarrow>
          (case decodeCatalog (envUnmarshalCat E) (envNow E) raw of
             Inl err \<Rightarrow> Inl err
           | Inr st \<Rightarrow> Inr (prepareState st)))"

text \<open>The last part of \<^verbatim>\<open>Open\<close>, on an engine that has been opened; \<open>OpenOptions\<close> of \<open>Lifecycle\<close> is the whole.\<close>

definition Open :: "'e env \<Rightarrow> string \<Rightarrow> 'e \<Rightarrow> 'e DB result" where
  "Open E path e =
     (if path = [] then Inl (Coded CodeInvalidQuery)
      else case load E e of
             Inl err \<Rightarrow> Inl err
           | Inr st \<Rightarrow>
               Inr \<lparr>dbPath = path, dbEngine = e, dbSt = st, dbClosed = False, dbPending = [],
                    dbDirtyMeta = False, dbDirtyFull = False\<rparr>)"

definition DB_Meta :: "'e env \<Rightarrow> 'e DB \<Rightarrow> Meta result" where
  "DB_Meta E db =
     (if dbClosed db then Inl ErrClosed else Inr (toMeta (envStat E (dbPath db)) (dbPath db) (dbSt db)))"

section \<open>Documents\<close>

definition normalizeRawJSON :: "'e env \<Rightarrow> bytes \<Rightarrow> (bytes \<times> gv) result" where
  "normalizeRawJSON E raw =
     (case decodeJSON (envJson E) raw of
        Inl e \<Rightarrow> Inl e
      | Inr doc \<Rightarrow> (case marshalJSON (envJson E) doc of Inl e \<Rightarrow> Inl e | Inr canon \<Rightarrow> Inr (canon, doc)))"

text \<open>Decoding a stored document always returns (\<open>decodeStoredDocument_returns\<close>).\<close>

definition decodeStored :: "'e env \<Rightarrow> bytes \<Rightarrow> (bytes \<times> gv) result" where
  "decodeStored E stored = the (decodeStoredDocument (envLib E) (marshalJSON (envJson E)) stored)"

definition encodeStoredRaw :: "'e env \<Rightarrow> bytes \<Rightarrow> bytes result" where
  "encodeStoredRaw E raw =
     (case decodeJSON (envJson E) raw of Inl e \<Rightarrow> Inl e | Inr doc \<Rightarrow> encodeStoredDocument (envLib E) doc)"

definition encodeStoredDoc :: "'e env \<Rightarrow> bytes \<Rightarrow> gv \<Rightarrow> bytes result" where
  "encodeStoredDoc E raw doc =
     (if doc = VNil then encodeStoredRaw E raw else encodeStoredDocument (envLib E) doc)"

definition getDocNode :: "'e env \<Rightarrow> 'e \<Rightarrow> collectionState option \<Rightarrow> int64 \<Rightarrow> (bytes \<times> gv) result" where
  "getDocNode E reader col i =
     (case col of
        None \<Rightarrow> Inl ErrNotFound
      | Some c \<Rightarrow>
          (case engGet (envEng E) reader (keyDoc (colDBID c) i) of
             Inl e \<Rightarrow> Inl e
           | Inr stored \<Rightarrow> decodeStored E stored))"

definition getDocRaw :: "'e env \<Rightarrow> 'e \<Rightarrow> collectionState option \<Rightarrow> int64 \<Rightarrow> bytes result" where
  "getDocRaw E reader col i =
     (case col of
        None \<Rightarrow> Inl ErrNotFound
      | Some c \<Rightarrow>
          (case engGet (envEng E) reader (keyDoc (colDBID c) i) of
             Inl e \<Rightarrow> Inl e
           | Inr stored \<Rightarrow> (case decodeStored E stored of Inl e \<Rightarrow> Inl e | Inr (raw, _) \<Rightarrow> Inr raw)))"

text \<open>The last pending mutation of a document, from the end of the list.\<close>

definition lastPending :: "storageMutation list \<Rightarrow> string \<Rightarrow> int64 \<Rightarrow> storageMutation option" where
  "lastPending pend coll i = find (\<lambda>m. mCollection m = coll \<and> mId m = i) (rev pend)"

datatype pendingState = NotPending | PendingDeleted | PendingDoc bytes gv

definition pendingDocState :: "storageMutation list \<Rightarrow> string \<Rightarrow> int64 \<Rightarrow> pendingState" where
  "pendingDocState pend coll i =
     (case lastPending pend coll i of
        None \<Rightarrow> NotPending
      | Some m \<Rightarrow> if mKind m = mutationDelete then PendingDeleted else PendingDoc (mNewRaw m) (mNewDoc m))"

definition pendingDeletes :: "storageMutation list \<Rightarrow> string \<Rightarrow> int64 \<Rightarrow> bool" where
  "pendingDeletes pend coll i =
     (case lastPending pend coll i of None \<Rightarrow> False | Some m \<Rightarrow> mKind m = mutationDelete)"

section \<open>Unique constraints\<close>

text \<open>The first error of a loop whose body returns an error or goes on.\<close>

fun forEach :: "('a \<Rightarrow> unit result) \<Rightarrow> 'a list \<Rightarrow> unit result" where
  "forEach f [] = Inr ()"
| "forEach f (x # xs) = (case f x of Inl e \<Rightarrow> Inl e | Inr _ \<Rightarrow> forEach f xs)"

definition checkStoredValue ::
    "'e env \<Rightarrow> 'e DB \<Rightarrow> collectionState \<Rightarrow> int64 \<Rightarrow> indexState \<Rightarrow> string \<Rightarrow> unit result" where
  "checkStoredValue E db col i idx val =
     (case engGet (envEng E) (dbEngine db) (keyUniqueIndex idx val) of
        Inl err \<Rightarrow> if errorIs err ErrNotFound then Inr () else Inl err
      | Inr raw \<Rightarrow>
          (case parseU64 raw of
             Inl err \<Rightarrow> Inl err
           | Inr cur \<Rightarrow>
               if cur \<noteq> i \<and> \<not> pendingDeletes (dbPending db) (colName col) cur then Inl ErrUniqueConstraint
               else Inr ()))"

text \<open>The documents of the collection, other than \<open>i\<close>, that the pending mutations leave behind.\<close>

definition pendingOthers :: "storageMutation list \<Rightarrow> string \<Rightarrow> int64 \<Rightarrow> (int64 \<times> storageMutation) list" where
  "pendingOthers pend coll i =
     fold (\<lambda>m acc.
        if mCollection m \<noteq> coll \<or> mId m = i then acc
        else if mKind m = mutationPut then AList.update (mId m) m acc
        else AList.delete (mId m) acc) pend []"

definition checkPendingDoc :: "'e env \<Rightarrow> indexState \<Rightarrow> string list \<Rightarrow> int64 \<times> storageMutation \<Rightarrow> unit result" where
  "checkPendingDoc E idx newVals om =
     (case (if mNewDoc (snd om) = VNil then decodeJSON (envJson E) (mNewRaw (snd om)) else Inr (mNewDoc (snd om))) of
        Inl e \<Rightarrow> Inl e
      | Inr other \<Rightarrow>
          if \<exists>v \<in> set (valuesForIndex (envLib E) other (idxPath idx) (idxKind idx)). v \<in> set newVals
          then Inl ErrUniqueConstraint else Inr ())"

definition checkUniqueIndex ::
    "'e env \<Rightarrow> 'e DB \<Rightarrow> collectionState \<Rightarrow> int64 \<Rightarrow> gv \<Rightarrow> string \<times> indexState \<Rightarrow> unit result" where
  "checkUniqueIndex E db col i doc kidx =
     (let idx = snd kidx in
      if \<not> idxUnique idx then Inr ()
      else let newVals = valuesForIndex (envLib E) doc (idxPath idx) (idxKind idx) in
           case forEach (checkStoredValue E db col i idx) newVals of
             Inl e \<Rightarrow> Inl e
           | Inr _ \<Rightarrow>
               if dbPending db = [] \<or> newVals = [] then Inr ()
               else forEach (checkPendingDoc E idx newVals) (pendingOthers (dbPending db) (colName col) i))"

definition checkUniqueConstraints :: "'e env \<Rightarrow> 'e DB \<Rightarrow> collectionState \<Rightarrow> int64 \<Rightarrow> gv \<Rightarrow> unit result" where
  "checkUniqueConstraints E db col i doc = forEach (checkUniqueIndex E db col i doc) (colIndexes col)"

section \<open>Changing a document\<close>

definition adjustIndexRNum :: "go_lib \<Rightarrow> gv \<Rightarrow> gv \<Rightarrow> indexState \<Rightarrow> indexState" where
  "adjustIndexRNum L oldDoc newDoc idx =
     idx\<lparr>idxRNum := max 0 (idxRNum idx
        + (int (length (valuesForIndex L newDoc (idxPath idx) (idxKind idx)))
           - int (length (valuesForIndex L oldDoc (idxPath idx) (idxKind idx)))))\<rparr>"

definition adjustIndexRNums :: "go_lib \<Rightarrow> collectionState \<Rightarrow> gv \<Rightarrow> gv \<Rightarrow> collectionState" where
  "adjustIndexRNums L col oldDoc newDoc =
     (let ixs = map (\<lambda>(k, idx). (k, adjustIndexRNum L oldDoc newDoc idx)) (colIndexes col)
      in col\<lparr>colIndexes := ixs,
             colRuntime := map (\<lambda>(k, rt). (k, case map_of ixs k of None \<Rightarrow> rt | Some idx \<Rightarrow> rt\<lparr>rtDef := idx\<rparr>))
               (colRuntime col)\<rparr>)"

definition recordDocPut :: "string \<Rightarrow> int64 \<Rightarrow> bytes \<Rightarrow> bytes \<Rightarrow> gv \<Rightarrow> gv \<Rightarrow> 'e DB \<Rightarrow> 'e DB" where
  "recordDocPut coll i oldRaw newRaw oldDoc newDoc db =
     db\<lparr>dbPending := dbPending db @ [\<lparr>mKind = mutationPut, mCollection = coll, mId = i,
          mOldRaw = oldRaw, mNewRaw = newRaw, mOldDoc = oldDoc, mNewDoc = newDoc\<rparr>],
        dbDirtyMeta := True\<rparr>"

definition recordDocDelete :: "string \<Rightarrow> int64 \<Rightarrow> bytes \<Rightarrow> gv \<Rightarrow> 'e DB \<Rightarrow> 'e DB" where
  "recordDocDelete coll i oldRaw oldDoc db =
     db\<lparr>dbPending := dbPending db @ [\<lparr>mKind = mutationDelete, mCollection = coll, mId = i,
          mOldRaw = oldRaw, mNewRaw = [], mOldDoc = oldDoc, mNewDoc = VNil\<rparr>],
        dbDirtyMeta := True\<rparr>"

definition markMetaDirty :: "'e DB \<Rightarrow> 'e DB" where "markMetaDirty db = db\<lparr>dbDirtyMeta := True\<rparr>"

definition markFullDirty :: "'e DB \<Rightarrow> 'e DB" where
  "markFullDirty db = db\<lparr>dbDirtyFull := True, dbDirtyMeta := True\<rparr>"

text \<open>The document a put replaces: pending, deleted, or stored; \<open>None\<close> when there is none.\<close>

definition oldDocument :: "'e env \<Rightarrow> 'e DB \<Rightarrow> collectionState \<Rightarrow> int64 \<Rightarrow> (bytes \<times> gv) option result" where
  "oldDocument E db col i =
     (case pendingDocState (dbPending db) (colName col) i of
        PendingDoc raw doc \<Rightarrow> Inr (Some (raw, doc))
      | PendingDeleted \<Rightarrow> Inr None
      | NotPending \<Rightarrow>
          (case getDocNode E (dbEngine db) (Some col) i of
             Inr rd \<Rightarrow> Inr (Some rd)
           | Inl err \<Rightarrow> if errorIs err ErrNotFound then Inr None else Inl err))"

definition putLocked :: "'e env \<Rightarrow> collectionState \<Rightarrow> int64 \<Rightarrow> bytes \<Rightarrow> 'e DB \<Rightarrow> unit result \<times> 'e DB" where
  "putLocked E col i raw db =
     (case normalizeRawJSON E raw of
        Inl e \<Rightarrow> (Inl e, db)
      | Inr (canon, doc) \<Rightarrow>
          (case oldDocument E db col i of
             Inl e \<Rightarrow> (Inl e, db)
           | Inr old \<Rightarrow>
               (case checkUniqueConstraints E db col i doc of
                  Inl e \<Rightarrow> (Inl e, db)
                | Inr _ \<Rightarrow>
                    let (oldRaw, oldDoc) = (case old of None \<Rightarrow> ([], VNil) | Some rd \<Rightarrow> rd);
                        col = (if old = None then col\<lparr>colRNum := colRNum col + 1\<rparr> else col);
                        col = adjustIndexRNums (envLib E) col oldDoc doc
                    in (Inr (), recordDocPut (colName col) i oldRaw canon oldDoc doc (setCol col db)))))"

section \<open>Committing\<close>

definition truncatePending :: "nat \<Rightarrow> bool \<Rightarrow> bool \<Rightarrow> 'e DB \<Rightarrow> 'e DB" where
  "truncatePending n dirtyMeta dirtyFull db =
     db\<lparr>dbPending := take n (dbPending db), dbDirtyMeta := dirtyMeta, dbDirtyFull := dirtyFull\<rparr>"

definition clearPending :: "'e DB \<Rightarrow> 'e DB" where
  "clearPending db = db\<lparr>dbPending := [], dbDirtyMeta := False, dbDirtyFull := False\<rparr>"

text \<open>The document a mutation carries, decoded again from its text when it is nil.\<close>

definition mutationDoc :: "'e env \<Rightarrow> bytes \<Rightarrow> gv \<Rightarrow> gv result" where
  "mutationDoc E raw doc = (if doc = VNil then decodeJSON (envJson E) raw else Inr doc)"

definition indexEntryKey :: "indexState \<Rightarrow> string \<Rightarrow> int64 \<Rightarrow> bytes" where
  "indexEntryKey idx val i = (if idxUnique idx then keyUniqueIndex idx val else keyIndex idx val i)"

definition indexEntryValue :: "indexState \<Rightarrow> int64 \<Rightarrow> bytes" where
  "indexEntryValue idx i = (if idxUnique idx then putU64 [] i else [1])"

definition deleteIndexKeys :: "'e env \<Rightarrow> collectionState option \<Rightarrow> int64 \<Rightarrow> bytes \<Rightarrow> gv \<Rightarrow> batchOp list result" where
  "deleteIndexKeys E col i raw doc =
     (case col of
        None \<Rightarrow> Inr []
      | Some c \<Rightarrow>
          if raw = [] then Inr []
          else case mutationDoc E raw doc of
                 Inl e \<Rightarrow> Inl e
               | Inr d \<Rightarrow>
                   Inr (concat (map (\<lambda>(k, idx).
                     map (\<lambda>val. BDelete (indexEntryKey idx val i))
                       (valuesForIndex (envLib E) d (idxPath idx) (idxKind idx))) (colIndexes c))))"

definition setIndexKeys :: "'e env \<Rightarrow> collectionState option \<Rightarrow> int64 \<Rightarrow> bytes \<Rightarrow> gv \<Rightarrow> batchOp list result" where
  "setIndexKeys E col i raw doc =
     (case col of
        None \<Rightarrow> Inr []
      | Some c \<Rightarrow>
          if raw = [] then Inr []
          else case mutationDoc E raw doc of
                 Inl e \<Rightarrow> Inl e
               | Inr d \<Rightarrow>
                   Inr (concat (map (\<lambda>(k, idx).
                     map (\<lambda>val. BSet (indexEntryKey idx val i) (indexEntryValue idx i))
                       (valuesForIndex (envLib E) d (idxPath idx) (idxKind idx))) (colIndexes c))))"

text \<open>
  The writes of one pending mutation. A put whose collection is gone dereferences a nil pointer; the
  model has an error of its own for that panic.
\<close>

definition nilCollection :: error where "nilCollection = Plain ''nil collection''"

definition mutationOps :: "'e env \<Rightarrow> (string \<times> collectionState) list \<Rightarrow> storageMutation \<Rightarrow> batchOp list result" where
  "mutationOps E cols m =
     (let col = map_of cols (mCollection m);
          seqOps = (case col of None \<Rightarrow> [] | Some c \<Rightarrow> [BSet (keySeq (colDBID c)) (putU64 [] (colNextID c))])
      in case mKind m of
           mutationPut \<Rightarrow>
             (case (if mOldRaw m \<noteq> [] then deleteIndexKeys E col (mId m) (mOldRaw m) (mOldDoc m) else Inr []) of
                Inl e \<Rightarrow> Inl e
              | Inr dels \<Rightarrow>
                  (case encodeStoredDoc E (mNewRaw m) (mNewDoc m) of
                     Inl e \<Rightarrow> Inl e
                   | Inr stored \<Rightarrow>
                       (case col of
                          None \<Rightarrow> Inl nilCollection
                        | Some c \<Rightarrow>
                            (case setIndexKeys E col (mId m) (mNewRaw m) (mNewDoc m) of
                               Inl e \<Rightarrow> Inl e
                             | Inr sets \<Rightarrow> Inr (seqOps @ dels @ [BSet (keyDoc (colDBID c) (mId m)) stored] @ sets)))))
         | mutationDelete \<Rightarrow>
             (case deleteIndexKeys E col (mId m) (mOldRaw m) (mOldDoc m) of
                Inl e \<Rightarrow> Inl e
              | Inr dels \<Rightarrow>
                  Inr (seqOps @ dels @ (case col of None \<Rightarrow> [] | Some c \<Rightarrow> [BDelete (keyDoc (colDBID c) (mId m))]))))"

fun pendingOps :: "'e env \<Rightarrow> (string \<times> collectionState) list \<Rightarrow> storageMutation list \<Rightarrow> batchOp list result" where
  "pendingOps E cols [] = Inr []"
| "pendingOps E cols (m # ms) =
     (case mutationOps E cols m of
        Inl e \<Rightarrow> Inl e
      | Inr ops \<Rightarrow> (case pendingOps E cols ms of Inl e \<Rightarrow> Inl e | Inr rest \<Rightarrow> Inr (ops @ rest)))"

text \<open>Commit a batch; on an error the database object is as before.\<close>

definition commitBatch :: "'e env \<Rightarrow> batchOp list \<Rightarrow> 'e DB \<Rightarrow> unit result \<times> 'e DB" where
  "commitBatch E ops db =
     (case engCommit (envEng E) (dbEngine db) ops of
        Inl e \<Rightarrow> (Inl e, db)
      | Inr e' \<Rightarrow> (Inr (), db\<lparr>dbEngine := e'\<rparr>))"

definition persistPendingLocked :: "'e env \<Rightarrow> 'e DB \<Rightarrow> unit result \<times> 'e DB" where
  "persistPendingLocked E db =
     (case encodeCatalog (envMarshalCat E) (dbSt db) of
        Inl e \<Rightarrow> (Inl e, db)
      | Inr meta \<Rightarrow>
          (case pendingOps E (collections db) (dbPending db) of
             Inl e \<Rightarrow> (Inl e, db)
           | Inr ops \<Rightarrow>
               (case commitBatch E (BSet keyMetaState meta # ops) db of
                  (Inl e, db') \<Rightarrow> (Inl e, db')
                | (Inr _, db') \<Rightarrow> (Inr (), clearPending db'))))"

definition persistFullLocked :: "'e env \<Rightarrow> 'e DB \<Rightarrow> unit result \<times> 'e DB" where
  "persistFullLocked E db =
     (case encodeCatalog (envMarshalCat E) (dbSt db) of
        Inl e \<Rightarrow> (Inl e, db)
      | Inr meta \<Rightarrow>
          (case commitBatch E (BSet keyMetaState meta #
                  map (\<lambda>(_, col). BSet (keySeq (colDBID col)) (putU64 [] (colNextID col))) (collections db)) db of
             (Inl e, db') \<Rightarrow> (Inl e, db')
           | (Inr _, db') \<Rightarrow> (Inr (), clearPending db')))"

definition commitLocked :: "'e env \<Rightarrow> 'e DB \<Rightarrow> unit result \<times> 'e DB" where
  "commitLocked E db =
     (if dbDirtyFull db then persistFullLocked E db
      else if \<not> dbDirtyMeta db \<and> dbPending db = [] then (Inr (), db)
      else persistPendingLocked E db)"

section \<open>Dropping data\<close>

definition dropIndexOps :: "indexState \<Rightarrow> batchOp list" where
  "dropIndexOps idx =
     [BDeleteRange (keyIndexPathPrefix idx) (prefixEnd (keyIndexPathPrefix idx)),
      BDeleteRange (keyUniqueIndexPathPrefix idx) (prefixEnd (keyUniqueIndexPathPrefix idx))]"

definition dropCollectionDataAndCommitLocked :: "'e env \<Rightarrow> collectionState \<Rightarrow> 'e DB \<Rightarrow> unit result \<times> 'e DB" where
  "dropCollectionDataAndCommitLocked E col db =
     (case encodeCatalog (envMarshalCat E) (dbSt db) of
        Inl e \<Rightarrow> (Inl e, db)
      | Inr meta \<Rightarrow>
          commitBatch E
            ([BDeleteRange (keyDocPrefix (colDBID col)) (prefixEnd (keyDocPrefix (colDBID col))),
              BDelete (keySeq (colDBID col))]
             @ concat (map (dropIndexOps \<circ> snd) (colIndexes col)) @ [BSet keyMetaState meta]) db)"

definition dropIndexesDataAndCommitLocked :: "'e env \<Rightarrow> indexState list \<Rightarrow> 'e DB \<Rightarrow> unit result \<times> 'e DB" where
  "dropIndexesDataAndCommitLocked E indexes db =
     (case encodeCatalog (envMarshalCat E) (dbSt db) of
        Inl e \<Rightarrow> (Inl e, db)
      | Inr meta \<Rightarrow>
          commitBatch E (concat (map dropIndexOps indexes) @ [BSet keyMetaState meta]) db)"

section \<open>Building an index\<close>

definition scanDocsForCollection ::
    "'e env \<Rightarrow> 'e \<Rightarrow> collectionState \<Rightarrow> (int64 \<Rightarrow> bytes \<Rightarrow> gv \<Rightarrow> 's \<Rightarrow> 's result) \<Rightarrow> 's \<Rightarrow> 's result" where
  "scanDocsForCollection E reader col fn =
     scanPrefix (envEng E) reader (keyDocPrefix (colDBID col)) (\<lambda>key val s.
       case decodeDocKey key of
         None \<Rightarrow> Inl (Coded CodeInvalidQuery)
       | Some (_, i) \<Rightarrow>
           (case decodeStored E val of Inl e \<Rightarrow> Inl e | Inr (raw, doc) \<Rightarrow> fn i raw doc s))"

text \<open>The entries of one document: the values seen so far with their document, and the writes.\<close>

fun rebuildValues ::
    "indexState \<Rightarrow> int64 \<Rightarrow> string list \<Rightarrow> (string \<times> int64) list \<times> batchOp list \<Rightarrow> ((string \<times> int64) list \<times> batchOp list) result" where
  "rebuildValues idx i [] s = Inr s"
| "rebuildValues idx i (v # vs) (seen, ops) =
     (if idxUnique idx then
        (case map_of seen v of
           Some cur \<Rightarrow>
             if cur \<noteq> i then Inl ErrUniqueConstraint
             else rebuildValues idx i vs (AList.update v i seen, ops @ [BSet (keyUniqueIndex idx v) (putU64 [] i)])
         | None \<Rightarrow> rebuildValues idx i vs (AList.update v i seen, ops @ [BSet (keyUniqueIndex idx v) (putU64 [] i)]))
      else rebuildValues idx i vs (seen, ops @ [BSet (keyIndex idx v i) [1]]))"

text \<open>\<^verbatim>\<open>rebuildIndex\<close>: the writes of the scan are counted by \<^verbatim>\<open>rnum\<close>, one per value.\<close>

definition rebuildIndex :: "'e env \<Rightarrow> collectionState \<Rightarrow> string \<Rightarrow> 'e DB \<Rightarrow> unit result \<times> 'e DB" where
  "rebuildIndex E col key db =
     (case map_of (colIndexes col) key of
        None \<Rightarrow> (Inr (), db)
      | Some idx \<Rightarrow>
          (case scanDocsForCollection E (dbEngine db) col
                  (\<lambda>i raw doc s. rebuildValues idx i (valuesForIndex (envLib E) doc (idxPath idx) (idxKind idx)) s) ([], []) of
             Inl e \<Rightarrow> (Inl e, db)
           | Inr (seen, ops) \<Rightarrow>
               let idx = idx\<lparr>idxRNum := int (length ops)\<rparr>;
                   col = col\<lparr>colIndexes := AList.update key idx (colIndexes col),
                             colRuntime := map (\<lambda>(k, rt). (k, if k = key then rt\<lparr>rtDef := idx\<rparr> else rt)) (colRuntime col)\<rparr>;
                   db = setCol col db
               in case encodeCatalog (envMarshalCat E) (dbSt db) of
                    Inl e \<Rightarrow> (Inl e, db)
                  | Inr meta \<Rightarrow> commitBatch E (dropIndexOps idx @ ops @ [BSet keyMetaState meta]) db))"

section \<open>Collections\<close>

definition ensureCollectionOnStateLocked :: "dbState \<Rightarrow> string \<Rightarrow> collectionState \<times> dbState" where
  "ensureCollectionOnStateLocked st name =
     (case map_of (stCollections st) name of
        Some c \<Rightarrow> let col = c\<lparr>colName := name\<rparr> in (col, st\<lparr>stCollections := AList.update name col (stCollections st)\<rparr>)
      | None \<Rightarrow>
          let nid = stNextCollectionID st + 1;
              col = \<lparr>colName = name, colDBID = nid, colNextID = 0, colRNum = 0, colIndexes = [], colRuntime = []\<rparr>
          in (col, st\<lparr>stNextCollectionID := nid, stCollections := AList.update name col (stCollections st)\<rparr>))"

definition ensureCollectionLocked :: "string \<Rightarrow> 'e DB \<Rightarrow> collectionState \<times> 'e DB" where
  "ensureCollectionLocked name db =
     (case ensureCollectionOnStateLocked (dbSt db) name of (col, st) \<Rightarrow> (col, db\<lparr>dbSt := st\<rparr>))"

definition DB_EnsureCollection :: "'e env \<Rightarrow> string \<Rightarrow> 'e DB \<Rightarrow> unit result \<times> 'e DB" where
  "DB_EnsureCollection E name db =
     (if dbClosed db then (Inl ErrClosed, db)
      else commitLocked E (markMetaDirty (snd (ensureCollectionLocked name db))))"

definition DB_RemoveCollection :: "'e env \<Rightarrow> string \<Rightarrow> 'e DB \<Rightarrow> unit result \<times> 'e DB" where
  "DB_RemoveCollection E name db =
     (if dbClosed db then (Inl ErrClosed, db)
      else case map_of (collections db) name of
             None \<Rightarrow> (Inr (), db)
           | Some col \<Rightarrow>
               dropCollectionDataAndCommitLocked E col (setCollections (AList.delete name (collections db)) db))"

definition DB_RenameCollection :: "'e env \<Rightarrow> string \<Rightarrow> string \<Rightarrow> 'e DB \<Rightarrow> unit result \<times> 'e DB" where
  "DB_RenameCollection E oldName newName db =
     (if dbClosed db then (Inl ErrClosed, db)
      else case map_of (collections db) oldName of
             None \<Rightarrow> (Inl ErrCollectionAbsent, db)
           | Some col \<Rightarrow>
               if map_of (collections db) newName \<noteq> None then (Inl ErrCollectionExists, db)
               else commitLocked E (markMetaDirty (setCollections
                      (AList.update newName (col\<lparr>colName := newName\<rparr>) (AList.delete oldName (collections db))) db)))"

section \<open>Documents: the API\<close>

text \<open>Run \<open>commitLocked\<close> when the step before it succeeded.\<close>

definition thenCommit :: "'e env \<Rightarrow> unit result \<times> 'e DB \<Rightarrow> unit result \<times> 'e DB" where
  "thenCommit E r = (case r of (Inl e, db) \<Rightarrow> (Inl e, db) | (Inr _, db) \<Rightarrow> commitLocked E db)"

definition addNextID :: "int64 \<Rightarrow> string \<Rightarrow> 'e DB \<Rightarrow> 'e DB" where
  "addNextID n name db =
     (case map_of (collections db) name of
        None \<Rightarrow> db
      | Some c \<Rightarrow> setCol (c\<lparr>colNextID := colNextID c + n\<rparr>) db)"

text \<open>The part of \<^verbatim>\<open>PutNew\<close> that it shares with the transactions.\<close>

definition putNewLocked :: "'e env \<Rightarrow> string \<Rightarrow> bytes \<Rightarrow> 'e DB \<Rightarrow> int64 result \<times> 'e DB" where
  "putNewLocked E coll raw db =
     (case ensureCollectionLocked coll db of (col, db) \<Rightarrow>
        let col = col\<lparr>colNextID := colNextID col + 1\<rparr>;
            i = colNextID col
        in case putLocked E col i raw (setCol col db) of
             (Inl e, db) \<Rightarrow> (Inl e, addNextID (- 1) coll db)
           | (Inr _, db) \<Rightarrow> (Inr i, db))"

definition putIdLocked :: "'e env \<Rightarrow> string \<Rightarrow> int64 \<Rightarrow> bytes \<Rightarrow> 'e DB \<Rightarrow> unit result \<times> 'e DB" where
  "putIdLocked E coll i raw db =
     (case ensureCollectionLocked coll db of (col, db) \<Rightarrow>
        let col = (if sint (colNextID col) < sint i then col\<lparr>colNextID := i\<rparr> else col)
        in putLocked E col i raw (setCol col db))"

definition DB_PutNew :: "'e env \<Rightarrow> string \<Rightarrow> bytes \<Rightarrow> 'e DB \<Rightarrow> int64 result \<times> 'e DB" where
  "DB_PutNew E coll raw db =
     (if dbClosed db then (Inl ErrClosed, db)
      else case putNewLocked E coll raw db of
             (Inl e, db) \<Rightarrow> (Inl e, db)
           | (Inr i, db) \<Rightarrow> (case commitLocked E db of (Inl e, db) \<Rightarrow> (Inl e, db) | (Inr _, db) \<Rightarrow> (Inr i, db)))"

definition DB_Put :: "'e env \<Rightarrow> string \<Rightarrow> int64 \<Rightarrow> bytes \<Rightarrow> 'e DB \<Rightarrow> unit result \<times> 'e DB" where
  "DB_Put E coll i raw db =
     (if dbClosed db then (Inl ErrClosed, db) else thenCommit E (putIdLocked E coll i raw db))"

definition DB_Get :: "'e env \<Rightarrow> string \<Rightarrow> int64 \<Rightarrow> 'e DB \<Rightarrow> bytes result" where
  "DB_Get E coll i db =
     (if dbClosed db then Inl ErrClosed
      else case map_of (collections db) coll of
             None \<Rightarrow> Inl ErrNotFound
           | Some col \<Rightarrow> getDocRaw E (dbEngine db) (Some col) i)"

text \<open>Record the deletion of a document and count it off.\<close>

definition deleteLocked :: "'e env \<Rightarrow> collectionState \<Rightarrow> int64 \<Rightarrow> bytes \<Rightarrow> gv \<Rightarrow> 'e DB \<Rightarrow> 'e DB" where
  "deleteLocked E col i raw doc db =
     (let col' = (if 0 < colRNum col then col\<lparr>colRNum := colRNum col - 1\<rparr> else col)
      in setCol (adjustIndexRNums (envLib E) col' doc VNil) (recordDocDelete (colName col) i raw doc db))"

definition DB_Delete :: "'e env \<Rightarrow> string \<Rightarrow> int64 \<Rightarrow> 'e DB \<Rightarrow> unit result \<times> 'e DB" where
  "DB_Delete E coll i db =
     (if dbClosed db then (Inl ErrClosed, db)
      else case map_of (collections db) coll of
             None \<Rightarrow> (Inl ErrNotFound, db)
           | Some col \<Rightarrow>
               (case getDocNode E (dbEngine db) (Some col) i of
                  Inl e \<Rightarrow> (Inl e, db)
                | Inr (raw, doc) \<Rightarrow> commitLocked E (deleteLocked E col i raw doc db)))"

definition DB_Patch :: "'e env \<Rightarrow> string \<Rightarrow> int64 \<Rightarrow> bytes \<Rightarrow> 'e DB \<Rightarrow> unit result \<times> 'e DB" where
  "DB_Patch E coll i patch db =
     (if dbClosed db then (Inl ErrClosed, db)
      else case map_of (collections db) coll of
             None \<Rightarrow> (Inl ErrNotFound, db)
           | Some col \<Rightarrow>
               (case getDocRaw E (dbEngine db) (Some col) i of
                  Inl e \<Rightarrow> (Inl e, db)
                | Inr raw \<Rightarrow>
                    (case applyJSONPatch (envLib E) (envJson E) (envRoom E raw) raw patch of
                       Inl e \<Rightarrow> (Inl e, db)
                     | Inr newRaw \<Rightarrow> thenCommit E (putLocked E col i newRaw db))))"

definition DB_MergeOrPut :: "'e env \<Rightarrow> string \<Rightarrow> int64 \<Rightarrow> bytes \<Rightarrow> 'e DB \<Rightarrow> unit result \<times> 'e DB" where
  "DB_MergeOrPut E coll i patch db =
     (if dbClosed db then (Inl ErrClosed, db)
      else case ensureCollectionLocked coll db of (col, db) \<Rightarrow>
        (case getDocRaw E (dbEngine db) (Some col) i of
           Inl err \<Rightarrow>
             if errorIs err ErrNotFound then
               let col = (if sint (colNextID col) < sint i then col\<lparr>colNextID := i\<rparr> else col)
               in thenCommit E (putLocked E col i patch (setCol col db))
             else (Inl err, db)
         | Inr raw \<Rightarrow>
             (case applyMergePatch (envJson E) raw patch of
                Inl e \<Rightarrow> (Inl e, db)
              | Inr newRaw \<Rightarrow> thenCommit E (putLocked E col i newRaw db))))"

section \<open>Indexes: the API\<close>

definition validateIndexDefinition :: "string \<Rightarrow> IndexKind \<Rightarrow> unit result" where
  "validateIndexDefinition path kind =
     (let bad = Inl (Coded CodeInvalidIndexMode) in
      if path = [] \<or> hd path \<noteq> CHR ''/'' then bad
      else if \<not> knownKind kind then bad
      else case pointerTokens path of
             Inl e \<Rightarrow> bad
           | Inr tokens \<Rightarrow> if ''*'' \<in> set tokens \<or> ''**'' \<in> set tokens then bad else Inr ())"

text \<open>
  \<^verbatim>\<open>EnsureIndex\<close> up to the commit. The boolean of the result says whether an index was made; a
  collection that did not exist has been made in any case.
\<close>

definition ensureIndexLocked ::
    "'e env \<Rightarrow> string \<Rightarrow> string \<Rightarrow> IndexKind \<Rightarrow> bool \<Rightarrow> 'e DB \<Rightarrow> bool result \<times> 'e DB" where
  "ensureIndexLocked E coll path kind unique db =
     (case validateIndexDefinition path kind of
        Inl e \<Rightarrow> (Inl e, db)
      | Inr _ \<Rightarrow>
          (case ensureCollectionLocked coll db of (col, db) \<Rightarrow>
             (case find (\<lambda>(k, idx). idxPath idx = path \<and> idxKind idx = kind) (colIndexes col) of
                Some (k, idx) \<Rightarrow>
                  if idxUnique idx \<noteq> unique then (Inl (Coded CodeMismatchedIndexUniqueness), db) else (Inr False, db)
              | None \<Rightarrow>
                  let k = indexKey path kind unique;
                      nextDBID = stNextCollectionID (dbSt db) + 1;
                      idx = \<lparr>idxPath = path, idxKind = kind, idxUnique = unique, idxDBID = nextDBID, idxRNum = 0\<rparr>;
                      col1 = col\<lparr>colIndexes := AList.update k idx (colIndexes col),
                                 colRuntime := AList.update k (newRuntime idx) (colRuntime col)\<rparr>
                  in case rebuildIndex E col1 k (setCol col1 db) of
                       (Inl e, db) \<Rightarrow> (Inl e, setCol col db)
                     | (Inr _, db) \<Rightarrow> (Inr True, db\<lparr>dbSt := (dbSt db)\<lparr>stNextCollectionID := nextDBID\<rparr>\<rparr>))))"

definition DB_EnsureIndex :: "'e env \<Rightarrow> string \<Rightarrow> string \<Rightarrow> IndexKind \<Rightarrow> bool \<Rightarrow> 'e DB \<Rightarrow> unit result \<times> 'e DB" where
  "DB_EnsureIndex E coll path kind unique db =
     (if dbClosed db then (Inl ErrClosed, db)
      else case ensureIndexLocked E coll path kind unique db of
             (Inl e, db) \<Rightarrow> (Inl e, db)
           | (Inr made, db) \<Rightarrow> if made then commitLocked E (markMetaDirty db) else (Inr (), db))"

definition DB_EnsureIndexMode :: "'e env \<Rightarrow> string \<Rightarrow> string \<Rightarrow> IndexMode \<Rightarrow> 'e DB \<Rightarrow> unit result \<times> 'e DB" where
  "DB_EnsureIndexMode E coll path mode db =
     (case indexModeParts mode of
        Inl e \<Rightarrow> (Inl e, db)
      | Inr (kind, unique) \<Rightarrow> DB_EnsureIndex E coll path kind unique db)"

definition removeIndexKeys :: "string list \<Rightarrow> collectionState \<Rightarrow> collectionState" where
  "removeIndexKeys ks col =
     col\<lparr>colIndexes := filter (\<lambda>(k, _). k \<notin> set ks) (colIndexes col),
         colRuntime := filter (\<lambda>(k, _). k \<notin> set ks) (colRuntime col)\<rparr>"

definition matchingIndexes :: "string \<Rightarrow> IndexKind \<Rightarrow> collectionState \<Rightarrow> (string \<times> indexState) list" where
  "matchingIndexes path kind col = filter (\<lambda>(k, idx). idxPath idx = path \<and> idxKind idx = kind) (colIndexes col)"

definition DB_RemoveIndex :: "'e env \<Rightarrow> string \<Rightarrow> string \<Rightarrow> IndexKind \<Rightarrow> 'e DB \<Rightarrow> unit result \<times> 'e DB" where
  "DB_RemoveIndex E coll path kind db =
     (if dbClosed db then (Inl ErrClosed, db)
      else case map_of (collections db) coll of
             None \<Rightarrow> (Inl ErrCollectionAbsent, db)
           | Some col \<Rightarrow>
               let removed = matchingIndexes path kind col in
               if removed = [] then (Inl ErrIndexNotFound, db)
               else dropIndexesDataAndCommitLocked E (map snd removed) (setCol (removeIndexKeys (map fst removed) col) db))"

definition DB_RemoveIndexMode :: "'e env \<Rightarrow> string \<Rightarrow> string \<Rightarrow> IndexMode \<Rightarrow> 'e DB \<Rightarrow> unit result \<times> 'e DB" where
  "DB_RemoveIndexMode E coll path mode db =
     (case indexModeParts mode of
        Inl e \<Rightarrow> (Inl e, db)
      | Inr (kind, unique) \<Rightarrow>
          if dbClosed db then (Inl ErrClosed, db)
          else case map_of (collections db) coll of
                 None \<Rightarrow> (Inr (), db)
               | Some col \<Rightarrow>
                   let k = indexKey path kind unique in
                   (case map_of (colIndexes col) k of
                      None \<Rightarrow> (Inl ErrIndexNotFound, db)
                    | Some idx \<Rightarrow>
                        dropIndexesDataAndCommitLocked E [idx] (setCol (removeIndexKeys [k] col) db)))"

end
