(* ===== verification/Tx.thy ===== *)
theory Tx
  imports Db
begin

text \<open>
  \<^verbatim>\<open>tx.go\<close>: read and write transactions and their operations. The operations of a write transaction work
  on the database object and leave their mutations pending; \<^verbatim>\<open>WriteTx\<close> commits them or rolls back.
\<close>

section \<open>Transactions\<close>

text \<open>
  A transaction: the state it works on, the reader of its documents, and whether it may write. The
  state of a write transaction is the state of the database object itself, which the lock gives to it
  alone; that of a read transaction is a clone, with a snapshot of the store.
\<close>

record 'e Tx =
  txState :: dbState
  txReader :: 'e
  txWrite :: bool

definition openReadTx :: "'e env \<Rightarrow> 'e DB \<Rightarrow> 'e Tx result" where
  "openReadTx E db =
     (if dbClosed db then Inl ErrClosed
      else case clone (envCloneJSON E) (dbSt db) of
             Inl e \<Rightarrow> Inl e
           | Inr snapshot \<Rightarrow> Inr \<lparr>txState = snapshot, txReader = dbEngine db, txWrite = False\<rparr>)"

text \<open>\<^verbatim>\<open>ReadTx\<close>: the function sees the transaction and cannot change the database.\<close>

definition ReadTx :: "'e env \<Rightarrow> ('e Tx \<Rightarrow> 'a result) \<Rightarrow> 'e DB \<Rightarrow> 'a result" where
  "ReadTx E fn db = (case openReadTx E db of Inl e \<Rightarrow> Inl e | Inr tx \<Rightarrow> fn tx)"

text \<open>
  \<^verbatim>\<open>WriteTx\<close>: the function runs on the database object; an error of it, or of the commit, puts the state
  and the pending mutations back.
\<close>

definition rollback :: "dbState \<Rightarrow> 'e DB \<Rightarrow> 'e DB \<Rightarrow> 'e DB" where
  "rollback snapshot db0 db =
     truncatePending (length (dbPending db0)) (dbDirtyMeta db0) (dbDirtyFull db0) (db\<lparr>dbSt := snapshot\<rparr>)"

definition WriteTx :: "'e env \<Rightarrow> ('e DB \<Rightarrow> 'a result \<times> 'e DB) \<Rightarrow> 'e DB \<Rightarrow> 'a result \<times> 'e DB" where
  "WriteTx E fn db =
     (if dbClosed db then (Inl ErrClosed, db)
      else case clone (envCloneJSON E) (dbSt db) of
             Inl e \<Rightarrow> (Inl e, db)
           | Inr snapshot \<Rightarrow>
               (case fn db of
                  (Inl e, db1) \<Rightarrow> (Inl e, rollback snapshot db db1)
                | (Inr x, db1) \<Rightarrow>
                    (case commitLocked E db1 of
                       (Inl e, db2) \<Rightarrow> (Inl e, rollback snapshot db db2)
                     | (Inr _, db2) \<Rightarrow> (Inr x, db2))))"

section \<open>Operations of a transaction\<close>

text \<open>
  The flag \<open>write\<close> is the field of that name of the transaction: a read transaction refuses every
  operation that changes something.
\<close>

definition Tx_EnsureCollection :: "bool \<Rightarrow> string \<Rightarrow> 'e DB \<Rightarrow> unit result \<times> 'e DB" where
  "Tx_EnsureCollection write name db =
     (if \<not> write then (Inl ErrReadOnlyTx, db)
      else (Inr (), markMetaDirty (snd (ensureCollectionLocked name db))))"

definition Tx_RemoveCollection :: "bool \<Rightarrow> string \<Rightarrow> 'e DB \<Rightarrow> unit result \<times> 'e DB" where
  "Tx_RemoveCollection write name db =
     (if \<not> write then (Inl ErrReadOnlyTx, db)
      else (Inr (), markFullDirty (setCollections (AList.delete name (collections db)) db)))"

definition Tx_RenameCollection :: "bool \<Rightarrow> string \<Rightarrow> string \<Rightarrow> 'e DB \<Rightarrow> unit result \<times> 'e DB" where
  "Tx_RenameCollection write oldName newName db =
     (if \<not> write then (Inl ErrReadOnlyTx, db)
      else if oldName = newName then (Inr (), db)
      else if map_of (collections db) newName \<noteq> None then (Inl ErrCollectionExists, db)
      else case map_of (collections db) oldName of
             None \<Rightarrow> (Inl ErrCollectionAbsent, db)
           | Some col \<Rightarrow>
               (Inr (), markFullDirty (setCollections
                  (AList.update newName (col\<lparr>colName := newName\<rparr>) (AList.delete oldName (collections db))) db)))"

definition Tx_PutNew :: "'e env \<Rightarrow> bool \<Rightarrow> string \<Rightarrow> bytes \<Rightarrow> 'e DB \<Rightarrow> int64 result \<times> 'e DB" where
  "Tx_PutNew E write coll raw db =
     (if \<not> write then (Inl ErrReadOnlyTx, db)
      else putNewLocked E coll raw db)"

definition Tx_Put :: "'e env \<Rightarrow> bool \<Rightarrow> string \<Rightarrow> int64 \<Rightarrow> bytes \<Rightarrow> 'e DB \<Rightarrow> unit result \<times> 'e DB" where
  "Tx_Put E write coll i raw db =
     (if \<not> write then (Inl ErrReadOnlyTx, db)
      else putIdLocked E coll i raw db)"

text \<open>\<^verbatim>\<open>Get\<close> of a write transaction: the pending mutations first, then the store.\<close>

definition Tx_Get :: "'e env \<Rightarrow> string \<Rightarrow> int64 \<Rightarrow> 'e DB \<Rightarrow> bytes result" where
  "Tx_Get E coll i db =
     (case map_of (collections db) coll of
        None \<Rightarrow> Inl ErrNotFound
      | Some col \<Rightarrow>
          (case pendingDocState (dbPending db) coll i of
             PendingDeleted \<Rightarrow> Inl ErrNotFound
           | PendingDoc raw _ \<Rightarrow> Inr raw
           | NotPending \<Rightarrow> getDocRaw E (dbEngine db) (Some col) i))"

text \<open>\<^verbatim>\<open>Get\<close> of a read transaction: its own state and its snapshot.\<close>

definition ReadTx_Get :: "'e env \<Rightarrow> string \<Rightarrow> int64 \<Rightarrow> 'e Tx \<Rightarrow> bytes result" where
  "ReadTx_Get E coll i tx =
     (case map_of (stCollections (txState tx)) coll of
        None \<Rightarrow> Inl ErrNotFound
      | Some col \<Rightarrow> getDocRaw E (txReader tx) (Some col) i)"

definition Tx_Delete :: "'e env \<Rightarrow> bool \<Rightarrow> string \<Rightarrow> int64 \<Rightarrow> 'e DB \<Rightarrow> unit result \<times> 'e DB" where
  "Tx_Delete E write coll i db =
     (if \<not> write then (Inl ErrReadOnlyTx, db)
      else case map_of (collections db) coll of
        None \<Rightarrow> (Inl ErrNotFound, db)
      | Some col \<Rightarrow>
          (case Tx_Get E coll i db of
             Inl e \<Rightarrow> (Inl e, db)
           | Inr raw \<Rightarrow>
               (case decodeJSON (envJson E) raw of
                  Inl e \<Rightarrow> (Inl e, db)
                | Inr doc \<Rightarrow> (Inr (), deleteLocked E col i raw doc db))))"

definition Tx_Patch :: "'e env \<Rightarrow> bool \<Rightarrow> string \<Rightarrow> int64 \<Rightarrow> bytes \<Rightarrow> 'e DB \<Rightarrow> unit result \<times> 'e DB" where
  "Tx_Patch E write coll i patch db =
     (if \<not> write then (Inl ErrReadOnlyTx, db)
      else case map_of (collections db) coll of
        None \<Rightarrow> (Inl ErrNotFound, db)
      | Some col \<Rightarrow>
          (case Tx_Get E coll i db of
             Inl e \<Rightarrow> (Inl e, db)
           | Inr raw \<Rightarrow>
               (case applyJSONPatch (envLib E) (envJson E) (envRoom E raw) raw patch of
                  Inl e \<Rightarrow> (Inl e, db)
                | Inr newRaw \<Rightarrow> putLocked E col i newRaw db)))"

definition Tx_MergeOrPut :: "'e env \<Rightarrow> bool \<Rightarrow> string \<Rightarrow> int64 \<Rightarrow> bytes \<Rightarrow> 'e DB \<Rightarrow> unit result \<times> 'e DB" where
  "Tx_MergeOrPut E write coll i patch db =
     (if \<not> write then (Inl ErrReadOnlyTx, db)
      else case ensureCollectionLocked coll db of (col, db) \<Rightarrow>
        (case Tx_Get E coll i db of
           Inl err \<Rightarrow>
             if errorIs err ErrNotFound then
               let col = (if sint (colNextID col) < sint i then col\<lparr>colNextID := i\<rparr> else col)
               in putLocked E col i patch (setCol col db)
             else (Inl err, db)
         | Inr raw \<Rightarrow>
             (case applyMergePatch (envJson E) raw patch of
                Inl e \<Rightarrow> (Inl e, db)
              | Inr newRaw \<Rightarrow> putLocked E col i newRaw db)))"

definition Tx_EnsureIndex :: "'e env \<Rightarrow> bool \<Rightarrow> string \<Rightarrow> string \<Rightarrow> IndexKind \<Rightarrow> bool \<Rightarrow> 'e DB \<Rightarrow> unit result \<times> 'e DB" where
  "Tx_EnsureIndex E write coll path kind unique db =
     (if \<not> write then (Inl ErrReadOnlyTx, db)
      else case ensureIndexLocked E coll path kind unique db of
        (Inl e, db) \<Rightarrow> (Inl e, db)
      | (Inr made, db) \<Rightarrow> (Inr (), if made then markFullDirty db else db))"

definition Tx_EnsureIndexMode :: "'e env \<Rightarrow> bool \<Rightarrow> string \<Rightarrow> string \<Rightarrow> IndexMode \<Rightarrow> 'e DB \<Rightarrow> unit result \<times> 'e DB" where
  "Tx_EnsureIndexMode E write coll path mode db =
     (case indexModeParts mode of
        Inl e \<Rightarrow> (Inl e, db)
      | Inr (kind, unique) \<Rightarrow> Tx_EnsureIndex E write coll path kind unique db)"

definition Tx_RemoveIndex :: "bool \<Rightarrow> string \<Rightarrow> string \<Rightarrow> IndexKind \<Rightarrow> 'e DB \<Rightarrow> unit result \<times> 'e DB" where
  "Tx_RemoveIndex write coll path kind db =
     (if \<not> write then (Inl ErrReadOnlyTx, db)
      else case map_of (collections db) coll of
        None \<Rightarrow> (Inl ErrCollectionAbsent, db)
      | Some col \<Rightarrow>
          let removed = matchingIndexes path kind col in
          if removed = [] then (Inl ErrIndexNotFound, db)
          else (Inr (), markFullDirty (setCol (removeIndexKeys (map fst removed) col) db)))"

definition Tx_RemoveIndexMode :: "bool \<Rightarrow> string \<Rightarrow> string \<Rightarrow> IndexMode \<Rightarrow> 'e DB \<Rightarrow> unit result \<times> 'e DB" where
  "Tx_RemoveIndexMode write coll path mode db =
     (case indexModeParts mode of
        Inl e \<Rightarrow> (Inl e, db)
      | Inr (kind, unique) \<Rightarrow>
          if \<not> write then (Inl ErrReadOnlyTx, db)
          else (case map_of (collections db) coll of
             None \<Rightarrow> (Inr (), db)
           | Some col \<Rightarrow>
               let k = indexKey path kind unique in
               if map_of (colIndexes col) k = None then (Inl ErrIndexNotFound, db)
               else (Inr (), markFullDirty (setCol (removeIndexKeys [k] col) db))))"

end
