(* ===== verification/DbInv.thy ===== *)
theory DbInv
  imports Tx
begin

text \<open>
  The invariant of the store: what a store holds when it agrees with an abstract map from collections
  and ids to documents, that one mutation keeps the agreement, and that committing a chain of pending
  mutations takes the store from the documents before to the documents after.
\<close>

section \<open>Values read from JSON\<close>

lemma jsonValue_tagsOk: "jsonValue v \<Longrightarrow> tagsOk v"
  by (induction v rule: jsonValue.induct) (auto simp: list_all_iff)

lemma readJSON_jsonValue:
  "readJSONAny n s = Some (Inr (v, s')) \<Longrightarrow> jsonValue v \<and> wfv v"
  "readArray n acc s = Some (Inr (v, s')) \<Longrightarrow> jsonValue (VArray acc) \<and> wfv (VArray acc) \<Longrightarrow> jsonValue v \<and> wfv v"
  "readObject n oacc s = Some (Inr (v, s')) \<Longrightarrow> jsonValue (VObject oacc) \<and> wfv (VObject oacc) \<Longrightarrow> jsonValue v \<and> wfv v"
proof (induction n s and n acc s and n oacc s arbitrary: v s' and v s' and v s'
    rule: readJSONAny_readArray_readObject.induct)
  case (4 n acc ts e)
  show ?case
  proof (cases "ts \<noteq> [] \<and> hd ts = TEndArray")
    case True
    then show ?thesis using "4.prems" by auto
  next
    case False
    then obtain w s1 where r: "readJSONAny n (ts, e) = Some (Inr (w, s1))"
      and l: "readArray n (acc @ [w]) s1 = Some (Inr (v, s'))"
      using "4.prems" by (auto split: option.splits sum.splits)
    have "jsonValue w \<and> wfv w" using "4.IH"(1) [OF False r] .
    then show ?thesis using "4.IH"(2) [OF False r refl refl l] "4.prems"(2) by auto
  qed
next
  case (6 n acc ts e)
  show ?case
  proof (cases "ts \<noteq> [] \<and> hd ts = TEndObject")
    case True
    then show ?thesis using "6.prems" by auto
  next
    case False
    then obtain key ts' w s1 where ts: "ts = TString key # ts'"
      and r: "readJSONAny n (ts', e) = Some (Inr (w, s1))"
      and l: "readObject n (objSet key w acc) s1 = Some (Inr (v, s'))"
      using "6.prems" by (auto split: option.splits sum.splits list.splits jtok.splits)
    have w: "jsonValue w \<and> wfv w" using "6.IH"(1) [OF False ts] r by auto
    have "jsonValue (VObject (objSet key w acc))"
      using w "6.prems"(2) set_objSet_subset [of key w acc] by (auto simp: list_all_iff)
    moreover have "wfv (VObject (objSet key w acc))"
      using w "6.prems"(2) by (intro wfv_objSet) simp_all
    ultimately show ?thesis using "6.IH"(2) [OF False ts] r l by auto
  qed
qed (auto split: list.splits jtok.splits)

lemma decodeJSON_value:
  assumes "decodeJSON J raw = Inr v"
  shows "jsonValue v" and "wfv v"
proof -
  have "decodeJSONAny (jsonTokens J raw) = Some (Inr v)"
    using assms decodeJSONAny_returns by (metis decodeJSON_def option.collapse)
  then obtain n s' where "readJSONAny n (jsonTokens J raw) = Some (Inr (v, s'))"
    by (auto simp: decodeJSONAny_def split: option.splits sum.splits list.splits if_splits)
  then show "jsonValue v" and "wfv v" using readJSON_jsonValue(1) by blast+
qed

section \<open>What the store should hold\<close>

definition idxVals :: "'e env \<Rightarrow> indexState \<Rightarrow> gv \<Rightarrow> string list" where
  "idxVals E idx d = valuesForIndex (envLib E) d (idxPath idx) (idxKind idx)"

text \<open>
  What the store returns of a document that was put: numbers come back in the format of the store (\<open>1.0\<close> as \<open>1\<close>). A document the
  invariant is about has a JSON text, and index values that fit the length field of a key.
\<close>

definition storedForm :: "'e env \<Rightarrow> gv \<Rightarrow> gv" where
  "storedForm E p = binnNorm (envLib E) p"

definition docOk :: "'e env \<Rightarrow> gv \<Rightarrow> bool" where
  "docOk E d \<longleftrightarrow> d \<noteq> VNil \<and> (\<exists>raw. decodeJSON (envJson E) raw = Inr d) \<and> (\<forall>idx. \<forall>v \<in> set (idxVals E idx d). length v < 2 ^ 32)"

definition encoded :: "'e env \<Rightarrow> gv \<Rightarrow> bytes" where
  "encoded E d = (case encodeStoredDocument (envLib E) d of Inr raw \<Rightarrow> raw | Inl _ \<Rightarrow> [])"

text \<open>The bytes of the store that are read back as the document, and a document that can be put.\<close>

definition holds :: "'e env \<Rightarrow> bytes \<Rightarrow> gv \<Rightarrow> bool" where
  "holds E raw d \<longleftrightarrow> (\<exists>b. decodeStored E raw = Inr (b, d) \<and> marshalJSON (envJson E) d = Inr b)"

definition putOk :: "'e env \<Rightarrow> gv \<Rightarrow> bool" where
  "putOk E p \<longleftrightarrow> docOk E p \<and> docOk E (storedForm E p)
     \<and> (\<exists>raw. encodeStoredDocument (envLib E) p = Inr raw \<and> holds E raw (storedForm E p))"

text \<open>
  The entries of a document are computed from the document as it was put when it comes in, and from the stored one when it goes.
  An index for which the two differ gets out of step (\<open>db.go:2337\<close>); such an index is among the ids \<open>B\<close> of the relations below, and
  nothing is claimed of its entries.
\<close>

definition stable :: "'e env \<Rightarrow> indexState \<Rightarrow> gv \<Rightarrow> bool" where
  "stable E idx p \<longleftrightarrow> set (idxVals E idx p) = set (idxVals E idx (storedForm E p))"

definition stableAll :: "'e env \<Rightarrow> int64 set \<Rightarrow> collectionState \<Rightarrow> gv \<Rightarrow> bool" where
  "stableAll E B c p \<longleftrightarrow> (\<forall>(k, idx) \<in> set (colIndexes c). idxDBID idx \<notin> B \<longrightarrow> stable E idx p)"

text \<open>
  An index in agreement with the documents of its collection: a plain index has an entry for each value
  of each document and no other, a unique index maps each value to the one document that has it.
\<close>

definition indexRel :: "'e env \<Rightarrow> kv \<Rightarrow> indexState \<Rightarrow> (int64 \<Rightarrow> gv option) \<Rightarrow> bool" where
  "indexRel E m idx docs \<longleftrightarrow>
     (if idxUnique idx then
        \<forall>v. length v < 2 ^ 32 \<longrightarrow>
          (\<forall>i d. docs i = Some d \<and> v \<in> set (idxVals E idx d) \<longrightarrow> m (keyUniqueIndex idx v) = Some (putU64 [] i))
          \<and> ((\<forall>i d. docs i = Some d \<longrightarrow> v \<notin> set (idxVals E idx d)) \<longrightarrow> m (keyUniqueIndex idx v) = None)
      else
        \<forall>v i. length v < 2 ^ 32 \<longrightarrow>
          m (keyIndex idx v i) = (if \<exists>d. docs i = Some d \<and> v \<in> set (idxVals E idx d) then Some [1] else None))"

definition colRel :: "'e env \<Rightarrow> int64 set \<Rightarrow> kv \<Rightarrow> collectionState \<Rightarrow> (int64 \<Rightarrow> gv option) \<Rightarrow> bool" where
  "colRel E B m c docs \<longleftrightarrow>
     (\<forall>i. rel_option (holds E) (m (keyDoc (colDBID c) i)) (docs i))
     \<and> (\<forall>i d. docs i = Some d \<longrightarrow> docOk E d)
     \<and> (\<forall>(k, idx) \<in> set (colIndexes c). idxDBID idx \<notin> B \<longrightarrow> indexRel E m idx docs)"

type_synonym docs = "string \<Rightarrow> int64 \<Rightarrow> gv option"

definition storeRel :: "'e env \<Rightarrow> int64 set \<Rightarrow> kv \<Rightarrow> (string \<times> collectionState) list \<Rightarrow> docs \<Rightarrow> bool" where
  "storeRel E B m cols D \<longleftrightarrow> (\<forall>(n, c) \<in> set cols. colRel E B m c (D n))"

lemma colRelD:
  assumes "colRel E B m c docs"
  shows "rel_option (holds E) (m (keyDoc (colDBID c) i)) (docs i)" and "docs i = Some d \<Longrightarrow> docOk E d"
    and "(k, idx) \<in> set (colIndexes c) \<Longrightarrow> idxDBID idx \<notin> B \<Longrightarrow> indexRel E m idx docs"
  using assms by (auto simp: colRel_def)

lemma colRel_mono: "colRel E B m c docs \<Longrightarrow> B \<subseteq> B' \<Longrightarrow> colRel E B' m c docs"
  unfolding colRel_def by blast

lemma colRel_doc:
  assumes "colRel E B m c docs"
  shows "docs i = Some d \<Longrightarrow> \<exists>raw. m (keyDoc (colDBID c) i) = Some raw \<and> holds E raw d"
    and "m (keyDoc (colDBID c) i) = Some raw \<Longrightarrow> \<exists>d. docs i = Some d \<and> holds E raw d"
    and "m (keyDoc (colDBID c) i) = None \<longleftrightarrow> docs i = None"
  using colRelD(1) [OF assms, of i] by (auto simp: rel_option_iff split: option.splits)

text \<open>The catalog: names and ids identify collections and indexes, and an index is filed under its key.\<close>

definition catIndexes :: "(string \<times> collectionState) list \<Rightarrow> indexState list" where
  "catIndexes cols = concat (map (\<lambda>(n, c). map snd (colIndexes c)) cols)"

definition catOk :: "(string \<times> collectionState) list \<Rightarrow> bool" where
  "catOk cols \<longleftrightarrow> distinct (map fst cols) \<and> (\<forall>(n, c) \<in> set cols. colName c = n)
     \<and> distinct (map (colDBID \<circ> snd) cols) \<and> distinct (map idxDBID (catIndexes cols))
     \<and> (\<forall>(n, c) \<in> set cols. distinct (map fst (colIndexes c))
          \<and> (\<forall>(k, idx) \<in> set (colIndexes c). k = indexKey (idxPath idx) (idxKind idx) (idxUnique idx) \<and> knownKind (idxKind idx)))"

section \<open>Batches of index entries\<close>

definition indexKeysOf :: "'e env \<Rightarrow> collectionState \<Rightarrow> int64 \<Rightarrow> gv \<Rightarrow> bytes list" where
  "indexKeysOf E c i d =
     concat (map (\<lambda>(k, idx). map (\<lambda>val. indexEntryKey idx val i) (idxVals E idx d)) (colIndexes c))"

definition entryVal :: "int64 \<Rightarrow> bytes \<Rightarrow> bytes" where
  "entryVal i K = (if hd K = keyTagUIdx then putU64 [] i else [1])"

lemma entryVal_indexEntry: "entryVal i (indexEntryKey idx val j) = indexEntryValue idx i"
  by (simp add: entryVal_def indexEntryKey_def indexEntryValue_def keyTag_defs)

lemma applyBatch_deletes: "applyBatch (map BDelete ks) m K = (if K \<in> set ks then None else m K)"
  by (induction ks arbitrary: m) auto

lemma applyBatch_sets: "applyBatch (map (\<lambda>k. BSet k (f k)) ks) m K = (if K \<in> set ks then Some (f K) else m K)"
  by (induction ks arbitrary: m) auto

lemma setIndexKeys_eq:
  assumes "raw \<noteq> []" and "d \<noteq> VNil"
  shows "setIndexKeys E (Some c) i raw d = Inr (map (\<lambda>k. BSet k (entryVal i k)) (indexKeysOf E c i d))"
  using assms
  by (simp add: setIndexKeys_def mutationDoc_def indexKeysOf_def map_concat comp_def case_prod_beta'
      entryVal_indexEntry idxVals_def)

lemma deleteIndexKeys_eq:
  assumes "raw \<noteq> []" and "d \<noteq> VNil"
  shows "deleteIndexKeys E (Some c) i raw d = Inr (map BDelete (indexKeysOf E c i d))"
  using assms
  by (simp add: deleteIndexKeys_def mutationDoc_def indexKeysOf_def map_concat comp_def case_prod_beta' idxVals_def)

lemma hd_indexEntryKey: "hd (indexEntryKey idx v i) = (if idxUnique idx then keyTagUIdx else keyTagIdx)"
  by (simp add: indexEntryKey_def)

lemma indexKeysOf_other [simp]:
  "keyDoc x j \<notin> set (indexKeysOf E c i d)" "keySeq x \<notin> set (indexKeysOf E c i d)"
  "keyMetaState \<notin> set (indexKeysOf E c i d)"
  by (auto simp: indexKeysOf_def indexEntryKey_def)

lemma distinct_concat_block:
  "distinct (concat (map f xs)) \<Longrightarrow> x \<in> set xs \<Longrightarrow> y \<in> set xs \<Longrightarrow> z \<in> set (f x) \<Longrightarrow> z \<in> set (f y) \<Longrightarrow> x = y"
  by (induction xs) auto

lemma catIndexes_unique:
  assumes "catOk cols" and "(n, c) \<in> set cols" and "(n', c') \<in> set cols"
    and "(k, idx) \<in> set (colIndexes c)" and "(k', idx') \<in> set (colIndexes c')" and "idxDBID idx = idxDBID idx'"
  shows "n = n' \<and> c = c' \<and> idx = idx'"
proof -
  have d: "distinct (map idxDBID (catIndexes cols))" using assms(1) by (simp add: catOk_def)
  let ?f = "\<lambda>(n, c). map (idxDBID \<circ> snd) (colIndexes c)"
  have "distinct (concat (map ?f cols))"
    using d by (simp add: catIndexes_def map_concat comp_def case_prod_beta')
  moreover have "idxDBID idx \<in> set (?f (n, c))" "idxDBID idx \<in> set (?f (n', c'))"
    using assms(4-6) by force+
  ultimately have "(n, c) = (n', c')" using distinct_concat_block assms(2,3) by metis
  moreover have "idx \<in> set (catIndexes cols)" "idx' \<in> set (catIndexes cols)"
    using assms(2-5) by (force simp: catIndexes_def)+
  then have "idx = idx'" using d assms(6) by (auto simp: distinct_map dest: inj_onD)
  ultimately show ?thesis by simp
qed

lemma keyIndex_in_indexKeysOf:
  assumes "catOk cols" and "(n, c) \<in> set cols" and "(n', c') \<in> set cols" and "(k, idx) \<in> set (colIndexes c')"
    and "\<not> idxUnique idx" and "length v < 2 ^ 32" and "docOk E d"
  shows "keyIndex idx v j \<in> set (indexKeysOf E c i d) \<longleftrightarrow> n = n' \<and> j = i \<and> v \<in> set (idxVals E idx d)"
proof
  assume "keyIndex idx v j \<in> set (indexKeysOf E c i d)"
  then obtain k2 idx2 v2 where i2: "(k2, idx2) \<in> set (colIndexes c)" "v2 \<in> set (idxVals E idx2 d)"
    "keyIndex idx v j = indexEntryKey idx2 v2 i"
    by (auto simp: indexKeysOf_def)
  then have u: "\<not> idxUnique idx2" by (auto simp: indexEntryKey_def split: if_splits)
  have "length v2 < 2 ^ 32" using i2(2) assms(7) by (auto simp: docOk_def)
  then have e: "idxDBID idx = idxDBID idx2" "v = v2" "j = i"
    using keyIndex_inject [OF assms(6)] i2(3) u by (simp_all add: indexEntryKey_def)
  then have "n = n'" "idx = idx2" using catIndexes_unique [OF assms(1,2,3) i2(1) assms(4)] by auto
  then show "n = n' \<and> j = i \<and> v \<in> set (idxVals E idx d)" using e i2(2) by simp
next
  assume r: "n = n' \<and> j = i \<and> v \<in> set (idxVals E idx d)"
  then have "c = c'" using assms(1-3) by (auto simp: catOk_def dest: eq_key_imp_eq_value)
  then show "keyIndex idx v j \<in> set (indexKeysOf E c i d)"
    using r assms(4,5) by (force simp: indexKeysOf_def indexEntryKey_def)
qed

lemma keyUniqueIndex_in_indexKeysOf:
  assumes "catOk cols" and "(n, c) \<in> set cols" and "(n', c') \<in> set cols" and "(k, idx) \<in> set (colIndexes c')"
    and "idxUnique idx" and "length v < 2 ^ 32" and "docOk E d"
  shows "keyUniqueIndex idx v \<in> set (indexKeysOf E c i d) \<longleftrightarrow> n = n' \<and> v \<in> set (idxVals E idx d)"
proof
  assume "keyUniqueIndex idx v \<in> set (indexKeysOf E c i d)"
  then obtain k2 idx2 v2 where i2: "(k2, idx2) \<in> set (colIndexes c)" "v2 \<in> set (idxVals E idx2 d)"
    "keyUniqueIndex idx v = indexEntryKey idx2 v2 i"
    by (auto simp: indexKeysOf_def)
  then have u: "idxUnique idx2" by (auto simp: indexEntryKey_def split: if_splits)
  have "length v2 < 2 ^ 32" using i2(2) assms(7) by (auto simp: docOk_def)
  then have e: "idxDBID idx = idxDBID idx2" "v = v2"
    using keyUniqueIndex_inject [OF assms(6)] i2(3) u by (simp_all add: indexEntryKey_def)
  then have "n = n'" "idx = idx2" using catIndexes_unique [OF assms(1,2,3) i2(1) assms(4)] by auto
  then show "n = n' \<and> v \<in> set (idxVals E idx d)" using e i2(2) by simp
next
  assume r: "n = n' \<and> v \<in> set (idxVals E idx d)"
  then have "c = c'" using assms(1-3) by (auto simp: catOk_def dest: eq_key_imp_eq_value)
  then show "keyUniqueIndex idx v \<in> set (indexKeysOf E c i d)"
    using r assms(4,5) by (force simp: indexKeysOf_def indexEntryKey_def)
qed

section \<open>One mutation\<close>

text \<open>The store after the writes of a mutation: the old entries go, then the document and the new entries come.\<close>

definition mutated :: "'e env \<Rightarrow> collectionState \<Rightarrow> int64 \<Rightarrow> gv option \<Rightarrow> gv option \<Rightarrow> bytes \<Rightarrow> kv \<Rightarrow> kv" where
  "mutated E c i old new raw m = (\<lambda>K.
     if \<exists>d. new = Some d \<and> K \<in> set (indexKeysOf E c i d) then Some (entryVal i K)
     else if K = keyDoc (colDBID c) i then (if new = None then None else Some raw)
     else if \<exists>d. old = Some d \<and> K \<in> set (indexKeysOf E c i d) then None
     else m K)"

definition noConflict :: "'e env \<Rightarrow> int64 set \<Rightarrow> collectionState \<Rightarrow> int64 \<Rightarrow> gv \<Rightarrow> (int64 \<Rightarrow> gv option) \<Rightarrow> bool" where
  "noConflict E B c i d docs \<longleftrightarrow>
     (\<forall>(k, idx) \<in> set (colIndexes c). idxUnique idx \<and> idxDBID idx \<notin> B \<longrightarrow>
        (\<forall>j d'. j \<noteq> i \<longrightarrow> docs j = Some d' \<longrightarrow> set (idxVals E idx d') \<inter> set (idxVals E idx d) = {}))"

lemma noConflictD:
  "noConflict E B c i d docs \<Longrightarrow> (k, idx) \<in> set (colIndexes c) \<Longrightarrow> idxUnique idx \<Longrightarrow> idxDBID idx \<notin> B \<Longrightarrow> j \<noteq> i \<Longrightarrow>
    docs j = Some d' \<Longrightarrow> set (idxVals E idx d') \<inter> set (idxVals E idx d) = {}"
  by (fastforce simp: noConflict_def)

lemma putU64_inject [simp]: "putU64 [] i = putU64 [] j \<longleftrightarrow> i = j"
  by (metis parseU64_putU64 sum.inject(2))

lemma mutated_index:
  assumes "catOk cols" and "(n, c) \<in> set cols" and "(n', c') \<in> set cols" and "(k, idx) \<in> set (colIndexes c')"
    and rel: "indexRel E m idx (D n')" and old: "D n i = old" and oldOk: "\<And>d. old = Some d \<Longrightarrow> docOk E d"
    and newOk: "\<And>d. new = Some d \<Longrightarrow> docOk E d"
    and good: "idxDBID idx \<notin> B" and conf: "\<And>d. new = Some d \<Longrightarrow> noConflict E B c i d (D n)"
  shows "indexRel E (mutated E c i old new raw m) idx ((D(n := (D n)(i := new))) n')"
proof (cases "idxUnique idx")
  case False
  have "mutated E c i old new raw m (keyIndex idx v j) =
      (if \<exists>d. (D(n := (D n)(i := new))) n' j = Some d \<and> v \<in> set (idxVals E idx d) then Some [1] else None)"
    if "length v < 2 ^ 32" for v j
  proof -
    have in_new: "(\<exists>d. new = Some d \<and> keyIndex idx v j \<in> set (indexKeysOf E c i d))
        \<longleftrightarrow> n = n' \<and> j = i \<and> (\<exists>d. new = Some d \<and> v \<in> set (idxVals E idx d))"
      using keyIndex_in_indexKeysOf [OF assms(1-4) False that newOk] by blast
    have in_old: "(\<exists>d. old = Some d \<and> keyIndex idx v j \<in> set (indexKeysOf E c i d))
        \<longleftrightarrow> n = n' \<and> j = i \<and> (\<exists>d. old = Some d \<and> v \<in> set (idxVals E idx d))"
      using keyIndex_in_indexKeysOf [OF assms(1-4) False that oldOk] by blast
    have "m (keyIndex idx v j) = (if \<exists>d. D n' j = Some d \<and> v \<in> set (idxVals E idx d) then Some [1] else None)"
      using rel that False by (simp add: indexRel_def)
    moreover have "entryVal i (keyIndex idx v j) = [1]" by (simp add: entryVal_def keyTag_defs)
    ultimately show ?thesis
      unfolding mutated_def in_new in_old using old by auto
  qed
  then show ?thesis using False by (simp add: indexRel_def)
next
  case True
  let ?K = "\<lambda>v. keyUniqueIndex idx v"
  let ?D = "(D(n := (D n)(i := new))) n'"
  have rel': "(\<forall>j d. D n' j = Some d \<and> v \<in> set (idxVals E idx d) \<longrightarrow> m (?K v) = Some (putU64 [] j))
      \<and> ((\<forall>j d. D n' j = Some d \<longrightarrow> v \<notin> set (idxVals E idx d)) \<longrightarrow> m (?K v) = None)"
    if "length v < 2 ^ 32" for v
    using rel that True unfolding indexRel_def by (simp only: if_True) blast
  have "(\<forall>j d. ?D j = Some d \<and> v \<in> set (idxVals E idx d) \<longrightarrow> mutated E c i old new raw m (?K v) = Some (putU64 [] j))
      \<and> ((\<forall>j d. ?D j = Some d \<longrightarrow> v \<notin> set (idxVals E idx d)) \<longrightarrow> mutated E c i old new raw m (?K v) = None)"
    if len: "length v < 2 ^ 32" for v
  proof -
    have in_new: "(\<exists>d. new = Some d \<and> ?K v \<in> set (indexKeysOf E c i d))
        \<longleftrightarrow> n = n' \<and> (\<exists>d. new = Some d \<and> v \<in> set (idxVals E idx d))"
      using keyUniqueIndex_in_indexKeysOf [OF assms(1-4) True len newOk] by blast
    have in_old: "(\<exists>d. old = Some d \<and> ?K v \<in> set (indexKeysOf E c i d))
        \<longleftrightarrow> n = n' \<and> (\<exists>d. old = Some d \<and> v \<in> set (idxVals E idx d))"
      using keyUniqueIndex_in_indexKeysOf [OF assms(1-4) True len oldOk] by blast
    have val: "entryVal i (?K v) = putU64 [] i" by (simp add: entryVal_def)
    have mut: "mutated E c i old new raw m (?K v) =
        (if n = n' \<and> (\<exists>d. new = Some d \<and> v \<in> set (idxVals E idx d)) then Some (putU64 [] i)
         else if n = n' \<and> (\<exists>d. old = Some d \<and> v \<in> set (idxVals E idx d)) then None else m (?K v))"
      unfolding mutated_def in_new in_old by (auto simp: val)
    note rv = rel' [OF len]
    show ?thesis
    proof (cases "n = n'")
      case False
      then show ?thesis using rv by (simp add: mut)
    next
      case n: True
      have c: "c = c'" using n assms(1-3) by (auto simp: catOk_def dest: eq_key_imp_eq_value)
      have alone: "j = i" if "new = Some d" "v \<in> set (idxVals E idx d)" "D n j = Some d'" "v \<in> set (idxVals E idx d')" for d j d'
        using conf [OF that(1)] that(2-4) assms(4) True c good by (fastforce simp: noConflict_def)
      have one: "j = i" if "old = Some d" "v \<in> set (idxVals E idx d)" "D n j = Some d'" "v \<in> set (idxVals E idx d')" for d j d'
        using rv that old n by (metis option.inject putU64_inject)
      have other: "?D j = (if j = i then new else D n j)" for j using n by simp
      consider (new) "\<exists>d. new = Some d \<and> v \<in> set (idxVals E idx d)"
        | (old) "\<nexists>d. new = Some d \<and> v \<in> set (idxVals E idx d)" "\<exists>d. old = Some d \<and> v \<in> set (idxVals E idx d)"
        | (none) "\<nexists>d. new = Some d \<and> v \<in> set (idxVals E idx d)" "\<nexists>d. old = Some d \<and> v \<in> set (idxVals E idx d)"
        by blast
      then show ?thesis
      proof cases
        case new
        then show ?thesis unfolding mut other using n alone by (simp split: if_splits) metis
      next
        case old
        then show ?thesis unfolding mut other using n one by (simp split: if_splits) metis
      next
        case none
        then show ?thesis unfolding mut other using n rv assms(6) by (simp split: if_splits) metis
      qed
    qed
  qed
  then show ?thesis using True unfolding indexRel_def by (simp only: if_True) blast
qed

lemma catOk_same:
  assumes "catOk cols" and "(n, c) \<in> set cols" and "(n', c') \<in> set cols"
  shows "colDBID c = colDBID c' \<longleftrightarrow> n = n'" and "n = n' \<Longrightarrow> c = c'"
proof -
  have "distinct (map (colDBID \<circ> snd) cols)" "distinct (map fst cols)" using assms(1) by (simp_all add: catOk_def)
  then show "colDBID c = colDBID c' \<longleftrightarrow> n = n'" "n = n' \<Longrightarrow> c = c'"
    using assms(2,3) by (auto simp: distinct_map dest!: inj_onD [where x = "(n, c)" and y = "(n', c')"] dest: eq_key_imp_eq_value)
qed

text \<open>
  The keys of an index see only the values of the documents: two pairs of documents with the same values at the index make the same
  change to its entries.
\<close>

definition valsOf :: "'e env \<Rightarrow> indexState \<Rightarrow> gv option \<Rightarrow> string set" where
  "valsOf E idx doc = (case doc of None \<Rightarrow> {} | Some d \<Rightarrow> set (idxVals E idx d))"

lemma mutated_vals:
  assumes "catOk cols" and "(n, c) \<in> set cols" and "(n', c') \<in> set cols" and "(k, idx) \<in> set (colIndexes c')"
    and ok: "\<And>x d. x \<in> {old, old', new, new'} \<Longrightarrow> x = Some d \<Longrightarrow> docOk E d"
    and same: "n = n' \<Longrightarrow> valsOf E idx old = valsOf E idx old'" "n = n' \<Longrightarrow> valsOf E idx new = valsOf E idx new'"
    and rel: "indexRel E (mutated E c i old' new' raw m) idx docs"
  shows "indexRel E (mutated E c i old new raw m) idx docs"
proof -
  have plain: "(\<exists>d. x = Some d \<and> keyIndex idx v j \<in> set (indexKeysOf E c i d)) \<longleftrightarrow> n = n' \<and> j = i \<and> v \<in> valsOf E idx x"
    if "\<not> idxUnique idx" "length v < 2 ^ 32" "x \<in> {old, old', new, new'}" for x v j
    using keyIndex_in_indexKeysOf [OF assms(1-4) that(1,2) ok [OF that(3)]] by (auto simp: valsOf_def split: option.splits)
  have unique: "(\<exists>d. x = Some d \<and> keyUniqueIndex idx v \<in> set (indexKeysOf E c i d)) \<longleftrightarrow> n = n' \<and> v \<in> valsOf E idx x"
    if "idxUnique idx" "length v < 2 ^ 32" "x \<in> {old, old', new, new'}" for x v
    using keyUniqueIndex_in_indexKeysOf [OF assms(1-4) that(1,2) ok [OF that(3)]] by (auto simp: valsOf_def split: option.splits)
  have "mutated E c i old new raw m (keyIndex idx v j) = mutated E c i old' new' raw m (keyIndex idx v j)"
    if "\<not> idxUnique idx" "length v < 2 ^ 32" for v j
    unfolding mutated_def by (simp only: plain [OF that] insertI1 insertI2) (use same in auto)
  moreover have "mutated E c i old new raw m (keyUniqueIndex idx v) = mutated E c i old' new' raw m (keyUniqueIndex idx v)"
    if "idxUnique idx" "length v < 2 ^ 32" for v
    unfolding mutated_def by (simp only: unique [OF that] insertI1 insertI2) (use same in auto)
  ultimately show ?thesis using rel by (auto simp: indexRel_def)
qed

lemma storeRel_docOk: "storeRel E B m cols D \<Longrightarrow> (n, c) \<in> set cols \<Longrightarrow> D n i = Some d \<Longrightarrow> docOk E d"
  by (fastforce simp: storeRel_def colRel_def)

text \<open>
  \<open>old\<close> and \<open>new\<close> are the document of the mutation before and after as the caller knows them, \<open>D n i\<close> and \<open>new'\<close> as the store has them.
\<close>

lemma mutated_storeRel:
  assumes "catOk cols" and "(n, c) \<in> set cols" and rel: "storeRel E B m cols D"
    and oldOk: "\<And>d. old = Some d \<Longrightarrow> docOk E d" and newOk: "\<And>d. new = Some d \<Longrightarrow> docOk E d" "\<And>d. new' = Some d \<Longrightarrow> docOk E d"
    and new: "rel_option (\<lambda>d d'. holds E raw d') new new'"
    and same: "\<And>k idx. (k, idx) \<in> set (colIndexes c) \<Longrightarrow> idxDBID idx \<notin> B \<Longrightarrow>
      valsOf E idx old = valsOf E idx (D n i) \<and> valsOf E idx new = valsOf E idx new'"
    and conf: "\<And>d. new' = Some d \<Longrightarrow> noConflict E B c i d (D n)"
  shows "storeRel E B (mutated E c i old new raw m) cols (D(n := (D n)(i := new')))"
  unfolding storeRel_def
proof clarify
  fix n' c'
  assume mem: "(n', c') \<in> set cols"
  let ?m = "mutated E c i old new raw m" and ?D = "(D(n := (D n)(i := new'))) n'"
  have c': "colRel E B m c' (D n')" using rel mem by (auto simp: storeRel_def)
  note same_id = catOk_same [OF assms(1,2) mem]
  have "rel_option (holds E) (?m (keyDoc (colDBID c') j)) (?D j)" for j
  proof (cases "n = n' \<and> j = i")
    case True
    then have "?m (keyDoc (colDBID c') j) = (if new = None then None else Some raw)" using same_id(2) by (simp add: mutated_def)
    then show ?thesis using new True by (cases new; cases new') simp_all
  next
    case False
    then have "?m (keyDoc (colDBID c') j) = m (keyDoc (colDBID c') j)" using same_id(1) by (auto simp: mutated_def)
    then show ?thesis using colRelD(1) [OF c', of j] False by auto
  qed
  moreover have "docOk E d" if "?D j = Some d" for j d
    using that newOk(2) colRelD(2) [OF c'] by (auto split: if_splits)
  moreover have "indexRel E ?m idx ?D" if idx: "(k, idx) \<in> set (colIndexes c')" "idxDBID idx \<notin> B" for k idx
  proof (rule mutated_vals [OF assms(1,2) mem idx(1)])
    show "docOk E d" if "x \<in> {old, D n i, new, new'}" "x = Some d" for x d
      using that oldOk newOk storeRel_docOk [OF rel assms(2)] by auto
    show "valsOf E idx old = valsOf E idx (D n i)" "valsOf E idx new = valsOf E idx new'" if "n = n'"
      using same same_id(2) that idx by auto
    show "indexRel E (mutated E c i (D n i) new' raw m) idx ?D"
    proof (rule mutated_index [where D = D and n = n and i = i and B = B, OF assms(1,2) mem idx(1) _ refl _ newOk(2) idx(2) conf])
      show "indexRel E m idx (D n')" using colRelD(3) [OF c' idx] .
      show "docOk E d" if "D n i = Some d" for d using storeRel_docOk [OF rel assms(2) that] .
    qed
  qed
  ultimately show "colRel E B ?m c' ?D" unfolding colRel_def by blast
qed

section \<open>Pending mutations\<close>

text \<open>
  The documents after a mutation as the caller sees them, and as the store has them once it is committed; and the mutations the
  operations record.
\<close>

definition applyMut :: "storageMutation \<Rightarrow> docs \<Rightarrow> docs" where
  "applyMut mu D = D(mCollection mu := (D (mCollection mu))
     (mId mu := (if mKind mu = mutationPut then Some (mNewDoc mu) else None)))"

definition applyStored :: "'e env \<Rightarrow> storageMutation \<Rightarrow> docs \<Rightarrow> docs" where
  "applyStored E mu D = D(mCollection mu := (D (mCollection mu))
     (mId mu := (if mKind mu = mutationPut then Some (storedForm E (mNewDoc mu)) else None)))"

definition settled :: "'e env \<Rightarrow> storageMutation list \<Rightarrow> docs \<Rightarrow> docs" where
  "settled E ms D = fold (applyStored E) ms D"

lemma settled_simps [simp]:
  "settled E [] D = D" "settled E (mu # ms) D = settled E ms (applyStored E mu D)"
  "settled E (ms @ [mu]) D = applyStored E mu (settled E ms D)"
  by (simp_all add: settled_def)

definition mutOk :: "'e env \<Rightarrow> int64 set \<Rightarrow> (string \<times> collectionState) list \<Rightarrow> docs \<Rightarrow> storageMutation \<Rightarrow> bool" where
  "mutOk E B cols D mu \<longleftrightarrow>
     (case map_of cols (mCollection mu) of
        None \<Rightarrow> False
      | Some c \<Rightarrow>
          (case D (mCollection mu) (mId mu) of
             None \<Rightarrow> mKind mu = mutationPut \<and> mOldRaw mu = []
           | Some d \<Rightarrow> mOldDoc mu = d \<and> mOldRaw mu \<noteq> [])
          \<and> (mKind mu = mutationPut \<longrightarrow>
               mNewRaw mu \<noteq> [] \<and> marshalJSON (envJson E) (mNewDoc mu) = Inr (mNewRaw mu) \<and> putOk E (mNewDoc mu)
               \<and> stableAll E B c (mNewDoc mu) \<and> noConflict E B c (mId mu) (mNewDoc mu) (D (mCollection mu))))"

fun chain :: "'e env \<Rightarrow> int64 set \<Rightarrow> (string \<times> collectionState) list \<Rightarrow> docs \<Rightarrow> storageMutation list \<Rightarrow> docs \<Rightarrow> bool" where
  "chain E B cols D [] D' \<longleftrightarrow> D' = D"
| "chain E B cols D (mu # ms) D' \<longleftrightarrow> mutOk E B cols D mu \<and> chain E B cols (applyMut mu D) ms D'"

lemma docOk_not_nil: "docOk E d \<Longrightarrow> d \<noteq> VNil"
  by (auto simp: docOk_def)

lemma encoded_eq: "encodeStoredDocument (envLib E) d = Inr raw \<Longrightarrow> encoded E d = raw"
  by (simp add: encoded_def)

lemma keySeq_untouched:
  "storeRel E B (m(keySeq x := y)) cols D = storeRel E B m cols D"
  "storeRel E B (m(keyMetaState := y)) cols D = storeRel E B m cols D"
  by (simp_all add: storeRel_def colRel_def indexRel_def)

lemma mutationOps_mutated:
  assumes "mutOk E B cols D mu" and "mutationOps E cols mu = Inr ops"
    and dOk: "\<forall>d. D (mCollection mu) (mId mu) = Some d \<longrightarrow> docOk E d"
    and c: "map_of cols (mCollection mu) = Some c"
  shows "applyBatch ops m = mutated E c (mId mu) (D (mCollection mu) (mId mu))
     (if mKind mu = mutationPut then Some (mNewDoc mu) else None) (encoded E (mNewDoc mu)) (m(keySeq (colDBID c) \<mapsto> putU64 [] (colNextID c)))"
proof -
  let ?old = "D (mCollection mu) (mId mu)"
  define dels where "dels = (case ?old of None \<Rightarrow> [] | Some d \<Rightarrow> indexKeysOf E c (mId mu) d)"
  have del: "(if mOldRaw mu \<noteq> [] then deleteIndexKeys E (Some c) (mId mu) (mOldRaw mu) (mOldDoc mu) else Inr []) = Inr (map BDelete dels)"
    using assms(1) c dOk by (auto simp: mutOk_def dels_def deleteIndexKeys_eq docOk_not_nil split: option.splits)
  show ?thesis
  proof (cases "mKind mu")
    case mutationPut
    then have new: "mNewRaw mu \<noteq> []" "putOk E (mNewDoc mu)" using assms(1) c by (auto simp: mutOk_def)
    then have dn: "docOk E (mNewDoc mu)" by (simp add: putOk_def)
    obtain stored where st: "encodeStoredDocument (envLib E) (mNewDoc mu) = Inr stored"
      using new(2) by (auto simp: putOk_def)
    have ops: "ops = [BSet (keySeq (colDBID c)) (putU64 [] (colNextID c))] @ map BDelete dels
        @ [BSet (keyDoc (colDBID c) (mId mu)) stored]
        @ map (\<lambda>k. BSet k (entryVal (mId mu) k)) (indexKeysOf E c (mId mu) (mNewDoc mu))"
      using assms(2) mutationPut c new(1) dn st
      by (simp add: mutationOps_def del encodeStoredDoc_def docOk_not_nil setIndexKeys_eq)
    show ?thesis unfolding ops
      using mutationPut encoded_eq [OF st]
      by (auto simp: applyBatch_deletes applyBatch_sets mutated_def fun_eq_iff dels_def split: option.splits)
  next
    case mutationDelete
    then obtain d where d: "?old = Some d" "mOldDoc mu = d" "mOldRaw mu \<noteq> []"
      using assms(1) c by (auto simp: mutOk_def split: option.splits)
    have ops: "ops = [BSet (keySeq (colDBID c)) (putU64 [] (colNextID c))] @ map BDelete dels
        @ [BDelete (keyDoc (colDBID c) (mId mu))]"
      using assms(2) mutationDelete c del d(3) by (simp add: mutationOps_def)
    show ?thesis unfolding ops
      using mutationDelete d
      by (auto simp: applyBatch_deletes mutated_def fun_eq_iff dels_def)
  qed
qed

text \<open>
  What the caller sees and what the store will have: the same documents up to their form, with the same values at every index outside \<open>B\<close>.
\<close>

definition settles :: "'e env \<Rightarrow> int64 set \<Rightarrow> (string \<times> collectionState) list \<Rightarrow> docs \<Rightarrow> docs \<Rightarrow> bool" where
  "settles E B cols V W \<longleftrightarrow> (\<forall>n c i. map_of cols n = Some c \<longrightarrow>
     rel_option (\<lambda>p d. docOk E p \<and> docOk E d \<and> (\<forall>(k, idx) \<in> set (colIndexes c). idxDBID idx \<notin> B \<longrightarrow>
        set (idxVals E idx p) = set (idxVals E idx d))) (V n i) (W n i))"

lemma settles_refl: "storeRel E B m cols D \<Longrightarrow> settles E B cols D D"
  unfolding settles_def rel_option_iff
  by (auto split: option.splits dest!: map_of_SomeD dest: storeRel_docOk)

lemma settlesD:
  assumes "settles E B cols V W" and "map_of cols n = Some c"
  shows "V n i = None \<longleftrightarrow> W n i = None" and "V n i = Some p \<Longrightarrow> docOk E p" and "W n i = Some d \<Longrightarrow> docOk E d"
    and "(k, idx) \<in> set (colIndexes c) \<Longrightarrow> idxDBID idx \<notin> B \<Longrightarrow> valsOf E idx (V n i) = valsOf E idx (W n i)"
proof -
  have r: "rel_option (\<lambda>p d. docOk E p \<and> docOk E d \<and> (\<forall>(k, idx) \<in> set (colIndexes c). idxDBID idx \<notin> B \<longrightarrow>
        set (idxVals E idx p) = set (idxVals E idx d))) (V n i) (W n i)" for i
    using assms by (auto simp: settles_def)
  show "V n i = None \<longleftrightarrow> W n i = None" "V n i = Some p \<Longrightarrow> docOk E p" "W n i = Some d \<Longrightarrow> docOk E d"
    using r [of i] by (auto simp: rel_option_iff split: option.splits)
  show "valsOf E idx (V n i) = valsOf E idx (W n i)" if "(k, idx) \<in> set (colIndexes c)" "idxDBID idx \<notin> B"
    using r [of i] bspec [OF _ that(1)] that(2) by (fastforce simp: rel_option_iff valsOf_def split: option.splits)
qed

lemma settles_step:
  assumes "settles E B cols V W" and "mutOk E B cols V mu"
  shows "settles E B cols (applyMut mu V) (applyStored E mu W)"
  unfolding settles_def
proof (intro allI impI)
  fix n c i
  assume c: "map_of cols n = Some c"
  show "rel_option (\<lambda>p d. docOk E p \<and> docOk E d \<and> (\<forall>(k, idx) \<in> set (colIndexes c). idxDBID idx \<notin> B \<longrightarrow>
        set (idxVals E idx p) = set (idxVals E idx d))) (applyMut mu V n i) (applyStored E mu W n i)"
  proof (cases "n = mCollection mu \<and> i = mId mu")
    case True
    then show ?thesis using assms(2) c
      by (auto simp: applyMut_def applyStored_def mutOk_def putOk_def stableAll_def stable_def)
  next
    case False
    then have "applyMut mu V n i = V n i" "applyStored E mu W n i = W n i" by (auto simp: applyMut_def applyStored_def)
    then show ?thesis using assms(1) c by (simp add: settles_def)
  qed
qed

lemma chain_settles: "chain E B cols V ms V' \<Longrightarrow> settles E B cols V W \<Longrightarrow> settles E B cols V' (settled E ms W)"
  by (induction ms arbitrary: V W) (auto dest: settles_step)

text \<open>Committing a chain of mutations takes a store of the documents before to one of the documents after.\<close>

lemma commit_chain:
  assumes "catOk cols" and "storeRel E B m cols W" and "settles E B cols V W" and "chain E B cols V ms V'" and "pendingOps E cols ms = Inr ops"
  shows "storeRel E B (applyBatch ops m) cols (settled E ms W)"
  using assms(2-)
proof (induction ms arbitrary: m V W ops)
  case (Cons mu ms)
  from Cons.prems(4) obtain o1 o2 where o: "mutationOps E cols mu = Inr o1" "pendingOps E cols ms = Inr o2" "ops = o1 @ o2"
    by (auto split: sum.splits)
  have ok: "mutOk E B cols V mu" and ch: "chain E B cols (applyMut mu V) ms V'" using Cons.prems(3) by simp_all
  then obtain c where c: "map_of cols (mCollection mu) = Some c" by (auto simp: mutOk_def split: option.splits)
  have mem: "(mCollection mu, c) \<in> set cols" using c by (rule map_of_SomeD)
  note sd = settlesD [OF Cons.prems(2) c]
  let ?new = "if mKind mu = mutationPut then Some (mNewDoc mu) else None"
    and ?new' = "if mKind mu = mutationPut then Some (storedForm E (mNewDoc mu)) else None"
  have vOk: "\<forall>d. V (mCollection mu) (mId mu) = Some d \<longrightarrow> docOk E d" using sd(2) by blast
  note mut = mutationOps_mutated [OF ok o(1) vOk c]
  have put: "putOk E (mNewDoc mu)" "stableAll E B c (mNewDoc mu)" "noConflict E B c (mId mu) (mNewDoc mu) (V (mCollection mu))"
    if "mKind mu = mutationPut" using ok c that by (auto simp: mutOk_def)
  have "storeRel E B (m(keySeq (colDBID c) \<mapsto> putU64 [] (colNextID c))) cols W"
    using Cons.prems(1) by (simp only: keySeq_untouched)
  then have "storeRel E B (applyBatch o1 m) cols (applyStored E mu W)"
    unfolding applyStored_def mut
  proof (rule mutated_storeRel [OF assms(1) mem])
    show "rel_option (\<lambda>d d'. holds E (encoded E (mNewDoc mu)) d') ?new ?new'"
      using put(1) by (auto simp: putOk_def encoded_eq)
    show "valsOf E idx (V (mCollection mu) (mId mu)) = valsOf E idx (W (mCollection mu) (mId mu)) \<and> valsOf E idx ?new = valsOf E idx ?new'"
      if "(k, idx) \<in> set (colIndexes c)" "idxDBID idx \<notin> B" for k idx
    proof -
      have "stable E idx (mNewDoc mu)" if "mKind mu = mutationPut"
        using put(2) [OF that] bspec [OF _ \<open>(k, idx) \<in> set (colIndexes c)\<close>] \<open>idxDBID idx \<notin> B\<close> by (auto simp: stableAll_def)
      then show ?thesis using sd(4) [OF that] by (simp add: valsOf_def stable_def)
    qed
    show "noConflict E B c (mId mu) d (W (mCollection mu))" if d: "?new' = Some d" for d
      unfolding noConflict_def
    proof clarify
      fix k idx j d' v
      assume idx: "(k, idx) \<in> set (colIndexes c)" "idxUnique idx" "idxDBID idx \<notin> B"
        and j: "j \<noteq> mId mu" "W (mCollection mu) j = Some d'"
      obtain p where p: "V (mCollection mu) j = Some p" using sd(1) [of j] j(2) by auto
      have "set (idxVals E idx p) = set (idxVals E idx d')" using sd(4) [OF idx(1,3), of j] p j(2) by (simp add: valsOf_def)
      moreover have k: "mKind mu = mutationPut" "d = storedForm E (mNewDoc mu)" using d by (auto split: if_splits)
      moreover have "set (idxVals E idx d) = set (idxVals E idx (mNewDoc mu))"
        using put(2) k idx by (fastforce simp: stableAll_def stable_def)
      moreover have "set (idxVals E idx p) \<inter> set (idxVals E idx (mNewDoc mu)) = {}"
        using noConflictD [OF put(3) [OF k(1)] idx j(1) p] .
      ultimately show "set (idxVals E idx d') \<inter> set (idxVals E idx d) = {}" by simp
    qed
  qed (use put(1) vOk in \<open>auto simp: putOk_def split: if_splits\<close>)
  from Cons.IH [OF this settles_step [OF Cons.prems(2) ok] ch o(2)] show ?case by (simp add: o(3))
qed simp

end
