(* ===== verification/Pending.thy ===== *)
theory Pending
  imports DbInv
begin

text \<open>
  The pending mutations of a database object: what they leave of each document, that the invariant does
  not depend on counters, that identifiers are not reused, and, in the environment the operations rely
  on, that reads return what the abstract map says and that a passed check of the unique constraints
  rules out a conflict.
\<close>

section \<open>Counters do not matter\<close>

text \<open>A collection without the counters and the runtime data, on which the invariant does not depend.\<close>

definition strip :: "collectionState \<Rightarrow> collectionState" where
  "strip c = c\<lparr>colNextID := 0, colRNum := 0, colRuntime := [],
     colIndexes := map (\<lambda>(k, idx). (k, idx\<lparr>idxRNum := 0\<rparr>)) (colIndexes c)\<rparr>"

definition stripCat :: "(string \<times> collectionState) list \<Rightarrow> (string \<times> collectionState) list" where
  "stripCat cols = map (\<lambda>(n, c). (n, strip c)) cols"

lemma strip_simps [simp]:
  "colName (strip c) = colName c" "colDBID (strip c) = colDBID c"
  "strip (c\<lparr>colNextID := x\<rparr>) = strip c" "strip (c\<lparr>colRNum := y\<rparr>) = strip c"
  "strip (adjustIndexRNums L c o1 o2) = strip c"
  by (simp_all add: strip_def adjustIndexRNums_def Let_def adjustIndexRNum_def comp_def case_prod_beta')

lemma idxRNum_simps [simp]:
  "idxVals E (idx\<lparr>idxRNum := x\<rparr>) = idxVals E idx"
  "keyIndex (idx\<lparr>idxRNum := x\<rparr>) = keyIndex idx" "keyUniqueIndex (idx\<lparr>idxRNum := x\<rparr>) = keyUniqueIndex idx"
  by (auto simp: fun_eq_iff idxVals_def intro!: keyIndex_DBID_cong [THEN fun_cong, THEN fun_cong] keyUniqueIndex_DBID_cong [THEN fun_cong])

lemma indexRel_idxRNum [simp]: "indexRel E m (idx\<lparr>idxRNum := x\<rparr>) = indexRel E m idx"
  by (simp add: fun_eq_iff indexRel_def)

lemma colRel_strip [simp]: "colRel E B m (strip c) = colRel E B m c"
  by (simp add: fun_eq_iff colRel_def strip_def case_prod_beta')

lemma noConflict_strip [simp]: "noConflict E B (strip c) = noConflict E B c"
  by (simp add: fun_eq_iff noConflict_def strip_def case_prod_beta')

lemma stable_idxRNum [simp]: "stable E (idx\<lparr>idxRNum := x\<rparr>) = stable E idx"
  by (simp add: fun_eq_iff stable_def)

lemma stableAll_strip [simp]: "stableAll E B (strip c) = stableAll E B c"
  by (simp add: fun_eq_iff stableAll_def strip_def case_prod_beta')

lemma storeRel_strip: "storeRel E B m (stripCat cols) D = storeRel E B m cols D"
  by (simp add: storeRel_def stripCat_def case_prod_beta')

lemma catOk_strip: "catOk (stripCat cols) = catOk cols"
  by (simp add: catOk_def stripCat_def catIndexes_def strip_def case_prod_beta' comp_def map_concat)

lemma map_of_stripCat: "map_of (stripCat cols) n = map_option strip (map_of cols n)"
  by (induction cols) (auto simp: stripCat_def)

lemma mutOk_strip: "mutOk E B (stripCat cols) D mu = mutOk E B cols D mu"
  by (auto simp: mutOk_def map_of_stripCat split: option.splits)

lemma chain_strip: "chain E B (stripCat cols) D ms D' = chain E B cols D ms D'"
  by (induction ms arbitrary: D) (simp_all add: mutOk_strip)

lemma same_strip:
  assumes "stripCat cols = stripCat cols'"
  shows "storeRel E B m cols D = storeRel E B m cols' D" and "catOk cols = catOk cols'"
    and "chain E B cols D ms D' = chain E B cols' D ms D'"
proof -
  show "storeRel E B m cols D = storeRel E B m cols' D" using assms storeRel_strip by metis
  show "catOk cols = catOk cols'" using assms catOk_strip by metis
  show "chain E B cols D ms D' = chain E B cols' D ms D'" using assms chain_strip by metis
qed

lemma stripCat_update:
  assumes "map_of cols n = Some c" and "strip c' = strip c"
  shows "stripCat (AList.update n c' cols) = stripCat cols"
proof -
  have "stripCat (AList.update n c' cols) = AList.update n (strip c') (stripCat cols)"
    by (induction cols) (auto simp: stripCat_def)
  also have "\<dots> = stripCat cols"
    by (rule update_triv) (simp add: map_of_stripCat assms)
  finally show ?thesis .
qed

section \<open>Chains\<close>

lemma chain_append: "chain E B cols D (ms @ ms') D' \<longleftrightarrow> (\<exists>V. chain E B cols D ms V \<and> chain E B cols V ms' D')"
  by (induction ms arbitrary: D) auto

lemma lastPending_snoc:
  "lastPending (ms @ [mu]) n i = (if mCollection mu = n \<and> mId mu = i then Some mu else lastPending ms n i)"
  by (simp add: lastPending_def)

lemma lastPending_chain:
  assumes "chain E B cols D ms V"
  shows "case lastPending ms n i of
      None \<Rightarrow> V n i = D n i
    | Some mu \<Rightarrow> V n i = (if mKind mu = mutationPut then Some (mNewDoc mu) else None)
        \<and> (mKind mu = mutationPut \<longrightarrow>
             mNewRaw mu \<noteq> [] \<and> marshalJSON (envJson E) (mNewDoc mu) = Inr (mNewRaw mu) \<and> putOk E (mNewDoc mu))"
  using assms
proof (induction ms arbitrary: V rule: rev_induct)
  case Nil
  then show ?case by (simp add: lastPending_def)
next
  case (snoc mu ms)
  then obtain V0 where V0: "chain E B cols D ms V0" "mutOk E B cols V0 mu" "V = applyMut mu V0"
    by (auto simp: chain_append)
  show ?case
  proof (cases "mCollection mu = n \<and> mId mu = i")
    case True
    then show ?thesis using V0(2,3) by (auto simp: lastPending_snoc applyMut_def mutOk_def split: option.splits)
  next
    case False
    then have "V n i = V0 n i" using V0(3) by (auto simp: applyMut_def)
    with False show ?thesis using snoc.IH [OF V0(1)] by (auto simp: lastPending_snoc split: option.splits)
  qed
qed

lemma pendingOthers_snoc:
  "pendingOthers (ms @ [mu]) n i =
     (if mCollection mu \<noteq> n \<or> mId mu = i then pendingOthers ms n i
      else if mKind mu = mutationPut then AList.update (mId mu) mu (pendingOthers ms n i)
      else AList.delete (mId mu) (pendingOthers ms n i))"
  by (simp add: pendingOthers_def)

lemma map_of_pendingOthers:
  "j \<noteq> i \<Longrightarrow> map_of (pendingOthers ms n i) j =
     (case lastPending ms n j of Some mu \<Rightarrow> if mKind mu = mutationPut then Some mu else None | None \<Rightarrow> None)"
proof (induction ms rule: rev_induct)
  case Nil
  then show ?case by (simp add: pendingOthers_def lastPending_def)
next
  case (snoc mu ms)
  then show ?case
    by (auto simp: pendingOthers_snoc lastPending_snoc AList.update_conv' AList.delete_conv' split: option.splits)
qed

lemma forEach_ok: "forEach f xs = Inr () \<longleftrightarrow> (\<forall>x \<in> set xs. f x = Inr ())"
  by (induction xs) (auto split: sum.splits)

section \<open>Identifiers\<close>

text \<open>The collection or index a key of the store belongs to.\<close>

definition keyOwner :: "bytes \<Rightarrow> int64 option" where
  "keyOwner K = (if K \<noteq> [] \<and> hd K \<in> {keyTagDoc, keyTagSeq, keyTagIdx, keyTagUIdx} then map_option fst (readI64 K 1) else None)"

lemma keyOwner_simps [simp]:
  "keyOwner (keyDoc d i) = Some d" "keyOwner (keySeq d) = Some d"
  "keyOwner (keyIndex idx v i) = Some (idxDBID idx)" "keyOwner (keyUniqueIndex idx v) = Some (idxDBID idx)"
  "keyOwner keyMetaState = None"
  using readI64_1 [of keyTagSeq d "[]"] readI64_1 [of keyTagUIdx "idxDBID idx" "encSegment v"]
  by (simp_all add: keyOwner_def key_layout readI64_1)
     (simp add: keyMetaState_def bytes_of_string_def keyTag_defs)

definition catIds :: "(string \<times> collectionState) list \<Rightarrow> int64 set" where
  "catIds cols = (colDBID \<circ> snd) ` set cols \<union> idxDBID ` set (catIndexes cols)"

text \<open>The counter is at least every identifier in use, and the store has no key of a later identifier.\<close>

definition idsOk :: "kv \<Rightarrow> int64 \<Rightarrow> (string \<times> collectionState) list \<Rightarrow> bool" where
  "idsOk m next cols \<longleftrightarrow> (\<forall>x \<in> catIds cols. sint x \<le> sint next)
     \<and> (\<forall>K x. keyOwner K = Some x \<and> sint next < sint x \<longrightarrow> m K = None)"

lemma applyBatch_none: "m K = None \<Longrightarrow> \<forall>v. BSet K v \<notin> set ops \<Longrightarrow> applyBatch ops m K = None"
proof (induction ops arbitrary: m)
  case (Cons x ops)
  then have "applyOp1 x m K = None" by (cases x) auto
  with Cons show ?case by simp
qed simp

lemma idsOk_batch:
  assumes "idsOk m next cols" and "\<And>K v x. BSet K v \<in> set ops \<Longrightarrow> keyOwner K = Some x \<Longrightarrow> sint x \<le> sint next"
  shows "idsOk (applyBatch ops m) next cols"
  using assms unfolding idsOk_def by (meson applyBatch_none leD)

lemma catIds_strip: "catIds (stripCat cols) = catIds cols"
proof -
  have "map idxDBID (catIndexes (stripCat cols)) = map idxDBID (catIndexes cols)"
    by (simp add: catIndexes_def stripCat_def strip_def case_prod_beta' comp_def map_concat)
  moreover have "map (colDBID \<circ> snd) (stripCat cols) = map (colDBID \<circ> snd) cols"
    by (simp add: stripCat_def case_prod_beta' comp_def)
  ultimately show ?thesis unfolding catIds_def by (metis set_map)
qed

lemma keyOwner_indexEntryKey [simp]: "keyOwner (indexEntryKey idx v i) = Some (idxDBID idx)"
  by (simp add: indexEntryKey_def)

lemma mutationOps_owner:
  assumes "mutationOps E cols mu = Inr ops" and "BSet K v \<in> set ops" and "keyOwner K = Some x"
  shows "x \<in> catIds cols"
proof -
  obtain c where c: "map_of cols (mCollection mu) = Some c"
    using assms by (auto simp: mutationOps_def deleteIndexKeys_def Let_def split: option.splits sum.splits storageMutationKind.splits if_splits)
  then have mem: "(mCollection mu, c) \<in> set cols" by (rule map_of_SomeD)
  have ix: "idxDBID idx \<in> catIds cols" if "(k, idx) \<in> set (colIndexes c)" for k idx
    using mem that by (force simp: catIds_def catIndexes_def)
  moreover have "colDBID c \<in> catIds cols" using mem by (force simp: catIds_def)
  ultimately show ?thesis
    using assms c
    by (auto simp: mutationOps_def deleteIndexKeys_def setIndexKeys_def Let_def
        split: sum.splits storageMutationKind.splits if_splits)
qed

lemma pendingOps_owner:
  "pendingOps E cols ms = Inr ops \<Longrightarrow> BSet K v \<in> set ops \<Longrightarrow> keyOwner K = Some x \<Longrightarrow> x \<in> catIds cols"
  by (induction ms arbitrary: ops) (auto split: sum.splits dest: mutationOps_owner)

section \<open>Documents that fit\<close>

text \<open>
  The bounds of the formats: an encoding of less than two gigabytes, and index values of less than four, of the document as it was put
  and as it is stored.
\<close>

definition fits :: "'e env \<Rightarrow> gv \<Rightarrow> bool" where
  "fits E p \<longleftrightarrow> (\<exists>raw. encodeStoredDocument (envLib E) p = Inr raw \<and> length raw < 2 ^ 31)
     \<and> (\<forall>idx v. v \<in> set (idxVals E idx p) \<union> set (idxVals E idx (storedForm E p)) \<longrightarrow> length v < 2 ^ 32)"

text \<open>
  What reading a document may return: its text, \<^verbatim>\<open>ErrNotFound\<close> when there is none, or another error that the engine has reported.
\<close>

definition engineError :: "'e env \<Rightarrow> 'e \<Rightarrow> error \<Rightarrow> bool" where
  "engineError E e err \<longleftrightarrow> (\<exists>k. engGet (envEng E) e k = Inl err) \<and> \<not> errorIs err ErrNotFound"

definition readResult :: "'e env \<Rightarrow> 'e \<Rightarrow> gv option \<Rightarrow> bytes result \<Rightarrow> bool" where
  "readResult E e doc r \<longleftrightarrow>
     (case r of
        Inr raw \<Rightarrow> \<exists>d. doc = Some d \<and> marshalJSON (envJson E) d = Inr raw
      | Inl err \<Rightarrow> errorIs err ErrNotFound \<and> doc = None \<or> engineError E e err)"

section \<open>The environment\<close>

text \<open>
  What the operations rely on: the contract of the engine, that the numbers \<^verbatim>\<open>strconv\<close> writes are numbers of JSON, and of the JSON package that a value it
  decoded has a text, which is not empty and decodes to the value again, and that the numbers \<^verbatim>\<open>strconv\<close> writes are numbers of JSON.
\<close>

locale db_env = storage_engine "envEng E" kv for E :: "'e env" and kv +
  assumes marshal: "decodeJSON (envJson E) raw = Inr v \<Longrightarrow>
    \<exists>b. marshalJSON (envJson E) v = Inr b \<and> b \<noteq> [] \<and> decodeJSON (envJson E) b = Inr v"
    and numbers: "decodeJSON (envJson E) raw = Inr v \<Longrightarrow> encodeStoredDocument (envLib E) v = Inr enc \<Longrightarrow>
    \<exists>raw'. decodeJSON (envJson E) raw' = Inr (binnNorm (envLib E) v)"
begin

lemma docOk_text:
  assumes "docOk E d"
  obtains b where "marshalJSON (envJson E) d = Inr b" "b \<noteq> []" "decodeJSON (envJson E) b = Inr d"
  using assms marshal unfolding docOk_def by blast

lemma holds_text:
  assumes "docOk E d" and "holds E raw d"
  obtains b where "marshalJSON (envJson E) d = Inr b" "b \<noteq> []" "decodeJSON (envJson E) b = Inr d" "decodeStored E raw = Inr (b, d)"
  using docOk_text [OF assms(1)] assms(2) unfolding holds_def by (metis sum.inject(2))

text \<open>A document that came from a text, whose encoding and whose index values fit their length fields, can be put.\<close>

lemma putOkI:
  assumes doc: "decodeJSON (envJson E) raw = Inr p" and fits: "fits E p"
  shows "putOk E p"
proof -
  obtain enc where enc: "encodeStoredDocument (envLib E) p = Inr enc" "length enc < 2 ^ 31"
    and len: "\<And>idx v. v \<in> set (idxVals E idx p) \<union> set (idxVals E idx (storedForm E p)) \<Longrightarrow> length v < 2 ^ 32"
    using fits unfolding fits_def by blast
  obtain raw' where raw': "decodeJSON (envJson E) raw' = Inr (storedForm E p)"
    using numbers [OF doc enc(1)] by (auto simp: storedForm_def)
  obtain b where b: "marshalJSON (envJson E) (storedForm E p) = Inr b" using marshal [OF raw'] by blast
  have "decodeStored E enc = Inr (b, storedForm E p)"
    using decodeStored_encodeStored [OF enc(1) _ _ enc(2)] decodeJSON_value [OF doc] b
    by (simp add: decodeStored_def storedForm_def jsonValue_tagsOk)
  moreover have "p \<noteq> VNil" "storedForm E p \<noteq> VNil" using enc(1) by (cases p; auto simp: storedForm_def)+
  ultimately show ?thesis using doc raw' len enc(1) b by (auto simp: putOk_def docOk_def holds_def)
qed

lemma getDocNode_ok:
  assumes "storeRel E B (kv e) cols D" and "map_of cols n = Some c" and "getDocNode E e (Some c) i = Inr (raw, d)"
  shows "D n i = Some d" and "marshalJSON (envJson E) d = Inr raw" and "raw \<noteq> []" and "docOk E d"
    and "decodeJSON (envJson E) raw = Inr d"
proof -
  obtain stored where g: "engGet (envEng E) e (keyDoc (colDBID c) i) = Inr stored" "decodeStored E stored = Inr (raw, d)"
    using assms(3) by (auto simp: getDocNode_def split: sum.splits)
  have rel: "colRel E B (kv e) c (D n)" using assms(1,2) by (auto simp: storeRel_def dest: map_of_SomeD)
  obtain d' where d': "D n i = Some d'" "holds E stored d'" using colRel_doc(2) [OF rel get_value [OF g(1)]] by blast
  then have ok: "docOk E d'" using colRelD(2) [OF rel] by blast
  from holds_text [OF ok d'(2)] g(2) have "d' = d \<and> marshalJSON (envJson E) d' = Inr raw \<and> raw \<noteq> []
      \<and> decodeJSON (envJson E) raw = Inr d'"
    by auto
  with d' ok show "D n i = Some d" "marshalJSON (envJson E) d = Inr raw" "raw \<noteq> []" "docOk E d"
    "decodeJSON (envJson E) raw = Inr d" by auto
qed

lemma getDocNode_absent:
  assumes "storeRel E B (kv e) cols D" and "map_of cols n = Some c" and "getDocNode E e (Some c) i = Inl err"
  shows "engGet (envEng E) e (keyDoc (colDBID c) i) = Inl err" and "errorIs err ErrNotFound \<Longrightarrow> D n i = None"
proof -
  have rel: "colRel E B (kv e) c (D n)" using assms(1,2) by (auto simp: storeRel_def dest: map_of_SomeD)
  show g: "engGet (envEng E) e (keyDoc (colDBID c) i) = Inl err"
  proof (cases "engGet (envEng E) e (keyDoc (colDBID c) i)")
    case (Inr stored)
    then obtain d' where d': "D n i = Some d'" "holds E stored d'" using colRel_doc(2) [OF rel get_value [OF Inr]] by blast
    then have "docOk E d'" using colRelD(2) [OF rel] by blast
    from holds_text [OF this d'(2)] assms(3) Inr show ?thesis by (auto simp: getDocNode_def)
  qed (use assms(3) in \<open>simp add: getDocNode_def\<close>)
  show "errorIs err ErrNotFound \<Longrightarrow> D n i = None" using get_absent [OF g] colRel_doc(3) [OF rel, of i] by simp
qed

lemma getDocRaw_node: "getDocRaw E e col i = map_sum (\<lambda>x. x) fst (getDocNode E e col i)"
  by (auto simp: getDocRaw_def getDocNode_def split: option.splits sum.splits)

lemma getDocRaw_result:
  assumes "storeRel E B (kv e) cols D" and "map_of cols n = Some c"
  shows "readResult E e (D n i) (getDocRaw E e (Some c) i)"
proof (cases "getDocNode E e (Some c) i")
  case (Inl err)
  then show ?thesis using getDocNode_absent [OF assms Inl]
    by (auto simp: getDocRaw_node readResult_def engineError_def)
next
  case (Inr rd)
  then show ?thesis using getDocNode_ok [OF assms] by (cases rd) (auto simp: getDocRaw_node readResult_def)
qed

text \<open>A check of the unique constraints that passes rules out a conflict with the documents as the pending mutations leave them.\<close>

lemma checkUnique_noConflict:
  assumes rel: "storeRel E B (kv (dbEngine db)) cols D" and c: "map_of cols n = Some c"
    and ch: "chain E B cols' D (dbPending db) V" and name: "colName col = n" and ixs: "colIndexes col = colIndexes c"
    and ok: "checkUniqueConstraints E db col i doc = Inr ()" and docOk: "docOk E doc"
  shows "noConflict E B c i doc (V n)"
  unfolding noConflict_def
proof (intro ballI, clarify)
  fix k idx j d'
  assume idx: "(k, idx) \<in> set (colIndexes c)" and u: "idxUnique idx" and good: "idxDBID idx \<notin> B" and ji: "j \<noteq> i" and d': "V n j = Some d'"
  have cu: "checkUniqueIndex E db col i doc (k, idx) = Inr ()"
    using ok idx ixs by (auto simp: checkUniqueConstraints_def forEach_ok)
  have colr: "colRel E B (kv (dbEngine db)) c (D n)" using rel c by (auto simp: storeRel_def dest: map_of_SomeD)
  show "set (idxVals E idx d') \<inter> set (idxVals E idx doc) = {}"
  proof (rule ccontr)
    assume "set (idxVals E idx d') \<inter> set (idxVals E idx doc) \<noteq> {}"
    then obtain v where v: "v \<in> set (idxVals E idx d')" "v \<in> set (idxVals E idx doc)" by auto
    show False
    proof (cases "lastPending (dbPending db) n j")
      case None
      then have Dj: "D n j = Some d'" using lastPending_chain [OF ch, of n j] d' by simp
      have "length v < 2 ^ 32" using v(2) docOk by (auto simp: docOk_def)
      then have "kv (dbEngine db) (keyUniqueIndex idx v) = Some (putU64 [] j)"
        using colRelD(3) [OF colr idx good] u Dj v(1) by (auto simp: indexRel_def)
      moreover have "checkStoredValue E db col i idx v = Inr ()"
        using cu u v(2) by (auto simp: checkUniqueIndex_def Let_def forEach_ok idxVals_def split: sum.splits)
      moreover have "\<not> pendingDeletes (dbPending db) n j" using None by (simp add: pendingDeletes_def)
      ultimately show False using ji name get_value get_absent
        by (fastforce simp: checkStoredValue_def split: sum.splits if_splits)
    next
      case (Some mu)
      then have mu: "mKind mu = mutationPut" "mNewDoc mu = d'" "docOk E d'"
        using lastPending_chain [OF ch, of n j] d' by (auto simp: putOk_def split: if_splits)
      have "map_of (pendingOthers (dbPending db) n i) j = Some mu"
        using map_of_pendingOthers [OF ji] Some mu(1) by simp
      then have mem: "(j, mu) \<in> set (pendingOthers (dbPending db) n i)" by (rule map_of_SomeD)
      have "dbPending db \<noteq> []" using Some by (auto simp: lastPending_def)
      then have "checkPendingDoc E idx (idxVals E idx doc) (j, mu) = Inr ()"
        using cu u v(2) mem name by (auto simp: checkUniqueIndex_def Let_def forEach_ok idxVals_def split: sum.splits if_splits)
      then show False using v mu docOk_not_nil [OF mu(3)]
        by (auto simp: checkPendingDoc_def idxVals_def split: if_splits)
    qed
  qed
qed

end

end
