(* ===== verification/Refine.thy ===== *)
theory Refine
  imports Pending
begin

text \<open>
  The database object refines a map from collections and ids to documents: the relation between the two,
  the steps every operation is made of, and the operations on documents.
\<close>

section \<open>The relation\<close>

text \<open>
  A database object whose store holds the documents \<open>D\<close> and whose pending mutations turn them into \<open>V\<close>.
  Every document has an id at most the last one given out.
\<close>

definition nextOk :: "(string \<times> collectionState) list \<Rightarrow> docs \<Rightarrow> bool" where
  "nextOk cols V \<longleftrightarrow> (\<forall>n c i. map_of cols n = Some c \<and> V n i \<noteq> None \<longrightarrow> sint i \<le> sint (colNextID c))"

definition dbRel :: "'e env \<Rightarrow> ('e \<Rightarrow> kv) \<Rightarrow> int64 set \<Rightarrow> 'e DB \<Rightarrow> docs \<Rightarrow> docs \<Rightarrow> bool" where
  "dbRel E kv B db D V \<longleftrightarrow>
     catOk (collections db) \<and> storeRel E B (kv (dbEngine db)) (collections db) D
     \<and> chain E B (collections db) D (dbPending db) V
     \<and> idsOk (kv (dbEngine db)) (stNextCollectionID (dbSt db)) (collections db)
     \<and> nextOk (collections db) V
     \<and> (\<forall>n. map_of (collections db) n = None \<longrightarrow> D n = (\<lambda>_. None))
     \<and> \<not> dbDirtyFull db \<and> (\<forall>x \<in> B. sint x \<le> sint (stNextCollectionID (dbSt db)))"

definition dbInv :: "'e env \<Rightarrow> ('e \<Rightarrow> kv) \<Rightarrow> int64 set \<Rightarrow> 'e DB \<Rightarrow> docs \<Rightarrow> bool" where
  "dbInv E kv B db D \<longleftrightarrow> dbRel E kv B db D D \<and> dbPending db = [] \<and> \<not> dbClosed db"

lemma dbRelD:
  assumes "dbRel E kv B db D V"
  shows "catOk (collections db)" "storeRel E B (kv (dbEngine db)) (collections db) D"
    "chain E B (collections db) D (dbPending db) V" "\<not> dbDirtyFull db"
    "idsOk (kv (dbEngine db)) (stNextCollectionID (dbSt db)) (collections db)" "nextOk (collections db) V"
    "map_of (collections db) n = None \<Longrightarrow> D n = (\<lambda>_. None)" "x \<in> B \<Longrightarrow> sint x \<le> sint (stNextCollectionID (dbSt db))"
  using assms by (auto simp: dbRel_def)

text \<open>What the store will have when the pending mutations are committed, and giving up more indexes.\<close>

definition committed :: "'e env \<Rightarrow> 'e DB \<Rightarrow> docs \<Rightarrow> docs" where
  "committed E db D = settled E (dbPending db) D"

lemma committed_Nil [simp]: "dbPending db = [] \<Longrightarrow> committed E db D = D"
  by (simp add: committed_def)

lemma stableAll_mono: "stableAll E B c p \<Longrightarrow> B \<subseteq> B' \<Longrightarrow> stableAll E B' c p"
  unfolding stableAll_def by blast

lemma noConflict_mono: "noConflict E B c i d docs \<Longrightarrow> B \<subseteq> B' \<Longrightarrow> noConflict E B' c i d docs"
  unfolding noConflict_def by blast

lemma mutOk_mono: "mutOk E B cols D mu \<Longrightarrow> B \<subseteq> B' \<Longrightarrow> mutOk E B' cols D mu"
  by (auto simp: mutOk_def split: option.splits intro: stableAll_mono noConflict_mono)

lemma chain_mono_set: "chain E B cols D ms V \<Longrightarrow> B \<subseteq> B' \<Longrightarrow> chain E B' cols D ms V"
  by (induction ms arbitrary: D) (auto intro: mutOk_mono)

lemma dbRel_mono:
  assumes "dbRel E kv B db D V" and "B \<subseteq> B'" and "\<forall>x \<in> B' - B. sint x \<le> sint (stNextCollectionID (dbSt db))"
  shows "dbRel E kv B' db D V"
  using assms unfolding dbRel_def storeRel_def by (blast intro: chain_mono_set colRel_mono)

lemma dbInv_mono:
  "dbInv E kv B db D \<Longrightarrow> B \<subseteq> B' \<Longrightarrow> \<forall>x \<in> B' - B. sint x \<le> sint (stNextCollectionID (dbSt db)) \<Longrightarrow> dbInv E kv B' db D"
  by (auto simp: dbInv_def intro: dbRel_mono)

text \<open>The indexes of a collection that a document gets out of step.\<close>

definition spoils :: "'e env \<Rightarrow> (string \<times> collectionState) list \<Rightarrow> string \<Rightarrow> gv \<Rightarrow> int64 set" where
  "spoils E cols n p =
     (case map_of cols n of None \<Rightarrow> {} | Some c \<Rightarrow> idxDBID ` {idx \<in> snd ` set (colIndexes c). \<not> stable E idx p})"

lemma spoils_catIds: "x \<in> spoils E cols n p \<Longrightarrow> x \<in> catIds cols"
  by (force simp: spoils_def catIds_def catIndexes_def dest: map_of_SomeD split: option.splits)

lemma spoils_stableAll: "map_of cols n = Some c \<Longrightarrow> stableAll E (B \<union> spoils E cols n p) c p"
  by (force simp: spoils_def stableAll_def)

lemma dbRel_spoil:
  assumes "dbRel E kv B db D V"
  shows "dbRel E kv (B \<union> spoils E (collections db) n p) db D V"
  using assms by (rule dbRel_mono) (use dbRelD(5) [OF assms] in \<open>auto simp: idsOk_def dest: spoils_catIds\<close>)

text \<open>The collections and the definitions of their indexes, as a caller knows them.\<close>

type_synonym schema = "string \<Rightarrow> (string \<times> IndexKind \<times> bool) set option"

definition indexDefs :: "collectionState \<Rightarrow> (string \<times> IndexKind \<times> bool) set" where
  "indexDefs c = (\<lambda>(k, idx). (idxPath idx, idxKind idx, idxUnique idx)) ` set (colIndexes c)"

definition schemaOf :: "'e DB \<Rightarrow> schema" where
  "schemaOf db = (\<lambda>n. map_option indexDefs (map_of (collections db) n))"

definition made :: "string \<Rightarrow> schema \<Rightarrow> schema" where
  "made n S = (if S n = None then S(n \<mapsto> {}) else S)"

lemma indexDefs_strip: "indexDefs (strip c) = indexDefs c"
  by (simp add: indexDefs_def strip_def image_image case_prod_beta')

lemma same_indexDefs: "strip c' = strip c \<Longrightarrow> indexDefs c' = indexDefs c"
  using indexDefs_strip by metis

lemma catOk_name: "catOk cols \<Longrightarrow> map_of cols n = Some c \<Longrightarrow> colName c = n"
  by (auto simp: catOk_def dest: map_of_SomeD)

text \<open>What a change of the catalog entry of a collection leaves alone.\<close>

lemma setCol_simps [simp]:
  "dbEngine (setCol c db) = dbEngine db" "dbPending (setCol c db) = dbPending db"
  "dbClosed (setCol c db) = dbClosed db" "dbDirtyFull (setCol c db) = dbDirtyFull db"
  "collections (setCol c db) = AList.update (colName c) c (collections db)"
  "stNextCollectionID (dbSt (setCol c db)) = stNextCollectionID (dbSt db)"
  by (simp_all add: setCol_def setCollections_def)

lemma strip_colName: "strip c' = strip c \<Longrightarrow> colName c' = colName c"
  by (metis strip_simps(1))

lemma chain_dom: "chain E B cols D ms V \<Longrightarrow> map_of cols n = None \<Longrightarrow> V n = D n"
  by (induction ms arbitrary: D) (auto simp: mutOk_def applyMut_def split: option.splits)

lemma settled_dom: "chain E B cols D ms V \<Longrightarrow> map_of cols n = None \<Longrightarrow> settled E ms W n = W n"
proof (induction ms arbitrary: D W)
  case (Cons mu ms)
  then have "mCollection mu \<noteq> n" by (auto simp: mutOk_def split: option.splits)
  then have "applyStored E mu W n = W n" by (simp add: applyStored_def)
  then show ?case using Cons.IH [of "applyMut mu D" "applyStored E mu W"] Cons.prems by simp
qed simp

lemma dbRel_setCol:
  assumes rel: "dbRel E kv B db D V" and c: "map_of (collections db) n = Some c" and st: "strip c' = strip c"
    and nx: "\<And>i. V n i \<noteq> None \<Longrightarrow> sint i \<le> sint (colNextID c')"
  shows "dbRel E kv B (setCol c' db) D V" and "map_of (collections (setCol c' db)) n = Some c'"
proof -
  have n: "colName c' = n" using strip_colName [OF st] catOk_name [OF dbRelD(1) [OF rel] c] by simp
  have eq: "stripCat (AList.update n c' (collections db)) = stripCat (collections db)"
    by (rule stripCat_update [OF c st])
  have ids: "catIds (AList.update n c' (collections db)) = catIds (collections db)"
    using eq catIds_strip by metis
  have "nextOk (AList.update n c' (collections db)) V"
    using dbRelD(6) [OF rel] nx by (auto simp: nextOk_def AList.update_conv')
  then show "dbRel E kv B (setCol c' db) D V"
    using rel c unfolding dbRel_def idsOk_def by (simp add: n same_strip [OF eq] ids AList.update_conv')
  show "map_of (collections (setCol c' db)) n = Some c'" by (simp add: n AList.update_conv')
qed

section \<open>Collections\<close>

lemma sint_Suc: "sint (x :: int64) < 2 ^ 63 - 1 \<Longrightarrow> sint (x + 1) = sint x + 1"
  using sint_greater_eq [of x] by (simp add: sint_word_ariths signed_take_bit_int_eq_self)

lemma update_new: "map_of al k = None \<Longrightarrow> AList.update k v al = al @ [(k, v)]"
  by (induction al) (auto split: if_splits)

lemma chain_mono:
  assumes "\<And>n c. map_of cols n = Some c \<Longrightarrow> map_of cols' n = Some c"
  shows "chain E B cols D ms V \<Longrightarrow> chain E B cols' D ms V"
  using assms by (induction ms arbitrary: D) (auto simp: mutOk_def split: option.splits)


lemma ensureCollection_old:
  assumes "dbRel E kv B db D V" and "map_of (collections db) n = Some c"
  shows "ensureCollectionLocked n db = (c, db)"
proof -
  have "c\<lparr>colName := n\<rparr> = c" using catOk_name [OF dbRelD(1) [OF assms(1)] assms(2)] by simp
  then show ?thesis using assms(2)
    by (simp add: ensureCollectionLocked_def ensureCollectionOnStateLocked_def Let_def update_triv)
qed

definition emptyCol :: "string \<Rightarrow> int64 \<Rightarrow> collectionState" where
  "emptyCol n x = \<lparr>colName = n, colDBID = x, colNextID = 0, colRNum = 0, colIndexes = [], colRuntime = []\<rparr>"

lemma ensureCollection_new:
  assumes "map_of (collections db) n = None"
  defines "x \<equiv> stNextCollectionID (dbSt db) + 1"
  shows "ensureCollectionLocked n db =
    (emptyCol n x, db\<lparr>dbSt := (dbSt db)\<lparr>stNextCollectionID := x, stCollections := collections db @ [(n, emptyCol n x)]\<rparr>\<rparr>)"
  using assms(1)
  by (simp add: ensureCollectionLocked_def ensureCollectionOnStateLocked_def Let_def emptyCol_def x_def update_new)

lemma dbRel_new_collection:
  assumes rel: "dbRel E kv B db D V" and new: "map_of (collections db) n = None"
    and room: "sint (stNextCollectionID (dbSt db)) < 2 ^ 63 - 1"
  defines "x \<equiv> stNextCollectionID (dbSt db) + 1"
  shows "dbRel E kv B (db\<lparr>dbSt := (dbSt db)\<lparr>stNextCollectionID := x, stCollections := collections db @ [(n, emptyCol n x)]\<rparr>\<rparr>) D V"
proof -
  note r = dbRelD [OF rel]
  have x: "sint x = sint (stNextCollectionID (dbSt db)) + 1" unfolding x_def using room by (rule sint_Suc)
  have le: "sint y < sint x" if "y \<in> catIds (collections db)" for y
    using r(5) that x by (fastforce simp: idsOk_def)
  have ids: "catIds (collections db @ [(n, emptyCol n x)]) = insert x (catIds (collections db))"
    by (auto simp: catIds_def catIndexes_def emptyCol_def)
  have free: "kv (dbEngine db) K = None" if "keyOwner K = Some y" "sint x \<le> sint y" for K y
    using r(5) that x by (auto simp: idsOk_def)
  have "catOk (collections db @ [(n, emptyCol n x)])"
  proof -
    have "x \<notin> catIds (collections db)" using le by blast
    then show ?thesis using r(1) new
      by (auto simp: catOk_def catIds_def catIndexes_def emptyCol_def map_of_eq_None_iff)
  qed
  moreover have "storeRel E B (kv (dbEngine db)) (collections db @ [(n, emptyCol n x)]) D"
    using r(2) r(7) [OF new] free by (auto simp: storeRel_def colRel_def emptyCol_def)
  moreover have "chain E B (collections db @ [(n, emptyCol n x)]) D (dbPending db) V"
    by (rule chain_mono [OF _ r(3)]) simp
  moreover have "idsOk (kv (dbEngine db)) x (collections db @ [(n, emptyCol n x)])"
    unfolding idsOk_def ids using le free by (auto intro: less_imp_le)
  moreover have "nextOk (collections db @ [(n, emptyCol n x)]) V"
    using r(6) r(7) [OF new] chain_dom [OF r(3) new] new by (auto simp: nextOk_def map_add_def split: option.splits if_splits)
  moreover have "sint y \<le> sint x" if "y \<in> B" for y using r(8) [OF that] x by simp
  ultimately show ?thesis using r(4,7) by (auto simp: dbRel_def map_add_def split: option.splits if_splits)
qed

text \<open>There is room for another collection and another index.\<close>

definition room :: "'e DB \<Rightarrow> bool" where
  "room db \<longleftrightarrow> sint (stNextCollectionID (dbSt db)) < 2 ^ 63 - 2"

lemma ensureCollection_rel:
  assumes "dbRel E kv B db D V" and "room db" and "ensureCollectionLocked n db = (c, db')"
  shows "dbRel E kv B db' D V" and "map_of (collections db') n = Some c"
    and "dbEngine db' = dbEngine db" "dbPending db' = dbPending db" "dbClosed db' = dbClosed db"
proof -
  have "dbRel E kv B db' D V \<and> map_of (collections db') n = Some c \<and> dbEngine db' = dbEngine db
      \<and> dbPending db' = dbPending db \<and> dbClosed db' = dbClosed db"
  proof (cases "map_of (collections db) n")
    case None
    from dbRel_new_collection [OF assms(1) None] assms(2,3) show ?thesis
      unfolding ensureCollection_new [OF None] by (auto simp: room_def None map_add_def)
  next
    case (Some c0)
    then show ?thesis using assms by (simp add: ensureCollection_old)
  qed
  then show "dbRel E kv B db' D V" "map_of (collections db') n = Some c"
    "dbEngine db' = dbEngine db" "dbPending db' = dbPending db" "dbClosed db' = dbClosed db" by auto
qed

lemma schemaOf_cong: "map_of (collections db') = map_of (collections db) \<Longrightarrow> schemaOf db' = schemaOf db"
  by (simp add: schemaOf_def)

lemma schemaOf_setCol:
  assumes "map_of (collections db) n = Some c" and "strip c' = strip c" and "colName c' = n"
  shows "schemaOf (setCol c' db) = schemaOf db"
  using assms(1,3) same_indexDefs [OF assms(2)] by (auto simp: schemaOf_def AList.update_conv' fun_eq_iff)

lemma ensureCollection_schema:
  assumes "dbRel E kv B db D V" and "ensureCollectionLocked n db = (c, db')"
  shows "schemaOf db' = made n (schemaOf db)"
proof (cases "map_of (collections db) n")
  case None
  then have "dbSt db' = (dbSt db)\<lparr>stNextCollectionID := stNextCollectionID (dbSt db) + 1,
      stCollections := collections db @ [(n, emptyCol n (stNextCollectionID (dbSt db) + 1))]\<rparr>"
    using assms(2) by (auto simp: ensureCollection_new)
  then show ?thesis using None
    by (auto simp: schemaOf_def made_def fun_eq_iff map_add_def indexDefs_def emptyCol_def split: option.splits)
next
  case (Some c0)
  then show ?thesis using assms by (auto simp: ensureCollection_old made_def schemaOf_def)
qed

section \<open>Steps on documents\<close>

lemma strip_RNum_if [simp]: "strip (if b then c\<lparr>colRNum := x\<rparr> else c) = strip c"
  by simp

lemma adjust_simps [simp]:
  "colName (adjustIndexRNums L c o1 o2) = colName c" "colNextID (adjustIndexRNums L c o1 o2) = colNextID c"
  by (simp_all add: adjustIndexRNums_def Let_def)

lemma record_simps [simp]:
  "dbEngine (recordDocPut n i r1 r2 d1 d2 db) = dbEngine db" "dbClosed (recordDocPut n i r1 r2 d1 d2 db) = dbClosed db"
  "collections (recordDocPut n i r1 r2 d1 d2 db) = collections db"
  "dbEngine (recordDocDelete n i r1 d1 db) = dbEngine db" "dbClosed (recordDocDelete n i r1 d1 db) = dbClosed db"
  "collections (recordDocDelete n i r1 d1 db) = collections db"
  by (simp_all add: recordDocPut_def recordDocDelete_def)

text \<open>One more mutation at the end of the chain.\<close>

lemma dbRel_record:
  assumes rel: "dbRel E kv B db D V" and ok: "mutOk E B (collections db) V mu"
    and nx: "\<And>c. mKind mu = mutationPut \<Longrightarrow> map_of (collections db) (mCollection mu) = Some c \<Longrightarrow> sint (mId mu) \<le> sint (colNextID c)"
  shows "dbRel E kv B (db\<lparr>dbPending := dbPending db @ [mu], dbDirtyMeta := b\<rparr>) D (applyMut mu V)"
proof -
  have "chain E B (collections db) D (dbPending db @ [mu]) (applyMut mu V)"
    using dbRelD(3) [OF rel] ok by (auto simp: chain_append)
  moreover have "nextOk (collections db) (applyMut mu V)"
    using dbRelD(6) [OF rel] nx by (auto simp: nextOk_def applyMut_def split: if_splits)
  ultimately show ?thesis using rel by (simp add: dbRel_def)
qed

lemma applyMut_put [simp]:
  "applyMut \<lparr>mKind = mutationPut, mCollection = n, mId = i, mOldRaw = r1, mNewRaw = r2, mOldDoc = d1, mNewDoc = d2\<rparr> V
    = V(n := (V n)(i \<mapsto> d2))"
  "applyMut \<lparr>mKind = mutationDelete, mCollection = n, mId = i, mOldRaw = r1, mNewRaw = r2, mOldDoc = d1, mNewDoc = d2\<rparr> V
    = V(n := (V n)(i := None))"
  by (simp_all add: applyMut_def)

text \<open>
  What a put leaves: the document under the id, as it was put for the caller and in its stored form for the commit, when it fits; the
  indexes it spoils are given up.
\<close>

definition puts :: "'e env \<Rightarrow> ('e \<Rightarrow> kv) \<Rightarrow> 'e DB \<Rightarrow> 'e DB \<Rightarrow> int64 set \<Rightarrow> docs \<Rightarrow> docs \<Rightarrow> string \<Rightarrow> int64 \<Rightarrow> gv \<Rightarrow> bool" where
  "puts E kv db db' B D V n i doc \<longleftrightarrow>
     (fits E doc \<longrightarrow> dbRel E kv (B \<union> spoils E (collections db) n doc) db' D (V(n := (V n)(i \<mapsto> doc)))
        \<and> dbEngine db' = dbEngine db \<and> dbClosed db' = dbClosed db
        \<and> committed E db' D = (committed E db D)(n := (committed E db D n)(i \<mapsto> storedForm E doc)))"

definition storedPut :: "'e env \<Rightarrow> ('e \<Rightarrow> kv) \<Rightarrow> 'e DB \<Rightarrow> 'e DB \<Rightarrow> int64 set \<Rightarrow> docs \<Rightarrow> string \<Rightarrow> int64 \<Rightarrow> gv \<Rightarrow> bool" where
  "storedPut E kv db db' B D n i doc \<longleftrightarrow>
     (fits E doc \<longrightarrow> dbInv E kv (B \<union> spoils E (collections db) n doc) db' (D(n := (D n)(i \<mapsto> storedForm E doc))))"

lemma spoils_strip: "spoils E (stripCat cols) n p = spoils E cols n p"
proof (cases "map_of cols n")
  case (Some c)
  have "idxDBID ` {idx \<in> snd ` set (colIndexes (strip c)). \<not> stable E idx p}
      = idxDBID ` (\<lambda>idx. idx\<lparr>idxRNum := 0\<rparr>) ` {idx \<in> snd ` set (colIndexes c). \<not> stable E idx p}"
    by (intro arg_cong [where f = "(`) idxDBID"]) (auto simp: strip_def image_iff Bex_def)
  then show ?thesis using Some by (simp add: spoils_def map_of_stripCat image_image)
qed (simp add: spoils_def map_of_stripCat)

lemma spoils_setCol:
  assumes "strip c' = strip c" and "map_of cols n = Some c"
  shows "spoils E (AList.update n c' cols) m p = spoils E cols m p"
  using stripCat_update [OF assms(2,1)] spoils_strip by metis

lemma ensureCollection_spoils:
  assumes "dbRel E kv B db D V" and "ensureCollectionLocked n db = (c, db')"
  shows "spoils E (collections db') n p = spoils E (collections db) n p"
proof (cases "map_of (collections db) n")
  case None
  then show ?thesis using assms(2) by (auto simp: ensureCollection_new spoils_def emptyCol_def map_add_def)
next
  case (Some c0)
  then show ?thesis using assms by (simp add: ensureCollection_old)
qed

lemma persistPending_ok:
  assumes "persistPendingLocked E db = (Inr (), db')"
  obtains meta ops e' where "encodeCatalog (envMarshalCat E) (dbSt db) = Inr meta"
    "pendingOps E (collections db) (dbPending db) = Inr ops"
    "engCommit (envEng E) (dbEngine db) (BSet keyMetaState meta # ops) = Inr e'"
    "db' = clearPending (db\<lparr>dbEngine := e'\<rparr>)"
  using assms unfolding persistPendingLocked_def commitBatch_def
  by (cases "encodeCatalog (envMarshalCat E) (dbSt db)"; cases "pendingOps E (collections db) (dbPending db)")
     (simp_all split: sum.splits)

context db_env
begin

lemma oldDocument_ok:
  assumes rel: "dbRel E kv B db D V" and c: "map_of (collections db) n = Some c" and old: "oldDocument E db c i = Inr old"
  shows "case V n i of None \<Rightarrow> old = None | Some d \<Rightarrow> \<exists>raw. old = Some (raw, d) \<and> raw \<noteq> []"
proof -
  have n: "colName c = n" using catOk_name [OF dbRelD(1) [OF rel] c] .
  note last = lastPending_chain [OF dbRelD(3) [OF rel], of n i]
  show ?thesis
  proof (cases "lastPending (dbPending db) n i")
    case None
    then have V: "V n i = D n i" using last by simp
    show ?thesis
    proof (cases "getDocNode E (dbEngine db) (Some c) i")
      case (Inl err)
      then have "old = None" "errorIs err ErrNotFound"
        using old None by (auto simp: oldDocument_def pendingDocState_def n split: if_splits)
      then show ?thesis using getDocNode_absent(2) [OF dbRelD(2) [OF rel] c Inl] V by simp
    next
      case (Inr rd)
      then have "old = Some rd" using old None by (auto simp: oldDocument_def pendingDocState_def n)
      then show ?thesis using getDocNode_ok(1,3) [OF dbRelD(2) [OF rel] c] Inr V by (cases rd) auto
    qed
  next
    case (Some mu)
    then show ?thesis using last old
      by (cases "mKind mu") (auto simp: oldDocument_def pendingDocState_def n)
  qed
qed

lemma normalizeRawJSON_ok:
  assumes "normalizeRawJSON E raw = Inr (canon, doc)"
  shows "decodeJSON (envJson E) raw = Inr doc" and "marshalJSON (envJson E) doc = Inr canon" and "canon \<noteq> []"
proof -
  show d: "decodeJSON (envJson E) raw = Inr doc" and m: "marshalJSON (envJson E) doc = Inr canon"
    using assms by (auto simp: normalizeRawJSON_def split: sum.splits)
  show "canon \<noteq> []" using marshal [OF d] m by auto
qed

lemma putLocked_rel:
  assumes rel: "dbRel E kv B db D V" and c: "map_of (collections db) n = Some c"
    and put: "putLocked E c i raw db = (Inr (), db')"
    and dOk: "\<And>doc. decodeJSON (envJson E) raw = Inr doc \<Longrightarrow> fits E doc \<and> stableAll E B c doc"
    and nx: "sint i \<le> sint (colNextID c)"
  obtains doc where "decodeJSON (envJson E) raw = Inr doc" "dbRel E kv B db' D (V(n := (V n)(i \<mapsto> doc)))"
    "dbEngine db' = dbEngine db" "dbClosed db' = dbClosed db"
    "committed E db' D = (committed E db D)(n := (committed E db D n)(i \<mapsto> storedForm E doc))"
proof -
  obtain canon doc old where norm: "normalizeRawJSON E raw = Inr (canon, doc)"
    and old: "oldDocument E db c i = Inr old" and uq: "checkUniqueConstraints E db c i doc = Inr ()"
    using put by (auto simp: putLocked_def split: sum.splits prod.splits)
  note doc = normalizeRawJSON_ok [OF norm]
  obtain oldRaw oldDoc where o: "(case old of None \<Rightarrow> ([], VNil) | Some rd \<Rightarrow> rd) = (oldRaw, oldDoc)" by force
  define col where "col = adjustIndexRNums (envLib E) (if old = None then c\<lparr>colRNum := colRNum c + 1\<rparr> else c) oldDoc doc"
  have n: "colName c = n" using catOk_name [OF dbRelD(1) [OF rel] c] .
  have db': "db' = recordDocPut n i oldRaw canon oldDoc doc (setCol col db)"
    using put norm old uq o n by (cases old) (simp_all add: putLocked_def col_def Let_def)
  have st: "strip col = strip c" and nid: "colNextID col = colNextID c" by (simp_all add: col_def)
  have rel1: "dbRel E kv B (setCol col db) D V" and c1: "map_of (collections (setCol col db)) n = Some col"
    using dbRel_setCol [OF rel c st] dbRelD(6) [OF rel] c nid by (auto simp: nextOk_def)
  have ok: "putOk E doc" using putOkI dOk doc(1) by blast
  have "noConflict E B c i doc (V n)"
    by (rule checkUnique_noConflict [OF dbRelD(2) [OF rel] c dbRelD(3) [OF rel] n refl uq]) (use ok in \<open>simp add: putOk_def\<close>)
  then have nc: "noConflict E B col i doc (V n)" using st noConflict_strip by metis
  have sa: "stableAll E B col doc" using st stableAll_strip dOk doc(1) by metis
  have "mutOk E B (collections (setCol col db)) V \<lparr>mKind = mutationPut, mCollection = n, mId = i,
      mOldRaw = oldRaw, mNewRaw = canon, mOldDoc = oldDoc, mNewDoc = doc\<rparr>"
    using oldDocument_ok [OF rel c old] o ok doc(2,3) nc sa c1 by (auto simp: mutOk_def split: option.splits)
  from dbRel_record [OF rel1 this, where b = True] c1 nx nid
  have "dbRel E kv B db' D (V(n := (V n)(i \<mapsto> doc)))"
    unfolding db' recordDocPut_def by simp
  moreover have "committed E db' D = (committed E db D)(n := (committed E db D n)(i \<mapsto> storedForm E doc))"
    by (simp add: db' committed_def recordDocPut_def applyStored_def)
  ultimately show thesis using that [OF doc(1)] db' by simp
qed

lemma putLocked_schema:
  assumes "dbRel E kv B db D V" and c: "map_of (collections db) n = Some c" and put: "putLocked E c i raw db = (Inr (), db')"
  shows "schemaOf db' = schemaOf db"
proof -
  obtain canon doc old where norm: "normalizeRawJSON E raw = Inr (canon, doc)"
    and old: "oldDocument E db c i = Inr old" and uq: "checkUniqueConstraints E db c i doc = Inr ()"
    using put by (auto simp: putLocked_def split: sum.splits prod.splits)
  obtain oldRaw oldDoc where o: "(case old of None \<Rightarrow> ([], VNil) | Some rd \<Rightarrow> rd) = (oldRaw, oldDoc)" by force
  define col where "col = adjustIndexRNums (envLib E) (if old = None then c\<lparr>colRNum := colRNum c + 1\<rparr> else c) oldDoc doc"
  have st: "strip col = strip c" by (simp add: col_def)
  have n: "colName col = n" using catOk_name [OF dbRelD(1) [OF assms(1)] c] strip_colName [OF st] by simp
  have "db' = recordDocPut (colName c) i oldRaw canon oldDoc doc (setCol col db)"
    using put norm old uq o by (cases old) (simp_all add: putLocked_def col_def Let_def)
  then have "schemaOf db' = schemaOf (setCol col db)" by (simp add: schemaOf_def)
  then show ?thesis using schemaOf_setCol [OF c st n] by simp
qed

lemma deleteLocked_schema:
  assumes "dbRel E kv B db D V" and c: "map_of (collections db) n = Some c"
  shows "schemaOf (deleteLocked E c i raw d db) = schemaOf db"
proof -
  define col where "col = adjustIndexRNums (envLib E) (if 0 < colRNum c then c\<lparr>colRNum := colRNum c - 1\<rparr> else c) d VNil"
  have st: "strip col = strip c" by (simp add: col_def)
  have n: "colName col = n" using catOk_name [OF dbRelD(1) [OF assms(1)] c] strip_colName [OF st] by simp
  have "schemaOf (deleteLocked E c i raw d db) = schemaOf (setCol col db)"
    by (simp add: deleteLocked_def col_def Let_def setCol_def setCollections_def recordDocDelete_def schemaOf_def)
  then show ?thesis using schemaOf_setCol [OF c st n] by simp
qed

lemma deleteLocked_rel:
  assumes rel: "dbRel E kv B db D V" and c: "map_of (collections db) n = Some c" and d: "V n i = Some d" and raw: "raw \<noteq> []"
  shows "dbRel E kv B (deleteLocked E c i raw d db) D (V(n := (V n)(i := None)))"
    and "dbEngine (deleteLocked E c i raw d db) = dbEngine db" "dbClosed (deleteLocked E c i raw d db) = dbClosed db"
    and "committed E (deleteLocked E c i raw d db) D = (committed E db D)(n := (committed E db D n)(i := None))"
proof -
  define col where "col = adjustIndexRNums (envLib E) (if 0 < colRNum c then c\<lparr>colRNum := colRNum c - 1\<rparr> else c) d VNil"
  have n: "colName c = n" using catOk_name [OF dbRelD(1) [OF rel] c] .
  have st: "strip col = strip c" and nid: "colNextID col = colNextID c" by (simp_all add: col_def)
  have nm: "colName col = n" using strip_colName [OF st] n by simp
  have eq: "deleteLocked E c i raw d db = recordDocDelete n i raw d (setCol col db)"
    by (simp add: deleteLocked_def col_def n Let_def setCol_def setCollections_def recordDocDelete_def)
  have rel1: "dbRel E kv B (setCol col db) D V" and c1: "map_of (collections (setCol col db)) n = Some col"
    using dbRel_setCol [OF rel c st] dbRelD(6) [OF rel] c nid by (auto simp: nextOk_def)
  have "mutOk E B (collections (setCol col db)) V \<lparr>mKind = mutationDelete, mCollection = n, mId = i,
      mOldRaw = raw, mNewRaw = [], mOldDoc = d, mNewDoc = VNil\<rparr>"
    using c1 d raw by (auto simp: mutOk_def)
  from dbRel_record [OF rel1 this, where b = True]
  show "dbRel E kv B (deleteLocked E c i raw d db) D (V(n := (V n)(i := None)))"
    unfolding eq recordDocDelete_def by simp
  show "dbEngine (deleteLocked E c i raw d db) = dbEngine db" "dbClosed (deleteLocked E c i raw d db) = dbClosed db"
    by (simp_all add: eq)
  show "committed E (deleteLocked E c i raw d db) D = (committed E db D)(n := (committed E db D n)(i := None))"
    by (simp add: eq committed_def recordDocDelete_def applyStored_def)
qed

lemma commitLocked_rel:
  assumes rel: "dbRel E kv B db D V" and com: "commitLocked E db = (Inr (), db')" and open_db: "\<not> dbClosed db"
  shows "dbInv E kv B db' (committed E db D)" and "dbSt db' = dbSt db"
proof -
  note r = dbRelD [OF rel]
  have "dbInv E kv B db' (committed E db D) \<and> dbSt db' = dbSt db"
  proof (cases "\<not> dbDirtyMeta db \<and> dbPending db = []")
    case True
    then have "V = D" "db' = db" "committed E db D = D" using r(3,4) com by (auto simp: commitLocked_def)
    then show ?thesis using rel True open_db by (simp add: dbInv_def)
  next
    case False
    then have "persistPendingLocked E db = (Inr (), db')" using com r(4) by (auto simp: commitLocked_def)
    from persistPending_ok [OF this] obtain meta ops e' where p: "pendingOps E (collections db) (dbPending db) = Inr ops"
      and e: "engCommit (envEng E) (dbEngine db) (BSet keyMetaState meta # ops) = Inr e'"
      and db': "db' = clearPending (db\<lparr>dbEngine := e'\<rparr>)" .
    let ?W = "committed E db D"
    have kv': "kv e' = applyBatch ops ((kv (dbEngine db))(keyMetaState \<mapsto> meta))" using commit [OF e] by simp
    note refl = settles_refl [OF r(2)]
    have "storeRel E B (kv e') (collections db) ?W"
      unfolding kv' committed_def by (rule commit_chain [OF r(1) _ refl r(3) p]) (simp only: keySeq_untouched r(2))
    moreover have "idsOk (kv e') (stNextCollectionID (dbSt db)) (collections db)"
      unfolding commit [OF e]
      by (rule idsOk_batch [OF r(5)]) (use pendingOps_owner [OF p] r(5) in \<open>auto simp: idsOk_def\<close>)
    moreover have "?W n = (\<lambda>_. None)" if "map_of (collections db) n = None" for n
      using settled_dom [OF r(3) that] r(7) [OF that] by (simp add: committed_def)
    moreover have "nextOk (collections db) ?W"
      using r(6) settlesD(1) [OF chain_settles [OF r(3) refl]] unfolding nextOk_def committed_def by metis
    ultimately show ?thesis using r(1,8) open_db by (simp add: dbInv_def dbRel_def db' clearPending_def)
  qed
  then show "dbInv E kv B db' (committed E db D)" "dbSt db' = dbSt db" by auto
qed

lemma puts_commit:
  assumes "puts E kv db db1 B D D n i doc" and "commitLocked E db1 = (Inr (), db')" and "\<not> dbClosed db" and "dbPending db = []"
  shows "storedPut E kv db db' B D n i doc"
  unfolding storedPut_def
proof
  assume "fits E doc"
  then have p: "dbRel E kv (B \<union> spoils E (collections db) n doc) db1 D (D(n := (D n)(i \<mapsto> doc)))" "\<not> dbClosed db1"
    "committed E db1 D = D(n := (D n)(i \<mapsto> storedForm E doc))" using assms(1,3,4) by (auto simp: puts_def)
  from commitLocked_rel(1) [OF p(1) assms(2) p(2)]
  show "dbInv E kv (B \<union> spoils E (collections db) n doc) db' (D(n := (D n)(i \<mapsto> storedForm E doc)))" by (simp only: p(3))
qed

lemma putLocked_puts:
  assumes rel: "dbRel E kv B db D V" and c: "map_of (collections db) n = Some c" and put: "putLocked E c i raw db = (Inr (), db')"
    and nx: "sint i \<le> sint (colNextID c)"
  obtains doc where "decodeJSON (envJson E) raw = Inr doc" "puts E kv db db' B D V n i doc"
proof -
  obtain doc where doc: "decodeJSON (envJson E) raw = Inr doc"
    using put normalizeRawJSON_ok(1) by (auto simp: putLocked_def split: sum.splits prod.splits)
  moreover have "puts E kv db db' B D V n i doc"
  proof -
    have "fits E doc \<Longrightarrow> ?thesis"
      by (rule putLocked_rel [OF dbRel_spoil [OF rel, of n doc] c put _ nx])
         (use doc spoils_stableAll [OF c] in \<open>auto simp: puts_def\<close>)
    then show ?thesis by (auto simp: puts_def)
  qed
  ultimately show thesis using that by blast
qed

text \<open>A put under a given id, and a put under the next id.\<close>

lemma putInto_puts:
  assumes rel: "dbRel E kv B db D V" and room: "room db" and e: "ensureCollectionLocked n db = (c, db1)"
    and st: "strip col = strip c" and nid: "sint i \<le> sint (colNextID col)" "sint (colNextID c) \<le> sint (colNextID col)"
    and put: "putLocked E col i raw (setCol col db1) = (Inr (), db')"
  obtains doc where "decodeJSON (envJson E) raw = Inr doc" "puts E kv db db' B D V n i doc"
proof -
  note e' = ensureCollection_rel [OF rel room e]
  have "sint j \<le> sint (colNextID col)" if "V n j \<noteq> None" for j
    using dbRelD(6) [OF e'(1)] e'(2) that nid(2) unfolding nextOk_def by (meson order_trans)
  note rel1 = dbRel_setCol [OF e'(1,2) st this]
  have nm: "colName col = n" using strip_colName [OF st] catOk_name [OF dbRelD(1) [OF e'(1)] e'(2)] by simp
  have sp: "spoils E (collections (setCol col db1)) n p = spoils E (collections db) n p" for p
    using spoils_setCol [OF st e'(2), of E n p] ensureCollection_spoils [OF rel e] by (simp add: nm)
  have "committed E (setCol col db1) D = committed E db D" using e'(4) by (simp add: committed_def)
  then have eq: "puts E kv (setCol col db1) db' B D V n i doc \<longleftrightarrow> puts E kv db db' B D V n i doc" for doc
    using e'(3,5) by (simp only: puts_def sp) simp
  obtain doc where "decodeJSON (envJson E) raw = Inr doc" "puts E kv (setCol col db1) db' B D V n i doc"
    by (rule putLocked_puts [OF rel1 put nid(1)])
  then show thesis using that eq by simp
qed

lemma putInto_schema:
  assumes rel: "dbRel E kv B db D V" and room: "room db" and e: "ensureCollectionLocked n db = (c, db1)"
    and st: "strip col = strip c" and nid: "sint (colNextID c) \<le> sint (colNextID col)"
    and put: "putLocked E col i raw (setCol col db1) = (Inr (), db')"
  shows "schemaOf db' = made n (schemaOf db)"
proof -
  note e' = ensureCollection_rel [OF rel room e]
  have "sint j \<le> sint (colNextID col)" if "V n j \<noteq> None" for j
    using dbRelD(6) [OF e'(1)] e'(2) that nid unfolding nextOk_def by (meson order_trans)
  note rel1 = dbRel_setCol [OF e'(1,2) st this]
  have nm: "colName col = n" using strip_colName [OF st] catOk_name [OF dbRelD(1) [OF e'(1)] e'(2)] by simp
  show ?thesis using putLocked_schema [OF rel1 put] schemaOf_setCol [OF e'(2) st nm] ensureCollection_schema [OF rel e] by simp
qed

lemma putIdLocked_schema:
  assumes rel: "dbRel E kv B db D V" and "room db" and put: "putIdLocked E n i raw db = (Inr (), db')"
  shows "schemaOf db' = made n (schemaOf db)"
proof -
  obtain c db1 where e: "ensureCollectionLocked n db = (c, db1)" by force
  let ?col = "if sint (colNextID c) < sint i then c\<lparr>colNextID := i\<rparr> else c"
  have "putLocked E ?col i raw (setCol ?col db1) = (Inr (), db')" using put by (simp add: putIdLocked_def e Let_def)
  then show ?thesis by (rule putInto_schema [OF rel assms(2) e, rotated 2]) simp_all
qed

lemma putIdLocked_rel:
  assumes rel: "dbRel E kv B db D V" and "room db" and put: "putIdLocked E n i raw db = (Inr (), db')"
  obtains doc where "decodeJSON (envJson E) raw = Inr doc" "puts E kv db db' B D V n i doc"
proof -
  obtain c db1 where e: "ensureCollectionLocked n db = (c, db1)" by force
  define col where "col = (if sint (colNextID c) < sint i then c\<lparr>colNextID := i\<rparr> else c)"
  have st: "strip col = strip c" and nid: "sint i \<le> sint (colNextID col)" "sint (colNextID c) \<le> sint (colNextID col)"
    by (simp_all add: col_def)
  have p: "putLocked E col i raw (setCol col db1) = (Inr (), db')"
    using put by (simp add: putIdLocked_def e col_def Let_def)
  show thesis by (rule putInto_puts [OF rel assms(2) e st nid p]) (rule that)
qed

lemma putNewLocked_rel:
  assumes rel: "dbRel E kv B db D V" and "room db" and put: "putNewLocked E n raw db = (Inr i, db')"
    and lim: "\<And>c. map_of (collections db) n = Some c \<Longrightarrow> sint (colNextID c) < 2 ^ 63 - 1"
  obtains doc where "decodeJSON (envJson E) raw = Inr doc" "V n i = None" "puts E kv db db' B D V n i doc"
proof -
  obtain c db1 where e: "ensureCollectionLocked n db = (c, db1)" by force
  note e' = ensureCollection_rel [OF rel assms(2) e]
  define col where "col = c\<lparr>colNextID := colNextID c + 1\<rparr>"
  have "sint (colNextID c) < 2 ^ 63 - 1"
  proof (cases "map_of (collections db) n")
    case None
    then show ?thesis using e by (auto simp: ensureCollection_new emptyCol_def)
  next
    case (Some c0)
    then show ?thesis using e lim by (simp add: ensureCollection_old [OF rel])
  qed
  then have nid: "sint (colNextID col) = sint (colNextID c) + 1" unfolding col_def by (simp add: sint_Suc)
  have le: "sint j \<le> sint (colNextID c)" if "V n j \<noteq> None" for j
    using dbRelD(6) [OF e'(1)] e'(2) that unfolding nextOk_def by blast
  have st: "strip col = strip c" by (simp add: col_def)
  have p: "putLocked E col i raw (setCol col db1) = (Inr (), db')" and i: "i = colNextID col"
    using put by (auto simp: putNewLocked_def e col_def Let_def split: prod.splits sum.splits)
  have "V n i = None"
  proof (rule ccontr)
    assume "V n i \<noteq> None"
    then show False using le [of i] i nid by simp
  qed
  with putInto_puts [OF rel assms(2) e st _ _ p] i nid that show thesis by auto
qed

lemma putNewLocked_schema:
  assumes rel: "dbRel E kv B db D V" and "room db" and put: "putNewLocked E n raw db = (Inr i, db')"
    and lim: "\<And>c. map_of (collections db) n = Some c \<Longrightarrow> sint (colNextID c) < 2 ^ 63 - 1"
  shows "schemaOf db' = made n (schemaOf db)"
proof -
  obtain c db1 where e: "ensureCollectionLocked n db = (c, db1)" by force
  let ?col = "c\<lparr>colNextID := colNextID c + 1\<rparr>"
  have "sint (colNextID c) < 2 ^ 63 - 1" using e lim ensureCollection_old [OF rel, of n]
    by (cases "map_of (collections db) n") (auto simp: ensureCollection_new emptyCol_def)
  then have "sint (colNextID c) \<le> sint (colNextID ?col)" by (simp add: sint_Suc)
  moreover have "putLocked E ?col i raw (setCol ?col db1) = (Inr (), db')"
    using put by (auto simp: putNewLocked_def e Let_def split: prod.splits sum.splits)
  ultimately show ?thesis by (intro putInto_schema [OF rel assms(2) e]) simp_all
qed

lemma commitLocked_st: "commitLocked E db = (Inr (), db') \<Longrightarrow> dbSt db' = dbSt db"
  by (auto simp: commitLocked_def persistFullLocked_def persistPendingLocked_def commitBatch_def clearPending_def
      split: if_splits sum.splits)

lemma commitLocked_schema: "commitLocked E db = (Inr (), db') \<Longrightarrow> schemaOf db' = schemaOf db"
  using commitLocked_st by (simp add: schemaOf_def)

lemma thenCommit_ok: "thenCommit E r = (Inr (), db') \<Longrightarrow> \<exists>db1. r = (Inr (), db1) \<and> commitLocked E db1 = (Inr (), db')"
  by (auto simp: thenCommit_def split: prod.splits sum.splits)

lemma put_refines:
  assumes inv: "dbInv E kv B db D" and "room db" and put: "DB_Put E n i raw db = (Inr (), db')"
  shows "\<exists>doc. decodeJSON (envJson E) raw = Inr doc \<and> storedPut E kv db db' B D n i doc"
proof -
  have rel: "dbRel E kv B db D D" and op: "\<not> dbClosed db" "dbPending db = []" using inv by (auto simp: dbInv_def)
  obtain db1 where p: "putIdLocked E n i raw db = (Inr (), db1)" and c: "commitLocked E db1 = (Inr (), db')"
    using thenCommit_ok put op by (metis DB_Put_def)
  show ?thesis using putIdLocked_rel [OF rel assms(2) p] puts_commit [OF _ c op] by metis
qed

lemma putNew_refines:
  assumes inv: "dbInv E kv B db D" and "room db" and put: "DB_PutNew E n raw db = (Inr i, db')"
    and lim: "\<And>c. map_of (collections db) n = Some c \<Longrightarrow> sint (colNextID c) < 2 ^ 63 - 1"
  shows "\<exists>doc. decodeJSON (envJson E) raw = Inr doc \<and> D n i = None \<and> storedPut E kv db db' B D n i doc"
proof -
  have rel: "dbRel E kv B db D D" and op: "\<not> dbClosed db" "dbPending db = []" using inv by (auto simp: dbInv_def)
  obtain db1 where p: "putNewLocked E n raw db = (Inr i, db1)" and c: "commitLocked E db1 = (Inr (), db')"
    using put op by (auto simp: DB_PutNew_def split: prod.splits sum.splits)
  show ?thesis using putNewLocked_rel [OF rel assms(2) p lim] puts_commit [OF _ c op] by metis
qed

lemma get_refines:
  assumes inv: "dbInv E kv B db D"
  shows "readResult E (dbEngine db) (D n i) (DB_Get E n i db)"
proof -
  have rel: "dbRel E kv B db D D" and op: "\<not> dbClosed db" using inv by (auto simp: dbInv_def)
  show ?thesis
  proof (cases "map_of (collections db) n")
    case None
    then show ?thesis using op dbRelD(7) [OF rel None] by (simp add: DB_Get_def readResult_def)
  next
    case (Some c)
    then show ?thesis using op getDocRaw_result [OF dbRelD(2) [OF rel] Some] by (simp add: DB_Get_def)
  qed
qed

lemma delete_refines:
  assumes inv: "dbInv E kv B db D" and del: "DB_Delete E n i db = (Inr (), db')"
  shows "D n i \<noteq> None \<and> dbInv E kv B db' (D(n := (D n)(i := None)))"
proof -
  have rel: "dbRel E kv B db D D" and op: "\<not> dbClosed db" "dbPending db = []" using inv by (auto simp: dbInv_def)
  obtain c raw d where c: "map_of (collections db) n = Some c" and g: "getDocNode E (dbEngine db) (Some c) i = Inr (raw, d)"
    and com: "commitLocked E (deleteLocked E c i raw d db) = (Inr (), db')"
    using del op by (auto simp: DB_Delete_def split: option.splits sum.splits)
  note d = getDocNode_ok [OF dbRelD(2) [OF rel] c g]
  note r = deleteLocked_rel [OF rel c d(1,3)]
  show ?thesis using commitLocked_rel(1) [OF r(1) com] r(3,4) op d(1) by simp
qed

lemma patch_refines:
  assumes inv: "dbInv E kv B db D" and op: "DB_Patch E n i patch db = (Inr (), db')"
  shows "\<exists>d raw newRaw doc. D n i = Some d \<and> marshalJSON (envJson E) d = Inr raw
    \<and> applyJSONPatch (envLib E) (envJson E) (envRoom E raw) raw patch = Inr newRaw
    \<and> decodeJSON (envJson E) newRaw = Inr doc \<and> storedPut E kv db db' B D n i doc"
proof -
  have rel: "dbRel E kv B db D D" and open_db: "\<not> dbClosed db" "dbPending db = []" using inv by (auto simp: dbInv_def)
  obtain c raw newRaw db1 where c: "map_of (collections db) n = Some c" and g: "getDocRaw E (dbEngine db) (Some c) i = Inr raw"
    and a: "applyJSONPatch (envLib E) (envJson E) (envRoom E raw) raw patch = Inr newRaw"
    and p: "putLocked E c i newRaw db = (Inr (), db1)" and com: "commitLocked E db1 = (Inr (), db')"
    using op open_db by (auto simp: DB_Patch_def split: option.splits sum.splits dest!: thenCommit_ok)
  obtain d where "getDocNode E (dbEngine db) (Some c) i = Inr (raw, d)"
    using g by (cases "getDocNode E (dbEngine db) (Some c) i") (auto simp: getDocRaw_node)
  note d = getDocNode_ok [OF dbRelD(2) [OF rel] c this]
  have nx: "sint i \<le> sint (colNextID c)" using dbRelD(6) [OF rel] c d(1) unfolding nextOk_def by blast
  from putLocked_puts [OF rel c p nx] puts_commit [OF _ com open_db]
  obtain doc where "decodeJSON (envJson E) newRaw = Inr doc" "storedPut E kv db db' B D n i doc" by metis
  then show ?thesis using d(1,2) a by blast
qed

lemma mergeOrPut_refines:
  assumes inv: "dbInv E kv B db D" and room: "room db" and op: "DB_MergeOrPut E n i patch db = (Inr (), db')"
  shows "\<exists>newRaw doc. (case D n i of
        None \<Rightarrow> newRaw = patch
      | Some d \<Rightarrow> \<exists>raw. marshalJSON (envJson E) d = Inr raw \<and> applyMergePatch (envJson E) raw patch = Inr newRaw)
    \<and> decodeJSON (envJson E) newRaw = Inr doc \<and> storedPut E kv db db' B D n i doc"
proof -
  have rel: "dbRel E kv B db D D" and open_db: "\<not> dbClosed db" "dbPending db = []" using inv by (auto simp: dbInv_def)
  obtain c db0 where e: "ensureCollectionLocked n db = (c, db0)" by force
  note e' = ensureCollection_rel [OF rel room e]
  define col where "col = (if sint (colNextID c) < sint i then c\<lparr>colNextID := i\<rparr> else c)"
  show ?thesis
  proof (cases "getDocNode E (dbEngine db0) (Some c) i")
    case (Inl err)
    then obtain db1 where nf: "errorIs err ErrNotFound" and p: "putLocked E col i patch (setCol col db0) = (Inr (), db1)"
      and com: "commitLocked E db1 = (Inr (), db')"
      using op open_db by (auto simp: DB_MergeOrPut_def e getDocRaw_node col_def Let_def split: if_splits dest!: thenCommit_ok)
    have none: "D n i = None" using getDocNode_absent(2) [OF dbRelD(2) [OF e'(1)] e'(2) Inl nf] .
    have st: "strip col = strip c" and nid: "sint i \<le> sint (colNextID col)" "sint (colNextID c) \<le> sint (colNextID col)"
      by (simp_all add: col_def)
    from putInto_puts [OF rel room e st nid p] puts_commit [OF _ com open_db]
    obtain doc where "decodeJSON (envJson E) patch = Inr doc" "storedPut E kv db db' B D n i doc" by metis
    then show ?thesis using none by (intro exI [of _ patch] exI [of _ doc]) simp
  next
    case (Inr rd)
    obtain raw d where rd: "rd = (raw, d)" by force
    obtain newRaw db1 where a: "applyMergePatch (envJson E) raw patch = Inr newRaw"
      and p: "putLocked E c i newRaw db0 = (Inr (), db1)" and com: "commitLocked E db1 = (Inr (), db')"
      using op open_db Inr rd
      by (auto simp: DB_MergeOrPut_def e getDocRaw_node split: sum.splits dest!: thenCommit_ok)
    note d = getDocNode_ok [OF dbRelD(2) [OF e'(1)] e'(2) Inr [unfolded rd]]
    have nx: "sint i \<le> sint (colNextID c)" using dbRelD(6) [OF e'(1)] e'(2) d(1) unfolding nextOk_def by blast
    have same: "setCol c db0 = db0"
      using e'(2) catOk_name [OF dbRelD(1) [OF e'(1)] e'(2)] by (simp add: setCol_def setCollections_def update_triv)
    have p': "putLocked E c i newRaw (setCol c db0) = (Inr (), db1)" using p by (simp only: same)
    from putInto_puts [OF rel room e refl nx order_refl p'] puts_commit [OF _ com open_db]
    obtain doc where "decodeJSON (envJson E) newRaw = Inr doc" "storedPut E kv db db' B D n i doc" by metis
    then show ?thesis using d(1,2) a by (intro exI [of _ newRaw] exI [of _ doc]) simp
  qed
qed

lemma ensureCollection_refines:
  assumes inv: "dbInv E kv B db D" and room: "room db" and op: "DB_EnsureCollection E n db = (Inr (), db')"
  shows "dbInv E kv B db' D \<and> map_of (collections db') n \<noteq> None"
proof -
  have rel: "dbRel E kv B db D D" and open_db: "\<not> dbClosed db" "dbPending db = []" using inv by (auto simp: dbInv_def)
  obtain c db0 where e: "ensureCollectionLocked n db = (c, db0)" by force
  note e' = ensureCollection_rel [OF rel room e]
  have "dbRel E kv B (markMetaDirty db0) D D" using e'(1) by (simp add: dbRel_def markMetaDirty_def)
  moreover have com: "commitLocked E (markMetaDirty db0) = (Inr (), db')"
    using op open_db by (simp add: DB_EnsureCollection_def e)
  ultimately show ?thesis using commitLocked_rel [OF _ com] e'(2,4,5) open_db by (simp add: markMetaDirty_def)
qed

end

end
