(* ===== verification/RefineCat.thy ===== *)
theory RefineCat
  imports Refine
begin

text \<open>
  The operations that remove or rename collections and remove indexes, against the same abstract map:
  what they drop from the store is exactly what belongs to the collection or the index.
\<close>

section \<open>Dropping ranges\<close>

lemma prefixEnd_tag: "t \<noteq> 0xff \<Longrightarrow> prefixEnd (t # p) \<noteq> []"
proof (induction p rule: rev_induct)
  case Nil
  then show ?case using prefixEnd_snoc [of "[]" t] by simp
next
  case (snoc b p)
  then show ?case using prefixEnd_snoc [of "t # p" b] by simp
qed

definition dropped :: "bytes list \<Rightarrow> kv \<Rightarrow> kv" where
  "dropped ps m = (\<lambda>K. if \<exists>p \<in> set ps. HasPrefix K p then None else m K)"

definition dropOps :: "bytes list \<Rightarrow> batchOp list" where
  "dropOps ps = map (\<lambda>p. BDeleteRange p (prefixEnd p)) ps"

lemma applyBatch_dropOps: "\<forall>p \<in> set ps. prefixEnd p \<noteq> [] \<Longrightarrow> applyBatch (dropOps ps) m = dropped ps m"
proof (induction ps arbitrary: m)
  case (Cons p ps)
  have "applyOp1 (BDeleteRange p (prefixEnd p)) m = dropped [p] m"
    using Cons.prems prefix_range [of p] by (auto simp: fun_eq_iff dropped_def inKeyRange_def)
  then show ?case using Cons by (simp add: dropOps_def) (simp add: dropped_def fun_eq_iff)
qed (simp add: dropOps_def dropped_def)

definition indexPrefixes :: "indexState list \<Rightarrow> bytes list" where
  "indexPrefixes ixs = concat (map (\<lambda>idx. [keyIndexPathPrefix idx, keyUniqueIndexPathPrefix idx]) ixs)"

lemma dropIndexOps_eq: "concat (map dropIndexOps ixs) = dropOps (indexPrefixes ixs)"
  by (induction ixs) (simp_all add: dropIndexOps_def dropOps_def indexPrefixes_def)

lemma dropOps_no_sets [simp]: "BSet K v \<notin> set (dropOps ps)"
  by (auto simp: dropOps_def)

lemma prefixEnd_keys [simp]:
  "prefixEnd (keyDocPrefix d) \<noteq> []" "prefixEnd (keyIndexPathPrefix idx) \<noteq> []" "prefixEnd (keyUniqueIndexPathPrefix idx) \<noteq> []"
  by (simp_all add: key_layout prefixEnd_tag keyTag_defs)

lemma append_same_length: "length a = length b \<Longrightarrow> a @ r = b @ s \<longleftrightarrow> a = b \<and> r = s"
  by simp

lemma prefix_keys [simp]:
  "HasPrefix (keyDoc d i) (keyDocPrefix d') \<longleftrightarrow> d = d'"
  "\<not> HasPrefix (keyDoc d i) (keyIndexPathPrefix idx)" "\<not> HasPrefix (keyDoc d i) (keyUniqueIndexPathPrefix idx)"
  "\<not> HasPrefix (keyIndex idx v i) (keyDocPrefix d)" "\<not> HasPrefix (keyUniqueIndex idx v) (keyDocPrefix d)"
  "HasPrefix (keyIndex idx v i) (keyIndexPathPrefix idx') \<longleftrightarrow> idxDBID idx = idxDBID idx'"
  "HasPrefix (keyUniqueIndex idx v) (keyUniqueIndexPathPrefix idx') \<longleftrightarrow> idxDBID idx = idxDBID idx'"
  "\<not> HasPrefix (keyIndex idx v i) (keyUniqueIndexPathPrefix idx')" "\<not> HasPrefix (keyUniqueIndex idx v) (keyIndexPathPrefix idx')"
  using i64.enc_inject by (auto simp: HasPrefix_iff key_layout keyTag_defs append_same_length)

lemma dropped_indexPrefixes [simp]:
  "dropped (indexPrefixes ixs) m (keyDoc d i) = m (keyDoc d i)"
  "idxDBID idx \<notin> idxDBID ` set ixs \<Longrightarrow> dropped (indexPrefixes ixs) m (keyIndex idx v i) = m (keyIndex idx v i)"
  "idxDBID idx \<notin> idxDBID ` set ixs \<Longrightarrow> dropped (indexPrefixes ixs) m (keyUniqueIndex idx v) = m (keyUniqueIndex idx v)"
  "idxDBID idx \<in> idxDBID ` set ixs \<Longrightarrow> dropped (indexPrefixes ixs) m (keyIndex idx v i) = None"
  "idxDBID idx \<in> idxDBID ` set ixs \<Longrightarrow> dropped (indexPrefixes ixs) m (keyUniqueIndex idx v) = None"
  by (auto simp: dropped_def indexPrefixes_def)

lemma dropped_Cons: "dropped (p # ps) m K = (if HasPrefix K p then None else dropped ps m K)"
  by (simp add: dropped_def)

lemma prefixEnd_indexPrefixes: "\<forall>p \<in> set (indexPrefixes ixs). prefixEnd p \<noteq> []"
  by (auto simp: indexPrefixes_def)

section \<open>Stores that agree on a collection\<close>

lemma colRel_cong:
  assumes "colRel E B m c docs" and "\<And>i. m' (keyDoc (colDBID c) i) = m (keyDoc (colDBID c) i)"
    and "\<And>k idx v i. (k, idx) \<in> set (colIndexes c) \<Longrightarrow> m' (keyIndex idx v i) = m (keyIndex idx v i)"
    and "\<And>k idx v. (k, idx) \<in> set (colIndexes c) \<Longrightarrow> m' (keyUniqueIndex idx v) = m (keyUniqueIndex idx v)"
  shows "colRel E B m' c docs"
proof -
  have "indexRel E m' idx docs" if "(k, idx) \<in> set (colIndexes c)" "idxDBID idx \<notin> B" for k idx
    using colRelD(3) [OF assms(1) that] assms(3,4) [OF that(1)] by (simp add: indexRel_def)
  then show ?thesis using assms(1,2) unfolding colRel_def by auto
qed

text \<open>The catalog around one collection.\<close>

lemma split_cols:
  assumes "catOk cols" and "map_of cols n = Some c"
  obtains xs ys where "cols = xs @ (n, c) # ys" "AList.delete n cols = xs @ ys"
    "\<forall>c'. AList.update n c' cols = xs @ (n, c') # ys" "n \<notin> fst ` set xs" "n \<notin> fst ` set ys"
proof -
  obtain xs ys where cols: "cols = xs @ (n, c) # ys" using map_of_SomeD [OF assms(2)] by (meson split_list)
  moreover have "distinct (map fst cols)" using assms(1) by (simp add: catOk_def)
  ultimately have d: "n \<notin> fst ` set xs" "n \<notin> fst ` set ys" by auto
  have del: "n \<notin> fst ` set zs \<Longrightarrow> AList.delete n zs = zs" for zs :: "(string \<times> collectionState) list"
    by (induction zs) auto
  have "AList.delete n cols = xs @ ys" unfolding cols using del [OF d(1)] del [OF d(2)]
    by (simp add: AList.delete_eq)
  moreover have "AList.update n c' cols = xs @ (n, c') # ys" for c'
    unfolding cols using d(1) by (induction xs) auto
  ultimately show thesis using that cols d by blast
qed

lemma catOk_key:
  "catOk cols \<Longrightarrow> (n, c) \<in> set cols \<Longrightarrow> (k, idx) \<in> set (colIndexes c) \<Longrightarrow>
     k = indexKey (idxPath idx) (idxKind idx) (idxUnique idx) \<and> knownKind (idxKind idx)"
  by (fastforce simp: catOk_def)

lemma catIndexes_append [simp]:
  "catIndexes (xs @ ys) = catIndexes xs @ catIndexes ys" "catIndexes ((n, c) # ys) = map snd (colIndexes c) @ catIndexes ys"
  "catIndexes [] = []"
  by (simp_all add: catIndexes_def)

lemma catIds_append [simp]:
  "catIds (xs @ ys) = catIds xs \<union> catIds ys" "catIds ((n, c) # ys) = insert (colDBID c) (idxDBID ` snd ` set (colIndexes c) \<union> catIds ys)"
  "catIds [] = {}"
  by (auto simp: catIds_def)

lemma idsOk_subset: "idsOk m next cols \<Longrightarrow> catIds cols' \<subseteq> catIds cols \<Longrightarrow> idsOk m next cols'"
  by (auto simp: idsOk_def)

lemma index_in_catIndexes: "(n, c) \<in> set cols \<Longrightarrow> (k, idx) \<in> set (colIndexes c) \<Longrightarrow> idx \<in> set (catIndexes cols)"
  by (force simp: catIndexes_def)

context db_env
begin

lemma removeCollection_refines:
  assumes inv: "dbInv E kv B db D" and op: "DB_RemoveCollection E n db = (Inr (), db')"
  shows "dbInv E kv B db' (D(n := (\<lambda>_. None))) \<and> map_of (collections db') = (map_of (collections db))(n := None)"
proof -
  have rel: "dbRel E kv B db D D" and open_db: "\<not> dbClosed db" "dbPending db = []" using inv by (auto simp: dbInv_def)
  note r = dbRelD [OF rel]
  show ?thesis
  proof (cases "map_of (collections db) n")
    case None
    then show ?thesis using inv op open_db r(7) [OF None] by (simp add: DB_RemoveCollection_def fun_upd_idem)
  next
    case (Some c)
    from split_cols [OF r(1) Some] obtain xs ys where s: "collections db = xs @ (n, c) # ys"
      "AList.delete n (collections db) = xs @ ys" "n \<notin> fst ` set xs" "n \<notin> fst ` set ys" .
    let ?ixs = "map snd (colIndexes c)"
    obtain meta e' where e: "engCommit (envEng E) (dbEngine db)
        (dropOps [keyDocPrefix (colDBID c)] @ BDelete (keySeq (colDBID c)) # dropOps (indexPrefixes ?ixs) @ [BSet keyMetaState meta]) = Inr e'"
      and db': "db' = (setCollections (xs @ ys) db)\<lparr>dbEngine := e'\<rparr>"
      using op open_db Some unfolding dropIndexOps_eq [symmetric]
      by (auto simp: DB_RemoveCollection_def dropCollectionDataAndCommitLocked_def commitBatch_def s(2) dropOps_def
          setCollections_def comp_def split: sum.splits)
    have kv': "kv e' = (dropped (indexPrefixes ?ixs) ((dropped [keyDocPrefix (colDBID c)] (kv (dbEngine db)))(keySeq (colDBID c) := None)))(keyMetaState \<mapsto> meta)"
      using commit [OF e] by (simp add: applyBatch_dropOps prefixEnd_indexPrefixes)
    have ok: "catOk (xs @ ys)" using r(1) s(3,4) unfolding s(1) by (auto simp: catOk_def)
    have store: "storeRel E B (kv e') (xs @ ys) (D(n := (\<lambda>_. None)))"
      unfolding storeRel_def
    proof clarify
      fix n' c'
      assume mem: "(n', c') \<in> set (xs @ ys)"
      then have mem': "(n', c') \<in> set (collections db)" and ne: "n' \<noteq> n" using s by force+
      have memc: "(n, c) \<in> set (collections db)" using s(1) by simp
      have id: "colDBID c' \<noteq> colDBID c" using catOk_same(1) [OF r(1) mem' memc] ne by simp
      have ix: "idxDBID idx \<notin> idxDBID ` set ?ixs" if "(k, idx) \<in> set (colIndexes c')" for k idx
        using catIndexes_unique [OF r(1) mem' memc that] ne by fastforce
      have "colRel E B (kv (dbEngine db)) c' (D n')" using r(2) mem' by (auto simp: storeRel_def)
      then have "colRel E B (kv e') c' (D n')"
        by (rule colRel_cong) (use id ix in \<open>simp_all add: kv' dropped_Cons\<close>, simp_all add: dropped_def)
      then show "colRel E B (kv e') c' ((D(n := (\<lambda>_. None))) n')" using ne by simp
    qed
    have "idsOk (kv e') (stNextCollectionID (dbSt db)) (collections db)"
      unfolding commit [OF e] by (rule idsOk_batch [OF r(5)]) auto
    then have ids: "idsOk (kv e') (stNextCollectionID (dbSt db)) (xs @ ys)"
      by (rule idsOk_subset) (auto simp: s(1))
    have lk: "map_of (xs @ ys) = (map_of (collections db))(n := None)" unfolding s(2) [symmetric] by (rule AList.delete_conv')
    have "nextOk (xs @ ys) (D(n := (\<lambda>_. None)))" using r(6) unfolding nextOk_def lk by auto
    then show ?thesis using ok store ids r(4,7,8) lk open_db
      by (auto simp: dbInv_def dbRel_def db' setCollections_def simp del: map_of_append)
  qed
qed

lemma renameCollection_refines:
  assumes inv: "dbInv E kv B db D" and op: "DB_RenameCollection E old new db = (Inr (), db')"
  shows "map_of (collections db) old \<noteq> None \<and> map_of (collections db) new = None
    \<and> schemaOf db' = (schemaOf db)(new := schemaOf db old, old := None)
    \<and> dbInv E kv B db' (D(new := D old, old := (\<lambda>_. None)))"
proof -
  have rel: "dbRel E kv B db D D" and open_db: "\<not> dbClosed db" "dbPending db = []" using inv by (auto simp: dbInv_def)
  note r = dbRelD [OF rel]
  obtain c where c: "map_of (collections db) old = Some c" and new: "map_of (collections db) new = None"
    and com: "commitLocked E (markMetaDirty (setCollections
        (AList.update new (c\<lparr>colName := new\<rparr>) (AList.delete old (collections db))) db)) = (Inr (), db')"
    using op open_db by (auto simp: DB_RenameCollection_def split: option.splits if_splits)
  from split_cols [OF r(1) c] obtain xs ys where s: "collections db = xs @ (old, c) # ys"
    "AList.delete old (collections db) = xs @ ys" "old \<notin> fst ` set xs" "old \<notin> fst ` set ys" .
  let ?c = "c\<lparr>colName := new\<rparr>" and ?D = "D(new := D old, old := (\<lambda>_. None))"
  have ne: "old \<noteq> new" using c new by auto
  have lk0: "map_of (xs @ ys) = (map_of (collections db))(old := None)" unfolding s(2) [symmetric] by (rule AList.delete_conv')
  have cols: "AList.update new ?c (AList.delete old (collections db)) = xs @ ys @ [(new, ?c)]"
    using update_new [of "xs @ ys" new ?c] lk0 new by (simp add: s(2) del: map_of_append)
  have lk: "map_of (xs @ ys @ [(new, ?c)]) = (map_of (collections db))(old := None, new \<mapsto> ?c)"
    unfolding cols [symmetric] by (simp add: AList.update_conv' AList.delete_conv')
  have newx: "new \<notin> fst ` set xs" "new \<notin> fst ` set ys" using new s(1) map_of_eq_None_iff [of "collections db" new] by auto
  have "catOk (xs @ ys @ [(new, ?c)])" using r(1) newx unfolding s(1) by (auto simp: catOk_def)
  moreover have "storeRel E B (kv (dbEngine db)) (xs @ ys @ [(new, ?c)]) ?D"
    unfolding storeRel_def
  proof clarify
    fix n' c2
    assume mem: "(n', c2) \<in> set (xs @ ys @ [(new, ?c)])"
    show "colRel E B (kv (dbEngine db)) c2 (?D n')"
    proof (cases "n' = new")
      case True
      then have "c2 = ?c" using mem newx by force
      moreover have "colRel E B (kv (dbEngine db)) c (D old)" using r(2) s(1) by (auto simp: storeRel_def)
      ultimately show ?thesis using True ne by (simp add: colRel_def)
    next
      case False
      then have "(n', c2) \<in> set (collections db)" "n' \<noteq> old" using mem s by force+
      then show ?thesis using r(2) False by (auto simp: storeRel_def)
    qed
  qed
  moreover have "idsOk (kv (dbEngine db)) (stNextCollectionID (dbSt db)) (xs @ ys @ [(new, ?c)])"
    using r(5) by (rule idsOk_subset) (auto simp: s(1))
  moreover have "nextOk (xs @ ys @ [(new, ?c)]) ?D"
    using r(6) c ne unfolding nextOk_def lk by auto
  moreover have "?D n = (\<lambda>_. None)" if "map_of (xs @ ys @ [(new, ?c)]) n = None" for n
    using that r(7) unfolding lk by (auto split: if_splits)
  ultimately have "dbRel E kv B (markMetaDirty (setCollections (xs @ ys @ [(new, ?c)]) db)) ?D ?D"
    using r(4,8) open_db by (simp add: dbRel_def markMetaDirty_def setCollections_def del: map_of_append)
  moreover have "schemaOf db' = (schemaOf db)(new := schemaOf db old, old := None)"
    using commitLocked_schema [OF com] c ne
    by (auto simp: schemaOf_def cols lk markMetaDirty_def setCollections_def indexDefs_def fun_eq_iff simp del: map_of_append)
  ultimately show ?thesis using commitLocked_rel(1) [OF _ com] com c new open_db
    by (simp add: cols markMetaDirty_def setCollections_def)
qed

text \<open>Dropping indexes of a collection.\<close>

lemma dropIndexes_rel:
  assumes inv: "dbInv E kv B db D" and c: "map_of (collections db) n = Some c"
    and c': "c' = removeIndexKeys ks c" and ixs: "set ixs = snd ` {x \<in> set (colIndexes c). fst x \<in> set ks}"
    and op: "dropIndexesDataAndCommitLocked E ixs (setCol c' db) = (Inr (), db')"
  shows "dbInv E kv B db' D" and "map_of (collections db') n = Some c'"
    and "map_of (collections db') = (map_of (collections db))(n \<mapsto> c')"
proof -
  have rel: "dbRel E kv B db D D" and open_db: "\<not> dbClosed db" "dbPending db = []" using inv by (auto simp: dbInv_def)
  note r = dbRelD [OF rel]
  from split_cols [OF r(1) c] obtain xs ys where s: "collections db = xs @ (n, c) # ys"
    "\<forall>c'. AList.update n c' (collections db) = xs @ (n, c') # ys" "n \<notin> fst ` set xs" "n \<notin> fst ` set ys" .
  have nm: "colName c' = n" "colDBID c' = colDBID c" "colNextID c' = colNextID c"
    using catOk_name [OF r(1) c] by (simp_all add: c' removeIndexKeys_def)
  have cols: "collections (setCol c' db) = xs @ (n, c') # ys" by (simp add: nm s(2))
  obtain meta e' where e: "engCommit (envEng E) (dbEngine db) (dropOps (indexPrefixes ixs) @ [BSet keyMetaState meta]) = Inr e'"
    and db': "db' = (setCol c' db)\<lparr>dbEngine := e'\<rparr>"
    using op by (auto simp: dropIndexesDataAndCommitLocked_def commitBatch_def dropIndexOps_eq split: sum.splits)
  have kv': "kv e' = (dropped (indexPrefixes ixs) (kv (dbEngine db)))(keyMetaState \<mapsto> meta)"
    using commit [OF e] by (simp add: applyBatch_dropOps prefixEnd_indexPrefixes)
  have sub: "set (colIndexes c') = {x \<in> set (colIndexes c). fst x \<notin> set ks}"
    by (auto simp: c' removeIndexKeys_def)
  have "distinct (map idxDBID (map snd (colIndexes c')))"
    using r(1) unfolding s(1) by (auto simp: catOk_def c' removeIndexKeys_def distinct_map inj_on_def filter_map)
  then have ok: "catOk (xs @ (n, c') # ys)"
    using r(1) sub nm unfolding s(1) by (auto simp: catOk_def c' removeIndexKeys_def distinct_map_filter)
  have memc: "(n, c) \<in> set (collections db)" using s(1) by simp
  have kept: "idxDBID idx \<notin> idxDBID ` set ixs"
    if "(n', c2) \<in> set (collections db)" "(k, idx) \<in> set (colIndexes c2)" "n' = n \<longrightarrow> k \<notin> set ks" for n' c2 k idx
  proof
    assume "idxDBID idx \<in> idxDBID ` set ixs"
    then obtain k2 idx2 where i2: "(k2, idx2) \<in> set (colIndexes c)" "k2 \<in> set ks" "idxDBID idx = idxDBID idx2" using ixs by auto
    from catIndexes_unique [OF r(1) that(1) memc that(2) i2(1,3)] have "n' = n" "c2 = c" "idx = idx2" by auto
    moreover have "k = k2"
      using catOk_key [OF r(1) that(1,2)] catOk_key [OF r(1) memc i2(1)] calculation by simp
    ultimately show False using that(3) i2(2) by simp
  qed
  have "storeRel E B (kv e') (xs @ (n, c') # ys) D"
    unfolding storeRel_def
  proof clarify
    fix n' c2
    assume mem: "(n', c2) \<in> set (xs @ (n, c') # ys)"
    show "colRel E B (kv e') c2 (D n')"
    proof (cases "n' = n")
      case True
      then have c2: "c2 = c'" using mem s(3,4) by force
      have "colRel E B (kv (dbEngine db)) c (D n)" using r(2) memc by (auto simp: storeRel_def)
      then have "colRel E B (kv (dbEngine db)) c' (D n)" using sub nm by (auto simp: colRel_def)
      then have "colRel E B (kv e') c' (D n)"
        by (rule colRel_cong) (use kept [OF memc] sub in \<open>auto simp: kv'\<close>)
      then show ?thesis using True c2 by simp
    next
      case False
      then have mem': "(n', c2) \<in> set (collections db)" using mem s(1) by auto
      then have "colRel E B (kv (dbEngine db)) c2 (D n')" using r(2) by (auto simp: storeRel_def)
      then show ?thesis by (rule colRel_cong) (use kept [OF mem'] False in \<open>auto simp: kv'\<close>)
    qed
  qed
  moreover have "idsOk (kv e') (stNextCollectionID (dbSt db)) (xs @ (n, c') # ys)"
  proof -
    have "idsOk (kv e') (stNextCollectionID (dbSt db)) (collections db)"
      unfolding commit [OF e] by (rule idsOk_batch [OF r(5)]) auto
    then show ?thesis by (rule idsOk_subset) (auto simp: s(1) sub nm)
  qed
  moreover have lk: "map_of (xs @ (n, c') # ys) = (map_of (collections db))(n \<mapsto> c')"
    unfolding s(2) [rule_format, symmetric] by (simp add: AList.update_conv')
  moreover have "nextOk (xs @ (n, c') # ys) D" using r(6) c nm unfolding nextOk_def lk by auto
  ultimately show "dbInv E kv B db' D" using ok r(4,7,8) open_db
    by (auto simp: dbInv_def dbRel_def db' cols simp del: map_of_append setCol_simps(5))
  show "map_of (collections db') = (map_of (collections db))(n \<mapsto> c')" using lk
    by (simp add: db' cols del: map_of_append setCol_simps(5))
  then show "map_of (collections db') n = Some c'" using lk by (simp add: db' cols del: map_of_append setCol_simps(5))
qed

lemma removeIndex_refines:
  assumes inv: "dbInv E kv B db D" and op: "DB_RemoveIndex E n path kind db = (Inr (), db')"
  shows "dbInv E kv B db' D \<and> schemaOf db' =
    (schemaOf db)(n := map_option (\<lambda>X. {d \<in> X. (fst d, fst (snd d)) \<noteq> (path, kind)}) (schemaOf db n))"
proof -
  obtain c where c: "map_of (collections db) n = Some c"
    and d: "dropIndexesDataAndCommitLocked E (map snd (matchingIndexes path kind c))
      (setCol (removeIndexKeys (map fst (matchingIndexes path kind c)) c) db) = (Inr (), db')"
    using op inv by (auto simp: DB_RemoveIndex_def dbInv_def Let_def split: option.splits if_splits)
  have mem: "(n, c) \<in> set (collections db)" using c by (rule map_of_SomeD)
  have "distinct (map fst (colIndexes c))"
    using inv mem by (auto simp: dbInv_def dbRel_def catOk_def)
  then have "set (map snd (matchingIndexes path kind c))
      = snd ` {x \<in> set (colIndexes c). fst x \<in> set (map fst (matchingIndexes path kind c))}"
    by (auto simp: matchingIndexes_def image_iff dest: eq_key_imp_eq_value) force
  note dr = dropIndexes_rel [OF inv c refl this d]
  let ?c = "removeIndexKeys (map fst (matchingIndexes path kind c)) c"
  have "set (colIndexes ?c) = {(k, idx) \<in> set (colIndexes c). (idxPath idx, idxKind idx) \<noteq> (path, kind)}"
  proof -
    have "k \<in> fst ` set (matchingIndexes path kind c) \<longleftrightarrow> (idxPath idx, idxKind idx) = (path, kind)"
      if "(k, idx) \<in> set (colIndexes c)" for k idx
      using that \<open>distinct (map fst (colIndexes c))\<close> by (force simp: matchingIndexes_def dest: eq_key_imp_eq_value)
    then show ?thesis by (auto simp: removeIndexKeys_def)
  qed
  then have "indexDefs ?c = {d \<in> indexDefs c. (fst d, fst (snd d)) \<noteq> (path, kind)}" by (force simp: indexDefs_def)
  then show ?thesis using dr(1) by (auto simp: schemaOf_def dr(3) c fun_eq_iff)
qed

lemma removeIndexMode_refines:
  assumes inv: "dbInv E kv B db D" and op: "DB_RemoveIndexMode E n path mode db = (Inr (), db')"
  shows "dbInv E kv B db' D"
proof -
  obtain kind unique where m: "indexModeParts mode = Inr (kind, unique)"
    using op by (auto simp: DB_RemoveIndexMode_def split: sum.splits)
  let ?k = "indexKey path kind unique"
  show ?thesis
  proof (cases "map_of (collections db) n")
    case None
    then show ?thesis using op inv m by (auto simp: DB_RemoveIndexMode_def dbInv_def)
  next
    case (Some c)
    then obtain idx where i: "map_of (colIndexes c) ?k = Some idx"
      and d: "dropIndexesDataAndCommitLocked E [idx] (setCol (removeIndexKeys [?k] c) db) = (Inr (), db')"
      using op inv m by (auto simp: DB_RemoveIndexMode_def dbInv_def Let_def split: option.splits)
    have "distinct (map fst (colIndexes c))"
      using inv map_of_SomeD [OF Some] by (auto simp: dbInv_def dbRel_def catOk_def)
    then have "set [idx] = snd ` {x \<in> set (colIndexes c). fst x \<in> set [?k]}"
      using i by (force dest: map_of_SomeD eq_key_imp_eq_value)
    from dropIndexes_rel(1) [OF inv Some refl this d] show ?thesis .
  qed
qed

end

end
