(* ===== verification/RefineIndex.thy ===== *)
theory RefineIndex
  imports RefineCat
begin

text \<open>
  Making an index: the scan of a collection visits every document once, the entries it writes are those
  of the documents, and \<^verbatim>\<open>EnsureIndex\<close> leaves an index in agreement with the documents.
\<close>

section \<open>Scanning the documents of a collection\<close>

lemma readI64_inverse: "readI64 src off = Some (v, off') \<Longrightarrow> off' = off + 8 \<and> off' \<le> length src \<and> take 8 (drop off src) = encI64 v"
proof -
  assume r: "readI64 src off = Some (v, off')"
  then have len: "8 \<le> length src - off" and v: "v = Uint64 (take 8 (drop off src)) XOR 0x8000000000000000" and o: "off' = off + 8"
    by (auto simp: readI64_def split: if_splits)
  let ?b = "take 8 (drop off src)"
  have l: "length ?b = 8" using len by simp
  have "be_nat ?b < 2 ^ 64" using be_nat_less [of ?b] l by simp
  then have "unat (Uint64 ?b) = be_nat ?b" by (simp add: Uint64_def unat_of_nat take_bit_nat_eq_self)
  then have "PutUint64 (Uint64 ?b) = ?b" using be_bytes_be_nat [of ?b] l by (simp add: PutUint64_def)
  then have "encI64 v = ?b" by (simp add: encI64_def appendI64_def v xor.assoc)
  then show ?thesis using o len by simp
qed

lemma decodeDocKey_inverse:
  assumes "decodeDocKey K = Some (x, i)"
  shows "K = keyDoc x i"
proof -
  obtain o1 o2 where K: "K \<noteq> []" "hd K = keyTagDoc" and r: "readI64 K 1 = Some (x, o1)" "readI64 K o1 = Some (i, o2)" "o2 = length K"
    using assms by (auto simp: decodeDocKey_def split: if_splits option.splits)
  have a: "o1 = 9" "take 8 (drop 1 K) = encI64 x" "take 8 (drop 9 K) = encI64 i" "length K = 17"
    using readI64_inverse [OF r(1)] readI64_inverse [OF r(2)] r(3) by auto
  have "K = hd K # take 8 (drop 1 K) @ drop 9 K"
    using K(1) by (cases K) (simp_all add: append_take_drop_id flip: drop_drop)
  moreover have "take 8 (drop 9 K) = drop 9 K" using a(4) by simp
  ultimately show ?thesis using a K(2) by (simp add: key_layout)
qed

lemma foldl_Inl: "foldl (\<lambda>r x. case r of Inl e \<Rightarrow> Inl e | Inr s \<Rightarrow> f x s) (Inl e) xs = Inl e"
  by (induction xs) auto

context db_env
begin

lemma scan_entries:
  assumes col: "colRel E B (kv e) c docs" and id: "colDBID col = colDBID c"
    and es: "\<forall>(K, v) \<in> set es. HasPrefix K (keyDocPrefix (colDBID c)) \<and> kv e K = Some v"
    and f: "foldl (\<lambda>r (K, v). case r of Inl e \<Rightarrow> Inl e | Inr s \<Rightarrow>
        (case decodeDocKey K of None \<Rightarrow> Inl (Coded CodeInvalidQuery)
         | Some (_, i) \<Rightarrow> (case decodeStored E v of Inl e \<Rightarrow> Inl e | Inr (raw, doc) \<Rightarrow> fn i raw doc s))) (Inr s) es = Inr s'"
  shows "\<exists>is. map fst es = map (keyDoc (colDBID c)) is
    \<and> foldl (\<lambda>r i. case r of Inl e \<Rightarrow> Inl e | Inr s \<Rightarrow>
        fn i (projr (marshalJSON (envJson E) (the (docs i)))) (the (docs i)) s) (Inr s) is = Inr s'"
  using es f
proof (induction es arbitrary: s)
  case (Cons x es)
  obtain K v where x: "x = (K, v)" by force
  have pre: "HasPrefix K (keyDocPrefix (colDBID c))" and kvK: "kv e K = Some v" using Cons.prems(1) x by auto
  obtain y i where k: "decodeDocKey K = Some (y, i)"
    using Cons.prems(2) by (cases "decodeDocKey K") (auto simp: x foldl_Inl case_prod_unfold)
  have K: "K = keyDoc (colDBID c) i" using decodeDocKey_inverse [OF k] pre by simp
  obtain d where d: "docs i = Some d" "holds E v d" using colRel_doc(2) [OF col] kvK K by blast
  then obtain b where b: "marshalJSON (envJson E) d = Inr b" "decodeStored E v = Inr (b, d)" by (auto simp: holds_def)
  obtain s1 where s1: "fn i b d s = Inr s1"
    using Cons.prems(2) k b(2) by (cases "fn i b d s") (auto simp: x foldl_Inl case_prod_unfold)
  then have "\<exists>is. map fst es = map (keyDoc (colDBID c)) is
    \<and> foldl (\<lambda>r i. case r of Inl e \<Rightarrow> Inl e | Inr s \<Rightarrow>
        fn i (projr (marshalJSON (envJson E) (the (docs i)))) (the (docs i)) s) (Inr s1) is = Inr s'"
    using Cons.prems k b(2) by (intro Cons.IH) (simp_all add: x)
  then obtain js where js: "map fst es = map (keyDoc (colDBID c)) js"
    "foldl (\<lambda>r i. case r of Inl e \<Rightarrow> Inl e | Inr s \<Rightarrow>
        fn i (projr (marshalJSON (envJson E) (the (docs i)))) (the (docs i)) s) (Inr s1) js = Inr s'" by blast
  show ?case by (rule exI [of _ "i # js"]) (use js K x d b s1 in simp)
qed simp

lemma scanDocs_visits:
  assumes col: "colRel E B (kv e) c docs" and id: "colDBID col = colDBID c"
    and scan: "scanDocsForCollection E e col fn s = Inr s'"
  obtains "is" where "distinct is" "set is = {i. docs i \<noteq> None}"
    "foldl (\<lambda>r i. case r of Inl e \<Rightarrow> Inl e | Inr s \<Rightarrow>
        fn i (projr (marshalJSON (envJson E) (the (docs i)))) (the (docs i)) s) (Inr s) is = Inr s'"
proof -
  from scanPrefix_visits [OF scan [unfolded scanDocsForCollection_def id]]
  obtain es where es: "sorted_wrt (<) (map fst es)"
    "\<And>k v. (k, v) \<in> set es \<longleftrightarrow> HasPrefix k (keyDocPrefix (colDBID c)) \<and> kv e k = Some v"
    "foldl (\<lambda>r (K, v). case r of Inl e \<Rightarrow> Inl e | Inr s \<Rightarrow>
        (case decodeDocKey K of None \<Rightarrow> Inl (Coded CodeInvalidQuery)
         | Some (_, i) \<Rightarrow> (case decodeStored E v of Inl e \<Rightarrow> Inl e | Inr (raw, doc) \<Rightarrow> fn i raw doc s))) (Inr s) es = Inr s'"
    by blast
  from scan_entries [OF col id _ es(3)] es(2)
  obtain js where js: "map fst es = map (keyDoc (colDBID c)) js"
    "foldl (\<lambda>r i. case r of Inl e \<Rightarrow> Inl e | Inr s \<Rightarrow>
        fn i (projr (marshalJSON (envJson E) (the (docs i)))) (the (docs i)) s) (Inr s) js = Inr s'" by blast
  have "distinct (map fst es)" using es(1) by (simp add: strict_sorted_iff)
  then have "distinct js" unfolding js(1) by (simp add: distinct_map)
  moreover have "i \<in> set js \<longleftrightarrow> docs i \<noteq> None" for i
  proof -
    have "i \<in> set js \<longleftrightarrow> keyDoc (colDBID c) i \<in> fst ` set es"
      using arg_cong [OF js(1), of set] by auto
    also have "\<dots> \<longleftrightarrow> kv e (keyDoc (colDBID c) i) \<noteq> None" using es(2) by (force simp: image_iff)
    also have "\<dots> \<longleftrightarrow> docs i \<noteq> None" using colRel_doc(3) [OF col] by simp
    finally show ?thesis .
  qed
  ultimately show thesis using that [of js] js(2) by blast
qed

end

section \<open>The entries of an index\<close>

definition entrySets :: "indexState \<Rightarrow> (int64 \<times> string) list \<Rightarrow> batchOp list" where
  "entrySets idx ps = map (\<lambda>(i, v). BSet (indexEntryKey idx v i) (indexEntryValue idx i)) ps"

lemma rebuildValues_ok:
  assumes "rebuildValues idx i vs (seen, ops) = Inr (seen', ops')"
  shows "ops' = ops @ entrySets idx (map (Pair i) vs)
    \<and> (idxUnique idx \<longrightarrow> (\<forall>v \<in> set vs. map_of seen v \<in> {None, Some i})
         \<and> map_of seen' = (\<lambda>v. if v \<in> set vs then Some i else map_of seen v))"
  using assms
proof (induction vs arbitrary: seen ops)
  case (Cons v vs)
  show ?case
  proof (cases "idxUnique idx")
    case False
    then show ?thesis using Cons.IH [of seen "ops @ [BSet (keyIndex idx v i) [1]]"] Cons.prems
      by (simp add: entrySets_def indexEntryKey_def indexEntryValue_def)
  next
    case True
    then have sv: "map_of seen v \<in> {None, Some i}"
      and r: "rebuildValues idx i vs (AList.update v i seen, ops @ [BSet (keyUniqueIndex idx v) (putU64 [] i)]) = Inr (seen', ops')"
      using Cons.prems by (auto split: option.splits if_splits)
    from Cons.IH [OF r] sv True show ?thesis
      by (auto simp: entrySets_def indexEntryKey_def indexEntryValue_def AList.update_conv' fun_eq_iff split: if_splits)
  qed
qed (simp add: entrySets_def)

lemma rebuild_fold:
  assumes "distinct is"
    and "foldl (\<lambda>r i. case r of Inl e \<Rightarrow> Inl e | Inr s \<Rightarrow> rebuildValues idx i (vals i) s) (Inr ([], [])) is = Inr (seen, ops)"
  shows "ops = entrySets idx (concat (map (\<lambda>i. map (Pair i) (vals i)) is))
    \<and> (idxUnique idx \<longrightarrow> (\<forall>v i. map_of seen v = Some i \<longleftrightarrow> i \<in> set is \<and> v \<in> set (vals i)))"
  using assms
proof (induction "is" arbitrary: seen ops rule: rev_induct)
  case Nil
  then show ?case by (simp add: entrySets_def)
next
  case (snoc j js)
  obtain s1 where f: "foldl (\<lambda>r i. case r of Inl e \<Rightarrow> Inl e | Inr s \<Rightarrow> rebuildValues idx i (vals i) s) (Inr ([], [])) js = Inr s1"
    and r: "rebuildValues idx j (vals j) s1 = Inr (seen, ops)"
    using snoc.prems(2) by (auto split: sum.splits)
  obtain seen1 ops1 where s1: "s1 = (seen1, ops1)" by force
  note ih = snoc.IH [OF _ f [unfolded s1]] and rv = rebuildValues_ok [OF r [unfolded s1]]
  have js: "distinct js" "j \<notin> set js" using snoc.prems(1) by auto
  have "ops = entrySets idx (concat (map (\<lambda>i. map (Pair i) (vals i)) (js @ [j])))"
    using ih [OF js(1)] rv by (simp add: entrySets_def)
  moreover have "map_of seen v = Some i \<longleftrightarrow> i \<in> set (js @ [j]) \<and> v \<in> set (vals i)" if u: "idxUnique idx" for v i
  proof -
    have m: "\<And>v i. map_of seen1 v = Some i \<longleftrightarrow> i \<in> set js \<and> v \<in> set (vals i)" using ih [OF js(1)] u by blast
    have m': "map_of seen v = (if v \<in> set (vals j) then Some j else map_of seen1 v)" using rv u by simp
    have o: "v \<in> set (vals j) \<Longrightarrow> map_of seen1 v \<in> {None, Some j}" using rv u by blast
    show ?thesis
    proof (cases "v \<in> set (vals j)")
      case True
      then have "map_of seen1 v = None" using o m [of v j] js(2) by auto
      then have "\<not> (i \<in> set js \<and> v \<in> set (vals i))" using m [of v i] by simp
      then show ?thesis using m' True by auto
    next
      case False
      then show ?thesis using m' m [of v i] by auto
    qed
  qed
  ultimately show ?case by blast
qed

lemma applyBatch_entrySets:
  assumes "\<forall>i v j w. (i, v) \<in> set ps \<longrightarrow> (j, w) \<in> set ps \<longrightarrow> indexEntryKey idx v i = indexEntryKey idx w j \<longrightarrow> i = j"
  shows "(i, v) \<in> set ps \<Longrightarrow> applyBatch (entrySets idx ps) m (indexEntryKey idx v i) = Some (indexEntryValue idx i)"
    and "(\<forall>(i, v) \<in> set ps. indexEntryKey idx v i \<noteq> K) \<Longrightarrow> applyBatch (entrySets idx ps) m K = m K"
  using assms
proof (induction ps rule: rev_induct)
  case (snoc p ps)
  {
    case 1
    obtain j w where p: "p = (j, w)" by force
    show ?case
    proof (cases "indexEntryKey idx w j = indexEntryKey idx v i")
      case True
      then have "i = j" using 1 p by auto
      with True show ?thesis by (simp add: entrySets_def p)
    next
      case False
      then have "(i, v) \<in> set ps" using 1(1) p by auto
      then have "applyBatch (entrySets idx ps) m (indexEntryKey idx v i) = Some (indexEntryValue idx i)"
        using snoc(1) 1(2) by auto
      with False show ?thesis by (simp add: entrySets_def p)
    qed
  next
    case 2
    obtain j w where p: "p = (j, w)" by force
    have "applyBatch (entrySets idx ps) m K = m K" using 2 snoc(2) by auto
    then show ?case using 2(1) by (auto simp: entrySets_def p)
  }
qed (simp_all add: entrySets_def)

text \<open>The store after the entries of all documents have been written is in agreement with the index.\<close>

lemma indexRel_built:
  assumes docs: "\<And>i d. docs i = Some d \<Longrightarrow> docOk E d"
    and ps: "\<And>i v. (i, v) \<in> set ps \<longleftrightarrow> (\<exists>d. docs i = Some d \<and> v \<in> set (idxVals E idx d))"
    and uq: "\<And>i j v. idxUnique idx \<Longrightarrow> (i, v) \<in> set ps \<Longrightarrow> (j, v) \<in> set ps \<Longrightarrow> i = j"
    and clean: "\<And>v i. m (indexEntryKey idx v i) = None"
  shows "indexRel E (applyBatch (entrySets idx ps) m) idx docs"
proof -
  have len: "length v < 2 ^ 32" if "(i, v) \<in> set ps" for i v using that ps docs by (fastforce simp: docOk_def)
  have inj: "v = w \<and> (\<not> idxUnique idx \<longrightarrow> i = j)"
    if "length v < 2 ^ 32" "length w < 2 ^ 32" "indexEntryKey idx v i = indexEntryKey idx w j" for i v j w
    using that(3) keyIndex_inject [OF that(1,2)] keyUniqueIndex_inject [OF that(1,2)]
    by (auto simp: indexEntryKey_def split: if_splits)
  have same: "i = j" if "(i, v) \<in> set ps" "(j, w) \<in> set ps" "indexEntryKey idx v i = indexEntryKey idx w j" for i v j w
    using inj [OF len len that(3)] that uq by blast
  have "\<forall>i v j w. (i, v) \<in> set ps \<longrightarrow> (j, w) \<in> set ps \<longrightarrow> indexEntryKey idx v i = indexEntryKey idx w j \<longrightarrow> i = j"
    using same by blast
  note batch = applyBatch_entrySets [OF this]
  have absent: "applyBatch (entrySets idx ps) m (indexEntryKey idx v i) = None"
    if "length v < 2 ^ 32" "\<And>j. (\<not> idxUnique idx \<longrightarrow> j = i) \<Longrightarrow> (j, v) \<notin> set ps" for v i
  proof -
    have "\<forall>(j, w) \<in> set ps. indexEntryKey idx w j \<noteq> indexEntryKey idx v i"
    proof clarify
      fix j w
      assume mem: "(j, w) \<in> set ps" and eq: "indexEntryKey idx w j = indexEntryKey idx v i"
      have "w = v" "\<not> idxUnique idx \<longrightarrow> j = i" using inj [OF len [OF mem] that(1) eq] by simp_all
      then show False using that(2) [of j] mem by simp
    qed
    from batch(2) [OF this] clean show ?thesis by simp
  qed
  show ?thesis
  proof (cases "idxUnique idx")
    case True
    have k: "indexEntryKey idx v i = keyUniqueIndex idx v" "indexEntryValue idx i = putU64 [] i" for v i
      using True by (simp_all add: indexEntryKey_def indexEntryValue_def)
    have "applyBatch (entrySets idx ps) m (keyUniqueIndex idx v) = Some (putU64 [] i)" if "docs i = Some d" "v \<in> set (idxVals E idx d)" for v i d
      using batch(1) [of i v m] that ps by (auto simp: k)
    moreover have "applyBatch (entrySets idx ps) m (keyUniqueIndex idx v) = None"
      if "length v < 2 ^ 32" "\<forall>i d. docs i = Some d \<longrightarrow> v \<notin> set (idxVals E idx d)" for v
      using absent [OF that(1), unfolded k] that(2) ps by blast
    ultimately show ?thesis unfolding indexRel_def using True by simp
  next
    case False
    have k: "indexEntryKey idx v i = keyIndex idx v i" "indexEntryValue idx i = [1]" for v i
      using False by (simp_all add: indexEntryKey_def indexEntryValue_def)
    have "applyBatch (entrySets idx ps) m (keyIndex idx v i) = Some [1]" if "docs i = Some d" "v \<in> set (idxVals E idx d)" for v i d
      using batch(1) [of i v m] that ps by (auto simp: k)
    moreover have "applyBatch (entrySets idx ps) m (keyIndex idx v i) = None"
      if "length v < 2 ^ 32" "\<nexists>d. docs i = Some d \<and> v \<in> set (idxVals E idx d)" for v i
      using absent [OF that(1), of i, unfolded k] that(2) ps False by blast
    ultimately show ?thesis unfolding indexRel_def using False by auto
  qed
qed

lemma entrySets_owner: "BSet K v \<in> set (entrySets idx ps) \<Longrightarrow> keyOwner K = Some (idxDBID idx)"
  by (auto simp: entrySets_def)

lemma entrySets_other: "keyOwner K \<noteq> Some (idxDBID idx) \<Longrightarrow> applyBatch (entrySets idx ps) m K = m K"
proof (induction ps arbitrary: m)
  case (Cons p ps)
  obtain i v where p: "p = (i, v)" by force
  have "K \<noteq> indexEntryKey idx v i" using Cons.prems by auto
  then show ?case using Cons by (simp add: entrySets_def p)
qed (simp add: entrySets_def)

section \<open>Making an index\<close>

lemma rebuildIndex_ok:
  assumes "rebuildIndex E c1 k db = (Inr (), db')" and "map_of (colIndexes c1) k = Some idx"
  obtains seen ops meta e' c2 where
    "scanDocsForCollection E (dbEngine db) c1 (\<lambda>i raw doc s. rebuildValues idx i (idxVals E idx doc) s) ([], []) = Inr (seen, ops)"
    "c2 = c1\<lparr>colIndexes := AList.update k (idx\<lparr>idxRNum := int (length ops)\<rparr>) (colIndexes c1),
      colRuntime := map (\<lambda>(k', rt). (k', if k' = k then rt\<lparr>rtDef := idx\<lparr>idxRNum := int (length ops)\<rparr>\<rparr> else rt)) (colRuntime c1)\<rparr>"
    "engCommit (envEng E) (dbEngine db)
       (dropOps (indexPrefixes [idx\<lparr>idxRNum := int (length ops)\<rparr>]) @ ops @ [BSet keyMetaState meta]) = Inr e'"
    "db' = (setCol c2 db)\<lparr>dbEngine := e'\<rparr>"
proof -
  have d: "dropIndexOps x = dropOps (indexPrefixes [x])" for x using dropIndexOps_eq [of "[x]"] by simp
  show thesis
    using assms that by (auto simp: rebuildIndex_def commitBatch_def Let_def d idxVals_def split: sum.splits)
qed

context db_env
begin

lemma rebuildIndex_rel:
  assumes rel: "dbRel E kv B db D D" and open_db: "\<not> dbClosed db" "dbPending db = []"
    and c: "map_of (collections db) n = Some c" and x: "x = stNextCollectionID (dbSt db) + 1"
    and room: "sint (stNextCollectionID (dbSt db)) < 2 ^ 63 - 1"
    and new: "map_of (colIndexes c) k = None" and k: "k = indexKey path kind unique" "knownKind kind"
    and idx: "idx = \<lparr>idxPath = path, idxKind = kind, idxUnique = unique, idxDBID = x, idxRNum = 0\<rparr>"
    and c1: "c1 = c\<lparr>colIndexes := AList.update k idx (colIndexes c), colRuntime := rt\<rparr>"
    and rb: "rebuildIndex E c1 k (setCol c1 db) = (Inr (), db')"
  shows "dbRel E kv B (db'\<lparr>dbSt := (dbSt db')\<lparr>stNextCollectionID := x\<rparr>\<rparr>) D D"
    and "dbClosed db' = dbClosed db" and "dbPending db' = []"
    and "\<exists>c' idx'. map_of (collections db') = (map_of (collections db))(n \<mapsto> c') \<and> colIndexes c' = colIndexes c @ [(k, idx')]
      \<and> idxPath idx' = path \<and> idxKind idx' = kind \<and> idxUnique idx' = unique"
proof -
  note r = dbRelD [OF rel]
  have sx: "sint x = sint (stNextCollectionID (dbSt db)) + 1" unfolding x using room by (rule sint_Suc)
  have nm: "colName c1 = n" "colDBID c1 = colDBID c" "colNextID c1 = colNextID c"
    using catOk_name [OF r(1) c] by (simp_all add: c1)
  have ci1: "colIndexes c1 = colIndexes c @ [(k, idx)]" using new by (simp add: c1 update_new)
  have lk1: "map_of (colIndexes c1) k = Some idx" using new by (simp add: ci1 map_add_def)
  obtain seen ops meta e' c2 where
    scan0: "scanDocsForCollection E (dbEngine (setCol c1 db)) c1 (\<lambda>i raw doc s. rebuildValues idx i (idxVals E idx doc) s) ([], []) = Inr (seen, ops)"
    and c2_def: "c2 = c1\<lparr>colIndexes := AList.update k (idx\<lparr>idxRNum := int (length ops)\<rparr>) (colIndexes c1),
      colRuntime := map (\<lambda>(k', rt). (k', if k' = k then rt\<lparr>rtDef := idx\<lparr>idxRNum := int (length ops)\<rparr>\<rparr> else rt)) (colRuntime c1)\<rparr>"
    and e0: "engCommit (envEng E) (dbEngine (setCol c1 db))
       (dropOps (indexPrefixes [idx\<lparr>idxRNum := int (length ops)\<rparr>]) @ ops @ [BSet keyMetaState meta]) = Inr e'"
    and db': "db' = (setCol c2 (setCol c1 db))\<lparr>dbEngine := e'\<rparr>"
    by (rule rebuildIndex_ok [OF rb lk1])
  note scan = scan0 [unfolded setCol_simps]
  define idx2 where "idx2 = idx\<lparr>idxRNum := int (length ops)\<rparr>"
  note e = e0 [folded idx2_def, unfolded setCol_simps]
  have memc: "(n, c) \<in> set (collections db)" using c by (rule map_of_SomeD)
  have colr: "colRel E B (kv (dbEngine db)) c (D n)" using r(2) memc by (auto simp: storeRel_def)
  obtain "is" where iss: "distinct is" "set is = {i. D n i \<noteq> None}"
    "foldl (\<lambda>r i. case r of Inl e \<Rightarrow> Inl e | Inr s \<Rightarrow> rebuildValues idx i (idxVals E idx (the (D n i))) s) (Inr ([], [])) is = Inr (seen, ops)"
    using scanDocs_visits [OF colr nm(2) scan] by blast
  define ps where "ps = concat (map (\<lambda>i. map (Pair i) (idxVals E idx (the (D n i)))) is)"
  note rf = rebuild_fold [OF iss(1,3)]
  have ops: "ops = entrySets idx ps" using rf by (simp add: ps_def)
  have inps: "(i, v) \<in> set ps \<longleftrightarrow> (\<exists>d. D n i = Some d \<and> v \<in> set (idxVals E idx d))" for i v
    using iss(2) by (auto simp: ps_def)
  have uq: "i = j" if "idxUnique idx" "(i, v) \<in> set ps" "(j, v) \<in> set ps" for i j v
  proof -
    have "map_of seen v = Some i" "map_of seen v = Some j" using rf that iss(2) by (auto simp: ps_def)
    then show ?thesis by simp
  qed
  have free: "kv (dbEngine db) K = None" if "keyOwner K = Some y" "sint x \<le> sint y" for K y
    using r(5) that sx by (auto simp: idsOk_def)
  have le: "sint y < sint x" if "y \<in> catIds (collections db)" for y
    using r(5) that sx by (fastforce simp: idsOk_def)
  have kv': "kv e' = (applyBatch (entrySets idx ps) (dropped (indexPrefixes [idx2]) (kv (dbEngine db))))(keyMetaState \<mapsto> meta)"
    using commit [OF e] by (simp add: ops applyBatch_dropOps prefixEnd_indexPrefixes)
  have idx2: "indexRel E m idx2 = indexRel E m idx" for m by (simp add: idx2_def)
  have newRel: "indexRel E (kv e') idx2 (D n)"
  proof -
    have "indexRel E (applyBatch (entrySets idx ps) (dropped (indexPrefixes [idx2]) (kv (dbEngine db)))) idx (D n)"
    proof (rule indexRel_built [OF _ inps])
      show "docOk E d" if "D n i = Some d" for i d using colr that by (auto simp: colRel_def)
      show "i = j" if "idxUnique idx" "(i, v) \<in> set ps" "(j, v) \<in> set ps" for i j v by (rule uq [OF that])
      show "dropped (indexPrefixes [idx2]) (kv (dbEngine db)) (indexEntryKey idx v i) = None" for v i
        using free [of "indexEntryKey idx v i" x] by (simp add: dropped_def idx)
    qed
    then show ?thesis unfolding idx2 kv' by (simp add: indexRel_def)
  qed
  have same: "kv e' K = kv (dbEngine db) K" if "keyOwner K = Some y" "y \<in> catIds (collections db)" "\<not> (\<exists>p \<in> set (indexPrefixes [idx2]). HasPrefix K p)" for K y
  proof -
    have "y \<noteq> idxDBID idx" using le [OF that(2)] by (auto simp: idx)
    then have "applyBatch (entrySets idx ps) (dropped (indexPrefixes [idx2]) (kv (dbEngine db))) K = kv (dbEngine db) K"
      using entrySets_other that by (metis (no_types, lifting) dropped_def option.inject)
    moreover have "K \<noteq> keyMetaState" using that(1) by auto
    ultimately show ?thesis by (simp add: kv')
  qed
  have other: "colRel E B (kv e') c' (D n')" if mem: "(n', c') \<in> set (collections db)" for n' c'
  proof -
    have old: "colRel E B (kv (dbEngine db)) c' (D n')" using r(2) mem by (auto simp: storeRel_def)
    have cid: "colDBID c' \<in> catIds (collections db)" using mem by (force simp: catIds_def)
    have iid: "idxDBID i' \<in> catIds (collections db)" "idxDBID i' \<noteq> x" if "(k', i') \<in> set (colIndexes c')" for k' i'
    proof -
      show "idxDBID i' \<in> catIds (collections db)" using index_in_catIndexes [OF mem that] by (auto simp: catIds_def)
      then show "idxDBID i' \<noteq> x" using le by blast
    qed
    from old show ?thesis
      by (rule colRel_cong) (use same cid iid in \<open>auto simp: indexPrefixes_def idx2_def idx\<close>)
  qed
  from split_cols [OF r(1) c] obtain xs ys where s: "collections db = xs @ (n, c) # ys"
    "\<forall>c'. AList.update n c' (collections db) = xs @ (n, c') # ys" "n \<notin> fst ` set xs" "n \<notin> fst ` set ys" .
  have nm2: "colName c2 = n" "colDBID c2 = colDBID c" "colNextID c2 = colNextID c" by (simp_all add: c2_def nm)
  have "colIndexes c2 = AList.update k idx2 (colIndexes c)" by (simp add: c2_def c1 idx2_def)
  then have ci2: "colIndexes c2 = colIndexes c @ [(k, idx2)]" using new by (simp add: update_new)
  have "AList.update n c2 (AList.update n c1 (collections db)) = AList.update n c2 (collections db)"
    by (rule update_last)
  then have cols: "collections db' = xs @ (n, c2) # ys" by (simp add: db' nm nm2 s(2))
  have lk: "map_of (collections db') = (map_of (collections db))(n \<mapsto> c2)"
    unfolding cols s(2) [rule_format, symmetric] by (rule AList.update_conv')
  have catids: "catIds (collections db') = insert x (catIds (collections db))"
    unfolding cols s(1) by (auto simp: ci2 nm2 idx2_def idx)
  have le8: "sint y \<le> sint x" if "y \<in> B" for y using r(8) [OF that] sx by simp
  have "catOk (collections db')"
  proof -
    have "x \<notin> catIds (collections db)" using le by blast
    then have "x \<notin> idxDBID ` set (catIndexes (collections db))" by (simp add: catIds_def)
    moreover have "idxDBID idx2 = x" "idxPath idx2 = path" "idxKind idx2 = kind" "idxUnique idx2 = unique"
      by (simp_all add: idx2_def idx)
    moreover have "k \<notin> fst ` set (colIndexes c)" using new by (simp add: map_of_eq_None_iff)
    ultimately show ?thesis using r(1) k unfolding cols s(1) by (auto simp: catOk_def ci2 nm2)
  qed
  moreover have "storeRel E B (kv e') (collections db') D"
    unfolding storeRel_def
  proof clarify
    fix n' c'
    assume mem: "(n', c') \<in> set (collections db')"
    show "colRel E B (kv e') c' (D n')"
    proof (cases "n' = n")
      case True
      then have "c' = c2" using mem s(3,4) unfolding cols by force
      moreover have "colRel E B (kv e') c (D n)" using other [OF memc] .
      ultimately show ?thesis using newRel True by (auto simp: colRel_def ci2 nm2)
    next
      case False
      then show ?thesis using other mem unfolding cols s(1) by auto
    qed
  qed
  moreover have "idsOk (kv e') x (collections db')"
  proof -
    have "idsOk (kv (dbEngine db)) x (collections db)" using r(5) sx by (auto simp: idsOk_def)
    then have "idsOk (kv e') x (collections db)"
      unfolding commit [OF e] by (rule idsOk_batch) (auto simp: ops idx dest: entrySets_owner)
    then show ?thesis by (simp add: idsOk_def catids)
  qed
  moreover have "nextOk (collections db') D" using r(6) c nm2(3) unfolding nextOk_def lk by auto
  moreover have "dbEngine db' = e'" "dbPending db' = []" "\<not> dbDirtyFull db'" using open_db r(4) by (simp_all add: db')
  ultimately show "dbRel E kv B (db'\<lparr>dbSt := (dbSt db')\<lparr>stNextCollectionID := x\<rparr>\<rparr>) D D"
    using r(7) le8 by (auto simp: dbRel_def lk split: if_splits)
  show "\<exists>c' idx'. map_of (collections db') = (map_of (collections db))(n \<mapsto> c') \<and> colIndexes c' = colIndexes c @ [(k, idx')]
      \<and> idxPath idx' = path \<and> idxKind idx' = kind \<and> idxUnique idx' = unique"
    unfolding lk by (intro exI [of _ c2] exI [of _ idx2]) (simp add: ci2 idx2_def idx)
  show "dbClosed db' = dbClosed db" "dbPending db' = []" using open_db by (simp_all add: db')
qed

lemma ensureIndex_refines:
  assumes inv: "dbInv E kv B db D" and room: "room db" and op: "DB_EnsureIndex E n path kind unique db = (Inr (), db')"
  shows "dbInv E kv B db' D \<and> schemaOf db' = (made n (schemaOf db))(n \<mapsto> insert (path, kind, unique) (the (made n (schemaOf db) n)))"
proof -
  have rel: "dbRel E kv B db D D" and open_db: "\<not> dbClosed db" "dbPending db = []" using inv by (auto simp: dbInv_def)
  obtain made db1 where l: "ensureIndexLocked E n path kind unique db = (Inr made, db1)"
    and fin: "if made then commitLocked E (markMetaDirty db1) = (Inr (), db') else db' = db1"
    using op open_db by (auto simp: DB_EnsureIndex_def split: prod.splits sum.splits if_splits)
  obtain c db0 where e: "ensureCollectionLocked n db = (c, db0)" by force
  note e' = ensureCollection_rel [OF rel room e]
  have kind: "knownKind kind"
    using l by (auto simp: ensureIndexLocked_def validateIndexDefinition_def Let_def split: sum.splits if_splits)
  have v: "validateIndexDefinition path kind = Inr ()"
    using l by (auto simp: ensureIndexLocked_def split: sum.splits)
  let ?P = "\<lambda>(k :: string, idx). idxPath idx = path \<and> idxKind idx = kind"
  show ?thesis
  proof (cases "find ?P (colIndexes c)")
    case (Some ki)
    obtain k idx where ki: "ki = (k, idx)" by force
    have mem: "(k, idx) \<in> set (colIndexes c)" "idxPath idx = path" "idxKind idx = kind"
      using Some ki by (auto simp: find_Some_iff in_set_conv_nth)
    have "idxUnique idx = unique" "\<not> made" "db1 = db0"
      using l v Some ki by (auto simp: ensureIndexLocked_def e split: if_splits)
    then have fin': "db' = db0" "(path, kind, unique) \<in> indexDefs c" using fin mem by (force simp: indexDefs_def)+
    then have "dbInv E kv B db' D" using e' open_db by (simp add: dbInv_def)
    moreover have "schemaOf db0 n = Some (indexDefs c)" using e'(2) by (simp add: schemaOf_def)
    ultimately show ?thesis using fin' ensureCollection_schema [OF rel e] by (simp add: insert_absorb fun_upd_idem)
  next
    case None
    define x k idx where "x = stNextCollectionID (dbSt db0) + 1" and "k = indexKey path kind unique"
      and "idx = \<lparr>idxPath = path, idxKind = kind, idxUnique = unique, idxDBID = x, idxRNum = 0\<rparr>"
    note defs = x_def k_def idx_def
    define c1 where "c1 = c\<lparr>colIndexes := AList.update k idx (colIndexes c), colRuntime := AList.update k (newRuntime idx) (colRuntime c)\<rparr>"
    obtain db2 where rb: "rebuildIndex E c1 k (setCol c1 db0) = (Inr (), db2)" and made: made
      and db1: "db1 = db2\<lparr>dbSt := (dbSt db2)\<lparr>stNextCollectionID := x\<rparr>\<rparr>"
      using l v None unfolding ensureIndexLocked_def e prod.case c1_def defs
      by (auto simp: Let_def split: prod.splits sum.splits)
    have new: "map_of (colIndexes c) k = None"
    proof (rule ccontr)
      assume "map_of (colIndexes c) k \<noteq> None"
      then obtain i2 where i2: "(k, i2) \<in> set (colIndexes c)" by (auto dest: map_of_SomeD)
      from catOk_key [OF dbRelD(1) [OF e'(1)] map_of_SomeD [OF e'(2)] i2]
      have "idxPath i2 = path \<and> idxKind i2 = kind" using indexKey_eq_iff kind by (metis k_def)
      then show False using None i2 by (auto simp: find_None_iff)
    qed
    have lim: "sint (stNextCollectionID (dbSt db0)) < 2 ^ 63 - 1"
    proof (cases "map_of (collections db) n")
      case None
      have "sint (stNextCollectionID (dbSt db) + 1) = sint (stNextCollectionID (dbSt db)) + 1"
        using room by (intro sint_Suc) (simp add: room_def)
      then show ?thesis using e room by (auto simp: ensureCollection_new [OF None] room_def)
    next
      case (Some c0)
      then show ?thesis using e room by (simp add: ensureCollection_old [OF rel] room_def)
    qed
    have open0: "\<not> dbClosed db0" "dbPending db0 = []" using open_db e' by simp_all
    note rr = rebuildIndex_rel [OF e'(1) open0 e'(2) x_def lim new k_def kind idx_def c1_def rb]
    have "dbRel E kv B (markMetaDirty db1) D D" using rr(1) by (simp add: db1 dbRel_def markMetaDirty_def)
    moreover have com: "commitLocked E (markMetaDirty db1) = (Inr (), db')" using fin made by simp
    moreover have "\<not> dbClosed (markMetaDirty db1)" using rr(2) open0 by (simp add: db1 markMetaDirty_def)
    ultimately have "dbInv E kv B db' (committed E (markMetaDirty db1) D)" "dbSt db' = dbSt db1"
      using commitLocked_rel [of B "markMetaDirty db1" D D db'] by (simp_all add: markMetaDirty_def)
    moreover have "dbPending (markMetaDirty db1) = []" using rr(3) by (simp add: db1 markMetaDirty_def)
    moreover have "schemaOf db' = (schemaOf db0)(n \<mapsto> insert (path, kind, unique) (the (schemaOf db0 n)))"
    proof -
      obtain c' idx' where c': "map_of (collections db2) = (map_of (collections db0))(n \<mapsto> c')" "colIndexes c' = colIndexes c @ [(k, idx')]"
        "idxPath idx' = path" "idxKind idx' = kind" "idxUnique idx' = unique" using rr(4) by blast
      have "indexDefs c' = insert (path, kind, unique) (indexDefs c)" using c'(2-5) by (simp add: indexDefs_def)
      moreover have "schemaOf db' = schemaOf db2" using commitLocked_schema [OF com] by (simp add: schemaOf_def markMetaDirty_def db1)
      ultimately show ?thesis using e'(2) by (auto simp: schemaOf_def c'(1) fun_eq_iff)
    qed
    ultimately show ?thesis using ensureCollection_schema [OF rel e] by simp
  qed
qed

end

end
