(* ===== verification/Api.thy ===== *)
theory Api
  imports RefineIndex
begin

text \<open>
  The abstract database the API implements: the successful calls and their effect on a map from
  collections and ids to documents, the simulation between the two, the reachable states, and what is
  found when the store is opened again.
\<close>

section \<open>The abstract database\<close>

text \<open>The calls of the API that succeed, with what they return, and what they do to the abstract map.\<close>

datatype apiEvent =
    EEnsureCollection string
  | ERemoveCollection string
  | ERenameCollection string string
  | EPutNew string bytes int64
  | EPut string int64 bytes
  | EDelete string int64
  | EPatch string int64 bytes
  | EMergeOrPut string int64 bytes
  | EEnsureIndex string string IndexKind bool
  | ERemoveIndex string string IndexKind

fun apiStep :: "'e env \<Rightarrow> apiEvent \<Rightarrow> 'e DB \<Rightarrow> 'e DB \<Rightarrow> bool" where
  "apiStep E (EEnsureCollection n) db db' \<longleftrightarrow> DB_EnsureCollection E n db = (Inr (), db')"
| "apiStep E (ERemoveCollection n) db db' \<longleftrightarrow> DB_RemoveCollection E n db = (Inr (), db')"
| "apiStep E (ERenameCollection n n') db db' \<longleftrightarrow> DB_RenameCollection E n n' db = (Inr (), db')"
| "apiStep E (EPutNew n raw i) db db' \<longleftrightarrow> DB_PutNew E n raw db = (Inr i, db')"
| "apiStep E (EPut n i raw) db db' \<longleftrightarrow> DB_Put E n i raw db = (Inr (), db')"
| "apiStep E (EDelete n i) db db' \<longleftrightarrow> DB_Delete E n i db = (Inr (), db')"
| "apiStep E (EPatch n i patch) db db' \<longleftrightarrow> DB_Patch E n i patch db = (Inr (), db')"
| "apiStep E (EMergeOrPut n i patch) db db' \<longleftrightarrow> DB_MergeOrPut E n i patch db = (Inr (), db')"
| "apiStep E (EEnsureIndex n path kind unique) db db' \<longleftrightarrow> DB_EnsureIndex E n path kind unique db = (Inr (), db')"
| "apiStep E (ERemoveIndex n path kind) db db' \<longleftrightarrow> DB_RemoveIndex E n path kind db = (Inr (), db')"

text \<open>
  The document an event puts and where, computed from the documents \<open>D\<close> it works on; nothing for the other events.
\<close>

definition parsed :: "'e env \<Rightarrow> string \<Rightarrow> int64 \<Rightarrow> bytes \<Rightarrow> (string \<times> int64 \<times> gv) option" where
  "parsed E n i raw = (case decodeJSON (envJson E) raw of Inl _ \<Rightarrow> None | Inr doc \<Rightarrow> Some (n, i, doc))"

definition changed :: "'e env \<Rightarrow> gv \<Rightarrow> (bytes \<Rightarrow> bytes result) \<Rightarrow> string \<Rightarrow> int64 \<Rightarrow> (string \<times> int64 \<times> gv) option" where
  "changed E d f n i =
     (case marshalJSON (envJson E) d of
        Inl _ \<Rightarrow> None
      | Inr raw \<Rightarrow> (case f raw of Inl _ \<Rightarrow> None | Inr newRaw \<Rightarrow> parsed E n i newRaw))"

fun putOf :: "'e env \<Rightarrow> apiEvent \<Rightarrow> docs \<Rightarrow> (string \<times> int64 \<times> gv) option" where
  "putOf E (EPutNew n raw i) D = (if D n i = None then parsed E n i raw else None)"
| "putOf E (EPut n i raw) D = parsed E n i raw"
| "putOf E (EPatch n i patch) D =
     (case D n i of
        None \<Rightarrow> None
      | Some d \<Rightarrow> changed E d (\<lambda>raw. applyJSONPatch (envLib E) (envJson E) (envRoom E raw) raw patch) n i)"
| "putOf E (EMergeOrPut n i patch) D =
     (case D n i of
        None \<Rightarrow> parsed E n i patch
      | Some d \<Rightarrow> changed E d (\<lambda>raw. applyMergePatch (envJson E) raw patch) n i)"
| "putOf E _ D = None"

text \<open>
  The effect of an event that works on the documents \<open>V\<close> on a map \<open>D\<close> of documents; \<open>f\<close> is what becomes of a document that is put.
\<close>

definition putEffect :: "(gv \<Rightarrow> gv) \<Rightarrow> (string \<times> int64 \<times> gv) option \<Rightarrow> docs \<Rightarrow> docs option" where
  "putEffect f p D = (case p of None \<Rightarrow> None | Some (n, i, doc) \<Rightarrow> Some (D(n := (D n)(i \<mapsto> f doc))))"

fun effect :: "'e env \<Rightarrow> (gv \<Rightarrow> gv) \<Rightarrow> apiEvent \<Rightarrow> docs \<Rightarrow> docs \<Rightarrow> docs option" where
  "effect E f (EEnsureCollection n) V D = Some D"
| "effect E f (ERemoveCollection n) V D = Some (D(n := (\<lambda>_. None)))"
| "effect E f (ERenameCollection n n') V D = Some (D(n' := D n, n := (\<lambda>_. None)))"
| "effect E f (EDelete n i) V D = (if V n i = None then None else Some (D(n := (D n)(i := None))))"
| "effect E f (EEnsureIndex n path kind unique) V D = Some D"
| "effect E f (ERemoveIndex n path kind) V D = Some D"
| "effect E f ev V D = putEffect f (putOf E ev V) D"

text \<open>A call outside a transaction works on the stored documents, and a document that is put is stored at once.\<close>

definition absStep :: "'e env \<Rightarrow> apiEvent \<Rightarrow> docs \<Rightarrow> docs option" where
  "absStep E ev D = effect E (storedForm E) ev D D"

text \<open>Its effect on the collections and the definitions of their indexes.\<close>

fun absSchema :: "apiEvent \<Rightarrow> schema \<Rightarrow> schema option" where
  "absSchema (ERemoveCollection n) S = Some (S(n := None))"
| "absSchema (ERenameCollection n n') S = (if S n = None \<or> S n' \<noteq> None then None else Some (S(n' := S n, n := None)))"
| "absSchema (EDelete n i) S = Some S"
| "absSchema (EPatch n i patch) S = Some S"
| "absSchema (EEnsureIndex n path kind unique) S =
     Some ((made n S)(n \<mapsto> insert (path, kind, unique) (the (made n S n))))"
| "absSchema (ERemoveIndex n path kind) S =
     (case S n of
        None \<Rightarrow> None
      | Some X \<Rightarrow> if \<exists>d \<in> X. (fst d, fst (snd d)) = (path, kind) then Some (S(n \<mapsto> {d \<in> X. (fst d, fst (snd d)) \<noteq> (path, kind)}))
                 else None)"
| "absSchema (EEnsureCollection n) S = Some (made n S)"
| "absSchema (EPutNew n raw i) S = Some (made n S)"
| "absSchema (EPut n i raw) S = Some (made n S)"
| "absSchema (EMergeOrPut n i patch) S = Some (made n S)"

text \<open>
  The document that an event puts fits, and the indexes it gets out of step (\<open>db.go:2337\<close>). Counters that do not run over.
\<close>

definition fitsStep :: "'e env \<Rightarrow> apiEvent \<Rightarrow> docs \<Rightarrow> bool" where
  "fitsStep E ev D = (case putOf E ev D of None \<Rightarrow> True | Some (n, i, doc) \<Rightarrow> fits E doc)"

definition spoiled :: "'e env \<Rightarrow> apiEvent \<Rightarrow> 'e DB \<Rightarrow> docs \<Rightarrow> int64 set" where
  "spoiled E ev db D = (case putOf E ev D of None \<Rightarrow> {} | Some (n, i, doc) \<Rightarrow> spoils E (collections db) n doc)"

definition countersOk :: "'e DB \<Rightarrow> bool" where
  "countersOk db \<longleftrightarrow> room db \<and> (\<forall>(n, c) \<in> set (collections db). sint (colNextID c) < 2 ^ 63 - 1)"

lemma countersOkD: "countersOk db \<Longrightarrow> map_of (collections db) n = Some c \<Longrightarrow> sint (colNextID c) < 2 ^ 63 - 1"
  by (fastforce simp: countersOk_def dest: map_of_SomeD)

lemma parsed_doc: "decodeJSON (envJson E) raw = Inr doc \<Longrightarrow> parsed E n i raw = Some (n, i, doc)"
  by (simp add: parsed_def)

lemma changed_doc:
  "marshalJSON (envJson E) d = Inr raw \<Longrightarrow> f raw = Inr newRaw \<Longrightarrow> decodeJSON (envJson E) newRaw = Inr doc \<Longrightarrow>
    changed E d f n i = Some (n, i, doc)"
  by (simp add: changed_def parsed_doc)

text \<open>The relation between a state, the documents stored and the indexes that are out of step, and that after a step.\<close>

definition stepTo :: "'e env \<Rightarrow> ('e \<Rightarrow> kv) \<Rightarrow> int64 set \<Rightarrow> apiEvent \<Rightarrow> 'e DB \<Rightarrow> docs \<Rightarrow> 'e DB \<Rightarrow> bool" where
  "stepTo E kv B ev db D db' \<longleftrightarrow> absSchema ev (schemaOf db) = Some (schemaOf db')
     \<and> (\<exists>D'. absStep E ev D = Some D' \<and> (fitsStep E ev D \<longrightarrow> dbInv E kv (B \<union> spoiled E ev db D) db' D'))"

lemma stepTo_put:
  assumes "putOf E ev D = Some (n, i, doc)" and "effect E (storedForm E) ev D D = putEffect (storedForm E) (putOf E ev D) D"
    and "storedPut E kv db db' B D n i doc" and "absSchema ev (schemaOf db) = Some (schemaOf db')"
  shows "stepTo E kv B ev db D db'"
  using assms by (simp add: stepTo_def absStep_def putEffect_def fitsStep_def spoiled_def storedPut_def)

lemma stepTo_other:
  assumes "putOf E ev D = None" and "effect E (storedForm E) ev D D = Some D'"
    and "dbInv E kv B db' D'" and "absSchema ev (schemaOf db) = Some (schemaOf db')"
  shows "stepTo E kv B ev db D db'"
  using assms by (simp add: stepTo_def absStep_def spoiled_def)

context db_env
begin

lemma put_schema:
  assumes inv: "dbInv E kv B db D" and room: "room db" and put: "DB_Put E n i raw db = (Inr (), db')"
  shows "schemaOf db' = made n (schemaOf db)"
proof -
  have rel: "dbRel E kv B db D D" and op: "\<not> dbClosed db" using inv by (auto simp: dbInv_def)
  obtain db1 where "putIdLocked E n i raw db = (Inr (), db1)" "commitLocked E db1 = (Inr (), db')"
    using thenCommit_ok put op by (metis DB_Put_def)
  then show ?thesis using putIdLocked_schema [OF rel room] commitLocked_schema by metis
qed

lemma putNew_schema:
  assumes inv: "dbInv E kv B db D" and cnt: "countersOk db" and put: "DB_PutNew E n raw db = (Inr i, db')"
  shows "schemaOf db' = made n (schemaOf db)"
proof -
  have rel: "dbRel E kv B db D D" and op: "\<not> dbClosed db" using inv by (auto simp: dbInv_def)
  have room: "room db" using cnt by (simp add: countersOk_def)
  obtain db1 where p: "putNewLocked E n raw db = (Inr i, db1)" and c: "commitLocked E db1 = (Inr (), db')"
    using put op by (auto simp: DB_PutNew_def split: prod.splits sum.splits)
  have "schemaOf db1 = made n (schemaOf db)"
    by (rule putNewLocked_schema [OF rel room p]) (use countersOkD [OF cnt, of n] in blast)
  then show ?thesis using commitLocked_schema [OF c] by simp
qed

lemma delete_schema:
  assumes inv: "dbInv E kv B db D" and del: "DB_Delete E n i db = (Inr (), db')"
  shows "schemaOf db' = schemaOf db"
proof -
  have rel: "dbRel E kv B db D D" and op: "\<not> dbClosed db" using inv by (auto simp: dbInv_def)
  obtain c raw d where c: "map_of (collections db) n = Some c" and com: "commitLocked E (deleteLocked E c i raw d db) = (Inr (), db')"
    using del op by (auto simp: DB_Delete_def split: option.splits sum.splits)
  show ?thesis using deleteLocked_schema [OF rel c] commitLocked_schema [OF com] by simp
qed

lemma patch_schema:
  assumes inv: "dbInv E kv B db D" and op: "DB_Patch E n i patch db = (Inr (), db')"
  shows "schemaOf db' = schemaOf db"
proof -
  have rel: "dbRel E kv B db D D" and open_db: "\<not> dbClosed db" using inv by (auto simp: dbInv_def)
  obtain c newRaw db1 where c: "map_of (collections db) n = Some c"
    and p: "putLocked E c i newRaw db = (Inr (), db1)" and com: "commitLocked E db1 = (Inr (), db')"
    using op open_db by (auto simp: DB_Patch_def split: option.splits sum.splits dest!: thenCommit_ok)
  show ?thesis using putLocked_schema [OF rel c p] commitLocked_schema [OF com] by simp
qed

lemma mergeOrPut_schema:
  assumes inv: "dbInv E kv B db D" and room: "room db" and op: "DB_MergeOrPut E n i patch db = (Inr (), db')"
  shows "schemaOf db' = made n (schemaOf db)"
proof -
  have rel: "dbRel E kv B db D D" and open_db: "\<not> dbClosed db" using inv by (auto simp: dbInv_def)
  obtain c db0 where e: "ensureCollectionLocked n db = (c, db0)" by force
  note e' = ensureCollection_rel [OF rel room e]
  define col where "col = (if sint (colNextID c) < sint i then c\<lparr>colNextID := i\<rparr> else c)"
  have st: "strip col = strip c" and nid: "sint (colNextID c) \<le> sint (colNextID col)" by (simp_all add: col_def)
  consider db1 where "putLocked E col i patch (setCol col db0) = (Inr (), db1)" "commitLocked E db1 = (Inr (), db')"
    | newRaw db1 where "putLocked E c i newRaw db0 = (Inr (), db1)" "commitLocked E db1 = (Inr (), db')"
    using op open_db by (auto simp: DB_MergeOrPut_def e col_def Let_def split: if_splits sum.splits dest!: thenCommit_ok)
  then show ?thesis
  proof cases
    case 1
    then show ?thesis using putInto_schema [OF rel room e st nid] commitLocked_schema by metis
  next
    case 2
    then show ?thesis using putLocked_schema [OF e'(1,2)] ensureCollection_schema [OF rel e] commitLocked_schema by metis
  qed
qed

lemma ensureCollection_step_schema:
  assumes inv: "dbInv E kv B db D" and op: "DB_EnsureCollection E n db = (Inr (), db')"
  shows "schemaOf db' = made n (schemaOf db)"
proof -
  have rel: "dbRel E kv B db D D" and open_db: "\<not> dbClosed db" using inv by (auto simp: dbInv_def)
  obtain c db0 where e: "ensureCollectionLocked n db = (c, db0)" by force
  have "commitLocked E (markMetaDirty db0) = (Inr (), db')" using op open_db by (simp add: DB_EnsureCollection_def e)
  from commitLocked_schema [OF this] show ?thesis
    using ensureCollection_schema [OF rel e] by (simp add: schemaOf_def markMetaDirty_def)
qed

lemma removeIndex_guard:
  assumes "\<not> dbClosed db" and "DB_RemoveIndex E n path kind db = (Inr (), db')"
  shows "\<exists>X. schemaOf db n = Some X \<and> (\<exists>d \<in> X. (fst d, fst (snd d)) = (path, kind))"
proof -
  obtain c where c: "map_of (collections db) n = Some c" "matchingIndexes path kind c \<noteq> []"
    using assms by (auto simp: DB_RemoveIndex_def Let_def split: option.splits if_splits)
  then have "hd (matchingIndexes path kind c) \<in> set (matchingIndexes path kind c)" by simp
  then obtain k idx where "(k, idx) \<in> set (colIndexes c)" "idxPath idx = path" "idxKind idx = kind"
    by (auto simp: matchingIndexes_def)
  then have "(path, kind, idxUnique idx) \<in> indexDefs c" by (force simp: indexDefs_def)
  then show ?thesis using c(1) by (force simp: schemaOf_def)
qed

lemma simulation:
  assumes inv: "dbInv E kv B db D" and cnt: "countersOk db" and st: "apiStep E ev db db'"
  shows "stepTo E kv B ev db D db'"
proof -
  have room: "room db" using cnt by (simp add: countersOk_def)
  have op: "\<not> dbClosed db" using inv by (simp add: dbInv_def)
  show ?thesis
  proof (cases ev)
    case (EEnsureCollection n)
    then show ?thesis using ensureCollection_refines [OF inv room] ensureCollection_step_schema [OF inv] st
      by (auto intro!: stepTo_other)
  next
    case (ERemoveCollection n)
    then show ?thesis using removeCollection_refines [OF inv] st
      by (auto intro!: stepTo_other simp: schemaOf_def fun_eq_iff)
  next
    case (ERenameCollection n n')
    then have "DB_RenameCollection E n n' db = (Inr (), db')" using st by simp
    from renameCollection_refines [OF inv this]
    have r: "schemaOf db n \<noteq> None" "schemaOf db n' = None" "schemaOf db' = (schemaOf db)(n' := schemaOf db n, n := None)"
      "dbInv E kv B db' (D(n' := D n, n := (\<lambda>_. None)))" by (simp_all add: schemaOf_def)
    then show ?thesis using ERenameCollection by (intro stepTo_other [OF _ _ r(4)]) simp_all
  next
    case (EPutNew n raw i)
    then have p: "DB_PutNew E n raw db = (Inr i, db')" using st by simp
    from putNew_refines [OF inv room p] countersOkD [OF cnt, of n]
    obtain doc where "decodeJSON (envJson E) raw = Inr doc" "D n i = None" "storedPut E kv db db' B D n i doc" by auto
    then show ?thesis using EPutNew putNew_schema [OF inv cnt p] by (auto intro!: stepTo_put simp: parsed_doc)
  next
    case (EPut n i raw)
    then have p: "DB_Put E n i raw db = (Inr (), db')" using st by simp
    from put_refines [OF inv room p] show ?thesis using EPut put_schema [OF inv room p] by (auto intro!: stepTo_put simp: parsed_doc)
  next
    case (EDelete n i)
    then show ?thesis using delete_refines [OF inv] delete_schema [OF inv] st by (auto intro!: stepTo_other)
  next
    case (EPatch n i patch)
    then have p: "DB_Patch E n i patch db = (Inr (), db')" using st by simp
    from patch_refines [OF inv p] show ?thesis using EPatch patch_schema [OF inv p] by (auto intro!: stepTo_put changed_doc)
  next
    case (EMergeOrPut n i patch)
    then have p: "DB_MergeOrPut E n i patch db = (Inr (), db')" using st by simp
    from mergeOrPut_refines [OF inv room p] show ?thesis using EMergeOrPut mergeOrPut_schema [OF inv room p]
      by (cases "D n i") (auto intro!: stepTo_put parsed_doc changed_doc)
  next
    case (EEnsureIndex n path kind unique)
    then show ?thesis using ensureIndex_refines [OF inv room] st by (auto intro!: stepTo_other)
  next
    case (ERemoveIndex n path kind)
    then have p: "DB_RemoveIndex E n path kind db = (Inr (), db')" using st by simp
    obtain X where X: "schemaOf db n = Some X" "\<exists>d \<in> X. (fst d, fst (snd d)) = (path, kind)"
      using removeIndex_guard [OF op p] by blast
    have r: "dbInv E kv B db' D" "schemaOf db' = (schemaOf db)(n \<mapsto> {d \<in> X. (fst d, fst (snd d)) \<noteq> (path, kind)})"
      using removeIndex_refines [OF inv p] X(1) by simp_all
    then show ?thesis using ERemoveIndex X by (intro stepTo_other [OF _ _ r(1)]) simp_all
  qed
qed

text \<open>A unique index that is in step admits no two documents with a value in common.\<close>

lemma unique_values:
  assumes inv: "dbInv E kv B db D" and c: "map_of (collections db) n = Some c"
    and idx: "(k, idx) \<in> set (colIndexes c)" "idxUnique idx" "idxDBID idx \<notin> B"
    and "D n i = Some d" "D n j = Some d'" "v \<in> set (idxVals E idx d)" "v \<in> set (idxVals E idx d')"
  shows "i = j"
proof -
  have rel: "colRel E B (kv (dbEngine db)) c (D n)"
    using inv map_of_SomeD [OF c] by (auto simp: dbInv_def dbRel_def storeRel_def)
  then have "length v < 2 ^ 32" using assms(6,8) colRelD(2) [OF rel] by (auto simp: docOk_def)
  moreover have "indexRel E (kv (dbEngine db)) idx (D n)" using colRelD(3) [OF rel idx(1,3)] .
  ultimately have "kv (dbEngine db) (keyUniqueIndex idx v) = Some (putU64 [] i)"
    "kv (dbEngine db) (keyUniqueIndex idx v) = Some (putU64 [] j)"
    using idx(2) assms(6-9) by (auto simp: indexRel_def)
  then show ?thesis by simp
qed

end

section \<open>Reachable states\<close>

text \<open>
  A database opened on an empty store and driven by successful calls whose documents fit, with the indexes that the puts so far got
  out of step and the documents stored.
\<close>

inductive reachable :: "'e env \<Rightarrow> ('e \<Rightarrow> kv) \<Rightarrow> int64 set \<Rightarrow> 'e DB \<Rightarrow> docs \<Rightarrow> bool" for E kv where
  init: "Open E path e = Inr db \<Longrightarrow> kv e = (\<lambda>_. None) \<Longrightarrow> reachable E kv {} db (\<lambda>_ _. None)"
| step: "reachable E kv B db D \<Longrightarrow> countersOk db \<Longrightarrow> apiStep E ev db db' \<Longrightarrow> absStep E ev D = Some D' \<Longrightarrow>
    fitsStep E ev D \<Longrightarrow> reachable E kv (B \<union> spoiled E ev db D) db' D'"

lemma catOk_Nil [simp]: "catOk []"
  by (simp add: catOk_def catIndexes_def)

context db_env
begin

lemma open_empty:
  assumes "Open E path e = Inr db" and "kv e = (\<lambda>_. None)"
  shows "dbInv E kv {} db (\<lambda>_ _. None)" and "collections db = []" and "stNextCollectionID (dbSt db) = 1"
proof -
  have "engGet (envEng E) e keyMetaState \<noteq> Inr raw" for raw using get_value assms(2) by force
  then have "db = \<lparr>dbPath = path, dbEngine = e, dbSt = prepareState (newState (envNow E)), dbClosed = False, dbPending = [],
      dbDirtyMeta = False, dbDirtyFull = False\<rparr>"
    using assms(1) by (auto simp: Open_def load_def split: if_splits sum.splits)
  then show "dbInv E kv {} db (\<lambda>_ _. None)" "collections db = []" "stNextCollectionID (dbSt db) = 1" using assms(2)
    by (simp_all add: dbInv_def dbRel_def prepareState_def newState_def storeRel_def idsOk_def nextOk_def)
qed

lemma reachable_dbInv: "reachable E kv B db D \<Longrightarrow> dbInv E kv B db D"
proof (induction rule: reachable.induct)
  case (init path e db)
  then show ?case by (rule open_empty)
next
  case (step B db D ev db' D')
  then show ?case using simulation [of B db D ev db'] by (auto simp: stepTo_def)
qed

end

section \<open>What is on disk\<close>

text \<open>The catalog in the store is that of the state in memory.\<close>

definition persisted :: "'e env \<Rightarrow> ('e \<Rightarrow> kv) \<Rightarrow> 'e DB \<Rightarrow> bool" where
  "persisted E kv db \<longleftrightarrow>
     (\<exists>meta. encodeCatalog (envMarshalCat E) (dbSt db) = Inr meta \<and> kv (dbEngine db) keyMetaState = Some meta)"

definition reopenCol :: "string \<times> collectionState \<Rightarrow> string \<times> collectionState" where
  "reopenCol nc = (fst nc, initRuntime ((snd nc)\<lparr>colRuntime := [], colName := fst nc\<rparr>))"

lemma prepare_reopen:
  "stCollections (prepareState (stateFromCatalog now (catalogFromState st))) = map reopenCol (stCollections st)"
  "stNextCollectionID (prepareState (stateFromCatalog now (catalogFromState st)))
     = (if 0 < sint (stNextCollectionID st) then stNextCollectionID st else 1)"
proof -
  have c: "\<lparr>colName = n, colDBID = colDBID c, colNextID = colNextID c, colRNum = colRNum c,
      colIndexes = colIndexes c, colRuntime = []\<rparr> = c\<lparr>colRuntime := [], colName := n\<rparr>" for c n
    by (cases c) simp
  show "stCollections (prepareState (stateFromCatalog now (catalogFromState st))) = map reopenCol (stCollections st)"
    by (simp add: prepareState_def stateFromCatalog_def catalogFromState_def Let_def reopenCol_def
        case_prod_beta' comp_def c)
  show "stNextCollectionID (prepareState (stateFromCatalog now (catalogFromState st)))
     = (if 0 < sint (stNextCollectionID st) then stNextCollectionID st else 1)"
    by (simp add: prepareState_def stateFromCatalog_def catalogFromState_def Let_def newState_def)
qed

lemma map_of_reopen: "map_of (map reopenCol cols) n = map_option (\<lambda>c. snd (reopenCol (n, c))) (map_of cols n)"
  by (induction cols) (auto simp: reopenCol_def)

lemma stripCat_reopen: "catOk cols \<Longrightarrow> stripCat (map reopenCol cols) = stripCat cols"
proof -
  assume "catOk cols"
  then have "strip (snd (reopenCol nc)) = strip (snd nc)" if "nc \<in> set cols" for nc
    using that by (auto simp: catOk_def reopenCol_def strip_def initRuntime_def)
  then show ?thesis by (simp add: stripCat_def case_prod_beta' reopenCol_def)
qed

lemma dbRel_reopenCols:
  assumes rel: "dbRel E kv B db D D" and cols: "collections db2 = map reopenCol (collections db)"
    and nxt: "sint (stNextCollectionID (dbSt db)) \<le> sint (stNextCollectionID (dbSt db2))"
    and "dbEngine db2 = dbEngine db" "dbPending db2 = []" "\<not> dbDirtyFull db2"
  shows "dbRel E kv B db2 D D"
proof -
  note r = dbRelD [OF rel]
  have eq: "stripCat (map reopenCol (collections db)) = stripCat (collections db)" by (rule stripCat_reopen [OF r(1)])
  note lk = map_of_reopen [of "collections db"]
  have "idsOk (kv (dbEngine db)) (stNextCollectionID (dbSt db2)) (map reopenCol (collections db))"
    using r(5) catIds_strip [of "map reopenCol (collections db)"] catIds_strip [of "collections db"] eq nxt
    by (auto simp: idsOk_def)
  moreover have "nextOk (map reopenCol (collections db)) D"
    using r(6) by (fastforce simp: nextOk_def lk reopenCol_def initRuntime_def)
  moreover have "\<forall>x \<in> B. sint x \<le> sint (stNextCollectionID (dbSt db2))" using r(8) nxt by fastforce
  ultimately show ?thesis
    using r same_strip(1) [OF eq, of E B _ D] same_strip(2) [OF eq] assms(4-6)
    by (simp add: dbRel_def cols lk)
qed

lemma indexDefs_reopen: "indexDefs (snd (reopenCol (n, c))) = indexDefs c"
  by (simp add: reopenCol_def indexDefs_def initRuntime_def)

lemma schemaOf_reopenCols: "collections db2 = map reopenCol (collections db) \<Longrightarrow> schemaOf db2 = schemaOf db"
  by (rule ext) (simp add: schemaOf_def map_of_reopen option.map_comp comp_def indexDefs_reopen)

text \<open>The catalog on disk is that of the state, or there is none and the state has no collection.\<close>

definition onDisk :: "'e env \<Rightarrow> ('e \<Rightarrow> kv) \<Rightarrow> 'e DB \<Rightarrow> bool" where
  "onDisk E kv db \<longleftrightarrow> persisted E kv db
     \<or> (kv (dbEngine db) = (\<lambda>_. None) \<and> collections db = [] \<and> sint (stNextCollectionID (dbSt db)) \<le> 1)"

text \<open>The catalog cannot be read, for another reason than that there is none.\<close>

definition catalogUnread :: "'e env \<Rightarrow> 'e \<Rightarrow> error \<Rightarrow> bool" where
  "catalogUnread E e err \<longleftrightarrow> engGet (envEng E) e keyMetaState = Inl err \<and> \<not> errorIs err ErrNotFound"

context db_env
begin

lemma dbInv_empty:
  assumes "dbInv E kv B db D" and "kv (dbEngine db) = (\<lambda>_. None)"
  shows "D = (\<lambda>_ _. None)"
proof (intro ext)
  fix n i
  show "D n i = None"
  proof (cases "map_of (collections db) n")
    case None
    then show ?thesis using assms(1) by (auto simp: dbInv_def dbRel_def)
  next
    case (Some c)
    then have "colRel E B (kv (dbEngine db)) c (D n)"
      using assms(1) by (auto simp: dbInv_def dbRel_def storeRel_def dest: map_of_SomeD)
    then show ?thesis using assms(2) colRel_doc(3) by metis
  qed
qed

text \<open>Loading the state back: the same collections, with their counters and the definitions of their indexes.\<close>

lemma load_persisted:
  assumes per: "persisted E kv db" and cat: "\<And>c raw. envMarshalCat E c = Inr raw \<Longrightarrow> envUnmarshalCat E raw = Inr c"
  shows "case load E (dbEngine db) of
      Inl err \<Rightarrow> catalogUnread E (dbEngine db) err
    | Inr st \<Rightarrow> st = prepareState (stateFromCatalog (envNow E) (catalogFromState (dbSt db)))"
proof -
  obtain meta where meta: "encodeCatalog (envMarshalCat E) (dbSt db) = Inr meta" "kv (dbEngine db) keyMetaState = Some meta"
    using per by (auto simp: persisted_def)
  have "envUnmarshalCat E meta = Inr (catalogFromState (dbSt db))" using meta(1) cat by (simp add: encodeCatalog_def)
  then have d: "decodeCatalog (envUnmarshalCat E) (envNow E) meta = Inr (stateFromCatalog (envNow E) (catalogFromState (dbSt db)))"
    by (simp add: decodeCatalog_def catalogFromState_def)
  show ?thesis
  proof (cases "engGet (envEng E) (dbEngine db) keyMetaState")
    case (Inl err)
    then show ?thesis using get_absent [OF Inl] meta(2) by (auto simp: load_def catalogUnread_def)
  next
    case (Inr raw)
    then have "raw = meta" using get_value [OF Inr] meta(2) by simp
    then show ?thesis using Inr d by (simp add: load_def)
  qed
qed

text \<open>
  Opening the store again finds the same documents, collections and indexes, whatever happened to the process in between; it fails
  only without a path or when the catalog cannot be read.
\<close>

lemma reopen:
  assumes inv: "dbInv E kv B db D" and per: "onDisk E kv db"
    and cat: "\<And>c raw. envMarshalCat E c = Inr raw \<Longrightarrow> envUnmarshalCat E raw = Inr c"
  shows "case Open E path (dbEngine db) of
      Inl err \<Rightarrow> path = [] \<or> catalogUnread E (dbEngine db) err
    | Inr db2 \<Rightarrow> dbInv E kv B db2 D \<and> schemaOf db2 = schemaOf db"
proof (cases "persisted E kv db")
  case True
  note ld = load_persisted [OF True cat, simplified]
  let ?st = "prepareState (stateFromCatalog (envNow E) (catalogFromState (dbSt db)))"
  show ?thesis
  proof (cases "Open E path (dbEngine db)")
    case (Inl err)
    then show ?thesis using ld by (auto simp: Open_def split: if_splits sum.splits)
  next
    case (Inr db2)
    then have db2: "db2 = \<lparr>dbPath = path, dbEngine = dbEngine db, dbSt = ?st, dbClosed = False, dbPending = [],
        dbDirtyMeta = False, dbDirtyFull = False\<rparr>"
      using ld by (auto simp: Open_def split: if_splits sum.splits)
    have "dbRel E kv B db2 D D"
      by (rule dbRel_reopenCols [of _ _ _ db]) (use inv in \<open>simp_all add: dbInv_def db2 prepare_reopen\<close>)
    moreover have "schemaOf db2 = schemaOf db" by (rule schemaOf_reopenCols) (simp add: db2 prepare_reopen)
    ultimately show ?thesis using Inr by (simp add: dbInv_def db2)
  qed
next
  case False
  then have e: "kv (dbEngine db) = (\<lambda>_. None)" "collections db = []" "sint (stNextCollectionID (dbSt db)) \<le> 1"
    using per by (auto simp: onDisk_def)
  have B: "sint x \<le> 1" if "x \<in> B" for x using inv e(3) that by (fastforce simp: dbInv_def dbRel_def)
  have D: "D = (\<lambda>_ _. None)" using dbInv_empty [OF inv e(1)] .
  show ?thesis
  proof (cases "Open E path (dbEngine db)")
    case (Inl err)
    then show ?thesis using get_value [of "dbEngine db" keyMetaState] e(1)
      by (auto simp: Open_def load_def catalogUnread_def split: if_splits sum.splits)
  next
    case (Inr db2)
    have "dbEngine db2 = dbEngine db" using Inr by (auto simp: Open_def split: if_splits sum.splits)
    moreover have "dbInv E kv B db2 (\<lambda>_ _. None)"
      by (rule dbInv_mono [OF open_empty(1) [OF Inr e(1)]]) (use B open_empty(3) [OF Inr e(1)] in simp_all)
    ultimately show ?thesis using Inr open_empty(2) [OF Inr e(1)] e D by (simp add: schemaOf_def)
  qed
qed

end

section \<open>Every call persists\<close>

definition opKey :: "batchOp \<Rightarrow> bytes option" where
  "opKey x = (case x of BSet k _ \<Rightarrow> Some k | BDelete k \<Rightarrow> Some k | BDeleteRange _ _ \<Rightarrow> None)"

lemma applyBatch_elsewhere: "\<forall>x \<in> set ops. \<exists>k. opKey x = Some k \<and> k \<noteq> K \<Longrightarrow> applyBatch ops m K = m K"
proof (induction ops arbitrary: m)
  case (Cons x ops)
  then have "applyOp1 x m K = m K" by (cases x) (auto simp: opKey_def)
  with Cons show ?case by simp
qed simp

lemma mutationOps_keys:
  "mutationOps E cols mu = Inr ops \<Longrightarrow> x \<in> set ops \<Longrightarrow> \<exists>k. opKey x = Some k \<and> k \<noteq> keyMetaState"
  by (auto simp: mutationOps_def deleteIndexKeys_def setIndexKeys_def Let_def opKey_def indexEntryKey_def
      split: sum.splits storageMutationKind.splits if_splits option.splits)

lemma pendingOps_keys:
  "pendingOps E cols ms = Inr ops \<Longrightarrow> x \<in> set ops \<Longrightarrow> \<exists>k. opKey x = Some k \<and> k \<noteq> keyMetaState"
  by (induction ms arbitrary: ops) (auto split: sum.splits dest: mutationOps_keys)

text \<open>What the steps leave of the flags.\<close>

lemma ensureCollection_flags:
  "ensureCollectionLocked n db = (c, db') \<Longrightarrow> dbDirtyFull db' = dbDirtyFull db"
  by (auto simp: ensureCollectionLocked_def ensureCollectionOnStateLocked_def Let_def split: option.splits)

lemma putLocked_flags:
  "putLocked E c i raw db = (Inr (), db') \<Longrightarrow> dbDirtyMeta db' \<and> dbDirtyFull db' = dbDirtyFull db"
  by (auto simp: putLocked_def recordDocPut_def Let_def split: sum.splits prod.splits option.splits)

lemma putIdLocked_flags:
  "putIdLocked E n i raw db = (Inr (), db') \<Longrightarrow> dbDirtyMeta db' \<and> dbDirtyFull db' = dbDirtyFull db"
  by (auto simp: putIdLocked_def Let_def split: prod.splits if_splits dest!: putLocked_flags ensureCollection_flags)

lemma putNewLocked_flags:
  "putNewLocked E n raw db = (Inr i, db') \<Longrightarrow> dbDirtyMeta db' \<and> dbDirtyFull db' = dbDirtyFull db"
  by (auto simp: putNewLocked_def Let_def split: prod.splits sum.splits dest!: putLocked_flags ensureCollection_flags)

lemma deleteLocked_flags:
  "dbDirtyMeta (deleteLocked E c i raw d db)" "dbDirtyFull (deleteLocked E c i raw d db) = dbDirtyFull db"
  by (simp_all add: deleteLocked_def recordDocDelete_def Let_def setCol_def setCollections_def)

lemma rebuildIndex_flags: "rebuildIndex E c k db = (r, db') \<Longrightarrow> dbDirtyFull db' = dbDirtyFull db"
  by (auto simp: rebuildIndex_def commitBatch_def Let_def split: option.splits sum.splits)

lemma ensureIndexLocked_flags:
  "ensureIndexLocked E n path kind unique db = (Inr b, db') \<Longrightarrow> dbDirtyFull db' = dbDirtyFull db"
  by (auto simp: ensureIndexLocked_def Let_def split: sum.splits prod.splits option.splits if_splits
      dest!: rebuildIndex_flags ensureCollection_flags)

lemma ensureIndexLocked_found:
  assumes "ensureIndexLocked E n path kind unique db = (Inr b, db')" and "dbRel E kv B db D V" and "\<not> b"
  shows "db' = db"
proof (cases "map_of (collections db) n")
  case None
  then show ?thesis using assms
    by (auto simp: ensureIndexLocked_def ensureCollection_new emptyCol_def Let_def split: sum.splits prod.splits)
next
  case (Some c)
  then show ?thesis using assms
    by (auto simp: ensureIndexLocked_def ensureCollection_old [OF assms(2)] Let_def
        split: sum.splits prod.splits option.splits if_splits)
qed

context db_env
begin

lemma commit_persists:
  assumes "commitLocked E db = (Inr (), db')" and "dbDirtyMeta db" and "\<not> dbDirtyFull db"
  shows "persisted E kv db'"
proof -
  have "persistPendingLocked E db = (Inr (), db')" using assms by (auto simp: commitLocked_def)
  from persistPending_ok [OF this] obtain meta ops e' where m: "encodeCatalog (envMarshalCat E) (dbSt db) = Inr meta"
    and p: "pendingOps E (collections db) (dbPending db) = Inr ops"
    and e: "engCommit (envEng E) (dbEngine db) (BSet keyMetaState meta # ops) = Inr e'"
    and db': "db' = clearPending (db\<lparr>dbEngine := e'\<rparr>)" .
  have "kv e' keyMetaState = Some meta"
    using commit [OF e] applyBatch_elsewhere [of ops keyMetaState] pendingOps_keys [OF p] by auto
  then show ?thesis using m by (auto simp: persisted_def db' clearPending_def)
qed

lemma commitBatch_persists:
  assumes "commitBatch E (ops @ [BSet keyMetaState meta]) db = (Inr (), db')" and "encodeCatalog (envMarshalCat E) (dbSt db) = Inr meta"
  shows "persisted E kv db'"
  using assms by (auto simp: commitBatch_def persisted_def dest!: commit split: sum.splits)

lemma drop_persists:
  "dropCollectionDataAndCommitLocked E c db = (Inr (), db') \<Longrightarrow> persisted E kv db'"
  "dropIndexesDataAndCommitLocked E ixs db = (Inr (), db') \<Longrightarrow> persisted E kv db'"
  using commitBatch_persists [where ops = "[BDeleteRange (keyDocPrefix (colDBID c)) (prefixEnd (keyDocPrefix (colDBID c))),
      BDelete (keySeq (colDBID c))] @ concat (map (dropIndexOps \<circ> snd) (colIndexes c))"]
    commitBatch_persists [where ops = "concat (map dropIndexOps ixs)"]
  by (auto simp: dropCollectionDataAndCommitLocked_def dropIndexesDataAndCommitLocked_def split: sum.splits)

lemma apiStep_persists:
  assumes inv: "dbInv E kv B db D" and st: "apiStep E ev db db'"
  shows "persisted E kv db' \<or> (db' = db \<and> putOf E ev D' = None)"
proof -
  have rel: "dbRel E kv B db D D" and op: "\<not> dbClosed db" and nf: "\<not> dbDirtyFull db" using inv by (auto simp: dbInv_def dbRel_def)
  show ?thesis
  proof (cases ev)
    case (EEnsureCollection n)
    obtain c db0 where e: "ensureCollectionLocked n db = (c, db0)" by force
    then show ?thesis using st op nf EEnsureCollection ensureCollection_flags [OF e]
      by (auto simp: DB_EnsureCollection_def markMetaDirty_def intro!: commit_persists)
  next
    case (ERemoveCollection n)
    then show ?thesis using st op drop_persists(1) by (auto simp: DB_RemoveCollection_def split: option.splits)
  next
    case (ERenameCollection n n')
    then show ?thesis using st op nf
      by (auto simp: DB_RenameCollection_def markMetaDirty_def setCollections_def intro!: commit_persists split: option.splits if_splits)
  next
    case (EPutNew n raw i)
    then show ?thesis using st op nf
      by (auto simp: DB_PutNew_def intro!: commit_persists dest!: putNewLocked_flags split: prod.splits sum.splits)
  next
    case (EPut n i raw)
    then show ?thesis using st op nf
      by (auto simp: DB_Put_def intro!: commit_persists dest!: thenCommit_ok putIdLocked_flags)
  next
    case (EDelete n i)
    then show ?thesis using st op nf
      by (auto simp: DB_Delete_def deleteLocked_flags intro!: commit_persists split: option.splits sum.splits)
  next
    case (EPatch n i patch)
    then show ?thesis using st op nf
      by (auto simp: DB_Patch_def intro!: commit_persists dest!: thenCommit_ok putLocked_flags split: option.splits sum.splits)
  next
    case (EMergeOrPut n i patch)
    then show ?thesis using st op nf
      by (auto simp: DB_MergeOrPut_def Let_def intro!: commit_persists
          dest!: thenCommit_ok putLocked_flags ensureCollection_flags split: prod.splits sum.splits if_splits)
  next
    case (EEnsureIndex n path kind unique)
    then obtain b db1 where l: "ensureIndexLocked E n path kind unique db = (Inr b, db1)"
      and fin: "if b then commitLocked E (markMetaDirty db1) = (Inr (), db') else db' = db1"
      using st op by (auto simp: DB_EnsureIndex_def split: prod.splits sum.splits if_splits)
    show ?thesis
    proof (cases b)
      case True
      then show ?thesis using fin ensureIndexLocked_flags [OF l] nf
        by (auto simp: markMetaDirty_def intro!: commit_persists)
    next
      case False
      then show ?thesis using fin ensureIndexLocked_found [OF l rel] EEnsureIndex by simp
    qed
  next
    case (ERemoveIndex n path kind)
    then show ?thesis using st op drop_persists(2) by (auto simp: DB_RemoveIndex_def Let_def split: option.splits if_splits)
  qed
qed

lemma apiStep_onDisk:
  assumes "dbInv E kv B db D" and "apiStep E ev db db'" and "onDisk E kv db"
  shows "onDisk E kv db'"
  using apiStep_persists [OF assms(1,2)] assms(3) by (auto simp: onDisk_def)

lemma open_empty_onDisk: "Open E path e = Inr db \<Longrightarrow> kv e = (\<lambda>_. None) \<Longrightarrow> onDisk E kv db"
  using open_empty(2,3) [of path e db] by (auto simp: Open_def onDisk_def split: if_splits sum.splits)

lemma reachable_onDisk: "reachable E kv B db D \<Longrightarrow> onDisk E kv db"
proof (induction rule: reachable.induct)
  case (init path e db)
  then show ?case by (rule open_empty_onDisk)
next
  case (step B db D ev db' D')
  then show ?case using apiStep_onDisk [OF reachable_dbInv] by blast
qed

end

end
