(* ===== verification/ApiProps.thy ===== *)
theory ApiProps
  imports Api
begin

text \<open>
  The properties of the API, with the environment of the Pebble engine and a small concrete environment
  on which their hypotheses hold.
\<close>

section \<open>The environment of the Pebble engine\<close>

text \<open>With the Pebble wrapper as the engine, the documented behaviour of Pebble gives the contract of the engine.\<close>

locale pebble_env = pebble_db P pkv for P :: "'p pebble" and pkv +
  fixes E :: "'p env"
  assumes engine: "envEng E = PebbleEngine P"
    and json: "decodeJSON (envJson E) raw = Inr v \<Longrightarrow>
      \<exists>b. marshalJSON (envJson E) v = Inr b \<and> b \<noteq> [] \<and> decodeJSON (envJson E) b = Inr v"
    and numbers: "decodeJSON (envJson E) raw = Inr v \<Longrightarrow> encodeStoredDocument (envLib E) v = Inr enc \<Longrightarrow>
      \<exists>raw'. decodeJSON (envJson E) raw' = Inr (binnNorm (envLib E) v)"

sublocale pebble_env \<subseteq> env: db_env E pkv
proof (intro db_env.intro db_env_axioms.intro)
  show "storage_engine (envEng E) pkv" unfolding engine by (rule eng.storage_engine_axioms)
qed (rule json, assumption, rule numbers)

section \<open>A small environment\<close>

text \<open>Two JSON texts, and the store in memory: an instance on which the hypotheses hold.\<close>

definition tinyText :: bytes where "tinyText = bytes_of_string ''{\"a\":1}''"

definition tinyDoc :: gv where "tinyDoc = VObject [(''a'', VNumber ''1'')]"

definition tinyText0 :: bytes where "tinyText0 = bytes_of_string ''{}''"

definition tinyJson :: json_lib where
  "tinyJson =
     \<lparr>jsonTokens = (\<lambda>raw. if raw = tinyText then ([TBeginObject, TString ''a'', TNumber ''1'', TEndObject], EOF)
        else if raw = tinyText0 then ([TBeginObject, TEndObject], EOF) else ([], EOF)),
      marshalJSON = (\<lambda>v. if v = tinyDoc then Inr tinyText else if v = VObject [] then Inr tinyText0 else Inl UnexpectedEOF),
      unmarshalJSON = (\<lambda>_. Inl UnexpectedEOF)\<rparr>"

definition tinyLib :: go_lib where
  "tinyLib =
     \<lparr>parseFloat = (\<lambda>_. None), formatG64 = (\<lambda>_. ''0''), formatF64 = (\<lambda>_. ''0''), formatG32 = (\<lambda>_. ''0''),
      widenF32 = (\<lambda>_. 0), narrowF64 = (\<lambda>_. 0), addF64 = (\<lambda>a b. a), sprint = (\<lambda>_. []), regexpMatch = (\<lambda>_ _. None)\<rparr>"

definition tinyEnv :: "(catalogState \<Rightarrow> bytes result) \<Rightarrow> (bytes \<Rightarrow> catalogState result) \<Rightarrow> memStore env" where
  "tinyEnv mc uc =
     \<lparr>envLib = tinyLib, envJson = tinyJson, envEng = PebbleEngine memPebble, envMarshalCat = mc, envUnmarshalCat = uc,
      envCloneJSON = Inr, envNow = 7, envStat = (\<lambda>_. None), envRoom = (\<lambda>_. False)\<rparr>"

lemma tinyText_other [simp]: "tinyText0 \<noteq> tinyText" "tinyText \<noteq> tinyText0" "tinyText0 \<noteq> []" "VObject [] \<noteq> tinyDoc"
  by (simp_all add: tinyText_def tinyText0_def bytes_of_string_def tinyDoc_def)

lemma tiny_decode: "decodeJSON tinyJson raw =
    (if raw = tinyText then Inr tinyDoc else if raw = tinyText0 then Inr (VObject []) else Inl EOF)"
  by (simp add: decodeJSON_def tinyJson_def decodeJSONAny_def tinyDoc_def eval_nat_numeral)

lemma tiny_marshal: "marshalJSON tinyJson v =
    (if v = tinyDoc then Inr tinyText else if v = VObject [] then Inr tinyText0 else Inl UnexpectedEOF)"
  by (simp add: tinyJson_def)

lemma tinyText_not_Nil [simp]: "tinyText \<noteq> []"
  by (simp add: tinyText_def bytes_of_string_def)

lemma tiny_number: "ParseInt ''1'' = Some 1" "FormatInt 1 = ''1''"
  by (simp_all add: ParseInt_def digitVal_def FormatInt_def fmtBase.simps digitChar_def char_of_def bit_0)

lemma tiny_norm: "binnNorm L tinyDoc = tinyDoc" "binnNorm L (VObject []) = VObject []"
  by (simp_all add: tinyDoc_def tiny_number)

interpretation tiny: pebble_env memPebble map_of "tinyEnv mc uc"
  by unfold_locales (auto simp: tinyEnv_def tiny_decode tiny_marshal tiny_norm split: if_splits intro: exI [of _ tinyText])

lemma tiny_encoded: "encodeStoredDocument L tinyDoc = Inr [0xe2, 7, 1, 1, 0x61, 0x20, 1]"
  by (simp add: tinyDoc_def tiny_number binnContainer_def containerSize.simps containerNext_def
        binnSizedLen_def appendBinnType_def appendBinnSized_def binnEncodeInt_def bytes_of_string_def
        binnObject_def maxBinnObjectKeyLen_def Let_def)

lemma tiny_get: "getAt tinyDoc ts \<in> {None, Some tinyDoc, Some (VNumber ''1'')}"
  by (cases ts; cases "tl ts") (auto simp: tinyDoc_def split: option.splits if_splits)

lemma tiny_values: "v \<in> set (valuesForIndex tinyLib tinyDoc path kind) \<Longrightarrow> length v \<le> 16"
proof -
  assume v: "v \<in> set (valuesForIndex tinyLib tinyDoc path kind)"
  have "pointerGet tinyDoc path \<in> {None, Some tinyDoc, Some (VNumber ''1'')}"
    using tiny_get by (auto simp: pointerGet_def split: sum.splits)
  with v consider "normalizeIndexValue tinyLib tinyDoc kind = Some v" | "normalizeIndexValue tinyLib (VNumber ''1'') kind = Some v"
    by (auto simp: valuesForIndex_def appendValues_set tinyDoc_def)
  then show "length v \<le> 16"
    by cases (cases kind; auto simp: tinyDoc_def)+
qed

lemma tiny_fits: "fits (tinyEnv mc uc) tinyDoc"
  using tiny_values unfolding fits_def storedForm_def
  by (fastforce simp: idxVals_def tinyEnv_def tiny_encoded tiny_norm)

lemma empty_container [simp]: "binnContainer binnObject 0 [] = [0xe2, 3, 0]"
  by (simp add: binnContainer_def containerSize.simps containerNext_def binnSizedLen_def appendBinnType_def
      appendBinnSized_def binnObject_def Let_def)

lemma empty_encoded: "encodeStoredDocument L (VObject []) = Inr [0xe2, 3, 0]"
  by simp

lemma empty_values: "valuesForIndex L (VObject []) path kind = []"
proof -
  have "getAt (VObject []) ts \<in> {None, Some (VObject [])}" for ts by (cases ts) auto
  then have "pointerGet (VObject []) path \<in> {None, Some (VObject [])}" by (auto simp: pointerGet_def split: sum.splits)
  then show ?thesis by (cases kind) (auto simp: valuesForIndex_def)
qed

lemma empty_fits: "fits (tinyEnv mc uc) (VObject [])"
  by (simp add: fits_def storedForm_def idxVals_def empty_values empty_encoded)

text \<open>Neither document is changed by being stored, so that they get no index out of step.\<close>

lemma tiny_stored: "storedForm (tinyEnv mc uc) tinyDoc = tinyDoc" "storedForm (tinyEnv mc uc) (VObject []) = VObject []"
  by (simp_all add: storedForm_def tiny_norm)

lemma tiny_spoils: "spoils (tinyEnv mc uc) cols n tinyDoc = {}" "spoils (tinyEnv mc uc) cols n (VObject []) = {}"
  by (simp_all add: spoils_def stable_def tiny_stored split: option.splits)

definition tinyOpen :: "memStore DB" where
  "tinyOpen = \<lparr>dbPath = ''p'', dbEngine = [], dbSt = newState 7, dbClosed = False, dbPending = [],
     dbDirtyMeta = False, dbDirtyFull = False\<rparr>"

lemma tiny_open: "Open (tinyEnv mc uc) ''p'' [] = Inr tinyOpen"
  by (simp add: Open_def load_def tinyEnv_def PebbleEngine_def PebbleGet_def memPebble_def prepareState_def newState_def tinyOpen_def)


definition tinyCol :: "collectionState" where
  "tinyCol = \<lparr>colName = ''c'', colDBID = 2, colNextID = 1, colRNum = 1, colIndexes = [], colRuntime = []\<rparr>"

definition tinySt :: "dbState" where
  "tinySt = \<lparr>stVersion = ''2.0-go'', stNextCollectionID = 2, stCreatedAt = 7, stCollections = [(''c'', tinyCol)]\<rparr>"

definition tinyMc :: "catalogState \<Rightarrow> bytes result" where
  "tinyMc c = (if c = catalogFromState tinySt then Inr [1] else Inl UnexpectedEOF)"

definition tinyUc :: "bytes \<Rightarrow> catalogState result" where
  "tinyUc raw = (if raw = [1] then Inr (catalogFromState tinySt) else Inl UnexpectedEOF)"

abbreviation tinyE :: "memStore env" where "tinyE \<equiv> tinyEnv tinyMc tinyUc"

definition tinyDb :: "memStore DB" where
  "tinyDb = \<lparr>dbPath = ''p'',
     dbEngine = [(keyMetaState, [1]), (keySeq 2, putU64 [] 1), (keyDoc 2 1, [0xe2, 7, 1, 1, 0x61, 0x20, 1])],
     dbSt = tinySt, dbClosed = False, dbPending = [], dbDirtyMeta = False, dbDirtyFull = False\<rparr>"

lemma tiny_fields [simp]:
  "envLib (tinyEnv mc uc) = tinyLib" "envJson (tinyEnv mc uc) = tinyJson" "envEng (tinyEnv mc uc) = PebbleEngine memPebble"
  "envMarshalCat (tinyEnv mc uc) = mc" "envUnmarshalCat (tinyEnv mc uc) = uc" "envNow (tinyEnv mc uc) = 7"
  "envCloneJSON (tinyEnv mc uc) = Inr"
  by (simp_all add: tinyEnv_def)

lemma mem_simps [simp]:
  "engGet (PebbleEngine memPebble) es k = (case map_of es k of None \<Rightarrow> Inl ErrNotFound | Some v \<Rightarrow> Inr v)"
  "engCommit (PebbleEngine memPebble) es ops = Inr (fold memApply ops es)"
  by (auto simp: PebbleEngine_def PebbleGet_def memPebble_def memEngine_def split: option.splits)

lemmas tiny_put_defs = putIdLocked_def putNewLocked_def ensureCollectionLocked_def ensureCollectionOnStateLocked_def newState_def
  putLocked_def normalizeRawJSON_def tiny_decode tiny_marshal Let_def oldDocument_def pendingDocState_def
  lastPending_def getDocNode_def setCol_def setCollections_def checkUniqueConstraints_def adjustIndexRNums_def recordDocPut_def

lemmas tiny_commit_defs = commitLocked_def persistPendingLocked_def encodeCatalog_def mutationOps_def encodeStoredDoc_def tiny_encoded
  setIndexKeys_def mutationDoc_def commitBatch_def clearPending_def

lemma tiny_putLocked:
  "putIdLocked tinyE ''c'' 1 tinyText tinyOpen =
     (Inr (), tinyOpen\<lparr>dbSt := tinySt, dbPending := [\<lparr>mKind = mutationPut, mCollection = ''c'', mId = 1,
        mOldRaw = [], mNewRaw = tinyText, mOldDoc = VNil, mNewDoc = tinyDoc\<rparr>], dbDirtyMeta := True\<rparr>)"
  by (simp add: tinyOpen_def tiny_put_defs tinySt_def tinyCol_def)

lemma tiny_put: "DB_Put tinyE ''c'' 1 tinyText tinyOpen = (Inr (), tinyDb)"
proof -
  have d: "tinyDoc \<noteq> VNil" by (simp add: tinyDoc_def)
  have o: "\<not> dbClosed tinyOpen" by (simp add: tinyOpen_def)
  have "DB_Put tinyE ''c'' 1 tinyText tinyOpen
      = commitLocked tinyE (tinyOpen\<lparr>dbSt := tinySt, dbPending := [\<lparr>mKind = mutationPut, mCollection = ''c'', mId = 1,
        mOldRaw = [], mNewRaw = tinyText, mOldDoc = VNil, mNewDoc = tinyDoc\<rparr>], dbDirtyMeta := True\<rparr>)"
    using o by (simp add: DB_Put_def tiny_putLocked thenCommit_def)
  then show ?thesis
    using d by (simp add: tiny_commit_defs tinyMc_def tinyDb_def tinySt_def tinyCol_def tinyOpen_def Let_def)
qed

definition tinyDocs :: docs where
  "tinyDocs = (\<lambda>_ _. None)(''c'' := (\<lambda>_. None)(1 := Some tinyDoc))"

lemma tiny_docs: "tinyDocs n i = (if n = ''c'' \<and> i = 1 then Some tinyDoc else None)"
  by (simp add: tinyDocs_def)

lemma tiny_putOf:
  "putOf (tinyEnv mc uc) (EPut ''c'' 1 tinyText) D = Some (''c'', 1, tinyDoc)"
  "D n i = None \<Longrightarrow> putOf (tinyEnv mc uc) (EPutNew n tinyText0 i) D = Some (n, i, VObject [])"
  by (simp_all add: parsed_def tiny_decode)

lemma tiny_abs: "absStep (tinyEnv mc uc) (EPut ''c'' 1 tinyText) (\<lambda>_ _. None) = Some tinyDocs"
  by (simp add: absStep_def putEffect_def parsed_def tiny_decode tiny_stored tinyDocs_def)

lemma tiny_step: "fitsStep (tinyEnv mc uc) (EPut ''c'' 1 tinyText) D" "spoiled (tinyEnv mc uc) (EPut ''c'' 1 tinyText) db D = {}"
  using tiny_fits by (simp_all only: fitsStep_def spoiled_def tiny_putOf tiny_spoils option.case prod.case)

lemma tiny_counters: "countersOk tinyOpen" "countersOk tinyDb"
  by (simp_all add: countersOk_def room_def tinyOpen_def newState_def tinyDb_def tinySt_def tinyCol_def)

lemma tiny_reachable0: "reachable (tinyEnv mc uc) map_of {} tinyOpen (\<lambda>_ _. None)"
  by (rule reachable.init [OF tiny_open]) (simp add: fun_eq_iff)

lemma tiny_reachable: "reachable tinyE map_of {} tinyDb tinyDocs"
  using reachable.step [OF tiny_reachable0 tiny_counters(1) _ tiny_abs tiny_step(1), of tinyMc tinyUc tinyDb]
  by (simp add: tiny_put tiny_step)

text \<open>The same with a unique index made first.\<close>

abbreviation tinyI :: "memStore env" where "tinyI \<equiv> tinyEnv (\<lambda>_. Inr [0]) tinyUc"

definition tinyIdx :: "int \<Rightarrow> indexState" where
  "tinyIdx r = \<lparr>idxPath = ''/a'', idxKind = IndexInt64, idxUnique = True, idxDBID = 3, idxRNum = r\<rparr>"

definition tinyKey :: string where "tinyKey = indexKey ''/a'' IndexInt64 True"

definition tinyISt :: "int64 \<Rightarrow> int \<Rightarrow> int \<Rightarrow> dbState" where
  "tinyISt nid rn ri = \<lparr>stVersion = ''2.0-go'', stNextCollectionID = 3, stCreatedAt = 7,
     stCollections = [(''c'', \<lparr>colName = ''c'', colDBID = 2, colNextID = nid, colRNum = rn,
       colIndexes = [(tinyKey, tinyIdx ri)], colRuntime = [(tinyKey, newRuntime (tinyIdx ri))]\<rparr>)]\<rparr>"

definition tinyIOpen :: "memStore DB" where
  "tinyIOpen = tinyOpen\<lparr>dbSt := tinyISt 0 0 0, dbEngine := [(keyMetaState, [0])]\<rparr>"

lemma tiny_pointer: "pointerTokens ''/a'' = Inr [''a'']"
  by (simp add: pointerTokens_def unescapeToken_def ReplaceAll.simps HasPrefix_def)

lemma tiny_scan: "scanPrefix (PebbleEngine memPebble) [] p f s = Inr s"
  by (simp add: scanPrefix_def PebbleEngine_def memPebble_def memEngine_def AList.clearjunk.simps)

lemma tiny_ensureIndex: "DB_EnsureIndex tinyI ''c'' ''/a'' IndexInt64 True tinyOpen = (Inr (), tinyIOpen)"
proof -
  have "ensureIndexLocked tinyI ''c'' ''/a'' IndexInt64 True tinyOpen = (Inr True, tinyIOpen)"
    by (simp add: ensureIndexLocked_def validateIndexDefinition_def tiny_pointer Let_def ensureCollectionLocked_def
      ensureCollectionOnStateLocked_def tinyOpen_def newState_def setCol_def setCollections_def rebuildIndex_def
      scanDocsForCollection_def tiny_scan encodeCatalog_def commitBatch_def dropIndexOps_def
      tinyIOpen_def tinyISt_def tinyIdx_def tinyKey_def newRuntime_def)
  then show ?thesis
    by (simp add: DB_EnsureIndex_def markMetaDirty_def commitLocked_def persistPendingLocked_def encodeCatalog_def
      commitBatch_def clearPending_def tinyIOpen_def tinyOpen_def)
qed

definition tinyVal :: string where "tinyVal = encodeI64IndexKey 1"

definition tinyIDb :: "memStore DB" where
  "tinyIDb = tinyOpen\<lparr>dbSt := tinyISt 1 1 1,
     dbEngine := [(keyMetaState, [0]), (keySeq 2, putU64 [] 1), (keyDoc 2 1, [0xe2, 7, 1, 1, 0x61, 0x20, 1]),
       (keyUniqueIndex (tinyIdx 1) tinyVal, putU64 [] 1)]\<rparr>"

lemma tiny_index_values: "valuesForIndex tinyLib tinyDoc ''/a'' IndexInt64 = [tinyVal]" "valuesForIndex tinyLib VNil ''/a'' IndexInt64 = []"
  by (simp_all add: valuesForIndex_def pointerGet_def tiny_pointer tinyDoc_def tiny_number tinyVal_def)

lemma tiny_iput: "DB_Put tinyI ''c'' 1 tinyText tinyIOpen = (Inr (), tinyIDb)"
proof -
  have d: "tinyDoc \<noteq> VNil" by (simp add: tinyDoc_def)
  have o: "\<not> dbClosed tinyIOpen" by (simp add: tinyIOpen_def tinyOpen_def)
  have "putIdLocked tinyI ''c'' 1 tinyText tinyIOpen =
     (Inr (), tinyIOpen\<lparr>dbSt := tinyISt 1 1 1, dbPending := [\<lparr>mKind = mutationPut, mCollection = ''c'', mId = 1,
        mOldRaw = [], mNewRaw = tinyText, mOldDoc = VNil, mNewDoc = tinyDoc\<rparr>], dbDirtyMeta := True\<rparr>)"
    by (simp add: tinyIOpen_def tinyOpen_def tinyISt_def tiny_put_defs checkUniqueIndex_def tinyIdx_def tiny_index_values
      checkStoredValue_def adjustIndexRNum_def newRuntime_def)
  then have "DB_Put tinyI ''c'' 1 tinyText tinyIOpen
      = commitLocked tinyI (tinyIOpen\<lparr>dbSt := tinyISt 1 1 1, dbPending := [\<lparr>mKind = mutationPut, mCollection = ''c'', mId = 1,
        mOldRaw = [], mNewRaw = tinyText, mOldDoc = VNil, mNewDoc = tinyDoc\<rparr>], dbDirtyMeta := True\<rparr>)"
    using o by (simp add: DB_Put_def thenCommit_def)
  then show ?thesis
    using d by (simp add: tiny_commit_defs tinyIDb_def tinyISt_def tinyIOpen_def tinyOpen_def Let_def tinyIdx_def tiny_index_values
      indexEntryKey_def indexEntryValue_def)
qed

lemma tiny_ireachable: "reachable tinyI map_of {} tinyIDb tinyDocs"
proof -
  have "reachable tinyI map_of {} tinyIOpen (\<lambda>_ _. None)"
    using reachable.step [OF tiny_reachable0 tiny_counters(1),
        where ev = "EEnsureIndex ''c'' ''/a'' IndexInt64 True" and db' = tinyIOpen and D' = "\<lambda>_ _. None"]
    by (simp add: tiny_ensureIndex absStep_def fitsStep_def spoiled_def)
  moreover have "countersOk tinyIOpen" by (simp add: countersOk_def room_def tinyIOpen_def tinyISt_def)
  moreover have "apiStep tinyI (EPut ''c'' 1 tinyText) tinyIOpen tinyIDb" using tiny_iput by simp
  ultimately have "reachable tinyI map_of ({} \<union> spoiled tinyI (EPut ''c'' 1 tinyText) tinyIOpen (\<lambda>_ _. None)) tinyIDb tinyDocs"
    using tiny_abs tiny_step(1) by (rule reachable.step)
  then show ?thesis by (simp only: tiny_step Un_empty_right)
qed

lemma tiny_icol: "map_of (collections tinyIDb) ''c'' = Some \<lparr>colName = ''c'', colDBID = 2, colNextID = 1, colRNum = 1,
    colIndexes = [(tinyKey, tinyIdx 1)], colRuntime = [(tinyKey, newRuntime (tinyIdx 1))]\<rparr>"
  by (simp add: tinyIDb_def tinyISt_def)

definition tinyIDb2 :: "memStore DB" where
  "tinyIDb2 = tinyOpen\<lparr>dbSt := tinyISt 2 2 1,
     dbEngine := [(keyMetaState, [0]), (keySeq 2, putU64 [] 2), (keyDoc 2 1, [0xe2, 7, 1, 1, 0x61, 0x20, 1]),
       (keyUniqueIndex (tinyIdx 1) tinyVal, putU64 [] 1), (keyDoc 2 2, [0xe2, 3, 0])]\<rparr>"

lemma tiny_iput2: "DB_PutNew tinyI ''c'' tinyText0 tinyIDb = (Inr 2, tinyIDb2)"
proof -
  have o: "\<not> dbClosed tinyIDb" by (simp add: tinyIDb_def tinyOpen_def)
  have "putNewLocked tinyI ''c'' tinyText0 tinyIDb =
     (Inr 2, tinyIDb\<lparr>dbSt := tinyISt 2 2 1, dbPending := [\<lparr>mKind = mutationPut, mCollection = ''c'', mId = 2,
        mOldRaw = [], mNewRaw = tinyText0, mOldDoc = VNil, mNewDoc = VObject []\<rparr>], dbDirtyMeta := True\<rparr>)"
    by (simp add: tinyIDb_def tinyOpen_def tinyISt_def tiny_put_defs checkUniqueIndex_def tinyIdx_def tiny_index_values empty_values
      checkStoredValue_def adjustIndexRNum_def newRuntime_def)
  then have "DB_PutNew tinyI ''c'' tinyText0 tinyIDb
      = (case commitLocked tinyI (tinyIDb\<lparr>dbSt := tinyISt 2 2 1, dbPending := [\<lparr>mKind = mutationPut, mCollection = ''c'', mId = 2,
        mOldRaw = [], mNewRaw = tinyText0, mOldDoc = VNil, mNewDoc = VObject []\<rparr>], dbDirtyMeta := True\<rparr>) of
          (Inl e, db) \<Rightarrow> (Inl e, db) | (Inr _, db) \<Rightarrow> (Inr 2, db))"
    using o by (simp add: DB_PutNew_def)
  then show ?thesis
    by (simp add: tiny_commit_defs empty_encoded tinyIDb_def tinyIDb2_def tinyISt_def tinyOpen_def Let_def tinyIdx_def empty_values)
qed

definition tinyDocs2 :: docs where "tinyDocs2 = tinyDocs(''c'' := (tinyDocs ''c'')(2 := Some (VObject [])))"

lemma tiny_ireachable2: "reachable tinyI map_of {} tinyIDb2 tinyDocs2"
proof -
  have p: "putOf tinyI (EPutNew ''c'' tinyText0 2) tinyDocs = Some (''c'', 2, VObject [])"
    by (rule tiny_putOf) (simp add: tiny_docs)
  have "absStep tinyI (EPutNew ''c'' tinyText0 2) tinyDocs = Some tinyDocs2"
    by (simp add: absStep_def putEffect_def parsed_def tiny_decode tinyDocs2_def tiny_docs tiny_stored)
  moreover have "fitsStep tinyI (EPutNew ''c'' tinyText0 2) tinyDocs"
    unfolding fitsStep_def p using empty_fits by simp
  moreover have "apiStep tinyI (EPutNew ''c'' tinyText0 2) tinyIDb tinyIDb2" using tiny_iput2 by simp
  moreover have "countersOk tinyIDb" by (simp add: countersOk_def room_def tinyIDb_def tinyISt_def)
  ultimately have "reachable tinyI map_of ({} \<union> spoiled tinyI (EPutNew ''c'' tinyText0 2) tinyIDb tinyDocs) tinyIDb2 tinyDocs2"
    by (intro reachable.step [OF tiny_ireachable])
  then show ?thesis by (simp add: spoiled_def p tiny_spoils del: putOf.simps)
qed

section \<open>The properties\<close>







text \<open>
  C10: \<^verbatim>\<open>Get\<close> in a state of C2 returns the text of the document the calls so far have left under the id, in its stored form, and
  reports \<^verbatim>\<open>ErrNotFound\<close> exactly when they left none; any other error is one the engine has reported.
\<close>

theorem get_reachable:
  assumes "db_env E kv" and "reachable E kv B db D"
  shows "case DB_Get E n i db of
      Inr raw \<Rightarrow> \<exists>d. D n i = Some d \<and> marshalJSON (envJson E) d = Inr raw
    | Inl err \<Rightarrow> errorIs err ErrNotFound \<and> D n i = None \<or> engineError E (dbEngine db) err"
  using db_env.get_refines [OF assms(1) db_env.reachable_dbInv [OF assms]] unfolding readResult_def .

theorem get_reachable_witness: "DB_Get tinyE ''c'' 1 tinyDb = Inr tinyText \<and> tinyDocs ''c'' 1 = Some tinyDoc"
proof -
  have s: "engGet (envEng tinyE) (dbEngine tinyDb) K = Inl err \<Longrightarrow> errorIs err ErrNotFound" for K err
    by (auto split: option.splits)
  then show ?thesis using get_reachable [OF tiny.env.db_env_axioms tiny_reachable, of "''c''" 1]
    by (auto simp: engineError_def tiny_docs tiny_marshal split: sum.splits if_splits)
qed

text \<open>
  C4: durability. Opening the store that a state of C2 has written, after any interruption, succeeds unless no path is given or the
  catalog cannot be read, and gives a database that holds the same documents, collections and index definitions, with every index
  that agreed with the documents agreeing again.
\<close>

theorem reopen_reachable:
  assumes "db_env E kv" and "reachable E kv B db D"
    and "\<And>c raw. envMarshalCat E c = Inr raw \<Longrightarrow> envUnmarshalCat E raw = Inr c"
  shows "case Open E path (dbEngine db) of
      Inl err \<Rightarrow> path = [] \<or> catalogUnread E (dbEngine db) err
    | Inr db2 \<Rightarrow> dbInv E kv B db2 D \<and> schemaOf db2 = schemaOf db"
  by (rule db_env.reopen [OF assms(1) db_env.reachable_dbInv [OF assms(1,2)] db_env.reachable_onDisk [OF assms(1,2)]]) (rule assms(3))

theorem reopen_reachable_witness:
  "\<exists>db2. Open tinyE ''q'' (dbEngine tinyDb) = Inr db2 \<and> dbInv tinyE map_of {} db2 tinyDocs \<and> schemaOf db2 = schemaOf tinyDb"
proof -
  have "decodeCatalog tinyUc 7 [1] = Inr (stateFromCatalog 7 (catalogFromState tinySt))"
    by (simp add: decodeCatalog_def tinyUc_def catalogFromState_def)
  then obtain db2 where o: "Open tinyE ''q'' (dbEngine tinyDb) = Inr db2"
    by (auto simp: Open_def load_def tinyDb_def)
  have "envMarshalCat tinyE c = Inr raw \<Longrightarrow> envUnmarshalCat tinyE raw = Inr c" for c raw
    by (simp add: tinyMc_def tinyUc_def split: if_splits)
  from reopen_reachable [OF tiny.env.db_env_axioms tiny_reachable this, of "''q''"] o show ?thesis by simp
qed

end
