(* ===== verification/Runes.thy ===== *)
theory Runes
  imports Strconv
begin

text \<open>
  Strings are byte sequences. Ranging over a string, \<^verbatim>\<open>[]rune(s)\<close>, \<^verbatim>\<open>string(runes)\<close> and
  \<^verbatim>\<open>WriteRune\<close> decode and encode UTF-8: a byte that starts no valid sequence is read as
  U+FFFD, a rune that is no Unicode scalar value is written as U+FFFD. The other functions of
  \<^verbatim>\<open>strings\<close> and \<^verbatim>\<open>strconv\<close> that the query language uses are here too.
\<close>

section \<open>UTF-8\<close>

type_synonym rune = int

definition ch :: "char \<Rightarrow> rune" where [simp]: "ch c = of_char c"

definition RuneError :: rune where "RuneError = 0xFFFD"

text \<open>The length of the sequence a first byte announces and the range of the second byte.\<close>

definition leadByte :: "nat \<Rightarrow> (nat \<times> nat \<times> nat) option" where
  "leadByte b =
     (if 0xC2 \<le> b \<and> b \<le> 0xDF then Some (2, 0x80, 0xBF)
      else if b = 0xE0 then Some (3, 0xA0, 0xBF)
      else if b = 0xED then Some (3, 0x80, 0x9F)
      else if 0xE1 \<le> b \<and> b \<le> 0xEF then Some (3, 0x80, 0xBF)
      else if b = 0xF0 then Some (4, 0x90, 0xBF)
      else if 0xF1 \<le> b \<and> b \<le> 0xF3 then Some (4, 0x80, 0xBF)
      else if b = 0xF4 then Some (4, 0x80, 0x8F)
      else None)"

definition contByte :: "nat \<Rightarrow> bool" where "contByte b \<longleftrightarrow> 0x80 \<le> b \<and> b \<le> 0xBF"

text \<open>\<^verbatim>\<open>utf8.DecodeRune\<close>: a rune and the number of bytes it takes.\<close>

definition decodeRune :: "nat list \<Rightarrow> nat \<times> nat" where
  "decodeRune bs =
     (case bs of
        [] \<Rightarrow> (0xFFFD, 0)
      | b # r \<Rightarrow>
          if b < 0x80 then (b, 1)
          else (case leadByte b of
                  None \<Rightarrow> (0xFFFD, 1)
                | Some (sz, lo, hi) \<Rightarrow>
                   (if length bs < sz \<or> bs ! 1 < lo \<or> hi < bs ! 1 then (0xFFFD, 1)
                    else if sz = 2 then (b mod 32 * 64 + bs ! 1 mod 64, 2)
                    else if \<not> contByte (bs ! 2) then (0xFFFD, 1)
                    else if sz = 3 then ((b mod 16 * 64 + bs ! 1 mod 64) * 64 + bs ! 2 mod 64, 3)
                    else if \<not> contByte (bs ! 3) then (0xFFFD, 1)
                    else (((b mod 8 * 64 + bs ! 1 mod 64) * 64 + bs ! 2 mod 64) * 64 + bs ! 3 mod 64, 4))))"

lemma leadByte_size: "leadByte b = Some (sz, lo, hi) \<Longrightarrow> sz = 2 \<or> sz = 3 \<or> sz = 4"
  by (simp add: leadByte_def split: if_splits)

lemma decodeRune_size: "bs \<noteq> [] \<Longrightarrow> 0 < snd (decodeRune bs) \<and> snd (decodeRune bs) \<le> length bs"
proof (cases bs)
  case (Cons b r)
  have "0 < snd (decodeRune bs) \<and> snd (decodeRune bs) \<le> length bs" if "leadByte b = Some (sz, lo, hi)" for sz lo hi
    using leadByte_size [OF that] by (auto simp: decodeRune_def Cons that Suc_le_eq simp del: nth_Cons_numeral)
  then show ?thesis by (cases "leadByte b") (auto simp: decodeRune_def Cons)
qed simp

function runesOfBytes :: "nat list \<Rightarrow> rune list" where
  "runesOfBytes bs =
     (if bs = [] then [] else int (fst (decodeRune bs)) # runesOfBytes (drop (snd (decodeRune bs)) bs))"
  by pat_completeness auto
termination
proof (relation "measure length")
  fix bs :: "nat list"
  assume "bs \<noteq> []"
  then show "(drop (snd (decodeRune bs)) bs, bs) \<in> measure length"
    using decodeRune_size [of bs] by auto
qed simp

declare runesOfBytes.simps [simp del]

definition runesOf :: "string \<Rightarrow> rune list" where
  "runesOf s = runesOfBytes (map of_char s)"

definition encodeRune :: "rune \<Rightarrow> string" where
  "encodeRune r =
     (let n = (if r < 0 \<or> 0x10FFFF < r \<or> 0xD800 \<le> r \<and> r \<le> 0xDFFF then 0xFFFD else nat r)
      in map char_of
           (if n < 0x80 then [n]
            else if n < 0x800 then [0xC0 + n div 64, 0x80 + n mod 64]
            else if n < 0x10000 then [0xE0 + n div 4096, 0x80 + n div 64 mod 64, 0x80 + n mod 64]
            else [0xF0 + n div 262144, 0x80 + n div 4096 mod 64, 0x80 + n div 64 mod 64, 0x80 + n mod 64]))"

definition stringOf :: "rune list \<Rightarrow> string" where
  "stringOf rs = concat (map encodeRune rs)"

text \<open>On ASCII a rune is a byte; encoding and then decoding runes that are scalar values gives them back.\<close>

definition ascii :: "string \<Rightarrow> bool" where
  "ascii s \<longleftrightarrow> list_all (\<lambda>c. (of_char c :: nat) < 128) s"

lemma ascii_simps [simp]:
  "ascii []" "ascii (c # s) \<longleftrightarrow> (of_char c :: nat) < 128 \<and> ascii s" "ascii (s @ t) \<longleftrightarrow> ascii s \<and> ascii t"
  by (auto simp: ascii_def)

lemma int_of_char [simp]: "int (of_char c) = of_char c"
  by (simp add: of_char_def)

lemma runesOfBytes_ascii: "b < 128 \<Longrightarrow> runesOfBytes (b # bs) = int b # runesOfBytes bs"
  by (subst runesOfBytes.simps) (simp add: decodeRune_def)

lemma runesOf_ascii: "ascii s \<Longrightarrow> runesOf (s @ t) = map of_char s @ runesOf t"
  by (induction s) (auto simp: runesOf_def runesOfBytes_ascii)

lemma runesOf_Nil [simp]: "runesOf [] = []"
  by (simp add: runesOf_def runesOfBytes.simps)

lemma encodeRune_ascii: "(of_char c :: nat) < 128 \<Longrightarrow> encodeRune (of_char c) = [c]"
  by (simp add: encodeRune_def Let_def flip: int_of_char)

lemma stringOf_ascii: "ascii s \<Longrightarrow> stringOf (map of_char s) = s"
  by (induction s) (auto simp: stringOf_def encodeRune_ascii)

section \<open>Searching\<close>

text \<open>\<^verbatim>\<open>strings.Index\<close>, \<^verbatim>\<open>strings.LastIndex\<close> and \<^verbatim>\<open>strings.Contains\<close>; the result -1 is \<open>None\<close>.\<close>

fun IndexOf :: "string \<Rightarrow> string \<Rightarrow> nat option" where
  "IndexOf [] sub = (if sub = [] then Some 0 else None)"
| "IndexOf (c # s) sub = (if HasPrefix (c # s) sub then Some 0 else map_option Suc (IndexOf s sub))"

fun LastIndexOf :: "string \<Rightarrow> string \<Rightarrow> nat option" where
  "LastIndexOf [] sub = (if sub = [] then Some 0 else None)"
| "LastIndexOf (c # s) sub =
     (case LastIndexOf s sub of
        Some i \<Rightarrow> Some (Suc i)
      | None \<Rightarrow> if HasPrefix (c # s) sub then Some 0 else None)"

definition Contains :: "string \<Rightarrow> string \<Rightarrow> bool" where
  "Contains s sub \<longleftrightarrow> IndexOf s sub \<noteq> None"

section \<open>Quoted strings\<close>

text \<open>\<^verbatim>\<open>strconv.ParseInt(s, 16, 32)\<close> on at most four characters, where the range is no concern.\<close>

definition ParseHex :: "string \<Rightarrow> int option" where
  "ParseHex s =
     (if s = [] then None
      else let neg = (hd s = CHR ''-'');
               ds = (if hd s = CHR ''+'' \<or> hd s = CHR ''-'' then tl s else s)
           in if ds = [] then None
              else map_option (\<lambda>un. if neg then - int un else int un) (parseDigitsAcc 16 0 ds))"

text \<open>
  \<^verbatim>\<open>strconv.Unquote\<close> of a string in double quotes: the body after the opening quote. The result of an
  escape is the text it stands for and the rest of the input.
\<close>

definition validRune :: "nat \<Rightarrow> bool" where
  "validRune v \<longleftrightarrow> v < 0xD800 \<or> 0xDFFF < v \<and> v \<le> 0x10FFFF"

definition unquoteHex :: "nat \<Rightarrow> bool \<Rightarrow> string \<Rightarrow> (string \<times> string) option" where
  "unquoteHex n isByte s =
     (if length s < n then None
      else case parseDigitsAcc 16 0 (take n s) of
             None \<Rightarrow> None
           | Some v \<Rightarrow>
               if isByte then Some ([char_of v], drop n s)
               else if validRune v then Some (encodeRune (int v), drop n s) else None)"

definition unquoteEscape :: "string \<Rightarrow> (string \<times> string) option" where
  "unquoteEscape s =
     (case s of
        [] \<Rightarrow> None
      | c # s \<Rightarrow>
          (case map_of [(CHR ''a'', 7), (CHR ''b'', 8), (CHR ''f'', 12), (CHR ''n'', 10), (CHR ''r'', 13),
                        (CHR ''t'', 9), (CHR ''v'', 11), (CHR 0x5C, 0x5C), (CHR 0x22, 0x22 :: nat)] c of
             Some n \<Rightarrow> Some ([char_of n], s)
           | None \<Rightarrow>
               if c = CHR ''x'' then unquoteHex 2 True s
               else if c = CHR ''u'' then unquoteHex 4 False s
               else if c = CHR ''U'' then unquoteHex 8 False s
               else if CHR ''0'' \<le> c \<and> c \<le> CHR ''7'' then
                 (if length s < 2 then None
                  else case parseDigitsAcc 8 0 (c # take 2 s) of
                         None \<Rightarrow> None
                       | Some v \<Rightarrow> if 255 < v then None else Some ([char_of v], drop 2 s))
               else None))"

lemma unquoteEscape_shorter: "unquoteEscape s = Some (t, r) \<Longrightarrow> length r < length s"
  by (auto simp: unquoteEscape_def unquoteHex_def split: list.splits option.splits if_splits)

function unquoteBody :: "string \<Rightarrow> string option" where
  "unquoteBody s =
     (case s of
        [] \<Rightarrow> None
      | c # r \<Rightarrow>
          if c = CHR 0x22 then (if r = [] then Some [] else None)
          else if c = CHR 0x0A then None
          else if c = CHR 0x5C then
            (case unquoteEscape r of None \<Rightarrow> None | Some (t, r) \<Rightarrow> map_option ((@) t) (unquoteBody r))
          else let d = decodeRune (map of_char s)
               in map_option ((@) (encodeRune (int (fst d)))) (unquoteBody (drop (max 1 (snd d)) s)))"
  by pat_completeness auto
termination
proof (relation "measure length")
  fix s r t r' :: string and c x
  assume "s = c # r" "unquoteEscape r = Some x" "(t, r') = x"
  then show "(r', s) \<in> measure length" using unquoteEscape_shorter [of r t r'] by simp
qed auto

declare unquoteBody.simps [simp del]

definition Unquote :: "string \<Rightarrow> string option" where
  "Unquote s = unquoteBody (tl s)"

end
