(* ===== verification/QueryAst.thy ===== *)
theory QueryAst
  imports Pointer Jqvalue Runes
begin

text \<open>
  \<^verbatim>\<open>query.go\<close>: the parsed form of a query, its placeholders and their values, path templates. A nil
  pointer or interface is \<open>None\<close>, and a union of node types is a datatype with one constructor each.
\<close>

section \<open>Parsed queries\<close>

record placeholderRef =
  phPositional :: bool
  phName :: string
  phIndex :: int

record valueExpr =
  veLiteral :: gv
  vePh :: "placeholderRef option"

record comparison =
  cmpKey :: string
  cmpOp :: string
  cmpValue :: valueExpr

datatype exprNode =
    exprCmp comparison
  | exprAnd exprNode exprNode
  | exprOr exprNode exprNode
  | exprNot exprNode
  | exprGroup exprNode

record filterStep =
  fsKind :: string
  fsKey :: string
  fsExpr :: "exprNode option"

record queryFilter =
  qfAnchor :: string
  qfAll :: bool
  qfAllPath :: string
  qfPk :: "valueExpr option"
  qfPathPattern :: string
  qfExpr :: "exprNode option"
  qfChain :: "filterStep list"

datatype filterNode =
    filterAtom queryFilter
  | filterAnd filterNode filterNode
  | filterOr filterNode filterNode
  | filterNot filterNode
  | filterGroup filterNode

datatype queryAction = actionNone | actionDelete | actionApply | actionUpsert

record pathPart =
  ppLiteral :: string
  ppPh :: "placeholderRef option"

record pathTemplate =
  ptParts :: "pathPart list"

record projectionTerm =
  ptInclude :: bool
  ptAll :: bool
  ptPath :: pathTemplate
  ptJoin :: string

record projectionSpec =
  psTerms :: "projectionTerm list"

record querySort =
  qsDesc :: bool
  qsPath :: pathTemplate
  qsPlaceholder :: "placeholderRef option"

record parsedQuery =
  pqCollection :: string
  pqFilter :: filterNode
  pqAction :: queryAction
  pqActionArg :: valueExpr
  pqProjection :: "projectionSpec option"
  pqSorts :: "querySort list"
  pqSkip :: int
  pqSkipPH :: "placeholderRef option"
  pqSkipSet :: bool
  pqLimit :: int
  pqLimitPH :: "placeholderRef option"
  pqLimitSet :: bool
  pqCount :: bool
  pqNoidx :: bool
  pqInverse :: bool
  pqPathPlaceholders :: "placeholderRef list"

record Query =
  qCollection :: string
  qText :: string
  qParsed :: parsedQuery
  qNamed :: "string \<rightharpoonup> gv"
  qPositional :: "int \<rightharpoonup> gv"
  qPathNamed :: "string set"
  qPathPositional :: "int set"

text \<open>The zero values of the structs, and what a composite literal with some of the fields leaves.\<close>

definition noValue :: valueExpr where "noValue = \<lparr>veLiteral = VNil, vePh = None\<rparr>"

definition noTerm :: queryFilter where
  "noTerm = \<lparr>qfAnchor = '''', qfAll = False, qfAllPath = '''', qfPk = None, qfPathPattern = '''', qfExpr = None, qfChain = []\<rparr>"

section \<open>Values of placeholders\<close>

text \<open>Whether the dynamic type of a value is \<^verbatim>\<open>string\<close>.\<close>

fun stringArg :: "gv \<Rightarrow> string option" where
  "stringArg (VString s) = Some s"
| "stringArg _ = None"

text \<open>An error of \<^verbatim>\<open>SetJSON\<close> leaves the query as it was.\<close>

definition SetJSON :: "string \<Rightarrow> int \<Rightarrow> gv \<Rightarrow> Query \<Rightarrow> Query result" where
  "SetJSON name index val q =
     (if name \<noteq> '''' then
        (if name \<in> qPathNamed q \<and> stringArg val = None then Inl (Coded CodeInvalidPlaceholder)
         else Inr (q\<lparr>qNamed := (qNamed q)(name \<mapsto> val)\<rparr>))
      else if index < 0 then Inl (Coded CodeInvalidPlaceholder)
      else if index \<in> qPathPositional q \<and> stringArg val = None then Inl (Coded CodeInvalidPlaceholder)
      else Inr (q\<lparr>qPositional := (qPositional q)(index \<mapsto> val)\<rparr>))"

definition SetString :: "string \<Rightarrow> int \<Rightarrow> string \<Rightarrow> Query \<Rightarrow> Query result" where
  "SetString name index val q = SetJSON name index (VString val) q"

definition SetI64 :: "string \<Rightarrow> int \<Rightarrow> int64 \<Rightarrow> Query \<Rightarrow> Query result" where
  "SetI64 name index val q = SetJSON name index (VInt KInt64 (sint val)) q"

definition SetF64 :: "string \<Rightarrow> int \<Rightarrow> float64 \<Rightarrow> Query \<Rightarrow> Query result" where
  "SetF64 name index val q = SetJSON name index (VFloat64 val) q"

definition SetBool :: "string \<Rightarrow> int \<Rightarrow> bool \<Rightarrow> Query \<Rightarrow> Query result" where
  "SetBool name index val q = SetJSON name index (VBool val) q"

definition SetNull :: "string \<Rightarrow> int \<Rightarrow> Query \<Rightarrow> Query result" where
  "SetNull name index q = SetJSON name index VNil q"

definition SetRegexp :: "go_lib \<Rightarrow> string \<Rightarrow> int \<Rightarrow> string \<Rightarrow> Query \<Rightarrow> Query result" where
  "SetRegexp L name index re q =
     (if regexpMatch L re [] = None then Inl (Coded CodeInvalidQuery) else SetJSON name index (VRegexp re) q)"

definition resolvePlaceholder :: "Query \<Rightarrow> placeholderRef \<Rightarrow> gv result" where
  "resolvePlaceholder q ph =
     (if phPositional ph then
        (case qPositional q (phIndex ph) of None \<Rightarrow> Inl (Coded CodeUnsetPlaceholder) | Some v \<Rightarrow> Inr v)
      else case qNamed q (phName ph) of None \<Rightarrow> Inl (Coded CodeUnsetPlaceholder) | Some v \<Rightarrow> Inr v)"

definition valueResolve :: "Query \<Rightarrow> valueExpr \<Rightarrow> gv result" where
  "valueResolve q v = (case vePh v of None \<Rightarrow> Inr (veLiteral v) | Some ph \<Rightarrow> resolvePlaceholder q ph)"

definition partResolve :: "Query \<Rightarrow> pathPart \<Rightarrow> string result" where
  "partResolve q part =
     (case ppPh part of
        None \<Rightarrow> Inr (pointerEscapeToken (ppLiteral part))
      | Some ph \<Rightarrow>
          (case resolvePlaceholder q ph of
             Inl e \<Rightarrow> Inl e
           | Inr v \<Rightarrow>
               (case stringArg v of
                  None \<Rightarrow> Inl (Coded CodeInvalidPlaceholder)
                | Some s \<Rightarrow> Inr (pointerEscapeToken s))))"

fun partsResolve :: "Query \<Rightarrow> pathPart list \<Rightarrow> string list result" where
  "partsResolve q [] = Inr []"
| "partsResolve q (part # parts) =
     (case partResolve q part of
        Inl e \<Rightarrow> Inl e
      | Inr tok \<Rightarrow> (case partsResolve q parts of Inl e \<Rightarrow> Inl e | Inr toks \<Rightarrow> Inr (tok # toks)))"

definition pathResolve :: "Query \<Rightarrow> pathTemplate \<Rightarrow> string result" where
  "pathResolve q p =
     (if ptParts p = [] then Inr ''/''
      else case partsResolve q (ptParts p) of Inl e \<Rightarrow> Inl e | Inr tokens \<Rightarrow> Inr (''/'' @ Join tokens ''/''))"

definition sortResolve :: "Query \<Rightarrow> querySort \<Rightarrow> string result" where
  "sortResolve q s =
     (case qsPlaceholder s of
        None \<Rightarrow> pathResolve q (qsPath s)
      | Some ph \<Rightarrow>
          (case resolvePlaceholder q ph of
             Inl e \<Rightarrow> Inl e
           | Inr v \<Rightarrow>
               (case stringArg v of
                  None \<Rightarrow> Inl (Coded CodeInvalidPlaceholder)
                | Some path \<Rightarrow>
                    let path = TrimSpace path
                    in if HasPrefix path ''/'' then Inr path else Inl (Coded CodeInvalidQuery))))"

definition pathPlaceholderSets :: "placeholderRef list \<Rightarrow> string set \<times> int set" where
  "pathPlaceholderSets refs =
     (set (map phName (filter (\<lambda>ph. \<not> phPositional ph) refs)), set (map phIndex (filter phPositional refs)))"

end
