(* ===== verification/QueryLex.thy ===== *)
theory QueryLex
  imports QueryAst Patch
begin

text \<open>
  \<^verbatim>\<open>query.go\<close>: the functions that cut the text of a query into pieces, the logical tokenizer, the
  searches for operators outside quotes and brackets, and the literals. A loop over runes is a
  recursion on the rest of the runes with the loop's variables as arguments.
\<close>

section \<open>Quotes and brackets\<close>

text \<open>The variables the splitting loops share: the builder, the open quote (0 for none), depths.\<close>

record scanState =
  scBuf :: string
  scQuote :: rune
  scEscaped :: bool
  scSquare :: nat
  scCurly :: nat
  scParen :: nat

definition scan0 :: scanState where
  "scan0 = \<lparr>scBuf = [], scQuote = 0, scEscaped = False, scSquare = 0, scCurly = 0, scParen = 0\<rparr>"

definition writeRune :: "rune \<Rightarrow> scanState \<Rightarrow> scanState" where
  "writeRune r st = st\<lparr>scBuf := scBuf st @ encodeRune r\<rparr>"

text \<open>The case \<^verbatim>\<open>quote != 0\<close>: the rune is kept, and may be escaped, an escape or the closing quote.\<close>

definition quotedRune :: "rune \<Rightarrow> scanState \<Rightarrow> scanState" where
  "quotedRune r st =
     (let st = writeRune r st
      in if scEscaped st then st\<lparr>scEscaped := False\<rparr>
         else if r = ch (CHR 0x5C) then st\<lparr>scEscaped := True\<rparr>
         else if r = scQuote st then st\<lparr>scQuote := 0\<rparr>
         else st)"

definition isQuote :: "rune \<Rightarrow> bool" where
  "isQuote r \<longleftrightarrow> r = ch (CHR 0x27) \<or> r = ch (CHR 0x22)"

definition isBlank :: "rune \<Rightarrow> bool" where
  "isBlank r \<longleftrightarrow> r = 32 \<or> r = 9 \<or> r = 10 \<or> r = 13"

section \<open>Options and pipeline stages\<close>

definition flushOption :: "string list \<Rightarrow> scanState \<Rightarrow> string list" where
  "flushOption tokens st = (let s = TrimSpace (scBuf st) in if s \<noteq> '''' then tokens @ [s] else tokens)"

fun optionLoop :: "rune list \<Rightarrow> string list \<Rightarrow> scanState \<Rightarrow> string list \<times> scanState" where
  "optionLoop [] tokens st = (tokens, st)"
| "optionLoop (r # rs) tokens st =
     (if scQuote st \<noteq> 0 then optionLoop rs tokens (quotedRune r st)
      else if isQuote r then optionLoop rs tokens (writeRune r (st\<lparr>scQuote := r\<rparr>))
      else if isBlank r then optionLoop rs (flushOption tokens st) (st\<lparr>scBuf := []\<rparr>)
      else optionLoop rs tokens (writeRune r st))"

definition splitOptionTokens :: "string \<Rightarrow> string list result" where
  "splitOptionTokens s =
     (case optionLoop (runesOf s) [] scan0 of
        (tokens, st) \<Rightarrow>
          if scQuote st \<noteq> 0 then Inl (Coded CodeInvalidQuery) else Inr (flushOption tokens st))"

text \<open>The brackets, which change a depth and are kept.\<close>

definition bracketRune :: "rune \<Rightarrow> scanState \<Rightarrow> scanState option" where
  "bracketRune r st =
     (if r = ch (CHR ''['') then Some (writeRune r (st\<lparr>scSquare := scSquare st + 1\<rparr>))
      else if r = ch (CHR '']'') then Some (writeRune r (st\<lparr>scSquare := scSquare st - 1\<rparr>))
      else if r = ch (CHR ''{'') then Some (writeRune r (st\<lparr>scCurly := scCurly st + 1\<rparr>))
      else if r = ch (CHR ''}'') then Some (writeRune r (st\<lparr>scCurly := scCurly st - 1\<rparr>))
      else None)"

fun pipelineLoop :: "rune list \<Rightarrow> string list \<Rightarrow> scanState \<Rightarrow> string list \<times> scanState" where
  "pipelineLoop [] parts st = (parts, st)"
| "pipelineLoop (r # rs) parts st =
     (if scQuote st \<noteq> 0 then pipelineLoop rs parts (quotedRune r st)
      else if isQuote r then pipelineLoop rs parts (writeRune r (st\<lparr>scQuote := r\<rparr>))
      else case bracketRune r st of
             Some st' \<Rightarrow> pipelineLoop rs parts st'
           | None \<Rightarrow>
               if r = ch (CHR ''('') then pipelineLoop rs parts (writeRune r (st\<lparr>scParen := scParen st + 1\<rparr>))
               else if r = ch (CHR '')'') then pipelineLoop rs parts (writeRune r (st\<lparr>scParen := scParen st - 1\<rparr>))
               else if r = ch (CHR ''|'') \<and> scSquare st = 0 \<and> scCurly st = 0 \<and> scParen st = 0
                 then pipelineLoop rs (parts @ [TrimSpace (scBuf st)]) (st\<lparr>scBuf := []\<rparr>)
               else pipelineLoop rs parts (writeRune r st))"

definition splitPipeline :: "string \<Rightarrow> string list result" where
  "splitPipeline s =
     (case pipelineLoop (runesOf s) [] scan0 of
        (parts, st) \<Rightarrow>
          if scQuote st \<noteq> 0 \<or> scSquare st \<noteq> 0 \<or> scCurly st \<noteq> 0 \<or> scParen st \<noteq> 0
          then Inl (Plain ''unbalanced query'')
          else Inr (parts @ [TrimSpace (scBuf st)]))"

section \<open>Logical tokens\<close>

datatype tokenKind = tkAtom | tkAnd | tkOr | tkNot | tkLParen | tkRParen

record token =
  tokKind :: tokenKind
  tokText :: string

text \<open>
  A keyword is recognised wherever its letters stand and a blank, a parenthesis or the end follows;
  what is before it does not matter.
\<close>

fun matchKeywords :: "(string \<times> tokenKind) list \<Rightarrow> rune list \<Rightarrow> (tokenKind \<times> nat) option" where
  "matchKeywords [] rs = None"
| "matchKeywords ((w, k) # kws) rs =
     (if HasPrefix rs (map of_char w)
         \<and> (case drop (length w) rs of
              [] \<Rightarrow> True
            | right # _ \<Rightarrow> right = ch (CHR '' '') \<or> right = ch (CHR ''('') \<or> right = ch (CHR '')''))
      then Some (k, length w)
      else matchKeywords kws rs)"

definition matchKeyword :: "rune list \<Rightarrow> (tokenKind \<times> nat) option" where
  "matchKeyword = matchKeywords [(''and'', tkAnd), (''or'', tkOr), (''not'', tkNot)]"

definition flushAtom :: "token list \<Rightarrow> scanState \<Rightarrow> token list" where
  "flushAtom tokens st =
     (let s = TrimSpace (scBuf st) in if s \<noteq> '''' then tokens @ [\<lparr>tokKind = tkAtom, tokText = s\<rparr>] else tokens)"

function logicalLoop :: "rune list \<Rightarrow> token list \<Rightarrow> scanState \<Rightarrow> token list \<times> scanState" where
  "logicalLoop [] tokens st = (tokens, st)"
| "logicalLoop (r # rs) tokens st =
     (if scQuote st \<noteq> 0 then logicalLoop rs tokens (quotedRune r st)
      else if isQuote r then logicalLoop rs tokens (writeRune r (st\<lparr>scQuote := r\<rparr>))
      else case bracketRune r st of
             Some st' \<Rightarrow> logicalLoop rs tokens st'
           | None \<Rightarrow>
               if scSquare st = 0 \<and> scCurly st = 0 \<and> r = ch (CHR ''('') then
                 logicalLoop rs (flushAtom tokens st @ [\<lparr>tokKind = tkLParen, tokText = ''(''\<rparr>]) (st\<lparr>scBuf := []\<rparr>)
               else if scSquare st = 0 \<and> scCurly st = 0 \<and> r = ch (CHR '')'') then
                 logicalLoop rs (flushAtom tokens st @ [\<lparr>tokKind = tkRParen, tokText = '')''\<rparr>]) (st\<lparr>scBuf := []\<rparr>)
               else case (if scSquare st = 0 \<and> scCurly st = 0 then matchKeyword (r # rs) else None) of
                      Some (kind, n) \<Rightarrow>
                        if kind = tkNot \<and> TrimSpace (scBuf st) \<noteq> '''' then
                          logicalLoop (drop (n - 1) rs) tokens (st\<lparr>scBuf := scBuf st @ ''not''\<rparr>)
                        else
                          logicalLoop (drop (n - 1) rs) (flushAtom tokens st @ [\<lparr>tokKind = kind, tokText = ''''\<rparr>])
                            (st\<lparr>scBuf := []\<rparr>)
                    | None \<Rightarrow> logicalLoop rs tokens (writeRune r st))"
  by pat_completeness auto
termination
  by (relation "measure (\<lambda>(rs, _, _). length rs)") (auto simp: less_Suc_eq_le)

definition tokenizeLogical :: "string \<Rightarrow> token list result" where
  "tokenizeLogical s =
     (case logicalLoop (runesOf (TrimSpace s)) [] scan0 of
        (tokens, st) \<Rightarrow>
          if scQuote st \<noteq> 0 \<or> scSquare st \<noteq> 0 \<or> scCurly st \<noteq> 0 then Inl (Coded CodeInvalidQuery)
          else Inr (flushAtom tokens st))"

section \<open>Operators outside quotes and brackets\<close>

text \<open>\<^verbatim>\<open>findBalancedEnd\<close> works on bytes: the position of the bracket that closes the one at \<open>start\<close>.\<close>

fun balancedLoop :: "char \<Rightarrow> char \<Rightarrow> string \<Rightarrow> nat \<Rightarrow> int \<Rightarrow> char option \<Rightarrow> bool \<Rightarrow> nat result" where
  "balancedLoop op cl [] i depth quote escaped = Inl (Coded CodeInvalidQuery)"
| "balancedLoop op cl (c # cs) i depth quote escaped =
     (case quote of
        Some q \<Rightarrow>
          if escaped then balancedLoop op cl cs (i + 1) depth quote False
          else if c = CHR 0x5C then balancedLoop op cl cs (i + 1) depth quote True
          else if c = q then balancedLoop op cl cs (i + 1) depth None False
          else balancedLoop op cl cs (i + 1) depth quote False
      | None \<Rightarrow>
          if c = CHR 0x27 \<or> c = CHR 0x22 then balancedLoop op cl cs (i + 1) depth (Some c) escaped
          else if c = op then balancedLoop op cl cs (i + 1) (depth + 1) None escaped
          else if c = cl then
            (if depth - 1 = 0 then Inr i else balancedLoop op cl cs (i + 1) (depth - 1) None escaped)
          else balancedLoop op cl cs (i + 1) depth None escaped)"

definition findBalancedEnd :: "string \<Rightarrow> nat \<Rightarrow> char \<Rightarrow> char \<Rightarrow> nat result" where
  "findBalancedEnd s start op cl = balancedLoop op cl (drop start s) start 0 None False"

definition isIdentRune :: "rune \<Rightarrow> bool" where
  "isIdentRune r \<longleftrightarrow>
     ch (CHR ''a'') \<le> r \<and> r \<le> ch (CHR ''z'') \<or> ch (CHR ''A'') \<le> r \<and> r \<le> ch (CHR ''Z'')
     \<or> ch (CHR ''0'') \<le> r \<and> r \<le> ch (CHR ''9'') \<or> r = ch (CHR ''_'')"

definition wordOpBoundary :: "rune list \<Rightarrow> nat \<Rightarrow> nat \<Rightarrow> bool" where
  "wordOpBoundary runes start fin \<longleftrightarrow>
     (if 0 < start \<and> isIdentRune (runes ! (start - 1)) then False
      else length runes \<le> fin \<or> \<not> isIdentRune (runes ! fin))"

definition isAlphaOp :: "string \<Rightarrow> bool" where
  "isAlphaOp op =
     list_all (\<lambda>r. ch (CHR ''a'') \<le> r \<and> r \<le> ch (CHR ''z'') \<or> ch (CHR ''A'') \<le> r \<and> r \<le> ch (CHR ''Z'')
                 \<or> r = ch (CHR ''!'')) (runesOf op)"

text \<open>
  What the searches do with a rune that is quoted, a quote or a bracket: the quote and the depths after
  it. \<open>None\<close> means that the rune is none of these.
\<close>

definition skipRune :: "rune \<Rightarrow> rune \<times> nat \<times> nat \<Rightarrow> (rune \<times> nat \<times> nat) option" where
  "skipRune r st =
     (case st of (quote, sq, cu) \<Rightarrow>
        if quote \<noteq> 0 then Some (if r = quote then 0 else quote, sq, cu)
        else if isQuote r then Some (r, sq, cu)
        else if r = ch (CHR ''['') then Some (quote, sq + 1, cu)
        else if r = ch (CHR '']'') then Some (quote, sq - 1, cu)
        else if r = ch (CHR ''{'') then Some (quote, sq, cu + 1)
        else if r = ch (CHR ''}'') then Some (quote, sq, cu - 1)
        else None)"

text \<open>
  \<^verbatim>\<open>findBangNegatedOperator\<close>: the assignment \<^verbatim>\<open>i++\<close> after a backslash has no effect on the range loop, so
  that a backslash in quotes is skipped like any other rune. \<open>pre\<close> is what the loop has passed.
\<close>

fun bangLoop :: "rune list \<Rightarrow> rune list \<Rightarrow> rune \<times> nat \<times> nat \<Rightarrow> (nat \<times> nat \<times> string) option" where
  "bangLoop pre [] st = None"
| "bangLoop pre (r # rs) st =
     (case skipRune r st of
        Some st' \<Rightarrow> bangLoop (pre @ [r]) rs st'
      | None \<Rightarrow>
          if fst (snd st) \<noteq> 0 \<or> snd (snd st) \<noteq> 0 \<or> r \<noteq> ch (CHR ''!'') then bangLoop (pre @ [r]) rs st
          else let runes = pre @ r # rs;
                   j = length pre + 1 + length (takeWhile isBlank rs)
               in if j < length runes \<and> runes ! j = ch (CHR ''='') then
                    Some (length (stringOf pre), length (stringOf (take (j + 1) runes)), ''!='')
                  else if j < length runes \<and> runes ! j = ch (CHR ''~'') then
                    Some (length (stringOf pre), length (stringOf (take (j + 1) runes)), ''nprefix'')
                  else if j + 2 \<le> length runes \<and> stringOf (take 2 (drop j runes)) = ''eq'' \<and> wordOpBoundary runes j (j + 2) then
                    Some (length (stringOf pre), length (stringOf (take (j + 2) runes)), ''!='')
                  else bangLoop (pre @ [r]) rs st)"

definition findBangNegatedOperator :: "string \<Rightarrow> (nat \<times> nat \<times> string) option" where
  "findBangNegatedOperator s = bangLoop [] (runesOf s) (0, 0, 0)"

text \<open>
  \<^verbatim>\<open>findTopLevelOperator\<close>: here the index is a loop variable and a backslash skips the next rune. No
  operator that is looked for is empty.
\<close>

function topOpLoop :: "string \<Rightarrow> rune list \<Rightarrow> rune list \<Rightarrow> rune \<times> nat \<times> nat \<Rightarrow> nat option" where
  "topOpLoop op pre rest st =
     (if length rest < length (runesOf op) then None
      else case rest of
             [] \<Rightarrow> None
           | r # rs \<Rightarrow>
               if fst st \<noteq> 0 \<and> r = ch (CHR 0x5C) then topOpLoop op (pre @ r # take 1 rs) (drop 1 rs) st
               else case skipRune r st of
                      Some st' \<Rightarrow> topOpLoop op (pre @ [r]) rs st'
                    | None \<Rightarrow>
                        if fst (snd st) \<noteq> 0 \<or> snd (snd st) \<noteq> 0
                           \<or> \<not> HasPrefix rest (runesOf op)
                           \<or> isAlphaOp op \<and> \<not> wordOpBoundary (pre @ rest) (length pre) (length pre + length (runesOf op))
                        then topOpLoop op (pre @ [r]) rs st
                        else Some (length (stringOf pre)))"
  by pat_completeness auto
termination
  by (relation "measure (\<lambda>(_, _, rest, _). length rest)") auto

declare topOpLoop.simps [simp del]

definition findTopLevelOperator :: "string \<Rightarrow> string \<Rightarrow> nat option" where
  "findTopLevelOperator s op = topOpLoop op [] (runesOf s) (0, 0, 0)"

text \<open>\<^verbatim>\<open>findWord\<close> looks at square brackets only, and returns an index into the runes.\<close>

fun wordLoop :: "rune list \<Rightarrow> rune list \<Rightarrow> nat \<Rightarrow> rune \<Rightarrow> nat \<Rightarrow> nat option" where
  "wordLoop target [] i quote sq = None"
| "wordLoop target (r # rs) i quote sq =
     (if length (r # rs) < length target then None
      else if quote \<noteq> 0 then wordLoop target rs (i + 1) (if r = quote then 0 else quote) sq
      else if isQuote r then wordLoop target rs (i + 1) r sq
      else if r = ch (CHR ''['') then wordLoop target rs (i + 1) quote (sq + 1)
      else if r = ch (CHR '']'') then wordLoop target rs (i + 1) quote (sq - 1)
      else if sq \<noteq> 0 then wordLoop target rs (i + 1) quote sq
      else if HasPrefix (r # rs) target then Some i
      else wordLoop target rs (i + 1) quote sq)"

definition findWord :: "string \<Rightarrow> string \<Rightarrow> nat option" where
  "findWord s sub = wordLoop (runesOf sub) (runesOf s) 0 0 0"

section \<open>Literals and placeholders\<close>

record parseContext =
  positionalCounter :: int
  pathPlaceholders :: "placeholderRef list"

definition context0 :: parseContext where
  "context0 = \<lparr>positionalCounter = 0, pathPlaceholders = []\<rparr>"

type_synonym 'a parsed = "('a \<times> parseContext) result"

definition unquoteSingleJQL :: "string \<Rightarrow> string" where
  "unquoteSingleJQL s =
     (if length s < 2 then s
      else ReplaceAll (ReplaceAll (take (length s - 2) (drop 1 s)) [CHR 0x5C, CHR 0x27] [CHR 0x27])
             [CHR 0x5C, CHR 0x5C] [CHR 0x5C])"

definition isAlnumRune :: "rune \<Rightarrow> bool" where
  "isAlnumRune r \<longleftrightarrow>
     ch (CHR ''a'') \<le> r \<and> r \<le> ch (CHR ''z'') \<or> ch (CHR ''A'') \<le> r \<and> r \<le> ch (CHR ''Z'')
     \<or> ch (CHR ''0'') \<le> r \<and> r \<le> ch (CHR ''9'')"

definition parsePlaceholder :: "string \<Rightarrow> parseContext \<Rightarrow> placeholderRef parsed" where
  "parsePlaceholder s ctx =
     (if s = '':?'' then
        Inr (\<lparr>phPositional = True, phName = '''', phIndex = positionalCounter ctx\<rparr>,
             ctx\<lparr>positionalCounter := positionalCounter ctx + 1\<rparr>)
      else if \<not> HasPrefix s '':'' \<or> length s < 2 then Inl (Coded CodeInvalidPlaceholder)
      else let name = TrimPrefix s '':''
           in if name = '''' then Inl (Coded CodeInvalidPlaceholder)
              else if \<not> list_all isAlnumRune (runesOf name) then Inl (Coded CodeInvalidPlaceholder)
              else Inr (\<lparr>phPositional = False, phName = name, phIndex = 0\<rparr>, ctx))"

definition decodeJSONValue :: "json_lib \<Rightarrow> string \<Rightarrow> gv result" where
  "decodeJSONValue J s = decodeJSON J (bytes_of_string s)"

definition parseValueExpr :: "json_lib \<Rightarrow> string \<Rightarrow> parseContext \<Rightarrow> valueExpr parsed" where
  "parseValueExpr J s ctx =
     (let s = TrimSpace s
      in if HasPrefix s '':'' then
           (case parsePlaceholder s ctx of
              Inl e \<Rightarrow> Inl e
            | Inr (ph, ctx) \<Rightarrow> Inr (noValue\<lparr>vePh := Some ph\<rparr>, ctx))
         else if HasPrefix s [CHR 0x27] \<and> HasSuffix s [CHR 0x27] \<and> 2 \<le> length s then
           Inr (noValue\<lparr>veLiteral := VString (unquoteSingleJQL s)\<rparr>, ctx)
         else case decodeJSONValue J s of
                Inr v \<Rightarrow> Inr (noValue\<lparr>veLiteral := v\<rparr>, ctx)
              | Inl _ \<Rightarrow>
                  (case (if Contains s [CHR 0x27] then decodeJSONValue J (ReplaceAll s [CHR 0x27] [CHR 0x22])
                         else Inl EOF) of
                     Inr v \<Rightarrow> Inr (noValue\<lparr>veLiteral := v\<rparr>, ctx)
                   | Inl _ \<Rightarrow> Inr (noValue\<lparr>veLiteral := VString s\<rparr>, ctx)))"

section \<open>Comparisons\<close>

definition wordOps :: "(string \<times> string \<times> nat) list" where
  "wordOps = [('' not in '', ''ni'', 8), ('' ni '', ''ni'', 4), ('' in '', ''in'', 4), ('' not re '', ''nre'', 8),
              ('' re '', ''re'', 4), ('' !~ '', ''nprefix'', 4), ('' ~ '', ''prefix'', 3)]"

definition symbolOps :: "string list" where
  "symbolOps = [''!eq'', ''gte'', ''lte'', ''gt'', ''lt'', ''>='', ''<='', ''!='', ''='', ''>'', ''<'', ''eq'']"

definition normalOp :: "string \<Rightarrow> string" where
  "normalOp op =
     (if op = ''eq'' then ''='' else if op = ''!eq'' then ''!='' else if op = ''gte'' then ''>=''
      else if op = ''lte'' then ''<='' else if op = ''gt'' then ''>'' else if op = ''lt'' then ''<'' else op)"

definition mkComparison :: "json_lib \<Rightarrow> string \<Rightarrow> string \<Rightarrow> string \<Rightarrow> parseContext \<Rightarrow> comparison parsed" where
  "mkComparison J left op right ctx =
     (case parseValueExpr J right ctx of
        Inl e \<Rightarrow> Inl e
      | Inr (v, ctx) \<Rightarrow> Inr (\<lparr>cmpKey = left, cmpOp = op, cmpValue = v\<rparr>, ctx))"

fun tryWordOps :: "json_lib \<Rightarrow> (string \<times> string \<times> nat) list \<Rightarrow> string \<Rightarrow> parseContext \<Rightarrow> comparison parsed option" where
  "tryWordOps J [] s ctx = None"
| "tryWordOps J ((op, normal, consume) # items) s ctx =
     (case findWord s op of
        Some idx \<Rightarrow> Some (mkComparison J (TrimSpace (take idx s)) normal (TrimSpace (drop (idx + consume) s)) ctx)
      | None \<Rightarrow> tryWordOps J items s ctx)"

fun trySymbolOps :: "json_lib \<Rightarrow> string list \<Rightarrow> string \<Rightarrow> parseContext \<Rightarrow> comparison parsed" where
  "trySymbolOps J [] s ctx = Inl (Coded CodeInvalidQuery)"
| "trySymbolOps J (op # ops) s ctx =
     (case findTopLevelOperator s op of
        Some idx \<Rightarrow>
          (let left = TrimSpace (take idx s); right = TrimSpace (drop (idx + length op) s)
           in if left = '''' \<or> right = '''' then trySymbolOps J ops s ctx
              else mkComparison J left (normalOp op) right ctx)
      | None \<Rightarrow> trySymbolOps J ops s ctx)"

definition bangComparison :: "json_lib \<Rightarrow> string \<Rightarrow> parseContext \<Rightarrow> comparison parsed option" where
  "bangComparison J s ctx =
     (case findBangNegatedOperator s of
        None \<Rightarrow> None
      | Some (idx, fin, norm) \<Rightarrow>
          (let left = TrimSpace (take idx s); right = TrimSpace (drop fin s)
           in if left \<noteq> '''' \<and> right \<noteq> '''' then Some (mkComparison J left norm right ctx) else None))"

definition parseComparison :: "json_lib \<Rightarrow> string \<Rightarrow> parseContext \<Rightarrow> comparison parsed" where
  "parseComparison J s ctx =
     (let s = TrimSpace s
      in if s = '''' then Inl (Coded CodeInvalidQuery)
         else case bangComparison J s ctx of
                Some r \<Rightarrow> r
              | None \<Rightarrow>
                  (case tryWordOps J wordOps s ctx of
                     Some r \<Rightarrow> r
                   | None \<Rightarrow> trySymbolOps J symbolOps s ctx))"

end
