(* ===== verification/QueryParse.thy ===== *)
theory QueryParse
  imports QueryLex
begin

text \<open>
  \<^verbatim>\<open>query.go\<close>: the recursive descent parsers of expressions and filters, paths, projections and options,
  \<^verbatim>\<open>parseQuery\<close> and \<^verbatim>\<open>NewQuery\<close>. A token stream is the list of the tokens not yet taken. The recursion of
  the two logical parsers through parentheses goes through the argument \<open>orP\<close>; its depth and the number of
  rounds of the loops are bounded by \<open>n\<close>, and \<open>None\<close> means that the bound was too small. One more than the
  number of tokens is always enough (shown in \<open>QueryGrammar\<close>).
\<close>

section \<open>Expressions\<close>

definition bindP :: "'a result option \<Rightarrow> ('a \<Rightarrow> 'b result option) \<Rightarrow> 'b result option" where
  "bindP m f = (case m of None \<Rightarrow> None | Some (Inl e) \<Rightarrow> Some (Inl e) | Some (Inr x) \<Rightarrow> f x)"

type_synonym 'v step = "('v \<times> token list \<times> parseContext) result option"

type_synonym 'v parser = "token list \<Rightarrow> parseContext \<Rightarrow> 'v step"

definition parseExprPrimary :: "json_lib \<Rightarrow> exprNode parser \<Rightarrow> exprNode parser" where
  "parseExprPrimary J orP ts ctx =
     (case ts of
        [] \<Rightarrow> Some (Inl (Coded CodeInvalidQuery))
      | t # ts \<Rightarrow>
          (case tokKind t of
             tkLParen \<Rightarrow>
               bindP (orP ts ctx)
                 (\<lambda>(e, ts, ctx).
                    if ts = [] \<or> tokKind (hd ts) \<noteq> tkRParen then Some (Inl (Coded CodeInvalidQuery))
                    else Some (Inr (exprGroup e, tl ts, ctx)))
           | tkAtom \<Rightarrow>
               (case parseComparison J (tokText t) ctx of
                  Inl e \<Rightarrow> Some (Inl e)
                | Inr (c, ctx) \<Rightarrow> Some (Inr (exprCmp c, ts, ctx)))
           | _ \<Rightarrow> Some (Inl (Coded CodeInvalidQuery))))"

fun parseExprUnary :: "json_lib \<Rightarrow> exprNode parser \<Rightarrow> exprNode parser" where
  "parseExprUnary J orP [] ctx = parseExprPrimary J orP [] ctx"
| "parseExprUnary J orP (t # ts) ctx =
     (if tokKind t = tkNot then
        bindP (parseExprUnary J orP ts ctx) (\<lambda>(e, ts, ctx). Some (Inr (exprNot e, ts, ctx)))
      else parseExprPrimary J orP (t # ts) ctx)"

fun parseExprAndLoop :: "json_lib \<Rightarrow> exprNode parser \<Rightarrow> nat \<Rightarrow> exprNode \<Rightarrow> exprNode parser" where
  "parseExprAndLoop J orP 0 left ts ctx = None"
| "parseExprAndLoop J orP (Suc n) left ts ctx =
     (if ts = [] \<or> tokKind (hd ts) \<noteq> tkAnd then Some (Inr (left, ts, ctx))
      else bindP (parseExprUnary J orP (tl ts) ctx)
             (\<lambda>(right, ts, ctx). parseExprAndLoop J orP n (exprAnd left right) ts ctx))"

definition parseExprAnd :: "json_lib \<Rightarrow> exprNode parser \<Rightarrow> nat \<Rightarrow> exprNode parser" where
  "parseExprAnd J orP n ts ctx =
     bindP (parseExprUnary J orP ts ctx) (\<lambda>(left, ts, ctx). parseExprAndLoop J orP n left ts ctx)"

fun parseExprOrLoop :: "json_lib \<Rightarrow> exprNode parser \<Rightarrow> nat \<Rightarrow> exprNode \<Rightarrow> exprNode parser" where
  "parseExprOrLoop J orP 0 left ts ctx = None"
| "parseExprOrLoop J orP (Suc n) left ts ctx =
     (if ts = [] \<or> tokKind (hd ts) \<noteq> tkOr then Some (Inr (left, ts, ctx))
      else bindP (parseExprAnd J orP n (tl ts) ctx)
             (\<lambda>(right, ts, ctx). parseExprOrLoop J orP n (exprOr left right) ts ctx))"

fun parseExprOr :: "json_lib \<Rightarrow> nat \<Rightarrow> exprNode parser" where
  "parseExprOr J 0 ts ctx = None"
| "parseExprOr J (Suc n) ts ctx =
     bindP (parseExprAnd J (parseExprOr J n) (Suc n) ts ctx)
       (\<lambda>(left, ts, ctx). parseExprOrLoop J (parseExprOr J n) (Suc n) left ts ctx)"

definition parseExpr :: "json_lib \<Rightarrow> string \<Rightarrow> parseContext \<Rightarrow> exprNode parsed" where
  "parseExpr J s ctx =
     (case tokenizeLogical s of
        Inl e \<Rightarrow> Inl e
      | Inr toks \<Rightarrow>
          (case the (parseExprOr J (length toks + 1) toks ctx) of
             Inl e \<Rightarrow> Inl e
           | Inr (n, ts, ctx) \<Rightarrow> if ts \<noteq> [] then Inl (Coded CodeInvalidQuery) else Inr (n, ctx)))"

section \<open>Paths\<close>

text \<open>
  The rune an escape stands for and the number of further runes it takes; \<^verbatim>\<open>decodePathEscape\<close> and the loop of
  \<^verbatim>\<open>parseJQLPathTokens\<close> have the same cases.
\<close>

definition decodePathEscape :: "rune \<Rightarrow> rune list \<Rightarrow> (rune \<times> nat) result" where
  "decodePathEscape r rest =
     (if r = ch (CHR ''b'') then Inr (8, 0)
      else if r = ch (CHR ''f'') then Inr (12, 0)
      else if r = ch (CHR ''n'') then Inr (10, 0)
      else if r = ch (CHR ''r'') then Inr (13, 0)
      else if r = ch (CHR ''t'') then Inr (9, 0)
      else if r = ch (CHR ''u'') then
        (if length rest < 4 then Inl (Plain ''short unicode path escape'')
         else case ParseHex (stringOf (take 4 rest)) of
                None \<Rightarrow> Inl (Plain ''invalid unicode path escape'')
              | Some u \<Rightarrow> Inr (u, 4))
      else Inr (r, 0))"

function pathTokensLoop :: "rune list \<Rightarrow> string list \<Rightarrow> string \<Rightarrow> bool \<Rightarrow> rune \<Rightarrow> string list result" where
  "pathTokensLoop rs tokens b escaped quote =
     (case rs of
        [] \<Rightarrow>
          if escaped then Inl (Plain ''unterminated path escape'')
          else if quote \<noteq> 0 then Inl (Plain ''unterminated quoted path token'')
          else Inr (tokens @ [b])
      | r # rs \<Rightarrow>
          if escaped then
            (if quote = ch (CHR 0x22) then
               pathTokensLoop rs tokens (b @ [CHR 0x5C] @ encodeRune r) False quote
             else case decodePathEscape r rs of
                    Inl e \<Rightarrow> Inl e
                  | Inr (u, n) \<Rightarrow> pathTokensLoop (drop n rs) tokens (b @ encodeRune u) False quote)
          else if quote \<noteq> 0 then
            (if r = ch (CHR 0x5C) then pathTokensLoop rs tokens b True quote
             else pathTokensLoop rs tokens (b @ encodeRune r) False (if r = quote then 0 else quote))
          else if r = ch (CHR 0x5C) then pathTokensLoop rs tokens b True quote
          else if isQuote r then pathTokensLoop rs tokens (b @ encodeRune r) False r
          else if r = ch (CHR ''/'') then pathTokensLoop rs (tokens @ [b]) [] False quote
          else pathTokensLoop rs tokens (b @ encodeRune r) False quote)"
  by pat_completeness auto
termination
  by (relation "measure (\<lambda>(rs, _). length rs)") auto

declare pathTokensLoop.simps [simp del]

definition parseJQLPathTokens :: "string \<Rightarrow> string list result" where
  "parseJQLPathTokens path =
     (if path = '''' \<or> path = ''/'' then Inr []
      else if \<not> HasPrefix path ''/'' then Inl (Plain ''path must start with /'')
      else pathTokensLoop (runesOf (tl path)) [] [] False 0)"

definition normalizeJQLPathToken :: "string \<Rightarrow> string result" where
  "normalizeJQLPathToken tok =
     (let tok = TrimSpace tok
      in if 2 \<le> length tok \<and> (hd tok = CHR 0x22 \<and> last tok = CHR 0x22 \<or> hd tok = CHR 0x27 \<and> last tok = CHR 0x27) then
           (if hd tok = CHR 0x27 then Inr (unquoteSingleJQL tok)
            else case Unquote tok of None \<Rightarrow> Inl (Coded CodeInvalidQuery) | Some u \<Rightarrow> Inr u)
         else Inr tok)"

fun pathPartsLoop :: "string list \<Rightarrow> parseContext \<Rightarrow> pathPart list parsed" where
  "pathPartsLoop [] ctx = Inr ([], ctx)"
| "pathPartsLoop (t # ts) ctx =
     (case normalizeJQLPathToken t of
        Inl e \<Rightarrow> Inl e
      | Inr t \<Rightarrow>
          (case (if HasPrefix t '':'' then
                   (case parsePlaceholder t ctx of
                      Inl e \<Rightarrow> Inl e
                    | Inr (ph, ctx) \<Rightarrow>
                        Inr (\<lparr>ppLiteral = '''', ppPh = Some ph\<rparr>, ctx\<lparr>pathPlaceholders := pathPlaceholders ctx @ [ph]\<rparr>))
                 else Inr (\<lparr>ppLiteral = t, ppPh = None\<rparr>, ctx)) of
             Inl e \<Rightarrow> Inl e
           | Inr (part, ctx) \<Rightarrow>
               (case pathPartsLoop ts ctx of Inl e \<Rightarrow> Inl e | Inr (parts, ctx) \<Rightarrow> Inr (part # parts, ctx))))"

definition parsePathTemplate :: "string \<Rightarrow> parseContext \<Rightarrow> pathTemplate parsed" where
  "parsePathTemplate path ctx =
     (let path = TrimSpace path
      in if path = '''' \<or> path = ''/'' then Inr (\<lparr>ptParts = []\<rparr>, ctx)
         else if \<not> HasPrefix path ''/'' then Inl (Coded CodeInvalidQuery)
         else case parseJQLPathTokens path of
                Inl _ \<Rightarrow> Inl (Coded CodeInvalidQuery)
              | Inr tokens \<Rightarrow>
                  (case pathPartsLoop tokens ctx of
                     Inl e \<Rightarrow> Inl e
                   | Inr (parts, ctx) \<Rightarrow> Inr (\<lparr>ptParts = parts\<rparr>, ctx)))"

text \<open>A query without values, of which only the two (empty) maps of values are read.\<close>

definition noQuery :: Query where
  "noQuery = \<lparr>qCollection = '''', qText = '''',
     qParsed = \<lparr>pqCollection = '''', pqFilter = filterAtom noTerm, pqAction = actionNone, pqActionArg = noValue,
       pqProjection = None, pqSorts = [], pqSkip = 0, pqSkipPH = None, pqSkipSet = False, pqLimit = 0, pqLimitPH = None,
       pqLimitSet = False, pqCount = False, pqNoidx = False, pqInverse = False, pqPathPlaceholders = []\<rparr>,
     qNamed = Map.empty, qPositional = Map.empty, qPathNamed = {}, qPathPositional = {}\<rparr>"

definition normalizeJQLPath :: "string \<Rightarrow> parseContext \<Rightarrow> string parsed" where
  "normalizeJQLPath path ctx =
     (case parsePathTemplate path ctx of
        Inl e \<Rightarrow> Inl e
      | Inr (pt, ctx) \<Rightarrow>
          if list_ex (\<lambda>part. ppPh part \<noteq> None) (ptParts pt) then Inl (Coded CodeInvalidPlaceholder)
          else case pathResolve noQuery pt of Inl e \<Rightarrow> Inl e | Inr p \<Rightarrow> Inr (p, ctx))"

section \<open>Filters\<close>

text \<open>
  The bytes of one step of a chain: up to the next slash outside quotes, where a backslash takes the byte
  after it along. A backslash at the end of the text makes the length one too large, and the slice
  expression \<^verbatim>\<open>spec[start:i]\<close> panics.
\<close>

fun chainLen :: "string \<Rightarrow> char option \<Rightarrow> bool \<Rightarrow> nat" where
  "chainLen [] quote escaped = 0"
| "chainLen (c # cs) (Some q) escaped =
     1 + (if escaped then chainLen cs (Some q) False
          else if c = CHR 0x5C then chainLen cs (Some q) True
          else chainLen cs (if c = q then None else Some q) False)"
| "chainLen (c # cs) None escaped =
     (if c = CHR 0x27 \<or> c = CHR 0x22 then 1 + chainLen cs (Some c) escaped
      else if c = CHR 0x5C then 2 + (case cs of [] \<Rightarrow> 0 | _ # cs \<Rightarrow> chainLen cs None escaped)
      else if c = CHR ''/'' then 0
      else 1 + chainLen cs None escaped)"

abbreviation panic :: error where "panic \<equiv> Plain ''panic: slice bounds out of range''"

definition fieldStep :: "string \<Rightarrow> filterStep" where
  "fieldStep key =
     (if key = ''*'' then \<lparr>fsKind = ''any'', fsKey = '''', fsExpr = None\<rparr>
      else if key = ''**'' then \<lparr>fsKind = ''desc'', fsKey = '''', fsExpr = None\<rparr>
      else \<lparr>fsKind = ''field'', fsKey = key, fsExpr = None\<rparr>)"

text \<open>The loop of \<^verbatim>\<open>parseFilterChain\<close>; its argument is the text from \<^verbatim>\<open>spec[i]\<close> on.\<close>

function chainLoop :: "json_lib \<Rightarrow> string \<Rightarrow> filterStep list \<Rightarrow> parseContext \<Rightarrow> filterStep list parsed" where
  "chainLoop J s steps ctx =
     (case s of
        [] \<Rightarrow> Inr (steps, ctx)
      | c # cs \<Rightarrow>
          if c = CHR ''/'' then chainLoop J cs steps ctx
          else if c = CHR ''['' then
            (case findBalancedEnd s 0 (CHR ''['') (CHR '']'') of
               Inl e \<Rightarrow> Inl e
             | Inr fin \<Rightarrow>
                 (case parseExpr J (TrimSpace (take (fin - 1) cs)) ctx of
                    Inl e \<Rightarrow> Inl e
                  | Inr (x, ctx) \<Rightarrow>
                      chainLoop J (drop fin cs) (steps @ [\<lparr>fsKind = ''expr'', fsKey = '''', fsExpr = Some x\<rparr>]) ctx))
          else let n = chainLen s None False
               in if length s < n then Inl panic
                  else case normalizeJQLPathToken (take n s) of
                         Inl e \<Rightarrow> Inl e
                       | Inr key \<Rightarrow> chainLoop J (drop (n - 1) cs) (steps @ [fieldStep key]) ctx)"
  by pat_completeness auto
termination
  by (relation "measure (\<lambda>(_, s, _). length s)") auto

declare chainLoop.simps [simp del]

definition parseFilterChain :: "json_lib \<Rightarrow> string \<Rightarrow> parseContext \<Rightarrow> filterStep list option parsed" where
  "parseFilterChain J spec ctx =
     (if \<not> HasPrefix spec ''/'' then Inr (None, ctx)
      else case chainLoop J (tl spec) [] ctx of Inl e \<Rightarrow> Inl e | Inr (steps, ctx) \<Rightarrow> Inr (Some steps, ctx))"

fun complexLoop :: "filterStep list \<Rightarrow> nat \<Rightarrow> bool" where
  "complexLoop [] exprCount = False"
| "complexLoop (st # sts) exprCount =
     (if fsKind st = ''expr'' then sts \<noteq> [] \<or> 1 < exprCount + 1 \<or> complexLoop sts (exprCount + 1)
      else complexLoop sts exprCount)"

definition isComplexFilterChain :: "filterStep list \<Rightarrow> bool" where
  "isComplexFilterChain chain = complexLoop chain 0"

text \<open>The collection a filter is anchored to by \<^verbatim>\<open>@name\<close>, and the text after it.\<close>

definition anchorOf :: "string \<Rightarrow> (string \<times> string) result" where
  "anchorOf spec =
     (if HasPrefix spec ''@'' then
        (case IndexOf spec ''/'' of
           None \<Rightarrow> Inl (Coded CodeInvalidQuery)
         | Some slash \<Rightarrow>
             if slash \<le> 1 then Inl (Coded CodeInvalidQuery) else Inr (drop 1 (take slash spec), drop slash spec))
      else Inr ('''', spec))"

text \<open>A filter that is not a complex chain: a path with or without an expression at its end.\<close>

definition parsePathFilter :: "json_lib \<Rightarrow> string \<Rightarrow> string \<Rightarrow> parseContext \<Rightarrow> queryFilter parsed" where
  "parsePathFilter J coll spec ctx =
     (case IndexOf spec ''/['' of
        Some idx \<Rightarrow>
          (let base = TrimSpace (take idx spec); base = (if base = '''' then ''/'' else base)
           in case normalizeJQLPath base ctx of
                Inl e \<Rightarrow> Inl e
              | Inr (base, ctx) \<Rightarrow>
                  (let rest = TrimSpace (drop (idx + 2) spec)
                   in if \<not> HasSuffix rest '']'' then Inl (Coded CodeInvalidQuery)
                      else case parseExpr J (TrimSpace (take (length rest - 1) rest)) ctx of
                             Inl e \<Rightarrow> Inl e
                           | Inr (x, ctx) \<Rightarrow> Inr (noTerm\<lparr>qfAnchor := coll, qfPathPattern := base, qfExpr := Some x\<rparr>, ctx)))
      | None \<Rightarrow>
          if \<not> HasPrefix spec ''/'' then Inl (Coded CodeInvalidQuery)
          else case normalizeJQLPath spec ctx of
                 Inl e \<Rightarrow> Inl e
               | Inr (path, ctx) \<Rightarrow> Inr (noTerm\<lparr>qfAnchor := coll, qfPathPattern := path\<rparr>, ctx))"

text \<open>The chain is parsed with a copy of the context, which is kept only when the chain is complex.\<close>

definition parseFilterAtom :: "json_lib \<Rightarrow> string \<Rightarrow> parseContext \<Rightarrow> (queryFilter \<times> string) parsed" where
  "parseFilterAtom J spec ctx =
     (case anchorOf (TrimSpace spec) of
        Inl e \<Rightarrow> Inl e
      | Inr (coll, spec) \<Rightarrow>
          if spec = ''/*'' \<or> spec = ''/**'' then
            Inr ((noTerm\<lparr>qfAnchor := coll, qfAll := True, qfAllPath := spec\<rparr>, coll), ctx)
          else if HasPrefix spec ''/='' then
            (case parseValueExpr J (TrimSpace (TrimPrefix spec ''/='')) ctx of
               Inl e \<Rightarrow> Inl e
             | Inr (v, ctx) \<Rightarrow> Inr ((noTerm\<lparr>qfAnchor := coll, qfPk := Some v\<rparr>, coll), ctx))
          else case parseFilterChain J spec ctx of
                 Inl e \<Rightarrow> Inl e
               | Inr (chain, chainCtx) \<Rightarrow>
                   if chain \<noteq> None \<and> isComplexFilterChain (the chain) then
                     Inr ((noTerm\<lparr>qfAnchor := coll, qfChain := the chain\<rparr>, coll), chainCtx)
                   else case parsePathFilter J coll spec ctx of
                          Inl e \<Rightarrow> Inl e
                        | Inr (f, ctx) \<Rightarrow> Inr ((f, coll), ctx))"

text \<open>The filter parsers return the node and the collection, that of the leftmost anchor.\<close>

type_synonym filterRes = "filterNode \<times> string"

definition parseFilterPrimary :: "json_lib \<Rightarrow> filterRes parser \<Rightarrow> filterRes parser" where
  "parseFilterPrimary J orP ts ctx =
     (case ts of
        [] \<Rightarrow> Some (Inl (Coded CodeInvalidQuery))
      | t # ts \<Rightarrow>
          (case tokKind t of
             tkLParen \<Rightarrow>
               bindP (orP ts ctx)
                 (\<lambda>((f, coll), ts, ctx).
                    if ts = [] \<or> tokKind (hd ts) \<noteq> tkRParen then Some (Inl (Coded CodeInvalidQuery))
                    else Some (Inr ((filterGroup f, coll), tl ts, ctx)))
           | tkAtom \<Rightarrow>
               (case parseFilterAtom J (tokText t) ctx of
                  Inl e \<Rightarrow> Some (Inl e)
                | Inr ((f, coll), ctx) \<Rightarrow> Some (Inr ((filterAtom f, coll), ts, ctx)))
           | _ \<Rightarrow> Some (Inl (Coded CodeInvalidQuery))))"

fun parseFilterUnary :: "json_lib \<Rightarrow> filterRes parser \<Rightarrow> filterRes parser" where
  "parseFilterUnary J orP [] ctx = parseFilterPrimary J orP [] ctx"
| "parseFilterUnary J orP (t # ts) ctx =
     (if tokKind t = tkNot then
        bindP (parseFilterUnary J orP ts ctx) (\<lambda>((f, coll), ts, ctx). Some (Inr ((filterNot f, coll), ts, ctx)))
      else parseFilterPrimary J orP (t # ts) ctx)"

fun parseFilterAndLoop :: "json_lib \<Rightarrow> filterRes parser \<Rightarrow> nat \<Rightarrow> filterRes \<Rightarrow> filterRes parser" where
  "parseFilterAndLoop J orP 0 left ts ctx = None"
| "parseFilterAndLoop J orP (Suc n) left ts ctx =
     (if ts = [] \<or> tokKind (hd ts) \<noteq> tkAnd then Some (Inr (left, ts, ctx))
      else bindP (parseFilterUnary J orP (tl ts) ctx)
             (\<lambda>((right, rcoll), ts, ctx).
                parseFilterAndLoop J orP n (filterAnd (fst left) right, if snd left = '''' then rcoll else snd left) ts ctx))"

definition parseFilterAnd :: "json_lib \<Rightarrow> filterRes parser \<Rightarrow> nat \<Rightarrow> filterRes parser" where
  "parseFilterAnd J orP n ts ctx =
     bindP (parseFilterUnary J orP ts ctx) (\<lambda>(left, ts, ctx). parseFilterAndLoop J orP n left ts ctx)"

fun parseFilterOrLoop :: "json_lib \<Rightarrow> filterRes parser \<Rightarrow> nat \<Rightarrow> filterRes \<Rightarrow> filterRes parser" where
  "parseFilterOrLoop J orP 0 left ts ctx = None"
| "parseFilterOrLoop J orP (Suc n) left ts ctx =
     (if ts = [] \<or> tokKind (hd ts) \<noteq> tkOr then Some (Inr (left, ts, ctx))
      else bindP (parseFilterAnd J orP n (tl ts) ctx)
             (\<lambda>((right, rcoll), ts, ctx).
                parseFilterOrLoop J orP n (filterOr (fst left) right, if snd left = '''' then rcoll else snd left) ts ctx))"

fun parseFilterOr :: "json_lib \<Rightarrow> nat \<Rightarrow> filterRes parser" where
  "parseFilterOr J 0 ts ctx = None"
| "parseFilterOr J (Suc n) ts ctx =
     bindP (parseFilterAnd J (parseFilterOr J n) (Suc n) ts ctx)
       (\<lambda>(left, ts, ctx). parseFilterOrLoop J (parseFilterOr J n) (Suc n) left ts ctx)"

definition parseFilterExpression :: "json_lib \<Rightarrow> string \<Rightarrow> parseContext \<Rightarrow> filterRes parsed" where
  "parseFilterExpression J s ctx =
     (let s = TrimSpace s; s = (if s = '''' then ''/*'' else s)
      in case tokenizeLogical s of
           Inl e \<Rightarrow> Inl e
         | Inr toks \<Rightarrow>
             (case the (parseFilterOr J (length toks + 1) toks ctx) of
                Inl e \<Rightarrow> Inl e
              | Inr (f, ts, ctx) \<Rightarrow> if ts \<noteq> [] then Inl (Coded CodeInvalidQuery) else Inr (f, ctx)))"

section \<open>Projections\<close>

definition isProjectionStage :: "string \<Rightarrow> bool" where
  "isProjectionStage stage =
     (let s = TrimSpace stage
      in if s = '''' then False else HasPrefix s ''/'' \<or> HasPrefix s ''all'')"

text \<open>
  The loops of \<^verbatim>\<open>splitProjectionTerms\<close> and \<^verbatim>\<open>splitCSV\<close>: pieces of the runes between separators that stand outside
  quotes and braces. \<open>cur\<close> is \<^verbatim>\<open>runes[start:i]\<close>.
\<close>

fun projectionLoop :: "rune list \<Rightarrow> (rune \<times> string) list \<Rightarrow> rune \<Rightarrow> rune list \<Rightarrow> rune \<Rightarrow> nat \<Rightarrow> (rune \<times> string) list" where
  "projectionLoop [] pieces op cur quote cu = pieces @ [(op, TrimSpace (stringOf cur))]"
| "projectionLoop (r # rs) pieces op cur quote cu =
     (if quote \<noteq> 0 then projectionLoop rs pieces op (cur @ [r]) (if r = quote then 0 else quote) cu
      else if isQuote r then projectionLoop rs pieces op (cur @ [r]) r cu
      else if r = ch (CHR ''{'') then projectionLoop rs pieces op (cur @ [r]) quote (cu + 1)
      else if r = ch (CHR ''}'') then projectionLoop rs pieces op (cur @ [r]) quote (cu - 1)
      else if (r = ch (CHR ''+'') \<or> r = ch (CHR ''-'')) \<and> cu = 0 then
        projectionLoop rs (pieces @ [(op, TrimSpace (stringOf cur))]) r [] quote cu
      else projectionLoop rs pieces op (cur @ [r]) quote cu)"

definition splitProjectionTerms :: "string \<Rightarrow> (rune \<times> string) list" where
  "splitProjectionTerms s = projectionLoop (runesOf s) [] (ch (CHR ''+'')) [] 0 0"

fun csvLoop :: "rune list \<Rightarrow> string list \<Rightarrow> rune list \<Rightarrow> rune \<Rightarrow> nat \<Rightarrow> string list" where
  "csvLoop [] parts cur quote cu = parts @ [TrimSpace (stringOf cur)]"
| "csvLoop (r # rs) parts cur quote cu =
     (if quote \<noteq> 0 then csvLoop rs parts (cur @ [r]) (if r = quote then 0 else quote) cu
      else if isQuote r then csvLoop rs parts (cur @ [r]) r cu
      else if r = ch (CHR ''{'') then csvLoop rs parts (cur @ [r]) quote (cu + 1)
      else if r = ch (CHR ''}'') then csvLoop rs parts (cur @ [r]) quote (cu - 1)
      else if r = ch (CHR '','') \<and> cu = 0 then csvLoop rs (parts @ [TrimSpace (stringOf cur)]) [] quote cu
      else csvLoop rs parts (cur @ [r]) quote cu)"

definition splitCSV :: "string \<Rightarrow> string list" where
  "splitCSV s = csvLoop (runesOf s) [] [] 0 0"

definition expandProjectionTerm :: "string \<Rightarrow> string list result" where
  "expandProjectionTerm trm =
     (let trm = TrimSpace trm
      in if \<not> Contains trm ''{'' then Inr [trm]
         else case (IndexOf trm ''{'', LastIndexOf trm ''}'') of
                (Some l, Some r) \<Rightarrow>
                  if r < l then Inl (Coded CodeInvalidQuery)
                  else let pre = TrimSpace (take l trm);
                           items = filter (\<lambda>it. it \<noteq> '''') (map TrimSpace (splitCSV (take (r - (l + 1)) (drop (l + 1) trm))));
                           res = map (\<lambda>it. let path = TrimSuffix pre ''/'' @ ''/'' @ TrimPrefix it ''/''
                                           in if HasPrefix path ''/'' then path else ''/'' @ path) items
                       in if res = [] then Inl (Coded CodeInvalidQuery) else Inr res
              | _ \<Rightarrow> Inl (Coded CodeInvalidQuery))"

definition projectionItem :: "bool \<Rightarrow> string \<Rightarrow> parseContext \<Rightarrow> projectionTerm parsed" where
  "projectionItem incl e ctx =
     (let (join, path) =
            (case IndexOf e ''<'' of
               Some lt \<Rightarrow> if 0 < lt then (TrimSpace (drop (lt + 1) e), TrimSpace (take lt e)) else ('''', e)
             | None \<Rightarrow> ('''', e))
      in case parsePathTemplate path ctx of
           Inl e \<Rightarrow> Inl e
         | Inr (pt, ctx) \<Rightarrow> Inr (\<lparr>ptInclude = incl, ptAll = False, ptPath = pt, ptJoin = join\<rparr>, ctx))"

fun projectionItems :: "bool \<Rightarrow> string list \<Rightarrow> parseContext \<Rightarrow> projectionTerm list parsed" where
  "projectionItems incl [] ctx = Inr ([], ctx)"
| "projectionItems incl (e # es) ctx =
     (case projectionItem incl e ctx of
        Inl err \<Rightarrow> Inl err
      | Inr (t, ctx) \<Rightarrow> (case projectionItems incl es ctx of Inl err \<Rightarrow> Inl err | Inr (ts, ctx) \<Rightarrow> Inr (t # ts, ctx)))"

text \<open>The loop over the pieces; \<open>first\<close> is \<^verbatim>\<open>i == 0\<close> and \<open>incl\<close> the variable \<^verbatim>\<open>include\<close>.\<close>

fun projectionTerms :: "bool \<Rightarrow> bool \<Rightarrow> (rune \<times> string) list \<Rightarrow> parseContext \<Rightarrow> projectionTerm list parsed" where
  "projectionTerms first incl [] ctx = Inr ([], ctx)"
| "projectionTerms first incl ((op, trm) # ps) ctx =
     (let t = TrimSpace trm; incl' = (if first then incl else op = ch (CHR ''+''))
      in if t = '''' then projectionTerms False incl ps ctx
         else case (if t = ''all'' then Inr ([\<lparr>ptInclude = incl', ptAll = True, ptPath = \<lparr>ptParts = []\<rparr>, ptJoin = ''''\<rparr>], ctx)
                    else case expandProjectionTerm t of Inl e \<Rightarrow> Inl e | Inr es \<Rightarrow> projectionItems incl' es ctx) of
                Inl e \<Rightarrow> Inl e
              | Inr (ts, ctx) \<Rightarrow>
                  (case projectionTerms False incl' ps ctx of Inl e \<Rightarrow> Inl e | Inr (us, ctx) \<Rightarrow> Inr (ts @ us, ctx)))"

definition parseProjection :: "string \<Rightarrow> parseContext \<Rightarrow> projectionSpec parsed" where
  "parseProjection stage ctx =
     (case projectionTerms True True (splitProjectionTerms stage) ctx of
        Inl e \<Rightarrow> Inl e
      | Inr (ts, ctx) \<Rightarrow> Inr (\<lparr>psTerms = ts\<rparr>, ctx))"

section \<open>Options\<close>

definition maxOrderByClauses :: nat where "maxOrderByClauses = 64"

definition parseOrderByToken :: "string \<Rightarrow> bool \<Rightarrow> parseContext \<Rightarrow> querySort parsed" where
  "parseOrderByToken tok desc ctx =
     (if HasPrefix tok '':'' then
        (case parsePlaceholder tok ctx of
           Inl e \<Rightarrow> Inl e
         | Inr (ph, ctx) \<Rightarrow>
             Inr (\<lparr>qsDesc = desc, qsPath = \<lparr>ptParts = []\<rparr>, qsPlaceholder = Some ph\<rparr>,
                  ctx\<lparr>pathPlaceholders := pathPlaceholders ctx @ [ph]\<rparr>))
      else case parsePathTemplate tok ctx of
             Inl e \<Rightarrow> Inl e
           | Inr (pt, ctx) \<Rightarrow> Inr (\<lparr>qsDesc = desc, qsPath = pt, qsPlaceholder = None\<rparr>, ctx))"

definition addSort :: "string \<Rightarrow> bool \<Rightarrow> parsedQuery \<Rightarrow> parseContext \<Rightarrow> parsedQuery parsed" where
  "addSort tok desc out ctx =
     (case parseOrderByToken tok desc ctx of
        Inl e \<Rightarrow> Inl e
      | Inr (sortSpec, ctx) \<Rightarrow>
          if maxOrderByClauses \<le> length (pqSorts out) then Inl (Coded CodeOrderByMaxLimit)
          else Inr (out\<lparr>pqSorts := pqSorts out @ [sortSpec]\<rparr>, ctx))"

text \<open>The inner loop over the paths after \<^verbatim>\<open>asc\<close> or \<^verbatim>\<open>desc\<close>, and the tokens it leaves.\<close>

fun sortPathsLoop :: "bool \<Rightarrow> string list \<Rightarrow> parsedQuery \<Rightarrow> parseContext \<Rightarrow> (string list \<times> parsedQuery) parsed" where
  "sortPathsLoop desc [] out ctx = Inr (([], out), ctx)"
| "sortPathsLoop desc (t # ts) out ctx =
     (if HasPrefix t ''/'' then
        (case addSort t desc out ctx of Inl e \<Rightarrow> Inl e | Inr (out, ctx) \<Rightarrow> sortPathsLoop desc ts out ctx)
      else Inr ((t # ts, out), ctx))"

lemma sortPathsLoop_shorter: "sortPathsLoop desc ts out ctx = Inr ((ts', out'), ctx') \<Longrightarrow> length ts' \<le> length ts"
  by (induction desc ts out ctx rule: sortPathsLoop.induct) (fastforce split: if_splits sum.splits)+

text \<open>The value of \<^verbatim>\<open>skip\<close> and \<^verbatim>\<open>limit\<close>: a placeholder or a number that is not negative.\<close>

definition optionValue :: "string \<Rightarrow> parseContext \<Rightarrow> (int option \<times> placeholderRef option) parsed" where
  "optionValue tok ctx =
     (if HasPrefix tok '':'' then
        (case parsePlaceholder tok ctx of Inl e \<Rightarrow> Inl e | Inr (ph, ctx) \<Rightarrow> Inr ((None, Some ph), ctx))
      else case Atoi tok of
             None \<Rightarrow> Inl (Coded CodeInvalidQuery)
           | Some n \<Rightarrow> if n < 0 then Inl (Coded CodeInvalidQuery) else Inr ((Some n, None), ctx))"

function optionsLoop :: "string list \<Rightarrow> parsedQuery \<Rightarrow> parseContext \<Rightarrow> parsedQuery parsed" where
  "optionsLoop [] out ctx = Inr (out, ctx)"
| "optionsLoop (t # ts) out ctx =
     (if t = ''asc'' \<or> t = ''desc'' then
        (let desc = (t = ''desc'')
         in case ts of
              [] \<Rightarrow> Inl (Coded CodeInvalidQuery)
            | p # ps \<Rightarrow>
                if HasPrefix p '':'' then
                  (case addSort p desc out ctx of Inl e \<Rightarrow> Inl e | Inr (out, ctx) \<Rightarrow> optionsLoop ps out ctx)
                else if \<not> HasPrefix p ''/'' then Inl (Coded CodeInvalidQuery)
                else case sortPathsLoop desc ts out ctx of
                       Inl e \<Rightarrow> Inl e
                     | Inr ((ts', out), ctx) \<Rightarrow> optionsLoop ts' out ctx)
      else if t = ''skip'' then
        (if pqSkipSet out then Inl (Coded CodeSkipAlreadySet)
         else case ts of
                [] \<Rightarrow> Inl (Coded CodeInvalidQuery)
              | p # ps \<Rightarrow>
                  (case optionValue p ctx of
                     Inl e \<Rightarrow> Inl e
                   | Inr ((None, ph), ctx) \<Rightarrow> optionsLoop ps (out\<lparr>pqSkipSet := True, pqSkipPH := ph\<rparr>) ctx
                   | Inr ((Some n, _), ctx) \<Rightarrow> optionsLoop ps (out\<lparr>pqSkipSet := True, pqSkip := n, pqSkipPH := None\<rparr>) ctx))
      else if t = ''limit'' then
        (if pqLimitSet out then Inl (Coded CodeLimitAlreadySet)
         else case ts of
                [] \<Rightarrow> Inl (Coded CodeInvalidQuery)
              | p # ps \<Rightarrow>
                  (case optionValue p ctx of
                     Inl e \<Rightarrow> Inl e
                   | Inr ((None, ph), ctx) \<Rightarrow> optionsLoop ps (out\<lparr>pqLimitSet := True, pqLimitPH := ph\<rparr>) ctx
                   | Inr ((Some n, _), ctx) \<Rightarrow> optionsLoop ps (out\<lparr>pqLimitSet := True, pqLimit := n, pqLimitPH := None\<rparr>) ctx))
      else if t = ''count'' then optionsLoop ts (out\<lparr>pqCount := True\<rparr>) ctx
      else if t = ''noidx'' then optionsLoop ts (out\<lparr>pqNoidx := True\<rparr>) ctx
      else if t = ''inverse'' then optionsLoop ts (out\<lparr>pqInverse := True\<rparr>) ctx
      else Inl (Coded CodeInvalidQuery))"
  by pat_completeness auto
termination
  by (relation "measure (\<lambda>(ts, _). length ts)") (auto dest!: sortPathsLoop_shorter simp del: sortPathsLoop.simps)

definition parseOptionsStage :: "string \<Rightarrow> parsedQuery \<Rightarrow> parseContext \<Rightarrow> parsedQuery parsed" where
  "parseOptionsStage stage out ctx =
     (case splitOptionTokens stage of Inl e \<Rightarrow> Inl e | Inr toks \<Rightarrow> optionsLoop toks out ctx)"

section \<open>Queries\<close>

definition parseStage :: "json_lib \<Rightarrow> string \<Rightarrow> parsedQuery \<Rightarrow> parseContext \<Rightarrow> parsedQuery parsed" where
  "parseStage J stage out ctx =
     (let s = TrimSpace stage
      in if s = '''' then Inr (out, ctx)
         else if s = ''del'' then Inr (out\<lparr>pqAction := actionDelete\<rparr>, ctx)
         else if HasPrefix s ''apply '' then
           (case parseValueExpr J (TrimSpace (TrimPrefix s ''apply'')) ctx of
              Inl e \<Rightarrow> Inl e
            | Inr (arg, ctx) \<Rightarrow> Inr (out\<lparr>pqAction := actionApply, pqActionArg := arg\<rparr>, ctx))
         else if HasPrefix s ''upsert '' then
           (case parseValueExpr J (TrimSpace (TrimPrefix s ''upsert'')) ctx of
              Inl e \<Rightarrow> Inl e
            | Inr (arg, ctx) \<Rightarrow> Inr (out\<lparr>pqAction := actionUpsert, pqActionArg := arg\<rparr>, ctx))
         else if isProjectionStage s then
           (case parseProjection s ctx of
              Inl e \<Rightarrow> Inl e
            | Inr (proj, ctx) \<Rightarrow> Inr (out\<lparr>pqProjection := Some proj\<rparr>, ctx))
         else parseOptionsStage s out ctx)"

fun parseStages :: "json_lib \<Rightarrow> string list \<Rightarrow> parsedQuery \<Rightarrow> parseContext \<Rightarrow> parsedQuery parsed" where
  "parseStages J [] out ctx = Inr (out, ctx)"
| "parseStages J (s # ss) out ctx =
     (case parseStage J s out ctx of Inl e \<Rightarrow> Inl e | Inr (out, ctx) \<Rightarrow> parseStages J ss out ctx)"

definition parsedOf :: "filterNode \<Rightarrow> string \<Rightarrow> parsedQuery" where
  "parsedOf filt coll = (qParsed noQuery)\<lparr>pqFilter := filt, pqCollection := coll, pqLimit := - 1\<rparr>"

definition parseQuery :: "json_lib \<Rightarrow> string \<Rightarrow> parsedQuery result" where
  "parseQuery J q =
     (let q = TrimSpace q; q = (if q = '''' then ''/*'' else q)
      in case splitPipeline q of
           Inl _ \<Rightarrow> Inl (Coded CodeInvalidQuery)
         | Inr [] \<Rightarrow> Inl (Coded CodeInvalidQuery)
         | Inr (part # parts) \<Rightarrow>
             (case parseFilterExpression J part context0 of
                Inl e \<Rightarrow> Inl e
              | Inr ((filt, coll), ctx) \<Rightarrow>
                  (case parseStages J parts (parsedOf filt coll) ctx of
                     Inl e \<Rightarrow> Inl e
                   | Inr (out, ctx) \<Rightarrow> Inr (out\<lparr>pqPathPlaceholders := pathPlaceholders ctx\<rparr>))))"

definition NewQuery :: "json_lib \<Rightarrow> string \<Rightarrow> string \<Rightarrow> Query result" where
  "NewQuery J collection text =
     (case parseQuery J text of
        Inl e \<Rightarrow> Inl e
      | Inr pq \<Rightarrow>
          (let (named, positional) = pathPlaceholderSets (pqPathPlaceholders pq);
               coll = (if pqCollection pq \<noteq> '''' then pqCollection pq else TrimSpace collection)
           in if coll = '''' then Inl (Coded CodeNoCollection)
              else Inr \<lparr>qCollection = coll, qText = text, qParsed = pq, qNamed = Map.empty, qPositional = Map.empty,
                        qPathNamed = named, qPathPositional = positional\<rparr>))"

end
