(* ===== verification/QueryEval.thy ===== *)
theory QueryEval
  imports QueryParse
begin

text \<open>
  \<^verbatim>\<open>query.go\<close>: the evaluation of filters and expressions on a document. Go ranges over a map in no
  particular order; the model takes the order of the keys. No result of a filter depends on it, since an
  error of a comparison depends on the right operand alone.
\<close>

section \<open>Comparing values\<close>

definition ordHolds :: "string \<Rightarrow> int \<Rightarrow> bool" where
  "ordHolds op ord =
     (if op = ''>'' then 0 < ord else if op = ''>='' then 0 \<le> ord else if op = ''<'' then ord < 0 else ord \<le> 0)"

definition inSlice :: "go_lib \<Rightarrow> gv \<Rightarrow> gv \<Rightarrow> bool" where
  "inSlice L left right =
     (case toAnySlice right of None \<Rightarrow> False | Some arr \<Rightarrow> list_ex (\<lambda>it. jqCompare L left it = Some 0) arr)"

definition regexpOf :: "go_lib \<Rightarrow> gv \<Rightarrow> string" where
  "regexpOf L right = (case right of VRegexp rv \<Rightarrow> rv | VString rv \<Rightarrow> rv | rv \<Rightarrow> sprint L rv)"

definition compareValues :: "go_lib \<Rightarrow> gv \<Rightarrow> string \<Rightarrow> gv \<Rightarrow> bool result" where
  "compareValues L left op right =
     (if op = ''='' then Inr (jqCompare L left right = Some 0)
      else if op = ''!='' then Inr (jqCompare L left right \<noteq> Some 0)
      else if op = ''>'' \<or> op = ''>='' \<or> op = ''<'' \<or> op = ''<='' then
        (case (stringArg left, stringArg right) of
           (Some ls, Some rs) \<Rightarrow> Inr (ordHolds op (stringsCompare ls rs))
         | _ \<Rightarrow> (case jqCompare L left right of None \<Rightarrow> Inr False | Some ord \<Rightarrow> Inr (ordHolds op ord)))
      else if op = ''in'' then Inr (inSlice L left right)
      else if op = ''ni'' then Inr (\<not> inSlice L left right)
      else if op = ''prefix'' \<or> op = ''nprefix'' then
        (case jqPrefixMatch L left right of
           None \<Rightarrow> Inr False
         | Some ok \<Rightarrow> Inr (if op = ''nprefix'' then \<not> ok else ok))
      else if op = ''re'' \<or> op = ''nre'' then
        (case regexpMatch L (regexpOf L right) (sprint L left) of
           None \<Rightarrow> Inl (Coded CodeInvalidQuery)
         | Some ok \<Rightarrow> Inr (if op = ''nre'' then \<not> ok else ok))
      else Inr False)"

section \<open>The values a key names\<close>

function collectDesc :: "gv \<Rightarrow> gv list" where
  "collectDesc v = v # concat (map collectDesc (immediateChildren v))"
  by pat_completeness auto
termination
  by (relation "measure vdepth") (auto dest: vdepth_child)

declare collectDesc.simps [simp del]

text \<open>The children of a container with what the key \<^verbatim>\<open>*\<close> compares: the name or the index of the child.\<close>

definition namedChildren :: "gv \<Rightarrow> (string \<times> gv) list" where
  "namedChildren v =
     (case v of VObject x \<Rightarrow> x | VArray x \<Rightarrow> map (\<lambda>i. (Itoa i, x ! i)) [0..<length x] | _ \<Rightarrow> [])"

definition fieldOf :: "gv \<Rightarrow> string \<Rightarrow> gv option" where
  "fieldOf v key =
     (case v of
        VObject x \<Rightarrow> objGet x key
      | VArray x \<Rightarrow> map_option ((!) x) (indexIn key (length x))
      | _ \<Rightarrow> None)"

definition isTrue :: "bool result \<Rightarrow> bool" where "isTrue r \<longleftrightarrow> r = Inr True"

definition valuesByNestedExpr :: "go_lib \<Rightarrow> json_lib \<Rightarrow> gv \<Rightarrow> string \<Rightarrow> gv list" where
  "valuesByNestedExpr L J base exprText =
     (case parseComparison J exprText context0 of
        Inl _ \<Rightarrow> []
      | Inr (cmp, _) \<Rightarrow>
          (case valueResolve noQuery (cmpValue cmp) of
             Inl _ \<Rightarrow> []
           | Inr right \<Rightarrow>
               (let ok = (\<lambda>selector. isTrue (compareValues L selector (cmpOp cmp) right))
                in if cmpKey cmp = ''*'' then map snd (filter (\<lambda>(k, v). ok (VString k)) (namedChildren base))
                   else if cmpKey cmp = ''**'' then filter ok (immediateChildren base)
                   else case fieldOf base (cmpKey cmp) of
                          None \<Rightarrow> []
                        | Some v \<Rightarrow> if ok v then [v] else [])))"

definition valuesByKey :: "go_lib \<Rightarrow> json_lib \<Rightarrow> gv \<Rightarrow> string \<Rightarrow> gv list" where
  "valuesByKey L J base key =
     (let key = TrimSpace key
      in if HasPrefix key ''['' \<and> HasSuffix key '']'' then
           valuesByNestedExpr L J base (TrimSpace (take (length key - 2) (drop 1 key)))
         else if key = ''*'' then map (VString \<circ> fst) (namedChildren base)
         else if key = ''**'' then collectDesc base
         else if HasPrefix key ''/'' then (case pointerGet base key of None \<Rightarrow> [] | Some v \<Rightarrow> [v])
         else (case fieldOf base key of None \<Rightarrow> [] | Some v \<Rightarrow> [v]))"

section \<open>Expressions\<close>

text \<open>The loops that stop at the first value that matches, or at an error.\<close>

fun anyMatch :: "('a \<Rightarrow> bool result) \<Rightarrow> 'a list \<Rightarrow> bool result" where
  "anyMatch f [] = Inr False"
| "anyMatch f (x # xs) =
     (case f x of Inl e \<Rightarrow> Inl e | Inr True \<Rightarrow> Inr True | Inr False \<Rightarrow> anyMatch f xs)"

definition cmpEval :: "go_lib \<Rightarrow> json_lib \<Rightarrow> comparison \<Rightarrow> gv \<Rightarrow> Query \<Rightarrow> bool result" where
  "cmpEval L J c base q =
     (case valueResolve q (cmpValue c) of
        Inl e \<Rightarrow> Inl e
      | Inr right \<Rightarrow> anyMatch (\<lambda>left. compareValues L left (cmpOp c) right) (valuesByKey L J base (cmpKey c)))"

fun exprEval :: "go_lib \<Rightarrow> json_lib \<Rightarrow> exprNode \<Rightarrow> gv \<Rightarrow> Query \<Rightarrow> bool result" where
  "exprEval L J (exprCmp c) base q = cmpEval L J c base q"
| "exprEval L J (exprAnd a b) base q =
     (case exprEval L J a base q of Inl e \<Rightarrow> Inl e | Inr lm \<Rightarrow> if lm then exprEval L J b base q else Inr False)"
| "exprEval L J (exprOr a b) base q =
     (case exprEval L J a base q of Inl e \<Rightarrow> Inl e | Inr lm \<Rightarrow> if lm then Inr True else exprEval L J b base q)"
| "exprEval L J (exprNot a) base q = (case exprEval L J a base q of Inl e \<Rightarrow> Inl e | Inr m \<Rightarrow> Inr (\<not> m))"
| "exprEval L J (exprGroup a) base q = exprEval L J a base q"

section \<open>Nodes of a document\<close>

function walkPattern :: "gv \<Rightarrow> string list \<Rightarrow> gv list" where
  "walkPattern cur [] = [cur]"
| "walkPattern cur (tok # tokens) =
     (if tok = ''**'' then
        walkPattern cur tokens @ concat (map (\<lambda>child. walkPattern child (tok # tokens)) (immediateChildren cur))
      else if tok = ''*'' then concat (map (\<lambda>child. walkPattern child tokens) (immediateChildren cur))
      else case fieldOf cur tok of None \<Rightarrow> [] | Some n \<Rightarrow> walkPattern n tokens)"
  by pat_completeness auto
termination
  by (relation "measures [length \<circ> snd, vdepth \<circ> fst]") (auto dest: vdepth_child)

definition findNodesByPattern :: "gv \<Rightarrow> string \<Rightarrow> gv list" where
  "findNodesByPattern doc pat =
     (case pointerTokens pat of Inl _ \<Rightarrow> [] | Inr tokens \<Rightarrow> walkPattern doc tokens)"

section \<open>Chains\<close>

text \<open>The values whose selector matches; an error ends the loop.\<close>

fun selectMatched :: "('a \<Rightarrow> bool result) \<Rightarrow> ('a \<times> gv) list \<Rightarrow> gv list result" where
  "selectMatched f [] = Inr []"
| "selectMatched f ((selector, v) # xs) =
     (case f selector of
        Inl e \<Rightarrow> Inl e
      | Inr ok \<Rightarrow> (case selectMatched f xs of Inl e \<Rightarrow> Inl e | Inr vs \<Rightarrow> Inr (if ok then v # vs else vs)))"

definition isContainer :: "gv \<Rightarrow> bool" where
  "isContainer v = (case v of VObject _ \<Rightarrow> True | VArray _ \<Rightarrow> True | _ \<Rightarrow> False)"

definition selectByComparison :: "go_lib \<Rightarrow> json_lib \<Rightarrow> gv \<Rightarrow> comparison \<Rightarrow> Query \<Rightarrow> gv list result" where
  "selectByComparison L J base cmp q =
     (case valueResolve q (cmpValue cmp) of
        Inl e \<Rightarrow> Inl e
      | Inr right \<Rightarrow>
          (let f = (\<lambda>selector. compareValues L selector (cmpOp cmp) right)
           in if isContainer base \<and> cmpKey cmp = ''*'' then
                selectMatched f (map (\<lambda>(k, v). (VString k, v)) (namedChildren base))
              else if isContainer base \<and> cmpKey cmp = ''**'' then
                selectMatched f (map (\<lambda>v. (v, v)) (immediateChildren base))
              else selectMatched f (map (\<lambda>left. (left, base)) (valuesByKey L J base (cmpKey cmp)))))"

definition selectByExprNode :: "go_lib \<Rightarrow> json_lib \<Rightarrow> gv \<Rightarrow> exprNode \<Rightarrow> Query \<Rightarrow> gv list result" where
  "selectByExprNode L J base x q =
     (case x of
        exprCmp cmp \<Rightarrow> selectByComparison L J base cmp q
      | _ \<Rightarrow> (case exprEval L J x base q of Inl e \<Rightarrow> Inl e | Inr ok \<Rightarrow> Inr (if ok then [base] else [])))"

definition stepNodes :: "go_lib \<Rightarrow> json_lib \<Rightarrow> filterStep \<Rightarrow> Query \<Rightarrow> gv \<Rightarrow> gv list result" where
  "stepNodes L J step q node =
     (if fsKind step = ''field'' then Inr (case fieldOf node (fsKey step) of None \<Rightarrow> [] | Some v \<Rightarrow> [v])
      else if fsKind step = ''any'' then Inr (immediateChildren node)
      else if fsKind step = ''desc'' then Inr (collectDesc node)
      else case fsExpr step of
             Some x \<Rightarrow> if fsKind step = ''expr'' then selectByExprNode L J node x q else Inr []
           | None \<Rightarrow> Inr [])"

fun nextNodes :: "(gv \<Rightarrow> gv list result) \<Rightarrow> gv list \<Rightarrow> gv list result" where
  "nextNodes f [] = Inr []"
| "nextNodes f (v # vs) =
     (case f v of Inl e \<Rightarrow> Inl e | Inr ns \<Rightarrow> (case nextNodes f vs of Inl e \<Rightarrow> Inl e | Inr ms \<Rightarrow> Inr (ns @ ms)))"

fun matchFilterChain :: "go_lib \<Rightarrow> json_lib \<Rightarrow> gv list \<Rightarrow> filterStep list \<Rightarrow> Query \<Rightarrow> gv list result" where
  "matchFilterChain L J cur [] q = Inr cur"
| "matchFilterChain L J cur (step # chain) q =
     (case nextNodes (stepNodes L J step q) cur of
        Inl e \<Rightarrow> Inl e
      | Inr nodes \<Rightarrow> if nodes = [] then Inr [] else matchFilterChain L J nodes chain q)"

section \<open>Filters\<close>

definition termMatch :: "go_lib \<Rightarrow> json_lib \<Rightarrow> queryFilter \<Rightarrow> gv \<Rightarrow> int64 \<Rightarrow> Query \<Rightarrow> bool result" where
  "termMatch L J f doc i q =
     (if qfAll f then Inr True
      else case qfPk f of
             Some pk \<Rightarrow>
               (case valueResolve q pk of
                  Inl e \<Rightarrow> Inl e
                | Inr v \<Rightarrow> (case toIDSlice v of Inl e \<Rightarrow> Inl e | Inr ids \<Rightarrow> Inr (i \<in> set ids)))
           | None \<Rightarrow>
               if qfChain f \<noteq> [] then
                 (case matchFilterChain L J [doc] (qfChain f) q of Inl e \<Rightarrow> Inl e | Inr nodes \<Rightarrow> Inr (nodes \<noteq> []))
               else let nodes = findNodesByPattern doc (qfPathPattern f)
                    in case qfExpr f of
                         None \<Rightarrow> Inr (nodes \<noteq> [])
                       | Some x \<Rightarrow> anyMatch (\<lambda>n. exprEval L J x n q) nodes)"

fun filterMatch :: "go_lib \<Rightarrow> json_lib \<Rightarrow> filterNode \<Rightarrow> gv \<Rightarrow> int64 \<Rightarrow> Query \<Rightarrow> bool result" where
  "filterMatch L J (filterAtom f) doc i q = termMatch L J f doc i q"
| "filterMatch L J (filterAnd a b) doc i q =
     (case filterMatch L J a doc i q of Inl e \<Rightarrow> Inl e | Inr lm \<Rightarrow> if lm then filterMatch L J b doc i q else Inr False)"
| "filterMatch L J (filterOr a b) doc i q =
     (case filterMatch L J a doc i q of Inl e \<Rightarrow> Inl e | Inr lm \<Rightarrow> if lm then Inr True else filterMatch L J b doc i q)"
| "filterMatch L J (filterNot a) doc i q = (case filterMatch L J a doc i q of Inl e \<Rightarrow> Inl e | Inr m \<Rightarrow> Inr (\<not> m))"
| "filterMatch L J (filterGroup a) doc i q = filterMatch L J a doc i q"

end
