(* ===== verification/QueryPlan.thy ===== *)
theory QueryPlan
  imports QueryEval IndexKeys Types
begin

text \<open>
  \<^verbatim>\<open>query.go\<close> and \<^verbatim>\<open>db.go\<close>: the choice of an index for a filter or an order. Go ranges over the runtime
  indexes of a collection in any order; the model takes the order of the list.
\<close>

section \<open>Plans\<close>

record candidatePlan =
  cpIndex :: "indexRuntime option"
  cpIdx :: indexState
  cpOp :: string
  cpValue :: gv
  cpOp2 :: string
  cpValue2 :: gv
  cpWeight :: int
  cpExplain :: string
  cpExplain2 :: string
  cpCursorInit :: string
  cpCursorStep :: string
  cpRNum :: int
  cpPathCnt :: nat

definition noPlan :: candidatePlan where
  "noPlan = \<lparr>cpIndex = None, cpIdx = \<lparr>idxPath = '''', idxKind = OtherKind '''', idxUnique = False, idxDBID = 0, idxRNum = 0\<rparr>,
     cpOp = '''', cpValue = VNil, cpOp2 = '''', cpValue2 = VNil, cpWeight = 0, cpExplain = '''', cpExplain2 = '''',
     cpCursorInit = '''', cpCursorStep = '''', cpRNum = 0, cpPathCnt = 0\<rparr>"

text \<open>A plan with the second result of the function that returns it.\<close>

type_synonym plan = "candidatePlan \<times> bool"

definition planUnique :: "candidatePlan \<Rightarrow> bool option" where
  "planUnique p = map_option (\<lambda>rt. idxUnique (rtDef rt)) (cpIndex p)"

text \<open>
  The cases compare the weight, the number of bounds, the size of the collection, the length of the path
  and uniqueness. When the left plan wins one of the three middle comparisons the result is the right plan
  and \<^verbatim>\<open>false\<close>.
\<close>

definition betterCandidate :: "plan \<Rightarrow> plan \<Rightarrow> plan" where
  "betterCandidate x y =
     (case (x, y) of ((a, aok), (b, bok)) \<Rightarrow>
        if \<not> aok then (b, bok)
        else if \<not> bok then (a, aok)
        else if cpWeight a < cpWeight b then (b, True)
        else if cpWeight b = cpWeight a \<and> (cpOp2 b \<noteq> '''') \<noteq> (cpOp2 a \<noteq> '''') then (b, cpOp2 b \<noteq> '''')
        else if cpWeight b = cpWeight a \<and> cpRNum b \<noteq> cpRNum a then (b, cpRNum b < cpRNum a)
        else if cpWeight b = cpWeight a \<and> cpPathCnt b \<noteq> cpPathCnt a then (b, cpPathCnt b < cpPathCnt a)
        else if cpWeight b = cpWeight a \<and> planUnique b = Some True \<and> planUnique a = Some False then (b, True)
        else (a, True))"

definition isLowerBoundOp :: "string \<Rightarrow> bool" where "isLowerBoundOp op \<longleftrightarrow> op = ''>'' \<or> op = ''>=''"
definition isUpperBoundOp :: "string \<Rightarrow> bool" where "isUpperBoundOp op \<longleftrightarrow> op = ''<'' \<or> op = ''<=''"

definition mergeRangeCandidates :: "plan \<Rightarrow> plan \<Rightarrow> plan" where
  "mergeRangeCandidates x y =
     (case (x, y) of ((a, aok), (b, bok)) \<Rightarrow>
        if \<not> aok \<or> \<not> bok \<or> cpIndex a = None \<or> cpIndex b = None then (noPlan, False)
        else if idxPath (cpIdx a) \<noteq> idxPath (cpIdx b) \<or> idxKind (cpIdx a) \<noteq> idxKind (cpIdx b)
                \<or> idxUnique (cpIdx a) \<noteq> idxUnique (cpIdx b) then (noPlan, False)
        else if \<not> isLowerBoundOp (cpOp a) \<and> \<not> isUpperBoundOp (cpOp a) then (noPlan, False)
        else if \<not> isLowerBoundOp (cpOp b) \<and> \<not> isUpperBoundOp (cpOp b) then (noPlan, False)
        else if isLowerBoundOp (cpOp a) \<and> isLowerBoundOp (cpOp b) \<or> isUpperBoundOp (cpOp a) \<and> isUpperBoundOp (cpOp b)
          then (noPlan, False)
        else let (out, other) = (if isUpperBoundOp (cpOp a) then (b, a) else (a, b))
             in (out\<lparr>cpOp2 := cpOp other, cpValue2 := cpValue other, cpExplain2 := cpExplain other, cpWeight := 75\<rparr>, True))"

section \<open>Comparisons that an index answers\<close>

definition isIndexableOp :: "string \<Rightarrow> bool" where
  "isIndexableOp op \<longleftrightarrow> op \<in> set [''='', ''in'', ''>'', ''>='', ''<'', ''<='', ''prefix'']"

text \<open>The weight and the names of the cursor positions; \<open>None\<close> when the index does not help.\<close>

definition indexOpPlan :: "go_lib \<Rightarrow> indexState \<Rightarrow> string \<Rightarrow> gv \<Rightarrow> int \<Rightarrow> (int \<times> string \<times> string) option" where
  "indexOpPlan L idx op val rnum =
     (if op = ''='' then
        (if normalizeIndexValue L val (idxKind idx) = None then None
         else Some (100, ''IWKV_CURSOR_EQ'', ''IWKV_CURSOR_NEXT''))
      else if op = ''in'' then
        (case toAnySlice val of
           None \<Rightarrow> None
         | Some arr \<Rightarrow>
             if 10 < length arr \<and> (500 < length arr \<or> rnum < int (length arr) * 200) then None
             else if list_ex (\<lambda>it. normalizeIndexValue L it (idxKind idx) \<noteq> None) arr
               then Some (90, ''IWKV_CURSOR_EQ'', ''IWKV_CURSOR_NEXT'')
             else None)
      else if op = ''prefix'' then
        (if idxKind idx \<noteq> IndexString then None
         else case jqPrefixString L (toJQValue L val) of
                None \<Rightarrow> None
              | Some pre \<Rightarrow> if pre = '''' then None else Some (60, ''IWKV_CURSOR_GE'', ''IWKV_CURSOR_NEXT''))
      else if op = ''>'' \<or> op = ''>='' \<or> op = ''<'' \<or> op = ''<='' then
        (if normalizeIndexValue L val (idxKind idx) = None then None
         else if op = ''>'' \<or> op = ''>='' then Some (70, ''IWKV_CURSOR_GE'', ''IWKV_CURSOR_PREV'')
         else Some (50, ''IWKV_CURSOR_GE'', ''IWKV_CURSOR_NEXT''))
      else None)"

definition indexPathTokenCount :: "string \<Rightarrow> nat" where
  "indexPathTokenCount path = (case pointerTokens path of Inl _ \<Rightarrow> 0 | Inr toks \<Rightarrow> length toks)"

fun bestRuntime :: "go_lib \<Rightarrow> collectionState \<Rightarrow> string \<Rightarrow> string \<Rightarrow> gv \<Rightarrow> indexRuntime list \<Rightarrow> plan \<Rightarrow> plan" where
  "bestRuntime L col path op val [] best = best"
| "bestRuntime L col path op val (rt # rts) best =
     bestRuntime L col path op val rts
       (if idxPath (rtDef rt) \<noteq> path then best
        else case indexOpPlan L (rtDef rt) op val (colRNum col) of
               None \<Rightarrow> best
             | Some (weight, cursorInit, cursorStep) \<Rightarrow>
                 betterCandidate best
                   (noPlan\<lparr>cpIndex := Some rt, cpIdx := rtDef rt, cpOp := op, cpValue := val, cpWeight := weight,
                      cpCursorInit := cursorInit, cpCursorStep := cursorStep, cpRNum := colRNum col,
                      cpPathCnt := indexPathTokenCount (idxPath (rtDef rt)),
                      cpExplain := path @ '' '' @ op @ '' '' @ sprint L val\<rparr>, True))"

definition candidateFromComparison :: "go_lib \<Rightarrow> collectionState \<Rightarrow> Query \<Rightarrow> string \<Rightarrow> comparison \<Rightarrow> plan" where
  "candidateFromComparison L col q pathPattern cmp =
     (if \<not> isIndexableOp (cmpOp cmp) then (noPlan, False)
      else if cmpKey cmp \<noteq> ''*'' \<and> cmpKey cmp \<noteq> ''**'' \<and> Contains (cmpKey cmp) ''/'' then (noPlan, False)
      else if cmpKey cmp = ''*'' then (noPlan, False)
      else let path = (if cmpKey cmp \<noteq> ''**'' then pointerJoin pathPattern (cmpKey cmp) else pathPattern)
           in case valueResolve q (cmpValue cmp) of
                Inl _ \<Rightarrow> (noPlan, False)
              | Inr val \<Rightarrow> bestRuntime L col path (cmpOp cmp) val (map snd (colRuntime col)) (noPlan, False))"

definition candidateAnd :: "plan \<Rightarrow> plan \<Rightarrow> plan" where
  "candidateAnd l r =
     (let merged = mergeRangeCandidates l r in if snd merged then merged else betterCandidate l r)"

fun candidateFromExpr :: "go_lib \<Rightarrow> collectionState \<Rightarrow> Query \<Rightarrow> string \<Rightarrow> exprNode \<Rightarrow> plan" where
  "candidateFromExpr L col q pathPattern (exprCmp c) = candidateFromComparison L col q pathPattern c"
| "candidateFromExpr L col q pathPattern (exprAnd a b) =
     candidateAnd (candidateFromExpr L col q pathPattern a) (candidateFromExpr L col q pathPattern b)"
| "candidateFromExpr L col q pathPattern _ = (noPlan, False)"

definition termCandidate :: "go_lib \<Rightarrow> collectionState \<Rightarrow> Query \<Rightarrow> queryFilter \<Rightarrow> plan" where
  "termCandidate L col q f =
     (if qfChain f \<noteq> [] then (noPlan, False)
      else if Contains (qfPathPattern f) ''*'' then (noPlan, False)
      else case qfExpr f of
             None \<Rightarrow> (noPlan, False)
           | Some x \<Rightarrow> candidateFromExpr L col q (qfPathPattern f) x)"

fun filterCandidate :: "go_lib \<Rightarrow> collectionState \<Rightarrow> Query \<Rightarrow> filterNode \<Rightarrow> plan" where
  "filterCandidate L col q (filterAtom f) = termCandidate L col q f"
| "filterCandidate L col q (filterAnd a b) = candidateAnd (filterCandidate L col q a) (filterCandidate L col q b)"
| "filterCandidate L col q (filterOr a b) = (noPlan, False)"
| "filterCandidate L col q (filterNot a) = (noPlan, False)"
| "filterCandidate L col q (filterGroup a) = filterCandidate L col q a"

section \<open>An index for an order\<close>

definition runtimeLess :: "string \<times> indexRuntime \<Rightarrow> string \<times> indexRuntime \<Rightarrow> bool" where
  "runtimeLess x y =
     (case (x, y) of ((k, i), (l, j)) \<Rightarrow>
        let li = rtDef i; lj = rtDef j
        in if idxKind li = idxKind lj then
             (if idxUnique li = idxUnique lj then k < l else idxUnique li \<and> \<not> idxUnique lj)
           else kindText (idxKind li) < kindText (idxKind lj))"

definition findOrderByIndex :: "collectionState \<Rightarrow> string \<Rightarrow> indexRuntime option" where
  "findOrderByIndex col path =
     (case sortBy runtimeLess (filter (\<lambda>(_, rt). idxPath (rtDef rt) = path) (colRuntime col)) of
        [] \<Rightarrow> None
      | (_, rt) # _ \<Rightarrow> Some rt)"

definition chooseOrderByIndexPlan :: "collectionState \<Rightarrow> string \<Rightarrow> bool \<Rightarrow> plan" where
  "chooseOrderByIndexPlan col path desc =
     (case findOrderByIndex col path of
        None \<Rightarrow> (noPlan, False)
      | Some rt \<Rightarrow>
          (noPlan\<lparr>cpIndex := Some rt, cpIdx := rtDef rt, cpWeight := 80, cpExplain := path,
             cpCursorInit := (if desc then ''IWKV_CURSOR_BEFORE_FIRST'' else ''IWKV_CURSOR_AFTER_LAST''),
             cpCursorStep := (if desc then ''IWKV_CURSOR_NEXT'' else ''IWKV_CURSOR_PREV'')\<rparr>, True))"

definition candidatePlanLog :: "candidatePlan \<Rightarrow> bool \<Rightarrow> string" where
  "candidatePlanLog plan orderBy =
     (case cpIndex plan of
        None \<Rightarrow> if orderBy then ''ORDERBY'' else ''''
      | Some rt \<Rightarrow>
          (let kind = (case idxKind (rtDef rt) of IndexString \<Rightarrow> ''STR'' | IndexInt64 \<Rightarrow> ''I64'' | IndexFloat \<Rightarrow> ''F64''
                       | OtherKind s \<Rightarrow> s);
               opt = (\<lambda>pre s post. if s \<noteq> '''' then pre @ s @ post else '''')
           in Join ((if idxUnique (rtDef rt) then [''UNIQUE''] else []) @ [kind]) ''|'' @ '' '' @ idxPath (rtDef rt)
              @ opt ('' EXPR1: '' @ [CHR 0x27]) (cpExplain plan) [CHR 0x27] @ opt ('' EXPR2: '' @ [CHR 0x27]) (cpExplain2 plan) [CHR 0x27]
              @ opt '' INIT: '' (cpCursorInit plan) [] @ opt '' STEP: '' (cpCursorStep plan) []
              @ (if orderBy then '' ORDERBY'' else '''')))"

end
