(* ===== verification/IndexScan.thy ===== *)
theory IndexScan
  imports QueryPlan Engine
begin

text \<open>
  \<^verbatim>\<open>db.go\<close>: the document ids an index delivers for a plan, read from the store. The
  function the ids are handed to carries the variables it captures as a state; \<open>True\<close> asks for more.
\<close>

section \<open>Handing over ids\<close>

type_synonym 's yield = "int64 \<Rightarrow> 's \<Rightarrow> (bool \<times> 's) result"

text \<open>The closure \<^verbatim>\<open>addID\<close>: its state has the set \<^verbatim>\<open>seen\<close>.\<close>

definition addID :: "bool \<Rightarrow> 's yield \<Rightarrow> (int64 set \<times> 's) yield" where
  "addID dedup yield i st =
     (case st of (seen, s) \<Rightarrow>
        if dedup \<and> i \<in> seen then Inr (True, seen, s)
        else case yield i s of
               Inl e \<Rightarrow> Inl e
             | Inr (cont, s) \<Rightarrow> Inr (cont, if dedup then insert i seen else seen, s))"

text \<open>A loop that ends without an error when the consumer wants no more.\<close>

fun emitIDs :: "'s yield \<Rightarrow> int64 list \<Rightarrow> 's \<Rightarrow> 's result" where
  "emitIDs add [] s = Inr s"
| "emitIDs add (i # is) s =
     (case add i s of Inl e \<Rightarrow> Inl e | Inr (cont, s) \<Rightarrow> if cont then emitIDs add is s else Inr s)"

type_synonym indexEntry = "string \<times> int64"

definition entryLess :: "go_lib \<Rightarrow> IndexKind \<Rightarrow> bool \<Rightarrow> indexEntry \<Rightarrow> indexEntry \<Rightarrow> bool" where
  "entryLess L kind desc x y =
     (let cmp = compareIndexKeys L kind (fst x) (fst y)
      in if cmp = 0 then (if desc then sint (snd y) < sint (snd x) else sint (snd x) < sint (snd y))
         else if desc then 0 < cmp else cmp < 0)"

definition sortEntries :: "go_lib \<Rightarrow> indexState \<Rightarrow> bool \<Rightarrow> indexEntry list \<Rightarrow> indexEntry list" where
  "sortEntries L idx desc es = sortBy (entryLess L (idxKind idx) desc) es"

section \<open>Reading entries\<close>

definition decodeEntry :: "indexState \<Rightarrow> bytes \<Rightarrow> bytes \<Rightarrow> indexEntry result" where
  "decodeEntry idx key val =
     (if idxUnique idx then
        (case decodeUniqueIndexKey key of
           None \<Rightarrow> Inl (Coded CodeInvalidQuery)
         | Some (dbid, v) \<Rightarrow>
             if dbid \<noteq> idxDBID idx then Inl (Coded CodeInvalidQuery)
             else case parseU64 val of Inl e \<Rightarrow> Inl e | Inr uid \<Rightarrow> Inr (v, uid))
      else case decodeIndexKey key of
             None \<Rightarrow> Inl (Coded CodeInvalidQuery)
           | Some (dbid, v, i) \<Rightarrow> if dbid \<noteq> idxDBID idx then Inl (Coded CodeInvalidQuery) else Inr (v, i))"

definition indexScanPathPrefix :: "indexState \<Rightarrow> bytes" where
  "indexScanPathPrefix idx = (if idxUnique idx then keyUniqueIndexPathPrefix idx else keyIndexPathPrefix idx)"

definition indexScanValuePrefix :: "indexState \<Rightarrow> string \<Rightarrow> bytes" where
  "indexScanValuePrefix idx v = (if idxUnique idx then keyUniqueIndexValuePrefix idx v else keyIndexValuePrefix idx v)"

text \<open>\<^verbatim>\<open>scanNonUniqueValue\<close> and \<^verbatim>\<open>addUniqueValue\<close>.\<close>

definition scanNonUniqueValue ::
    "go_lib \<Rightarrow> 'e StorageEngine \<Rightarrow> 'e \<Rightarrow> indexState \<Rightarrow> 's yield \<Rightarrow> string \<Rightarrow> 's \<Rightarrow> 's result" where
  "scanNonUniqueValue L eng e idx add v s =
     (case scanPrefix eng e (keyIndexValuePrefix idx v)
             (\<lambda>key _ es.
                case decodeIndexKey key of
                  None \<Rightarrow> Inl (Coded CodeInvalidQuery)
                | Some (dbid, _, i) \<Rightarrow>
                    if dbid \<noteq> idxDBID idx then Inl (Coded CodeInvalidQuery) else Inr (es @ [(v, i)])) [] of
        Inl err \<Rightarrow> Inl err
      | Inr es \<Rightarrow> emitIDs add (map snd (sortEntries L idx False es)) s)"

definition addUniqueValue :: "'e StorageEngine \<Rightarrow> 'e \<Rightarrow> indexState \<Rightarrow> 's yield \<Rightarrow> string \<Rightarrow> 's \<Rightarrow> 's result" where
  "addUniqueValue eng e idx add v s =
     (case engGet eng e (keyUniqueIndex idx v) of
        Inl err \<Rightarrow> if errorIs err ErrNotFound then Inr s else Inl err
      | Inr raw \<Rightarrow>
          (case parseU64 raw of
             Inl err \<Rightarrow> Inl err
           | Inr i \<Rightarrow> (case add i s of Inl err \<Rightarrow> Inl err | Inr (_, s) \<Rightarrow> Inr s)))"

text \<open>
  The iteration of \<^verbatim>\<open>scanOrderedRange\<close>: every entry is decoded and handed over at once. \<open>rev_it\<close> says
  whether the iterator can run backwards, as that of Pebble can.
\<close>

fun rangeLoop :: "indexState \<Rightarrow> 's yield \<Rightarrow> (bytes \<times> bytes) list \<Rightarrow> error option \<Rightarrow> 's \<Rightarrow> 's result" where
  "rangeLoop idx add [] err s = (case err of None \<Rightarrow> Inr s | Some e \<Rightarrow> Inl e)"
| "rangeLoop idx add ((k, v) # es) err s =
     (case decodeEntry idx k v of
        Inl e \<Rightarrow> Inl e
      | Inr (_, i) \<Rightarrow>
          (case add i s of Inl e \<Rightarrow> Inl e | Inr (cont, s) \<Rightarrow> if cont then rangeLoop idx add es err s else Inr s))"

fun decodeEntries :: "indexState \<Rightarrow> (bytes \<times> bytes) list \<Rightarrow> indexEntry list result" where
  "decodeEntries idx [] = Inr []"
| "decodeEntries idx ((k, v) # es) =
     (case decodeEntry idx k v of
        Inl e \<Rightarrow> Inl e
      | Inr x \<Rightarrow> (case decodeEntries idx es of Inl e \<Rightarrow> Inl e | Inr xs \<Rightarrow> Inr (x # xs)))"

definition scanOrderedRange ::
    "go_lib \<Rightarrow> 'e StorageEngine \<Rightarrow> bool \<Rightarrow> 'e \<Rightarrow> indexState \<Rightarrow> 's yield \<Rightarrow> bytes \<Rightarrow> bytes \<Rightarrow> bool \<Rightarrow> 's \<Rightarrow> 's result" where
  "scanOrderedRange L eng rev_it e idx add lower upper desc s =
     (if lower \<noteq> [] \<and> upper \<noteq> [] \<and> upper \<le> lower then Inr s
      else case engIter eng e lower upper of
             (es, err) \<Rightarrow>
               if desc \<and> rev_it then rangeLoop idx add (rev es) err s
               else if desc then
                 (case decodeEntries idx es of
                    Inl x \<Rightarrow> Inl x
                  | Inr xs \<Rightarrow>
                      (case err of
                         Some x \<Rightarrow> Inl x
                       | None \<Rightarrow> emitIDs add (map snd (sortEntries L idx True xs)) s))
               else rangeLoop idx add es err s)"

text \<open>\<^verbatim>\<open>scanPath\<close>: all entries of the index whose value passes a test, then sorted.\<close>

definition scanPath ::
    "go_lib \<Rightarrow> 'e StorageEngine \<Rightarrow> 'e \<Rightarrow> indexState \<Rightarrow> 's yield \<Rightarrow> (string \<Rightarrow> bool) \<Rightarrow> bool \<Rightarrow> 's \<Rightarrow> 's result" where
  "scanPath L eng e idx add matches desc s =
     (case scanPrefix eng e (indexScanPathPrefix idx)
             (\<lambda>key val es.
                if idxUnique idx then
                  (case decodeUniqueIndexKey key of
                     None \<Rightarrow> Inl (Coded CodeInvalidQuery)
                   | Some (dbid, v) \<Rightarrow>
                       if dbid \<noteq> idxDBID idx then Inl (Coded CodeInvalidQuery)
                       else if \<not> matches v then Inr es
                       else case parseU64 val of Inl err \<Rightarrow> Inl err | Inr i \<Rightarrow> Inr (es @ [(v, i)]))
                else case decodeIndexKey key of
                       None \<Rightarrow> Inl (Coded CodeInvalidQuery)
                     | Some (dbid, v, i) \<Rightarrow>
                         if dbid \<noteq> idxDBID idx then Inl (Coded CodeInvalidQuery)
                         else Inr (if matches v then es @ [(v, i)] else es)) [] of
        Inl err \<Rightarrow> Inl err
      | Inr es \<Rightarrow> emitIDs add (map snd (sortEntries L idx desc es)) s)"

section \<open>Ranges\<close>

definition rangeTest :: "string \<Rightarrow> int \<Rightarrow> bool" where
  "rangeTest op cmp \<longleftrightarrow>
     op = ''>'' \<and> 0 < cmp \<or> op = ''>='' \<and> 0 \<le> cmp \<or> op = ''<'' \<and> cmp < 0 \<or> op = ''<='' \<and> cmp \<le> 0"

definition matchRange :: "go_lib \<Rightarrow> IndexKind \<Rightarrow> candidatePlan \<Rightarrow> string \<Rightarrow> string \<Rightarrow> string \<Rightarrow> bool" where
  "matchRange L kind plan bound bound2 v \<longleftrightarrow>
     rangeTest (cpOp plan) (compareIndexKeys L kind v bound)
     \<and> (cpOp2 plan = '''' \<or> rangeTest (cpOp2 plan) (compareIndexKeys L kind v bound2))"

text \<open>The two sides of a range: the value and whether it is included, if the side is set.\<close>

type_synonym rangeSide = "(string \<times> bool) option"

definition addSide :: "string \<Rightarrow> string \<Rightarrow> rangeSide \<times> rangeSide \<Rightarrow> (rangeSide \<times> rangeSide) option" where
  "addSide op v st =
     (case st of (lower, upper) \<Rightarrow>
        if op = ''>'' then Some (Some (v, False), upper)
        else if op = ''>='' then Some (Some (v, True), upper)
        else if op = ''<'' then Some (lower, Some (v, False))
        else if op = ''<='' then Some (lower, Some (v, True))
        else None)"

definition indexRangeKeyBounds :: "indexState \<Rightarrow> candidatePlan \<Rightarrow> string \<Rightarrow> string \<Rightarrow> (bytes \<times> bytes) option" where
  "indexRangeKeyBounds idx plan bound bound2 =
     (case addSide (cpOp plan) bound (None, None) of
        None \<Rightarrow> None
      | Some sides \<Rightarrow>
          (case (if cpOp2 plan \<noteq> '''' then addSide (cpOp2 plan) bound2 sides else Some sides) of
             None \<Rightarrow> None
           | Some (lower, upper) \<Rightarrow>
               (let lowerKey = (case lower of
                                  Some (v, incl) \<Rightarrow> if incl then indexScanValuePrefix idx v else prefixEnd (indexScanValuePrefix idx v)
                                | None \<Rightarrow> indexScanPathPrefix idx);
                    upperKey = (case upper of
                                  Some (v, incl) \<Rightarrow> if incl then prefixEnd (indexScanValuePrefix idx v) else indexScanValuePrefix idx v
                                | None \<Rightarrow> prefixEnd (indexScanPathPrefix idx))
                in if lowerKey \<noteq> [] \<and> upperKey \<noteq> [] \<and> upperKey < lowerKey then None
                   else Some (lowerKey, upperKey))))"

section \<open>The scan of a plan\<close>

fun scanEach :: "('a \<Rightarrow> 's \<Rightarrow> 's result) \<Rightarrow> 'a list \<Rightarrow> 's \<Rightarrow> 's result" where
  "scanEach f [] s = Inr s"
| "scanEach f (x # xs) s = (case f x s of Inl e \<Rightarrow> Inl e | Inr s \<Rightarrow> scanEach f xs s)"

definition numericKind :: "IndexKind \<Rightarrow> bool" where
  "numericKind kind \<longleftrightarrow> kind = IndexInt64 \<or> kind = IndexFloat"

definition scanValue :: "go_lib \<Rightarrow> 'e StorageEngine \<Rightarrow> 'e \<Rightarrow> indexState \<Rightarrow> 's yield \<Rightarrow> string \<Rightarrow> 's \<Rightarrow> 's result" where
  "scanValue L eng e idx add v s =
     (if idxUnique idx then addUniqueValue eng e idx add v s else scanNonUniqueValue L eng e idx add v s)"

text \<open>The cases \<^verbatim>\<open>>\<close>, \<^verbatim>\<open>>=\<close>, \<^verbatim>\<open><\<close> and \<^verbatim>\<open><=\<close>.\<close>

definition scanRange ::
    "go_lib \<Rightarrow> 'e StorageEngine \<Rightarrow> bool \<Rightarrow> 'e \<Rightarrow> indexState \<Rightarrow> candidatePlan \<Rightarrow> bool \<Rightarrow> 's yield \<Rightarrow> 's \<Rightarrow> 's result" where
  "scanRange L eng rev_it e idx plan desc add s =
     (case normalizeIndexValue L (cpValue plan) (idxKind idx) of
        None \<Rightarrow> Inr s
      | Some bound \<Rightarrow>
          (case (if cpOp2 plan \<noteq> '''' then normalizeIndexValue L (cpValue2 plan) (idxKind idx) else Some '''') of
             None \<Rightarrow> Inr s
           | Some bound2 \<Rightarrow>
               (let valueDesc = (desc \<or> cpOp2 plan = '''' \<and> (cpOp plan = ''<'' \<or> cpOp plan = ''<=''))
                in if numericKind (idxKind idx) then
                     (case indexRangeKeyBounds idx plan bound bound2 of
                        None \<Rightarrow> Inr s
                      | Some (lower, upper) \<Rightarrow> scanOrderedRange L eng rev_it e idx add lower upper valueDesc s)
                   else scanPath L eng e idx add (matchRange L (idxKind idx) plan bound bound2) valueDesc s)))"

text \<open>The switch on the operator of the plan.\<close>

definition scanPlan ::
    "go_lib \<Rightarrow> 'e StorageEngine \<Rightarrow> bool \<Rightarrow> 'e \<Rightarrow> indexState \<Rightarrow> candidatePlan \<Rightarrow> bool \<Rightarrow> 's yield \<Rightarrow> 's \<Rightarrow> 's result" where
  "scanPlan L eng rev_it e idx plan desc add s =
     (let op = cpOp plan
      in if op = '''' then
           (if numericKind (idxKind idx) then
              scanOrderedRange L eng rev_it e idx add (indexScanPathPrefix idx) (prefixEnd (indexScanPathPrefix idx)) desc s
            else scanPath L eng e idx add (\<lambda>_. True) desc s)
         else if op = ''='' then
           (case normalizeIndexValue L (cpValue plan) (idxKind idx) of
              None \<Rightarrow> Inr s
            | Some v \<Rightarrow> scanValue L eng e idx add v s)
         else if op = ''in'' then
           (case toAnySlice (cpValue plan) of
              None \<Rightarrow> Inr s
            | Some arr \<Rightarrow>
                scanEach (\<lambda>it s. case normalizeIndexValue L it (idxKind idx) of
                                   None \<Rightarrow> Inr s
                                 | Some v \<Rightarrow> scanValue L eng e idx add v s) arr s)
         else if op = ''prefix'' then
           (case jqPrefixString L (toJQValue L (cpValue plan)) of
              None \<Rightarrow> Inr s
            | Some pre \<Rightarrow> scanPath L eng e idx add (\<lambda>v. HasPrefix v pre) desc s)
         else if op = ''>'' \<or> op = ''>='' \<or> op = ''<'' \<or> op = ''<='' then
           scanRange L eng rev_it e idx plan desc add s
         else Inr s)"

definition scanIndexCandidateIDsFunc ::
    "go_lib \<Rightarrow> 'e StorageEngine \<Rightarrow> bool \<Rightarrow> 'e \<Rightarrow> candidatePlan \<Rightarrow> bool \<Rightarrow> 's yield \<Rightarrow> 's \<Rightarrow> 's result" where
  "scanIndexCandidateIDsFunc L eng rev_it e plan desc yield s =
     (case cpIndex plan of
        None \<Rightarrow> Inr s
      | Some rt \<Rightarrow>
          (let idx = (if idxPath (cpIdx plan) = '''' then rtDef rt else cpIdx plan)
           in case scanPlan L eng rev_it e idx plan desc (addID (cpOp plan \<noteq> ''in'') yield) ({}, s) of
                Inl err \<Rightarrow> Inl err
              | Inr (_, s) \<Rightarrow> Inr s))"

definition scanIndexCandidateIDs ::
    "go_lib \<Rightarrow> 'e StorageEngine \<Rightarrow> bool \<Rightarrow> 'e \<Rightarrow> candidatePlan \<Rightarrow> bool \<Rightarrow> int64 list result" where
  "scanIndexCandidateIDs L eng rev_it e plan desc =
     scanIndexCandidateIDsFunc L eng rev_it e plan desc (\<lambda>i out. Inr (True, out @ [i])) []"

end
