(* ===== verification/Store.thy ===== *)
theory Store
  imports Pointer
begin

text \<open>
  The functions of \<^verbatim>\<open>pointer.go\<close> on values in memory. A Go map and the array behind a slice are cells of a store, and a
  value refers to them by address, so that two values may share a container and a change through one shows in the
  other. The definitions of \<open>Pointer\<close> are these functions on values that share nothing (\<open>StoreRefine\<close>).
\<close>

section \<open>Values in memory\<close>

text \<open>
  A value is a scalar, a map, or a slice: the address of its array and its length. Every slice here starts at the first
  element of its array. A cell is a map or an array with its spare capacity.
\<close>

datatype hv = HVal gv | HMap nat | HArr nat nat

datatype cell = MapCell "(string \<times> hv) list" | ArrCell "hv list"

type_synonym store = "cell list"

abbreviation hnil :: hv where "hnil \<equiv> HVal VNil"

fun addrOf :: "hv \<Rightarrow> nat option" where
  "addrOf (HVal v) = None"
| "addrOf (HMap a) = Some a"
| "addrOf (HArr a n) = Some a"

definition mapAt :: "store \<Rightarrow> nat \<Rightarrow> (string \<times> hv) list" where
  "mapAt st a = (case st ! a of MapCell kvs \<Rightarrow> kvs | ArrCell xs \<Rightarrow> [])"

definition arrAt :: "store \<Rightarrow> nat \<Rightarrow> hv list" where
  "arrAt st a = (case st ! a of MapCell kvs \<Rightarrow> [] | ArrCell xs \<Rightarrow> xs)"

text \<open>\<^verbatim>\<open>immediateChildren\<close>.\<close>

fun hChildren :: "store \<Rightarrow> hv \<Rightarrow> hv list" where
  "hChildren st (HVal v) = []"
| "hChildren st (HMap a) = map snd (mapAt st a)"
| "hChildren st (HArr a n) = take n (arrAt st a)"

section \<open>Loading and reading\<close>

text \<open>
  The run-time library chooses the spare capacity of a slice that was grown element by element to a given length: by the
  reader of JSON, by the generic decoder behind \<^verbatim>\<open>cloneAny\<close>, and by one \<^verbatim>\<open>append\<close> to a full slice.
\<close>

record go_caps =
  capRead :: "nat \<Rightarrow> nat"
  capClone :: "nat \<Rightarrow> nat"
  capGrow :: "nat \<Rightarrow> nat"

text \<open>A decoder puts every container of its result into a new cell.\<close>

fun loadVal :: "(nat \<Rightarrow> nat) \<Rightarrow> gv \<Rightarrow> store \<Rightarrow> hv \<times> store"
  and loadVals :: "(nat \<Rightarrow> nat) \<Rightarrow> gv list \<Rightarrow> store \<Rightarrow> hv list \<times> store"
  and loadKvs :: "(nat \<Rightarrow> nat) \<Rightarrow> (string \<times> gv) list \<Rightarrow> store \<Rightarrow> (string \<times> hv) list \<times> store" where
  "loadVal cap (VArray vs) st =
     (case loadVals cap vs st of (hs, st) \<Rightarrow>
        (HArr (length st) (length hs), st @ [ArrCell (hs @ replicate (cap (length hs)) hnil)]))"
| "loadVal cap (VObject kvs) st = (case loadKvs cap kvs st of (hs, st) \<Rightarrow> (HMap (length st), st @ [MapCell hs]))"
| "loadVal cap v st = (HVal v, st)"
| "loadVals cap [] st = ([], st)"
| "loadVals cap (v # vs) st =
     (case loadVal cap v st of (h, st) \<Rightarrow> (case loadVals cap vs st of (hs, st) \<Rightarrow> (h # hs, st)))"
| "loadKvs cap [] st = ([], st)"
| "loadKvs cap ((k, v) # kvs) st =
     (case loadVal cap v st of (h, st) \<Rightarrow> (case loadKvs cap kvs st of (hs, st) \<Rightarrow> ((k, h) # hs, st)))"

text \<open>Reading a value back, to a nesting depth; a value that contains itself has none.\<close>

fun optAll :: "('a \<Rightarrow> 'b option) \<Rightarrow> 'a list \<Rightarrow> 'b list option" where
  "optAll f [] = Some []"
| "optAll f (x # xs) = (case f x of None \<Rightarrow> None | Some y \<Rightarrow> (case optAll f xs of None \<Rightarrow> None | Some ys \<Rightarrow> Some (y # ys)))"

primrec readVal :: "nat \<Rightarrow> store \<Rightarrow> hv \<Rightarrow> gv option" where
  "readVal 0 st h = (case h of HVal v \<Rightarrow> Some v | _ \<Rightarrow> None)"
| "readVal (Suc n) st h =
     (case h of
        HVal v \<Rightarrow> Some v
      | HMap a \<Rightarrow> map_option (\<lambda>vs. VObject (zip (map fst (mapAt st a)) vs)) (optAll (readVal n st) (hChildren st h))
      | HArr a m \<Rightarrow> map_option VArray (optAll (readVal n st) (hChildren st h)))"

text \<open>Without a cycle no path is longer than the number of cells.\<close>

definition readAll :: "store \<Rightarrow> hv \<Rightarrow> gv option" where
  "readAll st h = readVal (length st) st h"

section \<open>Lookup and update\<close>

fun hGetAt :: "store \<Rightarrow> hv \<Rightarrow> string list \<Rightarrow> hv option" where
  "hGetAt st cur [] = Some cur"
| "hGetAt st cur (t # ts) =
     (case cur of
        HMap a \<Rightarrow> (case map_of (mapAt st a) t of None \<Rightarrow> None | Some n \<Rightarrow> hGetAt st n ts)
      | HArr a n \<Rightarrow> (case indexIn t n of None \<Rightarrow> None | Some i \<Rightarrow> hGetAt st (arrAt st a ! i) ts)
      | HVal v \<Rightarrow> None)"

definition hPointerGet :: "store \<Rightarrow> hv \<Rightarrow> string \<Rightarrow> hv option" where
  "hPointerGet st doc ptr = (case pointerTokens ptr of Inl _ \<Rightarrow> None | Inr tokens \<Rightarrow> hGetAt st doc tokens)"

text \<open>\<^verbatim>\<open>append\<close> of one element: in place when the array has room, into a new array otherwise.\<close>

definition hAppend :: "(nat \<Rightarrow> nat) \<Rightarrow> store \<Rightarrow> nat \<Rightarrow> nat \<Rightarrow> hv \<Rightarrow> hv \<times> store" where
  "hAppend grow st a n x =
     (if n < length (arrAt st a) then (HArr a (n + 1), st[a := ArrCell ((arrAt st a)[n := x])])
      else (HArr (length st) (n + 1), st @ [ArrCell (arrAt st a @ x # replicate (grow (n + 1)) hnil)]))"

definition hInsert :: "(nat \<Rightarrow> nat) \<Rightarrow> store \<Rightarrow> nat \<Rightarrow> nat \<Rightarrow> nat \<Rightarrow> hv \<Rightarrow> hv \<times> store" where
  "hInsert grow st a n idx x =
     (case hAppend grow st a n hnil of
        (HArr b m, st) \<Rightarrow>
          (HArr b m, st[b := ArrCell (insertAt idx x (take n (arrAt st b)) @ drop (n + 1) (arrAt st b))])
      | r \<Rightarrow> r)"

definition hSetLeaf :: "(nat \<Rightarrow> nat) \<Rightarrow> store \<Rightarrow> hv \<Rightarrow> string \<Rightarrow> hv \<Rightarrow> bool \<Rightarrow> bool \<Rightarrow> hv result \<times> store" where
  "hSetLeaf grow st cur t val allowLeafCreate arrayInsert =
     (case cur of
        HMap a \<Rightarrow>
          if map_of (mapAt st a) t = None \<and> \<not> allowLeafCreate then (Inl ErrNotFound, st)
          else (Inr cur, st[a := MapCell (objSet t val (mapAt st a))])
      | HArr a n \<Rightarrow>
          if t = ''-'' \<and> allowLeafCreate \<and> arrayInsert then apfst Inr (hAppend grow st a n val)
          else (case Atoi t of
                  None \<Rightarrow> (Inl ErrNotFound, st)
                | Some i \<Rightarrow>
                    if i < 0 then (Inl ErrNotFound, st)
                    else let idx = nat i in
                         if allowLeafCreate \<and> arrayInsert then
                           (if n < idx then (Inl ErrNotFound, st) else apfst Inr (hInsert grow st a n idx val))
                         else if idx = n \<and> allowLeafCreate then apfst Inr (hAppend grow st a n val)
                         else if n \<le> idx then (Inl ErrNotFound, st)
                         else (Inr cur, st[a := ArrCell ((arrAt st a)[idx := val])]))
      | HVal v \<Rightarrow> (Inl ErrNotFound, st))"

fun hSetAt :: "(nat \<Rightarrow> nat) \<Rightarrow> store \<Rightarrow> hv \<Rightarrow> string list \<Rightarrow> hv \<Rightarrow> bool \<Rightarrow> bool \<Rightarrow> bool \<Rightarrow> hv result \<times> store" where
  "hSetAt grow st cur [] val createParents allowLeafCreate arrayInsert = (Inr val, st)"
| "hSetAt grow st cur (t # ts) val createParents allowLeafCreate arrayInsert =
     (if ts = [] then hSetLeaf grow st cur t val allowLeafCreate arrayInsert
      else case cur of
             HMap a \<Rightarrow>
               (case (case map_of (mapAt st a) t of
                        None \<Rightarrow> if createParents then Some (HMap (length st), st @ [MapCell []]) else None
                      | Some n \<Rightarrow> Some (n, st)) of
                  None \<Rightarrow> (Inl ErrNotFound, st)
                | Some (n, st) \<Rightarrow>
                    (case hSetAt grow st n ts val createParents allowLeafCreate arrayInsert of
                       (Inl e, st) \<Rightarrow> (Inl e, st)
                     | (Inr updated, st) \<Rightarrow> (Inr cur, st[a := MapCell (objSet t updated (mapAt st a))])))
           | HArr a n \<Rightarrow>
               (case indexIn t n of
                  None \<Rightarrow> (Inl ErrNotFound, st)
                | Some idx \<Rightarrow>
                    (case hSetAt grow st (arrAt st a ! idx) ts val createParents allowLeafCreate arrayInsert of
                       (Inl e, st) \<Rightarrow> (Inl e, st)
                     | (Inr updated, st) \<Rightarrow> (Inr cur, st[a := ArrCell ((arrAt st a)[idx := updated])])))
           | HVal v \<Rightarrow> (Inl ErrNotFound, st))"

text \<open>The callers drop the value \<^verbatim>\<open>setAt\<close> returns and keep the one they had.\<close>

definition hPointerSetMode ::
    "(nat \<Rightarrow> nat) \<Rightarrow> store \<Rightarrow> hv \<Rightarrow> string \<Rightarrow> hv \<Rightarrow> bool \<Rightarrow> bool \<Rightarrow> bool \<Rightarrow> unit result \<times> store" where
  "hPointerSetMode grow st doc ptr val createParents allowLeafCreate arrayInsert =
     (case pointerTokens ptr of
        Inl e \<Rightarrow> (Inl e, st)
      | Inr tokens \<Rightarrow>
          if tokens = [] then (Inl (Plain ''cannot replace document root with pointerSet''), st)
          else case hSetAt grow st doc tokens val createParents allowLeafCreate arrayInsert of
                 (Inl e, st) \<Rightarrow> (Inl e, st)
               | (Inr _, st) \<Rightarrow> (Inr (), st))"

definition hPointerSet :: "(nat \<Rightarrow> nat) \<Rightarrow> store \<Rightarrow> hv \<Rightarrow> string \<Rightarrow> hv \<Rightarrow> bool \<Rightarrow> unit result \<times> store" where
  "hPointerSet grow st doc ptr val createMissing = hPointerSetMode grow st doc ptr val createMissing createMissing False"

section \<open>Removal\<close>

text \<open>
  \<^verbatim>\<open>append(v[:idx], v[idx+1:]...)\<close> shifts the elements in the array of \<^verbatim>\<open>v\<close> and returns a shorter slice; the last
  element stays in the array.
\<close>

definition shiftDown :: "nat \<Rightarrow> nat \<Rightarrow> 'a list \<Rightarrow> 'a list" where
  "shiftDown idx n xs = removeIdx idx (take n xs) @ drop (n - 1) xs"

fun hRemoveAt :: "store \<Rightarrow> hv \<Rightarrow> string list \<Rightarrow> hv result \<times> store" where
  "hRemoveAt st cur [] = (Inr cur, st)"
| "hRemoveAt st cur (t # ts) =
     (case cur of
        HMap a \<Rightarrow>
          (case map_of (mapAt st a) t of
             None \<Rightarrow> (Inl ErrNotFound, st)
           | Some n \<Rightarrow>
               if ts = [] then (Inr cur, st[a := MapCell (objDel t (mapAt st a))])
               else case hRemoveAt st n ts of
                      (Inl e, st) \<Rightarrow> (Inl e, st)
                    | (Inr updated, st) \<Rightarrow> (Inr cur, st[a := MapCell (objSet t updated (mapAt st a))]))
      | HArr a n \<Rightarrow>
          (case indexIn t n of
             None \<Rightarrow> (Inl ErrNotFound, st)
           | Some idx \<Rightarrow>
               if ts = [] then (Inr (HArr a (n - 1)), st[a := ArrCell (shiftDown idx n (arrAt st a))])
               else case hRemoveAt st (arrAt st a ! idx) ts of
                      (Inl e, st) \<Rightarrow> (Inl e, st)
                    | (Inr updated, st) \<Rightarrow> (Inr cur, st[a := ArrCell ((arrAt st a)[idx := updated])]))
      | HVal v \<Rightarrow> (Inl ErrNotFound, st))"

definition hPointerRemove :: "store \<Rightarrow> hv \<Rightarrow> string \<Rightarrow> unit result \<times> store" where
  "hPointerRemove st doc ptr =
     (case pointerTokens ptr of
        Inl e \<Rightarrow> (Inl e, st)
      | Inr tokens \<Rightarrow>
          if tokens = [] then (Inl (Plain ''cannot remove root''), st)
          else case hRemoveAt st doc tokens of (Inl e, st) \<Rightarrow> (Inl e, st) | (Inr _, st) \<Rightarrow> (Inr (), st))"

text \<open>
  After the wildcards have emptied a map, and have set every element of an array to nil, the loop over the children finds
  none it could change.
\<close>

fun hRemovePatternLeaf :: "store \<Rightarrow> hv \<Rightarrow> string \<Rightarrow> store" where
  "hRemovePatternLeaf st (HMap a) t =
     st[a := MapCell (if t = ''*'' \<or> t = ''**'' then [] else objDel t (mapAt st a))]"
| "hRemovePatternLeaf st (HArr a n) t =
     (if t = ''*'' \<or> t = ''**'' then st[a := ArrCell (replicate n hnil @ drop n (arrAt st a))]
      else case indexIn t n of
             None \<Rightarrow> st
           | Some idx \<Rightarrow> st[a := ArrCell (removeIdx idx (take n (arrAt st a)) @ hnil # drop n (arrAt st a))])"
| "hRemovePatternLeaf st (HVal v) t = st"

text \<open>A loop over values that changes the store.\<close>

fun foldStore :: "(hv \<Rightarrow> store \<Rightarrow> store option) \<Rightarrow> hv list \<Rightarrow> store \<Rightarrow> store option" where
  "foldStore f [] st = Some st"
| "foldStore f (h # hs) st = (case f h st of None \<Rightarrow> None | Some st \<Rightarrow> foldStore f hs st)"

text \<open>
  The token \<^verbatim>\<open>**\<close> goes down the value as it is after the rest of the pattern was removed from it. The first argument bounds
  the depth; in a value that contains itself the recursion would not end, which is the result \<open>None\<close>.
\<close>

fun hDeep :: "nat \<Rightarrow> (hv \<Rightarrow> store \<Rightarrow> store option) \<Rightarrow> hv \<Rightarrow> store \<Rightarrow> store option" where
  "hDeep n f cur st =
     (case f cur st of
        None \<Rightarrow> None
      | Some st \<Rightarrow>
          (case n of
             0 \<Rightarrow> if hChildren st cur = [] then Some st else None
           | Suc m \<Rightarrow> foldStore (hDeep m f) (hChildren st cur) st))"

declare hDeep.simps [simp del]

fun hRemovePatternAt :: "string list \<Rightarrow> hv \<Rightarrow> store \<Rightarrow> store option" where
  "hRemovePatternAt [] cur st = Some st"
| "hRemovePatternAt (t # ts) cur st =
     (if ts = [] then Some (hRemovePatternLeaf st cur t)
      else if t = ''*'' then foldStore (hRemovePatternAt ts) (hChildren st cur) st
      else if t = ''**'' then hDeep (length st) (hRemovePatternAt ts) cur st
      else case cur of
             HMap a \<Rightarrow> (case map_of (mapAt st a) t of None \<Rightarrow> Some st | Some child \<Rightarrow> hRemovePatternAt ts child st)
           | HArr a n \<Rightarrow> (case indexIn t n of None \<Rightarrow> Some st | Some idx \<Rightarrow> hRemovePatternAt ts (arrAt st a ! idx) st)
           | HVal v \<Rightarrow> Some st)"

definition hPointerRemovePattern :: "store \<Rightarrow> hv \<Rightarrow> string \<Rightarrow> (unit result \<times> store) option" where
  "hPointerRemovePattern st doc ptr =
     (case pointerTokens ptr of
        Inl e \<Rightarrow> Some (Inl e, st)
      | Inr tokens \<Rightarrow>
          if tokens = [] then Some (Inl (Plain ''cannot remove root''), st)
          else map_option (Pair (Inr ())) (hRemovePatternAt tokens doc st))"

end
