(* ===== verification/QueryExec.thy ===== *)
theory QueryExec
  imports IndexScan Db Store
begin

text \<open>
  \<^verbatim>\<open>db.go\<close>: the execution of a query: the documents it looks at, sorting with a spill file, the window, the
  actions, the projection and the visitor. Sorting is written as an insertion sort by the comparison the
  code hands to \<^verbatim>\<open>sort.Slice\<close>.
\<close>

section \<open>Documents, options and the temporary file\<close>

record Document =
  docID :: int64
  docRaw :: bytes

datatype queryMode = modeList | modeCount | modeExec | modeUpdate

text \<open>The visitor returns an error or the step, and carries its own state; \<open>eoLog\<close> is whether a log is given.\<close>

record 'v ExecOptions =
  eoSkip :: int64
  eoLimit :: int64
  eoVisitor :: "(Document \<Rightarrow> 'v \<Rightarrow> (int64 \<times> 'v) result) option"
  eoLog :: bool

record matchedDoc =
  mdId :: int64
  mdRaw :: bytes
  mdNode :: gv
  mdSortValues :: "gv list"
  mdSpillOffset :: nat
  mdSpillSize :: nat

text \<open>
  The temporary file is its contents. Creating it, writing to it and reading from it can fail; reading
  takes the contents, an offset and a size.
\<close>

record spill_io =
  spCreate :: "error option"
  spWrite :: "bytes \<Rightarrow> bytes \<Rightarrow> error option"
  spRead :: "bytes \<Rightarrow> nat \<Rightarrow> nat \<Rightarrow> bytes result"

text \<open>
  What a query uses beside the environment of the database: whether the iterators of the engine run
  backwards, the size of the sort buffer, the temporary file, and the spare capacity of slices.
\<close>

record 'e queryEnv =
  qeEnv :: "'e env"
  qeReverse :: bool
  qeSortBuffer :: int
  qeSpill :: spill_io
  qeCaps :: go_caps

abbreviation qeLib :: "'e queryEnv \<Rightarrow> go_lib" where "qeLib Q \<equiv> envLib (qeEnv Q)"
abbreviation qeJson :: "'e queryEnv \<Rightarrow> json_lib" where "qeJson Q \<equiv> envJson (qeEnv Q)"
abbreviation qeEng :: "'e queryEnv \<Rightarrow> 'e StorageEngine" where "qeEng Q \<equiv> envEng (qeEnv Q)"

definition spillWrite :: "spill_io \<Rightarrow> bytes \<Rightarrow> bytes \<Rightarrow> (nat \<times> nat \<times> bytes) result" where
  "spillWrite S file raw =
     (case spWrite S file raw of
        Some e \<Rightarrow> Inl e
      | None \<Rightarrow> Inr (length file, length raw, file @ raw))"

fun spillMatchedDocs :: "spill_io \<Rightarrow> bytes \<Rightarrow> matchedDoc list \<Rightarrow> (bytes \<times> matchedDoc list) result" where
  "spillMatchedDocs S file [] = Inr (file, [])"
| "spillMatchedDocs S file (d # ds) =
     (if mdRaw d = [] \<or> 0 < mdSpillSize d then
        (case spillMatchedDocs S file ds of Inl e \<Rightarrow> Inl e | Inr (file, ds) \<Rightarrow> Inr (file, d # ds))
      else case spillWrite S file (mdRaw d) of
             Inl e \<Rightarrow> Inl e
           | Inr (off, sz, file) \<Rightarrow>
               (case spillMatchedDocs S file ds of
                  Inl e \<Rightarrow> Inl e
                | Inr (file, ds) \<Rightarrow>
                    Inr (file, d\<lparr>mdSpillOffset := off, mdSpillSize := sz, mdRaw := [], mdNode := VNil\<rparr> # ds)))"

definition hydrateDoc :: "json_lib \<Rightarrow> spill_io \<Rightarrow> bytes \<Rightarrow> matchedDoc \<Rightarrow> matchedDoc result" where
  "hydrateDoc J S file d =
     (case (if mdRaw d = [] \<and> 0 < mdSpillSize d
            then (case spRead S file (mdSpillOffset d) (mdSpillSize d) of Inl e \<Rightarrow> Inl e | Inr raw \<Rightarrow> Inr (d\<lparr>mdRaw := raw\<rparr>))
            else Inr d) of
        Inl e \<Rightarrow> Inl e
      | Inr d \<Rightarrow>
          if mdNode d = VNil \<and> mdRaw d \<noteq> [] then
            (case decodeJSON J (mdRaw d) of Inl e \<Rightarrow> Inl e | Inr node \<Rightarrow> Inr (d\<lparr>mdNode := node\<rparr>))
          else Inr d)"

fun hydrateMatchedDocs :: "json_lib \<Rightarrow> spill_io \<Rightarrow> bytes \<Rightarrow> matchedDoc list \<Rightarrow> matchedDoc list result" where
  "hydrateMatchedDocs J S file [] = Inr []"
| "hydrateMatchedDocs J S file (d # ds) =
     (case hydrateDoc J S file d of
        Inl e \<Rightarrow> Inl e
      | Inr d \<Rightarrow> (case hydrateMatchedDocs J S file ds of Inl e \<Rightarrow> Inl e | Inr ds \<Rightarrow> Inr (d # ds)))"

section \<open>Documents to look at\<close>

definition canUseStorageQuery :: "'e DB \<Rightarrow> bool" where
  "canUseStorageQuery db \<longleftrightarrow> dbPending db = [] \<and> \<not> dbDirtyFull db"

definition docForQuery :: "'e env \<Rightarrow> 'e DB \<Rightarrow> collectionState \<Rightarrow> string \<Rightarrow> int64 \<Rightarrow> (bytes \<times> gv) option result" where
  "docForQuery E db col coll i =
     (case pendingDocState (dbPending db) coll i of
        PendingDeleted \<Rightarrow> Inr None
      | PendingDoc raw doc \<Rightarrow>
          (case mutationDoc E raw doc of Inl e \<Rightarrow> Inl e | Inr doc \<Rightarrow> Inr (Some (raw, doc)))
      | NotPending \<Rightarrow>
          (case engGet (envEng E) (dbEngine db) (keyDoc (colDBID col) i) of
             Inl err \<Rightarrow> if errorIs err ErrNotFound then Inr None else Inl err
           | Inr stored \<Rightarrow> (case decodeStored E stored of Inl e \<Rightarrow> Inl e | Inr rd \<Rightarrow> Inr (Some rd))))"

text \<open>
  \<^verbatim>\<open>scanDocumentIDs\<close>: the stored ids, then the ids of the pending puts that are new, without every id that
  some pending mutation deletes.
\<close>

definition scanDocumentIDs :: "'e env \<Rightarrow> 'e DB \<Rightarrow> collectionState \<Rightarrow> int64 list result" where
  "scanDocumentIDs E db col =
     (case scanPrefix (envEng E) (dbEngine db) (keyDocPrefix (colDBID col))
             (\<lambda>key _ ids.
                case decodeDocKey key of
                  None \<Rightarrow> Inl (Coded CodeInvalidQuery)
                | Some (_, i) \<Rightarrow> Inr (ids @ [i])) [] of
        Inl e \<Rightarrow> Inl e
      | Inr ids \<Rightarrow>
          (let pend = filter (\<lambda>m. mCollection m = colName col) (dbPending db);
               ids = fold (\<lambda>m ids. if mKind m = mutationPut \<and> mId m \<notin> set ids then ids @ [mId m] else ids) pend ids;
               deleted = map mId (filter (\<lambda>m. mKind m = mutationDelete) pend)
           in Inr (filter (\<lambda>i. i \<notin> set deleted) ids)))"

text \<open>A document that matches the filter, with its text and its decoded form.\<close>

definition matchDoc :: "'e queryEnv \<Rightarrow> 'e DB \<Rightarrow> collectionState \<Rightarrow> Query \<Rightarrow> int64 \<Rightarrow> (bytes \<times> gv) option result" where
  "matchDoc Q db col q i =
     (case docForQuery (qeEnv Q) db col (qCollection q) i of
        Inl e \<Rightarrow> Inl e
      | Inr None \<Rightarrow> Inr None
      | Inr (Some (raw, node)) \<Rightarrow>
          (case filterMatch (qeLib Q) (qeJson Q) (pqFilter (qParsed q)) node i q of
             Inl e \<Rightarrow> Inl e
           | Inr m \<Rightarrow> Inr (if m then Some (raw, node) else None)))"

section \<open>Collecting\<close>

definition sortValue :: "gv \<Rightarrow> string \<Rightarrow> gv" where
  "sortValue node path = (case pointerGet node path of None \<Rightarrow> VNil | Some v \<Rightarrow> v)"

definition mkMatched :: "int64 \<Rightarrow> bytes \<Rightarrow> gv \<Rightarrow> gv list \<Rightarrow> matchedDoc" where
  "mkMatched i raw node vals =
     \<lparr>mdId = i, mdRaw = raw, mdNode = node, mdSortValues = vals, mdSpillOffset = 0, mdSpillSize = 0\<rparr>"

record collectState =
  csDocs :: "matchedDoc list"
  csBuffered :: int
  csFile :: "bytes option"

text \<open>The closure \<^verbatim>\<open>addMatchedDoc\<close>.\<close>

definition spillDocs :: "'e queryEnv \<Rightarrow> collectState \<Rightarrow> collectState result" where
  "spillDocs Q st =
     (case (case csFile st of
              Some file \<Rightarrow> Inr file
            | None \<Rightarrow> (case spCreate (qeSpill Q) of Some e \<Rightarrow> Inl e | None \<Rightarrow> Inr [])) of
        Inl e \<Rightarrow> Inl e
      | Inr file \<Rightarrow>
          (case spillMatchedDocs (qeSpill Q) file (csDocs st) of
             Inl e \<Rightarrow> Inl e
           | Inr (file, docs) \<Rightarrow> Inr \<lparr>csDocs = docs, csBuffered = 0, csFile = Some file\<rparr>))"

definition addMatchedDoc ::
    "'e queryEnv \<Rightarrow> 'e DB \<Rightarrow> collectionState \<Rightarrow> Query \<Rightarrow> string list \<Rightarrow> bool \<Rightarrow> int64 \<Rightarrow> collectState \<Rightarrow> collectState result" where
  "addMatchedDoc Q db col q sortPaths willSort i st =
     (case matchDoc Q db col q i of
        Inl e \<Rightarrow> Inl e
      | Inr None \<Rightarrow> Inr st
      | Inr (Some (raw, node)) \<Rightarrow>
          (let m = mkMatched i raw node (if willSort then map (sortValue node) sortPaths else []);
               st = st\<lparr>csDocs := csDocs st @ [m], csBuffered := (if willSort then csBuffered st + int (length raw) else csBuffered st)\<rparr>
           in if willSort \<and> qeSortBuffer Q < csBuffered st then spillDocs Q st else Inr st))"

text \<open>The function given to the scan when the index delivers the documents in order.\<close>

definition streamDoc ::
    "'e queryEnv \<Rightarrow> 'e DB \<Rightarrow> collectionState \<Rightarrow> Query \<Rightarrow> int \<Rightarrow> int \<Rightarrow> (matchedDoc list \<times> int) yield" where
  "streamDoc Q db col q skip limit i st =
     (case st of (docs, skipped) \<Rightarrow>
        if 0 \<le> limit \<and> limit \<le> int (length docs) then Inr (False, st)
        else case matchDoc Q db col q i of
               Inl e \<Rightarrow> Inl e
             | Inr None \<Rightarrow> Inr (True, st)
             | Inr (Some (raw, node)) \<Rightarrow>
                 if skipped < skip then Inr (True, docs, skipped + 1)
                 else let docs = docs @ [mkMatched i raw node []]
                      in Inr (\<not> (0 \<le> limit \<and> limit \<le> int (length docs)), docs, skipped))"

section \<open>Order and window\<close>

fun sortLess :: "go_lib \<Rightarrow> bool list \<Rightarrow> gv list \<Rightarrow> gv list \<Rightarrow> bool option" where
  "sortLess L (desc # descs) (lv # lvs) (rv # rvs) =
     (let cmp = genericCmp L lv rv
      in if cmp = 0 then sortLess L descs lvs rvs else Some (if desc then 0 < cmp else cmp < 0))"
| "sortLess L descs lvs rvs = None"

definition docLess :: "go_lib \<Rightarrow> bool list \<Rightarrow> matchedDoc \<Rightarrow> matchedDoc \<Rightarrow> bool" where
  "docLess L descs li lj =
     (case sortLess L descs (mdSortValues li) (mdSortValues lj) of
        Some b \<Rightarrow> b
      | None \<Rightarrow> if hd descs then sint (mdId lj) < sint (mdId li) else sint (mdId li) < sint (mdId lj))"

definition orderDocs :: "go_lib \<Rightarrow> parsedQuery \<Rightarrow> bool \<Rightarrow> bool \<Rightarrow> matchedDoc list \<Rightarrow> matchedDoc list" where
  "orderDocs L pq usedIndex usedOrderIndex docs =
     (if usedOrderIndex then docs
      else if pqSorts pq \<noteq> [] then sortBy (docLess L (map qsDesc (pqSorts pq))) docs
      else let docs = (if usedIndex then docs else sortBy (\<lambda>a b. sint (mdId b) < sint (mdId a)) docs)
           in if pqInverse pq then rev docs else docs)"

text \<open>
  The window of the result. The sum \<^verbatim>\<open>start+limit\<close> is that of 64-bit integers; when it wraps around, the slice
  expression panics.
\<close>

definition windowDocs :: "bool \<Rightarrow> int \<Rightarrow> int \<Rightarrow> 'a list \<Rightarrow> 'a list result" where
  "windowDocs streamed skip limit docs =
     (if streamed then Inr docs
      else let len = int (length docs);
               start = (if len < skip then len else skip);
               stop = sint (of_int (start + limit) :: int64);
               fin = (if 0 \<le> limit \<and> stop < len then stop else len)
           in if fin < start then Inl panic else Inr (take (nat (fin - start)) (drop (nat start) docs)))"

definition resolveIntOption :: "Query \<Rightarrow> int \<Rightarrow> placeholderRef option \<Rightarrow> int result" where
  "resolveIntOption q literal ph =
     (case ph of
        None \<Rightarrow> Inr literal
      | Some p \<Rightarrow>
          (case resolvePlaceholder q p of
             Inl e \<Rightarrow> Inl e
           | Inr v \<Rightarrow>
               (case toInt64 v of
                  None \<Rightarrow> Inl (Coded CodeInvalidPlaceholder)
                | Some n \<Rightarrow> if sint n < 0 then Inl (Coded CodeInvalidPlaceholder) else Inr (sint n))))"

section \<open>Actions\<close>

text \<open>The collection a pointer of the query refers to, as the mutations so far left it.\<close>

definition currentCol :: "collectionState \<Rightarrow> 'e DB \<Rightarrow> collectionState" where
  "currentCol col db = (case map_of (collections db) (colName col) of Some c \<Rightarrow> c | None \<Rightarrow> col)"

fun deleteDocs :: "'e env \<Rightarrow> collectionState \<Rightarrow> matchedDoc list \<Rightarrow> 'e DB \<Rightarrow> 'e DB" where
  "deleteDocs E col [] db = db"
| "deleteDocs E col (m # ms) db =
     deleteDocs E col ms (deleteLocked E (currentCol col db) (mdId m) (mdRaw m) (mdNode m) db)"

fun patchDocs :: "'e env \<Rightarrow> collectionState \<Rightarrow> gv \<Rightarrow> matchedDoc list \<Rightarrow> 'e DB \<Rightarrow> unit result \<times> 'e DB" where
  "patchDocs E col payload [] db = (Inr (), db)"
| "patchDocs E col payload (m # ms) db =
     (case applyPatchPayload (envLib E) (envJson E) (envRoom E (mdRaw m)) (mdRaw m) payload of
        Inl e \<Rightarrow> (Inl e, db)
      | Inr patched \<Rightarrow>
          (case putLocked E (currentCol col db) (mdId m) patched db of
             (Inl e, db) \<Rightarrow> (Inl e, db)
           | (Inr _, db) \<Rightarrow> patchDocs E col payload ms db))"

text \<open>The insertion of \<^verbatim>\<open>upsert\<close>: the next id is taken back when the put fails.\<close>

definition upsertNew :: "'e env \<Rightarrow> collectionState \<Rightarrow> gv \<Rightarrow> 'e DB \<Rightarrow> int result \<times> 'e DB" where
  "upsertNew E col payload db =
     (case marshalJSON (envJson E) payload of
        Inl e \<Rightarrow> (Inl e, db)
      | Inr raw \<Rightarrow>
          (let col = (currentCol col db)\<lparr>colNextID := colNextID (currentCol col db) + 1\<rparr>
           in case putLocked E col (colNextID col) raw (setCol col db) of
                (Inl e, db) \<Rightarrow> (Inl e, setCol ((currentCol col db)\<lparr>colNextID := colNextID (currentCol col db) - 1\<rparr>) db)
              | (Inr _, db) \<Rightarrow> (Inr 1, db)))"

definition applyActionLocked :: "'e env \<Rightarrow> collectionState \<Rightarrow> Query \<Rightarrow> matchedDoc list \<Rightarrow> 'e DB \<Rightarrow> int result \<times> 'e DB" where
  "applyActionLocked E col q window db =
     (let pq = qParsed q; n = int (length window)
      in case pqAction pq of
           actionNone \<Rightarrow> (Inr 0, db)
         | actionDelete \<Rightarrow> (Inr n, deleteDocs E col window db)
         | actionApply \<Rightarrow>
             (case valueResolve q (pqActionArg pq) of
                Inl e \<Rightarrow> (Inl e, db)
              | Inr payload \<Rightarrow>
                  (case patchDocs E col payload window db of (Inl e, db) \<Rightarrow> (Inl e, db) | (Inr _, db) \<Rightarrow> (Inr n, db)))
         | actionUpsert \<Rightarrow>
             (case valueResolve q (pqActionArg pq) of
                Inl e \<Rightarrow> (Inl e, db)
              | Inr payload \<Rightarrow>
                  if window = [] then upsertNew E col payload db
                  else case patchDocs E col payload window db of (Inl e, db) \<Rightarrow> (Inl e, db) | (Inr _, db) \<Rightarrow> (Inr n, db)))"

section \<open>Projection\<close>

text \<open>\<^verbatim>\<open>joinValueLocked\<close> reads stored documents only.\<close>

definition joinOne :: "'e env \<Rightarrow> 'e DB \<Rightarrow> collectionState \<Rightarrow> int64 \<Rightarrow> gv result" where
  "joinOne E db c i =
     (case getDocNode E (dbEngine db) (Some c) i of
        Inl err \<Rightarrow> if errorIs err ErrNotFound then Inr VNil else Inl err
      | Inr (_, out) \<Rightarrow> Inr out)"

fun joinMany :: "'e env \<Rightarrow> 'e DB \<Rightarrow> collectionState \<Rightarrow> gv list \<Rightarrow> gv list result" where
  "joinMany E db c [] = Inr []"
| "joinMany E db c (v # vs) =
     (case toInt64 v of
        None \<Rightarrow> joinMany E db c vs
      | Some i \<Rightarrow>
          (case joinOne E db c i of
             Inl e \<Rightarrow> Inl e
           | Inr j \<Rightarrow>
               (case joinMany E db c vs of Inl e \<Rightarrow> Inl e | Inr js \<Rightarrow> Inr (if j \<noteq> VNil then j # js else js))))"

definition joinValueLocked :: "'e env \<Rightarrow> 'e DB \<Rightarrow> dbState \<Rightarrow> string \<Rightarrow> gv \<Rightarrow> gv result" where
  "joinValueLocked E db st coll v =
     (case map_of (stCollections st) coll of
        None \<Rightarrow> Inr VNil
      | Some c \<Rightarrow>
          (case v of
             VArray x \<Rightarrow> (case joinMany E db c x of Inl e \<Rightarrow> Inl e | Inr js \<Rightarrow> Inr (VArray js))
           | _ \<Rightarrow> (case toInt64 v of None \<Rightarrow> Inr VNil | Some i \<Rightarrow> joinOne E db c i)))"

text \<open>
  The terms of a projection. An included value that is not joined is put into the result without a copy: the result and
  the source share it, and a later term that changes the one changes the other. So the terms run on values in memory.
  A joined document is read from the store anew. The result \<open>None\<close> stands for a run that does not end; \<open>projection_returns\<close>
  shows that there is none.
\<close>

definition loadJoined :: "gv \<Rightarrow> gv \<Rightarrow> store \<Rightarrow> hv \<times> store" where
  "loadJoined v j st =
     (case (v, j) of
        (VArray xs, VArray js) \<Rightarrow>
          (case loadVals (\<lambda>_. 0) js st of (hs, st) \<Rightarrow>
             (HArr (length st) (length hs), st @ [ArrCell (hs @ replicate (length xs - length hs) hnil)]))
      | _ \<Rightarrow> loadVal (\<lambda>_. 0) j st)"

definition projValue ::
    "'e env \<Rightarrow> 'e DB \<Rightarrow> dbState \<Rightarrow> string \<Rightarrow> hv \<Rightarrow> store \<Rightarrow> (hv result \<times> store) option" where
  "projValue E db dst join v st =
     (if join = '''' then Some (Inr v, st)
      else case readAll st v of
             None \<Rightarrow> None
           | Some g \<Rightarrow>
               (case joinValueLocked E db dst join g of
                  Inl e \<Rightarrow> Some (Inl e, st)
                | Inr j \<Rightarrow> Some (apfst Inr (loadJoined g j st))))"

text \<open>\<^verbatim>\<open>out\<close> becomes an empty object when it is none.\<close>

definition projObject :: "hv \<Rightarrow> store \<Rightarrow> hv \<times> store" where
  "projObject out st = (case out of HMap a \<Rightarrow> (out, st) | _ \<Rightarrow> (HMap (length st), st @ [MapCell []]))"

definition projInclude ::
    "'e queryEnv \<Rightarrow> 'e DB \<Rightarrow> dbState \<Rightarrow> hv \<Rightarrow> string \<Rightarrow> string \<Rightarrow> hv \<times> store \<Rightarrow> (hv \<times> store) result option" where
  "projInclude Q db dst src path join acc =
     (case acc of (out, st) \<Rightarrow>
        (case hPointerGet st src path of
           None \<Rightarrow> Some (Inr (out, st))
         | Some v \<Rightarrow>
             (case projValue (qeEnv Q) db dst join v st of
                None \<Rightarrow> None
              | Some (Inl e, st) \<Rightarrow> Some (Inl e)
              | Some (Inr v, st) \<Rightarrow>
                  (case projObject out st of (out, st) \<Rightarrow>
                     (case hPointerSet (capGrow (qeCaps Q)) st out path v True of
                        (Inl e, st) \<Rightarrow> Some (Inl e)
                      | (Inr _, st) \<Rightarrow> Some (Inr (out, st)))))))"

text \<open>The error of a removal is dropped.\<close>

definition projExclude :: "string \<Rightarrow> hv \<times> store \<Rightarrow> (hv \<times> store) option" where
  "projExclude path acc =
     (case acc of (out, st) \<Rightarrow>
        if Contains path ''*'' then map_option (\<lambda>r. (out, snd r)) (hPointerRemovePattern st out path)
        else Some (out, snd (hPointerRemove st out path)))"

fun projTerms ::
    "'e queryEnv \<Rightarrow> 'e DB \<Rightarrow> dbState \<Rightarrow> Query \<Rightarrow> hv \<Rightarrow> bool \<Rightarrow> projectionTerm list \<Rightarrow> hv \<times> store \<Rightarrow> gv result option" where
  "projTerms Q db dst q src first [] acc = map_option Inr (readAll (snd acc) (fst acc))"
| "projTerms Q db dst q src first (t # ts) acc =
     (if ptAll t then
        (if ptInclude t then
           (if first then
              (case readAll (snd acc) src of
                 None \<Rightarrow> None
               | Some v \<Rightarrow>
                   (case cloneAny (qeJson Q) v of
                      Inl e \<Rightarrow> Some (Inl e)
                    | Inr cl \<Rightarrow> projTerms Q db dst q src False ts (loadVal (capClone (qeCaps Q)) cl (snd acc))))
            else projTerms Q db dst q src False ts acc)
         else projTerms Q db dst q src False ts (HMap (length (snd acc)), snd acc @ [MapCell []]))
      else case pathResolve q (ptPath t) of
             Inl e \<Rightarrow> Some (Inl e)
           | Inr path \<Rightarrow>
               if ptInclude t then
                 (case projInclude Q db dst src path (ptJoin t) acc of
                    None \<Rightarrow> None
                  | Some (Inl e) \<Rightarrow> Some (Inl e)
                  | Some (Inr acc) \<Rightarrow> projTerms Q db dst q src False ts acc)
               else (case projExclude path acc of
                       None \<Rightarrow> None
                     | Some acc \<Rightarrow> projTerms Q db dst q src False ts acc))"

definition applyProjectionLocked ::
    "'e queryEnv \<Rightarrow> 'e DB \<Rightarrow> dbState \<Rightarrow> Query \<Rightarrow> bytes \<Rightarrow> projectionSpec \<Rightarrow> bytes result" where
  "applyProjectionLocked Q db dst q raw spec =
     (case decodeJSON (qeJson Q) raw of
        Inl e \<Rightarrow> Inl e
      | Inr v \<Rightarrow>
          (case loadVal (capRead (qeCaps Q)) v [] of (src, st) \<Rightarrow>
             (case the (projTerms Q db dst q src True (psTerms spec) (HMap (length st), st @ [MapCell []])) of
                Inl e \<Rightarrow> Inl e
              | Inr out \<Rightarrow> marshalJSON (qeJson Q) out)))"

section \<open>Running a query\<close>

fun sortPathsOf :: "Query \<Rightarrow> querySort list \<Rightarrow> string list result" where
  "sortPathsOf q [] = Inr []"
| "sortPathsOf q (s # ss) =
     (case sortResolve q s of
        Inl e \<Rightarrow> Inl e
      | Inr path \<Rightarrow> (case sortPathsOf q ss of Inl e \<Rightarrow> Inl e | Inr paths \<Rightarrow> Inr (path # paths)))"

text \<open>The index plan of a query, and whether it delivers the documents in the order asked for.\<close>

definition planQuery :: "'e queryEnv \<Rightarrow> 'e DB \<Rightarrow> collectionState \<Rightarrow> Query \<Rightarrow> string list \<Rightarrow> (candidatePlan \<times> bool) option" where
  "planQuery Q db col q sortPaths =
     (if pqNoidx (qParsed q) \<or> \<not> canUseStorageQuery db \<or> dbPending db \<noteq> [] then None
      else case filterCandidate (qeLib Q) col q (pqFilter (qParsed q)) of
             (plan, True) \<Rightarrow> Some (plan, length sortPaths = 1 \<and> idxPath (cpIdx plan) = hd sortPaths)
           | (_, False) \<Rightarrow>
               if length sortPaths = 1 then
                 (case chooseOrderByIndexPlan col (hd sortPaths) (qsDesc (hd (pqSorts (qParsed q)))) of
                    (plan, True) \<Rightarrow> Some (plan, True)
                  | (_, False) \<Rightarrow> None)
               else None)"

definition collectMatched ::
    "'e queryEnv \<Rightarrow> 'e DB \<Rightarrow> collectionState \<Rightarrow> Query \<Rightarrow> string list \<Rightarrow> int \<Rightarrow> int \<Rightarrow> (candidatePlan \<times> bool) option
       \<Rightarrow> (matchedDoc list \<times> bytes option) result" where
  "collectMatched Q db col q sortPaths skip limit plan =
     (if plan \<noteq> None \<and> snd (the plan) then
        (if limit = 0 then Inr ([], None)
         else case scanIndexCandidateIDsFunc (qeLib Q) (qeEng Q) (qeReverse Q) (dbEngine db) (fst (the plan))
                     (qsDesc (hd (pqSorts (qParsed q)))) (streamDoc Q db col q skip limit) ([], 0) of
                Inl e \<Rightarrow> Inl e
              | Inr (docs, _) \<Rightarrow> Inr (docs, None))
      else case (case plan of
                   Some (p, _) \<Rightarrow> scanIndexCandidateIDs (qeLib Q) (qeEng Q) (qeReverse Q) (dbEngine db) p False
                 | None \<Rightarrow> scanDocumentIDs (qeEnv Q) db col) of
             Inl e \<Rightarrow> Inl e
           | Inr ids \<Rightarrow>
               (case scanEach (addMatchedDoc Q db col q sortPaths (sortPaths \<noteq> [])) ids
                       \<lparr>csDocs = [], csBuffered = 0, csFile = None\<rparr> of
                  Inl e \<Rightarrow> Inl e
                | Inr st \<Rightarrow> Inr (csDocs st, csFile st)))"

definition queryLog :: "(candidatePlan \<times> bool) option \<Rightarrow> string list \<Rightarrow> bool \<Rightarrow> string list" where
  "queryLog plan sortPaths spilled =
     (case plan of
        None \<Rightarrow> []
      | Some (p, order) \<Rightarrow>
          [''[INDEX] MATCHED  '' @ candidatePlanLog p order, ''[INDEX] SELECTED '' @ candidatePlanLog p order])
     @ [if sortPaths \<noteq> [] \<and> \<not> (plan \<noteq> None \<and> snd (the plan)) then ''[COLLECTOR] SORTER'' else ''[COLLECTOR] PLAIN'']
     @ (if spilled then [''[SORTER] OVERFLOW''] else [])"

text \<open>The window of matched documents of a query, and what is written to the log.\<close>

definition matchWindow ::
    "'e queryEnv \<Rightarrow> 'e DB \<Rightarrow> collectionState \<Rightarrow> Query \<Rightarrow> int \<Rightarrow> int \<Rightarrow> string list \<Rightarrow> (matchedDoc list \<times> string list) result" where
  "matchWindow Q db col q skip limit sortPaths =
     (let plan = planQuery Q db col q sortPaths; order = (plan \<noteq> None \<and> snd (the plan))
      in case collectMatched Q db col q sortPaths skip limit plan of
           Inl e \<Rightarrow> Inl e
         | Inr (docs, file) \<Rightarrow>
             (case windowDocs order skip limit (orderDocs (qeLib Q) (qParsed q) (plan \<noteq> None) order docs) of
                Inl e \<Rightarrow> Inl e
              | Inr window \<Rightarrow>
                  (case (case file of None \<Rightarrow> Inr window | Some f \<Rightarrow> hydrateMatchedDocs (qeJson Q) (qeSpill Q) f window) of
                     Inl e \<Rightarrow> Inl e
                   | Inr window \<Rightarrow> Inr (window, queryLog plan sortPaths (file \<noteq> None)))))"

fun resultDocs :: "'e queryEnv \<Rightarrow> 'e DB \<Rightarrow> dbState \<Rightarrow> Query \<Rightarrow> matchedDoc list \<Rightarrow> Document list result" where
  "resultDocs Q db st q [] = Inr []"
| "resultDocs Q db st q (m # ms) =
     (if mdRaw m = [] then resultDocs Q db st q ms
      else case (case pqProjection (qParsed q) of
                   None \<Rightarrow> Inr (mdRaw m)
                 | Some spec \<Rightarrow> applyProjectionLocked Q db st q (mdRaw m) spec) of
             Inl e \<Rightarrow> Inl e
           | Inr raw \<Rightarrow>
               (case resultDocs Q db st q ms of Inl e \<Rightarrow> Inl e | Inr ds \<Rightarrow> Inr (\<lparr>docID = mdId m, docRaw = raw\<rparr> # ds)))"

record queryResult =
  qrDocs :: "Document list"
  qrCount :: int
  qrChanged :: bool
  qrLog :: "string list"

text \<open>The options skip and limit of the call take precedence over those of the query.\<close>

definition intOption :: "Query \<Rightarrow> int \<Rightarrow> placeholderRef option \<Rightarrow> int64 \<Rightarrow> int result" where
  "intOption q literal ph opt =
     (case resolveIntOption q literal ph of Inl e \<Rightarrow> Inl e | Inr n \<Rightarrow> Inr (if 0 < sint opt then sint opt else n))"

text \<open>
  \<^verbatim>\<open>runQueryLocked\<close> on the collection it found, without the visitor. The documents are returned for the modes that hand
  them on; an error after an action leaves the mutations of the action pending.
\<close>

definition runOnCollection ::
    "'e queryEnv \<Rightarrow> Query \<Rightarrow> queryMode \<Rightarrow> 'v ExecOptions \<Rightarrow> collectionState \<Rightarrow> dbState \<Rightarrow> 'e DB \<Rightarrow> queryResult result \<times> 'e DB" where
  "runOnCollection Q q mode opts col st db =
     (let pq = qParsed q
      in case sortPathsOf q (pqSorts pq) of
           Inl e \<Rightarrow> (Inl e, db)
         | Inr sortPaths \<Rightarrow>
      (case intOption q (pqSkip pq) (pqSkipPH pq) (eoSkip opts) of
         Inl e \<Rightarrow> (Inl e, db)
       | Inr skip \<Rightarrow>
      (case intOption q (pqLimit pq) (pqLimitPH pq) (eoLimit opts) of
         Inl e \<Rightarrow> (Inl e, db)
       | Inr limit \<Rightarrow>
      (case matchWindow Q db col q skip limit sortPaths of
         Inl e \<Rightarrow> (Inl e, db)
       | Inr (window, logs) \<Rightarrow>
      (case (if mode = modeUpdate \<or> (mode = modeExec \<or> mode = modeList) \<and> pqAction pq \<noteq> actionNone
             then applyActionLocked (qeEnv Q) col q window db else (Inr 0, db)) of
         (Inl e, db) \<Rightarrow> (Inl e, db)
       | (Inr affected, db) \<Rightarrow>
           (let res = (\<lambda>docs n. (Inr \<lparr>qrDocs = docs, qrCount = n, qrChanged = 0 < affected,
                                   qrLog = (if eoLog opts then logs else [])\<rparr>, db))
            in if pqCount pq then
                 res [] (if pqAction pq \<noteq> actionNone \<or> mode = modeUpdate then affected else int (length window))
               else case resultDocs Q db st q window of
                      Inl e \<Rightarrow> (Inl e, db)
                    | Inr docs \<Rightarrow>
                        if mode = modeCount then res [] (int (length docs))
                        else if mode = modeUpdate then res [] affected
                        else res docs (int (length docs))))))))"

definition emptyResult :: queryResult where
  "emptyResult = \<lparr>qrDocs = [], qrCount = 0, qrChanged = False, qrLog = []\<rparr>"

text \<open>
  The state a query runs on is that of the database object, or the clone of a read transaction. The collection
  that \<^verbatim>\<open>upsert\<close> makes is put into the state of the database object.
\<close>

definition runQueryLocked ::
    "'e queryEnv \<Rightarrow> dbState \<Rightarrow> Query \<Rightarrow> queryMode \<Rightarrow> 'v ExecOptions \<Rightarrow> 'e DB \<Rightarrow> queryResult result \<times> 'e DB" where
  "runQueryLocked Q st q mode opts db =
     (case map_of (stCollections st) (qCollection q) of
        Some col \<Rightarrow> runOnCollection Q q mode opts col st db
      | None \<Rightarrow>
          if mode = modeUpdate \<and> pqAction (qParsed q) = actionUpsert then
            (case ensureCollectionLocked (qCollection q) db of (col, db) \<Rightarrow> runOnCollection Q q mode opts col (dbSt db) db)
          else (Inr emptyResult, db))"

text \<open>The loop over the visitor, which may never end: a step of -1 visits the same document again.\<close>

partial_function (option) visitLoop ::
    "(Document \<Rightarrow> 'v \<Rightarrow> (int64 \<times> 'v) result) \<Rightarrow> Document list \<Rightarrow> int \<Rightarrow> 'v \<Rightarrow> 'v result option" where
  "visitLoop f docs i v =
     (if int (length docs) \<le> i then Some (Inr v)
      else case f (docs ! nat i) v of
             Inl e \<Rightarrow> Some (Inl e)
           | Inr (step, v) \<Rightarrow>
               if step = 0 then Some (Inr v)
               else let j = sint (of_int (if sint step < 0 then i + (sint step + 1) else i + sint step) :: int64)
                    in if j < 0 \<or> int (length docs) \<le> j then Some (Inr v) else visitLoop f docs j v)"

section \<open>The operations of the database\<close>

definition noOptions :: "int64 \<Rightarrow> unit ExecOptions" where
  "noOptions limit = \<lparr>eoSkip = 0, eoLimit = limit, eoVisitor = None, eoLog = False\<rparr>"

text \<open>A result that changed something is committed first.\<close>

definition commitChanged :: "'e env \<Rightarrow> (queryResult \<Rightarrow> 'a) \<Rightarrow> queryResult result \<times> 'e DB \<Rightarrow> 'a result \<times> 'e DB" where
  "commitChanged E f r =
     (case r of
        (Inl e, db) \<Rightarrow> (Inl e, db)
      | (Inr res, db) \<Rightarrow>
          if qrChanged res then
            (case commitLocked E db of (Inl e, db) \<Rightarrow> (Inl e, db) | (Inr _, db) \<Rightarrow> (Inr (f res), db))
          else (Inr (f res), db))"

text \<open>
  \<^verbatim>\<open>Exec\<close>: the visitor runs after the action and before the commit; its state is part of the result, and no
  result means that it never ends. A query that changes nothing leaves nothing to commit.
\<close>

definition DB_Exec ::
    "'e queryEnv \<Rightarrow> Query \<Rightarrow> 'v ExecOptions \<Rightarrow> 'v \<Rightarrow> 'e DB \<Rightarrow> ((int \<times> 'v) result \<times> 'e DB) option" where
  "DB_Exec Q q opts v db =
     (if dbClosed db then Some (Inl ErrClosed, db)
      else case runQueryLocked Q (dbSt db) q modeExec opts db of
             (Inl e, db) \<Rightarrow> Some (Inl e, db)
           | (Inr res, db) \<Rightarrow>
               (case (case eoVisitor opts of None \<Rightarrow> Some (Inr v) | Some f \<Rightarrow> visitLoop f (qrDocs res) 0 v) of
                  None \<Rightarrow> None
                | Some (Inl e) \<Rightarrow> Some (Inl e, db)
                | Some (Inr v) \<Rightarrow> Some (commitChanged (qeEnv Q) (\<lambda>res. (qrCount res, v)) (Inr res, db))))"

definition DB_ListQuery :: "'e queryEnv \<Rightarrow> Query \<Rightarrow> int64 \<Rightarrow> 'e DB \<Rightarrow> Document list result \<times> 'e DB" where
  "DB_ListQuery Q q limit db =
     (if dbClosed db then (Inl ErrClosed, db)
      else commitChanged (qeEnv Q) qrDocs (runQueryLocked Q (dbSt db) q modeList (noOptions limit) db))"

definition DB_Count :: "'e queryEnv \<Rightarrow> Query \<Rightarrow> int64 \<Rightarrow> 'e DB \<Rightarrow> int result \<times> 'e DB" where
  "DB_Count Q q limit db =
     (if dbClosed db then (Inl ErrClosed, db)
      else case runQueryLocked Q (dbSt db) q modeCount (noOptions limit) db of
             (Inl e, db) \<Rightarrow> (Inl e, db)
           | (Inr res, db) \<Rightarrow> (Inr (qrCount res), db))"

definition DB_UpdateQuery :: "'e queryEnv \<Rightarrow> Query \<Rightarrow> int64 \<Rightarrow> 'e DB \<Rightarrow> int result \<times> 'e DB" where
  "DB_UpdateQuery Q q limit db =
     (if pqAction (qParsed q) = actionNone then (Inl (Coded CodeInvalidQuery), db)
      else if dbClosed db then (Inl ErrClosed, db)
      else commitChanged (qeEnv Q) qrCount (runQueryLocked Q (dbSt db) q modeUpdate (noOptions limit) db))"

section \<open>The operations of a transaction\<close>

text \<open>The state is the clone of a read transaction, or that of the database object.\<close>

definition Tx_Exec ::
    "'e queryEnv \<Rightarrow> bool \<Rightarrow> dbState \<Rightarrow> Query \<Rightarrow> 'v ExecOptions \<Rightarrow> 'v \<Rightarrow> 'e DB \<Rightarrow> ((int \<times> 'v) result \<times> 'e DB) option" where
  "Tx_Exec Q write st q opts v db =
     (if pqAction (qParsed q) \<noteq> actionNone \<and> \<not> write then Some (Inl ErrReadOnlyTx, db)
      else case runQueryLocked Q st q modeExec opts db of
             (Inl e, db) \<Rightarrow> Some (Inl e, db)
           | (Inr res, db) \<Rightarrow>
               (case (case eoVisitor opts of None \<Rightarrow> Some (Inr v) | Some f \<Rightarrow> visitLoop f (qrDocs res) 0 v) of
                  None \<Rightarrow> None
                | Some (Inl e) \<Rightarrow> Some (Inl e, db)
                | Some (Inr v) \<Rightarrow> Some (Inr (qrCount res, v), db)))"

definition resultOf :: "(queryResult \<Rightarrow> 'a) \<Rightarrow> queryResult result \<times> 'e DB \<Rightarrow> 'a result \<times> 'e DB" where
  "resultOf f r = (case r of (Inl e, db) \<Rightarrow> (Inl e, db) | (Inr res, db) \<Rightarrow> (Inr (f res), db))"

definition Tx_ListQuery :: "'e queryEnv \<Rightarrow> bool \<Rightarrow> dbState \<Rightarrow> Query \<Rightarrow> int64 \<Rightarrow> 'e DB \<Rightarrow> Document list result \<times> 'e DB" where
  "Tx_ListQuery Q write st q limit db =
     (if pqAction (qParsed q) \<noteq> actionNone \<and> \<not> write then (Inl ErrReadOnlyTx, db)
      else resultOf qrDocs (runQueryLocked Q st q modeList (noOptions limit) db))"

definition Tx_Count :: "'e queryEnv \<Rightarrow> dbState \<Rightarrow> Query \<Rightarrow> int64 \<Rightarrow> 'e DB \<Rightarrow> int result \<times> 'e DB" where
  "Tx_Count Q st q limit db = resultOf qrCount (runQueryLocked Q st q modeCount (noOptions limit) db)"

definition Tx_UpdateQuery :: "'e queryEnv \<Rightarrow> bool \<Rightarrow> dbState \<Rightarrow> Query \<Rightarrow> int64 \<Rightarrow> 'e DB \<Rightarrow> int result \<times> 'e DB" where
  "Tx_UpdateQuery Q write st q limit db =
     (if \<not> write then (Inl ErrReadOnlyTx, db)
      else if pqAction (qParsed q) = actionNone then (Inl (Coded CodeInvalidQuery), db)
      else resultOf qrCount (runQueryLocked Q st q modeUpdate (noOptions limit) db))"

end
