(* ===== verification/TxProps.thy ===== *)
theory TxProps
  imports ApiProps QueryExec
begin

text \<open>
  Transactions against the abstract map: a transaction works on the documents as its own mutations leave
  them, commits all of them or none, and rolls back completely; and what a failed call leaves alone.
\<close>

section \<open>Steps of a write transaction\<close>

text \<open>The operations of a write transaction on documents, as events with the effect they have on the abstract map.\<close>

fun txStep :: "'e env \<Rightarrow> apiEvent \<Rightarrow> 'e DB \<Rightarrow> 'e DB \<Rightarrow> bool" where
  "txStep E (EEnsureCollection n) db db' \<longleftrightarrow> Tx_EnsureCollection True n db = (Inr (), db')"
| "txStep E (EPutNew n raw i) db db' \<longleftrightarrow> Tx_PutNew E True n raw db = (Inr i, db')"
| "txStep E (EPut n i raw) db db' \<longleftrightarrow> Tx_Put E True n i raw db = (Inr (), db')"
| "txStep E (EDelete n i) db db' \<longleftrightarrow> Tx_Delete E True n i db = (Inr (), db')"
| "txStep E (EPatch n i patch) db db' \<longleftrightarrow> Tx_Patch E True n i patch db = (Inr (), db')"
| "txStep E (EMergeOrPut n i patch) db db' \<longleftrightarrow> Tx_MergeOrPut E True n i patch db = (Inr (), db')"
| "txStep E _ db db' \<longleftrightarrow> False"

text \<open>
  The abstract state of a transaction: the documents as it sees them, the documents that its commit will store, the collections with
  the definitions of their indexes, and the indexes that are out of step. A document that was put and is stored in another form is seen
  as it was put until the commit.
\<close>

record txAbs =
  taView :: docs
  taStored :: docs
  taSchema :: schema
  taSpoiled :: "int64 set"

definition txEffect :: "'e env \<Rightarrow> apiEvent \<Rightarrow> 'e DB \<Rightarrow> txAbs \<Rightarrow> txAbs option" where
  "txEffect E ev db A =
     (case (effect E id ev (taView A) (taView A), effect E (storedForm E) ev (taView A) (taStored A), absSchema ev (taSchema A)) of
        (Some V, Some W, Some S) \<Rightarrow>
          Some \<lparr>taView = V, taStored = W, taSchema = S, taSpoiled = taSpoiled A \<union> spoiled E ev db (taView A)\<rparr>
      | _ \<Rightarrow> None)"

text \<open>A run of a write transaction: the database object and the abstract state after its events.\<close>

definition txStart :: "int64 set \<Rightarrow> 'e DB \<Rightarrow> docs \<Rightarrow> txAbs" where
  "txStart B db D = \<lparr>taView = D, taStored = D, taSchema = schemaOf db, taSpoiled = B\<rparr>"

inductive txRun :: "'e env \<Rightarrow> int64 set \<Rightarrow> 'e DB \<Rightarrow> docs \<Rightarrow> 'e DB \<Rightarrow> txAbs \<Rightarrow> bool" for E B db D where
  start: "txRun E B db D db (txStart B db D)"
| event: "txRun E B db D db1 A \<Longrightarrow> countersOk db1 \<Longrightarrow> txStep E ev db1 db2 \<Longrightarrow> txEffect E ev db1 A = Some A' \<Longrightarrow>
    fitsStep E ev (taView A) \<Longrightarrow> txRun E B db D db2 A'"

text \<open>What no step touches: the store, and whether the database is closed.\<close>

lemma ensureCollection_frame:
  "ensureCollectionLocked n db = (c, db') \<Longrightarrow> dbEngine db' = dbEngine db \<and> dbClosed db' = dbClosed db"
  by (auto simp: ensureCollectionLocked_def ensureCollectionOnStateLocked_def Let_def split: option.splits)

lemma putLocked_frame: "putLocked E c i raw db = (r, db') \<Longrightarrow> dbEngine db' = dbEngine db \<and> dbClosed db' = dbClosed db"
  by (auto simp: putLocked_def Let_def split: sum.splits prod.splits option.splits)

lemma putIdLocked_frame: "putIdLocked E n i raw db = (r, db') \<Longrightarrow> dbEngine db' = dbEngine db \<and> dbClosed db' = dbClosed db"
  by (auto simp: putIdLocked_def Let_def split: prod.splits if_splits dest!: putLocked_frame ensureCollection_frame)

lemma addNextID_frame [simp]: "dbEngine (addNextID x n db) = dbEngine db" "dbClosed (addNextID x n db) = dbClosed db"
  by (simp_all add: addNextID_def split: option.splits)

lemma putNewLocked_frame: "putNewLocked E n raw db = (r, db') \<Longrightarrow> dbEngine db' = dbEngine db \<and> dbClosed db' = dbClosed db"
  by (auto simp: putNewLocked_def Let_def split: prod.splits sum.splits dest!: putLocked_frame ensureCollection_frame)

lemma deleteLocked_frame:
  "dbEngine (deleteLocked E c i raw d db) = dbEngine db" "dbClosed (deleteLocked E c i raw d db) = dbClosed db"
  by (simp_all add: deleteLocked_def Let_def)

lemma txStep_frame: "txStep E ev db db' \<Longrightarrow> dbEngine db' = dbEngine db \<and> dbClosed db' = dbClosed db"
proof (cases ev)
  case (EEnsureCollection n)
  obtain c db0 where "ensureCollectionLocked n db = (c, db0)" by force
  then show "txStep E ev db db' \<Longrightarrow> ?thesis" using EEnsureCollection ensureCollection_frame [of n db c db0]
    by (auto simp: Tx_EnsureCollection_def markMetaDirty_def)
qed (auto simp: Tx_PutNew_def Tx_Put_def Tx_Delete_def Tx_Patch_def Tx_MergeOrPut_def deleteLocked_frame Let_def
    split: option.splits sum.splits prod.splits if_splits
    dest!: putNewLocked_frame putIdLocked_frame putLocked_frame ensureCollection_frame)

text \<open>The relation of the database object to the abstract state in the middle of a transaction.\<close>

definition txRel :: "'e env \<Rightarrow> ('e \<Rightarrow> kv) \<Rightarrow> 'e DB \<Rightarrow> docs \<Rightarrow> txAbs \<Rightarrow> bool" where
  "txRel E kv db D A \<longleftrightarrow> dbRel E kv (taSpoiled A) db D (taView A) \<and> committed E db D = taStored A \<and> schemaOf db = taSchema A"

definition txStepTo :: "'e env \<Rightarrow> ('e \<Rightarrow> kv) \<Rightarrow> docs \<Rightarrow> apiEvent \<Rightarrow> 'e DB \<Rightarrow> txAbs \<Rightarrow> 'e DB \<Rightarrow> bool" where
  "txStepTo E kv D ev db A db' \<longleftrightarrow>
     (\<exists>A'. txEffect E ev db A = Some A' \<and> (fitsStep E ev (taView A) \<longrightarrow> txRel E kv db' D A'))"

lemma txStepTo_put:
  assumes "putOf E ev (taView A) = Some (n, i, doc)" and "\<And>f X. effect E f ev (taView A) X = putEffect f (putOf E ev (taView A)) X"
    and "puts E kv db db' (taSpoiled A) D (taView A) n i doc" and "absSchema ev (schemaOf db) = Some (schemaOf db')"
    and "txRel E kv db D A"
  shows "txStepTo E kv D ev db A db'"
  using assms by (simp add: txStepTo_def txEffect_def putEffect_def fitsStep_def spoiled_def puts_def txRel_def)

lemma txStepTo_other:
  assumes "putOf E ev (taView A) = None" and "effect E id ev (taView A) (taView A) = Some V"
    and "effect E (storedForm E) ev (taView A) (taStored A) = Some W"
    and "dbRel E kv (taSpoiled A) db' D V" and "committed E db' D = W" and "absSchema ev (schemaOf db) = Some (schemaOf db')"
    and "txRel E kv db D A"
  shows "txStepTo E kv D ev db A db'"
  using assms by (simp add: txStepTo_def txEffect_def spoiled_def txRel_def)

context db_env
begin

lemma Tx_Get_ok:
  assumes rel: "dbRel E kv B db D V" and get: "Tx_Get E n i db = Inr raw"
  obtains c d where "map_of (collections db) n = Some c" "V n i = Some d" "marshalJSON (envJson E) d = Inr raw" "raw \<noteq> []"
    "decodeJSON (envJson E) raw = Inr d"
proof -
  obtain c where c: "map_of (collections db) n = Some c" using get by (auto simp: Tx_Get_def split: option.splits)
  note last = lastPending_chain [OF dbRelD(3) [OF rel], of n i]
  show thesis
  proof (cases "lastPending (dbPending db) n i")
    case None
    then have "getDocRaw E (dbEngine db) (Some c) i = Inr raw" using get c by (simp add: Tx_Get_def pendingDocState_def)
    then obtain d where "getDocNode E (dbEngine db) (Some c) i = Inr (raw, d)"
      by (cases "getDocNode E (dbEngine db) (Some c) i") (auto simp: getDocRaw_node)
    note d = getDocNode_ok [OF dbRelD(2) [OF rel] c this]
    show thesis using that [OF c, of d] d last None by simp
  next
    case (Some mu)
    then have put: "mKind mu = mutationPut" "raw = mNewRaw mu"
      using get c by (cases "mKind mu"; simp add: Tx_Get_def pendingDocState_def)+
    then have v: "V n i = Some (mNewDoc mu)" "raw \<noteq> []" "marshalJSON (envJson E) (mNewDoc mu) = Inr raw" "putOk E (mNewDoc mu)"
      using last Some by auto
    from docOk_text [of "mNewDoc mu"] v(3,4) have "decodeJSON (envJson E) raw = Inr (mNewDoc mu)" by (auto simp: putOk_def)
    then show thesis using that [OF c v(1,3,2)] by simp
  qed
qed

text \<open>What a transaction reads is its view of the documents.\<close>

lemma Tx_Get_result:
  assumes rel: "dbRel E kv B db D V"
  shows "readResult E (dbEngine db) (V n i) (Tx_Get E n i db)"
proof (cases "map_of (collections db) n")
  case None
  then show ?thesis using chain_dom [OF dbRelD(3) [OF rel] None] dbRelD(7) [OF rel None] by (simp add: Tx_Get_def readResult_def)
next
  case (Some c)
  note last = lastPending_chain [OF dbRelD(3) [OF rel], of n i]
  show ?thesis
  proof (cases "lastPending (dbPending db) n i")
    case None
    then show ?thesis using Some last getDocRaw_result [OF dbRelD(2) [OF rel] Some]
      by (simp add: Tx_Get_def pendingDocState_def)
  next
    case p: (Some mu)
    then show ?thesis using Some last
      by (cases "mKind mu") (auto simp: Tx_Get_def pendingDocState_def readResult_def)
  qed
qed

lemma Tx_Get_absent:
  assumes "dbRel E kv B db D V" and "Tx_Get E n i db = Inl err" and "errorIs err ErrNotFound"
  shows "V n i = None"
  using Tx_Get_result [OF assms(1), of n i] assms(2,3) by (simp add: readResult_def engineError_def)

lemma tx_merge_step:
  assumes rel: "dbRel E kv B db D V" and cnt: "countersOk db" and st: "Tx_MergeOrPut E True n i patch db = (Inr (), db')"
  shows "\<exists>doc. putOf E (EMergeOrPut n i patch) V = Some (n, i, doc) \<and> puts E kv db db' B D V n i doc
    \<and> schemaOf db' = made n (schemaOf db)"
proof -
  have room: "room db" using cnt by (simp add: countersOk_def)
  obtain c db0 where e: "ensureCollectionLocked n db = (c, db0)" by force
  note e' = ensureCollection_rel [OF rel room e]
  define col where "col = (if sint (colNextID c) < sint i then c\<lparr>colNextID := i\<rparr> else c)"
  show ?thesis
  proof (cases "Tx_Get E n i db0")
    case (Inl err)
    then have nf: "errorIs err ErrNotFound" and p: "putLocked E col i patch (setCol col db0) = (Inr (), db')"
      using st by (auto simp: Tx_MergeOrPut_def e col_def Let_def split: if_splits)
    have st': "strip col = strip c" and nid: "sint i \<le> sint (colNextID col)" "sint (colNextID c) \<le> sint (colNextID col)"
      by (simp_all add: col_def)
    obtain doc where "decodeJSON (envJson E) patch = Inr doc" "puts E kv db db' B D V n i doc"
      by (rule putInto_puts [OF rel room e st' nid p])
    then show ?thesis using putInto_schema [OF rel room e st' nid(2) p] Tx_Get_absent [OF e'(1) Inl nf] by (simp add: parsed_doc)
  next
    case (Inr raw)
    from Tx_Get_ok [OF e'(1) Inr] obtain d where d: "V n i = Some d" "marshalJSON (envJson E) d = Inr raw" by blast
    obtain newRaw where a: "applyMergePatch (envJson E) raw patch = Inr newRaw" and p: "putLocked E c i newRaw db0 = (Inr (), db')"
      using st Inr by (auto simp: Tx_MergeOrPut_def e split: sum.splits)
    have nx: "sint i \<le> sint (colNextID c)" using dbRelD(6) [OF e'(1)] e'(2) d(1) unfolding nextOk_def by blast
    have same: "setCol c db0 = db0"
      using e'(2) catOk_name [OF dbRelD(1) [OF e'(1)] e'(2)] by (simp add: setCol_def setCollections_def update_triv)
    have p': "putLocked E c i newRaw (setCol c db0) = (Inr (), db')" using p by (simp only: same)
    obtain doc where doc: "decodeJSON (envJson E) newRaw = Inr doc" "puts E kv db db' B D V n i doc"
      by (rule putInto_puts [OF rel room e refl nx order_refl p'])
    have "putOf E (EMergeOrPut n i patch) V = Some (n, i, doc)" using d a doc(1) by (auto intro: changed_doc)
    then show ?thesis using putInto_schema [OF rel room e refl order_refl p'] doc(2) by blast
  qed
qed

lemma tx_simulation:
  assumes A: "txRel E kv db D A" and cnt: "countersOk db" and st: "txStep E ev db db'"
  shows "txStepTo E kv D ev db A db'"
proof -
  have rel: "dbRel E kv (taSpoiled A) db D (taView A)" using A by (simp add: txRel_def)
  have room: "room db" using cnt by (simp add: countersOk_def)
  show ?thesis
  proof (cases ev)
    case (EEnsureCollection n)
    obtain c db0 where e: "ensureCollectionLocked n db = (c, db0)" by force
    have "dbRel E kv (taSpoiled A) (markMetaDirty db0) D (taView A)"
      using ensureCollection_rel(1) [OF rel room e] by (simp add: dbRel_def markMetaDirty_def)
    then show ?thesis
      using A st EEnsureCollection ensureCollection_rel(4) [OF rel room e] ensureCollection_schema [OF rel e]
      by (auto simp: Tx_EnsureCollection_def e txRel_def committed_def markMetaDirty_def schemaOf_def intro!: txStepTo_other)
  next
    case (EPutNew n raw i)
    then have p: "putNewLocked E n raw db = (Inr i, db')" using st by (simp add: Tx_PutNew_def)
    have lim: "\<And>c. map_of (collections db) n = Some c \<Longrightarrow> sint (colNextID c) < 2 ^ 63 - 1" using countersOkD [OF cnt, of n] .
    obtain doc where "decodeJSON (envJson E) raw = Inr doc" "taView A n i = None" "puts E kv db db' (taSpoiled A) D (taView A) n i doc"
      by (rule putNewLocked_rel [OF rel room p lim])
    then show ?thesis using EPutNew putNewLocked_schema [OF rel room p lim] A by (auto intro!: txStepTo_put simp: parsed_doc)
  next
    case (EPut n i raw)
    then have p: "putIdLocked E n i raw db = (Inr (), db')" using st by (simp add: Tx_Put_def)
    from putIdLocked_rel [OF rel room p] obtain doc where
      "decodeJSON (envJson E) raw = Inr doc" "puts E kv db db' (taSpoiled A) D (taView A) n i doc" .
    then show ?thesis using EPut putIdLocked_schema [OF rel room p] A by (auto intro!: txStepTo_put simp: parsed_doc)
  next
    case (EDelete n i)
    then obtain c raw doc where g: "Tx_Get E n i db = Inr raw" "decodeJSON (envJson E) raw = Inr doc"
      "map_of (collections db) n = Some c" "db' = deleteLocked E c i raw doc db"
      using st by (auto simp: Tx_Delete_def split: option.splits sum.splits)
    from Tx_Get_ok [OF rel g(1)] g(2) have v: "taView A n i = Some doc" "raw \<noteq> []" by auto
    note d = deleteLocked_rel(1,4) [OF rel g(3) v] deleteLocked_schema [OF rel g(3), of i raw doc]
    show ?thesis unfolding g(4)
      by (rule txStepTo_other [OF _ _ _ d(1,2)]) (use EDelete v d(3) A in \<open>simp_all add: txRel_def\<close>)
  next
    case (EPatch n i patch)
    then obtain c raw newRaw where g: "map_of (collections db) n = Some c" "Tx_Get E n i db = Inr raw"
      "applyJSONPatch (envLib E) (envJson E) (envRoom E raw) raw patch = Inr newRaw" "putLocked E c i newRaw db = (Inr (), db')"
      using st by (auto simp: Tx_Patch_def split: option.splits sum.splits)
    from Tx_Get_ok [OF rel g(2)] obtain d where d: "taView A n i = Some d" "marshalJSON (envJson E) d = Inr raw" by blast
    have nx: "sint i \<le> sint (colNextID c)" using dbRelD(6) [OF rel] g(1) d(1) unfolding nextOk_def by blast
    from putLocked_puts [OF rel g(1,4) nx] obtain doc where
      "decodeJSON (envJson E) newRaw = Inr doc" "puts E kv db db' (taSpoiled A) D (taView A) n i doc" .
    then show ?thesis using EPatch putLocked_schema [OF rel g(1,4)] A d g(3) by (auto intro!: txStepTo_put changed_doc)
  next
    case (EMergeOrPut n i patch)
    then have "Tx_MergeOrPut E True n i patch db = (Inr (), db')" using st by simp
    from tx_merge_step [OF rel cnt this] obtain doc where d: "putOf E (EMergeOrPut n i patch) (taView A) = Some (n, i, doc)"
      "puts E kv db db' (taSpoiled A) D (taView A) n i doc" "schemaOf db' = made n (schemaOf db)" by blast
    show ?thesis unfolding EMergeOrPut by (rule txStepTo_put [OF d(1) _ d(2) _ A]) (simp_all add: d(3))
  qed (use st in simp_all)
qed

lemma txRun_rel:
  assumes "dbInv E kv B db D" and "txRun E B db D db1 A"
  shows "txRel E kv db1 D A \<and> dbEngine db1 = dbEngine db \<and> dbClosed db1 = dbClosed db"
  using assms(2)
proof (induction rule: txRun.induct)
  case start
  then show ?case using assms(1) by (simp add: dbInv_def txRel_def txStart_def committed_def)
next
  case (event db1 A ev db2 A')
  then show ?case using tx_simulation [of db1 D A ev db2] txStep_frame [of E ev db1 db2] by (auto simp: txStepTo_def)
qed

end

section \<open>Commit and rollback\<close>

text \<open>What the clone of a state is relied on for: everything that has a JSON name survives.\<close>

definition cloneOk :: "'e env \<Rightarrow> bool" where
  "cloneOk E \<longleftrightarrow> (\<forall>st out. envCloneJSON E st = Inr out \<longrightarrow>
     stVersion out = stVersion st \<and> stNextCollectionID out = stNextCollectionID st \<and> stCreatedAt out = stCreatedAt st
     \<and> map (\<lambda>(n, c). (n, c\<lparr>colRuntime := [], colName := n\<rparr>)) (stCollections out)
         = map (\<lambda>(n, c). (n, c\<lparr>colRuntime := [], colName := n\<rparr>)) (stCollections st))"

text \<open>The state with the runtime indexes made anew, as the clone of a state has them.\<close>

definition refreshed :: "dbState \<Rightarrow> dbState" where
  "refreshed st = st\<lparr>stCollections := map reopenCol (stCollections st)\<rparr>"

lemma clone_refreshed:
  assumes "cloneOk E" and "clone (envCloneJSON E) st = Inr snap"
  shows "snap = refreshed st"
proof -
  obtain out where o: "envCloneJSON E st = Inr out"
    and snap: "snap = out\<lparr>stCollections := map (\<lambda>(name, c). (name, initRuntime (c\<lparr>colName := name, colRuntime := []\<rparr>))) (stCollections out)\<rparr>"
    using assms(2) by (auto simp: clone_def split: sum.splits)
  have law: "stVersion out = stVersion st" "stNextCollectionID out = stNextCollectionID st" "stCreatedAt out = stCreatedAt st"
    "map (\<lambda>(n, c). (n, c\<lparr>colRuntime := [], colName := n\<rparr>)) (stCollections out)
         = map (\<lambda>(n, c). (n, c\<lparr>colRuntime := [], colName := n\<rparr>)) (stCollections st)"
    using assms(1) o by (auto simp: cloneOk_def)
  have "(\<lambda>(name, c). (name, initRuntime (c\<lparr>colName := name, colRuntime := []\<rparr>))) = reopenCol"
    by (auto simp: fun_eq_iff reopenCol_def initRuntime_def)
  moreover have e: "map reopenCol xs = map (\<lambda>(n, c). (n, initRuntime c)) (map (\<lambda>(n, c). (n, c\<lparr>colRuntime := [], colName := n\<rparr>)) xs)" for xs
    by (simp add: reopenCol_def case_prod_beta')
  moreover have "map reopenCol (stCollections out) = map reopenCol (stCollections st)"
    unfolding e law(4) by (rule refl)
  ultimately show ?thesis using law(1-3) by (simp add: snap refreshed_def)
qed

lemma commitLocked_fails: "commitLocked E db = (Inl e, db') \<Longrightarrow> db' = db"
  by (auto simp: commitLocked_def persistFullLocked_def persistPendingLocked_def commitBatch_def
      split: if_splits sum.splits)

text \<open>
  The calls a transaction can make, with any result, except for those that make an index: \<^verbatim>\<open>EnsureIndex\<close> writes the entries of the
  index at once, and no rollback takes them back (\<^verbatim>\<open>tx.go:71\<close>). A visitor of \<^verbatim>\<open>Exec\<close> that never ends leaves no database object.
\<close>

datatype 'v txOp =
    CEnsureCollection string
  | CRemoveCollection string
  | CRenameCollection string string
  | CPutNew string bytes
  | CPut string int64 bytes
  | CDelete string int64
  | CPatch string int64 bytes
  | CMergeOrPut string int64 bytes
  | CRemoveIndex string string IndexKind
  | CRemoveIndexMode string string IndexMode
  | CExec Query "'v ExecOptions" 'v
  | CListQuery Query int64
  | CCount Query int64
  | CUpdateQuery Query int64

fun afterOp :: "'e queryEnv \<Rightarrow> 'v txOp \<Rightarrow> 'e DB \<Rightarrow> 'e DB option" where
  "afterOp Q (CEnsureCollection n) db = Some (snd (Tx_EnsureCollection True n db))"
| "afterOp Q (CRemoveCollection n) db = Some (snd (Tx_RemoveCollection True n db))"
| "afterOp Q (CRenameCollection n n') db = Some (snd (Tx_RenameCollection True n n' db))"
| "afterOp Q (CPutNew n raw) db = Some (snd (Tx_PutNew (qeEnv Q) True n raw db))"
| "afterOp Q (CPut n i raw) db = Some (snd (Tx_Put (qeEnv Q) True n i raw db))"
| "afterOp Q (CDelete n i) db = Some (snd (Tx_Delete (qeEnv Q) True n i db))"
| "afterOp Q (CPatch n i patch) db = Some (snd (Tx_Patch (qeEnv Q) True n i patch db))"
| "afterOp Q (CMergeOrPut n i patch) db = Some (snd (Tx_MergeOrPut (qeEnv Q) True n i patch db))"
| "afterOp Q (CRemoveIndex n path kind) db = Some (snd (Tx_RemoveIndex True n path kind db))"
| "afterOp Q (CRemoveIndexMode n path mode) db = Some (snd (Tx_RemoveIndexMode True n path mode db))"
| "afterOp Q (CExec q opts v) db = map_option snd (Tx_Exec Q True (dbSt db) q opts v db)"
| "afterOp Q (CListQuery q limit) db = Some (snd (Tx_ListQuery Q True (dbSt db) q limit db))"
| "afterOp Q (CCount q limit) db = Some (snd (Tx_Count Q (dbSt db) q limit db))"
| "afterOp Q (CUpdateQuery q limit) db = Some (snd (Tx_UpdateQuery Q True (dbSt db) q limit db))"

fun afterOps :: "'e queryEnv \<Rightarrow> 'v txOp list \<Rightarrow> 'e DB \<Rightarrow> 'e DB option" where
  "afterOps Q [] db = Some db"
| "afterOps Q (op # ops) db = Option.bind (afterOp Q op db) (afterOps Q ops)"

text \<open>None of them touches the store.\<close>

definition keeps :: "'e DB \<Rightarrow> 'e DB \<Rightarrow> bool" where
  "keeps db db' \<longleftrightarrow> dbEngine db' = dbEngine db \<and> dbClosed db' = dbClosed db \<and> dbPath db' = dbPath db"

lemma keeps_refl [simp]: "keeps db db"
  by (simp add: keeps_def)

lemma keeps_trans: "keeps db db1 \<Longrightarrow> keeps db1 db2 \<Longrightarrow> keeps db db2"
  by (simp add: keeps_def)

lemma keeps_simps [simp]:
  "keeps db (setCol c db') = keeps db db'" "keeps db (setCollections cs db') = keeps db db'"
  "keeps db (markFullDirty db') = keeps db db'" "keeps db (markMetaDirty db') = keeps db db'" "keeps db (addNextID x n db') = keeps db db'"
  "keeps db (recordDocPut n i r1 r2 d1 d2 db') = keeps db db'" "keeps db (recordDocDelete n i r1 d1 db') = keeps db db'"
  by (simp_all add: keeps_def setCol_def setCollections_def markFullDirty_def markMetaDirty_def addNextID_def recordDocPut_def
      recordDocDelete_def split: option.splits)

lemma keeps_ensure [simp]: "keeps db (snd (ensureCollectionLocked n db')) = keeps db db'"
  by (auto simp: keeps_def ensureCollectionLocked_def ensureCollectionOnStateLocked_def Let_def split: option.splits)

lemma keeps_put [simp]: "keeps db (snd (putLocked E c i raw db')) = keeps db db'"
  by (auto simp: putLocked_def Let_def split: sum.splits prod.splits option.splits)

lemma keeps_delete [simp]: "keeps db (deleteLocked E c i raw d db') = keeps db db'"
  by (simp add: deleteLocked_def Let_def)

lemma keeps_putId [simp]: "keeps db (snd (putIdLocked E n i raw db')) = keeps db db'"
  using keeps_ensure [of db n db'] by (auto simp: putIdLocked_def Let_def split: prod.splits simp del: keeps_ensure)

lemma keeps_putNew [simp]: "keeps db (snd (putNewLocked E n raw db')) = keeps db db'"
  using keeps_ensure [of db n db'] keeps_put [of db E]
  by (auto simp: putNewLocked_def Let_def split: prod.splits sum.splits simp del: keeps_ensure keeps_put) (metis keeps_simps(1) snd_conv)+

lemma keeps_deleteDocs [simp]: "keeps db (deleteDocs E c ms db') = keeps db db'"
  by (induction E c ms db' rule: deleteDocs.induct) simp_all

lemma keeps_patchDocs [simp]: "keeps db (snd (patchDocs E c payload ms db')) = keeps db db'"
proof (induction ms arbitrary: db')
  case (Cons m ms)
  then show ?case using keeps_put [of db E "currentCol c db'" "mdId m" _ db']
    by (auto split: sum.splits prod.splits simp del: keeps_put) (metis snd_conv)+
qed simp

lemma keeps_upsert [simp]: "keeps db (snd (upsertNew E c payload db')) = keeps db db'"
  using keeps_put [of db E] by (auto simp: upsertNew_def Let_def split: sum.splits prod.splits simp del: keeps_put) (metis keeps_simps(1) snd_conv)+

lemma keeps_action [simp]: "keeps db (snd (applyActionLocked E c q w db')) = keeps db db'"
  using keeps_patchDocs [of db E c _ w db']
  by (auto simp: applyActionLocked_def Let_def split: sum.splits prod.splits queryAction.splits simp del: keeps_patchDocs) (metis snd_conv)+

lemma keeps_runOn [simp]: "keeps db (snd (runOnCollection Q q mode opts col st db')) = keeps db db'"
  using keeps_action [of db "qeEnv Q" col q _ db']
  by (auto simp: runOnCollection_def Let_def split: sum.splits prod.splits if_splits simp del: keeps_action) (metis snd_conv)+

lemma keeps_run [simp]: "keeps db (snd (runQueryLocked Q st q mode opts db')) = keeps db db'"
proof -
  obtain col db0 where e: "ensureCollectionLocked (qCollection q) db' = (col, db0)" by force
  then have "keeps db db0 = keeps db db'" using keeps_ensure [of db "qCollection q" db'] by simp
  then show ?thesis by (simp add: runQueryLocked_def e split: option.splits)
qed

lemma afterOp_keeps: "afterOp Q op db = Some db' \<Longrightarrow> keeps db db'"
proof (cases op)
  case (CMergeOrPut n i patch)
  obtain c db0 where e: "ensureCollectionLocked n db = (c, db0)" by force
  then have "keeps db db0" using keeps_ensure [of db n db] by simp
  moreover assume "afterOp Q op db = Some db'"
  ultimately show ?thesis using CMergeOrPut by (auto simp: Tx_MergeOrPut_def e Let_def split: sum.splits)
next
  case (CExec q opts v)
  moreover assume "afterOp Q op db = Some db'"
  ultimately show ?thesis using keeps_run [of db Q "dbSt db" q modeExec opts db]
    by (auto simp: Tx_Exec_def split: if_splits sum.splits prod.splits option.splits simp del: keeps_run)
next
  case (CListQuery q limit)
  moreover assume "afterOp Q op db = Some db'"
  ultimately show ?thesis using keeps_run [of db Q "dbSt db" q modeList "noOptions limit" db]
    by (auto simp: Tx_ListQuery_def resultOf_def split: sum.splits prod.splits simp del: keeps_run)
next
  case (CCount q limit)
  moreover assume "afterOp Q op db = Some db'"
  ultimately show ?thesis using keeps_run [of db Q "dbSt db" q modeCount "noOptions limit" db]
    by (auto simp: Tx_Count_def resultOf_def split: sum.splits prod.splits simp del: keeps_run)
next
  case (CUpdateQuery q limit)
  moreover assume "afterOp Q op db = Some db'"
  ultimately show ?thesis using keeps_run [of db Q "dbSt db" q modeUpdate "noOptions limit" db]
    by (auto simp: Tx_UpdateQuery_def resultOf_def split: sum.splits prod.splits simp del: keeps_run)
qed (auto simp: Tx_EnsureCollection_def Tx_RemoveCollection_def Tx_RenameCollection_def Tx_PutNew_def Tx_Put_def Tx_Delete_def
    Tx_Patch_def Tx_RemoveIndex_def Tx_RemoveIndexMode_def Let_def split: option.splits sum.splits prod.splits)

lemma afterOps_keeps: "afterOps Q ops db = Some db' \<Longrightarrow> keeps db db'"
  by (induction ops arbitrary: db) (auto simp: bind_eq_Some_conv intro: keeps_trans dest: afterOp_keeps)

text \<open>A transaction that reports an error leaves the database object as it was, but for runtime indexes that are made anew.\<close>

lemma writeTx_restored:
  assumes op: "dbPending db = []" and cl: "cloneOk E" and fn: "fn db = (r, db1)" and k: "keeps db db1"
    and tx: "WriteTx E fn db = (Inl err, db')"
  shows "db' = db \<or> db' = db\<lparr>dbSt := refreshed (dbSt db)\<rparr>"
proof -
  have rb: "rollback (refreshed (dbSt db)) db db1 = db\<lparr>dbSt := refreshed (dbSt db)\<rparr>"
    using k op by (cases db; cases db1) (simp add: rollback_def truncatePending_def keeps_def)
  show ?thesis
  proof (cases "dbClosed db \<or> (\<exists>e. clone (envCloneJSON E) (dbSt db) = Inl e)")
    case True
    then show ?thesis using tx by (auto simp: WriteTx_def split: if_splits)
  next
    case False
    then have "clone (envCloneJSON E) (dbSt db) = Inr (refreshed (dbSt db))"
      using clone_refreshed [OF cl] by (cases "clone (envCloneJSON E) (dbSt db)") auto
    then have "db' = rollback (refreshed (dbSt db)) db db1"
      using tx fn False by (auto simp: WriteTx_def split: sum.splits prod.splits dest: commitLocked_fails)
    then show ?thesis using rb by simp
  qed
qed

lemma schemaOf_refreshed: "schemaOf (db\<lparr>dbSt := refreshed (dbSt db)\<rparr>) = schemaOf db"
  by (rule schemaOf_reopenCols) (simp add: refreshed_def)

lemma dbInv_refreshed: "dbInv E kv B db D \<Longrightarrow> dbInv E kv B (db\<lparr>dbSt := refreshed (dbSt db)\<rparr>) D"
  unfolding dbInv_def by (auto simp: refreshed_def dbRelD(4) intro!: dbRel_reopenCols [of _ _ _ db])

context db_env
begin

lemma writeTx_commits:
  assumes inv: "dbInv E kv B db D" and fn: "fn db = (Inr x, db1)" and run: "txRun E B db D db1 A"
    and tx: "WriteTx E fn db = (Inr x, db')"
  shows "dbInv E kv (taSpoiled A) db' (taStored A) \<and> schemaOf db' = taSchema A"
proof -
  have op: "\<not> dbClosed db" using inv by (simp add: dbInv_def)
  have c: "commitLocked E db1 = (Inr (), db')"
    using tx fn op by (auto simp: WriteTx_def split: sum.splits prod.splits)
  note r = txRun_rel [OF inv run]
  have rel: "dbRel E kv (taSpoiled A) db1 D (taView A)" using r by (simp add: txRel_def)
  show ?thesis using commitLocked_rel(1) [OF rel c] commitLocked_schema [OF c] r op by (simp add: txRel_def)
qed

lemma writeTx_aborts:
  assumes inv: "dbInv E kv B db D" and cl: "cloneOk E" and fn: "fn db = (r, db1)" and k: "keeps db db1"
    and tx: "WriteTx E fn db = (Inl err, db')"
  shows "dbInv E kv B db' D \<and> dbEngine db' = dbEngine db \<and> schemaOf db' = schemaOf db"
proof -
  have "dbPending db = []" using inv by (simp add: dbInv_def)
  from writeTx_restored [OF this cl fn k tx] show ?thesis using inv dbInv_refreshed [OF inv] schemaOf_refreshed by auto
qed

end

section \<open>Properties of transactions\<close>

definition tinyTx :: "memStore DB" where
  "tinyTx = tinyOpen\<lparr>dbSt := tinySt, dbPending := [\<lparr>mKind = mutationPut, mCollection = ''c'', mId = 1,
        mOldRaw = [], mNewRaw = tinyText, mOldDoc = VNil, mNewDoc = tinyDoc\<rparr>], dbDirtyMeta := True\<rparr>"

lemma tiny_txput: "Tx_Put tinyE True ''c'' 1 tinyText tinyOpen = (Inr (), tinyTx)"
  by (simp add: Tx_Put_def tiny_putLocked tinyTx_def)

definition tinyTxAbs :: txAbs where
  "tinyTxAbs = \<lparr>taView = tinyDocs, taStored = tinyDocs, taSchema = (\<lambda>_. None)(''c'' \<mapsto> {}), taSpoiled = {}\<rparr>"

lemma tiny_txRun: "txRun tinyE {} tinyOpen (\<lambda>_ _. None) tinyTx tinyTxAbs"
proof (rule txRun.event [OF txRun.start tiny_counters(1)])
  show "txStep tinyE (EPut ''c'' 1 tinyText) tinyOpen tinyTx" by (simp add: tiny_txput)
  show "txEffect tinyE (EPut ''c'' 1 tinyText) tinyOpen (txStart {} tinyOpen (\<lambda>_ _. None)) = Some tinyTxAbs"
    by (simp add: txEffect_def txStart_def tiny_step tinyTxAbs_def putEffect_def parsed_def tiny_decode tiny_stored tinyDocs_def made_def
        schemaOf_def tinyOpen_def newState_def fun_eq_iff)
  show "fitsStep tinyE (EPut ''c'' 1 tinyText) (taView (txStart {} tinyOpen (\<lambda>_ _. None)))" by (rule tiny_step)
qed

lemma tiny_inv: "dbInv tinyE map_of {} tinyOpen (\<lambda>_ _. None)"
  by (rule tiny.env.reachable_dbInv [OF tiny_reachable0])

lemma tiny_open_not_closed: "\<not> dbClosed tinyOpen" "clone Inr (dbSt tinyOpen) = Inr (newState 7)"
  by (simp_all add: tinyOpen_def clone_def newState_def)

lemma tiny_commit: "commitLocked tinyE tinyTx = (Inr (), tinyDb)"
  using tiny_put tiny_open_not_closed by (simp add: DB_Put_def tiny_putLocked thenCommit_def tinyTx_def)




definition tinySpill :: spill_io where
  "tinySpill = \<lparr>spCreate = None, spWrite = (\<lambda>_ _. None), spRead = (\<lambda>f off sz. Inr (take sz (drop off f)))\<rparr>"

definition tinyTxQ :: "memStore queryEnv" where
  "tinyTxQ = \<lparr>qeEnv = tinyE, qeReverse = False, qeSortBuffer = 0, qeSpill = tinySpill,
     qeCaps = \<lparr>capRead = (\<lambda>n. n), capClone = (\<lambda>n. n), capGrow = (\<lambda>n. n)\<rparr>\<rparr>"


section \<open>Calls that fail\<close>

definition keepsStore :: "'e DB \<Rightarrow> 'a result \<times> 'e DB \<Rightarrow> bool" where
  "keepsStore db r \<longleftrightarrow> (case r of (Inl _, db') \<Rightarrow> dbEngine db' = dbEngine db | (Inr _, _) \<Rightarrow> True)"

lemma keepsStore_commit:
  assumes "dbEngine db1 = dbEngine db"
  shows "keepsStore db (commitLocked E db1)"
  using assms by (auto simp: keepsStore_def split: prod.splits sum.splits dest: commitLocked_fails)

lemma keepsStore_thenCommit:
  assumes "r = (x, db1)" and "dbEngine db1 = dbEngine db"
  shows "keepsStore db (thenCommit E r)"
  using assms keepsStore_commit [OF assms(2)] by (auto simp: thenCommit_def keepsStore_def split: sum.splits)

lemma keepsStore_put: "dbEngine db1 = dbEngine db \<Longrightarrow> keepsStore db (thenCommit E (putLocked E c i raw db1))"
  by (metis keepsStore_thenCommit putLocked_frame surj_pair)

lemma keepsStore_batch: "dbEngine db1 = dbEngine db \<Longrightarrow> keepsStore db (commitBatch E ops db1)"
  by (auto simp: keepsStore_def commitBatch_def split: sum.splits)

lemma keepsStore_error [simp]: "dbEngine db1 = dbEngine db \<Longrightarrow> keepsStore db (Inl e, db1)" "keepsStore db (Inr x, db1)"
  by (simp_all add: keepsStore_def)

lemma ensureCollection_engine [simp]: "dbEngine (snd (ensureCollectionLocked n db)) = dbEngine db"
  using ensureCollection_frame [of n db] by (metis prod.collapse)

lemma putNew_keepsStore: "keepsStore db (DB_PutNew E n raw db)"
proof -
  obtain r db1 where p: "putNewLocked E n raw db = (r, db1)" by force
  obtain r2 db2 where c: "commitLocked E db1 = (r2, db2)" by force
  have "dbEngine db1 = dbEngine db" using putNewLocked_frame [OF p] by simp
  then show ?thesis using commitLocked_fails [of E db1 _ db2] c
    by (cases r; cases r2) (auto simp: DB_PutNew_def p)
qed

lemma mergeOrPut_keepsStore: "keepsStore db (DB_MergeOrPut E n i patch db)"
proof -
  obtain c db0 where e: "ensureCollectionLocked n db = (c, db0)" by force
  have "dbEngine db0 = dbEngine db" using ensureCollection_frame [OF e] by simp
  then show ?thesis
    by (auto simp: DB_MergeOrPut_def e Let_def split: sum.splits intro!: keepsStore_put)
qed

lemma keepsStore_commitChanged:
  assumes "dbEngine (snd r) = dbEngine db"
  shows "keepsStore db (commitChanged E f r)"
  using assms by (auto simp: commitChanged_def keepsStore_def split: prod.splits sum.splits dest: commitLocked_fails)

lemma run_engine [simp]: "dbEngine (snd (runQueryLocked Q st q mode opts db)) = dbEngine db"
  using keeps_run [of db Q st q mode opts db] by (simp add: keeps_def)

lemma exec_keepsStore: "DB_Exec Q q opts v db = Some r \<Longrightarrow> keepsStore db r"
  using run_engine [of Q "dbSt db" q modeExec opts db] keepsStore_commitChanged [of _ db]
  by (auto simp: DB_Exec_def simp del: run_engine split: if_splits prod.splits sum.splits option.splits)


section \<open>A full commit forgets the pending documents\<close>

text \<open>
  An operation of a transaction that changes the catalog asks for a full commit, which writes the catalog
  and the sequences but none of the pending mutations: here a transaction puts a document and renames the
  collection, commits without an error, and the document is gone.
\<close>

definition putAndRename :: "memStore DB \<Rightarrow> unit result \<times> memStore DB" where
  "putAndRename db =
     (case Tx_Put tinyI True ''c'' 1 tinyText db of
        (Inl e, db) \<Rightarrow> (Inl e, db)
      | (Inr _, db) \<Rightarrow> Tx_RenameCollection True ''c'' ''d'' db)"

lemma tx_rename_loses_put:
  "\<exists>db'. WriteTx tinyI putAndRename tinyOpen = (Inr (), db') \<and> DB_Get tinyI ''d'' 1 db' = Inl ErrNotFound
     \<and> map_option colRNum (map_of (collections db') ''d'') = Some 1"
proof -
  have p: "Tx_Put tinyI True ''c'' 1 tinyText tinyOpen = (Inr (), tinyTx)"
    by (simp add: Tx_Put_def tinyTx_def tinyOpen_def tiny_put_defs tinySt_def tinyCol_def)
  have w: "WriteTx tinyI putAndRename tinyOpen = commitLocked tinyI (snd (Tx_RenameCollection True ''c'' ''d'' tinyTx))"
    using tiny_open_not_closed
    by (simp add: WriteTx_def putAndRename_def p Tx_RenameCollection_def tinyTx_def tinySt_def commitLocked_def markFullDirty_def
        setCollections_def persistFullLocked_def encodeCatalog_def commitBatch_def)
  show ?thesis unfolding w
    by (simp add: Tx_RenameCollection_def tinyTx_def tinyOpen_def tinySt_def tinyCol_def commitLocked_def persistFullLocked_def
        markFullDirty_def setCollections_def encodeCatalog_def commitBatch_def clearPending_def DB_Get_def getDocRaw_def)
qed

end
