(* ===== verification/Lifecycle.thy ===== *)
theory Lifecycle
  imports Db
begin

text \<open>
  Opening, closing, flushing and backing up: \<^verbatim>\<open>PebbleEngine\<close> of \<^verbatim>\<open>storage.go\<close> with its handle, its options and its
  write option, and \<^verbatim>\<open>Open\<close>, \<^verbatim>\<open>Close\<close>, \<^verbatim>\<open>ForceSync\<close> and \<^verbatim>\<open>Backup\<close> of \<^verbatim>\<open>db.go\<close>. Here the engine is the struct
  together with the disk.
\<close>

section \<open>The Pebble package and the file system\<close>

text \<open>
  What the code calls outside the repository. An open database is a handle \<open>'p\<close> and the disk \<open>'w\<close>; \<open>plPebble\<close> are its reads
  and its batches, committed with \<^verbatim>\<open>pebble.Sync\<close> or with \<^verbatim>\<open>pebble.NoSync\<close>. \<open>'o\<close> are the options of Pebble.
\<close>

record ('o, 'p, 'w) platform =
  plPebble :: "bool \<Rightarrow> ('p \<times> 'w) pebble"
  plSet :: "bool \<Rightarrow> bytes \<Rightarrow> bytes \<Rightarrow> 'p \<times> 'w \<Rightarrow> unit result \<times> ('p \<times> 'w)"
  plDelete :: "bool \<Rightarrow> bytes \<Rightarrow> 'p \<times> 'w \<Rightarrow> unit result \<times> ('p \<times> 'w)"
  plOpen :: "'o \<Rightarrow> string \<Rightarrow> 'w \<Rightarrow> 'p result \<times> 'w"
  plClose :: "'p \<times> 'w \<Rightarrow> unit result \<times> 'w"
  plFlush :: "'p \<times> 'w \<Rightarrow> unit result \<times> ('p \<times> 'w)"
  plCompact :: "bytes \<Rightarrow> bytes \<Rightarrow> 'p \<times> 'w \<Rightarrow> unit result \<times> ('p \<times> 'w)"
  plCheckpoint :: "string \<Rightarrow> 'p \<times> 'w \<Rightarrow> unit result \<times> ('p \<times> 'w)"
  plZeroOptions :: 'o
  plCloneOptions :: "'o \<Rightarrow> 'o"
  plHasLogger :: "'o \<Rightarrow> bool"
  plDiscardLogger :: "'o \<Rightarrow> 'o"
  osMkdirAll :: "string \<Rightarrow> 'w \<Rightarrow> unit result \<times> 'w"
  osRemoveAll :: "string \<Rightarrow> 'w \<Rightarrow> unit result \<times> 'w"
  filepathDir :: "string \<Rightarrow> string"

section \<open>The Pebble engine\<close>

text \<open>The write option is \<^verbatim>\<open>pebble.Sync\<close> or \<^verbatim>\<open>pebble.NoSync\<close>; the handle is nil until the engine is opened.\<close>

record ('o, 'p) pebbleEngine =
  peOpts :: 'o
  peSync :: bool
  peDb :: "'p option"

definition NewPebbleEngine :: "('o, 'p, 'w) platform \<Rightarrow> 'o option \<Rightarrow> ('o, 'p) pebbleEngine" where
  "NewPebbleEngine PL opts =
     (let opts = (case opts of None \<Rightarrow> plZeroOptions PL | Some opts \<Rightarrow> plCloneOptions PL opts);
          opts = (if plHasLogger PL opts then opts else plDiscardLogger PL opts)
      in \<lparr>peOpts = opts, peSync = False, peDb = None\<rparr>)"

definition setSyncWrites :: "bool \<Rightarrow> ('o, 'p) pebbleEngine \<Rightarrow> ('o, 'p) pebbleEngine" where
  "setSyncWrites sync e = e\<lparr>peSync := sync\<rparr>"

type_synonym ('o, 'p, 'w) engineState = "('o, 'p) pebbleEngine \<times> 'w"

text \<open>A method called on the nil handle of an engine that is not open panics.\<close>

definition nilHandle :: error where
  "nilHandle = Plain ''invalid memory address or nil pointer dereference''"

definition withHandle ::
    "('p \<times> 'w \<Rightarrow> 'r result \<times> ('p \<times> 'w)) \<Rightarrow> ('o, 'p, 'w) engineState \<Rightarrow> 'r result \<times> ('o, 'p, 'w) engineState" where
  "withHandle f s =
     (case s of (e, w) \<Rightarrow>
        (case peDb e of
           None \<Rightarrow> (Inl nilHandle, (e, w))
         | Some h \<Rightarrow> (case f (h, w) of (r, (h, w)) \<Rightarrow> (r, (e\<lparr>peDb := Some h\<rparr>, w)))))"

definition PebbleOpen ::
    "('o, 'p, 'w) platform \<Rightarrow> string \<Rightarrow> ('o, 'p, 'w) engineState \<Rightarrow> unit result \<times> ('o, 'p, 'w) engineState" where
  "PebbleOpen PL path s =
     (case s of (e, w) \<Rightarrow>
        (case plOpen PL (peOpts e) path w of
           (Inl err, w) \<Rightarrow> (Inl err, (e, w))
         | (Inr h, w) \<Rightarrow> (Inr (), (e\<lparr>peDb := Some h\<rparr>, w))))"

definition PebbleClose :: "('o, 'p, 'w) platform \<Rightarrow> ('o, 'p, 'w) engineState \<Rightarrow> unit result \<times> ('o, 'p, 'w) engineState" where
  "PebbleClose PL s =
     (case s of (e, w) \<Rightarrow>
        (case peDb e of
           None \<Rightarrow> (Inr (), (e, w))
         | Some h \<Rightarrow> (case plClose PL (h, w) of (r, w) \<Rightarrow> (r, (e\<lparr>peDb := None\<rparr>, w)))))"

definition PebbleSet where
  "PebbleSet PL key val s = withHandle (plSet PL (peSync (fst s)) key val) s"

definition PebbleDelete where
  "PebbleDelete PL key s = withHandle (plDelete PL (peSync (fst s)) key) s"

definition PebbleCompact where
  "PebbleCompact PL lo hi s = withHandle (plCompact PL lo hi) s"

definition PebbleFlush where
  "PebbleFlush PL s = withHandle (plFlush PL) s"

definition PebbleBackup where
  "PebbleBackup PL dst s =
     (case osRemoveAll PL dst (snd s) of
        (Inl err, w) \<Rightarrow> (Inl err, (fst s, w))
      | (Inr _, w) \<Rightarrow> withHandle (plCheckpoint PL dst) (fst s, w))"

text \<open>The reads and the batches of the engine: a batch takes the write option of the engine.\<close>

definition PebbleStorage :: "('o, 'p, 'w) platform \<Rightarrow> ('o, 'p, 'w) engineState StorageEngine" where
  "PebbleStorage PL =
     \<lparr>engGet = (\<lambda>(e, w) key.
        case peDb e of None \<Rightarrow> Inl nilHandle | Some h \<Rightarrow> PebbleGet (plPebble PL (peSync e)) (h, w) key),
      engIter = (\<lambda>(e, w) lo hi.
        case peDb e of None \<Rightarrow> ([], Some nilHandle) | Some h \<Rightarrow> pbNewIter (plPebble PL (peSync e)) (h, w) lo hi),
      engCommit = (\<lambda>(e, w) ops.
        case peDb e of
          None \<Rightarrow> Inl nilHandle
        | Some h \<Rightarrow>
            (case pbCommit (plPebble PL (peSync e)) (h, w) ops of
               Inl err \<Rightarrow> Inl err
             | Inr (h, w) \<Rightarrow> Inr (e\<lparr>peDb := Some h\<rparr>, w)))\<rparr>"

section \<open>The rest of the engine interface\<close>

text \<open>
  The methods of \<^verbatim>\<open>StorageEngine\<close> that open and close an engine, save it and copy it; \<open>elSetSync\<close> is \<^verbatim>\<open>setSyncWrites\<close>
  when the engine is a \<^verbatim>\<open>*PebbleEngine\<close>.
\<close>

record ('g, 'w) engineLife =
  elOpen :: "string \<Rightarrow> 'g \<times> 'w \<Rightarrow> unit result \<times> ('g \<times> 'w)"
  elClose :: "'g \<times> 'w \<Rightarrow> unit result \<times> ('g \<times> 'w)"
  elFlush :: "'g \<times> 'w \<Rightarrow> unit result \<times> ('g \<times> 'w)"
  elBackup :: "string \<Rightarrow> 'g \<times> 'w \<Rightarrow> unit result \<times> ('g \<times> 'w)"
  elSetSync :: "(bool \<Rightarrow> 'g \<Rightarrow> 'g) option"

definition PebbleLife :: "('o, 'p, 'w) platform \<Rightarrow> (('o, 'p) pebbleEngine, 'w) engineLife" where
  "PebbleLife PL =
     \<lparr>elOpen = PebbleOpen PL, elClose = PebbleClose PL, elFlush = PebbleFlush PL, elBackup = PebbleBackup PL,
      elSetSync = Some setSyncWrites\<rparr>"

lemma PebbleLife_simps [simp]:
  "elOpen (PebbleLife PL) = PebbleOpen PL" "elClose (PebbleLife PL) = PebbleClose PL" "elFlush (PebbleLife PL) = PebbleFlush PL"
  "elBackup (PebbleLife PL) = PebbleBackup PL" "elSetSync (PebbleLife PL) = Some setSyncWrites"
  by (simp_all add: PebbleLife_def)

section \<open>Opening and closing a database\<close>

record ('o, 'g) Options =
  optPath :: string
  optAutoSync :: bool
  optEnableWAL :: bool
  optEngine :: "'g option"
  optPebbleOptions :: "'o option"
  optSortBufferSize :: int

definition defaultSortBufferSize :: int where "defaultSortBufferSize = 16 * 1024 * 1024"

text \<open>
  \<^verbatim>\<open>Open\<close>: the database object with the size of its sort buffer, or the error and the disk. \<open>newEngine\<close> is
  \<^verbatim>\<open>NewPebbleEngine\<close>, called when the options have no engine. An error of \<^verbatim>\<open>Close\<close> after an error of \<^verbatim>\<open>load\<close> is dropped.
\<close>

definition OpenOptions ::
    "('o, 'p, 'w) platform \<Rightarrow> ('g, 'w) engineLife \<Rightarrow> ('o option \<Rightarrow> 'g) \<Rightarrow> ('g \<times> 'w) env \<Rightarrow> ('o, 'g) Options \<Rightarrow> 'w \<Rightarrow>
       (error \<times> 'w) + (('g \<times> 'w) DB \<times> int)" where
  "OpenOptions PL L newEngine E opts w =
     (if optPath opts = '''' then Inl (Coded CodeInvalidQuery, w)
      else case osMkdirAll PL (filepathDir PL (optPath opts)) w of
             (Inl err, w) \<Rightarrow> Inl (err, w)
           | (Inr _, w) \<Rightarrow>
               (let engine = (case optEngine opts of None \<Rightarrow> newEngine (optPebbleOptions opts) | Some e \<Rightarrow> e);
                    engine = (case elSetSync L of Some f \<Rightarrow> f (optAutoSync opts) engine | None \<Rightarrow> engine)
                in case elOpen L (optPath opts) (engine, w) of
                     (Inl err, s) \<Rightarrow> Inl (err, snd s)
                   | (Inr _, s) \<Rightarrow>
                       (case load E s of
                          Inl err \<Rightarrow> Inl (err, snd (snd (elClose L s)))
                        | Inr st \<Rightarrow>
                            Inr (\<lparr>dbPath = optPath opts, dbEngine = s, dbSt = st, dbClosed = False, dbPending = [],
                                  dbDirtyMeta = False, dbDirtyFull = False\<rparr>,
                                 if optSortBufferSize opts \<le> 0 then defaultSortBufferSize else optSortBufferSize opts))))"

definition DB_Close :: "('g, 'w) engineLife \<Rightarrow> ('g \<times> 'w) DB \<Rightarrow> unit result \<times> ('g \<times> 'w) DB" where
  "DB_Close L db =
     (if dbClosed db then (Inr (), db)
      else case elClose L (dbEngine db) of (r, s) \<Rightarrow> (r, db\<lparr>dbClosed := True, dbEngine := s\<rparr>))"

definition DB_ForceSync :: "('g, 'w) engineLife \<Rightarrow> ('g \<times> 'w) DB \<Rightarrow> unit result \<times> ('g \<times> 'w) DB" where
  "DB_ForceSync L db =
     (if dbClosed db then (Inl ErrClosed, db)
      else case elFlush L (dbEngine db) of (r, s) \<Rightarrow> (r, db\<lparr>dbEngine := s\<rparr>))"

definition DB_Backup :: "('g, 'w) engineLife \<Rightarrow> string \<Rightarrow> ('g \<times> 'w) DB \<Rightarrow> unit result \<times> ('g \<times> 'w) DB" where
  "DB_Backup L dst db =
     (if dbClosed db then (Inl ErrClosed, db)
      else case elBackup L dst (dbEngine db) of (r, s) \<Rightarrow> (r, db\<lparr>dbEngine := s\<rparr>))"

text \<open>The database that \<^verbatim>\<open>Open\<close> returns is the one that is loaded from the engine it has opened.\<close>

lemma OpenOptions_ok:
  assumes "OpenOptions PL L new E opts w = Inr (db, sz)"
  obtains w1 g s where "osMkdirAll PL (filepathDir PL (optPath opts)) w = (Inr (), w1)"
    and "elOpen L (optPath opts) ((case elSetSync L of Some f \<Rightarrow> f (optAutoSync opts) g | None \<Rightarrow> g), w1) = (Inr (), s)"
    and "Open E (optPath opts) s = Inr db" and "dbEngine db = s" and "0 < sz"
proof -
  have p: "optPath opts \<noteq> ''''" using assms by (auto simp: OpenOptions_def)
  obtain r1 w1 where m: "osMkdirAll PL (filepathDir PL (optPath opts)) w = (r1, w1)" by force
  let ?g = "case optEngine opts of None \<Rightarrow> new (optPebbleOptions opts) | Some e \<Rightarrow> e"
  obtain r s where o: "elOpen L (optPath opts) ((case elSetSync L of Some f \<Rightarrow> f (optAutoSync opts) ?g | None \<Rightarrow> ?g), w1) = (r, s)"
    by (rule prod.exhaust)
  show thesis
    by (rule that [of w1 ?g s])
       (use assms p m o in \<open>auto simp: OpenOptions_def Open_def Let_def defaultSortBufferSize_def split: sum.splits if_splits\<close>)
qed

end
