(* ===== verification/Durability.thy ===== *)
theory Durability
  imports TxProps Lifecycle
begin

text \<open>
  What survives: the laws of Pebble and of the file system, the sessions of a process with crashes, restarts and backups, and
  what is found when the database, or a backup of it, is opened again.
\<close>

section \<open>The laws of the platform\<close>

text \<open>
  \<open>live\<close> is the contents of an open database, and \<open>disk w p\<close> the contents that opening the directory \<open>p\<close> may find on the disk
  \<open>w\<close> after the process that had it open is gone: a batch that was committed without \<^verbatim>\<open>Sync\<close> may be there or not. A
  checkpoint holds one of these; \<open>dirsApart p q\<close> says that neither of two directories lies in the other.
\<close>

locale pebble_platform =
  fixes PL :: "('o, 'p, 'w) platform" and live :: "'p \<times> 'w \<Rightarrow> kv" and disk :: "'w \<Rightarrow> string \<Rightarrow> kv set"
    and pathOf :: "'p \<Rightarrow> string" and dirsApart :: "string \<Rightarrow> string \<Rightarrow> bool"
  assumes handle: "pebble_db (plPebble PL b) live"
    and commit_path: "pbCommit (plPebble PL b) (h, w) ops = Inr (h', w') \<Longrightarrow> pathOf h' = pathOf h"
    and commit_disk: "pbCommit (plPebble PL b) (h, w) ops = Inr (h', w') \<Longrightarrow>
      disk w' (pathOf h) \<subseteq> (if b then {live (h', w')} else insert (live (h', w')) (disk w (pathOf h)))"
    and open_ok: "plOpen PL opts p w = (Inr h, w') \<Longrightarrow> pathOf h = p \<and> live (h, w') \<in> disk w p \<and> disk w' p \<subseteq> disk w p"
    and close_ok: "plClose PL (h, w) = (Inr (), w') \<Longrightarrow> disk w' (pathOf h) \<subseteq> {live (h, w)}"
    and flush_ok: "plFlush PL (h, w) = (Inr (), (h', w')) \<Longrightarrow>
      pathOf h' = pathOf h \<and> live (h', w') = live (h, w) \<and> disk w' (pathOf h) \<subseteq> {live (h, w)}"
    and checkpoint_ok: "plCheckpoint PL dst (h, w) = (Inr (), (h', w')) \<Longrightarrow>
      pathOf h' = pathOf h \<and> live (h', w') = live (h, w) \<and> disk w' (pathOf h) \<subseteq> disk w (pathOf h) \<and> disk w' dst \<subseteq> disk w (pathOf h)"
    and remove_ok: "osRemoveAll PL dst w = (Inr (), w') \<Longrightarrow> dirsApart dst (pathOf h) \<Longrightarrow>
      live (h, w') = live (h, w) \<and> disk w' (pathOf h) = disk w (pathOf h)"
    and mkdir_ok: "osMkdirAll PL dir w = (Inr (), w') \<Longrightarrow> disk w' p = disk w p"

definition engKv :: "('p \<times> 'w \<Rightarrow> kv) \<Rightarrow> ('o, 'p, 'w) engineState \<Rightarrow> kv" where
  "engKv live s = (case peDb (fst s) of None \<Rightarrow> (\<lambda>_. None) | Some h \<Rightarrow> live (h, snd s))"

lemma nilHandle_other: "\<not> errorIs nilHandle ErrNotFound"
  by (simp add: nilHandle_def)

sublocale pebble_platform \<subseteq> eng: storage_engine "PebbleStorage PL" "engKv live"
proof
  note laws = pebble_db.pb_get [OF handle] pebble_db.pb_absent [OF handle] pebble_db.pb_other [OF handle]
  note defs = PebbleStorage_def engKv_def PebbleGet_def
  fix s k v err lo hi es ops s'
  show "engGet (PebbleStorage PL) s k = Inr v \<Longrightarrow> engKv live s k = Some v"
    using laws by (cases s) (auto simp: defs split: option.splits sum.splits if_splits)
  show "engGet (PebbleStorage PL) s k = Inl err \<Longrightarrow> errorIs err ErrNotFound \<Longrightarrow> engKv live s k = None"
    using laws by (cases s) (fastforce simp: defs split: option.splits sum.splits if_splits)
  show "engCommit (PebbleStorage PL) s ops = Inr s' \<Longrightarrow> engKv live s' = applyBatch ops (engKv live s)"
    using pebble_db.pb_commit [OF handle] by (cases s) (auto simp: defs split: option.splits sum.splits)
  assume it: "engIter (PebbleStorage PL) s lo hi = (es, None)"
  then obtain h where h: "peDb (fst s) = Some h" "pbNewIter (plPebble PL (peSync (fst s))) (h, snd s) lo hi = (es, None)"
    by (cases s) (auto simp: defs split: option.splits)
  show "sorted_wrt (<) (map fst es)" using pebble_db.pb_sorted [OF handle h(2)] .
  show "(k, v) \<in> set es \<longleftrightarrow> inKeyRange lo hi k \<and> engKv live s k = Some v"
    using pebble_db.pb_range [OF handle h(2)] h(1) by (simp add: engKv_def)
qed

section \<open>Every call is one batch\<close>

definition oneBatch :: "'e env \<Rightarrow> 'e DB \<Rightarrow> 'e DB \<Rightarrow> bool" where
  "oneBatch E db db' \<longleftrightarrow>
     dbEngine db' = dbEngine db \<or> (\<exists>ops. engCommit (envEng E) (dbEngine db) ops = Inr (dbEngine db'))"

lemma oneBatch_commitBatch: "commitBatch E ops db1 = (r, db') \<Longrightarrow> dbEngine db1 = dbEngine db \<Longrightarrow> oneBatch E db db'"
  by (auto simp: commitBatch_def oneBatch_def split: sum.splits)

lemma oneBatch_commit: "commitLocked E db1 = (r, db') \<Longrightarrow> dbEngine db1 = dbEngine db \<Longrightarrow> oneBatch E db db'"
  by (auto simp: commitLocked_def persistFullLocked_def persistPendingLocked_def commitBatch_def clearPending_def oneBatch_def
      split: if_splits sum.splits)

lemma oneBatch_thenCommit: "thenCommit E (x, db1) = (r, db') \<Longrightarrow> dbEngine db1 = dbEngine db \<Longrightarrow> oneBatch E db db'"
  by (auto simp: thenCommit_def oneBatch_def split: sum.splits dest: oneBatch_commit [unfolded oneBatch_def])

lemma oneBatch_put: "thenCommit E (putLocked E c i raw db1) = (r, db') \<Longrightarrow> dbEngine db1 = dbEngine db \<Longrightarrow> oneBatch E db db'"
  using oneBatch_thenCommit [of E "fst (putLocked E c i raw db1)" "snd (putLocked E c i raw db1)" r db' db]
    putLocked_frame [OF surjective_pairing, of E c i raw db1] by simp

lemma oneBatch_same: "dbEngine db' = dbEngine db \<Longrightarrow> oneBatch E db db'"
  by (simp add: oneBatch_def)

lemma putNew_oneBatch: "DB_PutNew E n raw db = (Inr i, db') \<Longrightarrow> oneBatch E db db'"
proof -
  assume put: "DB_PutNew E n raw db = (Inr i, db')"
  obtain r db1 where p: "putNewLocked E n raw db = (r, db1)" by force
  then show "oneBatch E db db'" using put putNewLocked_frame [OF p] oneBatch_commit [of E db1 _ db' db]
    by (auto simp: DB_PutNew_def split: if_splits sum.splits prod.splits)
qed

lemma mergeOrPut_oneBatch: "DB_MergeOrPut E n i patch db = (Inr (), db') \<Longrightarrow> oneBatch E db db'"
proof -
  assume put: "DB_MergeOrPut E n i patch db = (Inr (), db')"
  obtain c db0 where e: "ensureCollectionLocked n db = (c, db0)" by force
  have f: "dbEngine db0 = dbEngine db" using ensureCollection_frame [OF e] by simp
  then have "thenCommit E (putLocked E c' i raw (setCol c'' db0)) = (Inr (), db') \<Longrightarrow> oneBatch E db db'"
      "thenCommit E (putLocked E c' i raw db0) = (Inr (), db') \<Longrightarrow> oneBatch E db db'" for c' c'' raw
    by (simp_all add: oneBatch_put [of E c' i raw _ "Inr ()" db' db] setCol_def setCollections_def)
  then show "oneBatch E db db'" using put
    by (auto simp: DB_MergeOrPut_def e Let_def split: sum.splits if_splits)
qed

text \<open>\<^verbatim>\<open>EnsureIndex\<close> commits the entries of the index before the catalog.\<close>

fun makesIndex :: "apiEvent \<Rightarrow> bool" where
  "makesIndex (EEnsureIndex n path kind unique) = True"
| "makesIndex ev = False"

lemma apiStep_oneBatch: "apiStep E ev db db' \<Longrightarrow> \<not> makesIndex ev \<Longrightarrow> oneBatch E db db'"
proof (cases ev)
  assume st: "apiStep E ev db db'"
  {
    case (EEnsureCollection n)
    then show ?thesis using st oneBatch_commit [of E _ _ db' db]
      by (auto simp: DB_EnsureCollection_def markMetaDirty_def split: if_splits)
  next
    case (ERemoveCollection n)
    then show ?thesis using st oneBatch_commitBatch [of E _ _ _ db' db]
      by (auto simp: DB_RemoveCollection_def dropCollectionDataAndCommitLocked_def setCollections_def oneBatch_same
          split: if_splits option.splits sum.splits)
  next
    case (ERenameCollection n n')
    then show ?thesis using st oneBatch_commit [of E _ _ db' db]
      by (auto simp: DB_RenameCollection_def markMetaDirty_def setCollections_def split: if_splits option.splits)
  next
    case (EPutNew n raw i)
    then show ?thesis using st putNew_oneBatch by simp
  next
    case (EPut n i raw)
    then show ?thesis using st oneBatch_thenCommit [of E _ _ _ db' db] putIdLocked_frame [of E n i raw db]
      by (auto simp: DB_Put_def split: if_splits) (metis surj_pair)
  next
    case (EDelete n i)
    then show ?thesis using st oneBatch_commit [of E _ _ db' db]
      by (auto simp: DB_Delete_def deleteLocked_frame split: if_splits option.splits sum.splits)
  next
    case (EPatch n i patch)
    then show ?thesis using st oneBatch_put [of E _ i _ db _ db' db]
      by (auto simp: DB_Patch_def split: if_splits option.splits sum.splits)
  next
    case (EMergeOrPut n i patch)
    then show ?thesis using st mergeOrPut_oneBatch by simp
  next
    case (ERemoveIndex n path kind)
    then show ?thesis using st oneBatch_commitBatch [of E _ _ _ db' db]
      by (auto simp: DB_RemoveIndex_def dropIndexesDataAndCommitLocked_def Let_def oneBatch_same
          split: if_splits option.splits sum.splits)
  }
qed simp


section \<open>Contents that give a version back\<close>

text \<open>
  A version of the database: the documents stored, the collections with the definitions of their indexes, and the indexes out of
  step; and the version after a call.
\<close>

type_synonym version = "docs \<times> schema \<times> int64 set"

definition isAt :: "'e env \<Rightarrow> ('e \<Rightarrow> kv) \<Rightarrow> 'e DB \<Rightarrow> version \<Rightarrow> bool" where
  "isAt E kv db v \<longleftrightarrow> (case v of (D, S, B) \<Rightarrow> dbInv E kv B db D \<and> schemaOf db = S)"

definition versionAfter :: "'e env \<Rightarrow> apiEvent \<Rightarrow> 'e DB \<Rightarrow> version \<Rightarrow> version option" where
  "versionAfter E ev db v =
     (case v of (D, S, B) \<Rightarrow>
        (case (absStep E ev D, absSchema ev S) of
           (Some D', Some S') \<Rightarrow> Some (D', S', B \<union> spoiled E ev db D)
         | _ \<Rightarrow> None))"

text \<open>The version that a transaction commits.\<close>

definition versionOf :: "txAbs \<Rightarrow> version" where
  "versionOf A = (taStored A, taSchema A, taSpoiled A)"

text \<open>A contents of the store is that of a database at a version with its catalog on disk, or without any.\<close>

definition restores :: "'e env \<Rightarrow> kv \<Rightarrow> version \<Rightarrow> bool" where
  "restores E m v \<longleftrightarrow> (\<exists>db. isAt E (\<lambda>_. m) db v \<and> onDisk E (\<lambda>_. m) db)"

lemma isAt_contents: "kv e = m \<Longrightarrow> isAt E kv (db\<lparr>dbEngine := e\<rparr>) v = isAt E (\<lambda>_. m) db v"
  by (simp add: isAt_def dbInv_def dbRel_def schemaOf_def split: prod.splits)

lemma onDisk_contents: "kv e = m \<Longrightarrow> onDisk E kv (db\<lparr>dbEngine := e\<rparr>) = onDisk E (\<lambda>_. m) db"
  by (simp add: onDisk_def persisted_def)

lemma restores_db:
  assumes "isAt E kv db v" and "onDisk E kv db"
  shows "restores E (kv (dbEngine db)) v"
  using assms isAt_contents [of kv "dbEngine db" _ E db v] onDisk_contents [of kv "dbEngine db" _ E db]
  by (auto simp: restores_def intro!: exI [of _ db])

context db_env
begin

lemma restores_open:
  assumes res: "restores E m v" and cat: "\<And>c raw. envMarshalCat E c = Inr raw \<Longrightarrow> envUnmarshalCat E raw = Inr c"
    and m: "kv e = m"
  shows "case Open E path e of
      Inl err \<Rightarrow> path = [] \<or> catalogUnread E e err
    | Inr db2 \<Rightarrow> isAt E kv db2 v"
proof -
  obtain D S B where v: "v = (D, S, B)" by (cases v)
  obtain db where db: "isAt E (\<lambda>_. m) db v" "onDisk E (\<lambda>_. m) db" using res by (auto simp: restores_def)
  let ?db = "db\<lparr>dbEngine := e\<rparr>"
  have "isAt E kv ?db v" "onDisk E kv ?db"
    using db isAt_contents [where kv = kv and e = e, OF m] onDisk_contents [where kv = kv and e = e, OF m] by simp_all
  then have "dbInv E kv B ?db D" "schemaOf ?db = S" by (simp_all add: isAt_def v)
  then show ?thesis using reopen [OF _ \<open>onDisk E kv ?db\<close> cat, of B D path]
    by (simp add: isAt_def v split: sum.splits)
qed

text \<open>A state of the database has one set of documents.\<close>

lemma dbInv_unique:
  assumes "dbInv E kv B db D" and "dbInv E kv B' db D'"
  shows "D' = D"
proof (intro ext)
  fix n i
  show "D' n i = D n i"
  proof (cases "map_of (collections db) n")
    case None
    then show ?thesis using assms by (simp add: dbInv_def dbRel_def)
  next
    case (Some c)
    have r: "colRel E B (kv (dbEngine db)) c (D n)" "colRel E B' (kv (dbEngine db)) c (D' n)"
      using assms map_of_SomeD [OF Some] by (auto simp: dbInv_def dbRel_def storeRel_def)
    show ?thesis using colRelD(1) [OF r(1), of i] colRelD(1) [OF r(2), of i]
      by (cases "kv (dbEngine db) (keyDoc (colDBID c) i)") (auto simp: rel_option_iff holds_def split: option.splits)
  qed
qed

text \<open>After a call the store gives the version back.\<close>

lemma apiStep_isAt:
  assumes "isAt E kv db v" and "countersOk db" and "apiStep E ev db db'" and "versionAfter E ev db v = Some v'"
    and "fitsStep E ev (fst v)"
  shows "isAt E kv db' v'"
proof -
  obtain D S B where v: "v = (D, S, B)" by (cases v)
  then have "dbInv E kv B db D" "schemaOf db = S" using assms(1) by (simp_all add: isAt_def)
  then show ?thesis using simulation [of B db D ev db'] assms(2-5)
    by (auto simp: stepTo_def isAt_def versionAfter_def v split: option.splits)
qed

lemma apiStep_restores:
  assumes at: "isAt E kv db v" and res: "restores E (kv (dbEngine db)) v" and at': "isAt E kv db' v'"
    and st: "apiStep E ev db db'" and after: "versionAfter E ev db v = Some v'"
  shows "restores E (kv (dbEngine db')) v'"
proof -
  obtain D S B where v: "v = (D, S, B)" by (cases v)
  have inv: "dbInv E kv B db D" using at by (simp add: isAt_def v)
  from apiStep_persists [OF inv st, of D] show ?thesis
  proof (elim disjE conjE)
    assume "persisted E kv db'"
    then show ?thesis using restores_db [OF at'] by (simp add: onDisk_def)
  next
    assume same: "db' = db" "putOf E ev D = None"
    obtain D' S' B' where v': "v' = (D', S', B')" by (cases v')
    have "B' = B" using after same(2) by (auto simp: versionAfter_def v v' spoiled_def split: option.splits)
    moreover have "S' = S" "D' = D" using at at' same(1) dbInv_unique [OF inv] by (auto simp: isAt_def v v')
    ultimately show ?thesis using res same(1) by (simp add: v v')
  qed
qed

lemma txStep_dirty: "txStep E ev db db' \<Longrightarrow> dbDirtyMeta db'"
  by (cases ev)
     (auto simp: Tx_EnsureCollection_def Tx_PutNew_def Tx_Put_def Tx_Delete_def Tx_Patch_def Tx_MergeOrPut_def markMetaDirty_def
        deleteLocked_flags Let_def split: option.splits sum.splits prod.splits if_splits
        dest!: putNewLocked_flags putIdLocked_flags putLocked_flags)

lemma writeTx_restores:
  assumes at: "isAt E kv db (D, S, B)" and res: "restores E (kv (dbEngine db)) (D, S, B)" and fn: "fn db = (Inr x, db1)"
    and run: "txRun E B db D db1 A" and tx: "WriteTx E fn db = (Inr x, db')"
  shows "isAt E kv db' (versionOf A) \<and> restores E (kv (dbEngine db')) (versionOf A) \<and> oneBatch E db db'"
proof -
  have inv: "dbInv E kv B db D" and S: "schemaOf db = S" using at by (simp_all add: isAt_def)
  have c: "commitLocked E db1 = (Inr (), db')"
    using tx fn by (auto simp: WriteTx_def split: if_splits sum.splits prod.splits)
  have r: "txRel E kv db1 D A" "dbEngine db1 = dbEngine db" using txRun_rel [OF inv run] by simp_all
  have nf: "\<not> dbDirtyFull db1" using r(1) dbRelD(4) unfolding txRel_def by blast
  have at': "isAt E kv db' (versionOf A)" using writeTx_commits [OF inv fn run tx] by (simp add: isAt_def versionOf_def)
  have "(db1 = db \<and> A = txStart B db D) \<or> dbDirtyMeta db1" using run by (cases rule: txRun.cases) (auto dest: txStep_dirty)
  then have "restores E (kv (dbEngine db')) (versionOf A)"
  proof
    assume same: "db1 = db \<and> A = txStart B db D"
    show ?thesis
    proof (cases "dbDirtyMeta db")
      case True
      then show ?thesis using commit_persists [OF c] same nf restores_db [OF at'] by (simp add: onDisk_def)
    next
      case False
      then have "db' = db" using c same nf inv by (simp add: commitLocked_def dbInv_def)
      then show ?thesis using res same S by (simp add: versionOf_def txStart_def)
    qed
  next
    assume "dbDirtyMeta db1"
    then show ?thesis using commit_persists [OF c _ nf] restores_db [OF at'] by (simp add: onDisk_def)
  qed
  then show ?thesis using at' oneBatch_commit [OF c r(2)] by blast
qed

end

lemma ensureIndex_batches:
  assumes "DB_EnsureIndex E n path kind unique db = (Inr (), db')"
  shows "\<exists>dbm. oneBatch E db dbm \<and> oneBatch E dbm db'"
proof -
  obtain c db0 where e: "ensureCollectionLocked n db = (c, db0)" by force
  have f: "dbEngine db0 = dbEngine db" using ensureCollection_frame [OF e] by simp
  obtain b db1 where l: "ensureIndexLocked E n path kind unique db = (Inr b, db1)"
    and fin: "if b then commitLocked E (markMetaDirty db1) = (Inr (), db') else db' = db1"
    using assms by (auto simp: DB_EnsureIndex_def split: prod.splits sum.splits if_splits)
  have "oneBatch E db db1"
    using l e f by (auto simp: ensureIndexLocked_def rebuildIndex_def commitBatch_def Let_def oneBatch_def setCol_def
        setCollections_def split: sum.splits prod.splits option.splits if_splits)
  moreover have "oneBatch E db1 db'"
    using fin oneBatch_commit [of E "markMetaDirty db1" _ db' db1] by (auto simp: markMetaDirty_def oneBatch_def split: if_splits)
  ultimately show ?thesis by blast
qed

section \<open>Sessions\<close>

text \<open>
  What a process does with a database in a directory: it opens it, makes calls, forces the store to disk, makes backups
  elsewhere, closes it and opens it again; and it may be gone at any time and be started again. Beside the database and its
  version a session has the versions that the disk may hold. A call that makes an index writes two batches, of which the
  first alone is no state of the database; without \<^verbatim>\<open>AutoSync\<close> it is followed by \<^verbatim>\<open>ForceSync\<close> here.
\<close>

type_synonym ('o, 'p, 'w) pebbleDB = "('o, 'p, 'w) engineState DB"

abbreviation openPebble where
  "openPebble PL \<equiv> OpenOptions PL (PebbleLife PL) (NewPebbleEngine PL)"

inductive session ::
    "('o, 'p, 'w) platform \<Rightarrow> ('p \<times> 'w \<Rightarrow> kv) \<Rightarrow> ('w \<Rightarrow> string \<Rightarrow> kv set) \<Rightarrow> (string \<Rightarrow> string \<Rightarrow> bool) \<Rightarrow>
       ('o, 'p, 'w) engineState env \<Rightarrow> ('o, ('o, 'p) pebbleEngine) Options \<Rightarrow> ('o, 'p, 'w) pebbleDB \<Rightarrow> version \<Rightarrow> version set \<Rightarrow> bool"
  for PL live disk dirsApart E opts where
  start: "openPebble PL E opts w = Inr (db, sz) \<Longrightarrow> disk w (optPath opts) = {\<lambda>_. None} \<Longrightarrow>
    session PL live disk dirsApart E opts db (\<lambda>_ _. None, \<lambda>_. None, {}) {(\<lambda>_ _. None, \<lambda>_. None, {})}"
| call: "session PL live disk dirsApart E opts db v Vs \<Longrightarrow> countersOk db \<Longrightarrow> apiStep E ev db db' \<Longrightarrow>
    versionAfter E ev db v = Some v' \<Longrightarrow> fitsStep E ev (fst v) \<Longrightarrow> \<not> makesIndex ev \<Longrightarrow>
    session PL live disk dirsApart E opts db' v' (if optAutoSync opts then {v'} else insert v' Vs)"
| index: "session PL live disk dirsApart E opts db v Vs \<Longrightarrow> countersOk db \<Longrightarrow>
    DB_EnsureIndex E n path kind unique db = (Inr (), db1) \<Longrightarrow> versionAfter E (EEnsureIndex n path kind unique) db v = Some v' \<Longrightarrow>
    DB_ForceSync (PebbleLife PL) db1 = (Inr (), db') \<Longrightarrow> session PL live disk dirsApart E opts db' v' {v'}"
| sync: "session PL live disk dirsApart E opts db v Vs \<Longrightarrow> DB_ForceSync (PebbleLife PL) db = (Inr (), db') \<Longrightarrow>
    session PL live disk dirsApart E opts db' v {v}"
| backup: "session PL live disk dirsApart E opts db v Vs \<Longrightarrow> DB_Backup (PebbleLife PL) dst db = (Inr (), db') \<Longrightarrow>
    dirsApart dst (optPath opts) \<Longrightarrow> session PL live disk dirsApart E opts db' v Vs"
| tx: "session PL live disk dirsApart E opts db (D, S, B) Vs \<Longrightarrow> (fn :: ('o, 'p, 'w) pebbleDB \<Rightarrow> unit result \<times> _) db = (r, db1) \<Longrightarrow>
    txRun E B db D db1 A \<Longrightarrow> WriteTx E fn db = (Inr (), db') \<Longrightarrow> session PL live disk dirsApart E opts db' (versionOf A)
      (if optAutoSync opts then {versionOf A} else insert (versionOf A) Vs)"
| tx_fails: "session PL live disk dirsApart E opts db v Vs \<Longrightarrow> (fn :: ('o, 'p, 'w) pebbleDB \<Rightarrow> unit result \<times> _) db = (r, db1) \<Longrightarrow>
    qeEnv Q = E \<Longrightarrow> afterOps Q (ops :: unit txOp list) db = Some db1 \<Longrightarrow> WriteTx E fn db = (Inl err, db') \<Longrightarrow>
    session PL live disk dirsApart E opts db' v Vs"
| crash: "session PL live disk dirsApart E opts db v Vs \<Longrightarrow> openPebble PL E opts (snd (dbEngine db)) = Inr (db', sz) \<Longrightarrow>
    v' \<in> Vs \<Longrightarrow> restores E (engKv live (dbEngine db')) v' \<Longrightarrow> session PL live disk dirsApart E opts db' v' Vs"
| reopen: "session PL live disk dirsApart E opts db v Vs \<Longrightarrow> DB_Close (PebbleLife PL) db = (Inr (), db1) \<Longrightarrow>
    openPebble PL E opts (snd (dbEngine db1)) = Inr (db', sz) \<Longrightarrow> session PL live disk dirsApart E opts db' v {v}"

text \<open>The errors with which the platform keeps a database from being opened: there is no path, or the directory, Pebble or the catalog fails.\<close>

definition openFails ::
    "('o, 'p, 'w) platform \<Rightarrow> ('o, 'p, 'w) engineState env \<Rightarrow> ('o, 'g) Options \<Rightarrow> 'w \<Rightarrow> error \<Rightarrow> bool" where
  "openFails PL E opts w err \<longleftrightarrow> optPath opts = []
     \<or> (\<exists>w1. osMkdirAll PL (filepathDir PL (optPath opts)) w = (Inl err, w1))
     \<or> (\<exists>w1 o' w2. osMkdirAll PL (filepathDir PL (optPath opts)) w = (Inr (), w1) \<and>
          (plOpen PL o' (optPath opts) w1 = (Inl err, w2)
           \<or> (\<exists>h e. plOpen PL o' (optPath opts) w1 = (Inr h, w2) \<and> peDb e = Some h \<and> catalogUnread E (e, w2) err)))"

text \<open>The environment of a database on Pebble; a catalog that was written reads back.\<close>

locale platform_env = pebble_platform PL live disk pathOf dirsApart
  for PL :: "('o, 'p, 'w) platform" and live :: "'p \<times> 'w \<Rightarrow> kv" and disk :: "'w \<Rightarrow> string \<Rightarrow> kv set"
    and pathOf :: "'p \<Rightarrow> string" and dirsApart :: "string \<Rightarrow> string \<Rightarrow> bool" +
  fixes E :: "('o, 'p, 'w) engineState env"
  assumes engine: "envEng E = PebbleStorage PL"
    and json: "decodeJSON (envJson E) raw = Inr v \<Longrightarrow>
      \<exists>b. marshalJSON (envJson E) v = Inr b \<and> b \<noteq> [] \<and> decodeJSON (envJson E) b = Inr v"
    and numbers: "decodeJSON (envJson E) raw = Inr v \<Longrightarrow> encodeStoredDocument (envLib E) v = Inr enc \<Longrightarrow>
      \<exists>raw'. decodeJSON (envJson E) raw' = Inr (binnNorm (envLib E) v)"
    and catalog: "envMarshalCat E c = Inr raw \<Longrightarrow> envUnmarshalCat E raw = Inr c"
    and clone_ok: "cloneOk E"

sublocale platform_env \<subseteq> env: db_env E "engKv live"
proof (intro db_env.intro db_env_axioms.intro)
  show "storage_engine (envEng E) (engKv live)" unfolding engine by (rule eng.storage_engine_axioms)
qed (rule json, assumption, rule numbers)

text \<open>An open engine at a path, and what the disk may hold there.\<close>

definition openAt :: "('p \<Rightarrow> string) \<Rightarrow> string \<Rightarrow> bool \<Rightarrow> ('o, 'p, 'w) engineState \<Rightarrow> bool" where
  "openAt pathOf p sync s \<longleftrightarrow> peSync (fst s) = sync \<and> (\<exists>h. peDb (fst s) = Some h \<and> pathOf h = p)"

definition sessionInv where
  "sessionInv pathOf disk live E opts db v Vs \<longleftrightarrow>
     isAt E (engKv live) db v \<and> restores E (engKv live (dbEngine db)) v
     \<and> openAt pathOf (optPath opts) (optAutoSync opts) (dbEngine db)
     \<and> (\<forall>m \<in> disk (snd (dbEngine db)) (optPath opts). \<exists>v' \<in> Vs. restores E m v')
     \<and> (optAutoSync opts \<longrightarrow> disk (snd (dbEngine db)) (optPath opts) \<subseteq> {engKv live (dbEngine db)})"

context platform_env
begin

lemma commit_effect:
  assumes "openAt pathOf p sync s" and "engCommit (PebbleStorage PL) s ops = Inr s'"
  shows "openAt pathOf p sync s'"
    and "disk (snd s') p \<subseteq> (if sync then {engKv live s'} else insert (engKv live s') (disk (snd s) p))"
proof -
  obtain e w h h' w' where s: "s = (e, w)" "peSync e = sync" "peDb e = Some h" "pathOf h = p"
      and c: "pbCommit (plPebble PL sync) (h, w) ops = Inr (h', w')" "s' = (e\<lparr>peDb := Some h'\<rparr>, w')"
    using assms by (cases s) (auto simp: openAt_def PebbleStorage_def split: sum.splits)
  show "openAt pathOf p sync s'" using s c(2) commit_path [OF c(1)] by (simp add: openAt_def)
  show "disk (snd s') p \<subseteq> (if sync then {engKv live s'} else insert (engKv live s') (disk (snd s) p))"
    using commit_disk [OF c(1)] s c(2) by (cases sync) (auto simp: engKv_def)
qed

lemma oneBatch_effect:
  assumes "oneBatch E db db'" and "openAt pathOf p sync (dbEngine db)"
  shows "openAt pathOf p sync (dbEngine db')"
    and "disk (snd (dbEngine db')) p \<subseteq> insert (engKv live (dbEngine db')) (disk (snd (dbEngine db)) p)"
    and "sync \<Longrightarrow> disk (snd (dbEngine db)) p \<subseteq> {engKv live (dbEngine db)} \<Longrightarrow>
      disk (snd (dbEngine db')) p \<subseteq> {engKv live (dbEngine db')}"
proof -
  consider "dbEngine db' = dbEngine db" | ops where "engCommit (PebbleStorage PL) (dbEngine db) ops = Inr (dbEngine db')"
    using assms(1) by (auto simp: oneBatch_def engine)
  then have "openAt pathOf p sync (dbEngine db')
      \<and> disk (snd (dbEngine db')) p \<subseteq> insert (engKv live (dbEngine db')) (disk (snd (dbEngine db)) p)
      \<and> (sync \<longrightarrow> disk (snd (dbEngine db)) p \<subseteq> {engKv live (dbEngine db)} \<longrightarrow>
           disk (snd (dbEngine db')) p \<subseteq> {engKv live (dbEngine db')})"
  proof cases
    case 1
    then show ?thesis using assms(2) by (simp only:) blast
  next
    case 2
    then show ?thesis using commit_effect [OF assms(2) 2] by (cases sync) auto
  qed
  then show "openAt pathOf p sync (dbEngine db')"
    and "disk (snd (dbEngine db')) p \<subseteq> insert (engKv live (dbEngine db')) (disk (snd (dbEngine db)) p)"
    and "sync \<Longrightarrow> disk (snd (dbEngine db)) p \<subseteq> {engKv live (dbEngine db)} \<Longrightarrow>
      disk (snd (dbEngine db')) p \<subseteq> {engKv live (dbEngine db')}" by blast+
qed

lemma forceSync_effect:
  assumes "DB_ForceSync (PebbleLife PL) db = (Inr (), db')" and "openAt pathOf p sync (dbEngine db)"
  shows "openAt pathOf p sync (dbEngine db')" and "engKv live (dbEngine db') = engKv live (dbEngine db)"
    and "disk (snd (dbEngine db')) p \<subseteq> {engKv live (dbEngine db)}" and "db' = db\<lparr>dbEngine := dbEngine db'\<rparr>"
proof -
  obtain e w h h' w' where s: "dbEngine db = (e, w)" "peSync e = sync" "peDb e = Some h" "pathOf h = p"
      and f: "plFlush PL (h, w) = (Inr (), (h', w'))" "db' = db\<lparr>dbEngine := (e\<lparr>peDb := Some h'\<rparr>, w')\<rparr>"
    using assms by (cases "dbEngine db")
      (auto simp: openAt_def DB_ForceSync_def PebbleFlush_def withHandle_def split: if_splits prod.splits)
  show "openAt pathOf p sync (dbEngine db')" and "engKv live (dbEngine db') = engKv live (dbEngine db)"
    and "disk (snd (dbEngine db')) p \<subseteq> {engKv live (dbEngine db)}" and "db' = db\<lparr>dbEngine := dbEngine db'\<rparr>"
    using flush_ok [OF f(1)] s f(2) by (simp_all add: openAt_def engKv_def)
qed

lemma backup_effect:
  assumes "DB_Backup (PebbleLife PL) dst db = (Inr (), db')" and "openAt pathOf p sync (dbEngine db)" and "dirsApart dst p"
  shows "openAt pathOf p sync (dbEngine db')" and "engKv live (dbEngine db') = engKv live (dbEngine db)"
    and "disk (snd (dbEngine db')) p \<subseteq> disk (snd (dbEngine db)) p" and "db' = db\<lparr>dbEngine := dbEngine db'\<rparr>"
    and "disk (snd (dbEngine db')) dst \<subseteq> disk (snd (dbEngine db)) p"
proof -
  obtain e w h w1 h' w' where s: "dbEngine db = (e, w)" "peSync e = sync" "peDb e = Some h" "pathOf h = p"
      and r: "osRemoveAll PL dst w = (Inr (), w1)"
      and f: "plCheckpoint PL dst (h, w1) = (Inr (), (h', w'))" "db' = db\<lparr>dbEngine := (e\<lparr>peDb := Some h'\<rparr>, w')\<rparr>"
    using assms(1,2) by (cases "dbEngine db")
      (auto simp: openAt_def DB_Backup_def PebbleBackup_def withHandle_def split: if_splits prod.splits sum.splits)
  show "openAt pathOf p sync (dbEngine db')" and "engKv live (dbEngine db') = engKv live (dbEngine db)"
    and "disk (snd (dbEngine db')) p \<subseteq> disk (snd (dbEngine db)) p" and "db' = db\<lparr>dbEngine := dbEngine db'\<rparr>"
    and "disk (snd (dbEngine db')) dst \<subseteq> disk (snd (dbEngine db)) p"
    using checkpoint_ok [OF f(1)] remove_ok [OF r, of h] assms(3) s f(2) by (auto simp: openAt_def engKv_def)
qed

lemma close_effect:
  assumes "DB_Close (PebbleLife PL) db = (Inr (), db')" and "openAt pathOf p sync (dbEngine db)" and "\<not> dbClosed db"
  shows "disk (snd (dbEngine db')) p \<subseteq> {engKv live (dbEngine db)}"
proof -
  obtain e w h w' where s: "dbEngine db = (e, w)" "peDb e = Some h" "pathOf h = p"
      and f: "plClose PL (h, w) = (Inr (), w')" "snd (dbEngine db') = w'"
    using assms by (cases "dbEngine db")
      (auto simp: openAt_def DB_Close_def PebbleClose_def split: if_splits prod.splits)
  then show ?thesis using close_ok [OF f(1)] by (simp add: engKv_def)
qed

lemma open_effect:
  assumes "openPebble PL E opts w = Inr (db, sz)"
  shows "openAt pathOf (optPath opts) (optAutoSync opts) (dbEngine db)" and "Open E (optPath opts) (dbEngine db) = Inr db"
    and "engKv live (dbEngine db) \<in> disk w (optPath opts)" and "disk (snd (dbEngine db)) (optPath opts) \<subseteq> disk w (optPath opts)"
proof -
  obtain w1 g s where m: "osMkdirAll PL (filepathDir PL (optPath opts)) w = (Inr (), w1)"
    and o: "PebbleOpen PL (optPath opts) (setSyncWrites (optAutoSync opts) g, w1) = (Inr (), s)"
    and r: "Open E (optPath opts) s = Inr db" "dbEngine db = s"
    by (rule OpenOptions_ok [OF assms], unfold PebbleLife_simps option.case) blast
  from o obtain h w' where h: "plOpen PL (peOpts (setSyncWrites (optAutoSync opts) g)) (optPath opts) w1 = (Inr h, w')"
      "s = ((setSyncWrites (optAutoSync opts) g)\<lparr>peDb := Some h\<rparr>, w')"
    by (auto simp: PebbleOpen_def split: prod.splits sum.splits)
  show "openAt pathOf (optPath opts) (optAutoSync opts) (dbEngine db)" and "Open E (optPath opts) (dbEngine db) = Inr db"
    and "engKv live (dbEngine db) \<in> disk w (optPath opts)" and "disk (snd (dbEngine db)) (optPath opts) \<subseteq> disk w (optPath opts)"
    using open_ok [OF h(1)] mkdir_ok [OF m] r h(2) by (auto simp: openAt_def engKv_def setSyncWrites_def)
qed

text \<open>Opening contents that restore versions succeeds unless the platform fails, and finds one of them.\<close>

lemma open_total:
  assumes "openPebble PL E opts w = Inl (err, w')" and res: "\<forall>m \<in> disk w (optPath opts). \<exists>v. restores E m v"
  shows "openFails PL E opts w err"
proof (cases "optPath opts = [] \<or> (\<exists>e w1. osMkdirAll PL (filepathDir PL (optPath opts)) w = (Inl e, w1))")
  case True
  then show ?thesis using assms(1) by (auto simp: OpenOptions_def openFails_def)
next
  case False
  then obtain w1 where m: "optPath opts \<noteq> []" "osMkdirAll PL (filepathDir PL (optPath opts)) w = (Inr (), w1)"
    by (cases "osMkdirAll PL (filepathDir PL (optPath opts)) w"; cases "fst (osMkdirAll PL (filepathDir PL (optPath opts)) w)") auto
  define e where "e = setSyncWrites (optAutoSync opts)
    (case optEngine opts of None \<Rightarrow> NewPebbleEngine PL (optPebbleOptions opts) | Some e \<Rightarrow> e)"
  obtain r w2 where o: "plOpen PL (peOpts e) (optPath opts) w1 = (r, w2)" by force
  show ?thesis
  proof (cases r)
    case (Inl e')
    then have "err = e'" using assms(1) m o by (auto simp: OpenOptions_def PebbleOpen_def Let_def e_def)
    then show ?thesis using m o Inl unfolding openFails_def by blast
  next
    case (Inr h)
    let ?e = "e\<lparr>peDb := Some h\<rparr>"
    have l: "load E (?e, w2) = Inl err" using assms(1) m o Inr
      by (auto simp: OpenOptions_def PebbleOpen_def Let_def e_def split: sum.splits)
    have "live (h, w2) \<in> disk w (optPath opts)" using open_ok [OF o [unfolded Inr]] mkdir_ok [OF m(2)] by simp
    then obtain v where v: "restores E (live (h, w2)) v" using res by blast
    have "Open E (optPath opts) (?e, w2) = Inl err" using l m(1) by (simp add: Open_def)
    then have "catalogUnread E (?e, w2) err"
      using env.restores_open [OF v catalog, of "(?e, w2)" "optPath opts"] m(1) by (simp add: engKv_def)
    then show ?thesis using m(2) o Inr unfolding openFails_def by force
  qed
qed

lemma open_restored:
  assumes op: "openPebble PL E opts w = Inr (db, sz)" and res: "\<forall>m \<in> disk w (optPath opts). \<exists>v \<in> Vs. restores E m v"
  shows "\<exists>v \<in> Vs. isAt E (engKv live) db v \<and> restores E (engKv live (dbEngine db)) v"
proof -
  obtain v where v: "v \<in> Vs" "restores E (engKv live (dbEngine db)) v" using res open_effect(3) [OF op] by blast
  have "isAt E (engKv live) db v" using env.restores_open [OF v(2) catalog refl, of "optPath opts"] open_effect(2) [OF op] by simp
  then show ?thesis using v by blast
qed

text \<open>What opening gives, in one statement.\<close>

lemma open_result:
  assumes "\<forall>m \<in> disk w (optPath opts). \<exists>v \<in> Vs. restores E m v"
  shows "case openPebble PL E opts w of
      Inl (err, _) \<Rightarrow> openFails PL E opts w err
    | Inr (db, _) \<Rightarrow> \<exists>v \<in> Vs. isAt E (engKv live) db v"
proof (cases "openPebble PL E opts w")
  case (Inl ew)
  have "\<forall>m \<in> disk w (optPath opts). \<exists>v. restores E m v" using assms by blast
  from open_total [OF _ this, of "fst ew" "snd ew"] show ?thesis using Inl by (simp add: case_prod_beta')
next
  case (Inr ds)
  then show ?thesis using open_restored [of opts w "fst ds" "snd ds"] assms by (cases ds) fastforce
qed

lemma isAt_same: "db' = db\<lparr>dbEngine := dbEngine db'\<rparr> \<Longrightarrow> engKv live (dbEngine db') = engKv live (dbEngine db) \<Longrightarrow>
    isAt E (engKv live) db v \<Longrightarrow> isAt E (engKv live) db' v"
  using isAt_contents [where kv = "engKv live" and e = "dbEngine db'" and db = db]
    isAt_contents [where kv = "engKv live" and e = "dbEngine db" and db = db] by simp

text \<open>One batch, after which the store gives \<open>v'\<close> back.\<close>

lemma sessionInv_batch:
  assumes inv: "sessionInv pathOf disk live E opts db v Vs" and b: "oneBatch E db db'"
    and "isAt E (engKv live) db' v'" and "restores E (engKv live (dbEngine db')) v'"
  shows "sessionInv pathOf disk live E opts db' v' (if optAutoSync opts then {v'} else insert v' Vs)"
  using assms oneBatch_effect [OF b] unfolding sessionInv_def by fastforce

text \<open>The state after the store was forced to disk, or after it was opened on contents that give the version back.\<close>

lemma sessionInv_sync:
  assumes at: "isAt E (engKv live) db v" and res: "restores E (engKv live (dbEngine db)) v"
    and op: "openAt pathOf (optPath opts) (optAutoSync opts) (dbEngine db)"
    and s: "DB_ForceSync (PebbleLife PL) db = (Inr (), db')"
  shows "sessionInv pathOf disk live E opts db' v {v}"
  using forceSync_effect [OF s op] isAt_same [OF _ _ at] res unfolding sessionInv_def by auto

lemma sessionInv_open:
  assumes op: "openPebble PL E opts w = Inr (db, sz)" and v: "restores E (engKv live (dbEngine db)) v"
    and res: "\<forall>m \<in> disk w (optPath opts). \<exists>v \<in> Vs. restores E m v"
    and sync: "optAutoSync opts \<longrightarrow> (\<exists>m. disk w (optPath opts) \<subseteq> {m})"
  shows "sessionInv pathOf disk live E opts db v Vs"
proof -
  have "isAt E (engKv live) db v" using env.restores_open [OF v catalog refl, of "optPath opts"] open_effect(2) [OF op] by simp
  then show ?thesis using v open_effect [OF op] res sync unfolding sessionInv_def by blast
qed

lemma sessionInv_fails:
  assumes inv: "sessionInv pathOf disk live E opts db v Vs" and fn: "fn db = (r, db1)" and k: "keeps db db1"
    and tx: "WriteTx E fn db = (Inl err, db')"
  shows "sessionInv pathOf disk live E opts db' v Vs"
proof -
  obtain D S B where v: "v = (D, S, B)" by (cases v)
  then have "dbInv E (engKv live) B db D" using inv by (simp add: sessionInv_def isAt_def)
  from env.writeTx_aborts [OF this clone_ok fn k tx] show ?thesis using inv by (simp add: sessionInv_def isAt_def v)
qed

lemma session_inv: "session PL live disk dirsApart E opts db v Vs \<Longrightarrow> sessionInv pathOf disk live E opts db v Vs"
proof (induction rule: session.induct)
  case (start w db sz)
  have kv: "engKv live (dbEngine db) = (\<lambda>_. None)" using open_effect(3) [OF start(1)] start(2) by simp
  have op: "Open E (optPath opts) (dbEngine db) = Inr db" by (rule open_effect(2) [OF start(1)])
  have "isAt E (engKv live) db (\<lambda>_ _. None, \<lambda>_. None, {})" using env.open_empty [OF op kv] by (simp add: isAt_def schemaOf_def)
  from restores_db [OF this env.open_empty_onDisk [OF op kv]]
  show ?case using sessionInv_open [OF start(1)] kv start(2) by auto
next
  case (call db v Vs ev db' v')
  then have at: "isAt E (engKv live) db v" and res: "restores E (engKv live (dbEngine db)) v" by (simp_all add: sessionInv_def)
  note at' = env.apiStep_isAt [OF at call(2-5)]
  show ?case using sessionInv_batch [OF call.IH apiStep_oneBatch [OF call(3,6)] at' env.apiStep_restores [OF at res at' call(3,4)]] .
next
  case (index db v Vs n path kind unique db1 v' db')
  then have at: "isAt E (engKv live) db v" and res: "restores E (engKv live (dbEngine db)) v"
    and op: "openAt pathOf (optPath opts) (optAutoSync opts) (dbEngine db)" by (simp_all add: sessionInv_def)
  have st: "apiStep E (EEnsureIndex n path kind unique) db db1" using index(3) by simp
  have at1: "isAt E (engKv live) db1 v'" using env.apiStep_isAt [OF at index(2) st index(4)] by (simp add: fitsStep_def)
  have "openAt pathOf (optPath opts) (optAutoSync opts) (dbEngine db1)"
    using ensureIndex_batches [OF index(3)] oneBatch_effect(1) op by blast
  then show ?case using sessionInv_sync [OF at1 env.apiStep_restores [OF at res at1 st index(4)] _ index(5)] by blast
next
  case (sync db v Vs db')
  then have "isAt E (engKv live) db v" "restores E (engKv live (dbEngine db)) v"
    "openAt pathOf (optPath opts) (optAutoSync opts) (dbEngine db)" by (simp_all add: sessionInv_def)
  then show ?case using sessionInv_sync [OF _ _ _ sync(2)] by blast
next
  case (backup db v Vs dst db')
  then have op: "openAt pathOf (optPath opts) (optAutoSync opts) (dbEngine db)" by (simp add: sessionInv_def)
  show ?case using backup.IH backup_effect [OF backup(2) op backup(3)] isAt_same [of db' db v] unfolding sessionInv_def by auto
next
  case (tx db D S B Vs fn r db1 A db')
  then have at: "isAt E (engKv live) db (D, S, B)" and res: "restores E (engKv live (dbEngine db)) (D, S, B)"
    by (simp_all add: sessionInv_def)
  have "r = Inr ()" using tx(2,4) by (auto simp: WriteTx_def split: if_splits sum.splits prod.splits)
  then have fn: "fn db = (Inr (), db1)" using tx(2) by simp
  show ?case using sessionInv_batch [OF tx.IH] env.writeTx_restores [OF at res fn tx(3,4)] by blast
next
  case (tx_fails db v Vs fn r db1 Q ops err db')
  show ?case using sessionInv_fails [OF tx_fails.IH tx_fails(2) afterOps_keeps [OF tx_fails(4)] tx_fails(5)] .
next
  case (crash db v Vs db' sz v')
  then show ?case using sessionInv_open [OF crash(2) crash(4)] by (auto simp: sessionInv_def)
next
  case (reopen db v Vs db1 db' sz)
  then have at: "isAt E (engKv live) db v" and res: "restores E (engKv live (dbEngine db)) v"
    and op: "openAt pathOf (optPath opts) (optAutoSync opts) (dbEngine db)" by (simp_all add: sessionInv_def)
  have "\<not> dbClosed db" using at by (auto simp: isAt_def dbInv_def split: prod.splits)
  from close_effect [OF reopen(2) op this] have d: "disk (snd (dbEngine db1)) (optPath opts) \<subseteq> {engKv live (dbEngine db)}" .
  then have r: "\<forall>m \<in> disk (snd (dbEngine db1)) (optPath opts). \<exists>v' \<in> {v}. restores E m v'" using res by auto
  show ?case using sessionInv_open [OF reopen(3) _ r] open_restored [OF reopen(3) r] d by blast
qed

lemma session_crash:
  assumes s: "session PL live disk dirsApart E opts db v Vs" and p: "optPath opts2 = optPath opts"
  shows "case openPebble PL E opts2 (snd (dbEngine db)) of
      Inl (err, _) \<Rightarrow> openFails PL E opts2 (snd (dbEngine db)) err
    | Inr (db', _) \<Rightarrow> \<exists>v' \<in> (if optAutoSync opts then {v} else Vs). isAt E (engKv live) db' v'"
proof (rule open_result)
  have "sessionInv pathOf disk live E opts db v Vs" using session_inv [OF s] .
  then show "\<forall>m \<in> disk (snd (dbEngine db)) (optPath opts2). \<exists>v' \<in> (if optAutoSync opts then {v} else Vs). restores E m v'"
    by (auto simp: sessionInv_def p)
qed

lemma session_close:
  assumes s: "session PL live disk dirsApart E opts db v Vs" and c: "DB_Close (PebbleLife PL) db = (Inr (), db1)"
    and p: "optPath opts2 = optPath opts"
  shows "case openPebble PL E opts2 (snd (dbEngine db1)) of
      Inl (err, _) \<Rightarrow> openFails PL E opts2 (snd (dbEngine db1)) err
    | Inr (db', _) \<Rightarrow> isAt E (engKv live) db' v"
proof -
  have inv: "isAt E (engKv live) db v" "restores E (engKv live (dbEngine db)) v"
    "openAt pathOf (optPath opts) (optAutoSync opts) (dbEngine db)" using session_inv [OF s] by (simp_all add: sessionInv_def)
  then have "\<not> dbClosed db" by (auto simp: isAt_def dbInv_def split: prod.splits)
  from close_effect [OF c inv(3) this] have "\<forall>m \<in> disk (snd (dbEngine db1)) (optPath opts2). \<exists>v' \<in> {v}. restores E m v'"
    using inv(2) p by auto
  from open_result [OF this] show ?thesis
    by (cases "openPebble PL E opts2 (snd (dbEngine db1))") (simp_all split: prod.splits)
qed

lemma session_backup:
  assumes s: "session PL live disk dirsApart E opts db v Vs" and b: "DB_Backup (PebbleLife PL) dst db = (Inr (), db1)"
    and ap: "dirsApart dst (optPath opts)" and p: "optPath opts2 = dst"
  shows "case openPebble PL E opts2 (snd (dbEngine db1)) of
      Inl (err, _) \<Rightarrow> openFails PL E opts2 (snd (dbEngine db1)) err
    | Inr (db', _) \<Rightarrow> \<exists>v' \<in> (if optAutoSync opts then {v} else Vs). isAt E (engKv live) db' v'"
proof (rule open_result)
  have inv: "sessionInv pathOf disk live E opts db v Vs" using session_inv [OF s] .
  then have "openAt pathOf (optPath opts) (optAutoSync opts) (dbEngine db)" by (simp add: sessionInv_def)
  from backup_effect(5) [OF b this ap] inv
  show "\<forall>m \<in> disk (snd (dbEngine db1)) (optPath opts2). \<exists>v' \<in> (if optAutoSync opts then {v} else Vs). restores E m v'"
    unfolding sessionInv_def p by (cases "optAutoSync opts") (simp_all, blast+)
qed

end

section \<open>A small platform\<close>

text \<open>
  A disk that keeps, for every directory, the contents a crash may leave, the newest first; opening finds the oldest of them.
\<close>

type_synonym tinyDisk = "string \<Rightarrow> memStore list"

definition tinyPebble :: "bool \<Rightarrow> ((string \<times> memStore) \<times> tinyDisk) pebble" where
  "tinyPebble b =
     \<lparr>pbGet = (\<lambda>s. pbGet memPebble (snd (fst s))), pbErrNotFound = pbErrNotFound memPebble,
      pbNewIter = (\<lambda>s. pbNewIter memPebble (snd (fst s))),
      pbCommit = (\<lambda>((p, es), w) ops. let es' = fold memApply ops es in Inr ((p, es'), w(p := (if b then [es'] else es' # w p))))\<rparr>"

definition tinyPL :: "(unit, string \<times> memStore, tinyDisk) platform" where
  "tinyPL =
     \<lparr>plPebble = tinyPebble, plSet = (\<lambda>b k v s. (Inl EOF, s)), plDelete = (\<lambda>b k s. (Inl EOF, s)),
      plOpen = (\<lambda>_ p w. (if w p = [] then Inl EOF else Inr (p, last (w p)), w)),
      plClose = (\<lambda>((p, es), w). (Inr (), w(p := [es]))),
      plFlush = (\<lambda>((p, es), w). (Inr (), ((p, es), w(p := [es])))),
      plCompact = (\<lambda>_ _ s. (Inr (), s)),
      plCheckpoint = (\<lambda>dst ((p, es), w). (Inr (), ((p, es), w(dst := w p)))),
      plZeroOptions = (), plCloneOptions = (\<lambda>_. ()), plHasLogger = (\<lambda>_. True), plDiscardLogger = (\<lambda>_. ()),
      osMkdirAll = (\<lambda>_ w. (Inr (), w)), osRemoveAll = (\<lambda>dst w. (Inr (), w(dst := [[]]))), filepathDir = (\<lambda>p. p)\<rparr>"

abbreviation tinyLive :: "(string \<times> memStore) \<times> tinyDisk \<Rightarrow> kv" where "tinyLive s \<equiv> map_of (snd (fst s))"

definition tinyOnDisk :: "tinyDisk \<Rightarrow> string \<Rightarrow> kv set" where "tinyOnDisk w p = map_of ` set (w p)"

type_synonym tinyState = "(unit, string \<times> memStore, tinyDisk) engineState"

definition tinyP :: "tinyState env" where
  "tinyP =
     \<lparr>envLib = tinyLib, envJson = tinyJson, envEng = PebbleStorage tinyPL, envMarshalCat = tinyMc, envUnmarshalCat = tinyUc,
      envCloneJSON = Inr, envNow = 7, envStat = (\<lambda>_. None), envRoom = (\<lambda>_. False)\<rparr>"

lemma tinyPL_fields [simp]:
  "plPebble tinyPL = tinyPebble" "osMkdirAll tinyPL dir w = (Inr (), w)" "osRemoveAll tinyPL dst w = (Inr (), w(dst := [[]]))"
  "plOpen tinyPL opts p w = (if w p = [] then Inl EOF else Inr (p, last (w p)), w)"
  "plClose tinyPL ((p, es), w) = (Inr (), w(p := [es]))"
  "plFlush tinyPL ((p, es), w) = (Inr (), ((p, es), w(p := [es])))"
  "plCheckpoint tinyPL dst ((p, es), w) = (Inr (), ((p, es), w(dst := w p)))"
  "plHasLogger tinyPL opts" "plZeroOptions tinyPL = ()"
  by (simp_all add: tinyPL_def)

interpretation tinyPl: pebble_platform tinyPL tinyLive tinyOnDisk fst "(\<noteq>)"
proof (intro pebble_platform.intro)
  show "pebble_db (plPebble tinyPL b) tinyLive" for b
    by unfold_locales
       (auto simp: tinyPebble_def Let_def intro: memPb.pb_get memPb.pb_absent memPb.pb_sorted
         dest: memPb.pb_other memPb.pb_range [THEN iffD1] memPb.pb_range [THEN iffD2] simp: map_of_memCommit)
qed (auto simp: tinyPebble_def tinyOnDisk_def Let_def split: if_splits)

interpretation tinyPe: platform_env tinyPL tinyLive tinyOnDisk fst "(\<noteq>)" tinyP
  by unfold_locales
     (auto simp: tinyP_def tiny_decode tiny_marshal tinyMc_def tinyUc_def cloneOk_def tiny_norm split: if_splits intro: exI [of _ tinyText])

definition tinyOpts :: "bool \<Rightarrow> string \<Rightarrow> (unit, (unit, string \<times> memStore) pebbleEngine) Options" where
  "tinyOpts sync p = \<lparr>optPath = p, optAutoSync = sync, optEnableWAL = False, optEngine = None, optPebbleOptions = None,
     optSortBufferSize = 0\<rparr>"

lemma tinyOpts_simps [simp]: "optAutoSync (tinyOpts sync p) = sync" "optPath (tinyOpts sync p) = p"
  by (simp_all add: tinyOpts_def)

definition tinyAt :: "bool \<Rightarrow> string \<Rightarrow> memStore \<Rightarrow> tinyDisk \<Rightarrow> dbState \<Rightarrow> tinyState DB" where
  "tinyAt sync p es w st =
     \<lparr>dbPath = p, dbEngine = (\<lparr>peOpts = (), peSync = sync, peDb = Some (p, es)\<rparr>, w), dbSt = st, dbClosed = False, dbPending = [],
      dbDirtyMeta = False, dbDirtyFull = False\<rparr>"

lemma tinyP_fields [simp]:
  "envLib tinyP = tinyLib" "envJson tinyP = tinyJson" "envEng tinyP = PebbleStorage tinyPL"
  "envMarshalCat tinyP = tinyMc" "envUnmarshalCat tinyP = tinyUc" "envNow tinyP = 7" "envCloneJSON tinyP = Inr"
  by (simp_all add: tinyP_def)

lemma tinyPL_simps [simp]:
  "engGet (PebbleStorage tinyPL) (\<lparr>peOpts = (), peSync = b, peDb = Some (p, es)\<rparr>, w) k
     = (case map_of es k of None \<Rightarrow> Inl ErrNotFound | Some v \<Rightarrow> Inr v)"
  "engCommit (PebbleStorage tinyPL) (\<lparr>peOpts = (), peSync = b, peDb = Some (p, es)\<rparr>, w) ops
     = Inr (\<lparr>peOpts = (), peSync = b, peDb = Some (p, fold memApply ops es)\<rparr>,
            w(p := (if b then [fold memApply ops es] else fold memApply ops es # w p)))"
  by (auto simp: PebbleStorage_def tinyPebble_def PebbleGet_def memPebble_def Let_def split: option.splits)

lemma tinyP_openNew:
  assumes "p \<noteq> ''''" and "w p \<noteq> []" and "last (w p) = []"
  shows "openPebble tinyPL tinyP (tinyOpts sync p) w = Inr (tinyAt sync p [] w (newState 7), defaultSortBufferSize)"
  using assms by (simp add: OpenOptions_def tinyOpts_def NewPebbleEngine_def PebbleOpen_def setSyncWrites_def load_def tinyAt_def
      prepareState_def newState_def Let_def)

abbreviation tinyEntries :: memStore where
  "tinyEntries \<equiv> [(keyMetaState, [1]), (keySeq 2, putU64 [] 1), (keyDoc 2 1, [0xe2, 7, 1, 1, 0x61, 0x20, 1])]"

lemma tinyP_put:
  "DB_Put tinyP ''c'' 1 tinyText (tinyAt sync p [] w (newState 7))
     = (Inr (), tinyAt sync p tinyEntries (w(p := (if sync then [tinyEntries] else tinyEntries # w p))) tinySt)"
proof -
  have d: "tinyDoc \<noteq> VNil" by (simp add: tinyDoc_def)
  let ?db = "tinyAt sync p [] w (newState 7)"
  have o: "\<not> dbClosed ?db" by (simp add: tinyAt_def)
  have "putIdLocked tinyP ''c'' 1 tinyText ?db =
     (Inr (), ?db\<lparr>dbSt := tinySt, dbPending := [\<lparr>mKind = mutationPut, mCollection = ''c'', mId = 1,
        mOldRaw = [], mNewRaw = tinyText, mOldDoc = VNil, mNewDoc = tinyDoc\<rparr>], dbDirtyMeta := True\<rparr>)"
    by (simp add: tinyAt_def tiny_put_defs tinySt_def tinyCol_def)
  then have "DB_Put tinyP ''c'' 1 tinyText ?db
      = commitLocked tinyP (?db\<lparr>dbSt := tinySt, dbPending := [\<lparr>mKind = mutationPut, mCollection = ''c'', mId = 1,
        mOldRaw = [], mNewRaw = tinyText, mOldDoc = VNil, mNewDoc = tinyDoc\<rparr>], dbDirtyMeta := True\<rparr>)"
    using o by (simp add: DB_Put_def thenCommit_def)
  then show ?thesis
    using d by (simp add: tiny_commit_defs tinyMc_def tinyAt_def tinySt_def tinyCol_def Let_def)
qed

abbreviation tinyW :: tinyDisk where "tinyW \<equiv> (\<lambda>_. [[]])"

abbreviation tinyAfter :: "bool \<Rightarrow> tinyState DB" where
  "tinyAfter sync \<equiv> tinyAt sync ''p'' tinyEntries (tinyW(''p'' := (if sync then [tinyEntries] else [tinyEntries, []]))) tinySt"

definition tinyVersion :: version where
  "tinyVersion = (tinyDocs, (\<lambda>_. None)(''c'' \<mapsto> {}), {})"

lemma tinyP_version:
  "versionAfter tinyP (EPut ''c'' 1 tinyText) db (\<lambda>_ _. None, \<lambda>_. None, {}) = Some tinyVersion"
  "fitsStep tinyP (EPut ''c'' 1 tinyText) D"
proof -
  have st: "storedForm tinyP tinyDoc = tinyDoc" by (simp add: storedForm_def tiny_norm)
  have sp: "spoils tinyP cols n tinyDoc = {}" for cols n by (simp add: spoils_def stable_def st split: option.splits)
  show "versionAfter tinyP (EPut ''c'' 1 tinyText) db (\<lambda>_ _. None, \<lambda>_. None, {}) = Some tinyVersion"
    by (simp add: versionAfter_def tinyVersion_def absStep_def putEffect_def parsed_def tiny_decode st sp spoiled_def made_def tinyDocs_def)
  have "fits tinyP tinyDoc = fits tinyE tinyDoc" by (simp add: fits_def idxVals_def storedForm_def)
  then show "fitsStep tinyP (EPut ''c'' 1 tinyText) D" using tiny_fits by (simp add: fitsStep_def parsed_def tiny_decode)
qed

lemma tiny_session:
  "session tinyPL tinyLive tinyOnDisk (\<noteq>) tinyP (tinyOpts sync ''p'') (tinyAfter sync) tinyVersion
     (if sync then {tinyVersion} else {tinyVersion, (\<lambda>_ _. None, \<lambda>_. None, {})})"
proof -
  have "session tinyPL tinyLive tinyOnDisk (\<noteq>) tinyP (tinyOpts sync ''p'') (tinyAt sync ''p'' [] tinyW (newState 7))
      (\<lambda>_ _. None, \<lambda>_. None, {}) {(\<lambda>_ _. None, \<lambda>_. None, {})}"
    by (rule session.start [OF tinyP_openNew]) (simp_all add: tinyOnDisk_def tinyOpts_def)
  moreover have "countersOk (tinyAt sync ''p'' [] tinyW (newState 7))"
    by (simp add: countersOk_def room_def tinyAt_def newState_def)
  moreover have "apiStep tinyP (EPut ''c'' 1 tinyText) (tinyAt sync ''p'' [] tinyW (newState 7)) (tinyAfter sync)"
    by (simp add: tinyP_put)
  moreover have "\<not> makesIndex (EPut ''c'' 1 tinyText)" by simp
  ultimately have "session tinyPL tinyLive tinyOnDisk (\<noteq>) tinyP (tinyOpts sync ''p'') (tinyAfter sync) tinyVersion
     (if optAutoSync (tinyOpts sync ''p'') then {tinyVersion} else insert tinyVersion {(\<lambda>_ _. None, \<lambda>_. None, {})})"
    using tinyP_version by (intro session.call)
  then show ?thesis by simp
qed

lemma tinyP_open:
  assumes "p \<noteq> ''''" and "w p \<noteq> []" and "last (w p) = tinyEntries"
  shows "\<exists>db. openPebble tinyPL tinyP (tinyOpts sync p) w = Inr (db, defaultSortBufferSize)"
  using assms by (simp add: OpenOptions_def tinyOpts_def NewPebbleEngine_def PebbleOpen_def setSyncWrites_def load_def
      decodeCatalog_def tinyUc_def catalogFromState_def Let_def)

section \<open>The properties\<close>







text \<open>Without either, a backup may lack what was committed: here a document that was put before it.\<close>

lemma backup_misses_put:
  "\<exists>db1 db'. DB_Backup (PebbleLife tinyPL) ''q'' (tinyAfter False) = (Inr (), db1)
     \<and> openPebble tinyPL tinyP (tinyOpts False ''q'') (snd (dbEngine db1)) = Inr (db', defaultSortBufferSize)
     \<and> DB_Get tinyP ''c'' 1 db' = Inl ErrNotFound"
proof -
  obtain db1 where b: "DB_Backup (PebbleLife tinyPL) ''q'' (tinyAfter False) = (Inr (), db1)" "snd (dbEngine db1) ''q'' = [tinyEntries, []]"
    by (simp add: DB_Backup_def PebbleBackup_def withHandle_def tinyAt_def)
  have "openPebble tinyPL tinyP (tinyOpts False ''q'') (snd (dbEngine db1))
      = Inr (tinyAt False ''q'' [] (snd (dbEngine db1)) (newState 7), defaultSortBufferSize)"
    by (rule tinyP_openNew) (simp_all add: b(2))
  moreover have "DB_Get tinyP ''c'' 1 (tinyAt False ''q'' [] w (newState 7)) = Inl ErrNotFound" for w
    by (simp add: DB_Get_def getDocRaw_def tinyAt_def newState_def)
  ultimately show ?thesis using b(1) by blast
qed

end
