(* ===== verification/Cursor.thy ===== *)
theory Cursor
  imports IndexScan
begin

text \<open>
  The iterators of \<^verbatim>\<open>storage.go\<close> (lines 189-259) as cursors that are moved, with the two loops that drive them:
  \<^verbatim>\<open>scanPrefix\<close> and that of \<^verbatim>\<open>scanOrderedRange\<close> in \<^verbatim>\<open>db.go\<close>. On an iterator of Pebble both loops end, and they give what the scans
  over the list of delivered entries (\<open>Engine\<close>, \<open>IndexScan\<close>) give.
\<close>

section \<open>Iterators\<close>

text \<open>What the wrappers use of Pebble: a new iterator with bounds, its moves, and the entry it stands on.\<close>

record ('p, 'c) pebbleIter =
  piNew :: "'p \<Rightarrow> bytes \<Rightarrow> bytes \<Rightarrow> 'c result"
  piFirst :: "'c \<Rightarrow> bool \<times> 'c"
  piNext :: "'c \<Rightarrow> bool \<times> 'c"
  piLast :: "'c \<Rightarrow> bool \<times> 'c"
  piPrev :: "'c \<Rightarrow> bool \<times> 'c"
  piValid :: "'c \<Rightarrow> bool"
  piKey :: "'c \<Rightarrow> bytes"
  piValue :: "'c \<Rightarrow> bytes"
  piError :: "'c \<Rightarrow> error option"

text \<open>
  The interface \<^verbatim>\<open>StorageIterator\<close>; \<open>itReverse\<close> has \<^verbatim>\<open>Last\<close> and \<^verbatim>\<open>Prev\<close> when the value is a \<^verbatim>\<open>reverseStorageIterator\<close> as well.
\<close>

record 'c StorageIterator =
  itFirst :: "'c \<Rightarrow> bool \<times> 'c"
  itNext :: "'c \<Rightarrow> bool \<times> 'c"
  itValid :: "'c \<Rightarrow> bool"
  itKey :: "'c \<Rightarrow> bytes"
  itValue :: "'c \<Rightarrow> bytes"
  itError :: "'c \<Rightarrow> error option"
  itReverse :: "(('c \<Rightarrow> bool \<times> 'c) \<times> ('c \<Rightarrow> bool \<times> 'c)) option"

definition pebbleIterator :: "('p, 'c) pebbleIter \<Rightarrow> 'c StorageIterator" where
  "pebbleIterator PI =
     \<lparr>itFirst = piFirst PI, itNext = piNext PI, itValid = piValid PI, itKey = piKey PI, itValue = piValue PI, itError = piError PI,
      itReverse = Some (piLast PI, piPrev PI)\<rparr>"

text \<open>What a query reads from: the engine or a snapshot of it, both with the reads of Pebble.\<close>

record ('q, 'c) queryReader =
  rdGet :: "'q \<Rightarrow> bytes \<Rightarrow> bytes result"
  rdNewIterator :: "'q \<Rightarrow> bytes \<Rightarrow> bytes \<Rightarrow> 'c result"
  rdIter :: "'c StorageIterator"

definition pebbleSnapshot :: "'p pebble \<Rightarrow> ('p, 'c) pebbleIter \<Rightarrow> ('p, 'c) queryReader" where
  "pebbleSnapshot P PI =
     \<lparr>rdGet = (\<lambda>s key. case pbGet P s key of
                 Inl err \<Rightarrow> if errorIs err (pbErrNotFound P) then Inl ErrNotFound else Inl err
               | Inr val \<Rightarrow> Inr val),
      rdNewIterator = (\<lambda>s lower upper. case piNew PI s lower upper of Inl err \<Rightarrow> Inl err | Inr it \<Rightarrow> Inr it),
      rdIter = pebbleIterator PI\<rparr>"

section \<open>The loops\<close>

text \<open>
  \<^verbatim>\<open>for ok := start; ok; ok = step()\<close>: the body returns (\<open>Inl\<close>) or goes on with the variables it has changed (\<open>Inr\<close>).
  Nothing bounds the number of rounds.
\<close>

partial_function (option) cursorLoop ::
    "('c \<Rightarrow> bool \<times> 'c) \<Rightarrow> ('c \<Rightarrow> 's \<Rightarrow> 'r + 's) \<Rightarrow> ('c \<Rightarrow> 's \<Rightarrow> 'r) \<Rightarrow> bool \<times> 'c \<Rightarrow> 's \<Rightarrow> 'r option" where
  "cursorLoop step body finish p s =
     (if fst p then
        (case body (snd p) s of Inl r \<Rightarrow> Some r | Inr s' \<Rightarrow> cursorLoop step body finish (step (snd p)) s')
      else Some (finish (snd p) s))"

definition itResult :: "'c StorageIterator \<Rightarrow> 'c \<Rightarrow> 's \<Rightarrow> 's result" where
  "itResult I c s = (case itError I c of None \<Rightarrow> Inr s | Some e \<Rightarrow> Inl e)"

definition scanPrefixIt ::
    "('q, 'c) queryReader \<Rightarrow> 'q \<Rightarrow> bytes \<Rightarrow> (bytes \<Rightarrow> bytes \<Rightarrow> 's \<Rightarrow> 's result) \<Rightarrow> 's \<Rightarrow> 's result option" where
  "scanPrefixIt R r prefix fn s =
     (let I = rdIter R in
      case rdNewIterator R r prefix (prefixEnd prefix) of
        Inl err \<Rightarrow> Some (Inl err)
      | Inr it \<Rightarrow>
          cursorLoop (itNext I)
            (\<lambda>it s. if \<not> HasPrefix (itKey I it) prefix then Inl (itResult I it s)
                   else case fn (itKey I it) (itValue I it) s of Inl err \<Rightarrow> Inl (Inl err) | Inr s' \<Rightarrow> Inr s')
            (itResult I) (itFirst I it) s)"

text \<open>\<open>rangeBody\<close> decodes an entry and hands its id over; \<open>collectBody\<close> keeps the entry.\<close>

definition rangeBody :: "indexState \<Rightarrow> 's yield \<Rightarrow> bytes \<Rightarrow> bytes \<Rightarrow> 's \<Rightarrow> 's result + 's" where
  "rangeBody idx add k v s =
     (case decodeEntry idx k v of
        Inl err \<Rightarrow> Inl (Inl err)
      | Inr (_, i) \<Rightarrow>
          (case add i s of Inl err \<Rightarrow> Inl (Inl err) | Inr (cont, s) \<Rightarrow> if cont then Inr s else Inl (Inr s)))"

definition collectBody :: "indexState \<Rightarrow> bytes \<Rightarrow> bytes \<Rightarrow> indexEntry list \<Rightarrow> indexEntry list result + indexEntry list" where
  "collectBody idx k v es = (case decodeEntry idx k v of Inl err \<Rightarrow> Inl (Inl err) | Inr e \<Rightarrow> Inr (es @ [e]))"

abbreviation atEntry :: "'c StorageIterator \<Rightarrow> (bytes \<Rightarrow> bytes \<Rightarrow> 'a) \<Rightarrow> 'c \<Rightarrow> 'a" where
  "atEntry I f it \<equiv> f (itKey I it) (itValue I it)"

definition scanOrderedRangeIt ::
    "go_lib \<Rightarrow> ('q, 'c) queryReader \<Rightarrow> 'q \<Rightarrow> indexState \<Rightarrow> 's yield \<Rightarrow> bytes \<Rightarrow> bytes \<Rightarrow> bool \<Rightarrow> 's \<Rightarrow> 's result option" where
  "scanOrderedRangeIt L R r idx add lower upper desc s =
     (let I = rdIter R in
      if lower \<noteq> [] \<and> upper \<noteq> [] \<and> upper \<le> lower then Some (Inr s)
      else case rdNewIterator R r lower upper of
             Inl err \<Rightarrow> Some (Inl err)
           | Inr it \<Rightarrow>
               if desc then
                 (case itReverse I of
                    Some (toLast, toPrev) \<Rightarrow> cursorLoop toPrev (atEntry I (rangeBody idx add)) (itResult I) (toLast it) s
                  | None \<Rightarrow>
                      (case cursorLoop (itNext I) (atEntry I (collectBody idx)) (itResult I) (itFirst I it) [] of
                         None \<Rightarrow> None
                       | Some (Inl err) \<Rightarrow> Some (Inl err)
                       | Some (Inr es) \<Rightarrow> Some (emitIDs add (map snd (sortEntries L idx True es)) s)))
               else cursorLoop (itNext I) (atEntry I (rangeBody idx add)) (itResult I) (itFirst I it) s)"

section \<open>The entries an iterator delivers\<close>

text \<open>
  \<open>delivers I step p es err\<close>: from the outcome \<open>p\<close> of a move on, moving with \<open>step\<close> stands on the entries \<open>es\<close> one after the other,
  without an error there, and then comes to an end that reports \<open>err\<close>.
\<close>

fun delivers :: "'c StorageIterator \<Rightarrow> ('c \<Rightarrow> bool \<times> 'c) \<Rightarrow> bool \<times> 'c \<Rightarrow> (bytes \<times> bytes) list \<Rightarrow> error option \<Rightarrow> bool" where
  "delivers I step p [] err \<longleftrightarrow> \<not> fst p \<and> itError I (snd p) = err"
| "delivers I step p ((k, v) # es) err \<longleftrightarrow>
     fst p \<and> itKey I (snd p) = k \<and> itValue I (snd p) = v \<and> itError I (snd p) = None \<and> delivers I step (step (snd p)) es err"

lemma delivers_Cons:
  "delivers I step p (x # es) err \<longleftrightarrow>
     fst p \<and> itKey I (snd p) = fst x \<and> itValue I (snd p) = snd x \<and> itError I (snd p) = None \<and> delivers I step (step (snd p)) es err"
  by (cases x) simp

text \<open>A loop over such entries ends, and it is a recursion over them.\<close>

fun overEntries :: "(bytes \<Rightarrow> bytes \<Rightarrow> 's \<Rightarrow> 's result + 's) \<Rightarrow> (bytes \<times> bytes) list \<Rightarrow> error option \<Rightarrow> 's \<Rightarrow> 's result" where
  "overEntries f [] err s = (case err of None \<Rightarrow> Inr s | Some e \<Rightarrow> Inl e)"
| "overEntries f ((k, v) # es) err s = (case f k v s of Inl r \<Rightarrow> r | Inr s' \<Rightarrow> overEntries f es err s')"

lemma cursorLoop_ends:
  assumes "delivers I step p es err"
    and "\<And>c s. itError I c = None \<Longrightarrow> body c s = f (itKey I c) (itValue I c) s"
  shows "cursorLoop step body (itResult I) p s = Some (overEntries f es err s)"
  using assms(1)
proof (induction es arbitrary: p s)
  case Nil
  then show ?case by (subst cursorLoop.simps) (simp add: itResult_def)
next
  case (Cons x es)
  obtain k v where x: "x = (k, v)" by force
  then have "body (snd p) s = f k v s" using Cons.prems assms(2) by simp
  then show ?case using Cons x by (subst cursorLoop.simps) (simp split: sum.split)
qed

lemma overEntries_scan:
  "\<forall>(k, v) \<in> set es. HasPrefix k prefix \<Longrightarrow>
   overEntries (\<lambda>k v s. if \<not> HasPrefix k prefix then Inl (Inr s)
                        else case fn k v s of Inl err \<Rightarrow> Inl (Inl err) | Inr s' \<Rightarrow> Inr s') es err s
     = scanEntries prefix fn es err s"
proof (induction es arbitrary: s)
  case (Cons x es)
  then obtain k v where "x = (k, v)" "HasPrefix k prefix" by auto
  then show ?case using Cons by (simp split: sum.split)
qed simp

lemma overEntries_range: "overEntries (rangeBody idx add) es err s = rangeLoop idx add es err s"
proof (induction es arbitrary: s)
  case (Cons x es)
  then show ?case by (cases x) (simp add: rangeBody_def split: sum.split)
qed simp

lemma overEntries_collect:
  "overEntries (collectBody idx) es err xs =
     (case decodeEntries idx es of Inl e \<Rightarrow> Inl e | Inr ys \<Rightarrow> (case err of None \<Rightarrow> Inr (xs @ ys) | Some e \<Rightarrow> Inl e))"
proof (induction es arbitrary: xs)
  case (Cons x es)
  then show ?case by (cases x) (simp add: collectBody_def split: sum.split option.split)
qed (simp split: option.split)

text \<open>The two loops of \<^verbatim>\<open>scanOrderedRange\<close>, and its collecting of the entries where the iterator has no way back.\<close>

lemma scanOrderedRangeIt_ends:
  assumes new: "rdNewIterator R r lower upper = Inr c" and list: "engIter eng e lower upper = (es, err)"
    and forward: "delivers (rdIter R) (itNext (rdIter R)) (itFirst (rdIter R) c) es err"
    and backward: "\<And>l p. itReverse (rdIter R) = Some (l, p) \<Longrightarrow> delivers (rdIter R) p (l c) (rev es) err"
  shows "scanOrderedRangeIt L R r idx add lower upper desc s =
    Some (scanOrderedRange L eng (itReverse (rdIter R) \<noteq> None) e idx add lower upper desc s)"
proof (cases "lower \<noteq> [] \<and> upper \<noteq> [] \<and> upper \<le> lower")
  case True
  then show ?thesis by (auto simp: scanOrderedRangeIt_def scanOrderedRange_def Let_def)
next
  case False
  show ?thesis
  proof (cases "itReverse (rdIter R)")
    case None
    then show ?thesis
      by (simp only: scanOrderedRangeIt_def scanOrderedRange_def False new list)
         (simp add: cursorLoop_ends [OF forward, of _ "rangeBody idx add"] cursorLoop_ends [OF forward, of _ "collectBody idx"]
            overEntries_range overEntries_collect split: sum.split option.split)
  next
    case (Some lp)
    then show ?thesis
      by (cases lp, simp only: scanOrderedRangeIt_def scanOrderedRange_def False new list)
         (simp add: cursorLoop_ends [OF forward, of _ "rangeBody idx add"]
            cursorLoop_ends [OF backward, of _ _ _ "rangeBody idx add"] overEntries_range)
  qed
qed

section \<open>The iterators of Pebble\<close>

text \<open>
  The documented behaviour: an iterator stands on the entries between its bounds, forward in the order of \<open>pbNewIter\<close> and
  backward in the opposite order, and it reports an error only where it stops. Where forward meets no error, backward meets none.
\<close>

locale pebble_cursor = pebble_db P pkv for P :: "'p pebble" and pkv :: "'p \<Rightarrow> kv" +
  fixes PI :: "('p, 'c) pebbleIter"
  assumes fails: "piNew PI d lo hi = Inl e \<Longrightarrow> pbNewIter P d lo hi = ([], Some e)"
    and forward: "piNew PI d lo hi = Inr c \<Longrightarrow> pbNewIter P d lo hi = (es, err) \<Longrightarrow>
      delivers (pebbleIterator PI) (piNext PI) (piFirst PI c) es err"
    and backward: "piNew PI d lo hi = Inr c \<Longrightarrow> pbNewIter P d lo hi = (es, None) \<Longrightarrow>
      delivers (pebbleIterator PI) (piPrev PI) (piLast PI c) (rev es) None"
    and bounds: "pbNewIter P d lo hi = (es, err) \<Longrightarrow> (k, v) \<in> set es \<Longrightarrow> inKeyRange lo hi k"
begin

lemma reader: "rdNewIterator (pebbleSnapshot P PI) = piNew PI" "rdIter (pebbleSnapshot P PI) = pebbleIterator PI"
  "rdGet (pebbleSnapshot P PI) = engGet (PebbleEngine P)"
  "itNext (pebbleIterator PI) = piNext PI" "itFirst (pebbleIterator PI) = piFirst PI"
  "itReverse (pebbleIterator PI) = Some (piLast PI, piPrev PI)"
  by (simp_all add: pebbleSnapshot_def pebbleIterator_def PebbleEngine_def PebbleGet_def fun_eq_iff split: sum.split)

text \<open>\<^verbatim>\<open>scanPrefix\<close> returns, with what the scan of the list gives.\<close>

lemma scanPrefix_returns:
  "scanPrefixIt (pebbleSnapshot P PI) d prefix fn s = Some (scanPrefix (PebbleEngine P) d prefix fn s)"
proof (cases "piNew PI d prefix (prefixEnd prefix)")
  case (Inl e)
  then show ?thesis using fails [OF Inl] by (simp add: scanPrefixIt_def reader scanPrefix_def PebbleEngine_def Let_def)
next
  case (Inr c)
  obtain es err where it: "pbNewIter P d prefix (prefixEnd prefix) = (es, err)" by force
  let ?f = "\<lambda>k v s. if \<not> HasPrefix k prefix then Inl (Inr s)
                    else case fn k v s of Inl err \<Rightarrow> Inl (Inl err) | Inr s' \<Rightarrow> Inr s'"
  have "scanPrefixIt (pebbleSnapshot P PI) d prefix fn s = Some (overEntries ?f es err s)"
    unfolding scanPrefixIt_def Let_def reader Inr sum.case
    by (rule cursorLoop_ends [OF forward [OF Inr it]]) (simp add: itResult_def)
  also have "overEntries ?f es err s = scanEntries prefix fn es err s"
    by (rule overEntries_scan) (use bounds [OF it] prefix_range in auto)
  finally show ?thesis by (simp add: scanPrefix_def PebbleEngine_def it)
qed

text \<open>So does \<^verbatim>\<open>scanOrderedRange\<close>, when the iteration meets no error.\<close>

lemma scanOrderedRange_returns:
  assumes it: "pbNewIter P d lower upper = (es, None)"
  shows "scanOrderedRangeIt L (pebbleSnapshot P PI) d idx add lower upper desc s =
    Some (scanOrderedRange L (PebbleEngine P) True d idx add lower upper desc s)"
proof (cases "piNew PI d lower upper")
  case (Inl e)
  then show ?thesis using fails [OF Inl] it by simp
next
  case (Inr c)
  have "engIter (PebbleEngine P) d lower upper = (es, None)" using it by (simp add: PebbleEngine_def)
  moreover have "rdNewIterator (pebbleSnapshot P PI) d lower upper = Inr c" by (simp add: reader Inr)
  ultimately show ?thesis
    using scanOrderedRangeIt_ends [of "pebbleSnapshot P PI" d lower upper c "PebbleEngine P" d es None]
      forward [OF Inr it] backward [OF Inr it] by (simp add: reader)
qed

end

section \<open>A cursor on the reference engine\<close>

text \<open>The position is 0 in front of the entries and one more than their number behind them.\<close>

type_synonym memCursor = "(bytes \<times> bytes) list \<times> nat"

definition memAt :: "memCursor \<Rightarrow> bool \<times> memCursor" where
  "memAt c = (0 < snd c \<and> snd c \<le> length (fst c), c)"

definition memIter :: "(memStore, memCursor) pebbleIter" where
  "memIter =
     \<lparr>piNew = (\<lambda>es lo hi. Inr (fst (engIter memEngine es lo hi), 0)),
      piFirst = (\<lambda>(es, i). memAt (es, 1)), piNext = (\<lambda>(es, i). memAt (es, i + 1)),
      piLast = (\<lambda>(es, i). memAt (es, length es)), piPrev = (\<lambda>(es, i). memAt (es, i - 1)),
      piValid = (\<lambda>c. fst (memAt c)), piKey = (\<lambda>(es, i). fst (es ! (i - 1))), piValue = (\<lambda>(es, i). snd (es ! (i - 1))),
      piError = (\<lambda>_. None)\<rparr>"

lemma mem_forward: "delivers (pebbleIterator memIter) (piNext memIter) (memAt (es, Suc n)) (drop n es) None"
proof (induction "length es - n" arbitrary: n)
  case 0
  then show ?case by (simp add: memAt_def pebbleIterator_def memIter_def)
next
  case (Suc m)
  then have "n < length es" "m = length es - Suc n" by simp_all
  moreover from this(1) have "drop n es = es ! n # drop (Suc n) es" by (simp add: Cons_nth_drop_Suc)
  ultimately show ?case using Suc.hyps(1) [of "Suc n"] by (simp add: memAt_def [of "(es, Suc n)"] pebbleIterator_def memIter_def delivers_Cons)
qed

lemma mem_backward: "n \<le> length es \<Longrightarrow> delivers (pebbleIterator memIter) (piPrev memIter) (memAt (es, n)) (rev (take n es)) None"
proof (induction n)
  case 0
  then show ?case by (simp add: memAt_def pebbleIterator_def memIter_def)
next
  case (Suc n)
  then have "rev (take (Suc n) es) = es ! n # rev (take n es)" by (simp add: take_Suc_conv_app_nth)
  then show ?case using Suc by (simp add: memAt_def [of "(es, Suc n)"] pebbleIterator_def memIter_def delivers_Cons)
qed

interpretation memCur: pebble_cursor memPebble map_of memIter
proof unfold_locales
  fix d :: memStore and lo hi c es err k v e
  show "piNew memIter d lo hi = Inl e \<Longrightarrow> pbNewIter memPebble d lo hi = ([], Some e)" by (simp add: memIter_def)
  assume it: "pbNewIter memPebble d lo hi = (es, err)"
  then have err: "err = None" by (auto simp: memPebble_def memEngine_def)
  show "inKeyRange lo hi k" if "(k, v) \<in> set es" using memPb.pb_range [OF it [unfolded err]] that by blast
  assume "piNew memIter d lo hi = Inr c"
  then have c: "c = (es, 0)" using it by (simp add: memIter_def memPebble_def)
  show "delivers (pebbleIterator memIter) (piNext memIter) (piFirst memIter c) es err"
    using mem_forward [of es 0] by (simp add: c err memIter_def)
next
  fix d :: memStore and lo hi c es
  assume it: "pbNewIter memPebble d lo hi = (es, None)" and "piNew memIter d lo hi = Inr c"
  then have c: "c = (es, 0)" by (simp add: memIter_def memPebble_def)
  show "delivers (pebbleIterator memIter) (piPrev memIter) (piLast memIter c) (rev es) None"
    using mem_backward [of "length es" es] by (simp add: c memIter_def)
qed

section \<open>The scan of a prefix\<close>

lemma scanEntries_error:
  "scanEntries prefix (\<lambda>k v acc. Inr (f k v acc)) es err s = Inl e \<Longrightarrow> err = Some e"
  by (induction es arbitrary: s) (auto split: if_splits option.splits)

text \<open>
  C28: a prefix scan over an iterator of Pebble ends. When it reports no error it has visited every entry whose key has the
  prefix, each once, in the order of the keys, and no other entry.
\<close>

theorem scanPrefix_complete:
  assumes "pebble_cursor P pkv PI"
  shows "\<exists>r. scanPrefixIt (pebbleSnapshot P PI) d prefix (\<lambda>k v acc. Inr (acc @ [(k, v)])) [] = Some r \<and>
    (case r of
       Inl err \<Rightarrow> snd (pbNewIter P d prefix (prefixEnd prefix)) = Some err
     | Inr es \<Rightarrow> sorted_wrt (<) (map fst es) \<and> (\<forall>k v. (k, v) \<in> set es \<longleftrightarrow> HasPrefix k prefix \<and> pkv d k = Some v))"
proof -
  let ?add = "\<lambda>k v acc. Inr (acc @ [(k, v)])"
  note eq = pebble_cursor.scanPrefix_returns [OF assms, of d prefix ?add "[]"]
  have db: "pebble_db P pkv" using assms by (simp add: pebble_cursor_def)
  show ?thesis
  proof (cases "scanPrefix (PebbleEngine P) d prefix ?add []")
    case (Inl err)
    then show ?thesis using eq scanEntries_error [of prefix] by (force simp: scanPrefix_def PebbleEngine_def split: prod.splits)
  next
    case (Inr es)
    then show ?thesis using eq pebble_db.collect_prefix [OF db Inr] by simp
  qed
qed

theorem scanPrefix_complete_witness:
  "scanPrefixIt (pebbleSnapshot memPebble memIter) [([2, 1], [9]), ([1], [8]), ([2], [7])] [2] (\<lambda>k v acc. Inr (acc @ [(k, v)])) []
     = Some (Inr [([2], [7]), ([2, 1], [9])])
   \<and> sorted_wrt (<) (map fst [([2], [7]), ([2, 1], [9]) :: bytes \<times> bytes])"
proof -
  let ?d = "[([2, 1], [9]), ([1], [8]), ([2], [7])] :: memStore"
  let ?scan = "scanPrefixIt (pebbleSnapshot memPebble memIter) ?d [2] (\<lambda>k v acc. Inr (acc @ [(k, v)])) []"
  have "scanPrefix (PebbleEngine memPebble) ?d [2] (\<lambda>k v acc. Inr (acc @ [(k, v)])) [] = Inr [([2], [7]), ([2, 1], [9])]"
    by (simp add: scanPrefix_def PebbleEngine_def memPebble_def memEngine_def prefixEnd_def HasPrefix_def
        inKeyRange_def AList.clearjunk.simps)
  then have scan: "?scan = Some (Inr [([2], [7]), ([2, 1], [9])])" by (simp add: memCur.scanPrefix_returns)
  from scanPrefix_complete [OF memCur.pebble_cursor_axioms, of ?d "[2]"]
  have "sorted_wrt (<) (map fst [([2], [7]), ([2, 1], [9]) :: bytes \<times> bytes])" unfolding scan option.inject by (auto simp only: sum.case)
  with scan show ?thesis ..
qed

end
