(* ===== verification/QueryFormat.thy ===== *)
theory QueryFormat
  imports QueryParse
begin

text \<open>
  \<^verbatim>\<open>query_format.go\<close>: the canonical text of a parsed query. A filter is never nil after parsing, so that the
  default cases of the type switches do not arise.
\<close>

section \<open>Values and paths\<close>

definition formatPlaceholder :: "placeholderRef \<Rightarrow> string" where
  "formatPlaceholder ph = (if phPositional ph then '':?'' else '':'' @ phName ph)"

definition formatLiteral :: "go_lib \<Rightarrow> json_lib \<Rightarrow> gv \<Rightarrow> string" where
  "formatLiteral L J v = (case marshalJSON J v of Inl _ \<Rightarrow> sprint L v | Inr b \<Rightarrow> string_of_bytes b)"

definition formatValueExpr :: "go_lib \<Rightarrow> json_lib \<Rightarrow> valueExpr \<Rightarrow> string" where
  "formatValueExpr L J v = (case vePh v of Some ph \<Rightarrow> formatPlaceholder ph | None \<Rightarrow> formatLiteral L J (veLiteral v))"

definition formatPart :: "pathPart \<Rightarrow> string" where
  "formatPart part = (case ppPh part of Some ph \<Rightarrow> formatPlaceholder ph | None \<Rightarrow> ppLiteral part)"

definition formatPathTemplate :: "pathTemplate \<Rightarrow> string" where
  "formatPathTemplate p = (if ptParts p = [] then ''/'' else ''/'' @ Join (map formatPart (ptParts p)) ''/'')"

definition formatPointerPath :: "string \<Rightarrow> string" where
  "formatPointerPath ptr =
     (case pointerTokens ptr of
        Inl _ \<Rightarrow> ''/''
      | Inr toks \<Rightarrow> if toks = [] then ''/'' else ''/'' @ Join toks ''/'')"

section \<open>Expressions and filters\<close>

definition formatComparison :: "go_lib \<Rightarrow> json_lib \<Rightarrow> comparison \<Rightarrow> string" where
  "formatComparison L J c =
     (let op = cmpOp c;
          op = (if op = ''prefix'' then ''~'' else if op = ''nprefix'' then ''!~'' else if op = ''nre'' then ''not re'' else op)
      in cmpKey c @ '' '' @ op @ '' '' @ formatValueExpr L J (cmpValue c))"

definition wrapFilter :: "string \<Rightarrow> nat \<Rightarrow> nat \<Rightarrow> string" where
  "wrapFilter s parent self = (if self < parent then ''('' @ s @ '')'' else s)"

fun formatExprNode :: "go_lib \<Rightarrow> json_lib \<Rightarrow> exprNode \<Rightarrow> nat \<Rightarrow> string" where
  "formatExprNode L J (exprCmp c) p = formatComparison L J c"
| "formatExprNode L J (exprAnd a b) p = wrapFilter (formatExprNode L J a 2 @ '' and '' @ formatExprNode L J b 2) p 2"
| "formatExprNode L J (exprOr a b) p = wrapFilter (formatExprNode L J a 1 @ '' or '' @ formatExprNode L J b 1) p 1"
| "formatExprNode L J (exprNot a) p = ''not '' @ formatExprNode L J a 3"
| "formatExprNode L J (exprGroup a) p = ''('' @ formatExprNode L J a 0 @ '')''"

definition formatStep :: "go_lib \<Rightarrow> json_lib \<Rightarrow> filterStep \<Rightarrow> string" where
  "formatStep L J st =
     ''/'' @ (if fsKind st = ''field'' then fsKey st
              else if fsKind st = ''any'' then ''*''
              else if fsKind st = ''desc'' then ''**''
              else if fsKind st = ''expr'' then
                ''['' @ (case fsExpr st of Some x \<Rightarrow> formatExprNode L J x 0 | None \<Rightarrow> '''') @ '']''
              else '''')"

definition formatQueryFilter :: "go_lib \<Rightarrow> json_lib \<Rightarrow> queryFilter \<Rightarrow> string" where
  "formatQueryFilter L J f =
     (let pre = (if qfAnchor f \<noteq> '''' then ''@'' @ qfAnchor f else '''')
      in if qfAll f then pre @ (if qfAllPath f \<noteq> '''' then qfAllPath f else ''/*'')
         else case qfPk f of
                Some v \<Rightarrow> pre @ ''/='' @ formatValueExpr L J v
              | None \<Rightarrow>
                  if qfChain f \<noteq> [] then pre @ concat (map (formatStep L J) (qfChain f))
                  else pre @ formatPointerPath (qfPathPattern f) @
                         (case qfExpr f of Some x \<Rightarrow> ''/['' @ formatExprNode L J x 0 @ '']'' | None \<Rightarrow> ''''))"

fun formatFilterNode :: "go_lib \<Rightarrow> json_lib \<Rightarrow> filterNode \<Rightarrow> nat \<Rightarrow> string" where
  "formatFilterNode L J (filterAtom f) p = formatQueryFilter L J f"
| "formatFilterNode L J (filterAnd a b) p = wrapFilter (formatFilterNode L J a 2 @ '' and '' @ formatFilterNode L J b 2) p 2"
| "formatFilterNode L J (filterOr a b) p = wrapFilter (formatFilterNode L J a 1 @ '' or '' @ formatFilterNode L J b 1) p 1"
| "formatFilterNode L J (filterNot a) p = ''not '' @ formatFilterNode L J a 3"
| "formatFilterNode L J (filterGroup a) p = ''('' @ formatFilterNode L J a 0 @ '')''"

section \<open>Projections\<close>

definition samePathPart :: "pathPart \<Rightarrow> pathPart \<Rightarrow> bool" where
  "samePathPart a b =
     (case (ppPh a, ppPh b) of
        (None, None) \<Rightarrow> ppLiteral a = ppLiteral b
      | (Some p, Some q) \<Rightarrow> phPositional p = phPositional q \<and> phName p = phName q \<and> phIndex p = phIndex q
      | _ \<Rightarrow> False)"

definition samePathParts :: "pathPart list \<Rightarrow> pathPart list \<Rightarrow> bool" where
  "samePathParts a b = list_all2 samePathPart a b"

text \<open>The loop of \<^verbatim>\<open>formatProjectionGroup\<close>: the fields of the terms that join the group.\<close>

fun groupFields :: "bool \<Rightarrow> pathPart list \<Rightarrow> projectionTerm list \<Rightarrow> string list" where
  "groupFields incl pre [] = []"
| "groupFields incl pre (t # ts) =
     (let parts = ptParts (ptPath t)
      in if ptInclude t \<noteq> incl \<or> ptAll t \<or> ptJoin t \<noteq> '''' \<or> length parts \<noteq> length pre + 1
            \<or> \<not> samePathParts pre (butlast parts) \<or> ppPh (last parts) \<noteq> None
         then []
         else ppLiteral (last parts) # groupFields incl pre ts)"

text \<open>The text of a group that starts here and the number of terms it takes; \<open>None\<close> when there is none.\<close>

definition formatProjectionGroup :: "projectionTerm list \<Rightarrow> (string \<times> nat) option" where
  "formatProjectionGroup terms =
     (case terms of
        [] \<Rightarrow> None
      | t # ts \<Rightarrow>
          let parts = ptParts (ptPath t)
          in if ts = [] \<or> ptAll t \<or> ptJoin t \<noteq> '''' \<or> length parts < 2 then None
             else let fields = ppLiteral (last parts) # groupFields (ptInclude t) (butlast parts) ts
                  in if length fields < 2 then None
                     else Some (formatPathTemplate \<lparr>ptParts = butlast parts\<rparr> @ ''/{'' @ Join fields '','' @ ''}'', length fields))"

function formatTerms :: "bool \<Rightarrow> projectionTerm list \<Rightarrow> string" where
  "formatTerms first [] = ''''"
| "formatTerms first (t # ts) =
     (let pre = (if \<not> first then (if ptInclude t then '' + '' else '' - '') else if \<not> ptInclude t then ''- '' else '''')
      in if ptAll t then pre @ ''all'' @ formatTerms False ts
         else case formatProjectionGroup (t # ts) of
                Some (grouped, n) \<Rightarrow> pre @ grouped @ formatTerms False (drop (n - 1) ts)
              | None \<Rightarrow>
                  pre @ formatPathTemplate (ptPath t) @ (if ptJoin t \<noteq> '''' then ''<'' @ ptJoin t else '''')
                    @ formatTerms False ts)"
  by pat_completeness auto
termination
  by (relation "measure (\<lambda>(_, ts). length ts)") auto

definition formatProjection :: "projectionSpec \<Rightarrow> string" where
  "formatProjection p = (if psTerms p = [] then ''all'' else formatTerms True (psTerms p))"

section \<open>Options and queries\<close>

definition formatSort :: "querySort \<Rightarrow> string" where
  "formatSort s = (case qsPlaceholder s of Some ph \<Rightarrow> formatPlaceholder ph | None \<Rightarrow> formatPathTemplate (qsPath s))"

definition formatDecimal :: "int \<Rightarrow> string" where
  "formatDecimal i = (if i < 0 then ''-'' @ Itoa (nat (- i)) else Itoa (nat i))"

definition formatOptions :: "parsedQuery \<Rightarrow> string" where
  "formatOptions pq =
     (let sortParts = map (\<lambda>s. (if qsDesc s then ''desc '' else ''asc '') @ formatSort s) (pqSorts pq);
          otherParts =
            (if pqSkipSet pq then
               [''skip '' @ (case pqSkipPH pq of Some ph \<Rightarrow> formatPlaceholder ph | None \<Rightarrow> formatDecimal (pqSkip pq))] else []) @
            (if pqLimitSet pq then
               [''limit '' @ (case pqLimitPH pq of Some ph \<Rightarrow> formatPlaceholder ph | None \<Rightarrow> formatDecimal (pqLimit pq))] else []) @
            (if pqCount pq then [''count''] else []) @
            (if pqNoidx pq then [''noidx''] else []) @
            (if pqInverse pq then [''inverse''] else [])
      in if sortParts = [] then Join otherParts '' ''
         else Join (sortParts @ (if otherParts \<noteq> [] then [Join otherParts '' ''] else [])) [CHR 0x0A, CHR '' '', CHR '' ''])"

definition canonical :: "go_lib \<Rightarrow> json_lib \<Rightarrow> parsedQuery \<Rightarrow> string" where
  "canonical L J pq =
     (let parts = [formatFilterNode L J (pqFilter pq) 0] @
            (case pqAction pq of
               actionNone \<Rightarrow> []
             | actionDelete \<Rightarrow> [''del'']
             | actionApply \<Rightarrow> [''apply '' @ formatValueExpr L J (pqActionArg pq)]
             | actionUpsert \<Rightarrow> [''upsert '' @ formatValueExpr L J (pqActionArg pq)]) @
            (case pqProjection pq of Some p \<Rightarrow> [formatProjection p] | None \<Rightarrow> []) @
            (let opts = formatOptions pq in if opts \<noteq> '''' then [opts] else [])
      in Join parts [CHR 0x0A, CHR ''|'', CHR '' ''])"

definition Canonical :: "go_lib \<Rightarrow> json_lib \<Rightarrow> Query \<Rightarrow> string" where
  "Canonical L J q = canonical L J (qParsed q)"

end
