(* ===== verification/QueryWindow.thy ===== *)
theory QueryWindow imports QueryExec begin

text \<open>
  Lemmas on the execution of a query: the window, the loop of the visitor, and the collection of matched
  documents with its temporary file, which is compared with a reference that keeps every document in memory.
\<close>

section \<open>The window\<close>

lemma sint_of_int_small: "- (2 ^ 63) \<le> i \<Longrightarrow> i < 2 ^ 63 \<Longrightarrow> sint (of_int i :: int64) = i"
  by (simp only: sint_sbintrunc') (simp add: signed_take_bit_int_eq_self)

lemma windowDocs_exact:
  assumes "0 \<le> skip" and "limit < 2 ^ 63 - int (length docs)" and "int (length docs) < 2 ^ 63"
  shows "windowDocs False skip limit docs =
    Inr (if limit < 0 then drop (nat skip) docs else take (nat limit) (drop (nat skip) docs))"
proof -
  define start where "start = (if int (length docs) < skip then int (length docs) else skip)"
  have le: "0 \<le> start" "start \<le> int (length docs)" and d: "drop (nat start) docs = drop (nat skip) docs"
    using assms by (auto simp: start_def)
  have l: "length (drop (nat skip) docs) = nat (int (length docs) - start)"
    using le by (simp add: nat_diff_distrib flip: d)
  have w: "sint (of_int (start + limit) :: int64) = start + limit" if "0 \<le> limit"
    by (rule sint_of_int_small) (use that assms le in auto)
  show ?thesis unfolding windowDocs_def Let_def start_def [symmetric]
    using le l w by (auto simp: d simp del: of_int_add length_drop)
qed

section \<open>The visitor\<close>

lemma visit_step:
  fixes step :: int64
  assumes "0 \<le> i" and "i < int (length docs)" and "int (length docs) < 2 ^ 63" and "0 < sint step"
  shows "let j = sint (of_int (i + sint step) :: int64) in j < 0 \<or> int (length docs) \<le> j \<or> i < j"
proof (cases "i + sint step < 2 ^ 63")
  case True
  then have "sint (of_int (i + sint step) :: int64) = i + sint step"
    by (intro sint_of_int_small) (use assms in auto)
  then show ?thesis using assms(4) by (simp only: Let_def) simp
next
  case False
  have "sint step < 2 ^ 63" using sint_lt [of step] by simp
  have wrap: "(of_int x :: int64) = of_int (x - 2 ^ 64)" for x
    by (simp add: word_of_int_eq_iff take_bit_eq_mod del: of_int_diff)
  have "sint (of_int (i + sint step) :: int64) = sint (of_int (i + sint step - 2 ^ 64) :: int64)"
    by (rule arg_cong [where f = sint], rule wrap)
  also have "\<dots> = i + sint step - 2 ^ 64"
    by (rule sint_of_int_small) (use assms False \<open>sint step < 2 ^ 63\<close> in auto)
  finally show ?thesis using assms \<open>sint step < 2 ^ 63\<close> by (simp only: Let_def) simp
qed

lemma visitLoop_returns:
  assumes f: "\<And>d v step v'. f d v = Inr (step, v') \<Longrightarrow> 0 \<le> sint step" and len: "int (length docs) < 2 ^ 63" and "0 \<le> i"
  shows "\<exists>r. visitLoop f docs i v = Some r"
  using \<open>0 \<le> i\<close>
proof (induction "nat (int (length docs) - i)" arbitrary: i v rule: less_induct)
  case less
  show ?case
  proof (cases "int (length docs) \<le> i")
    case True
    then show ?thesis by (subst visitLoop.simps) simp
  next
    case False
    show ?thesis
    proof (cases "f (docs ! nat i) v")
      case (Inl e)
      then show ?thesis using False by (subst visitLoop.simps) simp
    next
      case (Inr sv)
      obtain step v' where sv: "sv = (step, v')" by force
      have nn: "0 \<le> sint step" using f [of "docs ! nat i" v] Inr sv by blast
      define j where "j = sint (of_int (i + sint step) :: int64)"
      have eq: "visitLoop f docs i v =
          (if step = 0 then Some (Inr v') else if j < 0 \<or> int (length docs) \<le> j then Some (Inr v') else visitLoop f docs j v')"
        using False nn by (subst visitLoop.simps) (simp add: Inr sv Let_def j_def)
      have "i < j" if "step \<noteq> 0" "\<not> j < 0" "\<not> int (length docs) \<le> j"
      proof -
        have "0 < sint step" using nn that(1) by (metis order_le_less sint_0 sint_uint signed_eq_0_iff)
        then show ?thesis using visit_step [of i docs step] less.prems False len that by (simp add: j_def Let_def)
      qed
      then show ?thesis unfolding eq using less.hyps [of j v'] by auto
    qed
  qed
qed

text \<open>A visitor that asks for the same document again and again is never left.\<close>

lemma visitLoop_stuck: "docs \<noteq> [] \<Longrightarrow> visitLoop (\<lambda>d v. Inr (- 1, v)) docs 0 v = None"
proof (rule ccontr)
  assume ne: "docs \<noteq> []" and "visitLoop (\<lambda>d v. Inr (- 1, v)) docs 0 v \<noteq> None"
  then obtain r where r: "visitLoop (\<lambda>d v. Inr (- 1, v)) docs 0 v = Some r" by auto
  have "(f = (\<lambda>d v. Inr (- 1, v)) \<longrightarrow> i = 0 \<longrightarrow> docs = [])" if "visitLoop f docs i v = Some r" for f docs i v
    using that by (rule visitLoop.raw_induct [rotated]) (auto simp: Let_def split: if_splits)
  then show False using r ne by blast
qed

section \<open>The sorter's temporary file\<close>

text \<open>\<open>spilled F d d0\<close>: the document \<open>d0\<close> as it was matched is \<open>d\<close> in memory, or \<open>d\<close> names its text in the file.\<close>

definition spilled :: "bytes \<Rightarrow> matchedDoc \<Rightarrow> matchedDoc \<Rightarrow> bool" where
  "spilled F d d0 \<longleftrightarrow> mdId d = mdId d0 \<and> mdSortValues d = mdSortValues d0 \<and> mdRaw d0 \<noteq> [] \<and>
     (if mdRaw d = []
      then 0 < mdSpillSize d \<and> take (mdSpillSize d) (drop (mdSpillOffset d) F) = mdRaw d0
           \<and> mdSpillOffset d + mdSpillSize d \<le> length F \<and> mdNode d = VNil
      else mdRaw d = mdRaw d0 \<and> mdNode d = mdNode d0 \<and> mdSpillSize d = 0)"

lemma spilled_append: "spilled F d d0 \<Longrightarrow> spilled (F @ G) d d0"
  by (auto simp: spilled_def split: if_splits)

text \<open>A document of the result: its id, its text and its decoded form.\<close>

abbreviation idRaw :: "matchedDoc \<Rightarrow> int64 \<times> bytes \<times> gv" where "idRaw d \<equiv> (mdId d, mdRaw d, mdNode d)"

text \<open>The file as documented: a read that succeeds gives what was written at the offset.\<close>

locale spill_file =
  fixes S :: spill_io
  assumes read_back: "spRead S file off sz = Inr raw \<Longrightarrow> off + sz \<le> length file \<Longrightarrow> raw = take sz (drop off file)"
begin

lemma spillMatchedDocs_spilled:
  assumes "list_all2 (spilled F) ds ds0" and "spillMatchedDocs S F ds = Inr (F', ds')"
  shows "\<exists>G. F' = F @ G \<and> list_all2 (spilled F') ds' ds0"
  using assms
proof (induction ds arbitrary: ds0 F ds')
  case (Cons d ds)
  obtain d0 ds0' where ds0: "ds0 = d0 # ds0'" and d: "spilled F d d0" and ds: "list_all2 (spilled F) ds ds0'"
    using Cons.prems by (auto simp: list_all2_Cons1)
  show ?case
  proof (cases "mdRaw d = []")
    case True
    then obtain ds1 where ds1: "spillMatchedDocs S F ds = Inr (F', ds1)" "ds' = d # ds1"
      using Cons.prems by (auto split: sum.splits)
    then show ?thesis using Cons.IH [OF ds ds1(1)] d by (auto simp: ds0 intro: spilled_append)
  next
    case False
    let ?d = "d\<lparr>mdSpillOffset := length F, mdSpillSize := length (mdRaw d), mdRaw := [], mdNode := VNil\<rparr>"
    have sz: "mdSpillSize d = 0" using d False by (simp add: spilled_def)
    obtain ds1 where ds1: "spillMatchedDocs S (F @ mdRaw d) ds = Inr (F', ds1)" "ds' = ?d # ds1"
      using Cons.prems False sz by (auto simp: spillWrite_def split: sum.splits option.splits)
    have d': "spilled (F @ mdRaw d) ?d d0" using d False by (auto simp: spilled_def)
    have "list_all2 (spilled (F @ mdRaw d)) ds ds0'"
      using ds by (rule list_all2_mono) (rule spilled_append)
    from Cons.IH [OF this ds1(1)] show ?thesis using ds1(2) spilled_append [OF d'] by (auto simp: ds0)
  qed
qed simp

lemma hydrateDoc_spilled:
  assumes d: "spilled F d d0" and v: "decodeJSON J (mdRaw d0) = Inr (mdNode d0)" and h: "hydrateDoc J S F d = Inr d'"
  shows "idRaw d' = idRaw d0"
proof (cases "mdRaw d = []")
  case True
  then have m: "mdId d = mdId d0" "0 < mdSpillSize d" "take (mdSpillSize d) (drop (mdSpillOffset d) F) = mdRaw d0"
    "mdSpillOffset d + mdSpillSize d \<le> length F" "mdNode d = VNil" "mdRaw d0 \<noteq> []" using d unfolding spilled_def by auto
  obtain raw where raw: "spRead S F (mdSpillOffset d) (mdSpillSize d) = Inr raw"
    using h True m(2) by (auto simp: hydrateDoc_def split: sum.splits)
  then have "raw = mdRaw d0" using read_back [OF raw m(4)] m(3) by simp
  then show ?thesis using h m raw True by (simp add: hydrateDoc_def v) (auto simp: v)
next
  case False
  then have m: "mdId d = mdId d0" "mdRaw d = mdRaw d0" "mdNode d = mdNode d0" using d unfolding spilled_def by auto
  have "d' = (if mdNode d0 = VNil then d\<lparr>mdNode := VNil\<rparr> else d)"
    using h False unfolding hydrateDoc_def by (simp add: m v split: if_splits)
  then show ?thesis by (simp add: m)
qed

lemma hydrate_spilled:
  assumes "list_all2 (spilled F) ds ds0" and "\<forall>d \<in> set ds0. decodeJSON J (mdRaw d) = Inr (mdNode d)"
    and "hydrateMatchedDocs J S F ds = Inr ds'"
  shows "map idRaw ds' = map idRaw ds0"
  using assms
proof (induction ds arbitrary: ds0 ds')
  case (Cons d ds)
  obtain d0 ds0' where ds0: "ds0 = d0 # ds0'" and d: "spilled F d d0" and ds: "list_all2 (spilled F) ds ds0'"
    using Cons.prems by (auto simp: list_all2_Cons1)
  obtain d' ds1 where h: "hydrateDoc J S F d = Inr d'" "hydrateMatchedDocs J S F ds = Inr ds1" "ds' = d' # ds1"
    using Cons.prems(3) by (auto split: sum.splits)
  show ?case using Cons.IH [OF ds _ h(2)] hydrateDoc_spilled [OF d _ h(1)] Cons.prems(2) by (simp add: ds0 h(3))
qed simp

end

lemma insertBy_rel:
  assumes lt: "\<And>a b a' b'. R a a' \<Longrightarrow> R b b' \<Longrightarrow> lt a b \<longleftrightarrow> lt a' b'" and "R x x'" and "list_all2 R ys ys'"
  shows "list_all2 R (insertBy lt x ys) (insertBy lt x' ys')"
  using assms(3) by (induction rule: list_all2_induct) (use assms(1,2) in auto)

lemma sortBy_rel:
  assumes lt: "\<And>a b a' b'. R a a' \<Longrightarrow> R b b' \<Longrightarrow> lt a b \<longleftrightarrow> lt a' b'" and "list_all2 R xs xs'"
  shows "list_all2 R (sortBy lt xs) (sortBy lt xs')"
  using assms(2) by (induction rule: list_all2_induct) (auto simp: sortBy_def intro: insertBy_rel [OF lt])

section \<open>What a query collects\<close>

text \<open>The reference: the documents that match, in memory and in the order of the ids.\<close>

fun matchAll :: "'e queryEnv \<Rightarrow> 'e DB \<Rightarrow> collectionState \<Rightarrow> Query \<Rightarrow> string list \<Rightarrow> int64 list \<Rightarrow> matchedDoc list result" where
  "matchAll Q db col q paths [] = Inr []"
| "matchAll Q db col q paths (i # is) =
     (case matchDoc Q db col q i of
        Inl e \<Rightarrow> Inl e
      | Inr m \<Rightarrow>
          (case matchAll Q db col q paths is of
             Inl e \<Rightarrow> Inl e
           | Inr ds \<Rightarrow>
               Inr ((case m of None \<Rightarrow> [] | Some (raw, node) \<Rightarrow> [mkMatched i raw node (map (sortValue node) paths)]) @ ds)))"

definition fileOf :: "collectState \<Rightarrow> bytes" where
  "fileOf st = (case csFile st of None \<Rightarrow> [] | Some f \<Rightarrow> f)"


lemma spilled_no_file: "list_all2 (spilled []) ds ds0 \<Longrightarrow> map idRaw ds = map idRaw ds0"
  by (induction rule: list_all2_induct) (auto simp: spilled_def split: if_splits)

locale spilling_query = spill_file "qeSpill Q" for Q :: "'e queryEnv" +
  fixes db :: "'e DB" and col :: collectionState and q :: Query
  assumes raw_texts: "matchDoc Q db col q i = Inr (Some (raw, node)) \<Longrightarrow> raw \<noteq> [] \<and> decodeJSON (qeJson Q) raw = Inr node"
begin

lemma spillDocs_spilled:
  assumes "list_all2 (spilled (fileOf st)) (csDocs st) ds0" and "spillDocs Q st = Inr st'"
  shows "list_all2 (spilled (fileOf st')) (csDocs st') ds0"
  using assms(2) spillMatchedDocs_spilled [OF assms(1)]
  by (auto simp: spillDocs_def fileOf_def split: option.splits sum.splits)

lemma addMatchedDoc_spilled:
  assumes st: "list_all2 (spilled (fileOf st)) (csDocs st) ds0" and b: "b \<longleftrightarrow> paths \<noteq> []"
    and add: "addMatchedDoc Q db col q paths b i st = Inr st'"
  obtains m where "matchDoc Q db col q i = Inr m" "list_all2 (spilled (fileOf st')) (csDocs st')
     (ds0 @ (case m of None \<Rightarrow> [] | Some (raw, node) \<Rightarrow> [mkMatched i raw node (map (sortValue node) paths)]))"
proof -
  obtain m where m: "matchDoc Q db col q i = Inr m" using add by (auto simp: addMatchedDoc_def split: sum.splits)
  show thesis
  proof (cases m)
    case None
    then show thesis using that [OF m] st m add by (simp add: addMatchedDoc_def)
  next
    case (Some rn)
    obtain raw node where rn: "rn = (raw, node)" by force
    let ?m = "mkMatched i raw node (map (sortValue node) paths)"
    let ?st = "st\<lparr>csDocs := csDocs st @ [?m], csBuffered := (if b then csBuffered st + int (length raw) else csBuffered st)\<rparr>"
    have "raw \<noteq> []" using raw_texts m Some rn by blast
    then have "spilled (fileOf st) ?m ?m" by (simp add: spilled_def mkMatched_def)
    then have new: "list_all2 (spilled (fileOf ?st)) (csDocs ?st) (ds0 @ [?m])"
      using st by (simp add: fileOf_def list_all2_appendI)
    have vals: "(if b then map (sortValue node) paths else []) = map (sortValue node) paths" using b by simp
    have "addMatchedDoc Q db col q paths b i st = (if b \<and> qeSortBuffer Q < csBuffered ?st then spillDocs Q ?st else Inr ?st)"
      by (simp add: addMatchedDoc_def m Some rn Let_def vals)
    then have "list_all2 (spilled (fileOf st')) (csDocs st') (ds0 @ [?m])"
      using new spillDocs_spilled [OF new] add by (auto split: if_splits)
    then show thesis using that [OF m] by (simp add: Some rn)
  qed
qed

lemma collected:
  assumes "b \<longleftrightarrow> paths \<noteq> []" and "list_all2 (spilled (fileOf st)) (csDocs st) ds0"
    and "scanEach (addMatchedDoc Q db col q paths b) is st = Inr st'"
  shows "\<exists>ds. matchAll Q db col q paths is = Inr ds \<and> list_all2 (spilled (fileOf st')) (csDocs st') (ds0 @ ds)"
  using assms(2,3)
proof (induction "is" arbitrary: st ds0)
  case (Cons i "is")
  obtain st1 where st1: "addMatchedDoc Q db col q paths b i st = Inr st1" "scanEach (addMatchedDoc Q db col q paths b) is st1 = Inr st'"
    using Cons.prems(2) by (auto split: sum.splits)
  obtain m where m: "matchDoc Q db col q i = Inr m" "list_all2 (spilled (fileOf st1)) (csDocs st1)
     (ds0 @ (case m of None \<Rightarrow> [] | Some (raw, node) \<Rightarrow> [mkMatched i raw node (map (sortValue node) paths)]))"
    using addMatchedDoc_spilled [OF Cons.prems(1) assms(1) st1(1)] .
  show ?case using Cons.IH [OF m(2) st1(2)] m(1) by auto
qed simp

lemma matchAll_texts: "matchAll Q db col q paths is = Inr ds \<Longrightarrow> d \<in> set ds \<Longrightarrow> decodeJSON (qeJson Q) (mdRaw d) = Inr (mdNode d)"
proof (induction "is" arbitrary: ds)
  case (Cons i "is")
  obtain m ds' where m: "matchDoc Q db col q i = Inr m" and ds': "matchAll Q db col q paths is = Inr ds'"
    using Cons.prems by (auto split: sum.splits)
  show ?case
  proof (cases m)
    case None
    then show ?thesis using Cons.IH [OF ds'] Cons.prems m ds' by simp
  next
    case (Some rn)
    obtain raw node where rn: "rn = (raw, node)" by force
    have "d = mkMatched i raw node (map (sortValue node) paths) \<or> d \<in> set ds'"
      using Cons.prems by (auto simp: m ds' Some rn)
    then show ?thesis using Cons.IH [OF ds'] raw_texts [of i raw node] m Some rn by (auto simp: mkMatched_def)
  qed
qed simp

end

lemma set_orderDocs: "set (orderDocs L pq ui uo ds) = set ds"
  by (simp add: orderDocs_def Let_def)

lemma windowDocs_rel: "list_all2 R xs ys \<Longrightarrow>
   (case windowDocs b skip limit xs of Inl e \<Rightarrow> windowDocs b skip limit ys = Inl e
    | Inr w \<Rightarrow> \<exists>w'. windowDocs b skip limit ys = Inr w' \<and> list_all2 R w w' \<and> set w' \<subseteq> set ys)"
  using list_all2_lengthD [of R xs ys]
  by (auto simp: windowDocs_def Let_def dest: in_set_takeD in_set_dropD)

lemma spilled_keys: "spilled F d d0 \<Longrightarrow> mdId d = mdId d0 \<and> mdSortValues d = mdSortValues d0"
  by (simp add: spilled_def)

lemma orderDocs_rel:
  assumes "list_all2 (spilled F) xs ys"
  shows "list_all2 (spilled F) (orderDocs L pq ui uo xs) (orderDocs L pq ui uo ys)"
proof -
  have a: "list_all2 (spilled F) (sortBy (docLess L ds) xs) (sortBy (docLess L ds) ys)" for ds
    by (rule sortBy_rel [OF _ assms]) (auto simp: docLess_def split: option.split dest!: spilled_keys)
  have b: "list_all2 (spilled F) (sortBy (\<lambda>a b. sint (mdId b) < sint (mdId a)) xs) (sortBy (\<lambda>a b. sint (mdId b) < sint (mdId a)) ys)"
    by (rule sortBy_rel [OF _ assms]) (auto dest!: spilled_keys)
  show ?thesis using a b assms by (simp add: orderDocs_def Let_def)
qed

section \<open>The window of a query\<close>

text \<open>The reference for a query whose documents are not delivered in order by an index: no buffer and no file.\<close>

definition windowSpec ::
    "'e queryEnv \<Rightarrow> 'e DB \<Rightarrow> collectionState \<Rightarrow> Query \<Rightarrow> int \<Rightarrow> int \<Rightarrow> string list \<Rightarrow> bool \<Rightarrow> int64 list \<Rightarrow> (int64 \<times> bytes \<times> gv) list result" where
  "windowSpec Q db col q skip limit paths usedIndex ids =
     (case matchAll Q db col q paths ids of
        Inl e \<Rightarrow> Inl e
      | Inr ds \<Rightarrow>
          (case windowDocs False skip limit (orderDocs (qeLib Q) (qParsed q) usedIndex False ds) of
             Inl e \<Rightarrow> Inl e
           | Inr w \<Rightarrow> Inr (map idRaw w)))"

text \<open>The ids a query looks at when it does not stream an ordering index.\<close>

definition lookedAt :: "'e queryEnv \<Rightarrow> 'e DB \<Rightarrow> collectionState \<Rightarrow> (candidatePlan \<times> bool) option \<Rightarrow> int64 list result" where
  "lookedAt Q db col plan =
     (case plan of
        Some (p, _) \<Rightarrow> scanIndexCandidateIDs (qeLib Q) (qeEng Q) (qeReverse Q) (dbEngine db) p False
      | None \<Rightarrow> scanDocumentIDs (qeEnv Q) db col)"

context spilling_query begin

lemma matchWindow_unspilled:
  assumes plan: "planQuery Q db col q paths = plan" and no: "\<not> (plan \<noteq> None \<and> snd (the plan))"
    and w: "matchWindow Q db col q skip limit paths = Inr (w, logs)"
  obtains ids where "lookedAt Q db col plan = Inr ids" "windowSpec Q db col q skip limit paths (plan \<noteq> None) ids = Inr (map idRaw w)"
proof -
  let ?st = "\<lparr>csDocs = [], csBuffered = 0, csFile = None\<rparr> :: collectState"
  let ?order = "orderDocs (qeLib Q) (qParsed q) (plan \<noteq> None) False"
  have order: "(plan \<noteq> None \<and> snd (the plan)) = False" using no by simp
  obtain docs fo where col: "collectMatched Q db col q paths skip limit plan = Inr (docs, fo)"
    using w unfolding matchWindow_def Let_def plan by (auto split: sum.splits)
  obtain ids st where ids: "lookedAt Q db col plan = Inr ids"
      and scan: "scanEach (addMatchedDoc Q db col q paths (paths \<noteq> [])) ids ?st = Inr st" and st: "docs = csDocs st" "fo = csFile st"
    using col unfolding collectMatched_def order if_False lookedAt_def by (auto split: sum.splits)
  obtain ds where ds: "matchAll Q db col q paths ids = Inr ds" and rel: "list_all2 (spilled (fileOf st)) docs ds"
    using collected [OF _ _ scan, of "[]"] st by auto
  obtain w0 where w0: "windowDocs False skip limit (?order docs) = Inr w0"
      and hy: "(case fo of None \<Rightarrow> Inr w0 | Some f \<Rightarrow> hydrateMatchedDocs (qeJson Q) (qeSpill Q) f w0) = Inr w"
    using w unfolding matchWindow_def Let_def plan order col by (auto split: sum.splits)
  obtain w' where w': "windowDocs False skip limit (?order ds) = Inr w'" and ww: "list_all2 (spilled (fileOf st)) w0 w'"
      and sub: "set w' \<subseteq> set ds"
    using windowDocs_rel [OF orderDocs_rel [OF rel], of False skip limit "qeLib Q" "qParsed q" "plan \<noteq> None" False] w0
    by (auto simp: set_orderDocs)
  have "map idRaw w = map idRaw w'"
  proof (cases fo)
    case None
    then show ?thesis using spilled_no_file [of w0 w'] ww hy st by (simp add: fileOf_def)
  next
    case (Some F)
    have "\<forall>d \<in> set w'. decodeJSON (qeJson Q) (mdRaw d) = Inr (mdNode d)" using sub matchAll_texts [OF ds] by blast
    then show ?thesis using hydrate_spilled [of F w0 w' "qeJson Q" w] ww hy Some st by (auto simp: fileOf_def)
  qed
  then show thesis using that [OF ids] by (simp add: windowSpec_def ds w' del: not_None_eq)
qed

end

end
