(* ===== verification/QueryRefine.thy ===== *)
theory QueryRefine
  imports QueryWindow TxProps
begin

text \<open>
  Queries and the abstract map of documents: what a query without an index reads, and what a query with an
  action makes of the documents it selects.
\<close>

section \<open>Queries and the abstract map\<close>

text \<open>The text of a document.\<close>

definition textOf :: "'e env \<Rightarrow> gv \<Rightarrow> bytes" where
  "textOf E d = (case marshalJSON (envJson E) d of Inr raw \<Rightarrow> raw | Inl _ \<Rightarrow> [])"

text \<open>The ids of the documents of a collection that a query selects.\<close>

definition selected :: "'e queryEnv \<Rightarrow> Query \<Rightarrow> (int64 \<Rightarrow> gv option) \<Rightarrow> int64 set" where
  "selected Q q docs =
     {i. \<exists>d. docs i = Some d \<and> filterMatch (qeLib Q) (qeJson Q) (pqFilter (qParsed q)) d i q = Inr True}"

lemma mutationDoc_same: "doc \<noteq> VNil \<Longrightarrow> mutationDoc E raw doc = Inr doc"
  by (simp add: mutationDoc_def)

lemma keyDoc_less: "keyDoc x i < keyDoc x j \<longleftrightarrow> sint i < sint j"
  using i64.enc_less [where x = i and y = j] by (simp add: key_layout)

lemma scanIds_fold:
  "foldl (\<lambda>r (K, v). case r of Inl e \<Rightarrow> Inl e | Inr ids \<Rightarrow>
      (case decodeDocKey K of None \<Rightarrow> Inl (Coded CodeInvalidQuery) | Some (_, i) \<Rightarrow> Inr (ids @ [i]))) (Inr js) es = Inr ids
   \<Longrightarrow> \<exists>is. ids = js @ is \<and> list_all2 (\<lambda>(K, v) i. \<exists>x. decodeDocKey K = Some (x, i)) es is"
proof (induction es arbitrary: js)
  case (Cons x es)
  obtain K v where x: "x = (K, v)" by force
  show ?case
  proof (cases "decodeDocKey K")
    case None
    then show ?thesis using Cons.prems by (simp add: x foldl_Inl case_prod_unfold)
  next
    case (Some yi)
    obtain y i where yi: "yi = (y, i)" by force
    from Cons.prems obtain "is" where "ids = (js @ [i]) @ is" "list_all2 (\<lambda>(K, v) i. \<exists>x. decodeDocKey K = Some (x, i)) es is"
      using Cons.IH [of "js @ [i]"] by (auto simp: x Some yi)
    then show ?thesis using Some yi x by (intro exI [of _ "i # is"]) auto
  qed
qed simp

lemma fold_new_ids:
  "set (fold (\<lambda>m ids. if P m \<and> mId m \<notin> set ids then ids @ [mId m] else ids) ms ids) = set ids \<union> mId ` {m \<in> set ms. P m}"
  "distinct ids \<Longrightarrow> distinct (fold (\<lambda>m ids. if P m \<and> mId m \<notin> set ids then ids @ [mId m] else ids) ms ids)"
  by (induction ms arbitrary: ids) auto

text \<open>
  What a query reads: the documents as the pending mutations leave them, as long as none that was deleted was put again
  (\<open>scanDocumentIDs\<close> would leave it out).
\<close>

definition noRevival :: "'e DB \<Rightarrow> docs \<Rightarrow> bool" where
  "noRevival db V \<longleftrightarrow> (\<forall>m \<in> set (dbPending db). mKind m = mutationDelete \<longrightarrow> V (mCollection m) (mId m) = None)"

definition reads :: "'e env \<Rightarrow> ('e \<Rightarrow> kv) \<Rightarrow> 'e DB \<Rightarrow> docs \<Rightarrow> bool" where
  "reads E kv db V \<longleftrightarrow> (\<exists>B D. dbRel E kv B db D V) \<and> noRevival db V"

lemma reads_inv: "dbInv E kv B db D \<Longrightarrow> reads E kv db D"
  by (auto simp: reads_def dbInv_def noRevival_def)

context db_env
begin

lemma docForQuery_ok:
  assumes rel: "dbRel E kv B db D V" and c: "map_of (collections db) n = Some c" and doc: "docForQuery E db c n i = Inr r"
  shows "r = map_option (\<lambda>d. (textOf E d, d)) (V n i)"
    and "V n i = Some d \<Longrightarrow> textOf E d \<noteq> [] \<and> decodeJSON (envJson E) (textOf E d) = Inr d"
proof -
  note last = lastPending_chain [OF dbRelD(3) [OF rel], of n i]
  have r: "r = map_option (\<lambda>d. (textOf E d, d)) (V n i) \<and>
      (\<forall>d. V n i = Some d \<longrightarrow> textOf E d \<noteq> [] \<and> decodeJSON (envJson E) (textOf E d) = Inr d)"
  proof (cases "lastPending (dbPending db) n i")
    case None
    then have V: "V n i = D n i" using last by simp
    show ?thesis
    proof (cases "getDocNode E (dbEngine db) (Some c) i")
      case (Inl err)
      note ab = getDocNode_absent [OF dbRelD(2) [OF rel] c Inl]
      then have "errorIs err ErrNotFound" "r = None"
        using doc None by (auto simp: docForQuery_def pendingDocState_def split: if_splits)
      then show ?thesis using ab(2) V by simp
    next
      case (Inr rd)
      then obtain raw d where rd: "rd = (raw, d)" by force
      note ok = getDocNode_ok [OF dbRelD(2) [OF rel] c Inr [unfolded rd]]
      have "r = Some (raw, d)"
        using doc None Inr rd by (auto simp: docForQuery_def pendingDocState_def getDocNode_def split: sum.splits if_splits)
      then show ?thesis using ok V by (simp add: textOf_def)
    qed
  next
    case (Some mu)
    then show ?thesis
    proof (cases "mKind mu")
      case mutationPut
      then have v: "V n i = Some (mNewDoc mu)" "mNewRaw mu \<noteq> []" "marshalJSON (envJson E) (mNewDoc mu) = Inr (mNewRaw mu)"
          "putOk E (mNewDoc mu)"
        using last Some by auto
      from docOk_text [of "mNewDoc mu"] v(3,4) have "decodeJSON (envJson E) (mNewRaw mu) = Inr (mNewDoc mu)" by (auto simp: putOk_def)
      moreover have "r = Some (mNewRaw mu, mNewDoc mu)"
        using doc Some mutationPut v(4)
        by (auto simp: docForQuery_def pendingDocState_def mutationDoc_same putOk_def docOk_def)
      ultimately show ?thesis using v by (simp add: textOf_def)
    qed (use last doc in \<open>auto simp: docForQuery_def pendingDocState_def\<close>)
  qed
  then show "r = map_option (\<lambda>d. (textOf E d, d)) (V n i)"
    and "V n i = Some d \<Longrightarrow> textOf E d \<noteq> [] \<and> decodeJSON (envJson E) (textOf E d) = Inr d" by auto
qed

text \<open>
  The ids a query looks at are those of the documents, those in the store in ascending order and then the pending ones. An id
  that some pending mutation deletes is left out, also when a later one puts a document under it.
\<close>

lemma scannedIDs:
  assumes rel: "colRel E B (kv (dbEngine db)) c docs"
    and scan: "scanPrefix (envEng E) (dbEngine db) (keyDocPrefix (colDBID c))
      (\<lambda>key _ ids. case decodeDocKey key of None \<Rightarrow> Inl (Coded CodeInvalidQuery) | Some (_, i) \<Rightarrow> Inr (ids @ [i])) [] = Inr ids"
  shows "sorted_wrt (\<lambda>i j. sint i < sint j) ids" and "set ids = {i. docs i \<noteq> None}"
proof -
  from scanPrefix_visits [OF scan] obtain es where es: "sorted_wrt (<) (map fst es)"
    "\<And>k v. (k, v) \<in> set es \<longleftrightarrow> HasPrefix k (keyDocPrefix (colDBID c)) \<and> kv (dbEngine db) k = Some v"
    "foldl (\<lambda>r (K, v). case r of Inl e \<Rightarrow> Inl e | Inr ids \<Rightarrow>
      (case decodeDocKey K of None \<Rightarrow> Inl (Coded CodeInvalidQuery) | Some (_, i) \<Rightarrow> Inr (ids @ [i]))) (Inr []) es = Inr ids"
    by blast
  have "list_all2 (\<lambda>(K, v) i. \<exists>x. decodeDocKey K = Some (x, i)) es ids" using scanIds_fold [OF es(3)] by auto
  then have "list_all2 (\<lambda>kv i. fst kv = keyDoc (colDBID c) i) es ids"
    by (rule list.rel_mono_strong) (use es(2) decodeDocKey_inverse in fastforce)
  then have m: "map fst es = map (keyDoc (colDBID c)) ids"
    by (induction rule: list_all2_induct) auto
  then show "sorted_wrt (\<lambda>i j. sint i < sint j) ids" using es(1) by (simp add: sorted_wrt_map keyDoc_less)
  have "i \<in> set ids \<longleftrightarrow> docs i \<noteq> None" for i
  proof -
    have "i \<in> set ids \<longleftrightarrow> keyDoc (colDBID c) i \<in> fst ` set es"
      using arg_cong [OF m, of set] by auto
    also have "\<dots> \<longleftrightarrow> kv (dbEngine db) (keyDoc (colDBID c) i) \<noteq> None" using es(2) by (force simp: image_iff)
    finally show ?thesis using colRel_doc(3) [OF rel, of i] by simp
  qed
  then show "set ids = {i. docs i \<noteq> None}" by auto
qed

lemma scanDocumentIDs_ok:
  assumes r: "reads E kv db V" and c: "map_of (collections db) n = Some c" and ids: "scanDocumentIDs E db c = Inr ids"
  shows "distinct ids" and "set ids = {i. V n i \<noteq> None}"
proof -
  obtain B D where rel: "dbRel E kv B db D V" and nr: "noRevival db V" using r by (auto simp: reads_def)
  have n: "colName c = n" using catOk_name [OF dbRelD(1) [OF rel] c] .
  have col: "colRel E B (kv (dbEngine db)) c (D n)" using dbRelD(2) [OF rel] c by (auto simp: storeRel_def dest: map_of_SomeD)
  define pend where "pend = filter (\<lambda>m. mCollection m = n) (dbPending db)"
  obtain stored where scan: "scanPrefix (envEng E) (dbEngine db) (keyDocPrefix (colDBID c))
      (\<lambda>key _ ids. case decodeDocKey key of None \<Rightarrow> Inl (Coded CodeInvalidQuery) | Some (_, i) \<Rightarrow> Inr (ids @ [i])) [] = Inr stored"
    using ids by (auto simp: scanDocumentIDs_def split: sum.splits)
  have e: "ids = filter (\<lambda>i. i \<notin> mId ` {m \<in> set pend. mKind m = mutationDelete})
      (fold (\<lambda>m ids. if mKind m = mutationPut \<and> mId m \<notin> set ids then ids @ [mId m] else ids) pend stored)"
    using ids scan n by (simp add: scanDocumentIDs_def Let_def pend_def)
  note st = scannedIDs [OF col scan]
  have ds: "distinct stored" using st(1) by (induction stored) auto
  show "distinct ids"
    unfolding e by (rule distinct_filter) (rule fold_new_ids(2) [OF ds, of "\<lambda>m. mKind m = mutationPut" pend])
  have "i \<in> set ids \<longleftrightarrow> V n i \<noteq> None" for i
  proof -
    have mem: "i \<in> set ids \<longleftrightarrow> (D n i \<noteq> None \<or> i \<in> mId ` {m \<in> set pend. mKind m = mutationPut})
        \<and> i \<notin> mId ` {m \<in> set pend. mKind m = mutationDelete}"
      using fold_new_ids(1) [of "\<lambda>m. mKind m = mutationPut" pend stored] st(2) by (simp add: e)
    have del: "i \<in> mId ` {m \<in> set pend. mKind m = mutationDelete} \<Longrightarrow> V n i = None"
      using nr by (auto simp: pend_def noRevival_def)
    note last = lastPending_chain [OF dbRelD(3) [OF rel], of n i]
    show ?thesis
    proof (cases "lastPending (dbPending db) n i")
      case None
      then have "\<forall>m \<in> set pend. mId m \<noteq> i" by (auto simp: lastPending_def find_None_iff pend_def)
      then show ?thesis using mem last None by auto
    next
      case (Some mu)
      then obtain k where "k < length (rev (dbPending db))" "mu = rev (dbPending db) ! k" "mCollection mu = n" and id: "mId mu = i"
        by (auto simp: lastPending_def find_Some_iff)
      then have mu: "mu \<in> set pend" "mId mu = i" using nth_mem [of k "rev (dbPending db)"] id by (auto simp: pend_def)
      show ?thesis
      proof (cases "mKind mu")
        case mutationPut
        then show ?thesis using mem mu last Some del by auto
      next
        case mutationDelete
        then show ?thesis using mem mu last Some by auto
      qed
    qed
  qed
  then show "set ids = {i. V n i \<noteq> None}" by auto
qed

lemma reads_docOk:
  assumes r: "reads E kv db V" and d: "V n i = Some d"
  shows "docOk E d"
proof -
  obtain B D where rel: "dbRel E kv B db D V" using r by (auto simp: reads_def)
  note last = lastPending_chain [OF dbRelD(3) [OF rel], of n i]
  show ?thesis
  proof (cases "lastPending (dbPending db) n i")
    case None
    then have D: "D n i = Some d" using last d by simp
    then obtain c where "map_of (collections db) n = Some c" using dbRelD(7) [OF rel, of n] by (cases "map_of (collections db) n") auto
    then show ?thesis using D dbRelD(2) [OF rel] by (auto simp: storeRel_def dest!: map_of_SomeD intro: colRelD(2))
  next
    case (Some mu)
    then show ?thesis using last d by (auto simp: putOk_def split: if_splits)
  qed
qed

end

section \<open>What a query reads\<close>

lemma insertBy_last: "\<forall>y \<in> set ys. lt y x \<Longrightarrow> insertBy lt x ys = ys @ [x]"
  by (induction ys) auto

text \<open>Sorting by descending id turns a list by ascending id around.\<close>

lemma sortBy_rev: "sorted_wrt (\<lambda>a b. lt b a) xs \<Longrightarrow> sortBy lt xs = rev xs"
  by (induction xs) (auto simp: sortBy_def insertBy_last)

lemma sortBy_map: "sortBy lt (map g xs) = map g (sortBy (\<lambda>a b. lt (g a) (g b)) xs)"
proof -
  have "insertBy lt (g x) (map g ys) = map g (insertBy (\<lambda>a b. lt (g a) (g b)) x ys)" for x ys
    by (induction ys) auto
  then show ?thesis by (induction xs) (simp_all add: sortBy_def)
qed

lemma sortBy_desc: "distinct (is :: int64 list) \<Longrightarrow> sorted_wrt (\<lambda>i j. sint j < sint i) (sortBy (\<lambda>i j. sint j < sint i) is)"
proof -
  assume d: "distinct is"
  have e: "sortBy (\<lambda>i j. sint j < sint i) is = sort_key (\<lambda>i. - sint i) is" by (rule sortBy_eq_sort_key) simp
  have "sorted (map (\<lambda>i. - sint i) (sort_key (\<lambda>i. - sint i) is))" by simp
  moreover have "distinct (map (\<lambda>i. - sint i) (sort_key (\<lambda>i. - sint i) is))"
    using d by (auto simp: distinct_map inj_on_def intro: signed_word_eqI)
  ultimately have "sorted_wrt (<) (map (\<lambda>i. - sint i) (sort_key (\<lambda>i. - sint i) is))" by (simp only: strict_sorted_iff)
  then show ?thesis by (simp add: e sorted_wrt_map)
qed

lemma windowDocs_map: "windowDocs b skip limit (map f xs) = map_sum (\<lambda>e. e) (map f) (windowDocs b skip limit xs)"
  by (simp add: windowDocs_def Let_def take_map drop_map)

definition docAt :: "'e queryEnv \<Rightarrow> (int64 \<Rightarrow> gv option) \<Rightarrow> int64 \<Rightarrow> int64 \<times> bytes \<times> gv" where
  "docAt Q docs i = (i, textOf (qeEnv Q) (the (docs i)), the (docs i))"

locale query_env = db_env "qeEnv Q" kv + spill_file "qeSpill Q" for Q :: "'e queryEnv" and kv
begin

lemma matchDoc_ok:
  assumes rel: "dbRel (qeEnv Q) kv B db D V" and c: "map_of (collections db) (qCollection q) = Some c" and m: "matchDoc Q db c q i = Inr r"
  shows "r = (if i \<in> selected Q q (V (qCollection q)) then Some (snd (docAt Q (V (qCollection q)) i)) else None)"
    and "r = Some (raw, node) \<Longrightarrow> raw \<noteq> [] \<and> decodeJSON (qeJson Q) raw = Inr node"
proof -
  obtain s where s: "docForQuery (qeEnv Q) db c (qCollection q) i = Inr s" using m by (auto simp: matchDoc_def split: sum.splits)
  note doc = docForQuery_ok [OF rel c s]
  show "r = (if i \<in> selected Q q (V (qCollection q)) then Some (snd (docAt Q (V (qCollection q)) i)) else None)"
    using m doc(1) s by (auto simp: matchDoc_def selected_def docAt_def split: option.splits sum.splits)
  show "r = Some (raw, node) \<Longrightarrow> raw \<noteq> [] \<and> decodeJSON (qeJson Q) raw = Inr node"
    using m doc s by (auto simp: matchDoc_def split: option.splits sum.splits if_splits)
qed

lemma spilling: "dbRel (qeEnv Q) kv B db D V \<Longrightarrow> map_of (collections db) (qCollection q) = Some c \<Longrightarrow> spilling_query Q db c q"
  by unfold_locales (use matchDoc_ok(2) in blast)

lemma matchAll_ok:
  assumes rel: "dbRel (qeEnv Q) kv B db D V" and c: "map_of (collections db) (qCollection q) = Some c"
    and all: "matchAll Q db c q paths ids = Inr ds"
  shows "ds = map (\<lambda>i. case docAt Q (V (qCollection q)) i of (i, raw, node) \<Rightarrow> mkMatched i raw node (map (sortValue node) paths))
      (filter (\<lambda>i. i \<in> selected Q q (V (qCollection q))) ids)"
  using all
proof (induction ids arbitrary: ds)
  case (Cons i ids)
  obtain r ds' where r: "matchDoc Q db c q i = Inr r" and ds': "matchAll Q db c q paths ids = Inr ds'"
    using Cons.prems by (auto split: sum.splits)
  show ?case using Cons.prems Cons.IH [OF ds'] by (auto simp: r ds' matchDoc_ok(1) [OF rel c r] docAt_def)
qed simp

text \<open>Without an index the window is that of the selected documents, by descending id or by ascending id when inverted.\<close>

lemma matchWindow_ok:
  assumes rd: "reads (qeEnv Q) kv db D" and c: "map_of (collections db) (qCollection q) = Some c"
    and plan: "planQuery Q db c q [] = None" and sorts: "pqSorts (qParsed q) = []"
    and w: "matchWindow Q db c q skip limit [] = Inr (w, logs)"
  obtains ids where "sorted_wrt (\<lambda>i j. if pqInverse (qParsed q) then sint i < sint j else sint j < sint i) ids"
    "set ids = selected Q q (D (qCollection q))"
    "windowDocs False skip limit (map (docAt Q (D (qCollection q))) ids) = Inr (map idRaw w)"
proof -
  let ?D = "D (qCollection q)" and ?inv = "pqInverse (qParsed q)"
  obtain B D0 where rel: "dbRel (qeEnv Q) kv B db D0 D" using rd by (auto simp: reads_def)
  obtain ids where "lookedAt Q db c None = Inr ids" and spec: "windowSpec Q db c q skip limit [] False ids = Inr (map idRaw w)"
    using spilling_query.matchWindow_unspilled [OF spilling [OF rel c] plan _ w] by auto
  then have ids: "scanDocumentIDs (qeEnv Q) db c = Inr ids" by (simp add: lookedAt_def)
  obtain ds where all: "matchAll Q db c q [] ids = Inr ds" using spec by (auto simp: windowSpec_def split: sum.splits)
  define sel where "sel = filter (\<lambda>i. i \<in> selected Q q ?D) ids"
  define mk where "mk i = (case docAt Q ?D i of (i, raw, node) \<Rightarrow> mkMatched i raw node [])" for i
  have mk: "mdId (mk i) = i" "idRaw (mk i) = docAt Q ?D i" for i by (simp_all add: mk_def docAt_def mkMatched_def)
  have ds: "ds = map mk sel" using matchAll_ok [OF rel c all] by (simp add: sel_def mk_def [abs_def])
  define down where "down = sortBy (\<lambda>i j. sint j < sint i) sel"
  have sorted: "sorted_wrt (\<lambda>i j. sint j < sint i) down"
    using scanDocumentIDs_ok(1) [OF rd c ids] by (simp add: down_def sel_def sortBy_desc)
  have "sortBy (\<lambda>a b. sint (mdId b) < sint (mdId a)) ds = map mk down"
    by (simp add: ds sortBy_map mk(1) down_def)
  then have order: "orderDocs (qeLib Q) (qParsed q) False False ds = map mk (if ?inv then rev down else down)"
    by (simp add: orderDocs_def sorts Let_def rev_map)
  show thesis
  proof (rule that [of "if ?inv then rev down else down"])
    show "sorted_wrt (\<lambda>i j. if ?inv then sint i < sint j else sint j < sint i) (if ?inv then rev down else down)"
      using sorted by (simp add: sorted_wrt_rev)
    show "set (if ?inv then rev down else down) = selected Q q ?D"
      using scanDocumentIDs_ok(2) [OF rd c ids] by (auto simp: down_def sel_def selected_def)
    have "docAt Q ?D = idRaw \<circ> mk" by (simp add: fun_eq_iff mk(2))
    then show "windowDocs False skip limit (map (docAt Q ?D) (if ?inv then rev down else down)) = Inr (map idRaw w)"
      using spec windowDocs_map [of False skip limit idRaw "map mk (if ?inv then rev down else down)"]
      by (auto simp: windowSpec_def all order split: sum.splits)
  qed
qed

end

lemma runOnCollection_read:
  assumes run: "runOnCollection Q q mode opts c st db = (Inr res, db')"
    and read: "pqAction (qParsed q) = actionNone" "mode \<noteq> modeUpdate"
  obtains paths skip limit w logs where "sortPathsOf q (pqSorts (qParsed q)) = Inr paths"
    "intOption q (pqSkip (qParsed q)) (pqSkipPH (qParsed q)) (eoSkip opts) = Inr skip"
    "intOption q (pqLimit (qParsed q)) (pqLimitPH (qParsed q)) (eoLimit opts) = Inr limit"
    "matchWindow Q db c q skip limit paths = Inr (w, logs)" "db' = db" "\<not> qrChanged res"
    "if pqCount (qParsed q) then qrCount res = int (length w)
     else \<exists>docs. resultDocs Q db st q w = Inr docs \<and> qrCount res = int (length docs) \<and> (mode \<noteq> modeCount \<longrightarrow> qrDocs res = docs)"
proof -
  obtain paths skip limit w logs where *: "sortPathsOf q (pqSorts (qParsed q)) = Inr paths"
    "intOption q (pqSkip (qParsed q)) (pqSkipPH (qParsed q)) (eoSkip opts) = Inr skip"
    "intOption q (pqLimit (qParsed q)) (pqLimitPH (qParsed q)) (eoLimit opts) = Inr limit"
    "matchWindow Q db c q skip limit paths = Inr (w, logs)"
    using run unfolding runOnCollection_def Let_def by (auto split: sum.splits)
  show thesis
    using that [OF *] run read
    by (auto simp: runOnCollection_def Let_def * split: sum.splits if_splits)
qed

lemma resultDocs_plain:
  "pqProjection (qParsed q) = None \<Longrightarrow> \<forall>m \<in> set w. mdRaw m \<noteq> [] \<Longrightarrow>
     resultDocs Q db st q w = Inr (map (\<lambda>m. \<lparr>docID = mdId m, docRaw = mdRaw m\<rparr>) w)"
  by (induction w) auto

lemma windowDocs_subset: "windowDocs b skip limit xs = Inr w \<Longrightarrow> set w \<subseteq> set xs"
  by (auto simp: windowDocs_def Let_def split: if_splits dest: in_set_takeD in_set_dropD)

text \<open>The documents a query selects, as they are returned, by descending id or by ascending id.\<close>

definition listing :: "'e queryEnv \<Rightarrow> Query \<Rightarrow> (int64 \<Rightarrow> gv option) \<Rightarrow> Document list \<Rightarrow> bool" where
  "listing Q q docs ls \<longleftrightarrow>
     sorted_wrt (\<lambda>a b. if pqInverse (qParsed q) then sint (docID a) < sint (docID b) else sint (docID b) < sint (docID a)) ls
     \<and> set ls = (\<lambda>i. \<lparr>docID = i, docRaw = textOf (qeEnv Q) (the (docs i))\<rparr>) ` selected Q q docs"

context query_env begin

lemma selected_text:
  assumes "reads (qeEnv Q) kv db D" and "i \<in> selected Q q (D n)"
  shows "textOf (qeEnv Q) (the (D n i)) \<noteq> []"
proof -
  obtain d where d: "D n i = Some d" using assms(2) by (auto simp: selected_def)
  then show ?thesis using reads_docOk [OF assms(1) d] by (auto simp: textOf_def elim!: docOk_text)
qed

lemma plainWindow:
  assumes rd: "reads (qeEnv Q) kv db D" and c: "map_of (collections db) (qCollection q) = Some c"
    and plan: "planQuery Q db c q [] = None" and sorts: "pqSorts (qParsed q) = []" and proj: "pqProjection (qParsed q) = None"
    and w: "matchWindow Q db c q skip limit [] = Inr (w, logs)"
  obtains ls docs where "listing Q q (D (qCollection q)) ls" "windowDocs False skip limit ls = Inr docs"
    "resultDocs Q db st q w = Inr docs" "length docs = length w"
proof -
  let ?D = "D (qCollection q)" and ?doc = "\<lambda>(i, raw, node). \<lparr>docID = i, docRaw = raw\<rparr>"
  obtain ids where ids: "sorted_wrt (\<lambda>i j. if pqInverse (qParsed q) then sint i < sint j else sint j < sint i) ids"
    "set ids = selected Q q ?D" "windowDocs False skip limit (map (docAt Q ?D) ids) = Inr (map idRaw w)"
    using matchWindow_ok [OF rd c plan sorts w] .
  have "set (map idRaw w) \<subseteq> docAt Q ?D ` selected Q q ?D" using windowDocs_subset [OF ids(3)] ids(2) by auto
  then have "\<forall>m \<in> set w. mdRaw m \<noteq> []" using selected_text [OF rd] by (force simp: docAt_def)
  from resultDocs_plain [OF proj this] have r: "resultDocs Q db st q w = Inr (map (?doc \<circ> idRaw) w)" by (simp add: comp_def)
  show thesis
  proof (rule that [of "map ?doc (map (docAt Q ?D) ids)" "map ?doc (map idRaw w)"])
    show "listing Q q ?D (map ?doc (map (docAt Q ?D) ids))"
      using ids(1,2) by (cases "pqInverse (qParsed q)") (auto simp: listing_def sorted_wrt_map docAt_def)
    show "windowDocs False skip limit (map ?doc (map (docAt Q ?D) ids)) = Inr (map ?doc (map idRaw w))"
      unfolding windowDocs_map [of _ _ _ ?doc] ids(3) by simp
  qed (use r in simp_all)
qed

end

text \<open>A query that only reads: no action, no counting, no projection and no order of its own.\<close>

definition plainQuery :: "Query \<Rightarrow> bool" where
  "plainQuery q \<longleftrightarrow> pqAction (qParsed q) = actionNone \<and> \<not> pqCount (qParsed q) \<and> pqProjection (qParsed q) = None
     \<and> pqSorts (qParsed q) = []"

context query_env begin

lemma runQuery_plain:
  assumes rd: "reads (qeEnv Q) kv db D" and plain: "plainQuery q" and mode: "mode \<noteq> modeUpdate"
    and plan: "\<And>c. map_of (collections db) (qCollection q) = Some c \<Longrightarrow> planQuery Q db c q [] = None"
    and run: "runQueryLocked Q (dbSt db) q mode opts db = (Inr res, db')"
  shows "\<exists>ls docs. db' = db \<and> \<not> qrChanged res \<and> listing Q q (D (qCollection q)) ls
    \<and> qrCount res = int (length docs) \<and> (mode \<noteq> modeCount \<longrightarrow> qrDocs res = docs)
    \<and> (if map_of (collections db) (qCollection q) = None then docs = []
       else \<exists>skip n. intOption q (pqSkip (qParsed q)) (pqSkipPH (qParsed q)) (eoSkip opts) = Inr skip
         \<and> intOption q (pqLimit (qParsed q)) (pqLimitPH (qParsed q)) (eoLimit opts) = Inr n
         \<and> windowDocs False skip n ls = Inr docs)"
proof (cases "map_of (collections db) (qCollection q)")
  case None
  obtain B D0 where "dbRel (qeEnv Q) kv B db D0 D" using rd by (auto simp: reads_def)
  then have "D (qCollection q) = (\<lambda>_. None)" using None chain_dom dbRelD(3,7) by metis
  then have "listing Q q (D (qCollection q)) []" by (simp add: listing_def selected_def)
  then show ?thesis using run None mode
    by (intro exI [of _ "[]"]) (auto simp: runQueryLocked_def emptyResult_def)
next
  case (Some c)
  have p: "pqAction (qParsed q) = actionNone" "\<not> pqCount (qParsed q)" "pqProjection (qParsed q) = None" "pqSorts (qParsed q) = []"
    using plain by (auto simp: plainQuery_def)
  have "runOnCollection Q q mode opts c (dbSt db) db = (Inr res, db')" using run Some by (simp add: runQueryLocked_def)
  from runOnCollection_read [OF this p(1) mode]
  obtain paths skip limit w logs where r0: "sortPathsOf q (pqSorts (qParsed q)) = Inr paths"
    and r: "intOption q (pqSkip (qParsed q)) (pqSkipPH (qParsed q)) (eoSkip opts) = Inr skip"
    "intOption q (pqLimit (qParsed q)) (pqLimitPH (qParsed q)) (eoLimit opts) = Inr limit"
    "matchWindow Q db c q skip limit paths = Inr (w, logs)" "db' = db" "\<not> qrChanged res"
    and ex: "if pqCount (qParsed q) then qrCount res = int (length w)
     else \<exists>docs. resultDocs Q db (dbSt db) q w = Inr docs \<and> qrCount res = int (length docs) \<and> (mode \<noteq> modeCount \<longrightarrow> qrDocs res = docs)" .
  from ex p obtain docs where docs: "resultDocs Q db (dbSt db) q w = Inr docs" "qrCount res = int (length docs)"
      "mode \<noteq> modeCount \<Longrightarrow> qrDocs res = docs" by auto
  have paths: "paths = []" using r0 p(4) by simp
  obtain ls docs' where ls: "listing Q q (D (qCollection q)) ls" "windowDocs False skip limit ls = Inr docs'"
      "resultDocs Q db (dbSt db) q w = Inr docs'"
    using plainWindow [OF rd Some plan [OF Some] p(4,3) r(3) [unfolded paths]] .
  then have "docs' = docs" using docs(1) by simp
  then show ?thesis using r ls(1,2) docs(2,3) Some by (intro exI [of _ ls] exI [of _ docs]) auto
qed

end

section \<open>Queries with an action\<close>

text \<open>
  The effect of an action on the documents with the ids of the window: some are deleted, or some are put. What becomes of a document
  that is put is \<open>f\<close> of it.
\<close>

datatype actionEffect = Deletes "int64 list" | Puts "(int64 \<times> gv) list"

definition absDelete :: "string \<Rightarrow> int64 list \<Rightarrow> docs \<Rightarrow> docs" where
  "absDelete n is D = D(n := (\<lambda>i. if i \<in> set is then None else D n i))"

fun putAll :: "(gv \<Rightarrow> gv) \<Rightarrow> string \<Rightarrow> (int64 \<times> gv) list \<Rightarrow> docs \<Rightarrow> docs" where
  "putAll f n [] D = D"
| "putAll f n ((i, doc) # ps) D = putAll f n ps (D(n := (D n)(i \<mapsto> f doc)))"

fun actionDocs :: "(gv \<Rightarrow> gv) \<Rightarrow> string \<Rightarrow> actionEffect \<Rightarrow> docs \<Rightarrow> docs" where
  "actionDocs f n (Deletes is) D = absDelete n is D"
| "actionDocs f n (Puts ps) D = putAll f n ps D"

fun putsOf :: "actionEffect \<Rightarrow> (int64 \<times> gv) list" where
  "putsOf (Deletes is) = []"
| "putsOf (Puts ps) = ps"

definition fitsAll :: "'e env \<Rightarrow> (int64 \<times> gv) list \<Rightarrow> bool" where
  "fitsAll E ps \<longleftrightarrow> (\<forall>(i, doc) \<in> set ps. fits E doc)"

definition spoilsAll :: "'e env \<Rightarrow> (string \<times> collectionState) list \<Rightarrow> string \<Rightarrow> (int64 \<times> gv) list \<Rightarrow> int64 set" where
  "spoilsAll E cols n ps = (\<Union>(i, doc) \<in> set ps. spoils E cols n doc)"

text \<open>The patch of an action, applied to the text of each document of the window.\<close>

fun absPatch :: "'e env \<Rightarrow> gv \<Rightarrow> int64 list \<Rightarrow> (int64 \<Rightarrow> gv option) \<Rightarrow> (int64 \<times> gv) list option" where
  "absPatch E payload [] docs = Some []"
| "absPatch E payload (i # is) docs =
     (case docs i of
        None \<Rightarrow> None
      | Some d \<Rightarrow>
          (let raw = textOf E d
           in case applyPatchPayload (envLib E) (envJson E) (envRoom E raw) raw payload of
                Inl _ \<Rightarrow> None
              | Inr patched \<Rightarrow>
                  (case decodeJSON (envJson E) patched of
                     Inl _ \<Rightarrow> None
                   | Inr doc \<Rightarrow> map_option ((#) (i, doc)) (absPatch E payload is docs))))"

lemma setCol_col: "colName c = n \<Longrightarrow> map_of (collections (setCol c db)) n = Some c"
  by (simp add: AList.update_conv')

lemma deleteLocked_col:
  assumes "colName c = n"
  shows "map_of (collections (deleteLocked E c i raw d db)) n \<noteq> None"
proof -
  define col where "col = adjustIndexRNums (envLib E) (if 0 < colRNum c then c\<lparr>colRNum := colRNum c - 1\<rparr> else c) d VNil"
  have "strip col = strip c" by (simp add: col_def)
  then have "colName col = n" using strip_colName assms by metis
  moreover have "collections (deleteLocked E c i raw d db) = collections (setCol col db)"
    by (simp only: deleteLocked_def col_def Let_def recordDocDelete_def) simp
  ultimately show ?thesis using setCol_col [of col n db] by simp
qed

lemma putLocked_col:
  assumes "putLocked E c i raw db = (Inr (), db')" and "colName c = n" and c: "map_of (collections db) n = Some c"
  shows "\<exists>c'. map_of (collections db') n = Some c'" and "spoils E (collections db') m p = spoils E (collections db) m p"
proof -
  obtain canon doc old where p: "normalizeRawJSON E raw = Inr (canon, doc)" "oldDocument E db c i = Inr old"
      "checkUniqueConstraints E db c i doc = Inr ()"
    using assms(1) by (auto simp: putLocked_def split: sum.splits prod.splits)
  obtain oldRaw oldDoc where o: "(case old of None \<Rightarrow> ([], VNil) | Some rd \<Rightarrow> rd) = (oldRaw, oldDoc)" by force
  define col where "col = adjustIndexRNums (envLib E) (if old = None then c\<lparr>colRNum := colRNum c + 1\<rparr> else c) oldDoc doc"
  have st: "strip col = strip c" by (simp add: col_def)
  then have n: "colName col = n" using strip_colName assms(2) by metis
  have "db' = recordDocPut n i oldRaw canon oldDoc doc (setCol col db)"
    using assms(1,2) p o by (cases old) (simp_all add: putLocked_def col_def Let_def)
  then have e: "collections db' = AList.update n col (collections db)" by (simp add: n)
  then show "\<exists>c'. map_of (collections db') n = Some c'" by (simp add: AList.update_conv')
  show "spoils E (collections db') m p = spoils E (collections db) m p" unfolding e by (rule spoils_setCol [OF st c])
qed

text \<open>The relation of the database object to the view and to what a commit would store, kept through the steps of an action.\<close>

definition acted :: "'e env \<Rightarrow> ('e \<Rightarrow> kv) \<Rightarrow> int64 set \<Rightarrow> docs \<Rightarrow> 'e DB \<Rightarrow> docs \<Rightarrow> docs \<Rightarrow> schema \<Rightarrow> bool \<Rightarrow> bool" where
  "acted E kv B D db V W S cl \<longleftrightarrow> dbRel E kv B db D V \<and> committed E db D = W \<and> schemaOf db = S \<and> dbClosed db = cl"

context db_env begin

lemma deleteDocs_rel:
  assumes "acted E kv B D db V W S cl" and "map_of (collections db) n \<noteq> None" and "colName col = n"
    and "\<forall>m \<in> set w. V n (mdId m) = Some (mdNode m) \<and> mdRaw m \<noteq> []" and "distinct (map mdId w)"
  shows "acted E kv B D (deleteDocs E col w db) (absDelete n (map mdId w) V) (absDelete n (map mdId w) W) S cl"
  using assms
proof (induction w arbitrary: db V W)
  case (Cons m w)
  have rel: "dbRel E kv B db D V" and W: "committed E db D = W" and S: "schemaOf db = S" and cl: "dbClosed db = cl"
    using Cons.prems(1) by (simp_all add: acted_def)
  obtain c where c: "map_of (collections db) n = Some c" using Cons.prems(2) by auto
  then have cc: "currentCol col db = c" using Cons.prems(3) by (simp add: currentCol_def)
  have nm: "colName c = n" using catOk_name [OF dbRelD(1) [OF rel] c] .
  have m: "V n (mdId m) = Some (mdNode m)" "mdRaw m \<noteq> []" using Cons.prems(4) by auto
  define V1 where "V1 = V(n := (V n)(mdId m := None))"
  define W1 where "W1 = W(n := (W n)(mdId m := None))"
  have a: "acted E kv B D (deleteLocked E c (mdId m) (mdRaw m) (mdNode m) db) V1 W1 S cl"
    using deleteLocked_rel [OF rel c m, folded V1_def] deleteLocked_schema [OF rel c] W S cl by (simp add: acted_def W1_def)
  have "\<forall>x \<in> set w. V1 n (mdId x) = Some (mdNode x) \<and> mdRaw x \<noteq> []"
    using Cons.prems(4,5) by (auto simp: image_iff V1_def)
  from Cons.IH [OF a deleteLocked_col [OF nm] Cons.prems(3) this] Cons.prems(5)
  have "acted E kv B D (deleteDocs E col (m # w) db) (absDelete n (map mdId w) V1) (absDelete n (map mdId w) W1) S cl"
    by (simp add: cc)
  moreover have "absDelete n (map mdId w) V1 = absDelete n (map mdId (m # w)) V"
    "absDelete n (map mdId w) W1 = absDelete n (map mdId (m # w)) W"
    by (auto simp: absDelete_def fun_eq_iff V1_def W1_def)
  ultimately show ?case by simp
qed (simp add: absDelete_def fun_upd_idem)

lemma putLocked_decodes: "putLocked E c i raw db = (Inr (), db') \<Longrightarrow> \<exists>doc. decodeJSON (envJson E) raw = Inr doc"
  using normalizeRawJSON_ok(1) by (auto simp: putLocked_def split: sum.splits prod.splits)

lemma patchDocs_abs:
  assumes "patchDocs E col payload w db = (Inr (), db')"
    and "\<forall>m \<in> set w. \<exists>d. docs (mdId m) = Some d \<and> mdRaw m = textOf E d"
  shows "\<exists>ps. absPatch E payload (map mdId w) docs = Some ps"
  using assms
proof (induction w arbitrary: db)
  case (Cons m w)
  obtain d where d: "docs (mdId m) = Some d" "mdRaw m = textOf E d" using Cons.prems(2) by auto
  obtain patched db1 where p: "applyPatchPayload (envLib E) (envJson E) (envRoom E (mdRaw m)) (mdRaw m) payload = Inr patched"
      and put: "putLocked E (currentCol col db) (mdId m) patched db = (Inr (), db1)"
      and rest: "patchDocs E col payload w db1 = (Inr (), db')"
    using Cons.prems(1) by (auto split: sum.splits prod.splits)
  obtain doc where doc: "decodeJSON (envJson E) patched = Inr doc" using putLocked_decodes [OF put] by blast
  have "\<exists>ps. absPatch E payload (map mdId w) docs = Some ps" using Cons.IH [OF rest] Cons.prems(2) by simp
  then show ?case using d p doc by auto
qed simp

lemma patchDocs_rel:
  assumes "acted E kv B D db V W S cl" and "map_of (collections db) n \<noteq> None" and "colName col = n"
    and "\<forall>m \<in> set w. \<exists>d. docs (mdId m) = Some d \<and> mdRaw m = textOf E d" and "\<forall>m \<in> set w. V n (mdId m) \<noteq> None"
    and "patchDocs E col payload w db = (Inr (), db')"
    and "absPatch E payload (map mdId w) docs = Some ps" and "fitsAll E ps"
  shows "acted E kv (B \<union> spoilsAll E (collections db) n ps) D db' (putAll id n ps V) (putAll (storedForm E) n ps W) S cl"
  using assms
proof (induction w arbitrary: db V W B ps)
  case Nil
  then show ?case by (simp add: spoilsAll_def)
next
  case (Cons m w)
  have rel: "dbRel E kv B db D V" and W: "committed E db D = W" and S: "schemaOf db = S" and cl: "dbClosed db = cl"
    using Cons.prems(1) by (simp_all add: acted_def)
  obtain c where c: "map_of (collections db) n = Some c" using Cons.prems(2) by auto
  then have cc: "currentCol col db = c" using Cons.prems(3) by (simp add: currentCol_def)
  have nm: "colName c = n" using catOk_name [OF dbRelD(1) [OF rel] c] .
  obtain d where d: "docs (mdId m) = Some d" "mdRaw m = textOf E d" using Cons.prems(4) by auto
  obtain patched db1 where p: "applyPatchPayload (envLib E) (envJson E) (envRoom E (mdRaw m)) (mdRaw m) payload = Inr patched"
      and put: "putLocked E c (mdId m) patched db = (Inr (), db1)" and rest: "patchDocs E col payload w db1 = (Inr (), db')"
    using Cons.prems(6) by (auto simp: cc split: sum.splits prod.splits)
  have nx: "sint (mdId m) \<le> sint (colNextID c)" using dbRelD(6) [OF rel] c Cons.prems(5) by (auto simp: nextOk_def)
  obtain doc where doc: "decodeJSON (envJson E) patched = Inr doc" "puts E kv db db1 B D V n (mdId m) doc"
    by (rule putLocked_puts [OF rel c put nx])
  obtain ps' where ps: "ps = (mdId m, doc) # ps'" and abs: "absPatch E payload (map mdId w) docs = Some ps'"
    using Cons.prems(7) d p doc(1) by auto
  have f: "fits E doc" "fitsAll E ps'" using Cons.prems(8) by (auto simp: ps fitsAll_def)
  let ?V = "V(n := (V n)(mdId m \<mapsto> doc))" and ?W = "W(n := (W n)(mdId m \<mapsto> storedForm E doc))"
  have a: "acted E kv (B \<union> spoils E (collections db) n doc) D db1 ?V ?W S cl"
    using doc(2) f(1) W S cl putLocked_schema [OF rel c put] by (simp add: acted_def puts_def)
  note pc = putLocked_col [OF put nm c]
  have "acted E kv (B \<union> spoils E (collections db) n doc \<union> spoilsAll E (collections db1) n ps') D db'
      (putAll id n ps' ?V) (putAll (storedForm E) n ps' ?W) S cl"
    by (rule Cons.IH [OF a _ Cons.prems(3) _ _ rest abs f(2)]) (use pc(1) Cons.prems(4,5) in auto)
  moreover have "spoilsAll E (collections db1) n ps' = spoilsAll E (collections db) n ps'" by (simp add: spoilsAll_def pc(2))
  ultimately show ?case by (simp add: ps spoilsAll_def Un_assoc id_def)
qed

lemma upsertNew_rel:
  assumes rel: "dbRel E kv B db D V" and c: "map_of (collections db) n = Some c" and "colName col = n"
    and lim: "sint (colNextID c) < 2 ^ 63 - 1" and up: "upsertNew E col payload db = (Inr k, db')"
  obtains raw doc i where "k = 1" "marshalJSON (envJson E) payload = Inr raw" "decodeJSON (envJson E) raw = Inr doc"
    "V n i = None" "puts E kv db db' B D V n i doc" "schemaOf db' = schemaOf db"
proof -
  have cc: "currentCol col db = c" using assms(3) c by (simp add: currentCol_def)
  define c1 where "c1 = c\<lparr>colNextID := colNextID c + 1\<rparr>"
  obtain raw where raw: "marshalJSON (envJson E) payload = Inr raw"
      and put: "putLocked E c1 (colNextID c1) raw (setCol c1 db) = (Inr (), db')" and k: "k = 1"
    using up by (auto simp: upsertNew_def cc Let_def c1_def split: sum.splits prod.splits)
  have nid: "sint (colNextID c1) = sint (colNextID c) + 1" using lim unfolding c1_def by (simp add: sint_Suc)
  have le: "sint j \<le> sint (colNextID c)" if "V n j \<noteq> None" for j
    using dbRelD(6) [OF rel] c that unfolding nextOk_def by blast
  have nx: "sint j \<le> sint (colNextID c1)" if "V n j \<noteq> None" for j using le [OF that] nid by simp
  have st: "strip c1 = strip c" by (simp add: c1_def)
  have nm: "colName c1 = n" using catOk_name [OF dbRelD(1) [OF rel] c] by (simp add: c1_def)
  note rel1 = dbRel_setCol [OF rel c st nx]
  obtain doc where doc: "decodeJSON (envJson E) raw = Inr doc" "puts E kv (setCol c1 db) db' B D V n (colNextID c1) doc"
    by (rule putLocked_puts [OF rel1 put order_refl])
  have "V n (colNextID c1) = None"
  proof (rule ccontr)
    assume "V n (colNextID c1) \<noteq> None"
    then show False using le [of "colNextID c1"] nid by simp
  qed
  moreover have "committed E (setCol c1 db) D = committed E db D" by (simp add: committed_def)
  moreover have "spoils E (collections (setCol c1 db)) n doc = spoils E (collections db) n doc"
    using spoils_setCol [OF st c, of E n doc] by (simp add: nm)
  ultimately have "puts E kv db db' B D V n (colNextID c1) doc" using doc(2) by (simp only: puts_def) simp
  moreover have "schemaOf db' = schemaOf db" using putLocked_schema [OF rel1 put] schemaOf_setCol [OF c st nm] by simp
  ultimately show thesis using that [OF k raw doc(1) \<open>V n (colNextID c1) = None\<close>] by blast
qed

end

text \<open>
  What an action with the ids of the window makes of the documents of the collection. The id of a document that \<^verbatim>\<open>upsert\<close> adds is
  one that no document has.
\<close>

inductive absAction :: "'e env \<Rightarrow> Query \<Rightarrow> int64 list \<Rightarrow> (int64 \<Rightarrow> gv option) \<Rightarrow> actionEffect \<Rightarrow> bool" for E q where
  abs_delete: "pqAction (qParsed q) = actionDelete \<Longrightarrow> absAction E q is docs (Deletes is)"
| abs_apply: "pqAction (qParsed q) = actionApply \<Longrightarrow> valueResolve q (pqActionArg (qParsed q)) = Inr payload \<Longrightarrow>
    absPatch E payload is docs = Some ps \<Longrightarrow> absAction E q is docs (Puts ps)"
| abs_upsert_old: "pqAction (qParsed q) = actionUpsert \<Longrightarrow> is \<noteq> [] \<Longrightarrow> valueResolve q (pqActionArg (qParsed q)) = Inr payload \<Longrightarrow>
    absPatch E payload is docs = Some ps \<Longrightarrow> absAction E q is docs (Puts ps)"
| abs_upsert_new: "pqAction (qParsed q) = actionUpsert \<Longrightarrow> valueResolve q (pqActionArg (qParsed q)) = Inr payload \<Longrightarrow>
    marshalJSON (envJson E) payload = Inr raw \<Longrightarrow> decodeJSON (envJson E) raw = Inr doc \<Longrightarrow> docs i = None \<Longrightarrow>
    absAction E q [] docs (Puts [(i, doc)])"

context db_env begin

lemma applyAction_rel:
  assumes a: "acted E kv B D db V W S cl" and c: "map_of (collections db) (qCollection q) = Some c" and "colName col = qCollection q"
    and lim: "sint (colNextID c) < 2 ^ 63 - 1"
    and w: "\<forall>m \<in> set w. V (qCollection q) (mdId m) = Some (mdNode m) \<and> mdRaw m = textOf E (mdNode m) \<and> mdRaw m \<noteq> []"
    and dist: "distinct (map mdId w)" and act: "pqAction (qParsed q) \<noteq> actionNone"
    and app: "applyActionLocked E col q w db = (Inr k, db')"
  shows "\<exists>eff. absAction E q (map mdId w) (V (qCollection q)) eff
     \<and> k = (if w = [] \<and> pqAction (qParsed q) = actionUpsert then 1 else int (length w))
     \<and> (fitsAll E (putsOf eff) \<longrightarrow> acted E kv (B \<union> spoilsAll E (collections db) (qCollection q) (putsOf eff)) D db'
          (actionDocs id (qCollection q) eff V) (actionDocs (storedForm E) (qCollection q) eff W) S cl)"
proof -
  let ?n = "qCollection q"
  have rel: "dbRel E kv B db D V" using a by (simp add: acted_def)
  have cn: "map_of (collections db) ?n \<noteq> None" using c by simp
  have w': "\<forall>m \<in> set w. \<exists>d. V ?n (mdId m) = Some d \<and> mdRaw m = textOf E d" "\<forall>m \<in> set w. V ?n (mdId m) \<noteq> None" using w by auto
  have patch: "\<exists>ps. absPatch E payload (map mdId w) (V ?n) = Some ps
      \<and> (fitsAll E ps \<longrightarrow> acted E kv (B \<union> spoilsAll E (collections db) ?n ps) D db' (putAll id ?n ps V) (putAll (storedForm E) ?n ps W) S cl)"
    if p: "patchDocs E col payload w db = (Inr (), db')" for payload
    using patchDocs_abs [OF p w'(1)] patchDocs_rel [OF a cn assms(3) w' p] by blast
  show ?thesis
  proof (cases "pqAction (qParsed q)")
    case actionDelete
    then have "k = int (length w)" "db' = deleteDocs E col w db" using app by (simp_all add: applyActionLocked_def)
    moreover have "\<forall>m \<in> set w. V ?n (mdId m) = Some (mdNode m) \<and> mdRaw m \<noteq> []" using w by blast
    ultimately show ?thesis using deleteDocs_rel [OF a cn assms(3) _ dist] abs_delete [OF actionDelete] actionDelete
      by (intro exI [of _ "Deletes (map mdId w)"]) (simp add: spoilsAll_def)
  next
    case actionApply
    then obtain payload where v: "valueResolve q (pqActionArg (qParsed q)) = Inr payload"
        and p: "patchDocs E col payload w db = (Inr (), db')" "k = int (length w)"
      using app by (auto simp: applyActionLocked_def Let_def split: sum.splits prod.splits)
    from patch [OF p(1)] obtain ps where ps: "absPatch E payload (map mdId w) (V ?n) = Some ps"
      "fitsAll E ps \<longrightarrow> acted E kv (B \<union> spoilsAll E (collections db) ?n ps) D db' (putAll id ?n ps V) (putAll (storedForm E) ?n ps W) S cl"
      by blast
    then show ?thesis using abs_apply [OF actionApply v ps(1)] actionApply p(2) by (intro exI [of _ "Puts ps"]) simp
  next
    case actionUpsert
    then obtain payload where v: "valueResolve q (pqActionArg (qParsed q)) = Inr payload"
      using app by (auto simp: applyActionLocked_def Let_def split: sum.splits)
    show ?thesis
    proof (cases "w = []")
      case True
      then have up: "upsertNew E col payload db = (Inr k, db')" using app actionUpsert v by (simp add: applyActionLocked_def)
      obtain raw doc i where u: "k = 1" "marshalJSON (envJson E) payload = Inr raw"
        "decodeJSON (envJson E) raw = Inr doc" "V ?n i = None" "puts E kv db db' B D V ?n i doc" "schemaOf db' = schemaOf db"
        by (rule upsertNew_rel [OF rel c assms(3) lim up])
      have "fits E doc \<Longrightarrow> acted E kv (B \<union> spoils E (collections db) ?n doc) D db'
          (V(?n := (V ?n)(i \<mapsto> doc))) (W(?n := (W ?n)(i \<mapsto> storedForm E doc))) S cl"
        using u(5,6) a by (simp add: puts_def acted_def)
      then show ?thesis using abs_upsert_new [where docs = "V ?n", OF actionUpsert v u(2-4)] u(1) True actionUpsert
        by (intro exI [of _ "Puts [(i, doc)]"]) (simp add: fitsAll_def spoilsAll_def)
    next
      case False
      then have p: "patchDocs E col payload w db = (Inr (), db')" "k = int (length w)"
        using app actionUpsert v by (auto simp: applyActionLocked_def Let_def split: sum.splits prod.splits)
      from patch [OF p(1)] obtain ps where ps: "absPatch E payload (map mdId w) (V ?n) = Some ps"
        "fitsAll E ps \<longrightarrow> acted E kv (B \<union> spoilsAll E (collections db) ?n ps) D db' (putAll id ?n ps V) (putAll (storedForm E) ?n ps W) S cl"
        by blast
      then show ?thesis using abs_upsert_old [OF actionUpsert _ v ps(1)] False p(2) by (intro exI [of _ "Puts ps"]) simp
    qed
  qed (use act in simp)
qed

end

lemma windowDocs_distinct: "windowDocs b skip limit xs = Inr w \<Longrightarrow> distinct xs \<Longrightarrow> distinct w"
  by (auto simp: windowDocs_def Let_def split: if_splits)

lemma commitChanged_ok:
  assumes "commitChanged E f (Inr res, db) = (Inr k, db')"
  shows "k = f res" and "if qrChanged res then commitLocked E db = (Inr (), db') else db' = db"
  using assms by (auto simp: commitChanged_def split: if_splits sum.splits prod.splits)

lemma runOnCollection_update:
  assumes run: "runOnCollection Q q modeUpdate opts c st db = (Inr res, db')"
  obtains paths skip limit w logs where "sortPathsOf q (pqSorts (qParsed q)) = Inr paths"
    "intOption q (pqSkip (qParsed q)) (pqSkipPH (qParsed q)) (eoSkip opts) = Inr skip"
    "intOption q (pqLimit (qParsed q)) (pqLimitPH (qParsed q)) (eoLimit opts) = Inr limit"
    "matchWindow Q db c q skip limit paths = Inr (w, logs)"
    "applyActionLocked (qeEnv Q) c q w db = (Inr (qrCount res), db')" "qrChanged res \<longleftrightarrow> 0 < qrCount res"
proof -
  obtain paths skip limit w logs where *: "sortPathsOf q (pqSorts (qParsed q)) = Inr paths"
    "intOption q (pqSkip (qParsed q)) (pqSkipPH (qParsed q)) (eoSkip opts) = Inr skip"
    "intOption q (pqLimit (qParsed q)) (pqLimitPH (qParsed q)) (eoLimit opts) = Inr limit"
    "matchWindow Q db c q skip limit paths = Inr (w, logs)"
    using run unfolding runOnCollection_def Let_def by (auto split: sum.splits)
  obtain k db1 where app: "applyActionLocked (qeEnv Q) c q w db = (Inr k, db1)"
    using run by (auto simp: runOnCollection_def Let_def * split: sum.splits prod.splits)
  show thesis
    using that [OF *] run by (auto simp: runOnCollection_def Let_def * app split: sum.splits if_splits)
qed

context query_env begin

text \<open>The window of a query without an index, as ids in the order of the query.\<close>

lemma matchWindow_ids:
  assumes inv: "dbInv (qeEnv Q) kv B db D" and c: "map_of (collections db) (qCollection q) = Some c"
    and plan: "planQuery Q db c q [] = None" and sorts: "pqSorts (qParsed q) = []"
    and w: "matchWindow Q db c q skip limit [] = Inr (w, logs)"
  obtains ids where "sorted_wrt (\<lambda>i j. if pqInverse (qParsed q) then sint i < sint j else sint j < sint i) ids"
    "set ids = selected Q q (D (qCollection q))" "windowDocs False skip limit ids = Inr (map mdId w)" "distinct (map mdId w)"
    "\<forall>m \<in> set w. D (qCollection q) (mdId m) = Some (mdNode m) \<and> mdRaw m = textOf (qeEnv Q) (mdNode m) \<and> mdRaw m \<noteq> []"
proof -
  let ?D = "D (qCollection q)" and ?lt = "\<lambda>i j. if pqInverse (qParsed q) then sint i < sint j else sint j < sint (i :: int64)"
  obtain ids where ids: "sorted_wrt ?lt ids" "set ids = selected Q q ?D"
      "windowDocs False skip limit (map (docAt Q ?D) ids) = Inr (map idRaw w)"
    using matchWindow_ok [OF reads_inv [OF inv] c plan sorts w] .
  then have e: "windowDocs False skip limit (map fst (map (docAt Q ?D) ids)) = Inr (map mdId w)"
    unfolding windowDocs_map [of _ _ _ fst] by (simp add: comp_def)
  then have win: "windowDocs False skip limit ids = Inr (map mdId w)" by (simp add: docAt_def comp_def)
  have "distinct ids" using ids(1) by (induction ids) (auto split: if_splits)
  then have "distinct (map mdId w)" using windowDocs_distinct [OF win] by simp
  moreover have "m \<in> set w \<Longrightarrow> D (qCollection q) (mdId m) = Some (mdNode m) \<and> mdRaw m = textOf (qeEnv Q) (mdNode m) \<and> mdRaw m \<noteq> []" for m
  proof -
    assume "m \<in> set w"
    then obtain i where i: "i \<in> selected Q q ?D" "idRaw m = docAt Q ?D i" using windowDocs_subset [OF ids(3)] ids(2) by auto
    then show ?thesis using selected_text [OF reads_inv [OF inv] i(1)] by (auto simp: docAt_def selected_def)
  qed
  ultimately show thesis using that [OF ids(1,2) win] by blast
qed

end

context query_env begin

lemma runOnCollection_action:
  assumes inv: "dbInv (qeEnv Q) kv B db D" and c: "map_of (collections db) (qCollection q) = Some c"
    and plan: "planQuery Q db c q [] = None" and sorts: "pqSorts (qParsed q) = []" and act: "pqAction (qParsed q) \<noteq> actionNone"
    and lim: "sint (colNextID c) < 2 ^ 63 - 1"
    and run: "runOnCollection Q q modeUpdate opts c st db = (Inr res, db1)"
    and com: "commitChanged (qeEnv Q) qrCount (Inr res, db1) = (Inr k, db')"
  shows "\<exists>ids skip limit window eff.
      sorted_wrt (\<lambda>i j. if pqInverse (qParsed q) then sint i < sint j else sint j < sint i) ids
    \<and> set ids = selected Q q (D (qCollection q))
    \<and> intOption q (pqSkip (qParsed q)) (pqSkipPH (qParsed q)) (eoSkip opts) = Inr skip
    \<and> intOption q (pqLimit (qParsed q)) (pqLimitPH (qParsed q)) (eoLimit opts) = Inr limit
    \<and> windowDocs False skip limit ids = Inr window \<and> absAction (qeEnv Q) q window (D (qCollection q)) eff
    \<and> k = (if window = [] \<and> pqAction (qParsed q) = actionUpsert then 1 else int (length window))
    \<and> (fitsAll (qeEnv Q) (putsOf eff) \<longrightarrow>
         dbInv (qeEnv Q) kv (B \<union> spoilsAll (qeEnv Q) (collections db) (qCollection q) (putsOf eff)) db'
           (actionDocs (storedForm (qeEnv Q)) (qCollection q) eff D) \<and> schemaOf db' = schemaOf db)"
proof -
  have rel: "dbRel (qeEnv Q) kv B db D D" and open_db: "\<not> dbClosed db" "dbPending db = []" using inv by (auto simp: dbInv_def)
  obtain paths skip limit w logs where paths: "sortPathsOf q (pqSorts (qParsed q)) = Inr paths"
    and r: "intOption q (pqSkip (qParsed q)) (pqSkipPH (qParsed q)) (eoSkip opts) = Inr skip"
    "intOption q (pqLimit (qParsed q)) (pqLimitPH (qParsed q)) (eoLimit opts) = Inr limit"
    and w: "matchWindow Q db c q skip limit paths = Inr (w, logs)"
    and app: "applyActionLocked (qeEnv Q) c q w db = (Inr (qrCount res), db1)" and ch: "qrChanged res \<longleftrightarrow> 0 < qrCount res"
    using runOnCollection_update [OF run] .
  have p: "paths = []" using paths sorts by simp
  obtain ids where ids: "sorted_wrt (\<lambda>i j. if pqInverse (qParsed q) then sint i < sint j else sint j < sint i) ids"
    "set ids = selected Q q (D (qCollection q))" "windowDocs False skip limit ids = Inr (map mdId w)" "distinct (map mdId w)"
    "\<forall>m \<in> set w. D (qCollection q) (mdId m) = Some (mdNode m) \<and> mdRaw m = textOf (qeEnv Q) (mdNode m) \<and> mdRaw m \<noteq> []"
    using matchWindow_ids [OF inv c plan sorts w [unfolded p]] .
  have nm: "colName c = qCollection q" using catOk_name [OF dbRelD(1) [OF rel] c] .
  have a: "acted (qeEnv Q) kv B D db D D (schemaOf db) False" using rel open_db by (simp add: acted_def committed_def)
  obtain eff where eff: "absAction (qeEnv Q) q (map mdId w) (D (qCollection q)) eff"
      "qrCount res = (if w = [] \<and> pqAction (qParsed q) = actionUpsert then 1 else int (length w))"
      "fitsAll (qeEnv Q) (putsOf eff) \<Longrightarrow> acted (qeEnv Q) kv (B \<union> spoilsAll (qeEnv Q) (collections db) (qCollection q) (putsOf eff)) D db1
        (actionDocs id (qCollection q) eff D) (actionDocs (storedForm (qeEnv Q)) (qCollection q) eff D) (schemaOf db) False"
    using applyAction_rel [OF a c nm lim ids(5,4) act app] by blast
  note k = commitChanged_ok [OF com]
  have "dbInv (qeEnv Q) kv (B \<union> spoilsAll (qeEnv Q) (collections db) (qCollection q) (putsOf eff)) db'
      (actionDocs (storedForm (qeEnv Q)) (qCollection q) eff D) \<and> schemaOf db' = schemaOf db" if f: "fitsAll (qeEnv Q) (putsOf eff)"
  proof (cases "0 < qrCount res")
    case True
    then have com': "commitLocked (qeEnv Q) db1 = (Inr (), db')" using k(2) ch by simp
    note e = eff(3) [OF f, unfolded acted_def]
    show ?thesis using commitLocked_rel(1) [OF conjunct1 [OF e] com'] commitLocked_schema [OF com'] e by simp
  next
    case False
    then have e: "w = []" "pqAction (qParsed q) \<noteq> actionUpsert" using eff(2) by (auto split: if_splits)
    then have "db1 = db" using app act by (auto simp: applyActionLocked_def Let_def split: sum.splits queryAction.splits)
    moreover have "eff = Deletes [] \<or> eff = Puts []" using eff(1) e by (auto elim!: absAction.cases)
    ultimately show ?thesis using inv k(2) ch False by (auto simp: absDelete_def spoilsAll_def fun_upd_idem)
  qed
  then show ?thesis
    using ids(1,2,3) r eff(1,2) k(1)
    by (intro exI [of _ ids] exI [of _ skip] exI [of _ limit] exI [of _ "map mdId w"] exI [of _ eff]) auto
qed

end

end
