(* ===== verification/IndexSound.thy ===== *)
theory IndexSound
  imports IndexScan DbInv
begin

text \<open>
  What an index scan of \<^verbatim>\<open>db.go\<close> delivers: on an index that agrees with the documents of its collection, exactly the ids of
  the documents with a value the plan accepts, each once. The lower and upper keys of a numeric range cut the entries of
  the index where the order of the values does.
\<close>

section \<open>Keys that decode\<close>

lemma PutUint_Uint:
  "length bs = 8 \<Longrightarrow> PutUint64 (Uint64 bs) = bs" "length bs = 4 \<Longrightarrow> PutUint32 (Uint32 bs) = bs"
  using be_bytes_be_nat [of bs] be_nat_less [of bs]
  by (simp_all add: PutUint64_def Uint64_def PutUint32_def Uint32_def unat_of_nat)

lemma readI64_take:
  assumes "readI64 src off = Some (x, off')"
  shows "take 8 (drop off src) = encI64 x" and "off' = off + 8" and "off + 8 \<le> length src"
proof -
  have l: "8 \<le> length src - off" and x: "x = Uint64 (take 8 (drop off src)) XOR 0x8000000000000000" and o: "off' = off + 8"
    using assms by (auto simp: readI64_def not_less split: if_splits)
  then show "off' = off + 8" and "off + 8 \<le> length src" by auto
  show "take 8 (drop off src) = encI64 x"
    using l by (simp add: x encI64_def appendI64_def xor.assoc PutUint_Uint)
qed

lemma bytes_of_string_of_bytes: "bytes_of_string (string_of_bytes bs) = bs"
  by (induction bs) (simp_all add: bytes_of_string_def string_of_bytes_def)

lemma readSegment_take:
  assumes "readSegment src off = Some (s, off')"
  shows "take (4 + length s) (drop off src) = encSegment s" and "off' = off + 4 + length s" and "off' \<le> length src"
    and "length s < 2 ^ 32"
proof -
  let ?w = "Uint32 (take 4 (drop off src))"
  have l: "4 \<le> length src - off" "unat ?w \<le> length src - (off + 4)"
    and s: "s = string_of_bytes (take (unat ?w) (drop (off + 4) src))" and o: "off' = off + 4 + unat ?w"
    using assms by (auto simp: readSegment_def Let_def not_less split: if_splits)
  have n: "length s = unat ?w" using l(2) by (simp add: s string_of_bytes_def)
  then show "off' = off + 4 + length s" and "off' \<le> length src" using o l by auto
  show "length s < 2 ^ 32" using unsigned_less [of ?w, where 'a = nat] by (simp add: n)
  have "take (4 + length s) (drop off src) = take 4 (drop off src) @ take (length s) (drop (off + 4) src)"
    by (simp only: take_add drop_drop add.commute [of 4 off])
  also have "take (length s) (drop (off + 4) src) = bytes_of_string s" unfolding n by (simp add: s bytes_of_string_of_bytes)
  also have "take 4 (drop off src) = PutUint32 (of_nat (length s))" unfolding n using l(1) by (simp add: PutUint_Uint)
  finally show "take (4 + length s) (drop off src) = encSegment s" by (simp add: encSegment_def appendSegment_def)
qed

lemma decodeIndexKey_Some:
  assumes "decodeIndexKey k = Some (idxDBID idx, v, i)"
  shows "k = keyIndex idx v i" and "length v < 2 ^ 32"
proof -
  obtain o1 o2 where k: "k \<noteq> []" "hd k = keyTagIdx" "readI64 k 1 = Some (idxDBID idx, o1)" "readSegment k o1 = Some (v, o2)"
      "readI64 k o2 = Some (i, length k)"
    using assms by (auto simp: decodeIndexKey_def split: if_splits option.splits)
  note a = readI64_take [OF k(3)] and b = readSegment_take [OF k(4)] and c = readI64_take [OF k(5)]
  show "length v < 2 ^ 32" by (rule b(4))
  have "k = hd k # drop 1 k" using k(1) by (cases k) auto
  also have "drop 1 k = take 8 (drop 1 k) @ drop o1 k" unfolding a(2) by (metis add.commute append_take_drop_id drop_drop)
  also have "drop o1 k = take (4 + length v) (drop o1 k) @ drop o2 k"
    unfolding b(2) by (metis add.assoc add.commute append_take_drop_id drop_drop)
  also have "drop o2 k = take 8 (drop o2 k)" using c(2) by simp
  finally show "k = keyIndex idx v i" by (simp only: key_layout a(1) b(1) c(1) k(2)) simp
qed

lemma decodeUniqueIndexKey_Some:
  assumes "decodeUniqueIndexKey k = Some (idxDBID idx, v)"
  shows "k = keyUniqueIndex idx v" and "length v < 2 ^ 32"
proof -
  obtain o1 where k: "k \<noteq> []" "hd k = keyTagUIdx" "readI64 k 1 = Some (idxDBID idx, o1)" "readSegment k o1 = Some (v, length k)"
    using assms by (auto simp: decodeUniqueIndexKey_def split: if_splits option.splits)
  note a = readI64_take [OF k(3)] and b = readSegment_take [OF k(4)]
  show "length v < 2 ^ 32" by (rule b(4))
  have "k = hd k # drop 1 k" using k(1) by (cases k) auto
  also have "drop 1 k = take 8 (drop 1 k) @ drop o1 k" unfolding a(2) by (metis add.commute append_take_drop_id drop_drop)
  also have "drop o1 k = take (4 + length v) (drop o1 k)" using b(2) by simp
  finally show "k = keyUniqueIndex idx v" by (simp only: key_layout a(1) b(1) k(2)) simp
qed

section \<open>The entries of an index\<close>

definition entriesOf :: "'e env \<Rightarrow> indexState \<Rightarrow> (int64 \<Rightarrow> gv option) \<Rightarrow> indexEntry set" where
  "entriesOf E idx docs = {(v, i). \<exists>d. docs i = Some d \<and> v \<in> set (idxVals E idx d)}"

text \<open>An index that agrees with documents whose values fit the length field.\<close>

definition indexOk :: "'e env \<Rightarrow> kv \<Rightarrow> indexState \<Rightarrow> (int64 \<Rightarrow> gv option) \<Rightarrow> bool" where
  "indexOk E m idx docs \<longleftrightarrow> indexRel E m idx docs \<and> (\<forall>(v, i) \<in> entriesOf E idx docs. length v < 2 ^ 32)"

lemma entry_stored:
  assumes "indexOk E m idx docs" and "(v, i) \<in> entriesOf E idx docs"
  shows "m (indexEntryKey idx v i) = Some (indexEntryValue idx i)"
  using assms by (fastforce simp: indexOk_def indexRel_def entriesOf_def indexEntryKey_def indexEntryValue_def)

lemma stored_entry:
  assumes "indexOk E m idx docs" and "length v < 2 ^ 32" and "m (indexEntryKey idx v i) = Some val"
  shows "if idxUnique idx then \<exists>j. val = putU64 [] j \<and> (v, j) \<in> entriesOf E idx docs else (v, i) \<in> entriesOf E idx docs"
proof (cases "idxUnique idx")
  case True
  then have rel: "docs j = Some d \<Longrightarrow> v \<in> set (idxVals E idx d) \<Longrightarrow> m (keyUniqueIndex idx v) = Some (putU64 [] j)"
    "(\<forall>i d. docs i = Some d \<longrightarrow> v \<notin> set (idxVals E idx d)) \<Longrightarrow> m (keyUniqueIndex idx v) = None" for j d
    using assms(1,2) by (auto simp: indexOk_def indexRel_def)
  have m: "m (keyUniqueIndex idx v) = Some val" using assms(3) True by (simp add: indexEntryKey_def)
  then obtain j d where "docs j = Some d" "v \<in> set (idxVals E idx d)" using rel(2) by fastforce
  then show ?thesis using rel(1) m True by (auto simp: entriesOf_def)
next
  case False
  then show ?thesis using assms by (auto simp: indexOk_def indexRel_def entriesOf_def indexEntryKey_def split: if_splits)
qed

lemma decodeEntry_stored:
  assumes "indexOk E m idx docs" and "m k = Some val" and "decodeEntry idx k val = Inr (v, i)"
  shows "(v, i) \<in> entriesOf E idx docs" and "k = indexEntryKey idx v i"
proof -
  have "k = indexEntryKey idx v i \<and> length v < 2 ^ 32 \<and> (idxUnique idx \<longrightarrow> parseU64 val = Inr i)"
    using assms(3) decodeIndexKey_Some [of k idx v i] decodeUniqueIndexKey_Some [of k idx v]
    by (auto simp: decodeEntry_def indexEntryKey_def split: if_splits option.splits sum.splits)
  then show "(v, i) \<in> entriesOf E idx docs" and "k = indexEntryKey idx v i"
    using stored_entry [OF assms(1), of v i val] assms(2) by (auto split: if_splits)
qed

lemma decodeEntry_entry:
  assumes "length v < 2 ^ 32"
  shows "decodeEntry idx (indexEntryKey idx v i) (indexEntryValue idx i) = Inr (v, i)"
  using assms by (simp add: decodeEntry_def indexEntryKey_def indexEntryValue_def decodeIndexKey_keyIndex decodeUniqueIndexKey_keyUniqueIndex)

lemma entry_prefix: "HasPrefix (indexEntryKey idx v i) (indexScanPathPrefix idx)"
  by (simp add: indexEntryKey_def indexScanPathPrefix_def key_layout HasPrefix_def)

section \<open>Where the keys of a range cut the entries\<close>

lemma prefixEnd_nonempty: "p \<noteq> [] \<Longrightarrow> hd p \<noteq> 0xff \<Longrightarrow> prefixEnd p \<noteq> []"
proof (induction p rule: rev_induct)
  case (snoc b q)
  then show ?case using prefixEnd_snoc [of q b] by (cases q) (auto split: if_splits)
qed simp

lemma less_prefixEnd:
  assumes "p \<noteq> []" and "hd p \<noteq> 0xff"
  shows "k < prefixEnd p \<longleftrightarrow> k < p \<or> HasPrefix k p"
proof -
  have r: "p \<le> x \<and> x < prefixEnd p \<longleftrightarrow> HasPrefix x p" for x
    using prefix_range [of p x] prefixEnd_nonempty [OF assms] by (simp add: inKeyRange_def)
  have "p < prefixEnd p" using r [of p] by (simp add: HasPrefix_def)
  then show ?thesis using r [of k] by (metis not_less order_less_trans)
qed

lemma scan_prefix_hd:
  "indexScanValuePrefix idx w \<noteq> []" "hd (indexScanValuePrefix idx w) \<noteq> 0xff"
  "indexScanPathPrefix idx \<noteq> []" "hd (indexScanPathPrefix idx) \<noteq> 0xff"
  by (simp_all add: indexScanValuePrefix_def indexScanPathPrefix_def key_layout keyTag_defs)

lemma entry_value_prefix:
  assumes "length v < 2 ^ 32" and "length w < 2 ^ 32"
  shows "HasPrefix (indexEntryKey idx v i) (indexScanValuePrefix idx w) \<longleftrightarrow> v = w"
proof -
  have "(\<exists>s. encSegment v @ r = encSegment w @ s) \<longleftrightarrow> v = w" for r
    using seg.enc_prefix_free [of v w r] assms by (auto simp: segmentFits_def)
  from this [of "[]"] this [of "encI64 i"] show ?thesis
    by (auto simp: HasPrefix_iff indexEntryKey_def indexScanValuePrefix_def key_layout)
qed

lemma entry_less_prefix:
  assumes "length v < 2 ^ 32" and "length v = length w"
  shows "indexEntryKey idx v i < indexScanValuePrefix idx w \<longleftrightarrow> v < w"
  using encSegment_append_less [of v w "encI64 i" "[]"] encSegment_append_less [of v w "[]" "[]"] assms
  by (simp add: indexEntryKey_def indexScanValuePrefix_def key_layout)

lemma entry_bounds:
  assumes "length v < 2 ^ 32" and "length v = length w"
  shows "indexScanValuePrefix idx w \<le> indexEntryKey idx v i \<longleftrightarrow> w \<le> v"
    and "indexEntryKey idx v i < prefixEnd (indexScanValuePrefix idx w) \<longleftrightarrow> v \<le> w"
    and "prefixEnd (indexScanValuePrefix idx w) \<le> indexEntryKey idx v i \<longleftrightarrow> w < v"
    and "indexScanPathPrefix idx \<le> indexEntryKey idx v i" and "indexEntryKey idx v i < prefixEnd (indexScanPathPrefix idx)"
proof -
  note l = entry_less_prefix [OF assms, of idx i]
  show "indexScanValuePrefix idx w \<le> indexEntryKey idx v i \<longleftrightarrow> w \<le> v" using l by (metis not_less)
  have u: "indexEntryKey idx v i < prefixEnd (indexScanValuePrefix idx w) \<longleftrightarrow> v \<le> w"
    unfolding less_prefixEnd [OF scan_prefix_hd(1,2)] l using entry_value_prefix [of v w idx i] assms by (auto simp: le_less)
  then show "indexEntryKey idx v i < prefixEnd (indexScanValuePrefix idx w) \<longleftrightarrow> v \<le> w" .
  show "prefixEnd (indexScanValuePrefix idx w) \<le> indexEntryKey idx v i \<longleftrightarrow> w < v" using u by (metis not_less)
  have "inKeyRange (indexScanPathPrefix idx) (prefixEnd (indexScanPathPrefix idx)) (indexEntryKey idx v i)"
    by (simp only: prefix_range entry_prefix)
  then show "indexScanPathPrefix idx \<le> indexEntryKey idx v i" and "indexEntryKey idx v i < prefixEnd (indexScanPathPrefix idx)"
    using prefixEnd_nonempty [OF scan_prefix_hd(3,4)] by (auto simp: inKeyRange_def)
qed

lemma rangeTest_strings:
  "rangeTest ''>'' (stringsCompare v w) \<longleftrightarrow> w < v" "rangeTest ''>='' (stringsCompare v w) \<longleftrightarrow> w \<le> v"
  "rangeTest ''<'' (stringsCompare v w) \<longleftrightarrow> v < w" "rangeTest ''<='' (stringsCompare v w) \<longleftrightarrow> v \<le> w"
  by (auto simp: rangeTest_def stringsCompare_def)

text \<open>
  Two bounds of a plan are on opposite sides: \<^verbatim>\<open>indexRangeKeyBounds\<close> would let the second bound of a side
  replace the first, and \<^verbatim>\<open>mergeRangeCandidates\<close> never asks for that.
\<close>

definition oppositeBounds :: "candidatePlan \<Rightarrow> bool" where
  "oppositeBounds plan \<longleftrightarrow> cpOp2 plan \<noteq> '''' \<longrightarrow>
     \<not> (isLowerBoundOp (cpOp plan) \<and> isLowerBoundOp (cpOp2 plan)) \<and> \<not> (isUpperBoundOp (cpOp plan) \<and> isUpperBoundOp (cpOp2 plan))"

definition boundsAccept :: "candidatePlan \<Rightarrow> string \<Rightarrow> string \<Rightarrow> string \<Rightarrow> bool" where
  "boundsAccept plan b b2 v \<longleftrightarrow> rangeTest (cpOp plan) (stringsCompare v b)
     \<and> (cpOp2 plan = '''' \<or> rangeTest (cpOp2 plan) (stringsCompare v b2))"

fun lowerOk :: "rangeSide \<Rightarrow> string \<Rightarrow> bool" where
  "lowerOk None v = True"
| "lowerOk (Some (w, incl)) v = (if incl then w \<le> v else w < v)"

fun upperOk :: "rangeSide \<Rightarrow> string \<Rightarrow> bool" where
  "upperOk None v = True"
| "upperOk (Some (w, incl)) v = (if incl then v \<le> w else v < w)"

definition sideFits :: "rangeSide \<Rightarrow> string \<Rightarrow> bool" where
  "sideFits side v \<longleftrightarrow> (case side of None \<Rightarrow> True | Some (w, _) \<Rightarrow> length v = length w)"

lemma sides_cut:
  assumes "length v < 2 ^ 32" and "sideFits lower v" and "sideFits upper v"
  shows "inKeyRange
      (case lower of Some (w, incl) \<Rightarrow> if incl then indexScanValuePrefix idx w else prefixEnd (indexScanValuePrefix idx w)
       | None \<Rightarrow> indexScanPathPrefix idx)
      (case upper of Some (w, incl) \<Rightarrow> if incl then prefixEnd (indexScanValuePrefix idx w) else indexScanValuePrefix idx w
       | None \<Rightarrow> prefixEnd (indexScanPathPrefix idx))
      (indexEntryKey idx v i) \<longleftrightarrow> lowerOk lower v \<and> upperOk upper v"
proof -
  have ne: "indexScanValuePrefix idx w \<noteq> []" "prefixEnd (indexScanValuePrefix idx w) \<noteq> []" "prefixEnd (indexScanPathPrefix idx) \<noteq> []" for w
    using scan_prefix_hd prefixEnd_nonempty by blast+
  show ?thesis
    using assms entry_bounds(4,5) [OF assms(1) refl, of idx i]
    by (auto simp: inKeyRange_def ne sideFits_def entry_bounds(1-3) entry_less_prefix split: option.splits)
qed

lemma cut_range:
  "(\<exists>lo hi. (if a \<noteq> [] \<and> c \<noteq> [] \<and> c < a then None else Some (a, c)) = Some (lo, hi) \<and> inKeyRange lo hi k)
     \<longleftrightarrow> inKeyRange a c k"
  by (auto simp: inKeyRange_def)

lemma range_bounds_sides:
  assumes "length v < 2 ^ 32" and "sideFits (fst sides) v" and "sideFits (snd sides) v"
    and "addSide (cpOp plan) b (None, None) = Some s1"
    and "(if cpOp2 plan \<noteq> '''' then addSide (cpOp2 plan) b2 s1 else Some s1) = Some sides"
  shows "(\<exists>lo hi. indexRangeKeyBounds idx plan b b2 = Some (lo, hi) \<and> inKeyRange lo hi (indexEntryKey idx v i))
    \<longleftrightarrow> lowerOk (fst sides) v \<and> upperOk (snd sides) v"
proof -
  let ?lo = "case fst sides of Some (w, incl) \<Rightarrow> if incl then indexScanValuePrefix idx w else prefixEnd (indexScanValuePrefix idx w)
       | None \<Rightarrow> indexScanPathPrefix idx"
  let ?up = "case snd sides of Some (w, incl) \<Rightarrow> if incl then prefixEnd (indexScanValuePrefix idx w) else indexScanValuePrefix idx w
       | None \<Rightarrow> prefixEnd (indexScanPathPrefix idx)"
  have "indexRangeKeyBounds idx plan b b2 = (if ?lo \<noteq> [] \<and> ?up \<noteq> [] \<and> ?up < ?lo then None else Some (?lo, ?up))"
    by (simp only: indexRangeKeyBounds_def assms(4,5) option.case Let_def split_beta)
  then show ?thesis by (simp only: cut_range sides_cut [OF assms(1-3)])
qed

lemma rangeTest_other: "\<not> isLowerBoundOp op \<Longrightarrow> \<not> isUpperBoundOp op \<Longrightarrow> \<not> rangeTest op c"
  by (auto simp: rangeTest_def isLowerBoundOp_def isUpperBoundOp_def)

lemma addSide_None: "addSide op v st = None \<longleftrightarrow> \<not> isLowerBoundOp op \<and> \<not> isUpperBoundOp op"
  by (auto simp: addSide_def isLowerBoundOp_def isUpperBoundOp_def split: prod.splits)

lemma addSide_test:
  assumes "addSide op w (lo, up) = Some (lo', up')" and "isLowerBoundOp op \<longrightarrow> lo = None" and "isUpperBoundOp op \<longrightarrow> up = None"
  shows "lowerOk lo' v \<and> upperOk up' v \<longleftrightarrow> lowerOk lo v \<and> upperOk up v \<and> rangeTest op (stringsCompare v w)"
    and "sideFits lo v \<Longrightarrow> sideFits up v \<Longrightarrow> length v = length w \<Longrightarrow> sideFits lo' v \<and> sideFits up' v"
  using assms by (auto simp: addSide_def rangeTest_strings sideFits_def isLowerBoundOp_def isUpperBoundOp_def split: if_splits)

lemma addSide_keeps:
  "addSide op w (lo, up) = Some (lo', up') \<Longrightarrow> (\<not> isLowerBoundOp op \<longrightarrow> lo' = lo) \<and> (\<not> isUpperBoundOp op \<longrightarrow> up' = up)"
  by (auto simp: addSide_def isLowerBoundOp_def isUpperBoundOp_def split: if_splits)

text \<open>A numeric range reads exactly the entries whose value is within the bounds.\<close>

lemma range_bounds_exact:
  assumes "length v = 16" and "length b = 16" and "cpOp2 plan \<noteq> '''' \<longrightarrow> length b2 = 16" and "oppositeBounds plan"
  shows "boundsAccept plan b b2 v \<longleftrightarrow>
    (\<exists>lo hi. indexRangeKeyBounds idx plan b b2 = Some (lo, hi) \<and> inKeyRange lo hi (indexEntryKey idx v i))"
proof (cases "addSide (cpOp plan) b (None, None)")
  case None
  then have "indexRangeKeyBounds idx plan b b2 = None" by (simp add: indexRangeKeyBounds_def)
  moreover have "\<not> boundsAccept plan b b2 v" using None by (simp add: boundsAccept_def addSide_None rangeTest_other)
  ultimately show ?thesis by simp
next
  case (Some s1)
  obtain lo up where s1: "s1 = (lo, up)" by (cases s1)
  note one = addSide_test [OF Some [unfolded s1], of v] addSide_keeps [OF Some [unfolded s1]]
  show ?thesis
  proof (cases "cpOp2 plan = ''''")
    case True
    have "sideFits lo v \<and> sideFits up v" using one(2) assms by (simp add: sideFits_def)
    then show ?thesis using range_bounds_sides [of v s1 plan b s1 b2 idx i] one(1) Some True assms(1)
      by (simp add: boundsAccept_def s1)
  next
    case False
    show ?thesis
    proof (cases "addSide (cpOp2 plan) b2 s1")
      case None
      then have "indexRangeKeyBounds idx plan b b2 = None" using Some False by (simp add: indexRangeKeyBounds_def)
      moreover have "\<not> boundsAccept plan b b2 v" using None False by (simp add: boundsAccept_def addSide_None rangeTest_other)
      ultimately show ?thesis by simp
    next
      case two: (Some s2)
      obtain lo2 up2 where s2: "s2 = (lo2, up2)" by (cases s2)
      have free: "isLowerBoundOp (cpOp2 plan) \<longrightarrow> lo = None" "isUpperBoundOp (cpOp2 plan) \<longrightarrow> up = None"
        using one(3) assms(4) False by (auto simp: oppositeBounds_def)
      note t = addSide_test [OF two [unfolded s1 s2] free, of v]
      have "sideFits lo2 v \<and> sideFits up2 v" using t(2) one(2) assms False by (simp add: sideFits_def)
      then show ?thesis using range_bounds_sides [of v s2 plan b s1 b2 idx i] one(1) t(1) Some two False assms(1)
        by (simp add: boundsAccept_def s2) blast
    qed
  qed
qed

section \<open>Collecting the ids\<close>

text \<open>The consumer of \<^verbatim>\<open>scanIndexCandidateIDs\<close>, and what it has gathered with the set of the ids seen so far.\<close>

abbreviation collect :: "int64 list yield" where "collect \<equiv> \<lambda>i out. Inr (True, out @ [i])"

definition collected :: "bool \<Rightarrow> int64 set \<Rightarrow> int64 set \<times> int64 list \<Rightarrow> bool" where
  "collected dedup A st \<longleftrightarrow> set (snd st) = A \<and> (dedup \<longrightarrow> fst st = A \<and> distinct (snd st))"

lemma addID_collect:
  assumes "collected b A st"
  obtains st' where "addID b collect i st = Inr (True, st')" and "collected b (insert i A) st'"
  using assms that by (cases st; cases "b \<and> i \<in> fst st") (auto simp: addID_def collected_def insert_absorb)

lemma emitIDs_collect:
  "collected b A st \<Longrightarrow> emitIDs (addID b collect) is st = Inr st' \<Longrightarrow> collected b (A \<union> set is) st'"
proof (induction "is" arbitrary: A st)
  case (Cons i "is")
  obtain st1 where st1: "addID b collect i st = Inr (True, st1)" "collected b (insert i A) st1"
    using addID_collect [OF Cons.prems(1)] by blast
  then show ?case using Cons.IH [OF st1(2)] Cons.prems(2) by simp
qed simp

definition decodedIds :: "indexState \<Rightarrow> (bytes \<times> bytes) list \<Rightarrow> int64 set" where
  "decodedIds idx es = {i. \<exists>k val v. (k, val) \<in> set es \<and> decodeEntry idx k val = Inr (v, i)}"

lemma decodedIds_simps [simp]:
  "decodedIds idx [] = {}" "decodedIds idx (rev es) = decodedIds idx es"
  "decodeEntry idx k val = Inr (v, i) \<Longrightarrow> decodedIds idx ((k, val) # es) = insert i (decodedIds idx es)"
  by (auto simp: decodedIds_def)

lemma rangeLoop_collect:
  "collected b A st \<Longrightarrow> rangeLoop idx (addID b collect) es err st = Inr st'
    \<Longrightarrow> err = None \<and> collected b (A \<union> decodedIds idx es) st'"
proof (induction es arbitrary: A st)
  case Nil
  then show ?case by (auto split: option.splits)
next
  case (Cons x es)
  obtain k val where x: "x = (k, val)" by force
  obtain v i where d: "decodeEntry idx k val = Inr (v, i)" using Cons.prems(2) by (auto simp: x split: sum.splits)
  obtain st1 where st1: "addID b collect i st = Inr (True, st1)" "collected b (insert i A) st1"
    using addID_collect [OF Cons.prems(1)] by blast
  have "rangeLoop idx (addID b collect) es err st1 = Inr st'" using Cons.prems(2) by (simp add: x d st1)
  from Cons.IH [OF st1(2) this] show ?case by (simp add: x d)
qed

lemma decodeEntries_ids: "decodeEntries idx es = Inr xs \<Longrightarrow> snd ` set xs = decodedIds idx es"
proof (induction es arbitrary: xs)
  case (Cons x es)
  obtain k val where x: "x = (k, val)" by force
  obtain v i ys where "decodeEntry idx k val = Inr (v, i)" "decodeEntries idx es = Inr ys" "xs = (v, i) # ys"
    using Cons.prems by (auto simp: x split: sum.splits)
  then show ?case using Cons.IH by (simp add: x)
qed simp

lemma decodedIds_entries:
  assumes ok: "indexOk E m idx docs" and es: "\<And>k val. (k, val) \<in> set es \<longleftrightarrow> P k \<and> m k = Some val"
  shows "decodedIds idx es = {i. \<exists>v. (v, i) \<in> entriesOf E idx docs \<and> P (indexEntryKey idx v i)}"
proof (intro set_eqI iffI)
  fix i
  assume "i \<in> decodedIds idx es"
  then obtain k val v where k: "P k" "m k = Some val" "decodeEntry idx k val = Inr (v, i)" by (auto simp: decodedIds_def es)
  show "i \<in> {i. \<exists>v. (v, i) \<in> entriesOf E idx docs \<and> P (indexEntryKey idx v i)}"
    using decodeEntry_stored [OF ok k(2,3)] k(1) by auto
next
  fix i
  assume "i \<in> {i. \<exists>v. (v, i) \<in> entriesOf E idx docs \<and> P (indexEntryKey idx v i)}"
  then obtain v where v: "(v, i) \<in> entriesOf E idx docs" "P (indexEntryKey idx v i)" by auto
  then have "decodeEntry idx (indexEntryKey idx v i) (indexEntryValue idx i) = Inr (v, i)"
    using ok by (intro decodeEntry_entry) (auto simp: indexOk_def)
  then show "i \<in> decodedIds idx es" using entry_stored [OF ok v(1)] v(2) unfolding decodedIds_def es by blast
qed

lemma set_sortEntries: "set (sortEntries L idx desc es) = set es"
  by (simp add: sortEntries_def)

section \<open>The scans of the store\<close>

context storage_engine
begin

lemma scanOrderedRange_ids:
  assumes ok: "indexOk E (kv e) idx docs" and st: "collected b A st"
    and run: "scanOrderedRange L eng rev_it e idx (addID b collect) lower upper desc st = Inr st'"
  shows "collected b (A \<union> {i. \<exists>v. (v, i) \<in> entriesOf E idx docs \<and> inKeyRange lower upper (indexEntryKey idx v i)}) st'"
proof (cases "lower \<noteq> [] \<and> upper \<noteq> [] \<and> upper \<le> lower")
  case True
  then have "\<not> inKeyRange lower upper k" for k by (auto simp: inKeyRange_def)
  then show ?thesis using run st True by (simp add: scanOrderedRange_def)
next
  case False
  obtain es err where it: "engIter eng e lower upper = (es, err)" by force
  have "err = None \<and> collected b (A \<union> decodedIds idx es) st'"
  proof (cases "desc \<and> \<not> rev_it")
    case True
    then obtain xs where xs: "decodeEntries idx es = Inr xs" "err = None"
        "emitIDs (addID b collect) (map snd (sortEntries L idx True xs)) st = Inr st'"
      using run False it by (auto simp: scanOrderedRange_def split: sum.splits option.splits)
    then show ?thesis using emitIDs_collect [OF st xs(3)] decodeEntries_ids [OF xs(1)] by (simp add: set_sortEntries)
  next
    case False
    then have "rangeLoop idx (addID b collect) (if desc then rev es else es) err st = Inr st'"
      using run \<open>\<not> (lower \<noteq> [] \<and> upper \<noteq> [] \<and> upper \<le> lower)\<close> it by (auto simp: scanOrderedRange_def)
    then show ?thesis using rangeLoop_collect [OF st] by (cases desc) fastforce+
  qed
  moreover from this have "(k, val) \<in> set es \<longleftrightarrow> inKeyRange lower upper k \<and> kv e k = Some val" for k val
    using iter_range [of e lower upper es] it by simp
  from decodedIds_entries [OF ok this]
  have "decodedIds idx es = {i. \<exists>v. (v, i) \<in> entriesOf E idx docs \<and> inKeyRange lower upper (indexEntryKey idx v i)}" .
  ultimately show ?thesis by simp
qed

end

lemma foldl_appends:
  assumes "\<And>k val acc acc'. (k, val) \<in> set es \<Longrightarrow> fn k val acc = Inr acc' \<Longrightarrow> acc' = acc @ g k val"
    and "foldl (\<lambda>r (k, v). case r of Inl e \<Rightarrow> Inl e | Inr s \<Rightarrow> fn k v s) (Inr acc) es = Inr acc'"
  shows "acc' = acc @ concat (map (\<lambda>(k, v). g k v) es)"
  using assms
proof (induction es arbitrary: acc)
  case (Cons x es)
  obtain k val where x: "x = (k, val)" by force
  have err: "foldl (\<lambda>r (k, v). case r of Inl e \<Rightarrow> Inl e | Inr s \<Rightarrow> fn k v s) (Inl e) es = Inl e" for e es
    by (induction es) auto
  then obtain acc1 where a: "fn k val acc = Inr acc1"
      "foldl (\<lambda>r (k, v). case r of Inl e \<Rightarrow> Inl e | Inr s \<Rightarrow> fn k v s) (Inr acc1) es = Inr acc'"
    using Cons.prems(2) by (cases "fn k val acc") (auto simp: x)
  have "acc' = acc1 @ concat (map (\<lambda>(k, v). g k v) es)" by (rule Cons.IH [OF _ a(2)]) (use Cons.prems(1) in auto)
  then show ?case using Cons.prems(1) [of k val acc acc1] a(1) by (simp add: x)
qed simp

context storage_engine
begin

lemma scanPath_ids:
  assumes ok: "indexOk E (kv e) idx docs" and st: "collected b A st"
    and run: "scanPath L eng e idx (addID b collect) matches desc st = Inr st'"
  shows "collected b (A \<union> {i. \<exists>v. (v, i) \<in> entriesOf E idx docs \<and> matches v}) st'"
proof -
  obtain xs where xs: "scanPrefix eng e (indexScanPathPrefix idx)
             (\<lambda>key val es.
                if idxUnique idx then
                  (case decodeUniqueIndexKey key of
                     None \<Rightarrow> Inl (Coded CodeInvalidQuery)
                   | Some (dbid, v) \<Rightarrow>
                       if dbid \<noteq> idxDBID idx then Inl (Coded CodeInvalidQuery)
                       else if \<not> matches v then Inr es
                       else case parseU64 val of Inl err \<Rightarrow> Inl err | Inr i \<Rightarrow> Inr (es @ [(v, i)]))
                else case decodeIndexKey key of
                       None \<Rightarrow> Inl (Coded CodeInvalidQuery)
                     | Some (dbid, v, i) \<Rightarrow>
                         if dbid \<noteq> idxDBID idx then Inl (Coded CodeInvalidQuery)
                         else Inr (if matches v then es @ [(v, i)] else es)) [] = Inr xs" (is "scanPrefix _ _ _ ?fn [] = _")
      and emit: "emitIDs (addID b collect) (map snd (sortEntries L idx desc xs)) st = Inr st'"
    using run by (auto simp: scanPath_def split: sum.splits)
  let ?g = "\<lambda>k val. case decodeEntry idx k val of Inl _ \<Rightarrow> [] | Inr (v, i) \<Rightarrow> if matches v then [(v, i)] else []"
  obtain es where "sorted_wrt (<) (map fst es)" and es: "\<And>k v. (k, v) \<in> set es \<longleftrightarrow> HasPrefix k (indexScanPathPrefix idx) \<and> kv e k = Some v"
    and f: "foldl (\<lambda>r (k, v). case r of Inl e \<Rightarrow> Inl e | Inr s \<Rightarrow> ?fn k v s) (Inr []) es = Inr xs"
    by (rule scanPrefix_visits [OF xs]) (rule that)
  have "xs = [] @ concat (map (\<lambda>(k, v). ?g k v) es)"
    by (rule foldl_appends [OF _ f]) (auto simp: decodeEntry_def split: if_splits option.splits sum.splits prod.splits)
  then have "snd ` set xs = {i. \<exists>k val v. (k, val) \<in> set es \<and> decodeEntry idx k val = Inr (v, i) \<and> matches v}"
    by (force split: sum.splits if_splits)
  also have "\<dots> = {i. \<exists>v. (v, i) \<in> entriesOf E idx docs \<and> matches v}"
  proof (intro Collect_eqI iffI; elim exE conjE)
    fix i k val v
    assume "(k, val) \<in> set es" "decodeEntry idx k val = Inr (v, i)" "matches v"
    then show "\<exists>v. (v, i) \<in> entriesOf E idx docs \<and> matches v" using decodeEntry_stored(1) [OF ok, of k val v i] es by blast
  next
    fix i v
    assume v: "(v, i) \<in> entriesOf E idx docs" "matches v"
    have "decodeEntry idx (indexEntryKey idx v i) (indexEntryValue idx i) = Inr (v, i)"
      using ok v(1) by (intro decodeEntry_entry) (auto simp: indexOk_def)
    then show "\<exists>k val v. (k, val) \<in> set es \<and> decodeEntry idx k val = Inr (v, i) \<and> matches v"
      using entry_stored [OF ok v(1)] v(2) entry_prefix unfolding es by blast
  qed
  finally show ?thesis using emitIDs_collect [OF st emit] by (simp add: set_sortEntries)
qed

lemma scanNonUniqueValue_ids:
  assumes ok: "indexOk E (kv e) idx docs" and st: "collected b A st" and u: "\<not> idxUnique idx" and len: "length v < 2 ^ 32"
    and run: "scanNonUniqueValue L eng e idx (addID b collect) v st = Inr st'"
  shows "collected b (A \<union> {i. (v, i) \<in> entriesOf E idx docs}) st'"
proof -
  obtain xs where xs: "scanPrefix eng e (keyIndexValuePrefix idx v)
             (\<lambda>key _ es.
                case decodeIndexKey key of
                  None \<Rightarrow> Inl (Coded CodeInvalidQuery)
                | Some (dbid, _, i) \<Rightarrow>
                    if dbid \<noteq> idxDBID idx then Inl (Coded CodeInvalidQuery) else Inr (es @ [(v, i)])) [] = Inr xs"
               (is "scanPrefix _ _ _ ?fn [] = _")
      and emit: "emitIDs (addID b collect) (map snd (sortEntries L idx False xs)) st = Inr st'"
    using run by (auto simp: scanNonUniqueValue_def split: sum.splits)
  let ?g = "\<lambda>k val :: bytes. case decodeEntry idx k val of Inl _ \<Rightarrow> [] | Inr (_, i) \<Rightarrow> [(v, i)]"
  obtain es where "sorted_wrt (<) (map fst es)" and es: "\<And>k v'. (k, v') \<in> set es \<longleftrightarrow> HasPrefix k (keyIndexValuePrefix idx v) \<and> kv e k = Some v'"
    and f: "foldl (\<lambda>r (k, v). case r of Inl e \<Rightarrow> Inl e | Inr s \<Rightarrow> ?fn k v s) (Inr []) es = Inr xs"
    by (rule scanPrefix_visits [OF xs]) (rule that)
  have "xs = [] @ concat (map (\<lambda>(k, v). ?g k v) es)"
    by (rule foldl_appends [OF _ f]) (use u in \<open>auto simp: decodeEntry_def split: if_splits option.splits sum.splits prod.splits\<close>)
  then have "snd ` set xs = (\<Union>x \<in> set es. snd ` set (?g (fst x) (snd x)))"
    by (simp only: append_Nil set_concat set_map image_UN split_beta image_image)
  also have "\<dots> = (\<Union>x \<in> set es. decodedIds idx [x])"
    by (intro SUP_cong) (auto simp: decodedIds_def split: sum.splits dest: sym)
  also have "\<dots> = decodedIds idx es" by (auto simp: decodedIds_def)
  also have "decodedIds idx es = {i. \<exists>w. (w, i) \<in> entriesOf E idx docs \<and> HasPrefix (indexEntryKey idx w i) (keyIndexValuePrefix idx v)}"
    by (rule decodedIds_entries [OF ok es])
  also have "\<dots> = {i. (v, i) \<in> entriesOf E idx docs}"
    using entry_value_prefix [of _ v idx] ok len u by (fastforce simp: indexOk_def indexScanValuePrefix_def)
  finally show ?thesis using emitIDs_collect [OF st emit] by (simp add: set_sortEntries)
qed

lemma addUniqueValue_ids:
  assumes ok: "indexOk E (kv e) idx docs" and st: "collected b A st" and u: "idxUnique idx" and len: "length v < 2 ^ 32"
    and run: "addUniqueValue eng e idx (addID b collect) v st = Inr st'"
  shows "collected b (A \<union> {i. (v, i) \<in> entriesOf E idx docs}) st'"
proof (cases "engGet eng e (keyUniqueIndex idx v)")
  case (Inl err)
  then have none: "kv e (keyUniqueIndex idx v) = None" and "st' = st"
    using run get_absent by (auto simp: addUniqueValue_def split: if_splits)
  moreover have "(v, i) \<notin> entriesOf E idx docs" for i using entry_stored [OF ok, of v i] none u by (auto simp: indexEntryKey_def)
  ultimately show ?thesis using st by simp
next
  case (Inr raw)
  have m: "kv e (indexEntryKey idx v j) = Some raw" for j using get_value [OF Inr] u by (simp add: indexEntryKey_def)
  obtain i where i: "raw = putU64 [] i" "(v, i) \<in> entriesOf E idx docs" using stored_entry [OF ok len m [of 0]] u by auto
  have "j = i" if "(v, j) \<in> entriesOf E idx docs" for j
    using entry_stored [OF ok that] m [of j] u i(1) by (metis indexEntryValue_def option.inject parseU64_putU64 sum.inject(2))
  then have "{i. (v, i) \<in> entriesOf E idx docs} = {i}" using i(2) by blast
  moreover obtain st1 where st1: "addID b collect i st = Inr (True, st1)" "collected b (insert i A) st1"
    using addID_collect [OF st] by blast
  ultimately show ?thesis using run Inr i(1) by (simp add: addUniqueValue_def)
qed

lemma scanValue_ids:
  assumes "indexOk E (kv e) idx docs" and "collected b A st" and "length v < 2 ^ 32"
    and "scanValue L eng e idx (addID b collect) v st = Inr st'"
  shows "collected b (A \<union> {i. (v, i) \<in> entriesOf E idx docs}) st'"
  using assms scanNonUniqueValue_ids addUniqueValue_ids by (cases "idxUnique idx") (simp_all add: scanValue_def)

end

section \<open>The scan of a plan\<close>

text \<open>
  The values a plan accepts. The bounds of a range compare with the values as the entries of the index do, byte by
  byte, which for an integer index is the order of the numbers.
\<close>

definition planAccepts :: "go_lib \<Rightarrow> IndexKind \<Rightarrow> candidatePlan \<Rightarrow> string \<Rightarrow> bool" where
  "planAccepts L kind plan v \<longleftrightarrow>
     (if cpOp plan = '''' then True
      else if cpOp plan = ''='' then normalizeIndexValue L (cpValue plan) kind = Some v
      else if cpOp plan = ''in'' then
        (case toAnySlice (cpValue plan) of
           None \<Rightarrow> False
         | Some arr \<Rightarrow> list_ex (\<lambda>it. normalizeIndexValue L it kind = Some v) arr)
      else if cpOp plan = ''prefix'' then
        (case jqPrefixString L (toJQValue L (cpValue plan)) of None \<Rightarrow> False | Some pre \<Rightarrow> HasPrefix v pre)
      else case normalizeIndexValue L (cpValue plan) kind of
             None \<Rightarrow> False
           | Some b \<Rightarrow>
               rangeTest (cpOp plan) (stringsCompare v b)
               \<and> (cpOp2 plan = '''' \<or>
                   (case normalizeIndexValue L (cpValue2 plan) kind of
                      None \<Rightarrow> False
                    | Some b2 \<Rightarrow> rangeTest (cpOp2 plan) (stringsCompare v b2))))"

lemma numeric_length:
  assumes "numericKind kind" and "normalizeIndexValue L x kind = Some v"
  shows "length v = 16"
  using assms by (auto simp: numericKind_def)

lemma entry_normalized:
  assumes "(v, i) \<in> entriesOf E idx docs"
  shows "\<exists>x. normalizeIndexValue (envLib E) x (idxKind idx) = Some v"
  using assms by (auto simp: entriesOf_def idxVals_def valuesForIndex_def appendValues_set split: option.splits)

lemma compareIndexKeys_bytes: "\<not> numericKind kind \<Longrightarrow> compareIndexKeys L kind a b = stringsCompare a b"
  by (auto simp: compareIndexKeys_def numericKind_def split: IndexKind.splits)

definition acceptedIds :: "'e env \<Rightarrow> indexState \<Rightarrow> (int64 \<Rightarrow> gv option) \<Rightarrow> candidatePlan \<Rightarrow> int64 set" where
  "acceptedIds E idx docs plan = {i. \<exists>v. (v, i) \<in> entriesOf E idx docs \<and> planAccepts (envLib E) (idxKind idx) plan v}"

context storage_engine
begin

lemma scanRange_ids:
  assumes ok: "indexOk E (kv e) idx docs" and st: "collected b A st" and opp: "oppositeBounds plan"
    and op: "isLowerBoundOp (cpOp plan) \<or> isUpperBoundOp (cpOp plan)"
    and run: "scanRange (envLib E) eng rev_it e idx plan desc (addID b collect) st = Inr st'"
  shows "collected b (A \<union> acceptedIds E idx docs plan) st'"
proof (cases "normalizeIndexValue (envLib E) (cpValue plan) (idxKind idx) = None
    \<or> cpOp2 plan \<noteq> '''' \<and> normalizeIndexValue (envLib E) (cpValue2 plan) (idxKind idx) = None")
  case True
  then have "acceptedIds E idx docs plan = {}" using op
    by (auto simp: acceptedIds_def planAccepts_def isLowerBoundOp_def isUpperBoundOp_def split: option.splits)
  moreover have "st' = st" using run True by (auto simp: scanRange_def split: option.splits)
  ultimately show ?thesis using st by simp
next
  case False
  then obtain w where w: "normalizeIndexValue (envLib E) (cpValue plan) (idxKind idx) = Some w" by auto
  define w2 where "w2 = (if cpOp2 plan = '''' then '''' else the (normalizeIndexValue (envLib E) (cpValue2 plan) (idxKind idx)))"
  have w2: "(if cpOp2 plan \<noteq> '''' then normalizeIndexValue (envLib E) (cpValue2 plan) (idxKind idx) else Some '''') = Some w2"
    using False by (auto simp: w2_def)
  have acc: "planAccepts (envLib E) (idxKind idx) plan v \<longleftrightarrow> boundsAccept plan w w2 v" for v
    using op w w2 by (auto simp: planAccepts_def boundsAccept_def isLowerBoundOp_def isUpperBoundOp_def split: if_splits)
  define d where "d \<longleftrightarrow> desc \<or> cpOp2 plan = '''' \<and> (cpOp plan = ''<'' \<or> cpOp plan = ''<='')"
  show ?thesis
  proof (cases "numericKind (idxKind idx)")
    case False
    then have "scanPath (envLib E) eng e idx (addID b collect) (matchRange (envLib E) (idxKind idx) plan w w2) d st = Inr st'"
      using run by (simp add: scanRange_def w w2 d_def del: if_split)
    moreover have "matchRange (envLib E) (idxKind idx) plan w w2 = boundsAccept plan w w2"
      by (simp add: fun_eq_iff matchRange_def boundsAccept_def compareIndexKeys_bytes [OF False])
    ultimately show ?thesis using scanPath_ids [OF ok st] by (simp add: acceptedIds_def acc)
  next
    case num: True
    let ?in = "\<lambda>v i. \<exists>lo hi. indexRangeKeyBounds idx plan w w2 = Some (lo, hi) \<and> inKeyRange lo hi (indexEntryKey idx v i)"
    have len: "cpOp2 plan \<noteq> '''' \<longrightarrow> length w2 = 16" using w2 numeric_length [OF num] by (auto split: if_splits)
    have "boundsAccept plan w w2 v \<longleftrightarrow> ?in v i" if v: "(v, i) \<in> entriesOf E idx docs" for v i
    proof -
      obtain x where "normalizeIndexValue (envLib E) x (idxKind idx) = Some v" using entry_normalized [OF v] by blast
      then show ?thesis
        using range_bounds_exact [OF numeric_length [OF num] numeric_length [OF num w] len opp, of _ x v] by blast
    qed
    then have ids: "acceptedIds E idx docs plan = {i. \<exists>v. (v, i) \<in> entriesOf E idx docs \<and> ?in v i}"
      by (auto simp: acceptedIds_def acc)
    show ?thesis
    proof (cases "indexRangeKeyBounds idx plan w w2")
      case None
      then show ?thesis using run st num by (simp add: scanRange_def w w2 ids del: if_split)
    next
      case (Some r)
      obtain lo hi where r: "r = (lo, hi)" by force
      have "scanOrderedRange (envLib E) eng rev_it e idx (addID b collect) lo hi d st = Inr st'"
        using run num Some by (simp add: scanRange_def w w2 r d_def del: if_split)
      from scanOrderedRange_ids [OF ok st this] show ?thesis by (simp add: ids Some r)
    qed
  qed
qed

lemma scanIn_ids:
  assumes ok: "indexOk E (kv e) idx docs"
    and len: "\<forall>it \<in> set arr. \<forall>v. normalizeIndexValue L it (idxKind idx) = Some v \<longrightarrow> length v < 2 ^ 32"
    and st: "collected b A st"
    and run: "scanEach (\<lambda>it st. case normalizeIndexValue L it (idxKind idx) of None \<Rightarrow> Inr st
       | Some v \<Rightarrow> scanValue L' eng e idx (addID b collect) v st) arr st = Inr st'"
  shows "collected b (A \<union> {i. \<exists>it v. it \<in> set arr \<and> normalizeIndexValue L it (idxKind idx) = Some v \<and> (v, i) \<in> entriesOf E idx docs}) st'"
  using len st run
proof (induction arr arbitrary: A st)
  case (Cons x arr)
  show ?case
  proof (cases "normalizeIndexValue L x (idxKind idx)")
    case None
    have "{i. \<exists>it v. it \<in> set (x # arr) \<and> normalizeIndexValue L it (idxKind idx) = Some v \<and> (v, i) \<in> entriesOf E idx docs}
      = {i. \<exists>it v. it \<in> set arr \<and> normalizeIndexValue L it (idxKind idx) = Some v \<and> (v, i) \<in> entriesOf E idx docs}"
      using None by auto
    then show ?thesis using Cons.IH [OF _ Cons.prems(2)] Cons.prems(1,3) None by simp
  next
    case (Some v)
    then obtain st1 where st1: "scanValue L' eng e idx (addID b collect) v st = Inr st1"
        "scanEach (\<lambda>it st. case normalizeIndexValue L it (idxKind idx) of None \<Rightarrow> Inr st
           | Some v \<Rightarrow> scanValue L' eng e idx (addID b collect) v st) arr st1 = Inr st'"
      using Cons.prems(3) by (auto split: sum.splits)
    have "length v < 2 ^ 32" using Cons.prems(1) Some by simp
    note ids = Cons.IH [OF _ scanValue_ids [OF ok Cons.prems(2) this st1(1)] st1(2)]
    have "{i. \<exists>it v. it \<in> set (x # arr) \<and> normalizeIndexValue L it (idxKind idx) = Some v \<and> (v, i) \<in> entriesOf E idx docs}
      = {i. (v, i) \<in> entriesOf E idx docs}
        \<union> {i. \<exists>it v. it \<in> set arr \<and> normalizeIndexValue L it (idxKind idx) = Some v \<and> (v, i) \<in> entriesOf E idx docs}"
      using Some by auto
    then show ?thesis using ids Cons.prems(1) by (simp add: Un_assoc)
  qed
qed simp

end

text \<open>The values looked up one by one fit the length field of a key.\<close>

definition planFits :: "go_lib \<Rightarrow> IndexKind \<Rightarrow> candidatePlan \<Rightarrow> bool" where
  "planFits L kind plan \<longleftrightarrow>
     list_all (\<lambda>x. case normalizeIndexValue L x kind of None \<Rightarrow> True | Some v \<Rightarrow> length v < 2 ^ 32)
       (cpValue plan # (case toAnySlice (cpValue plan) of None \<Rightarrow> [] | Some arr \<Rightarrow> arr))"

lemma planFits_in:
  assumes "planFits L kind plan" and "toAnySlice (cpValue plan) = Some arr"
  shows "\<forall>it \<in> set arr. \<forall>v. normalizeIndexValue L it kind = Some v \<longrightarrow> length v < 2 ^ 32"
  using assms by (fastforce simp: planFits_def list_all_iff split: option.splits)

lemma acceptedIds_simps:
  "cpOp plan = '''' \<Longrightarrow> acceptedIds E idx docs plan = {i. \<exists>v. (v, i) \<in> entriesOf E idx docs}"
  "cpOp plan = ''='' \<Longrightarrow> acceptedIds E idx docs plan
     = {i. \<exists>v. (v, i) \<in> entriesOf E idx docs \<and> normalizeIndexValue (envLib E) (cpValue plan) (idxKind idx) = Some v}"
  "cpOp plan = ''in'' \<Longrightarrow> acceptedIds E idx docs plan = (case toAnySlice (cpValue plan) of None \<Rightarrow> {} | Some arr \<Rightarrow>
     {i. \<exists>it v. it \<in> set arr \<and> normalizeIndexValue (envLib E) it (idxKind idx) = Some v \<and> (v, i) \<in> entriesOf E idx docs})"
  "cpOp plan = ''prefix'' \<Longrightarrow> acceptedIds E idx docs plan = (case jqPrefixString (envLib E) (toJQValue (envLib E) (cpValue plan)) of
     None \<Rightarrow> {} | Some pre \<Rightarrow> {i. \<exists>v. (v, i) \<in> entriesOf E idx docs \<and> HasPrefix v pre})"
  by (auto simp: acceptedIds_def planAccepts_def list_ex_iff split: option.splits)

lemma accepted_range:
  assumes "cpOp plan \<notin> {'''', ''='', ''in'', ''prefix''}" and "(v, i) \<in> entriesOf E idx docs" and "planAccepts L kind plan v"
  shows "isLowerBoundOp (cpOp plan) \<or> isUpperBoundOp (cpOp plan)"
  using assms rangeTest_other by (auto simp: planAccepts_def split: option.splits)

context storage_engine
begin

lemma whole_index_ids:
  assumes ok: "indexOk E (kv e) idx docs" and st: "collected b A st"
    and run: "(if numericKind (idxKind idx) then
         scanOrderedRange L eng rev_it e idx (addID b collect) (indexScanPathPrefix idx) (prefixEnd (indexScanPathPrefix idx)) desc st
       else scanPath L eng e idx (addID b collect) (\<lambda>_. True) desc st) = Inr st'"
  shows "collected b (A \<union> {i. \<exists>v. (v, i) \<in> entriesOf E idx docs}) st'"
  using scanOrderedRange_ids [OF ok st, of L rev_it "indexScanPathPrefix idx" "prefixEnd (indexScanPathPrefix idx)" desc st']
    scanPath_ids [OF ok st, of L "\<lambda>_. True" desc st'] run
  by (simp add: prefix_range entry_prefix split: if_splits)

lemma scanPlan_eq_ids:
  assumes ok: "indexOk E (kv e) idx docs" and st: "collected b A st" and op: "cpOp plan = ''=''"
    and fits: "planFits (envLib E) (idxKind idx) plan"
    and run: "scanPlan (envLib E) eng rev_it e idx plan desc (addID b collect) st = Inr st'"
  shows "collected b (A \<union> acceptedIds E idx docs plan) st'"
proof (cases "normalizeIndexValue (envLib E) (cpValue plan) (idxKind idx)")
  case None
  then show ?thesis using op run st by (simp add: scanPlan_def acceptedIds_simps)
next
  case (Some v)
  moreover from this have "length v < 2 ^ 32" using fits by (simp add: planFits_def)
  ultimately show ?thesis using op run scanValue_ids [OF ok st] by (simp add: scanPlan_def acceptedIds_simps)
qed

lemma scanPlan_range_ids:
  assumes ok: "indexOk E (kv e) idx docs" and st: "collected b A st" and op: "cpOp plan \<notin> {'''', ''='', ''in'', ''prefix''}"
    and opp: "oppositeBounds plan"
    and run: "scanPlan (envLib E) eng rev_it e idx plan desc (addID b collect) st = Inr st'"
  shows "collected b (A \<union> acceptedIds E idx docs plan) st'"
proof (cases "isLowerBoundOp (cpOp plan) \<or> isUpperBoundOp (cpOp plan)")
  case True
  then have "scanRange (envLib E) eng rev_it e idx plan desc (addID b collect) st = Inr st'"
    using op run by (auto simp: scanPlan_def isLowerBoundOp_def isUpperBoundOp_def)
  then show ?thesis using scanRange_ids [OF ok st opp True] by blast
next
  case False
  then have "acceptedIds E idx docs plan = {}" using accepted_range [OF op] by (auto simp: acceptedIds_def)
  then show ?thesis using op False run st by (simp add: scanPlan_def isLowerBoundOp_def isUpperBoundOp_def)
qed

lemma scanPlan_ids:
  assumes ok: "indexOk E (kv e) idx docs" and st: "collected b A st" and opp: "oppositeBounds plan"
    and fits: "planFits (envLib E) (idxKind idx) plan"
    and run: "scanPlan (envLib E) eng rev_it e idx plan desc (addID b collect) st = Inr st'"
  shows "collected b (A \<union> acceptedIds E idx docs plan) st'"
proof -
  consider "cpOp plan = ''''" | "cpOp plan = ''=''" | "cpOp plan = ''in''" | "cpOp plan = ''prefix''"
    | "cpOp plan \<notin> {'''', ''='', ''in'', ''prefix''}" by blast
  then show ?thesis
  proof cases
    case 1
    then show ?thesis using whole_index_ids [OF ok st, of "envLib E" rev_it desc st'] run
      by (simp add: scanPlan_def acceptedIds_simps)
  next
    case 2
    then show ?thesis by (rule scanPlan_eq_ids [OF ok st _ fits run])
  next
    case 3
    then show ?thesis using run st scanIn_ids [OF ok planFits_in [OF fits] st]
      by (cases "toAnySlice (cpValue plan)") (simp_all add: scanPlan_def acceptedIds_simps)
  next
    case 4
    then show ?thesis using run st scanPath_ids [OF ok st]
      by (cases "jqPrefixString (envLib E) (toJQValue (envLib E) (cpValue plan))") (simp_all add: scanPlan_def acceptedIds_simps)
  next
    case 5
    then show ?thesis by (rule scanPlan_range_ids [OF ok st _ opp run])
  qed
qed

lemma scan_plan:
  assumes "indexOk E (kv e) idx docs" and "cpIndex plan = Some rt" "cpIdx plan = idx" "rtDef rt = idx"
    and "oppositeBounds plan" and "planFits (envLib E) (idxKind idx) plan"
    and run: "scanIndexCandidateIDs (envLib E) eng rev_it e plan desc = Inr ids"
  shows "set ids = acceptedIds E idx docs plan \<and> (cpOp plan \<noteq> ''in'' \<longrightarrow> distinct ids)"
proof -
  let ?b = "cpOp plan \<noteq> ''in''"
  obtain seen where r: "scanPlan (envLib E) eng rev_it e idx plan desc (addID ?b collect) ({}, []) = Inr (seen, ids)"
    using run unfolding scanIndexCandidateIDs_def scanIndexCandidateIDsFunc_def assms(2,3) option.case Let_def
    unfolding assms(4) if_cancel
    by (auto split: sum.splits)
  have "collected ?b {} ({}, [])" by (simp add: collected_def)
  from scanPlan_ids [OF assms(1) this assms(5,6) r] show ?thesis by (auto simp: collected_def)
qed

end

section \<open>The plans of the planner\<close>

text \<open>A plan the planner makes reads an index of the collection, and its bounds are on opposite sides.\<close>

definition planOk :: "collectionState \<Rightarrow> plan \<Rightarrow> bool" where
  "planOk col p \<longleftrightarrow> snd p \<longrightarrow>
     (\<exists>rt \<in> snd ` set (colRuntime col). cpIndex (fst p) = Some rt \<and> cpIdx (fst p) = rtDef rt) \<and> oppositeBounds (fst p)"

lemma planOk_better: "planOk col a \<Longrightarrow> planOk col b \<Longrightarrow> planOk col (betterCandidate a b)"
  by (cases a; cases b) (auto simp: betterCandidate_def planOk_def)

lemma planOk_none [simp]: "planOk col (p, False)"
  by (simp add: planOk_def)

lemma planOk_merge:
  assumes "planOk col a" and "planOk col b"
  shows "planOk col (mergeRangeCandidates a b)"
proof (cases "snd (mergeRangeCandidates a b)")
  case True
  obtain p x q y where ab: "a = (p, x)" "b = (q, y)" by (cases a; cases b)
  have g: "x" "y" "\<not> (isLowerBoundOp (cpOp p) \<and> isLowerBoundOp (cpOp q) \<or> isUpperBoundOp (cpOp p) \<and> isUpperBoundOp (cpOp q))"
    using True unfolding mergeRangeCandidates_def ab by (simp_all split: if_splits)
  obtain out other where m: "fst (mergeRangeCandidates a b)
        = out\<lparr>cpOp2 := cpOp other, cpValue2 := cpValue other, cpExplain2 := cpExplain other, cpWeight := 75\<rparr>"
      and o: "out = q \<and> other = p \<or> out = p \<and> other = q"
    using True unfolding mergeRangeCandidates_def ab by (simp split: if_splits)
  have "planOk col (out, True)" using assms o g(1,2) ab by auto
  moreover have "\<not> (isLowerBoundOp (cpOp out) \<and> isLowerBoundOp (cpOp other))" "\<not> (isUpperBoundOp (cpOp out) \<and> isUpperBoundOp (cpOp other))"
    using o g(3) by blast+
  ultimately show ?thesis unfolding planOk_def m by (simp add: oppositeBounds_def)
qed (simp add: planOk_def)

lemma planOk_bestRuntime:
  "set rts \<subseteq> snd ` set (colRuntime col) \<Longrightarrow> planOk col best \<Longrightarrow> planOk col (bestRuntime L col path op val rts best)"
proof (induction rts arbitrary: best)
  case (Cons rt rts)
  have new: "planOk col (noPlan\<lparr>cpIndex := Some rt, cpIdx := rtDef rt, cpOp := op, cpValue := val, cpWeight := w,
      cpCursorInit := ci, cpCursorStep := cs, cpRNum := r, cpPathCnt := pc, cpExplain := ex\<rparr>, True)" for w ci cs r pc ex
    using Cons.prems(1) by (auto simp: planOk_def oppositeBounds_def noPlan_def)
  have rts: "set rts \<subseteq> snd ` set (colRuntime col)" using Cons.prems(1) by simp
  show ?case
    unfolding bestRuntime.simps
    by (rule Cons.IH [OF rts]) (use Cons.prems(2) new planOk_better in \<open>auto split: option.split\<close>)
qed simp

lemma planOk_comparison: "planOk col (candidateFromComparison L col q path c)"
  by (auto simp: candidateFromComparison_def Let_def split: sum.splits intro!: planOk_bestRuntime)

lemma planOk_and: "planOk col a \<Longrightarrow> planOk col b \<Longrightarrow> planOk col (candidateAnd a b)"
  by (simp add: candidateAnd_def Let_def planOk_merge planOk_better)

lemma planOk_expr: "planOk col (candidateFromExpr L col q path x)"
  by (induction L col q path x rule: candidateFromExpr.induct) (simp_all add: planOk_comparison planOk_and)

lemma planOk_filter: "planOk col (filterCandidate L col q f)"
  by (induction f) (simp_all add: termCandidate_def planOk_expr planOk_and split: option.splits)

lemma planOk_order: "planOk col (chooseOrderByIndexPlan col path desc)"
proof -
  have "rt \<in> snd ` set (colRuntime col)" if f: "findOrderByIndex col path = Some rt" for rt
  proof -
    obtain k rest where "sortBy runtimeLess (filter (\<lambda>(_, rt). idxPath (rtDef rt) = path) (colRuntime col)) = (k, rt) # rest"
      using f unfolding findOrderByIndex_def by (auto split: list.splits)
    then have "(k, rt) \<in> set (filter (\<lambda>(_, rt). idxPath (rtDef rt) = path) (colRuntime col))"
      by (metis list.set_intros(1) set_sortBy)
    then show ?thesis by force
  qed
  then show ?thesis by (auto simp: chooseOrderByIndexPlan_def planOk_def oppositeBounds_def noPlan_def split: option.splits)
qed

end
