(* ===== verification/QueryProps.thy ===== *)
theory QueryProps
  imports QueryRefine IndexSound
begin

text \<open>
  The properties of the query operations, with a small environment on which their hypotheses hold.
\<close>

section \<open>A small environment\<close>

text \<open>A temporary file that reads back what it holds, and a query for the documents with a field.\<close>

abbreviation tinyF :: "memStore env" where "tinyF \<equiv> tinyEnv (\<lambda>_. Inr [1]) tinyUc"

definition tinyQ :: "int \<Rightarrow> memStore queryEnv" where
  "tinyQ buf = \<lparr>qeEnv = tinyF, qeReverse = False, qeSortBuffer = buf, qeSpill = tinySpill, qeCaps = \<lparr>capRead = (\<lambda>n. n), capClone = (\<lambda>n. n), capGrow = (\<lambda>n. n)\<rparr>\<rparr>"

definition tinyFilter :: queryFilter where
  "tinyFilter = noTerm\<lparr>qfPathPattern := ''/a'', qfChain := [\<lparr>fsKind = ''field'', fsKey = ''a'', fsExpr = None\<rparr>]\<rparr>"

definition tinyQuery :: "queryAction \<Rightarrow> Query" where
  "tinyQuery act = noQuery\<lparr>qCollection := ''c'', qParsed := (parsedOf (filterAtom tinyFilter) ''c'')\<lparr>pqNoidx := True, pqAction := act\<rparr>\<rparr>"

lemma tinyQ_simps [simp]: "qeEnv (tinyQ buf) = tinyF" "qeSpill (tinyQ buf) = tinySpill" "qeSortBuffer (tinyQ buf) = buf"
  by (simp_all add: tinyQ_def)

interpretation tiny_q: query_env "tinyQ buf" map_of
  by (intro query_env.intro spill_file.intro) (simp_all add: tiny.env.db_env_axioms tinySpill_def)

lemma tiny_query [simp]:
  "qCollection (tinyQuery act) = ''c''" "pqSorts (qParsed (tinyQuery act)) = []" "pqAction (qParsed (tinyQuery act)) = act"
  "pqInverse (qParsed (tinyQuery act)) = False" "pqNoidx (qParsed (tinyQuery act))" "pqProjection (qParsed (tinyQuery act)) = None"
  "pqCount (qParsed (tinyQuery act)) = False" "pqFilter (qParsed (tinyQuery act)) = filterAtom tinyFilter"
  "pqSkip (qParsed (tinyQuery act)) = 0" "pqSkipPH (qParsed (tinyQuery act)) = None"
  "pqLimit (qParsed (tinyQuery act)) = - 1" "pqLimitPH (qParsed (tinyQuery act)) = None"
  by (simp_all add: tinyQuery_def parsedOf_def noQuery_def)

lemma dbInv_doc:
  assumes "dbInv E kv B db D" and "map_of (collections db) n = Some c"
  shows "rel_option (holds E) (kv (dbEngine db) (keyDoc (colDBID c) i)) (D n i)"
  using assms by (auto simp: dbInv_def dbRel_def storeRel_def dest!: map_of_SomeD intro: colRelD(1))

lemma tiny_f: "holds tinyF = holds tinyE" "docOk tinyF = docOk tinyE" "indexRel tinyF = indexRel tinyE"
  by (simp_all add: fun_eq_iff holds_def decodeStored_def docOk_def indexRel_def idxVals_def)

lemma tiny_finv: "dbInv tinyF map_of {} tinyDb tinyDocs"
  using tiny.env.reachable_dbInv [OF tiny_reachable]
  by (simp add: dbInv_def dbRel_def storeRel_def colRel_def tiny_f tinyDb_def)

lemma tiny_col: "map_of (collections tinyDb) ''c'' = Some tinyCol"
  by (simp add: tinyDb_def tinySt_def)

lemma tiny_plan: "planQuery (tinyQ buf) tinyDb c (tinyQuery act) paths = None"
  by (simp add: planQuery_def)

lemma tiny_filterMatch: "filterMatch L J (filterAtom tinyFilter) tinyDoc i q = Inr True"
  by (simp add: tinyFilter_def noTerm_def termMatch_def stepNodes_def tinyDoc_def fieldOf_def)

lemma tiny_scanIds: "scanDocumentIDs tinyF tinyDb tinyCol = Inr [1]"
proof -
  have pre: "\<not> HasPrefix (keySeq 2) (keyDocPrefix 2)" "\<not> HasPrefix keyMetaState (keyDocPrefix 2)"
    by (simp_all add: HasPrefix_iff key_layout keyTag_defs keyMetaState_def bytes_of_string_def)
  have "scanPrefix (PebbleEngine memPebble) (dbEngine tinyDb) (keyDocPrefix 2)
      (\<lambda>key _ ids. case decodeDocKey key of None \<Rightarrow> Inl (Coded CodeInvalidQuery) | Some (_, i) \<Rightarrow> Inr (ids @ [i])) [] = Inr [1]"
    by (simp add: scanPrefix_def PebbleEngine_def memPebble_def memEngine_def tinyDb_def AList.clearjunk.simps prefix_range pre decodeDocKey_keyDoc)

  then show ?thesis by (simp add: scanDocumentIDs_def tinyCol_def Let_def) (simp add: tinyDb_def)
qed

lemma tiny_docForQuery: "docForQuery tinyF tinyDb tinyCol ''c'' 1 = Inr (Some (tinyText, tinyDoc))"
proof -
  have "rel_option (holds tinyE) (map_of (dbEngine tinyDb) (keyDoc 2 1)) (Some tinyDoc)"
    using dbInv_doc [OF tiny.env.reachable_dbInv [OF tiny_reachable], of "''c''" tinyCol 1]
    by (simp add: tiny_docs tinyDb_def tinySt_def tinyCol_def)
  then have "decodeStored tinyF [0xe2, 7, 1, 1, 0x61, 0x20, 1] = Inr (tinyText, tinyDoc)"
    by (auto simp: holds_def decodeStored_def tiny_marshal tinyDb_def)
  then show ?thesis by (simp add: docForQuery_def pendingDocState_def lastPending_def tinyDb_def tinyCol_def)
qed

lemma tiny_matchDoc: "matchDoc (tinyQ buf) tinyDb tinyCol (tinyQuery act) 1 = Inr (Some (tinyText, tinyDoc))"
  by (simp add: matchDoc_def tiny_docForQuery tiny_filterMatch del: filterMatch.simps)

lemma tiny_matchWindow: "matchWindow (tinyQ buf) tinyDb tinyCol (tinyQuery act) 0 (- 1) [] =
    Inr ([mkMatched 1 tinyText tinyDoc []], [''[COLLECTOR] PLAIN''])"
  by (simp add: matchWindow_def Let_def tiny_plan collectMatched_def tiny_scanIds addMatchedDoc_def tiny_matchDoc
      orderDocs_def sortBy_def windowDocs_def queryLog_def)

lemma tiny_intOption: "intOption q n None 0 = Inr n"
  by (simp add: intOption_def resolveIntOption_def)

lemma tiny_closed: "\<not> dbClosed tinyDb"
  by (simp add: tinyDb_def)

lemma tiny_state: "map_of (stCollections (dbSt tinyDb)) ''c'' = Some tinyCol"
  by (simp add: tinyDb_def tinySt_def)

lemma tiny_selected: "selected (tinyQ buf) (tinyQuery act) (tinyDocs ''c'') = {1}"
  using tiny_filterMatch by (auto simp: selected_def tiny_docs simp del: filterMatch.simps)

lemma tiny_delete: "\<exists>db'. DB_UpdateQuery (tinyQ buf) (tinyQuery actionDelete) 0 tinyDb = (Inr 1, db')"
proof -
  let ?db = "deleteLocked tinyF tinyCol 1 tinyText tinyDoc tinyDb"
  have nm: "colName tinyCol = ''c''" by (simp add: tinyCol_def)
  have "runQueryLocked (tinyQ buf) (dbSt tinyDb) (tinyQuery actionDelete) modeUpdate (noOptions 0) tinyDb =
      (Inr \<lparr>qrDocs = [], qrCount = 1, qrChanged = True, qrLog = []\<rparr>, ?db)"
    by (simp add: runQueryLocked_def runOnCollection_def tiny_state tiny_intOption noOptions_def tiny_matchWindow mkMatched_def
        applyActionLocked_def currentCol_def tiny_col nm)
  moreover have "\<exists>db'. commitLocked tinyF ?db = (Inr (), db')"
    by (simp add: deleteLocked_def recordDocDelete_def Let_def commitLocked_def persistPendingLocked_def encodeCatalog_def
        mutationOps_def deleteIndexKeys_def commitBatch_def setCol_def setCollections_def tinyDb_def tinySt_def tinyCol_def adjustIndexRNums_def
        mutationDoc_def tinyDoc_def)
  ultimately show ?thesis by (auto simp: DB_UpdateQuery_def tiny_closed commitChanged_def)
qed

lemma tiny_run:
  "runQueryLocked (tinyQ buf) (dbSt tinyDb) (tinyQuery actionNone) modeList (noOptions 0) tinyDb =
     (Inr \<lparr>qrDocs = [\<lparr>docID = 1, docRaw = tinyText\<rparr>], qrCount = 1, qrChanged = False, qrLog = []\<rparr>, tinyDb)"
  by (simp add: runQueryLocked_def runOnCollection_def tiny_state tiny_intOption noOptions_def tiny_matchWindow mkMatched_def)

lemma runQuery_read:
  assumes "pqAction (qParsed q) = actionNone" and "\<not> pqCount (qParsed q)" and "mode \<noteq> modeUpdate"
    and "runQueryLocked Q st q mode opts db = (Inr res, db')"
  obtains docs where "db' = db" "\<not> qrChanged res" "qrCount res = int (length docs)" "mode \<noteq> modeCount \<longrightarrow> qrDocs res = docs"
    "case map_of (stCollections st) (qCollection q) of None \<Rightarrow> docs = []
     | Some c \<Rightarrow> \<exists>paths skip limit w logs. sortPathsOf q (pqSorts (qParsed q)) = Inr paths
         \<and> intOption q (pqSkip (qParsed q)) (pqSkipPH (qParsed q)) (eoSkip opts) = Inr skip
         \<and> intOption q (pqLimit (qParsed q)) (pqLimitPH (qParsed q)) (eoLimit opts) = Inr limit
         \<and> matchWindow Q db c q skip limit paths = Inr (w, logs) \<and> resultDocs Q db st q w = Inr docs"
proof (cases "map_of (stCollections st) (qCollection q)")
  case None
  then show thesis using that [of "[]"] assms by (auto simp: runQueryLocked_def emptyResult_def)
next
  case (Some c)
  then have "runOnCollection Q q mode opts c st db = (Inr res, db')" using assms(4) by (simp add: runQueryLocked_def)
  then show thesis by (rule runOnCollection_read [OF _ assms(1,3)]) (use that assms(2) Some in auto)
qed

text \<open>The query with an order, and a buffer so small that the text goes to the file.\<close>

definition tinySorted :: Query where
  "tinySorted = noQuery\<lparr>qCollection := ''c'', qParsed := (parsedOf (filterAtom tinyFilter) ''c'')\<lparr>pqNoidx := True,
     pqSorts := [\<lparr>qsDesc = False, qsPath = \<lparr>ptParts = [\<lparr>ppLiteral = ''/a'', ppPh = None\<rparr>]\<rparr>, qsPlaceholder = None\<rparr>]\<rparr>\<rparr>"

lemma tiny_sorted_query: "qCollection tinySorted = ''c''" "pqNoidx (qParsed tinySorted)"
  "pqFilter (qParsed tinySorted) = filterAtom tinyFilter" "pqSorts (qParsed tinySorted) \<noteq> []"
  by (simp_all add: tinySorted_def parsedOf_def noQuery_def)

lemma tiny_sorted:
  "\<exists>w logs. matchWindow (tinyQ 0) tinyDb tinyCol tinySorted 0 (- 1) [''/a''] = Inr (w, logs) \<and> map idRaw w = [(1, tinyText, tinyDoc)]"
proof -
  let ?m = "\<lparr>mdId = 1, mdRaw = [], mdNode = VNil, mdSortValues = [sortValue tinyDoc ''/a''], mdSpillOffset = 0,
      mdSpillSize = length tinyText\<rparr>"
  have m: "matchDoc (tinyQ 0) tinyDb tinyCol tinySorted 1 = Inr (Some (tinyText, tinyDoc))"
    by (simp add: matchDoc_def tiny_docForQuery tiny_filterMatch tiny_sorted_query del: filterMatch.simps)
  have "collectMatched (tinyQ 0) tinyDb tinyCol tinySorted [''/a''] 0 (- 1) None = Inr ([?m], Some tinyText)"
    by (simp add: collectMatched_def tiny_scanIds addMatchedDoc_def m mkMatched_def spillDocs_def spillWrite_def tinySpill_def)
  then show ?thesis
    by (simp add: matchWindow_def planQuery_def tiny_sorted_query orderDocs_def sortBy_def windowDocs_def hydrateDoc_def
        tinySpill_def tiny_decode)
qed

section \<open>The properties\<close>




lemma tiny_ftxRun: "txRun tinyF {} tinyOpen (\<lambda>_ _. None) tinyTx tinyTxAbs"
proof (rule txRun.event [OF txRun.start tiny_counters(1), of _ "EPut ''c'' 1 tinyText"])
  show "txStep tinyF (EPut ''c'' 1 tinyText) tinyOpen tinyTx"
    by (simp add: Tx_Put_def tinyTx_def tinyOpen_def tiny_put_defs tinySt_def tinyCol_def)
  show "txEffect tinyF (EPut ''c'' 1 tinyText) tinyOpen (txStart {} tinyOpen (\<lambda>_ _. None)) = Some tinyTxAbs"
    by (simp add: txEffect_def txStart_def tiny_step tinyTxAbs_def putEffect_def parsed_def tiny_decode tiny_stored tinyDocs_def made_def
        schemaOf_def tinyOpen_def newState_def fun_eq_iff)
  show "fitsStep tinyF (EPut ''c'' 1 tinyText) (taView (txStart {} tinyOpen (\<lambda>_ _. None)))" by (rule tiny_step)
qed

lemma tiny_txWindow: "matchWindow (tinyQ buf) tinyTx tinyCol (tinyQuery act) 0 (- 1) [] =
    Inr ([mkMatched 1 tinyText tinyDoc []], [''[COLLECTOR] PLAIN''])"
proof -
  have "scanDocumentIDs tinyF tinyTx tinyCol = Inr [1]"
    by (auto simp: scanDocumentIDs_def scanPrefix_def PebbleEngine_def memPebble_def memEngine_def tinyTx_def tinyOpen_def tinyCol_def Let_def)
  moreover have "docForQuery tinyF tinyTx tinyCol ''c'' 1 = Inr (Some (tinyText, tinyDoc))"
    by (simp add: docForQuery_def pendingDocState_def lastPending_def tinyTx_def tinyOpen_def tinyCol_def mutationDoc_def tinyDoc_def)
  then have "matchDoc (tinyQ buf) tinyTx tinyCol (tinyQuery act) 1 = Inr (Some (tinyText, tinyDoc))"
    by (simp add: matchDoc_def tiny_filterMatch del: filterMatch.simps)
  moreover have "planQuery (tinyQ buf) tinyTx tinyCol (tinyQuery act) [] = None" by (simp add: planQuery_def)
  ultimately show ?thesis
    by (simp add: matchWindow_def Let_def collectMatched_def addMatchedDoc_def orderDocs_def sortBy_def windowDocs_def queryLog_def)
qed


text \<open>A collection without runtime indexes has no plan.\<close>

lemma plan_empty: "colRuntime c = [] \<Longrightarrow> planQuery Q db c q [] = None"
  using planOk_filter [of c "qeLib Q" q "pqFilter (qParsed q)"]
  by (auto simp: planQuery_def planOk_def split: prod.splits bool.splits)





text \<open>
  C20: equivalence. The temporary file of the sorter changes nothing: a query whose documents are not
  delivered in order by an index gives the window of the reference that keeps every matched document in memory,
  whatever the size of the buffer, provided that a read of the file that succeeds gives what was written.
\<close>

theorem sorter_transparent:
  assumes "query_env Q kv" and "dbRel (qeEnv Q) kv B db D V" and "map_of (collections db) (qCollection q) = Some c"
    and "planQuery Q db c q paths = plan" and "\<not> (plan \<noteq> None \<and> snd (the plan))"
    and "matchWindow Q db c q skip limit paths = Inr (w, logs)"
  shows "\<exists>ids. lookedAt Q db c plan = Inr ids \<and> windowSpec Q db c q skip limit paths (plan \<noteq> None) ids = Inr (map idRaw w)"
  using spilling_query.matchWindow_unspilled [OF query_env.spilling [OF assms(1-3)] assms(4-6)] by blast

theorem sorter_transparent_witness:
  "\<exists>ids. lookedAt (tinyQ 0) tinyDb tinyCol None = Inr ids
     \<and> windowSpec (tinyQ 0) tinyDb tinyCol tinySorted 0 (- 1) [''/a''] False ids = Inr [(1, tinyText, tinyDoc)]"
proof -
  have rel: "dbRel (qeEnv (tinyQ 0)) map_of {} tinyDb tinyDocs tinyDocs" using tiny_finv by (simp add: dbInv_def)
  obtain w logs where w: "matchWindow (tinyQ 0) tinyDb tinyCol tinySorted 0 (- 1) [''/a''] = Inr (w, logs)" "map idRaw w = [(1, tinyText, tinyDoc)]"
    using tiny_sorted by (elim exE conjE) (rule that)
  then show ?thesis
    using sorter_transparent [OF tiny_q.query_env_axioms rel, of tinySorted tinyCol "[''/a'']" None 0 "- 1" w logs] tiny_col
    by (simp add: planQuery_def tiny_sorted_query)
qed

text \<open>
  C22: bounds. The window is the documents after the first \<open>skip\<close>, at most \<open>limit\<close> of them, and a negative limit is
  none, as long as \<open>limit\<close> plus the number of documents is below the largest integer.
\<close>

theorem window_exact:
  assumes "0 \<le> skip" and "limit < 2 ^ 63 - int (length docs)" and "int (length docs) < 2 ^ 63"
  shows "windowDocs False skip limit docs =
    Inr (if limit < 0 then drop (nat skip) docs else take (nat limit) (drop (nat skip) docs))"
  using windowDocs_exact [OF assms] .

theorem window_exact_witness: "windowDocs False 1 2 [10, 20, 30, 40 :: nat] = Inr [20, 30]"
  using window_exact [of 1 2 "[10, 20, 30, 40 :: nat]"] by (simp add: eval_nat_numeral)

text \<open>
  C23: liveness. The loop over the visitor ends when the visitor never asks to go back, whatever else it
  returns; the sum of the position and the step may wrap around.
\<close>

theorem visit_ends:
  assumes "\<And>d v step v'. f d v = Inr (step, v') \<Longrightarrow> 0 \<le> sint step" and "int (length docs) < 2 ^ 63"
  shows "\<exists>r. visitLoop f docs 0 v = Some r"
  by (rule visitLoop_returns) (use assms in auto)

theorem visit_ends_witness:
  "\<exists>r. visitLoop (\<lambda>d n. Inr (2, n + 1)) [\<lparr>docID = 1, docRaw = []\<rparr>, \<lparr>docID = 2, docRaw = []\<rparr>] 0 (0 :: nat) = Some r"
  by (rule visit_ends) auto

end
