(* ===== verification/StoreRefine.thy ===== *)
theory StoreRefine
  imports Store
begin

text \<open>
  The pointer operations on the store against those on trees: a value with nothing shared in it represents a tree, and
  setting, removing and removing by a pattern in the store do to it what the definitions of \<open>Pointer\<close> say.
\<close>

lemma list_all2_left: "list_all2 P xs ys \<Longrightarrow> x \<in> set xs \<Longrightarrow> \<exists>y \<in> set ys. P x y"
  by (induction rule: list_all2_induct) auto

section \<open>Footprints\<close>

inductive reach :: "store \<Rightarrow> hv \<Rightarrow> nat \<Rightarrow> bool" for st where
  reach_self: "addrOf h = Some a \<Longrightarrow> reach st h a"
| reach_child: "c \<in> set (hChildren st h) \<Longrightarrow> reach st c a \<Longrightarrow> reach st h a"

definition footprint :: "store \<Rightarrow> hv \<Rightarrow> nat set" where
  "footprint st h = {a. reach st h a}"

lemma footprint_eq: "footprint st h = set_option (addrOf h) \<union> (\<Union>c \<in> set (hChildren st h). footprint st c)"
  by (auto simp: footprint_def reach.simps [of st h])

lemma footprint_HVal [simp]: "footprint st (HVal v) = {}"
  by (subst footprint_eq) simp

lemma addrOf_footprint: "addrOf h = Some a \<Longrightarrow> a \<in> footprint st h"
  by (subst footprint_eq) simp

lemma footprint_child: "c \<in> set (hChildren st h) \<Longrightarrow> footprint st c \<subseteq> footprint st h"
  by (subst (2) footprint_eq) blast

lemma hChildren_cong: "(\<And>a. addrOf h = Some a \<Longrightarrow> st' ! a = st ! a) \<Longrightarrow> hChildren st' h = hChildren st h"
  by (cases h) (auto simp: mapAt_def arrAt_def)

lemma reach_frame: "reach st h a \<Longrightarrow> (\<And>b. b \<in> footprint st h \<Longrightarrow> st' ! b = st ! b) \<Longrightarrow> reach st' h a"
proof (induction rule: reach.induct)
  case (reach_child c h a)
  have "hChildren st' h = hChildren st h" using reach_child.prems by (auto intro: hChildren_cong addrOf_footprint)
  moreover have "reach st' c a" using reach_child.IH reach_child.prems footprint_child [OF reach_child.hyps(1)] by blast
  ultimately show ?case using reach_child.hyps(1) by (metis reach.reach_child)
qed (rule reach_self)

lemma reach_frame': "reach st' h a \<Longrightarrow> (\<And>b. b \<in> footprint st h \<Longrightarrow> st' ! b = st ! b) \<Longrightarrow> reach st h a"
proof (induction rule: reach.induct)
  case (reach_child c h a)
  have "hChildren st' h = hChildren st h" using reach_child.prems by (auto intro: hChildren_cong addrOf_footprint)
  then have c: "c \<in> set (hChildren st h)" using reach_child by simp
  moreover have "reach st c a" using reach_child.IH reach_child.prems footprint_child [OF c] by blast
  ultimately show ?case by (metis reach.reach_child)
qed (rule reach_self)

lemma footprint_frame: "(\<And>b. b \<in> footprint st h \<Longrightarrow> st' ! b = st ! b) \<Longrightarrow> footprint st' h = footprint st h"
  using reach_frame reach_frame' unfolding footprint_def by blast

section \<open>Representation\<close>

text \<open>The value shares nothing at its root: its cell is in no child, and the children have nothing in common.\<close>

definition unshared :: "store \<Rightarrow> hv \<Rightarrow> bool" where
  "unshared st h \<longleftrightarrow> (\<forall>c \<in> set (hChildren st h). set_option (addrOf h) \<inter> footprint st c = {})
     \<and> sorted_wrt disjnt (map (footprint st) (hChildren st h))"

text \<open>The value represents the tree; with the flag set nothing is shared in it.\<close>

inductive rep :: "bool \<Rightarrow> store \<Rightarrow> hv \<Rightarrow> gv \<Rightarrow> bool" for b st where
  rep_val: "(\<And>gs. v \<noteq> VArray gs) \<Longrightarrow> (\<And>gs. v \<noteq> VObject gs) \<Longrightarrow> rep b st (HVal v) v"
| rep_arr: "a < length st \<Longrightarrow> st ! a = ArrCell xs \<Longrightarrow> n \<le> length xs \<Longrightarrow> list_all2 (rep b st) (take n xs) gs \<Longrightarrow>
    (b \<Longrightarrow> unshared st (HArr a n)) \<Longrightarrow> rep b st (HArr a n) (VArray gs)"
| rep_map: "a < length st \<Longrightarrow> st ! a = MapCell kvs \<Longrightarrow> objOk kvs \<Longrightarrow>
    list_all2 (\<lambda>p q. fst p = fst q \<and> rep b st (snd p) (snd q)) kvs gs \<Longrightarrow>
    (b \<Longrightarrow> unshared st (HMap a)) \<Longrightarrow> rep b st (HMap a) (VObject gs)"

inductive_simps rep_HVal [simp]: "rep b st (HVal v) g"
inductive_simps rep_HArr: "rep b st (HArr a n) g"
inductive_simps rep_HMap: "rep b st (HMap a) g"
inductive_simps rep_VArray: "rep b st h (VArray gs)"
inductive_simps rep_VObject: "rep b st h (VObject gs)"

abbreviation own :: "store \<Rightarrow> hv \<Rightarrow> gv \<Rightarrow> bool" where "own \<equiv> rep True"

lemma rep_frame:
  "rep b st h g \<Longrightarrow> (\<And>a. a \<in> footprint st h \<Longrightarrow> a < length st' \<and> st' ! a = st ! a) \<Longrightarrow> rep b st' h g"
proof (induction rule: rep.induct)
  case (rep_arr a xs n gs)
  have "a \<in> footprint st (HArr a n)" by (simp add: addrOf_footprint)
  then have a: "a < length st'" "st' ! a = ArrCell xs" using rep_arr.prems rep_arr.hyps(2) by fastforce+
  have ch: "hChildren st (HArr a n) = take n xs" "hChildren st' (HArr a n) = take n xs"
    using rep_arr.hyps a by (simp_all add: arrAt_def)
  have sub: "footprint st c \<subseteq> footprint st (HArr a n)" if "c \<in> set (take n xs)" for c
    using footprint_child [of c st "HArr a n", unfolded ch] that by simp
  have fp: "footprint st' c = footprint st c" if "c \<in> set (take n xs)" for c
    using sub [OF that] rep_arr.prems by (intro footprint_frame) blast
  have "list_all2 (rep b st') (take n xs) gs"
    using rep_arr.IH by (rule list.rel_mono_strong) (use sub rep_arr.prems in blast)
  moreover have "b \<Longrightarrow> unshared st' (HArr a n)"
    using rep_arr.hyps unfolding unshared_def ch by (simp add: fp cong: map_cong)
  ultimately show ?case using rep_arr.hyps a by (intro rep.rep_arr)
next
  case (rep_map a kvs gs)
  have "a \<in> footprint st (HMap a)" by (simp add: addrOf_footprint)
  then have a: "a < length st'" "st' ! a = MapCell kvs" using rep_map.prems rep_map.hyps(2) by fastforce+
  have ch: "hChildren st (HMap a) = map snd kvs" "hChildren st' (HMap a) = map snd kvs"
    using rep_map.hyps a by (simp_all add: mapAt_def)
  have sub: "footprint st c \<subseteq> footprint st (HMap a)" if "c \<in> snd ` set kvs" for c
    using footprint_child [of c st "HMap a", unfolded ch] that by simp
  have fp: "footprint st' c = footprint st c" if "c \<in> snd ` set kvs" for c
    using sub [OF that] rep_map.prems by (intro footprint_frame) blast
  have "list_all2 (\<lambda>p q. fst p = fst q \<and> rep b st' (snd p) (snd q)) kvs gs"
    using rep_map.IH by (rule list.rel_mono_strong) (use sub rep_map.prems in blast)
  moreover have "b \<Longrightarrow> unshared st' (HMap a)"
    using rep_map.hyps fp unfolding unshared_def ch by (simp cong: map_cong) 
  ultimately show ?case using rep_map.hyps a by (intro rep.rep_map)
qed (auto intro: rep_val)

lemma rep_weaken: "rep b st h g \<Longrightarrow> rep False st h g"
  by (induction rule: rep.induct) (auto intro!: rep.intros elim: list.rel_mono_strong)

lemma rep_footprint: "rep b st h g \<Longrightarrow> footprint st h \<subseteq> {..<length st}"
proof (induction rule: rep.induct)
  case (rep_arr a xs n gs)
  then have "\<forall>c \<in> set (take n xs). footprint st c \<subseteq> {..<length st}"
    by (fastforce dest: list_all2_left)
  then show ?case using rep_arr.hyps by (subst footprint_eq) (auto simp: arrAt_def)
next
  case (rep_map a kvs gs)
  then have "\<forall>c \<in> snd ` set kvs. footprint st c \<subseteq> {..<length st}"
    by (fastforce dest: list_all2_left)
  then show ?case using rep_map.hyps by (subst footprint_eq) (auto simp: mapAt_def)
qed simp

lemma own_unshared: "own st h g \<Longrightarrow> unshared st h"
  by (erule rep.cases) (auto simp: unshared_def)

section \<open>Changing the children of a container\<close>

text \<open>Only the cells in the set and new cells differ.\<close>

definition changes :: "nat set \<Rightarrow> store \<Rightarrow> store \<Rightarrow> bool" where
  "changes R st st' \<longleftrightarrow> length st \<le> length st' \<and> (\<forall>a < length st. a \<notin> R \<longrightarrow> st' ! a = st ! a)"

lemma changes_refl [simp]: "changes R st st"
  by (simp add: changes_def)

lemma changes_upd: "a \<in> R \<Longrightarrow> changes R st (st[a := c])"
  by (auto simp: changes_def intro: nth_list_update_neq)

lemma changes_upd': "changes R st st1 \<Longrightarrow> R \<subseteq> R' \<Longrightarrow> a \<in> R' \<Longrightarrow> changes R' st (st1[a := c])"
  unfolding changes_def by (metis length_list_update nth_list_update_neq subsetD)

lemma changes_mono: "changes R st st' \<Longrightarrow> R \<subseteq> R' \<Longrightarrow> changes R' st st'"
  unfolding changes_def by blast

lemma changes_snoc [simp]: "changes R st (st @ [c])"
  by (simp add: changes_def nth_append)

lemma changes_trans: "changes R st st' \<Longrightarrow> changes R' st' st'' \<Longrightarrow> R' \<inter> {..<length st} \<subseteq> R \<Longrightarrow> changes R st st''"
  unfolding changes_def by (metis Int_iff lessThan_iff order_trans less_le_trans subsetD)

abbreviation fresh :: "store \<Rightarrow> store \<Rightarrow> nat set" where
  "fresh st st' \<equiv> {length st..<length st'}"

lemma changes_frame:
  assumes "rep b st h g" and "changes R st st'" and "R \<inter> footprint st h = {}"
  shows "rep b st' h g" and "footprint st' h = footprint st h"
proof -
  have "a < length st' \<and> st' ! a = st ! a" if "a \<in> footprint st h" for a
    using that assms(2,3) rep_footprint [OF assms(1)] by (fastforce simp: changes_def)
  then show "rep b st' h g" "footprint st' h = footprint st h"
    using rep_frame [OF assms(1)] by (blast, intro footprint_frame) blast
qed

text \<open>
  The children \<open>ms\<close> of an unshared container were worked on, from \<open>st\<close> to \<open>st1\<close>, and are replaced by \<open>ns\<close>, in \<open>st2\<close>. The other
  children are as before, and the new ones share with them nothing.
\<close>

lemma replace_children:
  assumes own: "own st h g" and kids: "hChildren st h = us @ ms @ ws"
    and M: "M = (\<Union>m \<in> set ms. footprint st m)" and ch: "changes M st st1"
    and V: "V \<inter> footprint st h = {}" "V \<subseteq> {..<length st1}"
    and ns0: "\<forall>y \<in> set ns. footprint st1 y \<subseteq> M \<union> V \<union> fresh st st1"
    and st20: "length st1 \<le> length st2" "\<forall>c < length st1. addrOf h \<noteq> Some c \<longrightarrow> st2 ! c = st1 ! c"
  shows "k \<in> set us \<union> set ws \<Longrightarrow> footprint st2 k = footprint st k \<and> (rep b st k gk \<longrightarrow> rep b st2 k gk)"
    and "y \<in> set ns \<Longrightarrow> footprint st2 y = footprint st1 y \<and> (rep b st1 y gy \<longrightarrow> rep b st2 y gy)"
    and "k \<in> set (us @ ns @ ws) \<Longrightarrow> set_option (addrOf h) \<inter> footprint st2 k = {} \<and> footprint st2 k \<subseteq> footprint st h \<union> V \<union> fresh st st1"
    and "sorted_wrt disjnt (map (footprint st1) ns) \<Longrightarrow> sorted_wrt disjnt (map (footprint st2) (us @ ns @ ws))"
proof -
  have ns: "\<And>y. y \<in> set ns \<Longrightarrow> footprint st1 y \<subseteq> M \<union> V \<union> fresh st st1"
    and st2: "length st1 \<le> length st2" "\<And>c. c < length st1 \<Longrightarrow> addrOf h \<noteq> Some c \<Longrightarrow> st2 ! c = st1 ! c"
    using ns0 st20 by auto
  have lim: "footprint st h \<subseteq> {..<length st}" using rep_footprint [OF own] .
  have child: "footprint st c \<subseteq> footprint st h" "set_option (addrOf h) \<inter> footprint st c = {}" if "c \<in> set (us @ ms @ ws)" for c
    using footprint_child [of c st h] own_unshared [OF own] that unfolding kids unshared_def by auto
  have sep: "sorted_wrt disjnt (map (footprint st) (us @ ms @ ws))"
    using own_unshared [OF own] unfolding kids unshared_def by blast
  have sM: "M \<subseteq> footprint st h" "set_option (addrOf h) \<inter> M = {}"
    using child unfolding M by auto
  have oth: "footprint st c \<inter> M = {}" if "c \<in> set us \<union> set ws" for c
    using sep that unfolding M by (fastforce simp: sorted_wrt_append disjnt_def)
  have len: "length st \<le> length st1" using ch by (simp add: changes_def)
  have keep: "st2 ! a = st ! a" if "a \<in> footprint st c" "c \<in> set us \<union> set ws" for a c
  proof -
    have "a < length st" "a \<notin> M" "addrOf h \<noteq> Some a" using that child [of c] oth [of c] lim by auto
    then show ?thesis using st2(2) [of a] ch len by (simp add: changes_def)
  qed
  have fpo: "footprint st2 k = footprint st k" if "k \<in> set us \<union> set ws" for k
    using keep [OF _ that] by (rule footprint_frame)
  have "rep b st k gk \<longrightarrow> rep b st2 k gk" if "k \<in> set us \<union> set ws" for k gk
  proof (intro impI, rule rep_frame)
    fix a assume a: "a \<in> footprint st k"
    have "footprint st k \<subseteq> footprint st h" using child(1) [of k] that by auto
    then have "a < length st2" using a lim len st2(1) by fastforce
    then show "a < length st2 \<and> st2 ! a = st ! a" using keep [OF a that] by blast
  qed
  then show "k \<in> set us \<union> set ws \<Longrightarrow> footprint st2 k = footprint st k \<and> (rep b st k gk \<longrightarrow> rep b st2 k gk)"
    using fpo by blast
  have nsa: "a < length st1 \<and> addrOf h \<noteq> Some a" if "a \<in> footprint st1 y" "y \<in> set ns" for a y
  proof -
    have "a \<in> M \<union> V \<union> fresh st st1" using ns that by blast
    moreover have "addrOf h = Some a \<Longrightarrow> a \<in> footprint st h" by (rule addrOf_footprint)
    ultimately have "a \<in> footprint st h \<union> V \<union> fresh st st1" "addrOf h = Some a \<Longrightarrow> a \<in> fresh st st1 \<union> M"
      using sM(1) V(1) by blast+
    moreover have "\<not> (addrOf h = Some a \<and> a \<in> M)" using sM(2) by auto
    moreover have "\<not> (addrOf h = Some a \<and> a \<in> fresh st st1)" using addrOf_footprint [of h a st] lim by auto
    ultimately show ?thesis using V(2) lim len by auto
  qed
  have fpn: "footprint st2 y = footprint st1 y" if "y \<in> set ns" for y
    using nsa [OF _ that] st2(2) by (intro footprint_frame) blast
  have "rep b st1 y gy \<longrightarrow> rep b st2 y gy" if "y \<in> set ns" for y gy
  proof (intro impI, rule rep_frame)
    fix a assume "a \<in> footprint st1 y"
    from nsa [OF this that] show "a < length st2 \<and> st2 ! a = st1 ! a" using st2 by (simp add: less_le_trans)
  qed
  then show "y \<in> set ns \<Longrightarrow> footprint st2 y = footprint st1 y \<and> (rep b st1 y gy \<longrightarrow> rep b st2 y gy)"
    using fpn by blast
  show "set_option (addrOf h) \<inter> footprint st2 k = {} \<and> footprint st2 k \<subseteq> footprint st h \<union> V \<union> fresh st st1"
    if "k \<in> set (us @ ns @ ws)" for k
  proof (cases "k \<in> set us \<union> set ws")
    case True
    then show ?thesis using child [of k] fpo [OF True] by auto
  next
    case False
    then have k: "k \<in> set ns" using that by auto
    have "set_option (addrOf h) \<inter> footprint st1 k = {}" using nsa [OF _ k] by (auto simp: Option.elem_set)
    moreover have "footprint st1 k \<subseteq> footprint st h \<union> V \<union> fresh st st1" using ns [OF k] sM(1) by blast
    ultimately show ?thesis by (simp add: fpn [OF k])
  qed
  assume nn: "sorted_wrt disjnt (map (footprint st1) ns)"
  have nd: "disjnt (footprint st2 y) (footprint st2 k)" if "y \<in> set ns" "k \<in> set us \<union> set ws" for y k
  proof -
    have "footprint st k \<subseteq> footprint st h" using child(1) [of k] that(2) by auto
    then have "footprint st k \<inter> (M \<union> V \<union> fresh st st1) = {}" using oth [OF that(2)] V(1) lim by fastforce
    then show ?thesis using fpn [OF that(1)] fpo [OF that(2)] ns [OF that(1)] unfolding disjnt_def by blast
  qed
  have eqs: "map (footprint st2) us = map (footprint st) us" "map (footprint st2) ws = map (footprint st) ws"
    "map (footprint st2) ns = map (footprint st1) ns" using fpo fpn by (auto cong: map_cong)
  have nd': "disjnt (footprint st1 y) (footprint st k) \<and> disjnt (footprint st k) (footprint st1 y)"
    if "y \<in> set ns" "k \<in> set us \<union> set ws" for y k
    using nd [OF that] disjnt_sym [OF nd [OF that]] fpo [OF that(2)] fpn [OF that(1)] by simp
  have "sorted_wrt disjnt (map (footprint st) us)" "sorted_wrt disjnt (map (footprint st) ws)"
    "\<forall>u \<in> set us. \<forall>w \<in> set ws. disjnt (footprint st u) (footprint st w)"
    using sep by (auto simp: sorted_wrt_append)
  then show "sorted_wrt disjnt (map (footprint st2) (us @ ns @ ws))"
    unfolding map_append eqs sorted_wrt_append using nn nd' by auto
qed

lemma container_unshared:
  assumes kids: "hChildren st2 h' = us @ ns @ ws" and a': "addrOf h' = Some a'" "a' < length st2" "addrOf h = Some a'  \<or> length st1 \<le> a'"
    and lim: "footprint st h \<union> V \<union> fresh st st1 \<subseteq> {..<length st1}" and len: "length st \<le> length st1" "length st1 \<le> length st2"
    and k0: "\<forall>k \<in> set (us @ ns @ ws).
      set_option (addrOf h) \<inter> footprint st2 k = {} \<and> footprint st2 k \<subseteq> footprint st h \<union> V \<union> fresh st st1"
  shows "sorted_wrt disjnt (map (footprint st2) (us @ ns @ ws)) \<Longrightarrow> unshared st2 h'"
    and "footprint st2 h' \<subseteq> footprint st h \<union> V \<union> fresh st st2"
proof -
  note k = k0 [rule_format]
  have na: "a' \<notin> footprint st2 k" if "k \<in> set (us @ ns @ ws)" for k using k [OF that] lim a'(3) by fastforce
  then show "unshared st2 h'" if "sorted_wrt disjnt (map (footprint st2) (us @ ns @ ws))"
    using that unfolding unshared_def kids by (auto simp: a'(1))
  have "a' \<in> footprint st h \<union> V \<union> fresh st st2" using a' len addrOf_footprint [of h a' st] by auto
  moreover have "fresh st st1 \<subseteq> fresh st st2" using len by auto
  then have "footprint st2 k \<subseteq> footprint st h \<union> V \<union> fresh st st2" if "k \<in> set (us @ ns @ ws)" for k
    using k [OF that] by blast
  ultimately show "footprint st2 h' \<subseteq> footprint st h \<union> V \<union> fresh st st2"
    unfolding footprint_eq [of st2 h'] kids using a'(1) by (intro Un_least UN_least) auto
qed

lemma arr_replace:
  assumes own: "own st (HArr a n) (VArray gs)" and kids: "take n (arrAt st a) = us @ ms @ ws"
    and gs: "gs = gu @ gm @ gw" "length gu = length us" "length gm = length ms"
    and M: "M = (\<Union>m \<in> set ms. footprint st m)" and ch: "changes M st st1"
    and V: "V \<inter> footprint st (HArr a n) = {}" "V \<subseteq> {..<length st1}"
    and ns: "list_all2 (rep b st1) ns gn" "\<And>y. y \<in> set ns \<Longrightarrow> footprint st1 y \<subseteq> M \<union> V \<union> fresh st st1"
      "b \<Longrightarrow> sorted_wrt disjnt (map (footprint st1) ns)"
    and st2: "length st1 \<le> length st2" "\<And>c. c < length st1 \<Longrightarrow> c \<noteq> a \<Longrightarrow> st2 ! c = st1 ! c"
    and a': "a' < length st2" "st2 ! a' = ArrCell (us @ ns @ ws @ rest)" "a' = a \<or> length st1 \<le> a'"
    and m: "m = length us + length ns + length ws"
  shows "rep b st2 (HArr a' m) (VArray (gu @ gn @ gw)) \<and> footprint st2 (HArr a' m) \<subseteq> footprint st (HArr a n) \<union> V \<union> fresh st st2"
proof -
  let ?h = "HArr a n"
  have kids': "hChildren st ?h = us @ ms @ ws" by (simp add: kids)
  have st2': "\<forall>c < length st1. addrOf ?h \<noteq> Some c \<longrightarrow> st2 ! c = st1 ! c" using st2(2) by simp
  have ns': "\<forall>y \<in> set ns. footprint st1 y \<subseteq> M \<union> V \<union> fresh st st1" using ns(2) by blast
  note R = replace_children [OF own kids' M ch V ns' st2(1) st2']
  have R3: "\<forall>k \<in> set (us @ ns @ ws). set_option (addrOf ?h) \<inter> footprint st2 k = {}
      \<and> footprint st2 k \<subseteq> footprint st ?h \<union> V \<union> fresh st st1" using R(3) by blast
  have len: "length st \<le> length st1" using ch by (simp add: changes_def)
  have lim: "footprint st ?h \<union> V \<union> fresh st st1 \<subseteq> {..<length st1}" using rep_footprint [OF own] V(2) len by auto
  have hk: "hChildren st2 (HArr a' m) = us @ ns @ ws" using a'(2) m by (simp add: arrAt_def)
  note C = container_unshared [OF hk _ a'(1) _ lim len st2(1) R3]
  have all: "list_all2 (rep True st) (us @ ms @ ws) (gu @ gm @ gw)"
    using own kids by (auto simp: rep_HArr arrAt_def gs(1))
  then have u: "list_all2 (rep True st) us gu" and w: "list_all2 (rep True st) ws gw"
    by (simp_all add: list_all2_append gs)
  have weak: "rep True st x y \<longrightarrow> rep b st x y" for x y by (cases b) (auto intro: rep_weaken)
  have "list_all2 (rep b st2) us gu" using u by (rule list.rel_mono_strong) (use R(1) weak in blast)
  moreover have "list_all2 (rep b st2) ws gw" using w by (rule list.rel_mono_strong) (use R(1) weak in blast)
  moreover have "list_all2 (rep b st2) ns gn" using ns(1) by (rule list.rel_mono_strong) (use R(2) in blast)
  ultimately have "list_all2 (rep b st2) (take m (us @ ns @ ws @ rest)) (gu @ gn @ gw)"
    by (simp add: m list_all2_appendI)
  moreover have "b \<Longrightarrow> unshared st2 (HArr a' m)" using C(1) [OF _ _ R(4)] ns(3) a'(3) by auto
  ultimately have "rep b st2 (HArr a' m) (VArray (gu @ gn @ gw))"
    using a'(1,2) m by (intro rep.rep_arr) auto
  then show ?thesis using C(2) a'(3) by auto
qed

lemma map_replace:
  assumes own: "own st (HMap a) (VObject gs)" and kids: "mapAt st a = ku @ km @ kw"
    and gs: "gs = gu @ gm @ gw" "length gu = length ku" "length gm = length km"
    and M: "M = (\<Union>m \<in> set km. footprint st (snd m))" and ch: "changes M st st1"
    and V: "V \<inter> footprint st (HMap a) = {}" "V \<subseteq> {..<length st1}"
    and ns: "list_all2 (\<lambda>p q. fst p = fst q \<and> rep b st1 (snd p) (snd q)) kn gn"
      "\<And>y. y \<in> snd ` set kn \<Longrightarrow> footprint st1 y \<subseteq> M \<union> V \<union> fresh st st1"
      "b \<Longrightarrow> sorted_wrt disjnt (map (footprint st1) (map snd kn))"
    and st2: "st2 = st1[a := MapCell (ku @ kn @ kw)]" and ok: "objOk (ku @ kn @ kw)"
  shows "rep b st2 (HMap a) (VObject (gu @ gn @ gw)) \<and> footprint st2 (HMap a) \<subseteq> footprint st (HMap a) \<union> V \<union> fresh st st2"
proof -
  let ?h = "HMap a"
  have kids': "hChildren st ?h = map snd ku @ map snd km @ map snd kw" by (simp add: kids)
  have M': "M = (\<Union>m \<in> set (map snd km). footprint st m)" using M by simp
  have st2': "length st1 \<le> length st2" "\<forall>c < length st1. addrOf ?h \<noteq> Some c \<longrightarrow> st2 ! c = st1 ! c" using st2 by auto
  have ns': "\<forall>y \<in> set (map snd kn). footprint st1 y \<subseteq> M \<union> V \<union> fresh st st1" using ns(2) by simp
  note R = replace_children [OF own kids' M' ch V ns' st2']
  have R3: "\<forall>k \<in> set (map snd ku @ map snd kn @ map snd kw). set_option (addrOf ?h) \<inter> footprint st2 k = {}
      \<and> footprint st2 k \<subseteq> footprint st ?h \<union> V \<union> fresh st st1" using R(3) by blast
  have len: "length st \<le> length st1" using ch by (simp add: changes_def)
  have a: "a < length st2" using own len st2 by (auto simp: rep_HMap)
  have lim: "footprint st ?h \<union> V \<union> fresh st st1 \<subseteq> {..<length st1}" using rep_footprint [OF own] V(2) len by auto
  have cell: "st2 ! a = MapCell (ku @ kn @ kw)" using st2 a by simp
  then have hk: "hChildren st2 ?h = map snd ku @ map snd kn @ map snd kw" by (simp add: mapAt_def)
  note C = container_unshared [OF hk _ a _ lim len st2'(1) R3]
  let ?R = "\<lambda>b st p q. fst p = fst q \<and> rep b st (snd p) (snd q)"
  have all: "list_all2 (?R True st) (ku @ km @ kw) (gu @ gm @ gw)"
    using own kids by (auto simp: rep_HMap mapAt_def gs(1))
  then have u: "list_all2 (?R True st) ku gu" and w: "list_all2 (?R True st) kw gw"
    by (simp_all add: list_all2_append gs)
  have weak: "rep True st x y \<longrightarrow> rep b st x y" for x y by (cases b) (auto intro: rep_weaken)
  have "list_all2 (?R b st2) ku gu" using u by (rule list.rel_mono_strong) (use R(1) weak in auto)
  moreover have "list_all2 (?R b st2) kw gw" using w by (rule list.rel_mono_strong) (use R(1) weak in auto)
  moreover have "list_all2 (?R b st2) kn gn" using ns(1) by (rule list.rel_mono_strong) (use R(2) in auto)
  ultimately have "list_all2 (?R b st2) (ku @ kn @ kw) (gu @ gn @ gw)" by (intro list_all2_appendI)
  moreover have "b \<Longrightarrow> unshared st2 ?h" using C(1) [OF _ _ R(4)] ns(3) by simp
  ultimately have "rep b st2 ?h (VObject (gu @ gn @ gw))" using a cell ok by (intro rep.rep_map)
  then show ?thesis using C(2) by simp
qed

section \<open>Setting\<close>

text \<open>The value after a change: its tree, the cells that changed, and the cells it is made of.\<close>

definition becomes :: "bool \<Rightarrow> nat set \<Rightarrow> store \<Rightarrow> hv \<Rightarrow> store \<Rightarrow> hv \<Rightarrow> gv \<Rightarrow> bool" where
  "becomes b V st h st' h' g' \<longleftrightarrow> rep b st' h' g' \<and> changes (footprint st h) st st'
     \<and> footprint st' h' \<subseteq> footprint st h \<union> V \<union> fresh st st'"

lemma hAppend_own:
  assumes own: "own st (HArr a n) (VArray gs)" and val: "rep b st val gv" and V: "footprint st val \<inter> footprint st (HArr a n) = {}"
  shows "\<exists>h' st'. hAppend grow st a n val = (h', st') \<and> becomes b (footprint st val) st (HArr a n) st' h' (VArray (gs @ [gv]))"
proof -
  let ?xs = "arrAt st a"
  have a: "a < length st" "n \<le> length ?xs" "length gs = n"
    using own by (auto simp: rep_HArr arrAt_def dest: list_all2_lengthD)
  have fa: "a \<in> footprint st (HArr a n)" by (simp add: addrOf_footprint)
  note R = arr_replace [OF own, of "take n ?xs" "[]" "[]" gs "[]" "[]" "{}" st "footprint st val" b "[val]" "[gv]"]
  show ?thesis
  proof (cases "n < length ?xs")
    case True
    have "rep b (st[a := ArrCell (?xs[n := val])]) (HArr a (n + 1)) (VArray (gs @ [gv]))
        \<and> footprint (st[a := ArrCell (?xs[n := val])]) (HArr a (n + 1))
          \<subseteq> footprint st (HArr a n) \<union> footprint st val \<union> fresh st (st[a := ArrCell (?xs[n := val])])"
      using R [of "st[a := ArrCell (?xs[n := val])]" a "drop (n + 1) ?xs" "n + 1"] a V val rep_footprint [OF val] True
        upd_conv_take_nth_drop [OF True, of val] by simp
    moreover have "changes (footprint st (HArr a n)) st (st[a := ArrCell (?xs[n := val])])"
      using fa by (rule changes_upd)
    ultimately show ?thesis using True by (simp add: hAppend_def becomes_def)
  next
    case False
    let ?st2 = "st @ [ArrCell (?xs @ val # replicate (grow (n + 1)) hnil)]"
    have "rep b ?st2 (HArr (length st) (n + 1)) (VArray (gs @ [gv]))
        \<and> footprint ?st2 (HArr (length st) (n + 1)) \<subseteq> footprint st (HArr a n) \<union> footprint st val \<union> fresh st ?st2"
      using R [of ?st2 "length st" "replicate (grow (n + 1)) hnil" "n + 1"] a V val rep_footprint [OF val] False
      by (simp add: nth_append)
    moreover have "changes (footprint st (HArr a n)) st ?st2" by simp
    ultimately show ?thesis using False by (simp add: hAppend_def becomes_def)
  qed
qed

lemma hInsert_own:
  assumes own: "own st (HArr a n) (VArray gs)" and val: "rep b st val gv" and V: "footprint st val \<inter> footprint st (HArr a n) = {}"
    and i: "i \<le> n"
  shows "\<exists>h' st'. hInsert grow st a n i val = (h', st') \<and> becomes b (footprint st val) st (HArr a n) st' h' (VArray (insertAt i gv gs))"
proof -
  let ?xs = "arrAt st a"
  have a: "a < length st" "n \<le> length ?xs" "length gs = n"
    using own by (auto simp: rep_HArr arrAt_def dest: list_all2_lengthD)
  have fa: "a \<in> footprint st (HArr a n)" by (simp add: addrOf_footprint)
  note R = arr_replace [OF own, of "take i ?xs" "[]" "drop i (take n ?xs)" "take i gs" "[]" "drop i gs" "{}" st
      "footprint st val" b "[val]" "[gv]"]
  have t: "take n ?xs = take i ?xs @ drop i (take n ?xs)"
    using append_take_drop_id [of i "take n ?xs"] i by (simp add: min_absorb1)
  show ?thesis
  proof (cases "n < length ?xs")
    case True
    let ?st2 = "st[a := ArrCell (insertAt i val (take n ?xs) @ drop (n + 1) ?xs)]"
    have e: "hInsert grow st a n i val = (HArr a (n + 1), ?st2)"
      using True a by (simp add: hInsert_def hAppend_def arrAt_def)
    have "rep b ?st2 (HArr a (n + 1)) (VArray (insertAt i gv gs))
        \<and> footprint ?st2 (HArr a (n + 1)) \<subseteq> footprint st (HArr a n) \<union> footprint st val \<union> fresh st ?st2"
      using R [of ?st2 a "drop (n + 1) ?xs" "n + 1"] a V val rep_footprint [OF val] True t i
      by (simp add: insertAt_def min_absorb1)
    moreover have "changes (footprint st (HArr a n)) st ?st2" using fa by (rule changes_upd)
    ultimately show ?thesis unfolding e by (simp add: becomes_def)
  next
    case False
    let ?st2 = "st @ [ArrCell (insertAt i val ?xs @ replicate (grow (n + 1)) hnil)]"
    have e: "hInsert grow st a n i val = (HArr (length st) (n + 1), ?st2)"
      using False a by (simp add: hInsert_def hAppend_def arrAt_def)
    have "rep b ?st2 (HArr (length st) (n + 1)) (VArray (insertAt i gv gs))
        \<and> footprint ?st2 (HArr (length st) (n + 1)) \<subseteq> footprint st (HArr a n) \<union> footprint st val \<union> fresh st ?st2"
      using R [of ?st2 "length st" "replicate (grow (n + 1)) hnil" "n + 1"] a V val rep_footprint [OF val] False t i
      by (simp add: insertAt_def nth_append)
    moreover have "changes (footprint st (HArr a n)) st ?st2" by simp
    ultimately show ?thesis unfolding e by (simp add: becomes_def)
  qed
qed

lemma set_elem:
  assumes own: "own st (HArr a n) (VArray gs)" and i: "i < n"
    and ch: "changes (footprint st (arrAt st a ! i)) st st1"
    and V: "V \<inter> footprint st (HArr a n) = {}" "V \<subseteq> {..<length st1}"
    and y: "rep b st1 y gy" "footprint st1 y \<subseteq> footprint st (arrAt st a ! i) \<union> V \<union> fresh st st1"
  shows "arrAt st1 a = arrAt st a"
    and "becomes b V st (HArr a n) (st1[a := ArrCell ((arrAt st1 a)[i := y])]) (HArr a n) (VArray (gs[i := gy]))"
proof -
  let ?xs = "arrAt st a"
  let ?st2 = "st1[a := ArrCell (?xs[i := y])]"
  have a: "a < length st" "n \<le> length ?xs" "length gs = n"
    using own by (auto simp: rep_HArr arrAt_def dest: list_all2_lengthD)
  have fa: "a \<in> footprint st (HArr a n)" by (simp add: addrOf_footprint)
  have len: "length st \<le> length st1" using ch by (simp add: changes_def)
  have x: "?xs ! i \<in> set (hChildren st (HArr a n))" using i a(2) by (auto simp: in_set_conv_nth)
  have "a \<notin> footprint st (?xs ! i)" using own_unshared [OF own] x by (auto simp: unshared_def)
  then have "st1 ! a = st ! a" using ch a(1) by (simp add: changes_def)
  then show same: "arrAt st1 a = ?xs" by (simp add: arrAt_def)
  have t: "take n ?xs = take i ?xs @ [?xs ! i] @ drop (Suc i) (take n ?xs)"
    using id_take_nth_drop [of i "take n ?xs"] i a(2) by (simp add: min_absorb1)
  have u: "?xs[i := y] = take i ?xs @ [y] @ drop (Suc i) (take n ?xs) @ drop n ?xs"
  proof -
    have "drop (Suc i) (take n ?xs) @ drop n ?xs = drop (Suc i) ?xs"
      using i a(2) append_take_drop_id [of n ?xs] by (metis Suc_leI drop_append diff_is_0_eq drop0 length_take min_absorb2)
    then show ?thesis using upd_conv_take_nth_drop [of i ?xs y] i a(2) by simp
  qed
  have g: "gs = take i gs @ [gs ! i] @ drop (Suc i) gs" using id_take_nth_drop [of i gs] i a(3) by simp
  have "rep b ?st2 (HArr a n) (VArray (take i gs @ [gy] @ drop (Suc i) gs))
      \<and> footprint ?st2 (HArr a n) \<subseteq> footprint st (HArr a n) \<union> V \<union> fresh st ?st2"
    using i a len by (intro arr_replace [OF own t g _ _ _ ch V, of b "[y]" "[gy]" ?st2 a "drop n ?xs" n]) (simp_all add: y u min_absorb1)
  moreover have "changes (footprint st (HArr a n)) st ?st2"
    by (rule changes_upd' [OF ch footprint_child [OF x] fa])
  ultimately show "becomes b V st (HArr a n) (st1[a := ArrCell ((arrAt st1 a)[i := y])]) (HArr a n) (VArray (gs[i := gy]))"
    unfolding same becomes_def using i a(3) by (simp add: upd_conv_take_nth_drop)
qed

text \<open>A sorted association list around a key.\<close>

lemma obj_split_all:
  fixes kvs :: "(string \<times> 'a) list"
  assumes "objOk kvs"
  shows "kvs = filter (\<lambda>p. fst p < t) kvs @ filter (\<lambda>p. fst p = t) kvs @ filter (\<lambda>p. t < fst p) kvs
    \<and> objSet t y kvs = filter (\<lambda>p. fst p < t) kvs @ [(t, y)] @ filter (\<lambda>p. t < fst p) kvs
    \<and> objDel t kvs = filter (\<lambda>p. fst p < t) kvs @ [] @ filter (\<lambda>p. t < fst p) kvs
    \<and> filter (\<lambda>p. fst p = t) kvs = (case map_of kvs t of None \<Rightarrow> [] | Some x \<Rightarrow> [(t, x)])"
  using assms
proof (induction kvs)
  case (Cons p kvs)
  obtain k v where p: "p = (k, v)" by force
  have ok: "objOk kvs" and lt: "\<forall>q \<in> set kvs. k < fst q" using Cons.prems by (auto simp: p objOk_Cons)
  show ?case
  proof (cases "t \<le> k")
    case True
    then have "\<forall>q \<in> set kvs. \<not> fst q < t \<and> fst q \<noteq> t \<and> t < fst q" using lt by fastforce
    then have "filter (\<lambda>p. fst p < t) kvs = []" "filter (\<lambda>p. fst p = t) kvs = []" "filter (\<lambda>p. t < fst p) kvs = kvs"
      "objDel t kvs = kvs" by (auto simp: filter_empty_conv objDel_def intro!: filter_True)
    moreover have "map_of kvs t = None" using \<open>filter (\<lambda>p. fst p = t) kvs = []\<close>
      by (auto simp: map_of_eq_None_iff filter_empty_conv)
    ultimately show ?thesis using True by (auto simp: p objDel_def)
  next
    case False
    then show ?thesis using Cons.IH [OF ok] by (auto simp: p objDel_def)
  qed
qed (auto simp: objDel_def)

lemmas obj_split = obj_split_all [THEN conjunct1]
lemmas objSet_split = obj_split_all [THEN conjunct2, THEN conjunct1]
lemmas objDel_split = obj_split_all [THEN conjunct2, THEN conjunct2, THEN conjunct1]
lemmas obj_key = obj_split_all [THEN conjunct2, THEN conjunct2, THEN conjunct2]

lemma list_all2_filter_fst:
  "list_all2 (\<lambda>p q. fst p = fst q \<and> R (snd p) (snd q)) kvs gs \<Longrightarrow>
     list_all2 (\<lambda>p q. fst p = fst q \<and> R (snd p) (snd q)) (filter (\<lambda>p. Q (fst p)) kvs) (filter (\<lambda>p. Q (fst p)) gs)"
  by (induction rule: list_all2_induct) auto

lemma keyed_map_of:
  "list_all2 (\<lambda>p q. fst p = fst q \<and> R (snd p) (snd q)) kvs gs \<Longrightarrow>
     (case map_of kvs t of None \<Rightarrow> map_of gs t = None | Some x \<Rightarrow> \<exists>g. map_of gs t = Some g \<and> R x g)"
proof (induction rule: list_all2_induct)
  case (Cons p ps q qs)
  obtain a x y where "p = (a, x)" "q = (a, y)" "R x y" using Cons.hyps(1) by (cases p; cases q) auto
  then show ?case using Cons.IH by (cases "t = a") (simp_all split: option.splits)
qed simp

lemma keyed_objOk: "list_all2 (\<lambda>p q. fst p = fst q \<and> R (snd p) (snd q)) kvs gs \<Longrightarrow> objOk gs = objOk kvs"
proof -
  assume "list_all2 (\<lambda>p q. fst p = fst q \<and> R (snd p) (snd q)) kvs gs"
  then have "map fst kvs = map fst gs" by (induction rule: list_all2_induct) auto
  then show ?thesis by (simp add: objOk_def)
qed

lemma set_key:
  assumes own: "own st (HMap a) (VObject gs)"
    and M: "M = (case map_of (mapAt st a) t of None \<Rightarrow> {} | Some x \<Rightarrow> footprint st x)"
    and ch: "changes M st st1" and V: "V \<inter> footprint st (HMap a) = {}" "V \<subseteq> {..<length st1}"
    and y: "rep b st1 y gy" "footprint st1 y \<subseteq> M \<union> V \<union> fresh st st1"
  shows "mapAt st1 a = mapAt st a"
    and "becomes b V st (HMap a) (st1[a := MapCell (objSet t y (mapAt st1 a))]) (HMap a) (VObject (objSet t gy gs))"
proof -
  let ?kvs = "mapAt st a" and ?R = "\<lambda>p q. fst p = fst q \<and> own st (snd p) (snd q)"
  let ?st2 = "st1[a := MapCell (objSet t y ?kvs)]"
  have k: "a < length st" "objOk ?kvs" "list_all2 ?R ?kvs gs" using own by (auto simp: rep_HMap mapAt_def)
  have ok: "objOk gs" using k keyed_objOk [OF k(3)] by simp
  have fa: "a \<in> footprint st (HMap a)" by (simp add: addrOf_footprint)
  have x: "x \<in> set (hChildren st (HMap a))" if "map_of ?kvs t = Some x" for x
    using map_of_SomeD [OF that] by force
  have sub: "M \<subseteq> footprint st (HMap a)" using footprint_child [OF x] unfolding M by (auto split: option.splits)
  have "a \<notin> M" using own_unshared [OF own] x unfolding M by (auto simp: unshared_def split: option.splits)
  then have "st1 ! a = st ! a" using ch k(1) by (simp add: changes_def)
  then show same: "mapAt st1 a = ?kvs" by (simp add: mapAt_def)
  have len: "length (filter (\<lambda>p. Q (fst p)) gs) = length (filter (\<lambda>p. Q (fst p)) ?kvs)" for Q
    using list_all2_lengthD [OF list_all2_filter_fst [OF k(3)]] by simp
  have Mk: "M = (\<Union>m \<in> set (filter (\<lambda>p. fst p = t) ?kvs). footprint st (snd m))"
    unfolding M obj_key [OF k(2)] by (simp split: option.splits)
  have "rep b ?st2 (HMap a) (VObject (filter (\<lambda>p. fst p < t) gs @ [(t, gy)] @ filter (\<lambda>p. t < fst p) gs))
      \<and> footprint ?st2 (HMap a) \<subseteq> footprint st (HMap a) \<union> V \<union> fresh st ?st2"
  proof (rule map_replace [OF own obj_split [OF k(2)] obj_split [OF ok] len len Mk ch V])
    show "?st2 = st1[a := MapCell (filter (\<lambda>p. fst p < t) ?kvs @ [(t, y)] @ filter (\<lambda>p. t < fst p) ?kvs)]"
      by (simp add: objSet_split [OF k(2)])
    show "objOk (filter (\<lambda>p. fst p < t) ?kvs @ [(t, y)] @ filter (\<lambda>p. t < fst p) ?kvs)"
      using objOk_objSet [OF k(2), of t y] unfolding objSet_split [OF k(2)] .
  qed (use y in auto)
  moreover have "changes (footprint st (HMap a)) st ?st2" by (rule changes_upd' [OF ch sub fa])
  ultimately show "becomes b V st (HMap a) (st1[a := MapCell (objSet t y (mapAt st1 a))]) (HMap a) (VObject (objSet t gy gs))"
    unfolding same becomes_def objSet_split [OF ok] by simp
qed

text \<open>What \<^verbatim>\<open>setAt\<close> does in the store, and on trees.\<close>

lemma hSetLeaf_own:
  assumes own: "own st h g" and val: "rep b st val gv" and V: "footprint st val \<inter> footprint st h = {}"
  shows "case setLeaf g t gv lc ai of
      Inl e \<Rightarrow> hSetLeaf grow st h t val lc ai = (Inl e, st)
    | Inr g' \<Rightarrow> \<exists>h' st'. hSetLeaf grow st h t val lc ai = (Inr h', st') \<and> becomes b (footprint st val) st h st' h' g'"
  using own
proof (cases rule: rep.cases)
  case rep_val
  then show ?thesis by (cases g) (auto simp: setLeaf_def hSetLeaf_def)
next
  case (rep_arr a xs n gs)
  have len: "length gs = n" "n \<le> length (arrAt st a)" using rep_arr by (auto simp: arrAt_def dest: list_all2_lengthD)
  note own' = own [unfolded rep_arr(1,2)] and V' = V [unfolded rep_arr(1)]
  have vlim: "footprint st val \<subseteq> {..<length st}" using rep_footprint [OF val] .
  have A: "\<exists>h' st'. apfst Inr (hAppend grow st a n val) = (Inr h', st')
      \<and> becomes b (footprint st val) st h st' h' (VArray (gs @ [gv]))"
    using hAppend_own [OF own' val V', of grow] by (auto simp: rep_arr(1))
  have I: "\<exists>h' st'. apfst Inr (hInsert grow st a n i val) = (Inr h', st')
      \<and> becomes b (footprint st val) st h st' h' (VArray (insertAt i gv gs))" if "i \<le> n" for i
    using hInsert_own [OF own' val V' that, of grow] by (auto simp: rep_arr(1))
  have E: "becomes b (footprint st val) st h (st[a := ArrCell ((arrAt st a)[i := val])]) h (VArray (gs[i := gv]))" if "i < n" for i
    using set_elem(2) [OF own' that _ V' vlim val] by (auto simp: rep_arr(1))
  show ?thesis
    using A I E unfolding rep_arr(1,2) by (auto simp: setLeaf_def hSetLeaf_def Let_def len split: option.splits)
next
  case (rep_map a kvs gs)
  have k: "mapAt st a = kvs" using rep_map by (simp add: mapAt_def)
  have vlim: "footprint st val \<subseteq> {..<length st}" using rep_footprint [OF val] .
  have "becomes b (footprint st val) st h (st[a := MapCell (objSet t val (mapAt st a))]) h (VObject (objSet t gv gs))"
    using set_key(2) [OF own [unfolded rep_map(1,2)] refl _ V [unfolded rep_map(1)] vlim val] by (auto simp: rep_map(1))
  moreover have "map_of kvs t = None \<longleftrightarrow> map_of gs t = None"
    using keyed_map_of [OF rep_map(6), of t] by (auto split: option.splits)
  ultimately show ?thesis unfolding rep_map(1,2) by (auto simp: setLeaf_def hSetLeaf_def k)
qed

lemma hSetAt_own:
  assumes "own st h g" and "rep b st val gv" and "footprint st val \<inter> footprint st h = {}"
  shows "case setAt g ts gv cp lc ai of
      Inl e \<Rightarrow> \<exists>st'. hSetAt grow st h ts val cp lc ai = (Inl e, st') \<and> changes {} st st'
    | Inr g' \<Rightarrow> \<exists>h' st'. hSetAt grow st h ts val cp lc ai = (Inr h', st') \<and> becomes b (footprint st val) st h st' h' g'"
  using assms
proof (induction ts arbitrary: st h g)
  case Nil
  then show ?case by (simp add: becomes_def)
next
  case (Cons t ts)
  note own = Cons.prems(1) and val = Cons.prems(2) and V = Cons.prems(3)
  have vlim: "footprint st val \<subseteq> {..<length st}" using rep_footprint [OF val] .
  show ?case
  proof (cases "ts = []")
    case True
    show ?thesis using hSetLeaf_own [where t = t and lc = lc and ai = ai and grow = grow, OF own val V] True by (auto split: sum.splits)
  next
    case ts: False
    from own show ?thesis
    proof (cases rule: rep.cases)
      case rep_val
      then show ?thesis using ts by (cases g) auto
    next
      case (rep_arr a xs n gs)
      have xs: "arrAt st a = xs" and len: "length gs = n" using rep_arr by (auto simp: arrAt_def dest: list_all2_lengthD)
      note own' = own [unfolded rep_arr(1,2)]
      show ?thesis
      proof (cases "indexIn t n")
        case None
        then show ?thesis using ts len by (simp add: rep_arr(1,2))
      next
        case (Some i)
        have i: "i < n" using indexIn_lt [OF Some] .
        have c: "xs ! i \<in> set (hChildren st h)" using i rep_arr(1,5) xs by (auto simp: in_set_conv_nth)
        have oi: "own st (xs ! i) (gs ! i)" using list_all2_nthD [OF rep_arr(6), of i] i rep_arr(5) by simp
        have Vi: "footprint st val \<inter> footprint st (xs ! i) = {}" using V footprint_child [OF c] by blast
        note IH = Cons.IH [OF oi val Vi]
        show ?thesis
        proof (cases "setAt (gs ! i) ts gv cp lc ai")
          case (Inl e)
          then show ?thesis using IH Some ts len by (auto simp: rep_arr(1,2) xs)
        next
          case (Inr g1)
          obtain h1 st1 where h1: "hSetAt grow st (xs ! i) ts val cp lc ai = (Inr h1, st1)"
            "becomes b (footprint st val) st (xs ! i) st1 h1 g1" using IH Inr by auto
          have "becomes b (footprint st val) st h (st1[a := ArrCell ((arrAt st1 a)[i := h1])]) h (VArray (gs[i := g1]))"
            using h1(2) vlim V unfolding becomes_def rep_arr(1)
            by (intro set_elem(2) [OF own' i, unfolded becomes_def xs]) (auto simp: changes_def)
          then show ?thesis using h1(1) Inr Some ts len by (simp add: rep_arr(1,2) xs)
        qed
      qed
    next
      case (rep_map a kvs gs)
      have kv: "mapAt st a = kvs" using rep_map by (simp add: mapAt_def)
      note own' = own [unfolded rep_map(1,2)] and V' = V [unfolded rep_map(1)]
      have key: "case map_of kvs t of None \<Rightarrow> map_of gs t = None | Some x \<Rightarrow> \<exists>g. map_of gs t = Some g \<and> own st x g"
        using keyed_map_of [OF rep_map(6), of t] .
      show ?thesis
      proof (cases "map_of kvs t")
        case (Some x)
        then obtain gx where gx: "map_of gs t = Some gx" "own st x gx" using key by auto
        have "x \<in> set (hChildren st h)" using map_of_SomeD [OF Some] by (force simp: rep_map(1) kv)
        then have Vx: "footprint st val \<inter> footprint st x = {}" using V footprint_child by blast
        note IH = Cons.IH [OF gx(2) val Vx]
        show ?thesis
        proof (cases "setAt gx ts gv cp lc ai")
          case (Inl e)
          then show ?thesis using IH Some ts gx(1) by (auto simp: rep_map(1,2) kv)
        next
          case (Inr g1)
          obtain h1 st1 where h1: "hSetAt grow st x ts val cp lc ai = (Inr h1, st1)"
            "becomes b (footprint st val) st x st1 h1 g1" using IH Inr by auto
          have "becomes b (footprint st val) st h (st1[a := MapCell (objSet t h1 (mapAt st1 a))]) h (VObject (objSet t g1 gs))"
            using h1(2) vlim V Some unfolding becomes_def rep_map(1)
            by (intro set_key(2) [OF own' refl, of t, unfolded becomes_def kv]) (auto simp: changes_def)
          then show ?thesis using h1(1) Inr Some ts gx(1) by (simp add: rep_map(1,2) kv)
        qed
      next
        case None
        have gn: "map_of gs t = None" using key None by simp
        let ?st0 = "st @ [MapCell []]" and ?n = "HMap (length st)"
        have o0: "own ?st0 ?n (VObject [])" by (auto simp: rep_HMap unshared_def mapAt_def)
        have fn: "footprint ?st0 ?n = {length st}" by (subst footprint_eq) (simp add: mapAt_def)
        have fv: "footprint ?st0 val = footprint st val" using vlim by (intro footprint_frame) (auto simp: nth_append)
        have v0: "rep b ?st0 val gv" using vlim by (intro rep_frame [OF val]) (auto simp: nth_append)
        have "footprint ?st0 val \<inter> footprint ?st0 ?n = {}" unfolding fn fv using vlim by auto
        note IH = Cons.IH [OF o0 v0 this, unfolded fv]
        show ?thesis
        proof (cases "cp")
          case False
          then show ?thesis using None ts gn by (simp add: rep_map(1,2) kv)
        next
          case cp: True
          show ?thesis
          proof (cases "setAt (VObject []) ts gv cp lc ai")
            case (Inl e)
            then obtain st' where st': "hSetAt grow ?st0 ?n ts val cp lc ai = (Inl e, st')" "changes {} ?st0 st'" using IH by auto
            have "changes {} st st'" by (rule changes_trans [OF changes_snoc st'(2)]) simp
            then show ?thesis using Inl None ts gn cp st'(1) by (simp add: rep_map(1,2) kv)
          next
            case (Inr g1)
            obtain h1 st1 where h1: "hSetAt grow ?st0 ?n ts val cp lc ai = (Inr h1, st1)"
              "becomes b (footprint st val) ?st0 ?n st1 h1 g1" using IH Inr by auto
            have ch: "changes {} st st1"
              by (rule changes_trans [OF changes_snoc]) (use h1(2) fn in \<open>auto simp: becomes_def\<close>)
            have len: "length st < length st1" using h1(2) by (auto simp: becomes_def changes_def)
            have "becomes b (footprint st val) st h (st1[a := MapCell (objSet t h1 (mapAt st1 a))]) h (VObject (objSet t g1 gs))"
              unfolding rep_map(1)
            proof (rule set_key(2) [OF own' refl])
              show "footprint st1 h1 \<subseteq> (case map_of (mapAt st a) t of None \<Rightarrow> {} | Some x \<Rightarrow> footprint st x)
                  \<union> footprint st val \<union> fresh st st1"
                using h1(2) fn len by (fastforce simp: becomes_def)
            qed (use ch V' vlim len None kv h1(2) in \<open>auto simp: becomes_def\<close>)
            then show ?thesis using h1(1) Inr None ts gn cp by (simp add: rep_map(1,2) kv)
          qed
        qed
      qed
    qed
  qed
qed

text \<open>
  The value the caller keeps: a slice that was grown is in a new array, or its new element is past the length the
  caller has.
\<close>

definition hasRoom :: "store \<Rightarrow> hv \<Rightarrow> bool" where
  "hasRoom st h = (case h of HArr a n \<Rightarrow> n < length (arrAt st a) | _ \<Rightarrow> False)"

definition kept :: "store \<Rightarrow> hv \<Rightarrow> store \<Rightarrow> hv \<Rightarrow> bool" where
  "kept st h st' h' \<longleftrightarrow> h' = h \<or> (\<exists>a n. h = HArr a n \<and>
     (if hasRoom st h then h' = HArr a (n + 1) else (\<exists>c. st' = st @ [c] \<and> h' = HArr (length st) (n + 1))))"

lemma hAppend_kept: "hAppend grow st a n x = (h', st') \<Longrightarrow> kept st (HArr a n) st' h'"
  by (auto simp: hAppend_def kept_def hasRoom_def split: if_splits)

lemma hInsert_kept: "hInsert grow st a n i x = (h', st') \<Longrightarrow> kept st (HArr a n) st' h'"
  by (auto simp: hInsert_def hAppend_def kept_def hasRoom_def split: if_splits)

lemma hSetAt_kept: "hSetAt grow st h ts val cp lc ai = (Inr h', st') \<Longrightarrow> ts \<noteq> [] \<Longrightarrow> kept st h st' h'"
proof (cases ts)
  case (Cons t us)
  assume h: "hSetAt grow st h ts val cp lc ai = (Inr h', st')"
  show ?thesis
  proof (cases "us = []")
    case True
    have "kept st h st' h" by (simp add: kept_def)
    then show ?thesis using h True unfolding Cons
      by (auto simp: hSetLeaf_def Let_def apfst_def map_prod_def dest: hAppend_kept hInsert_kept
          split: hv.splits if_splits option.splits prod.splits)
  next
    case False
    then have "h' = h" using h unfolding Cons by (auto split: hv.splits option.splits prod.splits sum.splits if_splits)
    then show ?thesis by (simp add: kept_def)
  qed
qed simp

lemma footprint_take: "n \<le> m \<Longrightarrow> footprint st (HArr a n) \<subseteq> footprint st (HArr a m)"
  using set_take_subset_set_take [of n m "arrAt st a"] footprint_eq [of st "HArr a n"] footprint_eq [of st "HArr a m"] by auto

lemma rep_take:
  assumes "rep b st (HArr a m) (VArray ys)" and "n \<le> m"
  shows "rep b st (HArr a n) (VArray (take n ys))"
proof -
  let ?xs = "arrAt st a"
  have *: "a < length st" "st ! a = ArrCell ?xs" "m \<le> length ?xs" "list_all2 (rep b st) (take m ?xs) ys" "b \<Longrightarrow> unshared st (HArr a m)"
    using assms(1) by (auto simp: rep_HArr arrAt_def)
  have "list_all2 (rep b st) (take n (take m ?xs)) (take n ys)" by (rule list_all2_takeI [OF *(4)])
  moreover have "unshared st (HArr a n)" if "unshared st (HArr a m)"
  proof -
    have t: "take m ?xs = take n ?xs @ take (m - n) (drop n ?xs)" using assms(2) by (metis le_add_diff_inverse take_add)
    show ?thesis using that unfolding unshared_def hChildren.simps t by (simp add: sorted_wrt_append)
  qed
  ultimately show ?thesis using * assms(2) by (intro rep_arr) (auto simp: min_absorb1)
qed

lemma seenByCaller_rep:
  assumes "becomes b V st h st' h' g'" and "own st h g" and "kept st h st' h'"
  shows "rep b st' h (seenByCaller (hasRoom st h) g g') \<and> footprint st' h \<subseteq> footprint st h \<union> V \<union> fresh st st'"
proof (cases "h' = h")
  case True
  have "seenByCaller (hasRoom st h) g g' = g'"
    using assms(1,2) unfolding True becomes_def
    by (cases h) (auto simp: rep_HArr rep_HMap seenByCaller_def dest!: list_all2_lengthD split: gv.splits)
  then show ?thesis using assms(1) True by (simp add: becomes_def)
next
  case False
  then obtain a n where h: "h = HArr a n" and k: "if hasRoom st h then h' = HArr a (n + 1)
      else (\<exists>c. st' = st @ [c] \<and> h' = HArr (length st) (n + 1))" using assms(3) by (auto simp: kept_def)
  obtain gs where gs: "g = VArray gs" "length gs = n" "n \<le> length (arrAt st a)" using assms(2)
    by (auto simp: h rep_HArr arrAt_def dest: list_all2_lengthD)
  obtain ys where ys: "g' = VArray ys" "length ys = n + 1"
    using assms(1) k by (auto simp: becomes_def rep_HArr split: if_splits dest!: list_all2_lengthD)
  show ?thesis
  proof (cases "hasRoom st h")
    case True
    have r: "rep b st' (HArr a (n + 1)) (VArray ys)" using assms(1) k True ys by (simp add: becomes_def)
    have "footprint st' (HArr a n) \<subseteq> footprint st' (HArr a (n + 1))" by (rule footprint_take) simp
    then have "footprint st' h \<subseteq> footprint st h \<union> V \<union> fresh st st'"
      using assms(1) k True unfolding h becomes_def by auto
    then show ?thesis using rep_take [OF r, of n] True by (simp add: h gs ys seenByCaller_def)
  next
    case False
    then obtain c where c: "st' = st @ [c]" using k by auto
    have f: "footprint st h \<subseteq> {..<length st}" using rep_footprint [OF assms(2)] .
    then have "own st' h g" unfolding c by (intro rep_frame [OF assms(2)]) (auto simp: nth_append)
    then have "rep b st' h g" by (cases b) (auto intro: rep_weaken)
    moreover have "footprint st' h = footprint st h" unfolding c using f by (intro footprint_frame) (auto simp: nth_append)
    ultimately show ?thesis using False by (auto simp: gs ys seenByCaller_def)
  qed
qed

lemma hPointerSetMode_own:
  assumes "own st h g" and "rep b st val gv" and "footprint st val \<inter> footprint st h = {}"
  shows "case pointerSetMode (hasRoom st h) g ptr gv cp lc ai of
      Inl e \<Rightarrow> \<exists>st'. hPointerSetMode grow st h ptr val cp lc ai = (Inl e, st') \<and> changes {} st st'
    | Inr g' \<Rightarrow> \<exists>st'. hPointerSetMode grow st h ptr val cp lc ai = (Inr (), st') \<and> becomes b (footprint st val) st h st' h g'"
proof (cases "pointerTokens ptr")
  case (Inr ts)
  show ?thesis
  proof (cases "ts = []")
    case False
    note S = hSetAt_own [where ts = ts and cp = cp and lc = lc and ai = ai and grow = grow, OF assms]
    show ?thesis
    proof (cases "setAt g ts gv cp lc ai")
      case (Inl e)
      then show ?thesis using S False Inr by (auto simp: pointerSetMode_def hPointerSetMode_def)
    next
      case (Inr g')
      then obtain h' st' where h': "hSetAt grow st h ts val cp lc ai = (Inr h', st')"
        "becomes b (footprint st val) st h st' h' g'" using S by auto
      have "becomes b (footprint st val) st h st' h (seenByCaller (hasRoom st h) g g')"
        using seenByCaller_rep [OF h'(2) assms(1) hSetAt_kept [OF h'(1) False]] h'(2) by (simp add: becomes_def)
      then show ?thesis using Inr h'(1) False \<open>pointerTokens ptr = Inr ts\<close>
        by (simp add: pointerSetMode_def hPointerSetMode_def)
    qed
  qed (simp add: Inr pointerSetMode_def hPointerSetMode_def)
qed (simp add: pointerSetMode_def hPointerSetMode_def)

section \<open>Removing\<close>

lemma drop_key:
  assumes own: "own st (HMap a) (VObject gs)"
  shows "becomes True {} st (HMap a) (st[a := MapCell (objDel t (mapAt st a))]) (HMap a) (VObject (objDel t gs))"
proof -
  let ?kvs = "mapAt st a" and ?R = "\<lambda>p q. fst p = fst q \<and> own st (snd p) (snd q)"
  let ?st2 = "st[a := MapCell (objDel t ?kvs)]"
  have k: "a < length st" "objOk ?kvs" "list_all2 ?R ?kvs gs" using own by (auto simp: rep_HMap mapAt_def)
  have ok: "objOk gs" using k keyed_objOk [OF k(3)] by simp
  have len: "length (filter (\<lambda>p. Q (fst p)) gs) = length (filter (\<lambda>p. Q (fst p)) ?kvs)" for Q
    using list_all2_lengthD [OF list_all2_filter_fst [OF k(3)]] by simp
  have "rep True ?st2 (HMap a) (VObject (filter (\<lambda>p. fst p < t) gs @ [] @ filter (\<lambda>p. t < fst p) gs))
      \<and> footprint ?st2 (HMap a) \<subseteq> footprint st (HMap a) \<union> {} \<union> fresh st ?st2"
  proof (rule map_replace [OF own obj_split [OF k(2)] obj_split [OF ok] len len refl changes_refl])
    show "?st2 = st[a := MapCell (filter (\<lambda>p. fst p < t) ?kvs @ [] @ filter (\<lambda>p. t < fst p) ?kvs)]"
      by (simp add: objDel_split [OF k(2)])
    show "objOk (filter (\<lambda>p. fst p < t) ?kvs @ [] @ filter (\<lambda>p. t < fst p) ?kvs)"
      using objOk_objDel [OF k(2), of t] unfolding objDel_split [OF k(2)] .
  qed auto
  moreover have "changes (footprint st (HMap a)) st ?st2" by (rule changes_upd) (simp add: addrOf_footprint)
  ultimately show ?thesis unfolding becomes_def objDel_split [OF ok] by simp
qed

text \<open>An array element goes: what the shorter slice holds, and what the old one does.\<close>

lemma drop_elem:
  assumes own: "own st (HArr a n) (VArray gs)" and i: "i < n"
  shows "becomes True {} st (HArr a n) (st[a := ArrCell (shiftDown i n (arrAt st a))]) (HArr a (n - 1)) (VArray (removeIdx i gs))"
    and "becomes False {} st (HArr a n) (st[a := ArrCell (shiftDown i n (arrAt st a))]) (HArr a n)
      (VArray (removeIdx i gs @ drop (n - 1) gs))"
proof -
  let ?xs = "arrAt st a"
  let ?st2 = "st[a := ArrCell (shiftDown i n ?xs)]"
  have a: "a < length st" "n \<le> length ?xs" "length gs = n" and all: "list_all2 (own st) (take n ?xs) gs"
    using own by (auto simp: rep_HArr arrAt_def dest: list_all2_lengthD)
  have fa: "a \<in> footprint st (HArr a n)" by (simp add: addrOf_footprint)
  have ch: "changes (footprint st (HArr a n)) st ?st2" by (rule changes_upd [OF fa])
  have t: "take n ?xs = take i ?xs @ [?xs ! i] @ drop (Suc i) (take n ?xs)"
    using id_take_nth_drop [of i "take n ?xs"] i a(2) by (simp add: min_absorb1)
  have g: "gs = take i gs @ [gs ! i] @ drop (Suc i) gs" using id_take_nth_drop [of i gs] i a(3) by simp
  have "rep True ?st2 (HArr a (n - 1)) (VArray (take i gs @ [] @ drop (Suc i) gs))
      \<and> footprint ?st2 (HArr a (n - 1)) \<subseteq> footprint st (HArr a n) \<union> {} \<union> fresh st ?st2"
    using i a by (intro arr_replace [OF own t g _ _ refl changes_refl, of "{}" True "[]" "[]" ?st2 a "drop (n - 1) ?xs" "n - 1"])
      (simp_all add: shiftDown_def removeIdx_def min_absorb1)
  then show "becomes True {} st (HArr a n) ?st2 (HArr a (n - 1)) (VArray (removeIdx i gs))"
    using ch by (simp add: becomes_def removeIdx_def)
  have kid: "footprint ?st2 x = footprint st x \<and> (own st x gx \<longrightarrow> rep False ?st2 x gx)" if "x \<in> set (take n ?xs)" for x gx
  proof -
    have na: "a \<notin> footprint st x" using own_unshared [OF own] that by (simp add: unshared_def)
    have "footprint st x \<subseteq> {..<length st}" using footprint_child [of x st "HArr a n"] that rep_footprint [OF own] by auto
    then have keep: "c < length ?st2 \<and> ?st2 ! c = st ! c" if "c \<in> footprint st x" for c
      using that by (cases "c = a") (use na in auto)
    have "footprint ?st2 x = footprint st x" using keep by (intro footprint_frame) blast
    moreover have "own st x gx \<longrightarrow> own ?st2 x gx" using rep_frame [of True st x gx ?st2] keep by blast
    ultimately show ?thesis by (auto intro: rep_weaken)
  qed
  have all': "list_all2 (rep False ?st2) (take n ?xs) gs"
    using all by (rule list.rel_mono_strong) (use kid in blast)
  have tk: "take n (shiftDown i n ?xs) = removeIdx i (take n ?xs) @ drop (n - 1) (take n ?xs)"
    using i a(2) by (simp add: shiftDown_def removeIdx_def drop_take min_absorb1)
  have sub: "set (take n (shiftDown i n ?xs)) \<subseteq> set (take n ?xs)"
    unfolding tk removeIdx_def set_append by (intro Un_least set_take_subset set_drop_subset)
  have "list_all2 (rep False ?st2) (take n (shiftDown i n ?xs)) (removeIdx i gs @ drop (n - 1) gs)"
    unfolding tk removeIdx_def by (intro list_all2_appendI list_all2_takeI list_all2_dropI all')
  then have "rep False ?st2 (HArr a n) (VArray (removeIdx i gs @ drop (n - 1) gs))"
    by (intro rep_arr [where xs = "shiftDown i n ?xs"]) (use a i in \<open>auto simp: shiftDown_def removeIdx_def\<close>)
  moreover have "footprint ?st2 (HArr a n) \<subseteq> footprint st (HArr a n)"
  proof -
    have "footprint ?st2 x \<subseteq> footprint st (HArr a n)" if "x \<in> set (take n (shiftDown i n ?xs))" for x
      using kid [of x] footprint_child [of x st "HArr a n"] that sub by auto
    moreover have "hChildren ?st2 (HArr a n) = take n (shiftDown i n ?xs)" using a(1) by (simp add: arrAt_def)
    ultimately show ?thesis using fa by (subst footprint_eq) auto
  qed
  ultimately show "becomes False {} st (HArr a n) ?st2 (HArr a n) (VArray (removeIdx i gs @ drop (n - 1) gs))"
    using ch by (auto simp: becomes_def)
qed

lemma hRemoveAt_own:
  assumes "own st h g"
  shows "case removeAt g ts of
      Inl e \<Rightarrow> hRemoveAt st h ts = (Inl e, st)
    | Inr g' \<Rightarrow> \<exists>h' st'. hRemoveAt st h ts = (Inr h', st') \<and> becomes True {} st h st' h' g'
        \<and> becomes False {} st h st' h (seenByCaller False g g')"
  using assms
proof (induction ts arbitrary: st h g)
  case Nil
  have "seenByCaller False g g = g" by (cases g) (auto simp: seenByCaller_def)
  then show ?case using Nil by (auto simp: becomes_def intro: rep_weaken)
next
  case (Cons t ts)
  note own = Cons.prems
  have same: "becomes False {} st h st1 h (seenByCaller False g g')"
    if "becomes True {} st h st1 h g'" "seenByCaller False g g' = g'" for st1 g'
    using that by (auto simp: becomes_def intro: rep_weaken)
  from own show ?case
  proof (cases rule: rep.cases)
    case rep_val
    then show ?thesis by (cases g) auto
  next
    case (rep_arr a xs n gs)
    have xs: "arrAt st a = xs" and len: "length gs = n" using rep_arr by (auto simp: arrAt_def dest: list_all2_lengthD)
    note own' = own [unfolded rep_arr(1,2)]
    show ?thesis
    proof (cases "indexIn t n")
      case None
      then show ?thesis using len by (simp add: rep_arr(1,2))
    next
      case (Some i)
      have i: "i < n" using indexIn_lt [OF Some] .
      show ?thesis
      proof (cases "ts = []")
        case True
        have "removeIdx i gs @ drop (n - 1) gs = removeIdx i gs @ drop (length (removeIdx i gs)) gs"
          using i len by (simp add: removeIdx_def min_def)
        moreover have "n - 1 \<noteq> n" "\<not> n < n - 1" using i by auto
        ultimately show ?thesis using drop_elem [OF own' i] True Some len i
          by (simp add: rep_arr(1,2) xs seenByCaller_def removeIdx_def)
      next
        case ts: False
        have oi: "own st (xs ! i) (gs ! i)" using list_all2_nthD [OF rep_arr(6), of i] i rep_arr(5) by simp
        note IH = Cons.IH [OF oi]
        show ?thesis
        proof (cases "removeAt (gs ! i) ts")
          case (Inl e)
          then show ?thesis using IH Some ts len by (simp add: rep_arr(1,2) xs)
        next
          case (Inr g1)
          obtain h1 st1 where h1: "hRemoveAt st (xs ! i) ts = (Inr h1, st1)" "becomes True {} st (xs ! i) st1 h1 g1"
            using IH Inr by auto
          have b: "becomes True {} st h (st1[a := ArrCell ((arrAt st1 a)[i := h1])]) h (VArray (gs[i := g1]))"
            using h1(2) unfolding becomes_def rep_arr(1)
            by (intro set_elem(2) [OF own' i, unfolded becomes_def xs]) auto
          then show ?thesis using h1(1) Inr Some ts len same [OF b] by (simp add: rep_arr(1,2) xs seenByCaller_def)
        qed
      qed
    qed
  next
    case (rep_map a kvs gs)
    have kv: "mapAt st a = kvs" using rep_map by (simp add: mapAt_def)
    note own' = own [unfolded rep_map(1,2)]
    have key: "case map_of kvs t of None \<Rightarrow> map_of gs t = None | Some x \<Rightarrow> \<exists>g. map_of gs t = Some g \<and> own st x g"
      using keyed_map_of [OF rep_map(6), of t] .
    show ?thesis
    proof (cases "map_of kvs t")
      case None
      then show ?thesis using key by (simp add: rep_map(1,2) kv)
    next
      case (Some x)
      then obtain gx where gx: "map_of gs t = Some gx" "own st x gx" using key by auto
      show ?thesis
      proof (cases "ts = []")
        case True
        note b = drop_key [OF own', of t, unfolded kv, folded rep_map(1)]
        show ?thesis using b same [OF b] True Some gx(1) by (simp add: rep_map(1,2) kv seenByCaller_def)
      next
        case ts: False
        note IH = Cons.IH [OF gx(2)]
        show ?thesis
        proof (cases "removeAt gx ts")
          case (Inl e)
          then show ?thesis using IH Some ts gx(1) by (simp add: rep_map(1,2) kv)
        next
          case (Inr g1)
          obtain h1 st1 where h1: "hRemoveAt st x ts = (Inr h1, st1)" "becomes True {} st x st1 h1 g1"
            using IH Inr by auto
          have b: "becomes True {} st h (st1[a := MapCell (objSet t h1 (mapAt st1 a))]) h (VObject (objSet t g1 gs))"
            using h1(2) Some unfolding becomes_def rep_map(1)
            by (intro set_key(2) [OF own' refl, of t, unfolded becomes_def kv]) auto
          then show ?thesis using h1(1) Inr Some ts gx(1) same [OF b] by (simp add: rep_map(1,2) kv seenByCaller_def)
        qed
      qed
    qed
  qed
qed

lemma hPointerRemove_own:
  assumes "own st h g"
  shows "case pointerRemove g ptr of
      Inl e \<Rightarrow> hPointerRemove st h ptr = (Inl e, st)
    | Inr g' \<Rightarrow> \<exists>st'. hPointerRemove st h ptr = (Inr (), st') \<and> becomes False {} st h st' h g'"
  using hRemoveAt_own [OF assms, of "projr (pointerTokens ptr)"]
  by (auto simp: pointerRemove_def hPointerRemove_def split: sum.splits)

section \<open>Removing by a pattern\<close>

lemma sep_shrink: "sorted_wrt disjnt (map A xs) \<Longrightarrow> \<forall>x \<in> set xs. B x \<subseteq> A x \<Longrightarrow> sorted_wrt disjnt (map B xs)"
  by (induction xs) (auto simp: disjnt_def, blast)

text \<open>A loop body works in place on the unshared values whose tree satisfies the predicate.\<close>

definition inplace :: "(gv \<Rightarrow> bool) \<Rightarrow> (hv \<Rightarrow> store \<Rightarrow> store option) \<Rightarrow> (gv \<Rightarrow> gv) \<Rightarrow> bool" where
  "inplace P F f \<longleftrightarrow> (\<forall>st h g. own st h g \<longrightarrow> P g \<longrightarrow>
     (\<exists>st'. F h st = Some st' \<and> length st' = length st \<and> becomes True {} st h st' h (f g)))"

lemma inplaceD:
  "inplace P F f \<Longrightarrow> own st h g \<Longrightarrow> P g \<Longrightarrow>
     \<exists>st'. F h st = Some st' \<and> length st' = length st \<and> becomes True {} st h st' h (f g)"
  by (simp add: inplace_def)

lemma becomes_same: "own st h g \<Longrightarrow> becomes True {} st h st h g"
  by (simp add: becomes_def)

lemma own_arr_same:
  assumes own: "own st (HArr a n) (VArray gs)" and all: "list_all2 (own st1) (take n (arrAt st a)) gs'"
    and ch: "changes (\<Union>c \<in> set (take n (arrAt st a)). footprint st c) st st1" and len: "length st1 = length st"
    and fp: "\<forall>c \<in> set (take n (arrAt st a)). footprint st1 c \<subseteq> (\<Union>c \<in> set (take n (arrAt st a)). footprint st c)"
    and sep: "sorted_wrt disjnt (map (footprint st1) (take n (arrAt st a)))"
  shows "becomes True {} st (HArr a n) st1 (HArr a n) (VArray gs')"
proof -
  let ?xs = "arrAt st a"
  have a: "a < length st" "st ! a = ArrCell ?xs" "length gs = n" "n \<le> length ?xs"
    using own by (auto simp: rep_HArr arrAt_def dest: list_all2_lengthD)
  have "a \<notin> (\<Union>c \<in> set (take n ?xs). footprint st c)" using own_unshared [OF own] by (auto simp: unshared_def)
  then have "st1 ! a = st ! a" using ch a(1) by (simp add: changes_def)
  then have "rep True st1 (HArr a n) (VArray ([] @ gs' @ []))
      \<and> footprint st1 (HArr a n) \<subseteq> footprint st (HArr a n) \<union> {} \<union> fresh st st1"
    using a len fp by (intro arr_replace [where us = "[]" and gu = "[]" and ns = "take n ?xs" and a' = a and rest = "drop n ?xs",
      OF own _ _ _ _ refl ch _ _ all _ sep]) auto
  moreover have "changes (footprint st (HArr a n)) st st1"
  proof -
    have "(\<Union>c \<in> set (take n ?xs). footprint st c) \<subseteq> footprint st (HArr a n)" by (subst (2) footprint_eq) auto
    then show ?thesis by (rule changes_mono [OF ch])
  qed
  ultimately show ?thesis by (simp add: becomes_def)
qed

lemma own_map_same:
  assumes own: "own st (HMap a) (VObject gs)"
    and all: "list_all2 (\<lambda>p q. fst p = fst q \<and> own st1 (snd p) (snd q)) (mapAt st a) gs'"
    and ch: "changes (\<Union>p \<in> set (mapAt st a). footprint st (snd p)) st st1" and len: "length st1 = length st"
    and fp: "\<forall>p \<in> set (mapAt st a). footprint st1 (snd p) \<subseteq> (\<Union>p \<in> set (mapAt st a). footprint st (snd p))"
    and sep: "sorted_wrt disjnt (map (footprint st1) (map snd (mapAt st a)))"
  shows "becomes True {} st (HMap a) st1 (HMap a) (VObject gs')"
proof -
  let ?kvs = "mapAt st a"
  have a: "a < length st" "st ! a = MapCell ?kvs" "objOk ?kvs" "length gs = length ?kvs"
    using own by (auto simp: rep_HMap mapAt_def dest: list_all2_lengthD)
  have "a \<notin> (\<Union>p \<in> set ?kvs. footprint st (snd p))" using own_unshared [OF own] by (auto simp: unshared_def)
  then have "st1 ! a = st ! a" using ch a(1) by (simp add: changes_def)
  then have "st1 = st1[a := MapCell ([] @ ?kvs @ [])]" using a(2) by (metis append_Nil append_Nil2 list_update_id)
  then have "rep True st1 (HMap a) (VObject ([] @ gs' @ []))
      \<and> footprint st1 (HMap a) \<subseteq> footprint st (HMap a) \<union> {} \<union> fresh st st1"
    using a fp by (intro map_replace [where ku = "[]" and gu = "[]" and kn = "?kvs", OF own _ _ _ _ refl ch _ _ all _ sep]) auto
  moreover have "changes (footprint st (HMap a)) st st1"
  proof -
    have "(\<Union>p \<in> set ?kvs. footprint st (snd p)) \<subseteq> footprint st (HMap a)" by (subst (2) footprint_eq) auto
    then show ?thesis by (rule changes_mono [OF ch])
  qed
  ultimately show ?thesis by (simp add: becomes_def)
qed

lemma foldStore_own:
  assumes F: "inplace P F f"
  shows "list_all2 (own st) hs gs \<Longrightarrow> \<forall>g \<in> set gs. P g \<Longrightarrow> sorted_wrt disjnt (map (footprint st) hs) \<Longrightarrow>
    \<exists>st'. foldStore F hs st = Some st' \<and> length st' = length st \<and> list_all2 (own st') hs (map f gs)
      \<and> changes (\<Union>h \<in> set hs. footprint st h) st st' \<and> (\<forall>h \<in> set hs. footprint st' h \<subseteq> footprint st h)"
proof (induction hs gs arbitrary: st rule: list_induct2')
  case (4 h hs g gs)
  have hg: "own st h g" and hs: "list_all2 (own st) hs gs" and dis: "\<forall>c \<in> set hs. disjnt (footprint st h) (footprint st c)"
    and sep: "sorted_wrt disjnt (map (footprint st) hs)" using 4 by auto
  obtain st1 where st1: "F h st = Some st1" "length st1 = length st" "becomes True {} st h st1 h (f g)"
    using inplaceD [OF F hg] 4 by auto
  have keep: "st1 ! b = st ! b \<and> b < length st1" if "b \<in> footprint st c" "c \<in> set hs" for b c
  proof -
    have "footprint st c \<subseteq> {..<length st}" using list_all2_left [OF hs that(2)] rep_footprint by blast
    then show ?thesis using that dis st1 by (auto simp: becomes_def changes_def disjnt_def)
  qed
  have fp: "footprint st1 c = footprint st c" if "c \<in> set hs" for c using keep [OF _ that] by (intro footprint_frame) blast
  have "list_all2 (own st1) hs gs"
    using hs by (rule list.rel_mono_strong) (use keep in \<open>blast intro: rep_frame\<close>)
  moreover have "sorted_wrt disjnt (map (footprint st1) hs)" using sep fp by (simp cong: map_cong)
  ultimately obtain st' where st': "foldStore F hs st1 = Some st'" "length st' = length st1" "list_all2 (own st') hs (map f gs)"
    "changes (\<Union>h \<in> set hs. footprint st1 h) st1 st'" "\<forall>h \<in> set hs. footprint st' h \<subseteq> footprint st1 h"
    using "4.IH" [of st1] "4.prems"(2) by (metis list.set_intros(2))
  have U: "(\<Union>h \<in> set hs. footprint st1 h) = (\<Union>h \<in> set hs. footprint st h)" using fp by simp
  have sub: "footprint st1 h \<subseteq> footprint st h" using st1 by (simp add: becomes_def)
  have keep': "st' ! b = st1 ! b" if "b \<in> footprint st1 h" for b
  proof -
    have "b \<in> footprint st h" using that sub by blast
    then have "b \<notin> (\<Union>h \<in> set hs. footprint st h)" "b < length st1"
      using dis rep_footprint [OF hg] st1(2) by (auto simp: disjnt_def)
    then show ?thesis using st'(4) unfolding U by (simp add: changes_def)
  qed
  have "b < length st' \<and> st' ! b = st1 ! b" if "b \<in> footprint st1 h" for b
    using keep' [OF that] that sub rep_footprint [OF hg] st1(2) st'(2) by auto
  then have "own st' h (f g)" using rep_frame [of True st1 h "f g" st'] st1(3) by (simp add: becomes_def)
  moreover have "footprint st' h = footprint st1 h" using keep' by (rule footprint_frame)
  moreover have "changes (\<Union>h \<in> set (h # hs). footprint st h) st st'"
    using st1(2,3) st'(2,4) unfolding U by (auto simp: becomes_def changes_def)
  ultimately show ?case using st1(1,2) st' fp sub by auto
qed auto

lemma foldStore_children:
  assumes F: "inplace P F f" and own: "own st h g" and P: "\<forall>c \<in> set (immediateChildren g). P c"
  shows "\<exists>st'. foldStore F (hChildren st h) st = Some st' \<and> length st' = length st \<and> becomes True {} st h st' h (mapChildren f g)"
  using own
proof (cases rule: rep.cases)
  case rep_val
  then have "mapChildren f g = g" by (cases g) auto
  then show ?thesis using rep_val(1) becomes_same [OF own] by simp
next
  case (rep_arr a xs n gs)
  have xs: "arrAt st a = xs" using rep_arr by (simp add: arrAt_def)
  note own' = own [unfolded rep_arr(1,2)]
  have sep: "sorted_wrt disjnt (map (footprint st) (take n xs))" using own_unshared [OF own'] by (simp add: unshared_def xs)
  obtain st' where st': "foldStore F (take n xs) st = Some st'" "length st' = length st" "list_all2 (own st') (take n xs) (map f gs)"
    "changes (\<Union>h \<in> set (take n xs). footprint st h) st st'" "\<forall>h \<in> set (take n xs). footprint st' h \<subseteq> footprint st h"
    using foldStore_own [OF F rep_arr(6) _ sep] P by (auto simp: rep_arr(2) immediateChildren_def)
  have "sorted_wrt disjnt (map (footprint st') (take n xs))"
    by (rule sep_shrink [OF sep st'(5)])
  then have "becomes True {} st (HArr a n) st' (HArr a n) (VArray (map f gs))"
    by (intro own_arr_same [OF own', unfolded xs]) (use st' in auto)
  then show ?thesis using st'(1,2) by (simp add: rep_arr(1,2) xs)
next
  case (rep_map a kvs gs)
  have kv: "mapAt st a = kvs" using rep_map by (simp add: mapAt_def)
  note own' = own [unfolded rep_map(1,2)]
  have sep: "sorted_wrt disjnt (map (footprint st) (map snd kvs))"
    using own_unshared [OF own'] by (simp add: unshared_def kv)
  have all: "list_all2 (own st) (map snd kvs) (map snd gs)"
    using rep_map(6) by (simp add: list_all2_map1 list_all2_map2 list.rel_mono_strong)
  obtain st' where st': "foldStore F (map snd kvs) st = Some st'" "length st' = length st"
    "list_all2 (own st') (map snd kvs) (map f (map snd gs))"
    "changes (\<Union>h \<in> set (map snd kvs). footprint st h) st st'" "\<forall>h \<in> set (map snd kvs). footprint st' h \<subseteq> footprint st h"
    using foldStore_own [OF F all _ sep] P by (auto simp: rep_map(2) immediateChildren_def)
  have "sorted_wrt disjnt (map (footprint st') (map snd kvs))"
    by (rule sep_shrink [OF sep st'(5)])
  moreover have "list_all2 (\<lambda>p q. fst p = fst q \<and> own st' (snd p) (snd q)) kvs (map (\<lambda>(k, x). (k, f x)) gs)"
    using st'(3) rep_map(6) by (auto simp: list_all2_conv_all_nth split_beta)
  ultimately have "becomes True {} st (HMap a) st' (HMap a) (VObject (map (\<lambda>(k, x). (k, f x)) gs))"
    by (intro own_map_same [OF own', unfolded kv]) (use st' in auto)
  then show ?thesis using st'(1,2) by (simp add: rep_map(1,2) kv)
qed

lemma list_all2_right: "list_all2 P xs ys \<Longrightarrow> y \<in> set ys \<Longrightarrow> \<exists>x \<in> set xs. P x y"
  by (induction rule: list_all2_induct) auto

lemma card_child:
  assumes "own st h g" and "addrOf h = Some a" and "c \<in> set (hChildren st h)"
  shows "card (footprint st c) < card (footprint st h)"
proof (rule psubset_card_mono)
  show "finite (footprint st h)" using finite_subset [OF rep_footprint [OF assms(1)]] by simp
  show "footprint st c \<subset> footprint st h"
    using footprint_child [OF assms(3)] addrOf_footprint [OF assms(2), of st] own_unshared [OF assms(1)] assms(2,3)
    by (auto simp: unshared_def)
qed

lemma vdepth_card:
  assumes "\<forall>c \<in> set (immediateChildren g). vdepth c < k"
    and "k > 0"
  shows "vdepth g \<le> k"
  using assms vdepth_le_Suc [of g "k - 1"] by (auto simp: less_Suc_eq_le Suc_diff_Suc)

lemma own_depth: "own st h g \<Longrightarrow> vdepth g \<le> card (footprint st h)"
proof (induction rule: rep.induct)
  case (rep_val v)
  then show ?case by (cases v) auto
next
  case (rep_arr a xs n gs)
  let ?h = "HArr a n"
  have own: "own st ?h (VArray gs)"
    by (rule rep.rep_arr [OF rep_arr.hyps(1-3)]) (use rep_arr in \<open>auto elim: list.rel_mono_strong\<close>)
  have "vdepth g < card (footprint st ?h)" if g: "g \<in> set gs" for g
  proof -
    obtain c where "c \<in> set (take n xs)" "vdepth g \<le> card (footprint st c)" using list_all2_right [OF rep_arr.IH g] by blast
    then show ?thesis using card_child [OF own, of a c] rep_arr.hyps(2) by (simp add: arrAt_def)
  qed
  moreover have "0 < card (footprint st ?h)"
    using finite_subset [OF rep_footprint [OF own]] addrOf_footprint [of ?h a st] by (auto simp: card_gt_0_iff)
  ultimately show ?case by (intro vdepth_card) (simp_all add: immediateChildren_def)
next
  case (rep_map a kvs gs)
  let ?h = "HMap a"
  have own: "own st ?h (VObject gs)"
    by (rule rep.rep_map [OF rep_map.hyps(1-3)]) (use rep_map in \<open>auto elim: list.rel_mono_strong\<close>)
  have "vdepth (snd q) < card (footprint st ?h)" if q: "q \<in> set gs" for q
  proof -
    obtain p where "p \<in> set kvs" "vdepth (snd q) \<le> card (footprint st (snd p))" using list_all2_right [OF rep_map.IH q] by blast
    then show ?thesis using card_child [OF own, of a "snd p"] rep_map.hyps(2) by (simp add: mapAt_def)
  qed
  moreover have "0 < card (footprint st ?h)"
    using finite_subset [OF rep_footprint [OF own]] addrOf_footprint [of ?h a st] by (auto simp: card_gt_0_iff)
  ultimately show ?case by (intro vdepth_card) (auto simp: immediateChildren_def)
qed

lemma objSet_same: "objOk kvs \<Longrightarrow> map_of kvs t = Some x \<Longrightarrow> objSet t x kvs = kvs"
  using obj_split [of kvs t] objSet_split [of kvs t x] obj_key [of kvs t] by simp

lemma inplace_leaf: "inplace (\<lambda>_. True) (\<lambda>h st. Some (hRemovePatternLeaf st h t)) (\<lambda>g. removePatternLeaf g t)"
  unfolding inplace_def
proof (intro allI impI)
  fix st h g assume own: "own st h g"
  from own show "\<exists>st'. Some (hRemovePatternLeaf st h t) = Some st' \<and> length st' = length st
      \<and> becomes True {} st h st' h (removePatternLeaf g t)"
  proof (cases rule: rep.cases)
    case rep_val
    then have "removePatternLeaf g t = g" by (cases g) auto
    then show ?thesis using becomes_same [OF own] rep_val(1) by simp
  next
    case (rep_arr a xs n gs)
    have xs: "arrAt st a = xs" and len: "length gs = n" using rep_arr by (auto simp: arrAt_def dest: list_all2_lengthD)
    note own' = own [unfolded rep_arr(1,2)]
    have fa: "a \<in> footprint st (HArr a n)" by (simp add: addrOf_footprint)
    show ?thesis
    proof (cases "t = ''*'' \<or> t = ''**''")
      case True
      let ?st2 = "st[a := ArrCell (replicate n hnil @ drop n xs)]"
      have d: "sorted_wrt disjnt (replicate n ({} :: nat set))" by (induction n) (auto simp: disjnt_def)
      have "rep True ?st2 (HArr a n) (VArray ([] @ replicate n VNil @ []))
          \<and> footprint ?st2 (HArr a n) \<subseteq> footprint st (HArr a n) \<union> {} \<union> fresh st ?st2"
        using rep_arr(3-5) len d
        by (intro arr_replace [where us = "[]" and gu = "[]" and ws = "[]" and gw = "[]" and ns = "replicate n hnil" and a' = a
            and rest = "drop n xs", OF own' _ _ _ _ refl changes_refl]) (auto simp: xs list_all2_conv_all_nth)
      then show ?thesis using True changes_upd [OF fa] len by (simp add: rep_arr(1,2) xs becomes_def)
    next
      case False
      show ?thesis
      proof (cases "indexIn t n")
        case None
        then show ?thesis using False len becomes_same [OF own] by (simp add: rep_arr(1,2))
      next
        case (Some i)
        have i: "i < n" using indexIn_lt [OF Some] .
        let ?st2 = "st[a := ArrCell (removeIdx i (take n xs) @ hnil # drop n xs)]"
        have t: "take n (arrAt st a) = take i xs @ drop i (take n xs) @ []"
          using append_take_drop_id [of i "take n xs"] i rep_arr(5) by (simp add: min_absorb1 xs)
        have g: "gs = take i gs @ drop i gs @ []" by simp
        have all: "list_all2 (own st) (drop (Suc i) (take n xs) @ [hnil]) (drop (Suc i) gs @ [VNil])"
          by (intro list_all2_appendI list_all2_dropI rep_arr(6)) simp
        have "set (drop (Suc i) (take n xs)) \<subseteq> set (drop i (take n xs))" by (rule set_drop_subset_set_drop) simp
        then have f: "footprint st y \<subseteq> (\<Union>m \<in> set (drop i (take n xs)). footprint st m) \<union> {} \<union> fresh st st"
          if "y \<in> set (drop (Suc i) (take n xs) @ [hnil])" for y using that by auto
        have "sorted_wrt disjnt (map (footprint st) (take n xs))" using own_unshared [OF own'] by (simp add: unshared_def xs)
        then have "sorted_wrt disjnt (map (footprint st) (drop (Suc i) (take n xs)))"
          by (metis drop_map sorted_wrt_drop)
        then have d: "sorted_wrt disjnt (map (footprint st) (drop (Suc i) (take n xs) @ [hnil]))"
          by (simp add: sorted_wrt_append disjnt_def)
        have "rep True ?st2 (HArr a n) (VArray (take i gs @ (drop (Suc i) gs @ [VNil]) @ []))
            \<and> footprint ?st2 (HArr a n) \<subseteq> footprint st (HArr a n) \<union> {} \<union> fresh st ?st2"
          using rep_arr(3-5) len i
          by (intro arr_replace [where us = "take i xs" and ns = "drop (Suc i) (take n xs) @ [hnil]" and a' = a
              and rest = "drop n xs", OF own' t g _ _ refl changes_refl _ _ all f d])
            (auto simp: removeIdx_def min_absorb1 xs)
        then show ?thesis using Some False changes_upd [OF fa] len by (simp add: rep_arr(1,2) xs becomes_def removeIdx_def)
      qed
    qed
  next
    case (rep_map a kvs gs)
    have kv: "mapAt st a = kvs" using rep_map by (simp add: mapAt_def)
    note own' = own [unfolded rep_map(1,2)]
    show ?thesis
    proof (cases "t = ''*'' \<or> t = ''**''")
      case True
      let ?st2 = "st[a := MapCell []]"
      have "rep True ?st2 (HMap a) (VObject ([] @ [] @ [])) \<and> footprint ?st2 (HMap a) \<subseteq> footprint st (HMap a) \<union> {} \<union> fresh st ?st2"
        by (intro map_replace [where ku = "[]" and gu = "[]" and kw = "[]" and gw = "[]" and kn = "[]", OF own' _ _ _ _ refl changes_refl])
          (use rep_map(6) in \<open>auto simp: kv dest: list_all2_lengthD\<close>)
      moreover have "changes (footprint st (HMap a)) st ?st2" by (rule changes_upd) (simp add: addrOf_footprint)
      ultimately show ?thesis using True by (auto simp: rep_map(1,2) becomes_def)
    next
      case False
      then show ?thesis using drop_key [OF own', of t] by (simp add: rep_map(1,2))
    qed
  qed
qed

lemma inplace_children: "inplace P F f \<Longrightarrow> inplace (\<lambda>g. \<forall>c \<in> set (immediateChildren g). P c) (\<lambda>h st. foldStore F (hChildren st h) st) (mapChildren f)"
  using foldStore_children unfolding inplace_def by blast

lemma becomes_trans:
  "becomes True {} st h st1 h g1 \<Longrightarrow> length st1 = length st \<Longrightarrow> becomes True {} st1 h st' h g' \<Longrightarrow> becomes True {} st h st' h g'"
  unfolding becomes_def using changes_trans [of "footprint st h" st st1 "footprint st1 h" st'] by auto

lemma inplace_deep:
  assumes F: "inplace (\<lambda>_. True) F f" and shr: "shrinking f"
  shows "inplace (\<lambda>g. vdepth g \<le> n) (hDeep n F) (everyLevel n f)"
proof (induction n)
  case 0
  show ?case unfolding inplace_def
  proof (intro allI impI)
    fix st h g assume own: "own st h g" and d: "vdepth g \<le> 0"
    obtain st' where st': "F h st = Some st'" "length st' = length st" "becomes True {} st h st' h (f g)"
      using inplaceD [OF F own] by blast
    have "vdepth (f g) = 0" using shr d by (metis le_zero_eq shrinking_def)
    then have "hChildren st' h = []" using st'(3) unfolding becomes_def
      by (cases h; cases "f g") (auto simp: rep_HArr rep_HMap)
    then show "\<exists>st'. hDeep 0 F h st = Some st' \<and> length st' = length st \<and> becomes True {} st h st' h (everyLevel 0 f g)"
      using st' by (simp add: hDeep.simps [of 0])
  qed
next
  case (Suc n)
  show ?case unfolding inplace_def
  proof (intro allI impI)
    fix st h g assume own: "own st h g" and d: "vdepth g \<le> Suc n"
    obtain st1 where st1: "F h st = Some st1" "length st1 = length st" "becomes True {} st h st1 h (f g)"
      using inplaceD [OF F own] by blast
    have "vdepth (f g) \<le> Suc n" using shr d by (metis order_trans shrinking_def)
    then have P: "\<forall>c \<in> set (immediateChildren (f g)). vdepth c \<le> n" by (simp add: vdepth_le_Suc)
    have "own st1 h (f g)" using st1(3) by (simp add: becomes_def)
    then obtain st' where st': "foldStore (hDeep n F) (hChildren st1 h) st1 = Some st'" "length st' = length st1"
      "becomes True {} st1 h st' h (mapChildren (everyLevel n f) (f g))"
      using foldStore_children [OF Suc.IH _ P] by blast
    then show "\<exists>st'. hDeep (Suc n) F h st = Some st' \<and> length st' = length st \<and> becomes True {} st h st' h (everyLevel (Suc n) f g)"
      using st1 becomes_trans [OF st1(3,2) st'(3)] by (simp add: hDeep.simps [of "Suc n"])
  qed
qed

lemma hRemovePatternAt_own: "inplace (\<lambda>_. True) (hRemovePatternAt ts) (removePatternAt ts)"
proof (induction ts)
  case Nil
  then show ?case by (simp add: inplace_def becomes_same)
next
  case (Cons t ts)
  consider "ts = []" | "ts \<noteq> []" "t = ''*''" | "ts \<noteq> []" "t = ''**''" | "ts \<noteq> []" "t \<noteq> ''*''" "t \<noteq> ''**''" by blast
  then show ?case
  proof cases
    case 1
    then show ?thesis using inplace_leaf [of t] by (simp add: inplace_def)
  next
    case 2
    then show ?thesis using inplace_children [OF Cons.IH] by (simp add: inplace_def)
  next
    case 3
    show ?thesis unfolding inplace_def
    proof (intro allI impI)
      fix st h g assume own: "own st h g"
      have "card (footprint st h) \<le> length st" using card_mono [OF _ rep_footprint [OF own]] by simp
      then have d: "vdepth g \<le> length st" using own_depth [OF own] by simp
      note shr = shrinking_removePatternAt [of ts]
      show "\<exists>st'. hRemovePatternAt (t # ts) h st = Some st' \<and> length st' = length st
          \<and> becomes True {} st h st' h (removePatternAt (t # ts) g)"
        using inplaceD [OF inplace_deep [OF Cons.IH shr] own d] everyLevel_enough [OF shr d] 3 by simp
    qed
  next
    case 4
    show ?thesis unfolding inplace_def
    proof (intro allI impI)
      fix st h g assume own: "own st h g"
      from own show "\<exists>st'. hRemovePatternAt (t # ts) h st = Some st' \<and> length st' = length st
          \<and> becomes True {} st h st' h (removePatternAt (t # ts) g)"
      proof (cases rule: rep.cases)
        case rep_val
        then show ?thesis using 4 becomes_same [OF own] by (cases g) auto
      next
        case (rep_arr a xs n gs)
        have xs: "arrAt st a = xs" and len: "length gs = n" using rep_arr by (auto simp: arrAt_def dest: list_all2_lengthD)
        note own' = own [unfolded rep_arr(1,2)]
        show ?thesis
        proof (cases "indexIn t n")
          case None
          then show ?thesis using 4 len becomes_same [OF own] by (simp add: rep_arr(1,2))
        next
          case (Some i)
          have i: "i < n" using indexIn_lt [OF Some] .
          have oi: "own st (xs ! i) (gs ! i)" using list_all2_nthD [OF rep_arr(6), of i] i rep_arr(5) by simp
          obtain st1 where st1: "hRemovePatternAt ts (xs ! i) st = Some st1" "length st1 = length st"
            "becomes True {} st (xs ! i) st1 (xs ! i) (removePatternAt ts (gs ! i))" using inplaceD [OF Cons.IH oi] by blast
          note R = set_elem [where b = True and V = "{}" and y = "xs ! i", OF own' i, unfolded xs]
          have c: "changes (footprint st (xs ! i)) st st1" "own st1 (xs ! i) (removePatternAt ts (gs ! i))"
            "footprint st1 (xs ! i) \<subseteq> footprint st (xs ! i) \<union> {} \<union> fresh st st1" using st1(3) by (auto simp: becomes_def)
          have same: "arrAt st1 a = xs" using R(1) [OF c(1) _ _ c(2,3)] by simp
          have "st1 ! a = ArrCell xs"
          proof -
            have "xs ! i \<in> set (take n xs)" using i rep_arr(5) by (auto simp: in_set_conv_nth)
            then have "a \<notin> footprint st (xs ! i)" using own_unshared [OF own'] by (simp add: unshared_def xs)
            then show ?thesis using c(1) rep_arr(3,4) by (simp add: changes_def)
          qed
          then have "st1[a := ArrCell ((arrAt st1 a)[i := xs ! i])] = st1" unfolding same by (metis list_update_id)
          then have "becomes True {} st h st1 h (VArray (gs[i := removePatternAt ts (gs ! i)]))"
            using R(2) [OF c(1) _ _ c(2,3)] by (simp add: rep_arr(1))
          then show ?thesis using 4 Some st1(1,2) len by (simp add: rep_arr(1,2) xs)
        qed
      next
        case (rep_map a kvs gs)
        have kv: "mapAt st a = kvs" using rep_map by (simp add: mapAt_def)
        note own' = own [unfolded rep_map(1,2)]
        have key: "case map_of kvs t of None \<Rightarrow> map_of gs t = None | Some x \<Rightarrow> \<exists>g. map_of gs t = Some g \<and> own st x g"
          using keyed_map_of [OF rep_map(6), of t] .
        show ?thesis
        proof (cases "map_of kvs t")
          case None
          then show ?thesis using 4 key becomes_same [OF own] by (simp add: rep_map(1,2) kv)
        next
          case (Some x)
          then obtain gx where gx: "map_of gs t = Some gx" "own st x gx" using key by auto
          obtain st1 where st1: "hRemovePatternAt ts x st = Some st1" "length st1 = length st"
            "becomes True {} st x st1 x (removePatternAt ts gx)" using inplaceD [OF Cons.IH gx(2)] by blast
          note R = set_key [where b = True and V = "{}" and y = x, OF own' refl, of t, unfolded kv Some option.case]
          have c: "changes (footprint st x) st st1" "own st1 x (removePatternAt ts gx)"
            "footprint st1 x \<subseteq> footprint st x \<union> {} \<union> fresh st st1" using st1(3) by (auto simp: becomes_def)
          have same: "mapAt st1 a = kvs" using R(1) [OF c(1) _ _ c(2,3)] by simp
          have "st1 ! a = MapCell kvs"
          proof -
            have "x \<in> set (hChildren st (HMap a))" using map_of_SomeD [OF Some] by (force simp: kv)
            then have "a \<notin> footprint st x" using own_unshared [OF own'] by (auto simp: unshared_def)
            then show ?thesis using c(1) rep_map(3,4) by (simp add: changes_def)
          qed
          then have "st1[a := MapCell (objSet t x (mapAt st1 a))] = st1"
            unfolding same objSet_same [OF rep_map(5) Some] by (metis list_update_id)
          then have "becomes True {} st h st1 h (VObject (objSet t (removePatternAt ts gx) gs))"
            using R(2) [OF c(1) _ _ c(2,3)] by (simp add: rep_map(1))
          then show ?thesis using 4 Some st1(1,2) gx(1) by (simp add: rep_map(1,2) kv)
        qed
      qed
    qed
  qed
qed

end
