(* ===== verification/StoreLevels.thy ===== *)
theory StoreLevels
  imports StoreRefine
begin

text \<open>
  No operation on the store builds a value that contains itself. Every cell has a level, the depth at which it stands in its
  document, and a container holds only containers of the next level: a value set at a path has the level of the path. So no path
  is longer than the number of cells, and reading a value and removing by a pattern end.
\<close>

section \<open>Levels\<close>

text \<open>A cell stays a map or an array, and an array does not get shorter.\<close>

fun grows :: "cell \<Rightarrow> cell \<Rightarrow> bool" where
  "grows (MapCell kvs) (MapCell kvs') = True"
| "grows (ArrCell xs) (ArrCell ys) = (length xs \<le> length ys)"
| "grows c c' = False"

lemma grows_refl [simp]: "grows c c"
  by (cases c) auto

lemma grows_trans: "grows c c' \<Longrightarrow> grows c' c'' \<Longrightarrow> grows c c''"
  by (cases c; cases c'; cases c'') auto

lemma grows_MapCell: "grows (MapCell kvs) c \<longleftrightarrow> (\<exists>kvs'. c = MapCell kvs')"
  by (cases c) auto

lemma grows_ArrCell: "grows (ArrCell xs) c \<longleftrightarrow> (\<exists>ys. c = ArrCell ys \<and> length xs \<le> length ys)"
  by (cases c) auto

definition levelAt :: "(nat \<Rightarrow> nat) \<Rightarrow> store \<Rightarrow> hv \<Rightarrow> nat \<Rightarrow> bool" where
  "levelAt lv st h d \<longleftrightarrow>
     (case h of
        HVal v \<Rightarrow> True
      | HMap a \<Rightarrow> a < length st \<and> lv a = d \<and> grows (MapCell []) (st ! a)
      | HArr a n \<Rightarrow> a < length st \<and> lv a = d \<and> grows (ArrCell (replicate n hnil)) (st ! a))"

definition cellVals :: "cell \<Rightarrow> hv list" where
  "cellVals c = (case c of MapCell kvs \<Rightarrow> map snd kvs | ArrCell xs \<Rightarrow> xs)"

definition leveled :: "(nat \<Rightarrow> nat) \<Rightarrow> store \<Rightarrow> bool" where
  "leveled lv st \<longleftrightarrow> (\<forall>a < length st. \<forall>c \<in> set (cellVals (st ! a)). levelAt lv st c (lv a + 1))"

lemma cell_simps [simp]: "cellVals (MapCell kvs) = map snd kvs" "cellVals (ArrCell xs) = xs"
  by (simp_all add: cellVals_def)

lemma levelAt_simps [simp]:
  "levelAt lv st (HVal v) d"
  "levelAt lv st (HMap a) d \<longleftrightarrow> a < length st \<and> lv a = d \<and> st ! a = MapCell (mapAt st a)"
  "levelAt lv st (HArr a n) d \<longleftrightarrow> a < length st \<and> lv a = d \<and> st ! a = ArrCell (arrAt st a) \<and> n \<le> length (arrAt st a)"
  by (auto simp: levelAt_def grows_MapCell grows_ArrCell mapAt_def arrAt_def split: cell.splits)

lemma levelAt_addr: "levelAt lv st h d \<Longrightarrow> addrOf h = Some a \<Longrightarrow> a < length st \<and> lv a = d"
  by (cases h) auto

lemma mapAt_vals: "snd ` set (mapAt st a) \<subseteq> set (cellVals (st ! a))"
  by (cases "st ! a") (auto simp: mapAt_def)

lemma arrAt_vals: "set (arrAt st a) \<subseteq> set (cellVals (st ! a))"
  by (cases "st ! a") (auto simp: arrAt_def)

lemma leveled_map: "leveled lv st \<Longrightarrow> a < length st \<Longrightarrow> p \<in> set (mapAt st a) \<Longrightarrow> levelAt lv st (snd p) (lv a + 1)"
  using mapAt_vals [of st a] by (auto simp: leveled_def)

lemma leveled_arr: "leveled lv st \<Longrightarrow> a < length st \<Longrightarrow> c \<in> set (arrAt st a) \<Longrightarrow> levelAt lv st c (lv a + 1)"
  using arrAt_vals [of st a] by (auto simp: leveled_def)

lemma leveled_child:
  "leveled lv st \<Longrightarrow> levelAt lv st h d \<Longrightarrow> c \<in> set (hChildren st h) \<Longrightarrow> levelAt lv st c (d + 1)"
  by (cases h) (auto dest: leveled_map leveled_arr in_set_takeD)

text \<open>Every level a store has, a later one has: new cells get a level, and no array gets shorter.\<close>

definition extends :: "(nat \<Rightarrow> nat) \<Rightarrow> store \<Rightarrow> (nat \<Rightarrow> nat) \<Rightarrow> store \<Rightarrow> bool" where
  "extends lv st lv' st' \<longleftrightarrow> length st \<le> length st' \<and> (\<forall>a < length st. lv' a = lv a \<and> grows (st ! a) (st' ! a))
     \<and> leveled lv' st'"

lemma extends_level: "extends lv st lv' st' \<Longrightarrow> levelAt lv st h d \<Longrightarrow> levelAt lv' st' h d"
  by (cases h) (auto simp: extends_def levelAt_def intro: grows_trans)

lemma extends_leveled: "extends lv st lv' st' \<Longrightarrow> leveled lv' st'"
  by (simp add: extends_def)

lemma extends_refl: "leveled lv st \<Longrightarrow> extends lv st lv st"
  by (simp add: extends_def)

lemma extends_trans: "extends lv st lv' st' \<Longrightarrow> extends lv' st' lv'' st'' \<Longrightarrow> extends lv st lv'' st''"
  unfolding extends_def by (metis order_trans less_le_trans grows_trans)

lemma levelAt_upd: "levelAt lv st h d \<Longrightarrow> grows (st ! a) x \<Longrightarrow> levelAt lv (st[a := x]) h d"
  unfolding levelAt_def by (cases h; cases "addrOf h = Some a") (auto intro: grows_trans)

lemma levelAt_snoc: "levelAt lv st h d \<Longrightarrow> levelAt (lv(length st := l)) (st @ [x]) h d"
  by (cases h) (auto simp: levelAt_def nth_append)

lemma extends_upd:
  assumes "leveled lv st" and "a < length st \<Longrightarrow> grows (st ! a) x \<and> (\<forall>c \<in> set (cellVals x). levelAt lv st c (lv a + 1))"
  shows "extends lv st lv (st[a := x])"
proof (cases "a < length st")
  case True
  have "levelAt lv (st[a := x]) c (lv b + 1)" if "b < length st" "c \<in> set (cellVals (st[a := x] ! b))" for b c
    using assms(1) assms(2) [OF True] that levelAt_upd [of lv st c "lv b + 1" a x]
    by (cases "b = a") (auto simp: leveled_def)
  moreover have "grows (st ! b) (st[a := x] ! b)" if "b < length st" for b
    using assms(2) [OF True] that by (cases "b = a") auto
  ultimately show ?thesis by (simp add: extends_def leveled_def)
qed (use assms(1) in \<open>simp add: extends_refl list_update_beyond\<close>)

lemma extends_snoc:
  assumes "leveled lv st" and "\<forall>c \<in> set (cellVals x). levelAt lv st c (d + 1)"
  shows "extends lv st (lv(length st := d)) (st @ [x])"
proof -
  have "levelAt (lv(length st := d)) (st @ [x]) c ((lv(length st := d)) b + 1)"
    if "b < length (st @ [x])" "c \<in> set (cellVals ((st @ [x]) ! b))" for b c
    using assms that levelAt_snoc by (cases "b < length st") (auto simp: leveled_def nth_append less_Suc_eq)
  then show ?thesis unfolding extends_def leveled_def by (auto simp: nth_append)
qed

section \<open>Reading\<close>

abbreviation above :: "(nat \<Rightarrow> nat) \<Rightarrow> store \<Rightarrow> nat \<Rightarrow> nat" where
  "above lv st d \<equiv> card {a. a < length st \<and> d \<le> lv a}"

lemma above_Suc: "a < length st \<Longrightarrow> lv a = d \<Longrightarrow> above lv st (d + 1) < above lv st d"
proof (rule psubset_card_mono)
  assume a: "a < length st" "lv a = d"
  then have "a \<in> {a. a < length st \<and> d \<le> lv a} - {a. a < length st \<and> d + 1 \<le> lv a}" by simp
  then show "{a. a < length st \<and> d + 1 \<le> lv a} \<subset> {a. a < length st \<and> d \<le> lv a}" by auto
qed simp

lemma above_le: "above lv st d \<le> length st"
  using card_mono [of "{..<length st}" "{a. a < length st \<and> d \<le> lv a}"] by auto

lemma optAll_Some: "\<forall>x \<in> set xs. \<exists>y. f x = Some y \<Longrightarrow> \<exists>ys. optAll f xs = Some ys"
  by (induction xs) (auto split: option.splits)

lemma optAll_iff: "optAll f xs = Some ys \<longleftrightarrow> list_all2 (\<lambda>x y. f x = Some y) xs ys"
proof (induction xs arbitrary: ys)
  case (Cons x xs)
  then show ?case by (cases ys) (auto simp: Cons.IH [symmetric] split: option.splits)
qed auto

lemma all2_unique:
  "list_all2 P xs gs \<Longrightarrow> list_all2 Q xs ys \<Longrightarrow> (\<And>x g y. P x g \<Longrightarrow> Q x y \<Longrightarrow> y = g) \<Longrightarrow> ys = gs"
proof (induction arbitrary: ys rule: list_all2_induct)
  case (Cons x xs g gs)
  then show ?case by (cases ys) auto
qed simp

lemma readVal_total:
  "leveled lv st \<Longrightarrow> levelAt lv st h d \<Longrightarrow> above lv st d \<le> n \<Longrightarrow> \<exists>g. readVal n st h = Some g"
proof (induction n arbitrary: h d)
  case 0
  then have "{a. a < length st \<and> d \<le> lv a} = {}" by simp
  then show ?case using 0(2) by (cases h) auto
next
  case (Suc n)
  have "\<exists>gs. optAll (readVal n st) (hChildren st h) = Some gs" if a: "addrOf h = Some a" for a
  proof -
    have "above lv st (d + 1) \<le> n" using above_Suc [of a st lv d] Suc.prems(3) levelAt_addr [OF Suc.prems(2) a] by simp
    then have "\<forall>c \<in> set (hChildren st h). \<exists>g. readVal n st c = Some g"
      using Suc.IH [OF Suc.prems(1) leveled_child [OF Suc.prems(1,2)]] by auto
    then show ?thesis by (rule optAll_Some)
  qed
  then show ?case by (cases h) fastforce+
qed

lemma readVal_rep: "rep b st h g \<Longrightarrow> readVal n st h = Some g' \<Longrightarrow> g' = g"
proof (induction arbitrary: n g' rule: rep.induct)
  case (rep_val v)
  then show ?case by (cases n) auto
next
  case (rep_arr a xs m gs)
  then obtain k ys where n: "n = Suc k" and ys: "list_all2 (\<lambda>x y. readVal k st x = Some y) (take m xs) ys" "g' = VArray ys"
    by (cases n) (auto simp: arrAt_def optAll_iff)
  have "ys = gs" by (rule all2_unique [OF rep_arr.IH ys(1)]) blast
  then show ?case using ys(2) by simp
next
  case (rep_map a kvs gs)
  then obtain k ys where n: "n = Suc k" and ys: "list_all2 (\<lambda>x y. readVal k st x = Some y) (map snd kvs) ys"
      "g' = VObject (zip (map fst kvs) ys)"
    by (cases n) (auto simp: mapAt_def optAll_iff)
  have ys': "list_all2 (\<lambda>p y. readVal k st (snd p) = Some y) kvs ys" using ys(1) by (simp add: list_all2_map1)
  have "list_all2 (\<lambda>p g. \<forall>n g'. readVal n st (snd p) = Some g' \<longrightarrow> g' = g) kvs (map snd gs)"
    unfolding list_all2_map2 using rep_map.IH by (rule list.rel_mono_strong) blast
  then have "ys = map snd gs" by (rule all2_unique [OF _ ys']) blast
  moreover have "map fst gs = map fst kvs" using rep_map.IH by (induction rule: list_all2_induct) auto
  ultimately have "map snd gs = ys" "map fst gs = map fst kvs" by auto
  then show ?case using ys(2) by (metis zip_map_fst_snd)
qed

lemma readAll_rep:
  assumes "leveled lv st" and "levelAt lv st h d" and "rep b st h g"
  shows "readAll st h = Some g"
  using readVal_total [OF assms(1,2) above_le] readVal_rep [OF assms(3)] by (auto simp: readAll_def)

section \<open>Loading\<close>

lemma load_levels:
  "loadVal cap v st = (h, st') \<Longrightarrow> leveled lv st \<Longrightarrow> \<exists>lv'. extends lv st lv' st' \<and> levelAt lv' st' h d"
  "loadVals cap vs st = (hs, st') \<Longrightarrow> leveled lv st \<Longrightarrow> \<exists>lv'. extends lv st lv' st' \<and> (\<forall>h \<in> set hs. levelAt lv' st' h d)"
  "loadKvs cap kvs st = (ks, st') \<Longrightarrow> leveled lv st \<Longrightarrow> \<exists>lv'. extends lv st lv' st' \<and> (\<forall>p \<in> set ks. levelAt lv' st' (snd p) d)"
proof (induction cap v st and cap vs st and cap kvs st arbitrary: h st' lv d and hs st' lv d and ks st' lv d
    rule: loadVal_loadVals_loadKvs.induct)
  case (1 cap vs st)
  obtain hs st1 where l: "loadVals cap vs st = (hs, st1)" by force
  obtain lv1 where lv1: "extends lv st lv1 st1" "\<forall>h \<in> set hs. levelAt lv1 st1 h (d + 1)" using "1.IH" [OF l "1.prems"(2), of "d + 1"] by blast
  have "extends lv1 st1 (lv1(length st1 := d)) (st1 @ [ArrCell (hs @ replicate (cap (length hs)) hnil)])"
    by (rule extends_snoc) (use lv1 in \<open>auto simp: extends_def\<close>)
  moreover have "levelAt (lv1(length st1 := d)) st' h d" using "1.prems"(1) l by (auto simp: arrAt_def)
  ultimately show ?case using "1.prems"(1) l extends_trans [OF lv1(1)] by (auto simp del: fun_upd_apply)
next
  case (2 cap kvs st)
  obtain ks st1 where l: "loadKvs cap kvs st = (ks, st1)" by force
  obtain lv1 where lv1: "extends lv st lv1 st1" "\<forall>p \<in> set ks. levelAt lv1 st1 (snd p) (d + 1)"
    using "2.IH" [OF l "2.prems"(2), of "d + 1"] by blast
  have "extends lv1 st1 (lv1(length st1 := d)) (st1 @ [MapCell ks])"
    by (rule extends_snoc) (use lv1 in \<open>auto simp: extends_def\<close>)
  moreover have "levelAt (lv1(length st1 := d)) st' h d" using "2.prems"(1) l by (auto simp: mapAt_def)
  ultimately show ?case using "2.prems"(1) l extends_trans [OF lv1(1)] by (auto simp del: fun_upd_apply)
next
  case (5 cap v vs st)
  obtain h1 st1 where l: "loadVal cap v st = (h1, st1)" by force
  obtain hs2 st2 where l2: "loadVals cap vs st1 = (hs2, st2)" by force
  obtain lv1 where lv1: "extends lv st lv1 st1" "levelAt lv1 st1 h1 d" using "5.IH"(1) [OF l "5.prems"(2)] by blast
  then have "leveled lv1 st1" by (simp add: extends_def)
  from "5.IH"(2) [OF l [symmetric] l2 this]
  obtain lv2 where lv2: "extends lv1 st1 lv2 st2" "\<forall>h \<in> set hs2. levelAt lv2 st2 h d" by blast
  show ?case using "5.prems"(1) l l2 lv2 extends_level [OF lv2(1) lv1(2)] extends_trans [OF lv1(1) lv2(1)]
    by (intro exI [of _ lv2]) auto
next
  case (7 cap k v kvs st)
  obtain h1 st1 where l: "loadVal cap v st = (h1, st1)" by force
  obtain hs2 st2 where l2: "loadKvs cap kvs st1 = (hs2, st2)" by force
  obtain lv1 where lv1: "extends lv st lv1 st1" "levelAt lv1 st1 h1 d" using "7.IH"(1) [OF l "7.prems"(2)] by blast
  then have "leveled lv1 st1" by (simp add: extends_def)
  from "7.IH"(2) [OF l [symmetric] l2 this]
  obtain lv2 where lv2: "extends lv1 st1 lv2 st2" "\<forall>p \<in> set hs2. levelAt lv2 st2 (snd p) d" by blast
  show ?case using "7.prems"(1) l l2 lv2 extends_level [OF lv2(1) lv1(2)] extends_trans [OF lv1(1) lv2(1)]
    by (intro exI [of _ lv2]) auto
qed (auto intro: extends_refl)

text \<open>An array in a new cell, over values in new cells.\<close>

lemma arr_cell_own:
  assumes IH: "list_all2 (own st1) hs vs" "changes {} st st1" "\<forall>h \<in> set hs. footprint st1 h \<subseteq> fresh st st1"
      "sorted_wrt disjnt (map (footprint st1) hs)"
    and r: "h = HArr (length st1) (length hs)" "st' = st1 @ [ArrCell (hs @ spare)]"
  shows "own st' h (VArray vs) \<and> changes {} st st' \<and> footprint st' h \<subseteq> fresh st st'"
proof -
  have fp: "footprint st' c = footprint st1 c" if "c \<in> set hs" for c
    using list_all2_left [OF IH(1) that] changes_frame(2) [OF _ changes_snoc] r(2) by blast
  have "list_all2 (own st') hs vs"
    using IH(1) by (rule list.rel_mono_strong) (use changes_frame(1) [OF _ changes_snoc] r(2) in blast)
  moreover have kids: "hChildren st' h = hs" by (simp add: r arrAt_def)
  moreover have "unshared st' h" unfolding unshared_def kids
    using fp IH(3,4) by (fastforce simp: r(1) cong: map_cong)
  ultimately have "own st' h (VArray vs)" unfolding r by (intro rep_arr) auto
  moreover have "footprint st' h \<subseteq> fresh st st'"
    unfolding footprint_eq [of st' h] kids using fp IH(2,3) by (fastforce simp: r changes_def)
  ultimately show ?thesis using changes_trans [OF IH(2) changes_snoc] r(2) by auto
qed

lemma load_own:
  "loadVal cap v st = (h, st') \<Longrightarrow> wfv v \<Longrightarrow> own st' h v \<and> changes {} st st' \<and> footprint st' h \<subseteq> fresh st st'"
  "loadVals cap vs st = (hs, st') \<Longrightarrow> list_all wfv vs \<Longrightarrow> list_all2 (own st') hs vs \<and> changes {} st st'
     \<and> (\<forall>h \<in> set hs. footprint st' h \<subseteq> fresh st st') \<and> sorted_wrt disjnt (map (footprint st') hs)"
  "loadKvs cap kvs st = (ks, st') \<Longrightarrow> list_all (\<lambda>(k, v). wfv v) kvs \<Longrightarrow>
     list_all2 (\<lambda>p q. fst p = fst q \<and> own st' (snd p) (snd q)) ks kvs \<and> changes {} st st'
     \<and> (\<forall>p \<in> set ks. footprint st' (snd p) \<subseteq> fresh st st') \<and> sorted_wrt disjnt (map (footprint st') (map snd ks))"
proof (induction cap v st and cap vs st and cap kvs st arbitrary: h st' and hs st' and ks st'
    rule: loadVal_loadVals_loadKvs.induct)
  case (1 cap vs st)
  obtain hs st1 where l: "loadVals cap vs st = (hs, st1)" by force
  have "list_all2 (own st1) hs vs \<and> changes {} st st1 \<and> (\<forall>h \<in> set hs. footprint st1 h \<subseteq> fresh st st1)
      \<and> sorted_wrt disjnt (map (footprint st1) hs)" using "1.IH" [OF l] "1.prems"(2) by simp
  moreover have "h = HArr (length st1) (length hs)" "st' = st1 @ [ArrCell (hs @ replicate (cap (length hs)) hnil)]"
    using "1.prems"(1) l by auto
  ultimately show ?case by (intro arr_cell_own) simp_all
next
  case (2 cap kvs st)
  obtain ks st1 where l: "loadKvs cap kvs st = (ks, st1)" by force
  let ?st' = "st1 @ [MapCell ks]"
  have IH: "list_all2 (\<lambda>p q. fst p = fst q \<and> own st1 (snd p) (snd q)) ks kvs" "changes {} st st1"
    "\<forall>p \<in> set ks. footprint st1 (snd p) \<subseteq> fresh st st1" "sorted_wrt disjnt (map (footprint st1) (map snd ks))"
    using "2.IH" [OF l] "2.prems"(2) by auto
  have r: "h = HMap (length st1)" "st' = ?st'" using "2.prems"(1) l by auto
  have fp: "footprint ?st' (snd p) = footprint st1 (snd p)" if "p \<in> set ks" for p
    using list_all2_left [OF IH(1) that] changes_frame(2) [OF _ changes_snoc] by blast
  have "list_all2 (\<lambda>p q. fst p = fst q \<and> own ?st' (snd p) (snd q)) ks kvs"
    using IH(1) by (rule list.rel_mono_strong) (use changes_frame(1) [OF _ changes_snoc] in blast)
  moreover have ch: "hChildren ?st' h = map snd ks" by (simp add: r mapAt_def)
  moreover have "unshared ?st' h"
  proof -
    have m: "map (footprint ?st') (map snd ks) = map (footprint st1) (map snd ks)" using fp by simp
    have "\<forall>c \<in> set (map snd ks). length st1 \<notin> footprint ?st' c" using fp IH(3) by fastforce
    then show ?thesis unfolding unshared_def ch m using IH(4) by (simp add: r)
  qed
  moreover have "objOk ks" using keyed_objOk [OF IH(1)] "2.prems"(2) by simp
  ultimately have "own ?st' h (VObject kvs)" unfolding r by (intro rep_map) auto
  moreover have "footprint ?st' h \<subseteq> fresh st ?st'"
    unfolding footprint_eq [of ?st' h] ch using fp IH(2,3) by (fastforce simp: r changes_def)
  ultimately show ?case using changes_trans [OF IH(2) changes_snoc] r by auto
next
  case (5 cap v vs st)
  obtain h1 st1 where l: "loadVal cap v st = (h1, st1)" by force
  obtain hs2 st2 where l2: "loadVals cap vs st1 = (hs2, st2)" by force
  have IH1: "own st1 h1 v" "changes {} st st1" "footprint st1 h1 \<subseteq> fresh st st1" using "5.IH"(1) [OF l] "5.prems"(2) by auto
  have IH2: "list_all2 (own st2) hs2 vs" "changes {} st1 st2" "\<forall>h \<in> set hs2. footprint st2 h \<subseteq> fresh st1 st2"
    "sorted_wrt disjnt (map (footprint st2) hs2)" using "5.IH"(2) [OF l [symmetric] l2] "5.prems"(2) by auto
  have f: "own st2 h1 v" "footprint st2 h1 = footprint st1 h1" using changes_frame [OF IH1(1) IH2(2)] by auto
  have "fresh st st1 \<inter> fresh st1 st2 = {}" by auto
  then have "\<forall>c \<in> set hs2. disjnt (footprint st2 h1) (footprint st2 c)" using f(2) IH1(3) IH2(3) unfolding disjnt_def by blast
  moreover have "length st \<le> length st1" "length st1 \<le> length st2" using IH1(2) IH2(2) by (simp_all add: changes_def)
  then have "fresh st st1 \<subseteq> fresh st st2" "fresh st1 st2 \<subseteq> fresh st st2" by auto
  then have "\<forall>h \<in> set (h1 # hs2). footprint st2 h \<subseteq> fresh st st2" using f(2) IH1(3) IH2(3) by (simp, blast)
  moreover have r: "hs = h1 # hs2" "st' = st2" using "5.prems"(1) l l2 by auto
  ultimately show ?case unfolding r using IH2 f(1) changes_trans [OF IH1(2) IH2(2)] by simp
next
  case (7 cap k v kvs st)
  obtain h1 st1 where l: "loadVal cap v st = (h1, st1)" by force
  obtain hs2 st2 where l2: "loadKvs cap kvs st1 = (hs2, st2)" by force
  have IH1: "own st1 h1 v" "changes {} st st1" "footprint st1 h1 \<subseteq> fresh st st1" using "7.IH"(1) [OF l] "7.prems"(2) by auto
  have IH2: "list_all2 (\<lambda>p q. fst p = fst q \<and> own st2 (snd p) (snd q)) hs2 kvs" "changes {} st1 st2"
    "\<forall>p \<in> set hs2. footprint st2 (snd p) \<subseteq> fresh st1 st2" "sorted_wrt disjnt (map (footprint st2) (map snd hs2))"
    using "7.IH"(2) [OF l [symmetric] l2] "7.prems"(2) by auto
  have f: "own st2 h1 v" "footprint st2 h1 = footprint st1 h1" using changes_frame [OF IH1(1) IH2(2)] by auto
  have "fresh st st1 \<inter> fresh st1 st2 = {}" by auto
  then have "\<forall>p \<in> set hs2. disjnt (footprint st2 h1) (footprint st2 (snd p))" using f(2) IH1(3) IH2(3)
    unfolding disjnt_def by blast
  moreover have "length st \<le> length st1" "length st1 \<le> length st2" using IH1(2) IH2(2) by (simp_all add: changes_def)
  then have "fresh st st1 \<subseteq> fresh st st2" "fresh st1 st2 \<subseteq> fresh st st2" by auto
  then have "\<forall>p \<in> set ((k, h1) # hs2). footprint st2 (snd p) \<subseteq> fresh st st2" using f(2) IH1(3) IH2(3) by (simp, blast)
  moreover have r: "ks = (k, h1) # hs2" "st' = st2" using "7.prems"(1) l l2 by auto
  ultimately show ?case unfolding r using IH2 f(1) changes_trans [OF IH1(2) IH2(2)] by simp
qed auto

section \<open>The operations keep the levels\<close>


lemma hGetAt_level:
  "leveled lv st \<Longrightarrow> levelAt lv st h d \<Longrightarrow> hGetAt st h ts = Some x \<Longrightarrow> levelAt lv st x (d + length ts)"
proof (induction ts arbitrary: h d)
  case (Cons t ts)
  have "\<exists>c \<in> set (hChildren st h). hGetAt st c ts = Some x"
  proof (cases h)
    case (HMap a)
    then show ?thesis using Cons.prems(3) by (auto split: option.splits dest!: map_of_SomeD) force
  next
    case (HArr a n)
    then obtain i where i: "indexIn t n = Some i" "hGetAt st (arrAt st a ! i) ts = Some x"
      using Cons.prems(3) by (auto split: option.splits)
    then have "i < n" "n \<le> length (arrAt st a)" using Cons.prems(2) by (auto simp: HArr dest: indexIn_lt)
    then have "arrAt st a ! i \<in> set (hChildren st h)" by (auto simp: HArr in_set_conv_nth)
    then show ?thesis using i(2) by blast
  qed (use Cons.prems(3) in auto)
  then show ?case using Cons.IH [OF Cons.prems(1) leveled_child [OF Cons.prems(1,2)]] by fastforce
qed simp

lemma objSet_vals: "snd ` set (objSet t x kvs) \<subseteq> insert x (snd ` set kvs)"
  using image_mono [OF set_objSet_subset, of snd t x kvs] by simp

lemma set_key_level:
  assumes "leveled lv st" and "levelAt lv st (HMap a) d" and "levelAt lv st x (d + 1)"
  shows "extends lv st lv (st[a := MapCell (objSet t x (mapAt st a))])"
proof (rule extends_upd [OF assms(1)])
  assume a: "a < length st"
  have "levelAt lv st c (lv a + 1)" if "c \<in> snd ` set (objSet t x (mapAt st a))" for c
    using that objSet_vals [of t x "mapAt st a"] assms(2,3) leveled_map [OF assms(1) a] by auto
  then show "grows (st ! a) (MapCell (objSet t x (mapAt st a)))
      \<and> (\<forall>c \<in> set (cellVals (MapCell (objSet t x (mapAt st a)))). levelAt lv st c (lv a + 1))"
    using assms(2) by (auto simp: grows_MapCell)
qed

text \<open>An array cell is rewritten with elements it has, empty ones, and one value of the level.\<close>

lemma set_arr_level:
  assumes "leveled lv st" and "levelAt lv st (HArr a n) d" and "levelAt lv st x (d + 1)"
    and "set ys \<subseteq> {hnil, x} \<union> set (arrAt st a)" and "length (arrAt st a) \<le> length ys"
  shows "extends lv st lv (st[a := ArrCell ys])"
proof (rule extends_upd [OF assms(1)])
  assume a: "a < length st"
  have "levelAt lv st c (lv a + 1)" if "c \<in> set ys" for c
    using that assms(2-4) leveled_arr [OF assms(1) a] by auto
  moreover have "grows (st ! a) (ArrCell ys)" using assms(2,5) by (metis grows.simps(2) levelAt_simps(3))
  ultimately show "grows (st ! a) (ArrCell ys) \<and> (\<forall>c \<in> set (cellVals (ArrCell ys)). levelAt lv st c (lv a + 1))" by simp
qed

lemma hAppend_level:
  assumes "leveled lv st" and "levelAt lv st (HArr a n) d" and "levelAt lv st x (d + 1)"
    and "hAppend grow st a n x = (h', st')"
  shows "\<exists>lv'. extends lv st lv' st' \<and> levelAt lv' st' h' d"
proof (cases "n < length (arrAt st a)")
  case True
  let ?st' = "st[a := ArrCell ((arrAt st a)[n := x])]"
  have "set ((arrAt st a)[n := x]) \<subseteq> {hnil, x} \<union> set (arrAt st a)" by (auto dest: set_update_subset_insert [THEN subsetD])
  then have "extends lv st lv ?st'" by (intro set_arr_level [OF assms(1-3)]) auto
  moreover have "levelAt lv ?st' (HArr a (n + 1)) d" using True assms(2) by (auto simp: arrAt_def split: cell.splits)
  ultimately show ?thesis using assms(4) True by (auto simp: hAppend_def)
next
  case False
  let ?st' = "st @ [ArrCell (arrAt st a @ x # replicate (grow (n + 1)) hnil)]"
  have "extends lv st (lv(length st := d)) ?st'"
    by (rule extends_snoc [OF assms(1)]) (use assms(2,3) leveled_arr [OF assms(1), of a] in auto)
  moreover have "levelAt (lv(length st := d)) ?st' (HArr (length st) (n + 1)) d" using False assms(2) by (auto simp: arrAt_def)
  moreover have r: "h' = HArr (length st) (n + 1)" "st' = ?st'" using assms(4) False by (auto simp: hAppend_def)
  ultimately show ?thesis unfolding r by blast
qed

lemma set_insertAt: "set (insertAt i x xs) \<subseteq> insert x (set xs)"
  by (auto simp: insertAt_def dest: in_set_takeD in_set_dropD)

lemma hInsert_level:
  assumes "leveled lv st" and "levelAt lv st (HArr a n) d" and "levelAt lv st x (d + 1)"
    and "hInsert grow st a n i x = (h', st')"
  shows "\<exists>lv'. extends lv st lv' st' \<and> levelAt lv' st' h' d"
proof -
  obtain h1 st1 where ap: "hAppend grow st a n hnil = (h1, st1)" by force
  then obtain b where h1: "h1 = HArr b (n + 1)" by (auto simp: hAppend_def split: if_splits)
  obtain lv1 where lv1: "extends lv st lv1 st1" "levelAt lv1 st1 h1 d"
    using hAppend_level [OF assms(1,2) _ ap] by auto
  let ?ys = "insertAt i x (take n (arrAt st1 b)) @ drop (n + 1) (arrAt st1 b)"
  have r: "h' = h1" "st' = st1[b := ArrCell ?ys]" using assms(4) ap by (auto simp: hInsert_def h1)
  have len: "n + 1 \<le> length (arrAt st1 b)" using lv1(2) by (simp add: h1)
  have "set ?ys \<subseteq> {hnil, x} \<union> set (arrAt st1 b)"
    using set_insertAt [of i x "take n (arrAt st1 b)"] by (auto dest: in_set_takeD in_set_dropD)
  moreover have "length ?ys = length (arrAt st1 b)" using len by (simp add: insertAt_def)
  ultimately have "extends lv1 st1 lv1 st'" unfolding r
    using extends_leveled [OF lv1(1)] lv1(2) extends_level [OF lv1(1) assms(3)] by (intro set_arr_level) (auto simp: h1)
  then show ?thesis using extends_trans [OF lv1(1)] extends_level lv1(2) r(1) by blast
qed

lemma hSetLeaf_level:
  assumes "leveled lv st" and "levelAt lv st h d" and "levelAt lv st x (d + 1)"
    and "hSetLeaf grow st h t x lc ai = (r, st')"
  shows "\<exists>lv'. extends lv st lv' st' \<and> (\<forall>h'. r = Inr h' \<longrightarrow> levelAt lv' st' h' d)"
proof (cases h)
  case (HVal v)
  then show ?thesis using assms(1,4) by (auto simp: hSetLeaf_def intro: extends_refl)
next
  case (HMap a)
  note L = set_key_level [OF assms(1) assms(2) [unfolded HMap] assms(3), of t]
  show ?thesis
    using assms(1,4) extends_refl [OF assms(1)] L extends_level [OF L assms(2)]
    by (auto simp: hSetLeaf_def HMap simp del: levelAt_simps split: if_splits)
next
  case (HArr a n)
  note h = assms(2) [unfolded HArr]
  have A: "\<exists>lv'. extends lv st lv' st1 \<and> levelAt lv' st1 h1 d" if "hAppend grow st a n x = (h1, st1)" for h1 st1
    using hAppend_level [OF assms(1) h assms(3) that] .
  have I: "\<exists>lv'. extends lv st lv' st1 \<and> levelAt lv' st1 h1 d" if "hInsert grow st a n i x = (h1, st1)" for h1 st1 i
    using hInsert_level [OF assms(1) h assms(3) that] .
  have "set ((arrAt st a)[i := x]) \<subseteq> {hnil, x} \<union> set (arrAt st a)" for i by (auto dest: set_update_subset_insert [THEN subsetD])
  then have L: "extends lv st lv (st[a := ArrCell ((arrAt st a)[i := x])])" for i
    by (intro set_arr_level [OF assms(1) h assms(3)]) auto
  note L' = extends_level [OF L h]
  show ?thesis
    using assms(4) A I extends_refl [OF assms(1)] L L'
    by (auto simp: hSetLeaf_def HArr Let_def apfst_def map_prod_def simp del: levelAt_simps
        split: if_splits option.splits prod.splits; blast)
qed

lemma hSetAt_level:
  "leveled lv st \<Longrightarrow> levelAt lv st h d \<Longrightarrow> levelAt lv st x (d + length ts) \<Longrightarrow> hSetAt grow st h ts x cp lc ai = (r, st') \<Longrightarrow>
     \<exists>lv'. extends lv st lv' st' \<and> (\<forall>h'. r = Inr h' \<longrightarrow> levelAt lv' st' h' d)"
proof (induction ts arbitrary: lv st h d r st')
  case Nil
  then show ?case by (auto intro: extends_refl)
next
  case (Cons t ts)
  note lv = Cons.prems(1) and h = Cons.prems(2) and r = Cons.prems(4)
  have x: "levelAt lv st x (d + 1 + length ts)" using Cons.prems(3) by simp
  have none: ?case if "r = Inl ErrNotFound" "st' = st" using that extends_refl [OF lv] by auto
  show ?case
  proof (cases "ts = []")
    case True
    then show ?thesis using hSetLeaf_level [OF lv h _ r [unfolded hSetAt.simps True, simplified]] Cons.prems(3) by simp
  next
    case ts: False
    show ?thesis
    proof (cases h)
      case (HVal v)
      then show ?thesis using none r ts by auto
    next
      case (HMap a)
      have hm: "levelAt lv st (HMap a) d" using h HMap by simp
      have go: ?thesis if n: "extends lv st lv1 st1" "levelAt lv1 st1 n (d + 1)"
        and s: "(case hSetAt grow st1 n ts x cp lc ai of (Inl e, st) \<Rightarrow> (Inl e, st)
          | (Inr updated, st) \<Rightarrow> (Inr (HMap a), st[a := MapCell (objSet t updated (mapAt st a))])) = (r, st')" for lv1 st1 n
      proof -
        obtain r2 st2 where s2: "hSetAt grow st1 n ts x cp lc ai = (r2, st2)" by force
        from Cons.IH [OF extends_leveled [OF n(1)] n(2) extends_level [OF n(1) x] s2]
        obtain lv2 where lv2: "extends lv1 st1 lv2 st2" "\<forall>h'. r2 = Inr h' \<longrightarrow> levelAt lv2 st2 h' (d + 1)" by blast
        have e2: "extends lv st lv2 st2" by (rule extends_trans [OF n(1) lv2(1)])
        show ?thesis
        proof (cases r2)
          case (Inl e)
          then show ?thesis using e2 s s2 by auto
        next
          case (Inr u)
          have "extends lv2 st2 lv2 (st2[a := MapCell (objSet t u (mapAt st2 a))])"
            using lv2(2) Inr by (intro set_key_level [OF extends_leveled [OF e2] extends_level [OF e2 hm]]) auto
          then have e: "extends lv st lv2 (st2[a := MapCell (objSet t u (mapAt st2 a))])" by (rule extends_trans [OF e2])
          then show ?thesis using extends_level [OF e hm] s s2 Inr by (auto simp del: levelAt_simps)
        qed
      qed
      show ?thesis
      proof (cases "map_of (mapAt st a) t")
        case (Some n)
        have "n \<in> set (hChildren st h)" using map_of_SomeD [OF Some] by (force simp: HMap)
        then show ?thesis by (rule go [OF extends_refl [OF lv] leveled_child [OF lv h]]) (use r ts Some in \<open>simp add: HMap\<close>)
      next
        case None
        show ?thesis
        proof (cases cp)
          case True
          have "extends lv st (lv(length st := d + 1)) (st @ [MapCell []])" by (rule extends_snoc [OF lv]) simp
          moreover have "levelAt (lv(length st := d + 1)) (st @ [MapCell []]) (HMap (length st)) (d + 1)" by (simp add: mapAt_def)
          ultimately show ?thesis by (rule go) (use r ts None True in \<open>simp add: HMap\<close>)
        next
          case False
          then show ?thesis using none r ts None False by (auto simp: HMap)
        qed
      qed
    next
      case (HArr a n)
      have ha: "levelAt lv st (HArr a n) d" using h HArr by simp
      show ?thesis
      proof (cases "indexIn t n")
        case None
        then show ?thesis using none r ts None by (auto simp: HArr)
      next
        case (Some i)
        have i: "i < n" "n \<le> length (arrAt st a)" using indexIn_lt [OF Some] ha by auto
        then have c: "arrAt st a ! i \<in> set (hChildren st h)" by (auto simp: HArr in_set_conv_nth)
        obtain r2 st2 where s2: "hSetAt grow st (arrAt st a ! i) ts x cp lc ai = (r2, st2)" by force
        from Cons.IH [OF lv leveled_child [OF lv h c] x s2]
        obtain lv2 where lv2: "extends lv st lv2 st2" "\<forall>h'. r2 = Inr h' \<longrightarrow> levelAt lv2 st2 h' (d + 1)" by blast
        show ?thesis
        proof (cases r2)
          case (Inl e)
          then show ?thesis using lv2(1) r ts Some s2 by (auto simp: HArr)
        next
          case (Inr u)
          have "set ((arrAt st2 a)[i := u]) \<subseteq> {hnil, u} \<union> set (arrAt st2 a)" by (auto dest: set_update_subset_insert [THEN subsetD])
          then have "extends lv2 st2 lv2 (st2[a := ArrCell ((arrAt st2 a)[i := u])])"
            using lv2(2) Inr by (intro set_arr_level [OF extends_leveled [OF lv2(1)] extends_level [OF lv2(1) ha]]) auto
          then have e: "extends lv st lv2 (st2[a := ArrCell ((arrAt st2 a)[i := u])])" by (rule extends_trans [OF lv2(1)])
          then show ?thesis using extends_level [OF e h] r ts Some s2 Inr by (auto simp: HArr simp del: levelAt_simps)
        qed
      qed
    qed
  qed
qed

lemma removeIdx_set: "set (removeIdx i xs) \<subseteq> set xs"
  by (auto simp: removeIdx_def dest: in_set_takeD in_set_dropD)

lemma shiftDown_set: "set (shiftDown i n xs) \<subseteq> set xs"
  using removeIdx_set [of i "take n xs"] by (auto simp: shiftDown_def dest: in_set_takeD in_set_dropD)

lemma hRemoveAt_level:
  "leveled lv st \<Longrightarrow> levelAt lv st h d \<Longrightarrow> hRemoveAt st h ts = (r, st') \<Longrightarrow>
     extends lv st lv st' \<and> length st' = length st \<and> (\<forall>h'. r = Inr h' \<longrightarrow> levelAt lv st' h' d)"
proof (induction ts arbitrary: st h d r st')
  case Nil
  then show ?case by (auto intro: extends_refl)
next
  case (Cons t ts)
  note lv = Cons.prems(1) and h = Cons.prems(2) and r = Cons.prems(3)
  have none: ?case if "r = Inl ErrNotFound" "st' = st" using that extends_refl [OF lv] by auto
  show ?case
  proof (cases h)
    case (HVal v)
    then show ?thesis using none r by auto
  next
    case (HMap a)
    have hm: "levelAt lv st (HMap a) d" using h HMap by simp
    show ?thesis
    proof (cases "map_of (mapAt st a) t")
      case None
      then show ?thesis using none r by (auto simp: HMap)
    next
      case (Some n)
      show ?thesis
      proof (cases "ts = []")
        case True
        have e: "extends lv st lv (st[a := MapCell (objDel t (mapAt st a))])"
        proof (rule extends_upd [OF lv])
          assume a: "a < length st"
          show "grows (st ! a) (MapCell (objDel t (mapAt st a)))
              \<and> (\<forall>c \<in> set (cellVals (MapCell (objDel t (mapAt st a)))). levelAt lv st c (lv a + 1))"
            using hm leveled_map [OF lv a] by (auto simp: grows_MapCell objDel_def)
        qed
        then show ?thesis using extends_level [OF e h] r Some True by (auto simp: HMap simp del: levelAt_simps)
      next
        case False
        obtain r2 st2 where s2: "hRemoveAt st n ts = (r2, st2)" by force
        have "n \<in> set (hChildren st h)" using map_of_SomeD [OF Some] by (force simp: HMap)
        from Cons.IH [OF lv leveled_child [OF lv h this] s2]
        have IH: "extends lv st lv st2" "length st2 = length st" "\<forall>h'. r2 = Inr h' \<longrightarrow> levelAt lv st2 h' (d + 1)" by auto
        show ?thesis
        proof (cases r2)
          case (Inl e)
          then show ?thesis using IH r Some False s2 by (auto simp: HMap)
        next
          case (Inr u)
          have "extends lv st2 lv (st2[a := MapCell (objSet t u (mapAt st2 a))])"
            using IH(3) Inr by (intro set_key_level [OF extends_leveled [OF IH(1)] extends_level [OF IH(1) hm]]) auto
          then have e: "extends lv st lv (st2[a := MapCell (objSet t u (mapAt st2 a))])" by (rule extends_trans [OF IH(1)])
          then show ?thesis using extends_level [OF e h] r Some False s2 Inr IH(2) by (auto simp: HMap simp del: levelAt_simps)
        qed
      qed
    qed
  next
    case (HArr a n)
    have ha: "levelAt lv st (HArr a n) d" using h HArr by simp
    show ?thesis
    proof (cases "indexIn t n")
      case None
      then show ?thesis using none r by (auto simp: HArr)
    next
      case (Some i)
      have i: "i < n" "n \<le> length (arrAt st a)" using indexIn_lt [OF Some] ha by auto
      show ?thesis
      proof (cases "ts = []")
        case True
        have "set (shiftDown i n (arrAt st a)) \<subseteq> {hnil, hnil} \<union> set (arrAt st a)" using shiftDown_set [of i n "arrAt st a"] by auto
        then have e: "extends lv st lv (st[a := ArrCell (shiftDown i n (arrAt st a))])"
          using i by (intro set_arr_level [OF lv ha, of hnil]) (auto simp: shiftDown_def removeIdx_def)
        have "levelAt lv (st[a := ArrCell (shiftDown i n (arrAt st a))]) (HArr a (n - 1)) d"
          using extends_level [OF e ha] by auto
        then show ?thesis using e r Some True by (auto simp: HArr simp del: levelAt_simps)
      next
        case False
        obtain r2 st2 where s2: "hRemoveAt st (arrAt st a ! i) ts = (r2, st2)" by force
        have c: "arrAt st a ! i \<in> set (hChildren st h)" using i by (auto simp: HArr in_set_conv_nth)
        from Cons.IH [OF lv leveled_child [OF lv h c] s2]
        have IH: "extends lv st lv st2" "length st2 = length st" "\<forall>h'. r2 = Inr h' \<longrightarrow> levelAt lv st2 h' (d + 1)" by auto
        show ?thesis
        proof (cases r2)
          case (Inl e)
          then show ?thesis using IH r Some False s2 by (auto simp: HArr)
        next
          case (Inr u)
          have "set ((arrAt st2 a)[i := u]) \<subseteq> {hnil, u} \<union> set (arrAt st2 a)" by (auto dest: set_update_subset_insert [THEN subsetD])
          then have "extends lv st2 lv (st2[a := ArrCell ((arrAt st2 a)[i := u])])"
            using IH(3) Inr by (intro set_arr_level [OF extends_leveled [OF IH(1)] extends_level [OF IH(1) ha]]) auto
          then have e: "extends lv st lv (st2[a := ArrCell ((arrAt st2 a)[i := u])])" by (rule extends_trans [OF IH(1)])
          then show ?thesis using extends_level [OF e h] r Some False s2 Inr IH(2) by (auto simp: HArr simp del: levelAt_simps)
        qed
      qed
    qed
  qed
qed

section \<open>Removing by a pattern ends\<close>

definition ends :: "nat \<Rightarrow> (nat \<Rightarrow> nat) \<Rightarrow> nat \<Rightarrow> (hv \<Rightarrow> store \<Rightarrow> store option) \<Rightarrow> bool" where
  "ends N lv d F \<longleftrightarrow> (\<forall>st h. length st = N \<longrightarrow> leveled lv st \<longrightarrow> levelAt lv st h d \<longrightarrow>
     (\<exists>st'. F h st = Some st' \<and> extends lv st lv st' \<and> length st' = N))"

lemma endsD: "ends N lv d F \<Longrightarrow> length st = N \<Longrightarrow> leveled lv st \<Longrightarrow> levelAt lv st h d \<Longrightarrow>
    \<exists>st'. F h st = Some st' \<and> extends lv st lv st' \<and> length st' = N"
  by (simp add: ends_def)

lemma foldStore_ends:
  assumes F: "ends N lv d F"
  shows "length st = N \<Longrightarrow> leveled lv st \<Longrightarrow> \<forall>h \<in> set hs. levelAt lv st h d \<Longrightarrow>
    \<exists>st'. foldStore F hs st = Some st' \<and> extends lv st lv st' \<and> length st' = N"
proof (induction hs arbitrary: st)
  case (Cons h hs)
  obtain st1 where st1: "F h st = Some st1" "extends lv st lv st1" "length st1 = N"
    using endsD [OF F Cons.prems(1,2)] Cons.prems(3) by auto
  have "\<forall>h \<in> set hs. levelAt lv st1 h d" using Cons.prems(3) extends_level [OF st1(2)] by simp
  then obtain st' where "foldStore F hs st1 = Some st'" "extends lv st1 lv st'" "length st' = N"
    using Cons.IH [OF st1(3) extends_leveled [OF st1(2)]] by blast
  then show ?case using st1 extends_trans by auto
qed (simp add: extends_refl)

lemma children_end:
  assumes F: "ends N lv (d + 1) F"
  shows "ends N lv d (\<lambda>h st. foldStore F (hChildren st h) st)"
  unfolding ends_def using foldStore_ends [OF F] leveled_child by blast

lemma hDeep_ends:
  assumes F: "\<And>d. ends N lv d F"
  shows "card {a. a < N \<and> d \<le> lv a} \<le> n \<Longrightarrow> ends N lv d (hDeep n F)"
proof (induction n arbitrary: d)
  case 0
  show ?case unfolding ends_def
  proof (intro allI impI)
    fix st h assume st: "length st = N" "leveled lv st" "levelAt lv st h d"
    have "{a. a < N \<and> d \<le> lv a} = {}" using 0 by simp
    then obtain v where "h = HVal v" using st by (cases h) auto
    then show "\<exists>st'. hDeep 0 F h st = Some st' \<and> extends lv st lv st' \<and> length st' = N"
      using endsD [OF F st] by (auto simp: hDeep.simps [of 0])
  qed
next
  case (Suc n)
  show ?case unfolding ends_def
  proof (intro allI impI)
    fix st h assume st: "length st = N" "leveled lv st" "levelAt lv st h d"
    obtain st1 where st1: "F h st = Some st1" "extends lv st lv st1" "length st1 = N" using endsD [OF F st] by blast
    note lv1 = extends_leveled [OF st1(2)] and h1 = extends_level [OF st1(2) st(3)]
    have "\<exists>st'. foldStore (hDeep n F) (hChildren st1 h) st1 = Some st' \<and> extends lv st1 lv st' \<and> length st' = N"
    proof (cases "addrOf h")
      case None
      then show ?thesis using lv1 st1(3) by (cases h) (auto intro: extends_refl)
    next
      case (Some a)
      have "card {a. a < N \<and> d + 1 \<le> lv a} \<le> n"
        using above_Suc [of a st lv d] levelAt_addr [OF st(3) Some] st(1) Suc.prems by simp
      then have "ends N lv d (\<lambda>h st. foldStore (hDeep n F) (hChildren st h) st)" by (intro children_end Suc.IH)
      then show ?thesis using endsD [OF _ st1(3) lv1 h1] by blast
    qed
    then show "\<exists>st'. hDeep (Suc n) F h st = Some st' \<and> extends lv st lv st' \<and> length st' = N"
      using st1 extends_trans [OF st1(2)] by (auto simp: hDeep.simps [of "Suc n"])
  qed
qed

lemma hRemovePatternLeaf_level:
  assumes "leveled lv st" and "levelAt lv st h d"
  shows "extends lv st lv (hRemovePatternLeaf st h t) \<and> length (hRemovePatternLeaf st h t) = length st"
proof (cases h)
  case (HMap a)
  have "extends lv st lv (st[a := MapCell kvs])" if "set kvs \<subseteq> set (mapAt st a)" for kvs
  proof (rule extends_upd [OF assms(1)])
    assume a: "a < length st"
    show "grows (st ! a) (MapCell kvs) \<and> (\<forall>c \<in> set (cellVals (MapCell kvs)). levelAt lv st c (lv a + 1))"
      using assms(2) that leveled_map [OF assms(1) a] by (auto simp: HMap grows_MapCell)
  qed
  then show ?thesis by (auto simp: HMap objDel_def)
next
  case (HArr a n)
  have h: "levelAt lv st (HArr a n) d" "n \<le> length (arrAt st a)" using assms(2) by (auto simp: HArr)
  have L: "extends lv st lv (st[a := ArrCell ys])" if "set ys \<subseteq> {hnil} \<union> set (arrAt st a)" "length ys = length (arrAt st a)" for ys
    using that by (intro set_arr_level [OF assms(1) h(1), of hnil]) auto
  show ?thesis
  proof (cases "t = ''*'' \<or> t = ''**''")
    case True
    have "set (replicate n hnil @ drop n (arrAt st a)) \<subseteq> {hnil} \<union> set (arrAt st a)" by (auto dest: in_set_dropD)
    then show ?thesis using L [of "replicate n hnil @ drop n (arrAt st a)"] h(2) True by (auto simp: HArr)
  next
    case False
    show ?thesis
    proof (cases "indexIn t n")
      case None
      then show ?thesis using False extends_refl [OF assms(1)] by (simp add: HArr)
    next
      case (Some i)
      let ?ys = "removeIdx i (take n (arrAt st a)) @ hnil # drop n (arrAt st a)"
      have "set ?ys \<subseteq> {hnil} \<union> set (arrAt st a)"
        using removeIdx_set [of i "take n (arrAt st a)"] by (auto dest: in_set_takeD in_set_dropD)
      moreover have "length ?ys = length (arrAt st a)" using h(2) indexIn_lt [OF Some] by (simp add: removeIdx_def)
      ultimately show ?thesis using L [of ?ys] False Some by (simp add: HArr)
    qed
  qed
qed (simp add: extends_refl [OF assms(1)])

lemma hRemovePatternAt_ends: "ends N lv d (hRemovePatternAt ts)"
proof (induction ts arbitrary: d)
  case Nil
  then show ?case by (simp add: ends_def extends_refl)
next
  case (Cons t ts)
  consider "ts = []" | "ts \<noteq> []" "t = ''*''" | "ts \<noteq> []" "t = ''**''" | "ts \<noteq> []" "t \<noteq> ''*''" "t \<noteq> ''**''" by blast
  then show ?case
  proof cases
    case 1
    then show ?thesis using hRemovePatternLeaf_level by (simp add: ends_def)
  next
    case 2
    then show ?thesis using children_end [OF Cons.IH, of d] by (simp add: ends_def)
  next
    case 3
    have "card {a. a < N \<and> d \<le> lv a} \<le> N" using card_mono [of "{..<N}" "{a. a < N \<and> d \<le> lv a}"] by auto
    then show ?thesis using hDeep_ends [OF Cons.IH, of d N] 3 by (simp add: ends_def)
  next
    case 4
    show ?thesis unfolding ends_def
    proof (intro allI impI)
      fix st h assume st: "length st = N" "leveled lv st" "levelAt lv st h d"
      have c: "\<exists>st'. hRemovePatternAt ts x st = Some st' \<and> extends lv st lv st' \<and> length st' = N" if "x \<in> set (hChildren st h)" for x
        using endsD [OF Cons.IH st(1,2) leveled_child [OF st(2,3) that]] .
      show "\<exists>st'. hRemovePatternAt (t # ts) h st = Some st' \<and> extends lv st lv st' \<and> length st' = N"
      proof (cases h)
        case (HMap a)
        have "x \<in> set (hChildren st h)" if "map_of (mapAt st a) t = Some x" for x using map_of_SomeD [OF that] by (force simp: HMap)
        then show ?thesis using c 4 st extends_refl by (auto simp: HMap split: option.splits)
      next
        case (HArr a n)
        have "arrAt st a ! i \<in> set (hChildren st h)" if "indexIn t n = Some i" for i
          using indexIn_lt [OF that] st(3) by (auto simp: HArr in_set_conv_nth)
        then show ?thesis using c 4 st extends_refl by (auto simp: HArr split: option.splits)
      qed (use 4 st extends_refl in auto)
    qed
  qed
qed

end
