(* ===== verification/StoreProps.thy ===== *)
theory StoreProps
  imports StoreLevels
begin

text \<open>
  Reading values that share nothing, and the properties of the pointer functions in memory: on decoded documents they do what
  the functions of \<open>Pointer\<close> do on trees.
\<close>

section \<open>Reading\<close>

lemma readVal_own: "own st h g \<Longrightarrow> vdepth g \<le> n \<Longrightarrow> \<exists>g'. readVal n st h = Some g'"
proof (induction n arbitrary: h g)
  case 0
  then show ?case by (cases h; cases g) (auto simp: rep_HArr rep_HMap)
next
  case (Suc n)
  have c: "\<forall>c \<in> set (immediateChildren g). vdepth c \<le> n" using Suc.prems(2) by (simp add: vdepth_le_Suc)
  have "\<forall>x \<in> set (hChildren st h). \<exists>g'. readVal n st x = Some g'"
    using Suc.prems(1)
  proof (cases rule: rep.cases)
    case (rep_arr a xs m gs)
    then show ?thesis using Suc.IH c list_all2_left [OF rep_arr(6)] by (fastforce simp: arrAt_def immediateChildren_def)
  next
    case (rep_map a kvs gs)
    then show ?thesis using Suc.IH c list_all2_left [OF rep_map(6)] by (fastforce simp: mapAt_def immediateChildren_def)
  qed simp
  then obtain gs where "optAll (readVal n st) (hChildren st h) = Some gs" using optAll_Some by blast
  then show ?case by (cases h) auto
qed

lemma readAll_own: "own st h g \<Longrightarrow> readAll st h = Some g"
proof -
  assume own: "own st h g"
  have "card (footprint st h) \<le> length st" using card_mono [OF _ rep_footprint [OF own]] by simp
  then show ?thesis using readVal_own [OF own, of "length st"] own_depth [OF own] readVal_rep [OF own]
    by (auto simp: readAll_def)
qed

lemma hGetAt_own: "own st h g \<Longrightarrow> (case getAt g ts of None \<Rightarrow> hGetAt st h ts = None
    | Some g' \<Rightarrow> \<exists>x. hGetAt st h ts = Some x \<and> own st x g' \<and> footprint st x \<subseteq> footprint st h)"
proof (induction ts arbitrary: h g)
  case (Cons t ts)
  from Cons.prems show ?case
  proof (cases rule: rep.cases)
    case rep_val
    then show ?thesis by (cases g) auto
  next
    case (rep_arr a xs n gs)
    have xs: "arrAt st a = xs" and len: "length gs = n" using rep_arr by (auto simp: arrAt_def dest: list_all2_lengthD)
    show ?thesis
    proof (cases "indexIn t n")
      case (Some i)
      have i: "i < n" using indexIn_lt [OF Some] .
      have oi: "own st (xs ! i) (gs ! i)" using list_all2_nthD [OF rep_arr(6), of i] i rep_arr(5) by simp
      have "xs ! i \<in> set (hChildren st h)" using i rep_arr(1,5) xs by (auto simp: in_set_conv_nth)
      then show ?thesis using Cons.IH [OF oi] footprint_child Some len
        by (fastforce simp: rep_arr(1,2) xs split: option.splits)
    qed (simp add: rep_arr(1,2) len)
  next
    case (rep_map a kvs gs)
    have kv: "mapAt st a = kvs" using rep_map by (simp add: mapAt_def)
    have key: "case map_of kvs t of None \<Rightarrow> map_of gs t = None | Some x \<Rightarrow> \<exists>g. map_of gs t = Some g \<and> own st x g"
      using keyed_map_of [OF rep_map(6), of t] .
    show ?thesis
    proof (cases "map_of kvs t")
      case (Some x)
      then obtain gx where gx: "map_of gs t = Some gx" "own st x gx" using key by auto
      have "x \<in> set (hChildren st h)" using map_of_SomeD [OF Some] by (force simp: rep_map(1) kv)
      then show ?thesis using Cons.IH [OF gx(2)] footprint_child Some gx(1)
        by (fastforce simp: rep_map(1,2) kv split: option.splits)
    qed (use key in \<open>simp add: rep_map(1,2) kv\<close>)
  qed
qed simp

section \<open>Pointer operations in memory\<close>

lemma leveled_empty: "leveled (\<lambda>_. 0) []"
  by (simp add: leveled_def)

lemma load_hasRoom:
  assumes "loadVal cap doc [] = (h, st)" and "loadVal cap' val st = (x, st1)" and "wfv val"
  shows "hasRoom st1 h = (case doc of VArray vs \<Rightarrow> 0 < cap (length vs) | _ \<Rightarrow> False)"
proof -
  have ch: "changes {} st st1" using load_own(1) [OF assms(2,3)] by simp
  have lens: "loadVals cap vs st = (hs, st') \<Longrightarrow> length hs = length vs" for vs st hs st'
    by (induction vs arbitrary: st hs) (auto split: prod.splits)
  show ?thesis
  proof (cases doc)
    case (VArray vs)
    then obtain hs st0 where l: "loadVals cap vs [] = (hs, st0)" "h = HArr (length st0) (length hs)"
        "st = st0 @ [ArrCell (hs @ replicate (cap (length hs)) hnil)]"
      using assms(1) by (auto split: prod.splits)
    then have "st1 ! length st0 = ArrCell (hs @ replicate (cap (length hs)) hnil)" using ch by (simp add: changes_def)
    then show ?thesis using VArray l(2) lens [OF l(1)] by (simp add: hasRoom_def arrAt_def)
  qed (use assms(1) in \<open>auto simp: hasRoom_def split: prod.splits\<close>)
qed

text \<open>
  C35: setting a value in a decoded document, in memory, ends with the document that the function on trees computes, or with
  its error; the value is one that was decoded after the document. A slice at the root keeps its length, and shows an
  insertion only when its array had room.
\<close>

theorem pointerSetMode_memory:
  assumes "loadVal cap doc [] = (h, st)" and "wfv doc" and "loadVal cap' val st = (x, st1)" and "wfv val"
  shows "case pointerSetMode (case doc of VArray vs \<Rightarrow> 0 < cap (length vs) | _ \<Rightarrow> False) doc ptr val cp lc ai of
      Inl e \<Rightarrow> fst (hPointerSetMode grow st1 h ptr x cp lc ai) = Inl e
    | Inr doc' \<Rightarrow> (\<exists>st'. hPointerSetMode grow st1 h ptr x cp lc ai = (Inr (), st') \<and> readAll st' h = Some doc')"
proof -
  have l: "own st h doc" using load_own(1) [OF assms(1,2)] by simp
  have l1: "own st1 x val" "changes {} st st1" "footprint st1 x \<subseteq> fresh st st1" using load_own(1) [OF assms(3,4)] by simp_all
  have h: "own st1 h doc" "footprint st1 h = footprint st h" using changes_frame [OF l l1(2)] by simp_all
  have "footprint st1 x \<inter> footprint st1 h = {}" using l1(3) h(2) rep_footprint [OF l] by fastforce
  then show ?thesis
    using hPointerSetMode_own [OF h(1) l1(1), where ptr = ptr and cp = cp and lc = lc and ai = ai and grow = grow]
      readAll_own load_hasRoom [OF assms(1,3,4)] by (fastforce simp: becomes_def split: sum.splits)
qed

theorem pointerSetMode_memory_witness:
  "let (h, st) = loadVal (\<lambda>_. 0) (VArray [VBool True]) [];
       (x, st1) = loadVal (\<lambda>_. 0) (VObject []) st
   in \<exists>st'. hPointerSetMode (\<lambda>n. n) st1 h ''/0'' x False False False = (Inr (), st') \<and> readAll st' h = Some (VArray [VObject []])"
proof -
  have "Atoi ''0'' = Some 0" by (simp add: Atoi_def ParseInt_def digitVal_def)
  moreover have "pointerTokens ''/0'' = Inr [''0'']" by (simp add: pointerTokens_def HasPrefix_iff unescapeToken_def)
  ultimately have "pointerSetMode False (VArray [VBool True]) ''/0'' (VObject []) False False False = Inr (VArray [VObject []])"
    by (simp add: pointerSetMode_def seenByCaller_def setLeaf_def)
  then show ?thesis
    using pointerSetMode_memory [where cap = "\<lambda>_. 0" and doc = "VArray [VBool True]" and cap' = "\<lambda>_. 0" and val = "VObject []"
        and ptr = "''/0''" and cp = False and lc = False and ai = False and grow = "\<lambda>n. n"]
    by (simp add: objOk_def)
qed

text \<open>
  C36: removing a path or a pattern from a decoded document, in memory, ends with the document that the functions on trees
  compute, or with their error.
\<close>

theorem pointerRemove_memory:
  assumes "loadVal cap doc [] = (h, st)" and "wfv doc"
  shows "(case pointerRemove doc ptr of
        Inl e \<Rightarrow> hPointerRemove st h ptr = (Inl e, st)
      | Inr doc' \<Rightarrow> (\<exists>st'. hPointerRemove st h ptr = (Inr (), st') \<and> readAll st' h = Some doc'))
    \<and> (case pointerRemovePattern doc ptr of
        Inl e \<Rightarrow> hPointerRemovePattern st h ptr = Some (Inl e, st)
      | Inr doc' \<Rightarrow> (\<exists>st'. hPointerRemovePattern st h ptr = Some (Inr (), st') \<and> readAll st' h = Some doc'))"
proof
  have own: "own st h doc" using load_own(1) [OF assms] by simp
  obtain lv where lv: "leveled lv st" "levelAt lv st h 0"
    using load_levels(1) [OF assms(1), of "\<lambda>_. 0" 0] extends_leveled leveled_empty by blast
  show "case pointerRemove doc ptr of
        Inl e \<Rightarrow> hPointerRemove st h ptr = (Inl e, st)
      | Inr doc' \<Rightarrow> (\<exists>st'. hPointerRemove st h ptr = (Inr (), st') \<and> readAll st' h = Some doc')"
  proof (cases "pointerRemove doc ptr")
    case (Inr doc')
    then obtain st' where r: "hPointerRemove st h ptr = (Inr (), st')" "rep False st' h doc'"
      using hPointerRemove_own [OF own, of ptr] by (auto simp: becomes_def)
    obtain r0 st0 where s: "hRemoveAt st h (projr (pointerTokens ptr)) = (r0, st0)" by force
    have "extends lv st lv st'"
      using hRemoveAt_level [OF lv s] r(1) s by (auto simp: hPointerRemove_def split: sum.splits if_splits)
    then show ?thesis using readAll_rep [OF extends_leveled extends_level [OF _ lv(2)] r(2)] r(1) Inr by auto
  qed (use hPointerRemove_own [OF own, of ptr] in auto)
  show "case pointerRemovePattern doc ptr of
        Inl e \<Rightarrow> hPointerRemovePattern st h ptr = Some (Inl e, st)
      | Inr doc' \<Rightarrow> (\<exists>st'. hPointerRemovePattern st h ptr = Some (Inr (), st') \<and> readAll st' h = Some doc')"
    using inplaceD [OF hRemovePatternAt_own own, of "projr (pointerTokens ptr)"] readAll_own
    by (auto simp: pointerRemovePattern_def hPointerRemovePattern_def becomes_def split: sum.splits)
qed

theorem pointerRemove_memory_witness:
  "case loadVal (\<lambda>_. 0) (VObject [(''a'', VArray [VNil])]) [] of (h, st) \<Rightarrow>
     \<exists>st'. hPointerRemove st h ''/a'' = (Inr (), st') \<and> readAll st' h = Some (VObject [])"
proof -
  have "pointerTokens ''/a'' = Inr [''a'']" by (simp add: pointerTokens_def HasPrefix_iff unescapeToken_def)
  then have "pointerRemove (VObject [(''a'', VArray [VNil])]) ''/a'' = Inr (VObject [])"
    by (simp add: pointerRemove_def seenByCaller_def objDel_def)
  then show ?thesis
    using pointerRemove_memory [of "\<lambda>_. 0" "VObject [(''a'', VArray [VNil])]" _ _ "''/a''"] by (simp add: objOk_def)
qed

end
