(* ===== verification/Projection.thy ===== *)
theory Projection
  imports QueryProps StoreProps DbInv
begin

text \<open>
  Projections on values in memory: the run of the terms ends, although the result and the source share containers, and
  the result is the one computed on copies, as long as the included paths start with different keys.
\<close>

section \<open>Projections end\<close>

lemma loadJoined_levels:
  assumes "loadJoined v j st = (h, st')" and "leveled lv st"
  shows "\<exists>lv'. extends lv st lv' st' \<and> levelAt lv' st' h d"
proof (cases "\<exists>xs js. v = VArray xs \<and> j = VArray js")
  case True
  then obtain xs js where vj: "v = VArray xs" "j = VArray js" by blast
  obtain hs st1 where l: "loadVals (\<lambda>_. 0) js st = (hs, st1)" by force
  let ?st' = "st1 @ [ArrCell (hs @ replicate (length xs - length hs) hnil)]"
  obtain lv1 where lv1: "extends lv st lv1 st1" "\<forall>h \<in> set hs. levelAt lv1 st1 h (d + 1)"
    using load_levels(2) [OF l assms(2)] by blast
  have "extends lv1 st1 (lv1(length st1 := d)) ?st'"
    by (rule extends_snoc [OF extends_leveled [OF lv1(1)]]) (use lv1(2) in auto)
  then have "extends lv st (lv1(length st1 := d)) ?st'" by (rule extends_trans [OF lv1(1)])
  moreover have "levelAt (lv1(length st1 := d)) ?st' (HArr (length st1) (length hs)) d" by (simp add: arrAt_def)
  moreover have "h = HArr (length st1) (length hs)" "st' = ?st'" using assms(1) l by (auto simp: loadJoined_def vj)
  ultimately show ?thesis by blast
next
  case False
  then have "loadVal (\<lambda>_. 0) j st = (h, st')" using assms(1) by (auto simp: loadJoined_def split: gv.splits)
  then show ?thesis using load_levels(1) assms(2) by blast
qed

lemma projObject_levels:
  assumes "leveled lv st" and "levelAt lv st out 0" and "projObject out st = (out', st')"
  shows "\<exists>lv'. extends lv st lv' st' \<and> levelAt lv' st' out' 0"
proof (cases "\<exists>a. out = HMap a")
  case True
  then show ?thesis using assms(2,3) extends_refl [OF assms(1)] by (auto simp: projObject_def simp del: levelAt_simps)
next
  case False
  then have r: "out' = HMap (length st)" "st' = st @ [MapCell []]" using assms(3) by (auto simp: projObject_def split: hv.splits)
  have "extends lv st (lv(length st := 0)) st'" unfolding r by (rule extends_snoc [OF assms(1)]) simp
  moreover have "levelAt (lv(length st := 0)) st' out' 0" by (simp add: r mapAt_def)
  ultimately show ?thesis by blast
qed

lemma hPointerSet_levels:
  assumes "leveled lv st" and "levelAt lv st doc 0" and "pointerTokens ptr = Inr ts" and "levelAt lv st val (length ts)"
    and "hPointerSet grow st doc ptr val cm = (r, st')"
  shows "\<exists>lv'. extends lv st lv' st'"
proof (cases "ts = []")
  case True
  then show ?thesis using assms(3,5) extends_refl [OF assms(1)] by (auto simp: hPointerSet_def hPointerSetMode_def)
next
  case False
  obtain r' st1 where s: "hSetAt grow st doc ts val cm cm False = (r', st1)" by force
  then have "st1 = st'" using assms(3,5) False by (auto simp: hPointerSet_def hPointerSetMode_def split: sum.splits)
  then show ?thesis using hSetAt_level [OF assms(1,2) _ s] assms(4) by auto
qed

lemma projInclude_levels:
  assumes lv: "leveled lv st" "levelAt lv st src 0" "levelAt lv st out 0"
  shows "\<exists>r. projInclude Q db dst src path join (out, st) = Some r
    \<and> (\<forall>out' st'. r = Inr (out', st') \<longrightarrow> (\<exists>lv'. extends lv st lv' st' \<and> levelAt lv' st' out' 0))"
proof (cases "hPointerGet st src path")
  case None
  then show ?thesis using lv(3) extends_refl [OF lv(1)] by (auto simp: projInclude_def simp del: levelAt_simps)
next
  case (Some v)
  then obtain ts where ts: "pointerTokens path = Inr ts" "hGetAt st src ts = Some v"
    by (auto simp: hPointerGet_def split: sum.splits)
  have v: "levelAt lv st v (length ts)" using hGetAt_level [OF lv(1,2) ts(2)] by simp
  have "\<exists>r st1. projValue (qeEnv Q) db dst join v st = Some (r, st1)
      \<and> (\<exists>lv1. extends lv st lv1 st1 \<and> (\<forall>h. r = Inr h \<longrightarrow> levelAt lv1 st1 h (length ts)))"
  proof (cases "join = ''''")
    case True
    then show ?thesis using v extends_refl [OF lv(1)] by (auto simp: projValue_def)
  next
    case False
    obtain g where g: "readAll st v = Some g" using readVal_total [OF lv(1) v above_le] by (auto simp: readAll_def)
    show ?thesis
    proof (cases "joinValueLocked (qeEnv Q) db dst join g")
      case (Inl e)
      then show ?thesis using False g extends_refl [OF lv(1)] by (auto simp: projValue_def)
    next
      case (Inr j)
      obtain h st1 where l: "loadJoined g j st = (h, st1)" by force
      show ?thesis using False g Inr l loadJoined_levels [OF l lv(1)] by (auto simp: projValue_def)
    qed
  qed
  then obtain r st1 lv1 where r: "projValue (qeEnv Q) db dst join v st = Some (r, st1)" "extends lv st lv1 st1"
    "\<forall>h. r = Inr h \<longrightarrow> levelAt lv1 st1 h (length ts)" by blast
  show ?thesis
  proof (cases r)
    case (Inl e)
    then show ?thesis using Some r(1) by (auto simp: projInclude_def)
  next
    case (Inr h)
    obtain out2 st2 where o: "projObject out st1 = (out2, st2)" by force
    obtain lv2 where lv2: "extends lv1 st1 lv2 st2" "levelAt lv2 st2 out2 0"
      using projObject_levels [OF extends_leveled [OF r(2)] extends_level [OF r(2) lv(3)] o] by blast
    obtain r3 st3 where s: "hPointerSet (capGrow (qeCaps Q)) st2 out2 path h True = (r3, st3)" by force
    have "levelAt lv2 st2 h (length ts)" using r(3) Inr extends_level [OF lv2(1)] by blast
    then obtain lv3 where lv3: "extends lv2 st2 lv3 st3"
      using hPointerSet_levels [OF extends_leveled [OF lv2(1)] lv2(2) ts(1) _ s] by blast
    then have e: "extends lv st lv3 st3" using r(2) lv2(1) extends_trans by blast
    show ?thesis using Some r(1) Inr o s e extends_level [OF lv3 lv2(2)] by (auto simp: projInclude_def split: sum.splits)
  qed
qed

lemma projExclude_levels:
  assumes lv: "leveled lv st" "levelAt lv st out 0"
  shows "\<exists>st'. projExclude path (out, st) = Some (out, st') \<and> extends lv st lv st'"
proof (cases "pointerTokens path")
  case (Inl e)
  then show ?thesis using extends_refl [OF lv(1)] by (simp add: projExclude_def hPointerRemove_def hPointerRemovePattern_def)
next
  case (Inr ts)
  obtain r st1 where r: "hRemoveAt st out ts = (r, st1)" by force
  have "extends lv st lv st1" using hRemoveAt_level [OF lv r] by simp
  then have "extends lv st lv (snd (hPointerRemove st out path))"
    using r Inr extends_refl [OF lv(1)] by (auto simp: hPointerRemove_def split: sum.splits)
  moreover obtain st2 where "hRemovePatternAt ts out st = Some st2" "extends lv st lv st2"
    using endsD [OF hRemovePatternAt_ends refl lv] by blast
  then have "\<exists>r. hPointerRemovePattern st out path = Some r \<and> extends lv st lv (snd r)"
    using Inr extends_refl [OF lv(1)] by (auto simp: hPointerRemovePattern_def)
  ultimately show ?thesis by (auto simp: projExclude_def)
qed

lemma projTerms_end:
  "leveled lv st \<Longrightarrow> levelAt lv st src 0 \<Longrightarrow> levelAt lv st out 0 \<Longrightarrow> \<exists>r. projTerms Q db dst q src first ts (out, st) = Some r"
proof (induction ts arbitrary: first lv out st)
  case Nil
  then show ?case using readVal_total [OF Nil(1,3) above_le] by (auto simp: readAll_def)
next
  case (Cons t ts)
  note lv = Cons.prems
  have go: "\<exists>r. projTerms Q db dst q src first ts (out', st') = Some r"
    if "extends lv st lv' st'" "levelAt lv' st' out' 0" for first lv' st' out'
    using Cons.IH [OF extends_leveled [OF that(1)] extends_level [OF that(1) lv(2)] that(2)] .
  show ?case
  proof (cases "ptAll t")
    case all: True
    show ?thesis
    proof (cases "ptInclude t")
      case True
      obtain v where v: "readAll st src = Some v" using readVal_total [OF lv(1,2) above_le] by (auto simp: readAll_def)
      have "\<exists>r. projTerms Q db dst q src False ts (loadVal (capClone (qeCaps Q)) cl st) = Some r" for cl
        using load_levels(1) [OF surjective_pairing lv(1)] go by (metis surjective_pairing)
      then show ?thesis using all True v go [OF extends_refl [OF lv(1)] lv(3)] by (auto split: sum.splits)
    next
      case False
      have "extends lv st (lv(length st := 0)) (st @ [MapCell []])" by (rule extends_snoc [OF lv(1)]) simp
      moreover have "levelAt (lv(length st := 0)) (st @ [MapCell []]) (HMap (length st)) 0" by (simp add: mapAt_def)
      ultimately show ?thesis using all False go by (simp del: fun_upd_apply)
    qed
  next
    case False
    show ?thesis
    proof (cases "pathResolve q (ptPath t)")
      case (Inr path)
      show ?thesis
      proof (cases "ptInclude t")
        case True
        then show ?thesis using projInclude_levels [OF lv, of Q db dst path "ptJoin t"] False Inr go
          by (force split: sum.splits)
      next
        case ex: False
        then show ?thesis using projExclude_levels [OF lv(1,3), of path] False Inr go [OF _ extends_level [OF _ lv(3)]] by fastforce
      qed
    qed (use False in simp)
  qed
qed

section \<open>Stored documents decode to sorted objects\<close>

lemma decodeScalar_wfv: "decodeScalar L typ buf off = Inr (v, o1) \<Longrightarrow> wfv v"
  by (auto simp: decodeScalar_def mapRead_def split: if_splits sum.splits prod.splits)

lemma decValue_wfv:
  "decValue L n buf off = Some (Inr (v, o1)) \<Longrightarrow> wfv v"
  "decList L n i vs buf off = Some (Inr (ws, o1)) \<Longrightarrow> list_all wfv vs \<Longrightarrow> list_all wfv ws"
  "decObject L n i kvs buf off = Some (Inr (ws', o1)) \<Longrightarrow> wfv (VObject kvs) \<Longrightarrow> wfv (VObject ws')"
  "decMap L n i kvs buf off = Some (Inr (ws', o1)) \<Longrightarrow> wfv (VObject kvs) \<Longrightarrow> wfv (VObject ws')"
proof (induction L n buf off and L n i vs buf off and L n i kvs buf off and L n i kvs buf off
    arbitrary: v o1 and ws o1 and ws' o1 and ws' o1 rule: decValue_decList_decObject_decMap.induct)
  case (2 L n buf off)
  then show ?case by (auto split: sum.splits option.splits prod.splits if_splits dest: decodeScalar_wfv)
next
  case (4 L n i acc buf off)
  then show ?case by (auto split: sum.splits option.splits prod.splits)
next
  case (6 L n i acc buf off)
  then show ?case by (fastforce split: sum.splits option.splits prod.splits intro: wfv_objSet simp del: wfv.simps)
next
  case (8 L n i acc buf off)
  then show ?case by (fastforce split: sum.splits option.splits prod.splits intro: wfv_objSet simp del: wfv.simps)
qed auto

lemma getDocNode_wfv: "getDocNode E e col i = Inr (raw, v) \<Longrightarrow> wfv v"
proof -
  assume g: "getDocNode E e col i = Inr (raw, v)"
  then obtain stored where d: "decodeStored E stored = Inr (raw, v)"
    by (auto simp: getDocNode_def split: option.splits sum.splits)
  obtain r where "decodeStoredDocument (envLib E) (marshalJSON (envJson E)) stored = Some r"
    using decodeStoredDocument_returns by blast
  then show "wfv v" using d
    by (auto simp: decodeStored_def decodeStoredDocument_def simp del: decValue.simps split: if_splits option.splits sum.splits
        prod.splits dest: decValue_wfv(1))
qed

lemma joinMany_wfv: "joinMany E db c vs = Inr js \<Longrightarrow> list_all wfv js"
proof (induction vs arbitrary: js)
  case (Cons v vs)
  then show ?case by (fastforce simp: joinOne_def split: option.splits sum.splits if_splits prod.splits dest: getDocNode_wfv)
qed simp

lemma joinValue_wfv: "joinValueLocked E db dst coll v = Inr j \<Longrightarrow> wfv j"
  by (auto simp: joinValueLocked_def joinOne_def split: option.splits gv.splits sum.splits if_splits prod.splits
      dest: getDocNode_wfv joinMany_wfv)

section \<open>Projections on copies\<close>

text \<open>
  The specification: the terms on trees, where every value is a copy. A projection is \<open>independent\<close> of what it shares when
  every included path starts with a key that no earlier term has put into the result without a copy; what is excluded,
  and where, does not matter.
\<close>

definition copyInclude :: "'e env \<Rightarrow> 'e DB \<Rightarrow> dbState \<Rightarrow> gv \<Rightarrow> string \<Rightarrow> string \<Rightarrow> gv \<Rightarrow> gv result" where
  "copyInclude E db dst src path join out =
     (case pointerGet src path of
        None \<Rightarrow> Inr out
      | Some v \<Rightarrow>
          (case (if join \<noteq> '''' then joinValueLocked E db dst join v else Inr v) of
             Inl e \<Rightarrow> Inl e
           | Inr v \<Rightarrow> pointerSet False (case out of VObject kvs \<Rightarrow> out | _ \<Rightarrow> VObject []) path v True))"

definition copyExclude :: "string \<Rightarrow> gv \<Rightarrow> gv" where
  "copyExclude path out =
     (case (if Contains path ''*'' then pointerRemovePattern out path else pointerRemove out path) of
        Inl _ \<Rightarrow> out
      | Inr out' \<Rightarrow> out')"

fun copyTerms :: "'e env \<Rightarrow> 'e DB \<Rightarrow> dbState \<Rightarrow> Query \<Rightarrow> gv \<Rightarrow> bool \<Rightarrow> projectionTerm list \<Rightarrow> gv \<Rightarrow> gv result" where
  "copyTerms E db dst q src first [] out = Inr out"
| "copyTerms E db dst q src first (t # ts) out =
     (if ptAll t then
        (if ptInclude t then
           (if first then
              (case cloneAny (envJson E) src of Inl e \<Rightarrow> Inl e | Inr cl \<Rightarrow> copyTerms E db dst q src False ts cl)
            else copyTerms E db dst q src False ts out)
         else copyTerms E db dst q src False ts (VObject []))
      else case pathResolve q (ptPath t) of
             Inl e \<Rightarrow> Inl e
           | Inr path \<Rightarrow>
               if ptInclude t then
                 (case copyInclude E db dst src path (ptJoin t) out of
                    Inl e \<Rightarrow> Inl e
                  | Inr out \<Rightarrow> copyTerms E db dst q src False ts out)
               else copyTerms E db dst q src False ts (copyExclude path out))"

fun independent :: "Query \<Rightarrow> projectionTerm list \<Rightarrow> string list \<Rightarrow> bool" where
  "independent q [] taken = True"
| "independent q (t # ts) taken =
     (if ptAll t \<or> \<not> ptInclude t then independent q ts taken
      else case pathResolve q (ptPath t) of
             Inl e \<Rightarrow> True
           | Inr path \<Rightarrow>
               (case pointerTokens path of
                  Inl e \<Rightarrow> independent q ts taken
                | Inr [] \<Rightarrow> False
                | Inr (k # ks) \<Rightarrow> k \<notin> set taken \<and> independent q ts (if ptJoin t = '''' then k # taken else taken)))"

text \<open>What the generic decoder makes of the text of an object is an object.\<close>

definition clonesObjects :: "json_lib \<Rightarrow> bool" where
  "clonesObjects J \<longleftrightarrow> (\<forall>kvs g. cloneAny J (VObject kvs) = Inr g \<longrightarrow> wfv g \<and> (\<exists>kvs'. g = VObject kvs'))"

text \<open>
  The state between two terms: the result shares nothing in itself, and the children of the source that no term has shared
  are as they were and have nothing in common with the result.
\<close>

definition projInv ::
    "store \<Rightarrow> nat \<Rightarrow> (string \<times> hv) list \<Rightarrow> (string \<times> gv) list \<Rightarrow> string list \<Rightarrow> hv \<Rightarrow> gv \<Rightarrow> bool" where
  "projInv st rs hk kvs taken out gout \<longleftrightarrow>
     rs < length st \<and> st ! rs = MapCell hk
     \<and> list_all2 (\<lambda>p q. fst p = fst q \<and> (fst p \<notin> set taken \<longrightarrow> own st (snd p) (snd q))) hk kvs
     \<and> (\<forall>p \<in> set hk. fst p \<notin> set taken \<longrightarrow> rs \<notin> footprint st (snd p) \<and> footprint st (snd p) \<inter> footprint st out = {}
          \<and> (\<forall>p' \<in> set hk. fst p' \<notin> set taken \<longrightarrow> fst p \<noteq> fst p' \<longrightarrow> footprint st (snd p) \<inter> footprint st (snd p') = {}))
     \<and> own st out gout \<and> rs \<notin> footprint st out"

lemma projInv_step:
  assumes inv: "projInv st rs hk kvs taken out gout" and tk: "set taken \<subseteq> set taken'"
    and ch: "changes (footprint st out) st st'" and out: "own st' out' gout'"
    and fp: "footprint st' out' \<subseteq> footprint st out \<union> V \<union> fresh st st'"
    and V: "rs \<notin> V" "\<forall>p \<in> set hk. fst p \<notin> set taken' \<longrightarrow> footprint st (snd p) \<inter> V = {}"
  shows "projInv st' rs hk kvs taken' out' gout'"
proof -
  have i: "rs < length st" "st ! rs = MapCell hk" "rs \<notin> footprint st out"
    and all: "list_all2 (\<lambda>p q. fst p = fst q \<and> (fst p \<notin> set taken \<longrightarrow> own st (snd p) (snd q))) hk kvs"
    and sep0: "\<forall>p \<in> set hk. fst p \<notin> set taken \<longrightarrow> rs \<notin> footprint st (snd p) \<and> footprint st (snd p) \<inter> footprint st out = {}
      \<and> (\<forall>p' \<in> set hk. fst p' \<notin> set taken \<longrightarrow> fst p \<noteq> fst p' \<longrightarrow> footprint st (snd p) \<inter> footprint st (snd p') = {})"
    using inv unfolding projInv_def by blast+
  have sep: "rs \<notin> footprint st (snd p) \<and> footprint st (snd p) \<inter> footprint st out = {}
      \<and> (\<forall>p' \<in> set hk. fst p' \<notin> set taken' \<longrightarrow> fst p \<noteq> fst p' \<longrightarrow> footprint st (snd p) \<inter> footprint st (snd p') = {})"
    if "p \<in> set hk" "fst p \<notin> set taken'" for p
    using sep0 that tk by blast
  have kid: "own st' (snd p) (snd q) \<and> footprint st' (snd p) = footprint st (snd p)"
    if "p \<in> set hk" "fst p \<notin> set taken'" "own st (snd p) (snd q)" for p q
    using changes_frame [OF that(3) ch] sep [OF that(1,2)] by blast
  have own: "\<exists>g. own st (snd p) g" if "p \<in> set hk" "fst p \<notin> set taken'" for p
    using list_all2_left [OF all that(1)] that(2) tk by blast
  have fpk: "footprint st' (snd p) = footprint st (snd p) \<and> footprint st (snd p) \<subseteq> {..<length st}"
    if p: "p \<in> set hk" "fst p \<notin> set taken'" for p
  proof -
    obtain g where g: "own st (snd p) g" using own [OF p] by blast
    show ?thesis using kid [OF p, of "(fst p, g)"] g rep_footprint [OF g] by simp
  qed
  have "list_all2 (\<lambda>p q. fst p = fst q \<and> (fst p \<notin> set taken' \<longrightarrow> own st' (snd p) (snd q))) hk kvs"
    using all by (rule list.rel_mono_strong) (use kid tk in blast)
  moreover have "rs \<notin> footprint st' (snd p) \<and> footprint st' (snd p) \<inter> footprint st' out' = {}
      \<and> (\<forall>p' \<in> set hk. fst p' \<notin> set taken' \<longrightarrow> fst p \<noteq> fst p' \<longrightarrow> footprint st' (snd p) \<inter> footprint st' (snd p') = {})"
    if p: "p \<in> set hk" "fst p \<notin> set taken'" for p
  proof -
    have "footprint st (snd p) \<inter> fresh st st' = {}" using fpk [OF p] by auto
    then have "footprint st (snd p) \<inter> footprint st' out' = {}" using sep [OF p] V(2) p fp by blast
    then show ?thesis using sep [OF p] fpk p by simp
  qed
  moreover have "rs < length st'" "st' ! rs = MapCell hk" using ch i by (auto simp: changes_def)
  moreover have "rs \<notin> footprint st' out'" using fp i V(1) by auto
  ultimately show ?thesis using out by (simp add: projInv_def)
qed

section \<open>The terms one by one\<close>

lemma hRemoveAt_HMap: "hRemoveAt st (HMap a) ts = (Inr h', st') \<Longrightarrow> h' = HMap a"
  by (cases ts) (auto split: option.splits if_splits sum.splits prod.splits)

lemma projExclude_own:
  assumes own: "own st (HMap a) g"
  shows "\<exists>st'. projExclude path (HMap a, st) = Some (HMap a, st') \<and> becomes True {} st (HMap a) st' (HMap a) (copyExclude path g)"
proof (cases "pointerTokens path")
  case (Inl e)
  then show ?thesis using becomes_same [OF own]
    by (auto simp: projExclude_def copyExclude_def hPointerRemove_def hPointerRemovePattern_def pointerRemove_def pointerRemovePattern_def)
next
  case (Inr ts)
  obtain kvs where g: "g = VObject kvs" using own by (auto simp: rep_HMap)
  show ?thesis
  proof (cases "ts = []")
    case True
    then show ?thesis using becomes_same [OF own] Inr
      by (auto simp: projExclude_def copyExclude_def hPointerRemove_def hPointerRemovePattern_def pointerRemove_def pointerRemovePattern_def)
  next
    case ne: False
    show ?thesis
    proof (cases "Contains path ''*''")
      case True
      then show ?thesis using inplaceD [OF hRemovePatternAt_own own, of ts] Inr ne
        by (auto simp: projExclude_def copyExclude_def hPointerRemovePattern_def pointerRemovePattern_def)
    next
      case False
      show ?thesis
      proof (cases "removeAt g ts")
        case (Inl e)
        then show ?thesis using hRemoveAt_own [OF own, of ts] becomes_same [OF own] False Inr ne
          by (auto simp: projExclude_def copyExclude_def hPointerRemove_def pointerRemove_def)
      next
        case r: (Inr g')
        then obtain h' st' where h': "hRemoveAt st (HMap a) ts = (Inr h', st')" "becomes True {} st (HMap a) st' h' g'"
          using hRemoveAt_own [OF own, of ts] by auto
        have "h' = HMap a" using hRemoveAt_HMap [OF h'(1)] .
        then show ?thesis using h' r False Inr ne g
          by (auto simp: projExclude_def copyExclude_def hPointerRemove_def pointerRemove_def seenByCaller_def)
      qed
    qed
  qed
qed

lemma loadJoined_own:
  assumes "loadJoined g j st = (h, st')" and "wfv j"
  shows "own st' h j \<and> changes {} st st' \<and> footprint st' h \<subseteq> fresh st st'"
proof (cases "\<exists>xs js. g = VArray xs \<and> j = VArray js")
  case True
  then obtain xs js where vj: "g = VArray xs" "j = VArray js" by blast
  obtain hs st1 where l: "loadVals (\<lambda>_. 0) js st = (hs, st1)" by force
  have r: "h = HArr (length st1) (length hs)" "st' = st1 @ [ArrCell (hs @ replicate (length xs - length hs) hnil)]"
    using assms(1) l by (auto simp: loadJoined_def vj)
  have "list_all wfv js" using assms(2) vj by simp
  then show ?thesis unfolding vj using load_own(2) [OF l] r by (intro arr_cell_own) simp_all
next
  case False
  then have "loadVal (\<lambda>_. 0) j st = (h, st')" using assms(1) by (auto simp: loadJoined_def split: gv.splits)
  then show ?thesis using load_own(1) assms(2) by blast
qed

lemma becomes_fp: "becomes b V st h st' h' g' \<Longrightarrow> footprint st' h' \<subseteq> footprint st h \<union> V \<union> fresh st st'"
  by (simp add: becomes_def)

lemma projValue_own:
  assumes v: "own st v gv"
  shows "case (if join \<noteq> '''' then joinValueLocked E db dst join gv else Inr gv) of
      Inl e \<Rightarrow> projValue E db dst join v st = Some (Inl e, st)
    | Inr g \<Rightarrow> \<exists>h st1. projValue E db dst join v st = Some (Inr h, st1) \<and> own st1 h g \<and> changes {} st st1
        \<and> (if join = '''' then h = v \<and> st1 = st else footprint st1 h \<subseteq> fresh st st1)"
proof (cases "join = ''''")
  case True
  then show ?thesis using v by (simp add: projValue_def)
next
  case False
  show ?thesis
  proof (cases "joinValueLocked E db dst join gv")
    case (Inl e)
    then show ?thesis using False readAll_own [OF v] by (simp add: projValue_def)
  next
    case (Inr j)
    obtain h st1 where l: "loadJoined gv j st = (h, st1)" by force
    show ?thesis using loadJoined_own [OF l joinValue_wfv [OF Inr]] False Inr l readAll_own [OF v] by (simp add: projValue_def)
  qed
qed

text \<open>Putting a value into the result that shares nothing with it.\<close>

lemma projPut_own:
  assumes inv: "projInv st rs hk kvs taken (HMap a) gout" and tk: "set taken \<subseteq> set taken'"
    and st1: "changes {} st st1" "own st1 h g" "footprint st1 h \<subseteq> V \<union> fresh st st1"
    and V: "rs \<notin> V" "V \<inter> footprint st (HMap a) = {}" "\<forall>p \<in> set hk. fst p \<notin> set taken' \<longrightarrow> footprint st (snd p) \<inter> V = {}"
  shows "case pointerSet False gout path g True of
      Inl e \<Rightarrow> \<exists>st'. hPointerSet grow st1 (HMap a) path h True = (Inl e, st')
    | Inr gout' \<Rightarrow> \<exists>st'. hPointerSet grow st1 (HMap a) path h True = (Inr (), st') \<and> projInv st' rs hk kvs taken' (HMap a) gout'"
proof -
  have own: "own st (HMap a) gout" using inv by (simp add: projInv_def)
  have fr: "own st1 (HMap a) gout" "footprint st1 (HMap a) = footprint st (HMap a)"
    using changes_frame [OF own st1(1)] by simp_all
  have "footprint st (HMap a) \<inter> fresh st st1 = {}" using rep_footprint [OF own] by auto
  then have disj: "footprint st1 h \<inter> footprint st1 (HMap a) = {}" using st1(3) V(2) fr(2) by blast
  have room: "hasRoom st1 (HMap a) = False" by (simp add: hasRoom_def)
  show ?thesis
  proof (cases "pointerSet False gout path g True")
    case (Inl e)
    then show ?thesis using hPointerSetMode_own [OF fr(1) st1(2) disj, where ptr = path and cp = True and lc = True and ai = False and grow = grow] room
      by (auto simp: pointerSet_def hPointerSet_def)
  next
    case (Inr gout')
    then obtain st' where s: "hPointerSet grow st1 (HMap a) path h True = (Inr (), st')"
        "becomes True (footprint st1 h) st1 (HMap a) st' (HMap a) gout'"
      using hPointerSetMode_own [OF fr(1) st1(2) disj, where ptr = path and cp = True and lc = True and ai = False and grow = grow] room
      by (auto simp: pointerSet_def hPointerSet_def)
    have ch: "changes (footprint st (HMap a)) st1 st'" "own st' (HMap a) gout'" using s(2) fr(2) by (auto simp: becomes_def)
    have len: "length st \<le> length st1" "length st1 \<le> length st'" using st1(1) ch(1) by (auto simp: changes_def)
    have "footprint st' (HMap a) \<subseteq> footprint st (HMap a) \<union> V \<union> fresh st st'"
      using becomes_fp [OF s(2)] st1(3) fr(2) len by fastforce
    moreover have "changes (footprint st (HMap a)) st st'"
      by (rule changes_trans [OF changes_mono [OF st1(1)] ch(1)]) auto
    ultimately have "projInv st' rs hk kvs taken' (HMap a) gout'"
      using projInv_step [OF inv tk _ ch(2) _ V(1,3)] by blast
    then show ?thesis using Inr s(1) by auto
  qed
qed

lemma projInclude_own:
  assumes inv: "projInv st rs hk kvs taken (HMap a) gout" and path: "pointerTokens path = Inr (k # ks)" "k \<notin> set taken"
  shows "case copyInclude (qeEnv Q) db dst (VObject kvs) path join gout of
      Inl e \<Rightarrow> projInclude Q db dst (HMap rs) path join (HMap a, st) = Some (Inl e)
    | Inr gout' \<Rightarrow> \<exists>st'. projInclude Q db dst (HMap rs) path join (HMap a, st) = Some (Inr (HMap a, st'))
        \<and> projInv st' rs hk kvs (if join = '''' then k # taken else taken) (HMap a) gout'"
proof -
  let ?t' = "if join = '''' then k # taken else taken"
  have mp: "mapAt st rs = hk" using inv by (simp add: projInv_def mapAt_def)
  have all: "list_all2 (\<lambda>p q. fst p = fst q \<and> (fst p \<notin> set taken \<longrightarrow> own st (snd p) (snd q))) hk kvs"
    using inv by (simp add: projInv_def)
  have same: "projInv st rs hk kvs ?t' (HMap a) gout"
  proof (rule projInv_step [OF inv _ changes_refl, of ?t' "HMap a" gout "{}"])
    show "own st (HMap a) gout" using inv by (simp add: projInv_def)
  qed auto
  obtain gk where gout: "gout = VObject gk" using inv by (auto simp: projInv_def rep_HMap)
  have found: "case map_of hk k of None \<Rightarrow> map_of kvs k = None | Some x \<Rightarrow> \<exists>g. map_of kvs k = Some g \<and> own st x g"
    using all path(2) by (induction rule: list_all2_induct) (auto split: option.splits)
  show ?thesis
  proof (cases "map_of hk k")
    case None
    then show ?thesis using found same path(1) by (simp add: copyInclude_def projInclude_def pointerGet_def hPointerGet_def mp)
  next
    case (Some x)
    then obtain g where g: "map_of kvs k = Some g" "own st x g" using found by auto
    have x: "(k, x) \<in> set hk" using map_of_SomeD [OF Some] .
    show ?thesis
    proof (cases "getAt g ks")
      case None
      then show ?thesis using hGetAt_own [OF g(2), of ks] Some g(1) same path(1)
        by (simp add: copyInclude_def projInclude_def pointerGet_def hPointerGet_def mp)
    next
      case v: (Some gv)
      then obtain v where hv: "hGetAt st x ks = Some v" "own st v gv" "footprint st v \<subseteq> footprint st x"
        using hGetAt_own [OF g(2), of ks] by auto
      let ?V = "if join = '''' then footprint st v else {}"
      have get: "pointerGet (VObject kvs) path = Some gv" "hPointerGet st (HMap rs) path = Some v"
        using path(1) Some g(1) v hv(1) by (simp_all add: pointerGet_def hPointerGet_def mp)
      have sep: "rs \<notin> footprint st x" "footprint st x \<inter> footprint st (HMap a) = {}"
          "\<forall>p \<in> set hk. fst p \<notin> set (k # taken) \<longrightarrow> footprint st x \<inter> footprint st (snd p) = {}"
        using inv x path(2) unfolding projInv_def by fastforce+
      have V: "rs \<notin> ?V" "?V \<inter> footprint st (HMap a) = {}"
          "\<forall>p \<in> set hk. fst p \<notin> set ?t' \<longrightarrow> footprint st (snd p) \<inter> ?V = {}"
        using sep hv(3) by (auto split: if_splits)
      show ?thesis
      proof (cases "if join \<noteq> '''' then joinValueLocked (qeEnv Q) db dst join gv else Inr gv")
        case (Inl e)
        then show ?thesis using projValue_own [OF hv(2), where join = join and E = "qeEnv Q" and db = db and dst = dst] get
          by (simp add: copyInclude_def projInclude_def)
      next
        case (Inr j)
        then obtain h st1 where h: "projValue (qeEnv Q) db dst join v st = Some (Inr h, st1)" "own st1 h j" "changes {} st st1"
            "if join = '''' then h = v \<and> st1 = st else footprint st1 h \<subseteq> fresh st st1"
          using projValue_own [OF hv(2), where join = join and E = "qeEnv Q" and db = db and dst = dst] by auto
        have "footprint st1 h \<subseteq> ?V \<union> fresh st st1" using h(4) by (auto split: if_splits)
        then have put: "case pointerSet False gout path j True of
            Inl e \<Rightarrow> \<exists>st'. hPointerSet (capGrow (qeCaps Q)) st1 (HMap a) path h True = (Inl e, st')
          | Inr gout' \<Rightarrow> \<exists>st'. hPointerSet (capGrow (qeCaps Q)) st1 (HMap a) path h True = (Inr (), st')
              \<and> projInv st' rs hk kvs ?t' (HMap a) gout'"
          by (intro projPut_own [OF inv _ h(3,2) _ V]) auto
        have c: "copyInclude (qeEnv Q) db dst (VObject kvs) path join gout = pointerSet False gout path j True"
          by (simp add: copyInclude_def get(1) Inr gout del: if_not_P)
        show ?thesis unfolding c
          using put h(1) get(2) by (cases "pointerSet False gout path j True") (auto simp: projInclude_def projObject_def)
      qed
    qed
  qed
qed

section \<open>The projection of a document\<close>

lemma projTerms_copy:
  "projInv st rs hk kvs taken (HMap a) gout \<Longrightarrow> independent q ts taken \<Longrightarrow> (first \<Longrightarrow> own st (HMap rs) (VObject kvs)) \<Longrightarrow>
     clonesObjects (qeJson Q) \<Longrightarrow>
     projTerms Q db dst q (HMap rs) first ts (HMap a, st) = Some (copyTerms (qeEnv Q) db dst q (VObject kvs) first ts gout)"
proof (induction ts arbitrary: st taken a gout first)
  case Nil
  then show ?case using readAll_own by (auto simp: projInv_def)
next
  case (Cons t ts)
  note inv = Cons.prems(1)
  have out: "own st (HMap a) gout" using inv by (simp add: projInv_def)
  have go: "projTerms Q db dst q (HMap rs) False ts (HMap a', st')
      = Some (copyTerms (qeEnv Q) db dst q (VObject kvs) False ts gout')"
    if "projInv st' rs hk kvs taken' (HMap a') gout'" "independent q ts taken'" for st' taken' a' gout'
    using Cons.IH [OF that _ Cons.prems(4)] by simp
  have new: "projInv st' rs hk kvs taken h g"
    if "own st' h g" "changes {} st st'" "footprint st' h \<subseteq> fresh st st'" for st' h g
    by (rule projInv_step [OF inv order_refl changes_mono [OF that(2)] that(1), of "{}"]) (use that(3) in auto)
  show ?case
  proof (cases "ptAll t")
    case all: True
    then have ind: "independent q ts taken" using Cons.prems(2) by simp
    show ?thesis
    proof (cases "ptInclude t")
      case False
      let ?st' = "st @ [MapCell []]"
      have "own ?st' (HMap (length st)) (VObject [])"
        by (intro rep_map) (auto simp: unshared_def mapAt_def objOk_def)
      moreover have "footprint ?st' (HMap (length st)) \<subseteq> fresh st ?st'"
        by (simp add: footprint_eq [of _ "HMap (length st)"] mapAt_def)
      ultimately show ?thesis using go [OF new ind] all False by simp
    next
      case inc: True
      show ?thesis
      proof (cases first)
        case False
        then show ?thesis using go [OF inv ind] all inc by simp
      next
        case True
        have src: "readAll st (HMap rs) = Some (VObject kvs)" using readAll_own [OF Cons.prems(3) [OF True]] .
        show ?thesis
        proof (cases "cloneAny (qeJson Q) (VObject kvs)")
          case (Inl e)
          then show ?thesis using all inc True src by simp
        next
          case (Inr cl)
          then obtain kvs' where cl: "wfv cl" "cl = VObject kvs'" using Cons.prems(4) unfolding clonesObjects_def by blast
          obtain h st' where l: "loadVal (capClone (qeCaps Q)) cl st = (h, st')" by force
          obtain a' where "h = HMap a'" using l cl(2) by (auto split: prod.splits)
          then show ?thesis using go [OF new ind] load_own(1) [OF l cl(1)] l all inc True src Inr by simp
        qed
      qed
    qed
  next
    case na: False
    show ?thesis
    proof (cases "pathResolve q (ptPath t)")
      case (Inl e)
      then show ?thesis using na by simp
    next
      case (Inr path)
      show ?thesis
      proof (cases "ptInclude t")
        case False
        obtain st' where s: "projExclude path (HMap a, st) = Some (HMap a, st')"
            "becomes True {} st (HMap a) st' (HMap a) (copyExclude path gout)"
          using projExclude_own [OF out] by blast
        have "projInv st' rs hk kvs taken (HMap a) (copyExclude path gout)"
          by (rule projInv_step [OF inv order_refl, of st' _ _ "{}"]) (use s(2) in \<open>auto simp: becomes_def\<close>)
        then show ?thesis using go [of st' taken a] s(1) na Inr False Cons.prems(2) by simp
      next
        case inc: True
        show ?thesis
        proof (cases "pointerTokens path")
          case (Inl e)
          then have "projInclude Q db dst (HMap rs) path (ptJoin t) (HMap a, st) = Some (Inr (HMap a, st))"
            "copyInclude (qeEnv Q) db dst (VObject kvs) path (ptJoin t) gout = Inr gout"
            by (simp_all add: projInclude_def hPointerGet_def copyInclude_def pointerGet_def)
          then show ?thesis using go [OF inv] Cons.prems(2) na Inr inc Inl by simp
        next
          case tok: (Inr toks)
          obtain k ks where kks: "toks = k # ks" using Cons.prems(2) na Inr inc tok by (cases toks) auto
          then have k: "k \<notin> set taken" "independent q ts (if ptJoin t = '''' then k # taken else taken)"
            using Cons.prems(2) na Inr inc tok by auto
          show ?thesis using projInclude_own [OF inv tok [unfolded kks] k(1), of Q db dst "ptJoin t"] go [OF _ k(2)] na Inr inc
            by (auto split: sum.splits)
        qed
      qed
    qed
  qed
qed

lemma projInv_start:
  assumes "loadVal cap (VObject kvs) [] = (src, st)" and "wfv (VObject kvs)"
  shows "\<exists>rs hk. src = HMap rs \<and> own st src (VObject kvs)
    \<and> projInv (st @ [MapCell []]) rs hk kvs [] (HMap (length st)) (VObject [])"
proof -
  have l: "own st src (VObject kvs)" using load_own(1) [OF assms] by simp
  obtain rs hk where src: "src = HMap rs" and c: "rs < length st" "st ! rs = MapCell hk" "objOk hk" "unshared st (HMap rs)"
      "list_all2 (\<lambda>p q. fst p = fst q \<and> own st (snd p) (snd q)) hk kvs"
    using l by (auto simp: rep_VObject)
  let ?st' = "st @ [MapCell []]"
  have fr: "own ?st' (snd p) (snd q) \<and> footprint ?st' (snd p) = footprint st (snd p) \<and> footprint st (snd p) \<subseteq> {..<length st}"
    if "own st (snd p) (snd q)" for p :: "string \<times> hv" and q :: "string \<times> gv"
    using changes_frame [OF that changes_snoc, of "{}"] rep_footprint [OF that] by simp
  have fpk: "footprint ?st' (snd p) = footprint st (snd p) \<and> length st \<notin> footprint st (snd p)" if p: "p \<in> set hk" for p
    using list_all2_left [OF c(5) p] fr by blast
  have "list_all2 (\<lambda>p q. fst p = fst q \<and> (fst p \<notin> set [] \<longrightarrow> own ?st' (snd p) (snd q))) hk kvs"
    using c(5) by (rule list.rel_mono_strong) (use fr in blast)
  moreover have "own ?st' (HMap (length st)) (VObject [])" "footprint ?st' (HMap (length st)) = {length st}"
    by (auto intro!: rep_map simp: unshared_def mapAt_def objOk_def footprint_eq [of _ "HMap (length st)"])
  moreover have "sorted_wrt disjnt (map (footprint st) (map snd hk))" "\<forall>p \<in> set hk. rs \<notin> footprint st (snd p)"
    using c(2,4) by (auto simp: unshared_def mapAt_def)
  then have "\<forall>p \<in> set hk. \<forall>p' \<in> set hk. fst p \<noteq> fst p' \<longrightarrow> footprint st (snd p) \<inter> footprint st (snd p') = {}"
    by (induction hk) (auto simp: disjnt_def)
  ultimately have "projInv ?st' rs hk kvs [] (HMap (length st)) (VObject [])"
    unfolding projInv_def using c(1,2,4) fpk by (auto simp: nth_append unshared_def mapAt_def)
  then show ?thesis using src l by blast
qed

text \<open>The projection with copies is the projection, for terms that are independent of what they share.\<close>

lemma applyProjection_copies:
  assumes "clonesObjects (qeJson Q)" and "independent q (psTerms spec) []"
    and "decodeJSON (qeJson Q) raw = Inr (VObject kvs)"
  shows "applyProjectionLocked Q db dst q raw spec =
    (case copyTerms (qeEnv Q) db dst q (VObject kvs) True (psTerms spec) (VObject []) of
       Inl e \<Rightarrow> Inl e
     | Inr out \<Rightarrow> marshalJSON (qeJson Q) out)"
proof -
  obtain src st where l: "loadVal (capRead (qeCaps Q)) (VObject kvs) [] = (src, st)" by force
  obtain rs hk where s: "src = HMap rs" "own st src (VObject kvs)"
      "projInv (st @ [MapCell []]) rs hk kvs [] (HMap (length st)) (VObject [])"
    using projInv_start [OF l decodeJSON_value(2) [OF assms(3)]] by blast
  have "own (st @ [MapCell []]) (HMap rs) (VObject kvs)"
    using changes_frame(1) [OF s(2) changes_snoc, of "{}"] s(1) by simp
  then have "projTerms Q db dst q src True (psTerms spec) (HMap (length st), st @ [MapCell []])
      = Some (copyTerms (qeEnv Q) db dst q (VObject kvs) True (psTerms spec) (VObject []))"
    using projTerms_copy [OF s(3) assms(2) _ assms(1)] s(1) by blast
  then show ?thesis using assms(3) l by (simp add: applyProjectionLocked_def)
qed

section \<open>The properties of projections\<close>

text \<open>
  C15: the terms of a projection run to an end on every stored document: values in memory that share containers do not come to
  contain themselves.
\<close>

theorem projection_returns:
  "\<exists>r. (case loadVal (capRead (qeCaps Q)) v [] of (src, st) \<Rightarrow>
     projTerms Q db dst q src True ts (HMap (length st), st @ [MapCell []])) = Some r"
proof -
  obtain src st where l: "loadVal (capRead (qeCaps Q)) v [] = (src, st)" by force
  from load_levels(1) [OF l leveled_empty, of 0]
  obtain lv where lv: "leveled lv st" "levelAt lv st src 0" using extends_leveled by blast
  have e: "extends lv st (lv(length st := 0)) (st @ [MapCell []])" by (rule extends_snoc [OF lv(1)]) simp
  have "levelAt (lv(length st := 0)) (st @ [MapCell []]) (HMap (length st)) 0" by (simp add: mapAt_def)
  from projTerms_end [OF extends_leveled [OF e] extends_level [OF e lv(2)] this] show ?thesis by (simp add: l)
qed


definition fieldTerm :: "bool \<Rightarrow> string list \<Rightarrow> projectionTerm" where
  "fieldTerm incl ts = \<lparr>ptInclude = incl, ptAll = False, ptPath = \<lparr>ptParts = map (\<lambda>t. \<lparr>ppLiteral = t, ppPh = None\<rparr>) ts\<rparr>, ptJoin = ''''\<rparr>"

lemma fieldTerm_simps [simp]:
  "ptInclude (fieldTerm incl ts) = incl" "\<not> ptAll (fieldTerm incl ts)" "ptJoin (fieldTerm incl ts) = ''''"
  by (simp_all add: fieldTerm_def)

lemma fieldTerm_path [simp]: "pathResolve q (ptPath (fieldTerm incl [''a''])) = Inr ''/a''"
    "pathResolve q (ptPath (fieldTerm incl [''a'', ''b''])) = Inr ''/a/b''"
  by (simp_all add: fieldTerm_def pathResolve_def partResolve_def pointerEscapeToken_def HasPrefix_iff)

lemma small_pointers [simp]: "pointerTokens ''/a'' = Inr [''a'']" "pointerTokens ''/a/b'' = Inr [''a'', ''b'']"
  by (simp_all add: pointerTokens_def HasPrefix_iff unescapeToken_def)


text \<open>
  A member that was removed from an included value cannot be included again: the removal has changed the source. With copies
  it comes back.
\<close>

lemma projection_shares_source:
  fixes Q :: "'e queryEnv"
  defines "ts \<equiv> [fieldTerm True [''a''], fieldTerm False [''a'', ''b''], fieldTerm True [''a'', ''b'']]"
  shows "(case loadVal (\<lambda>_. 0) (VObject [(''a'', VObject [(''b'', VNil)])]) [] of (src, st) \<Rightarrow>
      projTerms Q db dst q src True ts (HMap (length st), st @ [MapCell []])) = Some (Inr (VObject [(''a'', VObject [])]))"
    and "copyTerms (qeEnv Q) db dst q (VObject [(''a'', VObject [(''b'', VNil)])]) True ts (VObject [])
      = Inr (VObject [(''a'', VObject [(''b'', VNil)])])"
  by (simp_all add: ts_def projInclude_def projExclude_def hPointerGet_def hPointerSet_def hPointerSetMode_def hSetLeaf_def
      hPointerRemove_def projValue_def projObject_def readAll_def mapAt_def copyInclude_def copyExclude_def pointerGet_def
      pointerSet_def pointerSetMode_def setLeaf_def pointerRemove_def seenByCaller_def objDel_def Contains_def HasPrefix_iff)

end
