(* ===== verification/QueryGrammar.thy ===== *)
theory QueryGrammar imports QueryParse begin

text \<open>
  The grammar of logical expressions, which the parsers of expressions and of filters share: what a token list
  stands for, as an inductive relation, and the proof that a recursive descent parser with the equations of
  the two parsers returns for every token list and accepts exactly the lists of the grammar. The locale is
  interpreted on both parsers.
\<close>

section \<open>Steps of a parser\<close>

text \<open>The step returns, and leaves fewer than \<open>k\<close> tokens when it succeeds.\<close>

definition returns :: "nat \<Rightarrow> 'v step \<Rightarrow> bool" where
  "returns k r = (case r of None \<Rightarrow> False | Some (Inl _) \<Rightarrow> True | Some (Inr (_, ts, _)) \<Rightarrow> length ts < k)"

lemma returns_simps [simp]: "\<not> returns k None" "returns k (Some (Inl e))" "returns k (Some (Inr (v, ts, ctx))) \<longleftrightarrow> length ts < k"
  by (simp_all add: returns_def)

lemma bindP_simps [simp]: "bindP None f = None" "bindP (Some (Inl e)) f = Some (Inl e)" "bindP (Some (Inr x)) f = f x"
  by (simp_all add: bindP_def)

lemma bindP_Inr: "bindP m f = Some (Inr y) \<longleftrightarrow> (\<exists>x. m = Some (Inr x) \<and> f x = Some (Inr y))"
  by (auto simp: bindP_def split: option.splits sum.splits)

lemma bindP_Some: "bindP m f = Some r \<Longrightarrow> (\<exists>e. m = Some (Inl e) \<and> r = Inl e) \<or> (\<exists>x. m = Some (Inr x) \<and> f x = Some r)"
  by (auto simp: bindP_def split: option.splits sum.splits)

lemma bindP_mono:
  assumes "bindP m f = Some r" and "\<And>r. m = Some r \<Longrightarrow> m' = Some r" and "\<And>x r. f x = Some r \<Longrightarrow> f' x = Some r"
  shows "bindP m' f' = Some r"
  using assms by (auto dest!: bindP_Some)

lemma returns_bindP:
  assumes "returns k m" and "\<And>v ts ctx. length ts < k \<Longrightarrow> returns k' (f (v, ts, ctx))"
  shows "returns k' (bindP m f)"
proof (cases m)
  case (Some r)
  then show ?thesis using assms by (cases r) auto
qed (use assms(1) in simp)

lemma returns_Some: "returns k r \<Longrightarrow> \<exists>x. r = Some x"
  by (cases r) auto

lemma returns_mono: "returns k r \<Longrightarrow> k \<le> k' \<Longrightarrow> returns k' r"
  by (auto simp: returns_def split: option.splits sum.splits)

text \<open>The next token has the kind.\<close>

definition next_is :: "tokenKind \<Rightarrow> token list \<Rightarrow> bool" where
  "next_is k ts \<longleftrightarrow> ts \<noteq> [] \<and> tokKind (hd ts) = k"

lemma next_is_simps [simp]: "\<not> next_is k []" "next_is k (t # ts) \<longleftrightarrow> tokKind t = k"
  by (simp_all add: next_is_def)

section \<open>The grammar\<close>

text \<open>
  A term is an atom, a group in parentheses or a negated term. A conjunction is a term and any number of
  further terms behind \<^verbatim>\<open>and\<close>, a disjunction the same of conjunctions behind \<^verbatim>\<open>or\<close>; both associate to the left. Atoms
  number the placeholders they contain through the context.
\<close>

inductive
  spellsTerm :: "(string \<Rightarrow> parseContext \<Rightarrow> 'v parsed) \<Rightarrow> ('v \<Rightarrow> 'v) \<Rightarrow> ('v \<Rightarrow> 'v) \<Rightarrow> ('v \<Rightarrow> 'v \<Rightarrow> 'v) \<Rightarrow> ('v \<Rightarrow> 'v \<Rightarrow> 'v)
    \<Rightarrow> token list \<Rightarrow> parseContext \<Rightarrow> 'v \<Rightarrow> parseContext \<Rightarrow> bool"
  and spellsAnds :: "(string \<Rightarrow> parseContext \<Rightarrow> 'v parsed) \<Rightarrow> ('v \<Rightarrow> 'v) \<Rightarrow> ('v \<Rightarrow> 'v) \<Rightarrow> ('v \<Rightarrow> 'v \<Rightarrow> 'v) \<Rightarrow> ('v \<Rightarrow> 'v \<Rightarrow> 'v)
    \<Rightarrow> 'v \<Rightarrow> token list \<Rightarrow> parseContext \<Rightarrow> 'v \<Rightarrow> parseContext \<Rightarrow> bool"
  and spellsAnd :: "(string \<Rightarrow> parseContext \<Rightarrow> 'v parsed) \<Rightarrow> ('v \<Rightarrow> 'v) \<Rightarrow> ('v \<Rightarrow> 'v) \<Rightarrow> ('v \<Rightarrow> 'v \<Rightarrow> 'v) \<Rightarrow> ('v \<Rightarrow> 'v \<Rightarrow> 'v)
    \<Rightarrow> token list \<Rightarrow> parseContext \<Rightarrow> 'v \<Rightarrow> parseContext \<Rightarrow> bool"
  and spellsOrs :: "(string \<Rightarrow> parseContext \<Rightarrow> 'v parsed) \<Rightarrow> ('v \<Rightarrow> 'v) \<Rightarrow> ('v \<Rightarrow> 'v) \<Rightarrow> ('v \<Rightarrow> 'v \<Rightarrow> 'v) \<Rightarrow> ('v \<Rightarrow> 'v \<Rightarrow> 'v)
    \<Rightarrow> 'v \<Rightarrow> token list \<Rightarrow> parseContext \<Rightarrow> 'v \<Rightarrow> parseContext \<Rightarrow> bool"
  and spellsOr :: "(string \<Rightarrow> parseContext \<Rightarrow> 'v parsed) \<Rightarrow> ('v \<Rightarrow> 'v) \<Rightarrow> ('v \<Rightarrow> 'v) \<Rightarrow> ('v \<Rightarrow> 'v \<Rightarrow> 'v) \<Rightarrow> ('v \<Rightarrow> 'v \<Rightarrow> 'v)
    \<Rightarrow> token list \<Rightarrow> parseContext \<Rightarrow> 'v \<Rightarrow> parseContext \<Rightarrow> bool"
  for atom grp neg conj disj where
  term_atom: "tokKind t = tkAtom \<Longrightarrow> atom (tokText t) ctx = Inr (v, ctx') \<Longrightarrow>
    spellsTerm atom grp neg conj disj [t] ctx v ctx'"
| term_group: "tokKind t = tkLParen \<Longrightarrow> spellsOr atom grp neg conj disj ts ctx v ctx' \<Longrightarrow> tokKind u = tkRParen \<Longrightarrow>
    spellsTerm atom grp neg conj disj (t # ts @ [u]) ctx (grp v) ctx'"
| term_not: "tokKind t = tkNot \<Longrightarrow> spellsTerm atom grp neg conj disj ts ctx v ctx' \<Longrightarrow>
    spellsTerm atom grp neg conj disj (t # ts) ctx (neg v) ctx'"
| ands_Nil: "spellsAnds atom grp neg conj disj l [] ctx l ctx"
| ands_Cons: "tokKind t = tkAnd \<Longrightarrow> spellsTerm atom grp neg conj disj ts ctx r ctx1 \<Longrightarrow>
    spellsAnds atom grp neg conj disj (conj l r) us ctx1 v ctx2 \<Longrightarrow> spellsAnds atom grp neg conj disj l (t # ts @ us) ctx v ctx2"
| and_start: "spellsTerm atom grp neg conj disj ts ctx l ctx1 \<Longrightarrow> spellsAnds atom grp neg conj disj l us ctx1 v ctx2 \<Longrightarrow>
    spellsAnd atom grp neg conj disj (ts @ us) ctx v ctx2"
| ors_Nil: "spellsOrs atom grp neg conj disj l [] ctx l ctx"
| ors_Cons: "tokKind t = tkOr \<Longrightarrow> spellsAnd atom grp neg conj disj ts ctx r ctx1 \<Longrightarrow>
    spellsOrs atom grp neg conj disj (disj l r) us ctx1 v ctx2 \<Longrightarrow> spellsOrs atom grp neg conj disj l (t # ts @ us) ctx v ctx2"
| or_start: "spellsAnd atom grp neg conj disj ts ctx l ctx1 \<Longrightarrow> spellsOrs atom grp neg conj disj l us ctx1 v ctx2 \<Longrightarrow>
    spellsOr atom grp neg conj disj (ts @ us) ctx v ctx2"

section \<open>Recursive descent\<close>

locale logical_parser =
  fixes atom :: "string \<Rightarrow> parseContext \<Rightarrow> 'v parsed" and grp neg :: "'v \<Rightarrow> 'v" and conj disj :: "'v \<Rightarrow> 'v \<Rightarrow> 'v"
    and primary unary :: "'v parser \<Rightarrow> 'v parser" and andLoop orLoop :: "'v parser \<Rightarrow> nat \<Rightarrow> 'v \<Rightarrow> 'v parser"
    and andP :: "'v parser \<Rightarrow> nat \<Rightarrow> 'v parser" and orP :: "nat \<Rightarrow> 'v parser"
  assumes primary_Nil: "primary p [] ctx = Some (Inl (Coded CodeInvalidQuery))"
    and primary_Cons: "primary p (t # ts) ctx =
      (if tokKind t = tkLParen then
         bindP (p ts ctx) (\<lambda>(v, ts, ctx). if next_is tkRParen ts then Some (Inr (grp v, tl ts, ctx)) else Some (Inl (Coded CodeInvalidQuery)))
       else if tokKind t = tkAtom then
         (case atom (tokText t) ctx of Inl e \<Rightarrow> Some (Inl e) | Inr (v, ctx) \<Rightarrow> Some (Inr (v, ts, ctx)))
       else Some (Inl (Coded CodeInvalidQuery)))"
    and unary: "unary p ts ctx =
      (if next_is tkNot ts then bindP (unary p (tl ts) ctx) (\<lambda>(v, ts, ctx). Some (Inr (neg v, ts, ctx))) else primary p ts ctx)"
    and andLoop: "andLoop p (Suc n) l ts ctx =
      (if next_is tkAnd ts then bindP (unary p (tl ts) ctx) (\<lambda>(r, ts, ctx). andLoop p n (conj l r) ts ctx) else Some (Inr (l, ts, ctx)))"
    and andP: "andP p n ts ctx = bindP (unary p ts ctx) (\<lambda>(l, ts, ctx). andLoop p n l ts ctx)"
    and orLoop: "orLoop p (Suc n) l ts ctx =
      (if next_is tkOr ts then bindP (andP p n (tl ts) ctx) (\<lambda>(r, ts, ctx). orLoop p n (disj l r) ts ctx) else Some (Inr (l, ts, ctx)))"
    and orP: "orP (Suc n) ts ctx =
      bindP (andP (orP n) (Suc n) ts ctx) (\<lambda>(l, ts, ctx). orLoop (orP n) (Suc n) l ts ctx)"
    and no_rounds: "andLoop p 0 l ts ctx = None" "orLoop p 0 l ts ctx = None" "orP 0 ts ctx = None"
begin

lemma primary_returns:
  assumes "\<And>ts' ctx. length ts' < length ts \<Longrightarrow> returns (length ts') (p ts' ctx)"
  shows "returns (length ts) (primary p ts ctx)"
proof (cases ts)
  case (Cons t ts')
  have "returns (length ts') (p ts' ctx)" using assms [of ts'] Cons by simp
  then show ?thesis
    by (auto simp: Cons primary_Cons next_is_def less_Suc_eq split: sum.splits intro!: returns_bindP)
qed (simp add: primary_Nil)

lemma unary_returns:
  assumes "\<And>ts' ctx. length ts' < length ts \<Longrightarrow> returns (length ts') (p ts' ctx)"
  shows "returns (length ts) (unary p ts ctx)"
  using assms
proof (induction ts arbitrary: ctx)
  case Nil
  then show ?case by (subst unary) (simp add: primary_Nil)
next
  case (Cons t ts)
  have "returns (length ts) (unary p ts ctx)" using Cons by (simp add: less_SucI)
  moreover have "returns (length (t # ts)) (primary p (t # ts) ctx)" by (rule primary_returns) (use Cons.prems in blast)
  ultimately show ?case by (subst unary) (auto intro!: returns_bindP)
qed

lemma andLoop_returns:
  assumes "\<And>ts' ctx. length ts' < length ts \<Longrightarrow> returns (length ts') (p ts' ctx)" and "length ts < n"
  shows "returns (Suc (length ts)) (andLoop p n l ts ctx)"
  using assms
proof (induction n arbitrary: l ts ctx)
  case (Suc n)
  show ?case
  proof (cases "next_is tkAnd ts")
    case True
    then obtain t ts' where ts: "ts = t # ts'" by (cases ts) auto
    have "returns (length ts') (unary p ts' ctx)" by (rule unary_returns) (use Suc.prems ts in simp)
    then show ?thesis using True Suc.prems
      by (auto simp: ts andLoop intro!: returns_bindP returns_mono [OF Suc.IH])
  qed (simp add: andLoop)
qed simp

lemma andP_returns:
  assumes "\<And>ts' ctx. length ts' < length ts \<Longrightarrow> returns (length ts') (p ts' ctx)" and "length ts \<le> n"
  shows "returns (length ts) (andP p n ts ctx)"
  unfolding andP
  by (rule returns_bindP [OF unary_returns [OF assms(1)]]) (use assms in \<open>auto intro!: returns_mono [OF andLoop_returns]\<close>)

lemma orLoop_returns:
  assumes "\<And>ts' ctx. length ts' < length ts \<Longrightarrow> returns (length ts') (p ts' ctx)" and "length ts < n"
  shows "returns (Suc (length ts)) (orLoop p n l ts ctx)"
  using assms
proof (induction n arbitrary: l ts ctx)
  case (Suc n)
  show ?case
  proof (cases "next_is tkOr ts")
    case True
    then obtain t ts' where ts: "ts = t # ts'" by (cases ts) auto
    have "returns (length ts') (andP p n ts' ctx)" by (rule andP_returns) (use Suc.prems ts in simp_all)
    then show ?thesis using True Suc.prems
      by (auto simp: ts orLoop intro!: returns_bindP returns_mono [OF Suc.IH])
  qed (simp add: orLoop)
qed simp

text \<open>A bound above the number of tokens is enough.\<close>

lemma orP_returns: "length ts < n \<Longrightarrow> returns (length ts) (orP n ts ctx)"
proof (induction n arbitrary: ts ctx)
  case (Suc n)
  have p: "returns (length ts') (orP n ts' ctx)" if "length ts' < length ts" for ts' ctx
    by (rule Suc.IH) (use that Suc.prems in simp)
  show ?case unfolding orP
    by (rule returns_bindP [OF andP_returns [OF p]]) (use Suc.prems p in \<open>auto intro!: returns_mono [OF orLoop_returns]\<close>)
qed simp

text \<open>A larger bound does not change a result.\<close>

lemma primary_mono: "(\<And>ts ctx r. p ts ctx = Some r \<Longrightarrow> q ts ctx = Some r) \<Longrightarrow> primary p ts ctx = Some r \<Longrightarrow> primary q ts ctx = Some r"
  by (cases ts) (auto simp: primary_Nil primary_Cons split: if_splits dest!: bindP_Some)

lemma unary_mono:
  assumes "\<And>ts ctx r. p ts ctx = Some r \<Longrightarrow> q ts ctx = Some r" and "unary p ts ctx = Some r"
  shows "unary q ts ctx = Some r"
  using assms(2)
proof (induction ts arbitrary: ctx r)
  case Nil
  then show ?case by (simp add: unary [of _ "[]"] primary_Nil)
next
  case (Cons t ts)
  show ?case
  proof (cases "tokKind t = tkNot")
    case True
    then show ?thesis using Cons.prems Cons.IH by (auto simp: unary [of _ "t # ts"] elim: bindP_mono)
  next
    case False
    then show ?thesis using Cons.prems primary_mono [OF assms(1)] by (simp add: unary [of _ "t # ts"])
  qed
qed

lemma andLoop_mono:
  assumes p: "\<And>ts ctx r. p ts ctx = Some r \<Longrightarrow> q ts ctx = Some r" and "n \<le> n'" and "andLoop p n l ts ctx = Some r"
  shows "andLoop q n' l ts ctx = Some r"
  using assms(2,3)
proof (induction n arbitrary: n' l ts ctx r)
  case (Suc n)
  obtain k where n': "n' = Suc k" and "n \<le> k" using Suc.prems(1) by (cases n') auto
  then show ?case using Suc.prems(2) Suc.IH [of k]
    by (auto simp: andLoop split: if_splits elim!: bindP_mono intro: unary_mono [OF p])
qed (simp add: no_rounds)

lemma andP_mono:
  assumes p: "\<And>ts ctx r. p ts ctx = Some r \<Longrightarrow> q ts ctx = Some r" and "n \<le> n'" and "andP p n ts ctx = Some r"
  shows "andP q n' ts ctx = Some r"
  using assms(2,3) by (auto simp: andP elim!: bindP_mono intro: unary_mono [OF p] andLoop_mono [OF p])

lemma orLoop_mono:
  assumes p: "\<And>ts ctx r. p ts ctx = Some r \<Longrightarrow> q ts ctx = Some r" and "n \<le> n'" and "orLoop p n l ts ctx = Some r"
  shows "orLoop q n' l ts ctx = Some r"
  using assms(2,3)
proof (induction n arbitrary: n' l ts ctx r)
  case (Suc n)
  obtain k where n': "n' = Suc k" and "n \<le> k" using Suc.prems(1) by (cases n') auto
  then show ?case using Suc.prems(2) Suc.IH [of k]
    by (auto simp: orLoop split: if_splits elim!: bindP_mono intro: andP_mono [OF p])
qed (simp add: no_rounds)

lemma orP_mono: "n \<le> n' \<Longrightarrow> orP n ts ctx = Some r \<Longrightarrow> orP n' ts ctx = Some r"
proof (induction n arbitrary: n' ts ctx r)
  case (Suc n)
  obtain k where n': "n' = Suc k" and k: "n \<le> k" using Suc.prems(1) by (cases n') auto
  have p: "orP n ts ctx = Some r \<Longrightarrow> orP k ts ctx = Some r" for ts ctx r by (rule Suc.IH [OF k])
  show ?case using Suc.prems(2) k
    by (auto simp: n' orP elim!: bindP_mono intro: andP_mono [OF p] orLoop_mono [OF p])
qed (simp add: no_rounds)

text \<open>What is parsed is in the grammar.\<close>

abbreviation "gTerm \<equiv> spellsTerm atom grp neg conj disj"
abbreviation "gAnds \<equiv> spellsAnds atom grp neg conj disj"
abbreviation "gAnd \<equiv> spellsAnd atom grp neg conj disj"
abbreviation "gOrs \<equiv> spellsOrs atom grp neg conj disj"
abbreviation "gOr \<equiv> spellsOr atom grp neg conj disj"

lemma primary_sound:
  assumes p: "\<And>ts ctx v rest ctx'. p ts ctx = Some (Inr (v, rest, ctx')) \<Longrightarrow> \<exists>us. ts = us @ rest \<and> gOr us ctx v ctx'"
    and "primary p ts ctx = Some (Inr (v, rest, ctx'))"
  shows "\<exists>us. ts = us @ rest \<and> gTerm us ctx v ctx'"
proof (cases ts)
  case (Cons t ts')
  show ?thesis
  proof (cases "tokKind t = tkLParen")
    case True
    then obtain v0 rest0 where v0: "p ts' ctx = Some (Inr (v0, rest0, ctx'))" "next_is tkRParen rest0" "v = grp v0" "rest = tl rest0"
      using assms(2) Cons by (auto simp: primary_Cons bindP_Inr split: if_splits)
    obtain us where us: "ts' = us @ rest0" "gOr us ctx v0 ctx'" using p [OF v0(1)] by blast
    obtain u where u: "rest0 = u # rest" "tokKind u = tkRParen" using v0(2,4) by (cases rest0) auto
    show ?thesis using term_group [OF True us(2) u(2)] Cons us(1) u(1) v0(3)
      by (intro exI [of _ "t # us @ [u]"]) simp
  next
    case False
    then show ?thesis using assms(2) Cons
      by (auto simp: primary_Cons split: if_splits sum.splits intro!: exI [of _ "[t]"] term_atom)
  qed
qed (use assms(2) in \<open>simp add: primary_Nil\<close>)

lemma unary_sound:
  assumes p: "\<And>ts ctx v rest ctx'. p ts ctx = Some (Inr (v, rest, ctx')) \<Longrightarrow> \<exists>us. ts = us @ rest \<and> gOr us ctx v ctx'"
    and "unary p ts ctx = Some (Inr (v, rest, ctx'))"
  shows "\<exists>us. ts = us @ rest \<and> gTerm us ctx v ctx'"
  using assms(2)
proof (induction ts arbitrary: ctx v)
  case Nil
  then show ?case by (simp add: unary [of _ "[]"] primary_Nil)
next
  case (Cons t ts)
  show ?case
  proof (cases "tokKind t = tkNot")
    case True
    then obtain v0 where v0: "unary p ts ctx = Some (Inr (v0, rest, ctx'))" "v = neg v0"
      using Cons.prems by (auto simp: unary [of _ "t # ts"] bindP_Inr)
    then obtain us where "ts = us @ rest" "gTerm us ctx v0 ctx'" using Cons.IH by blast
    then show ?thesis using term_not [OF True] v0(2) by (intro exI [of _ "t # us"]) simp
  next
    case False
    then show ?thesis using Cons.prems by (intro primary_sound [OF p]) (simp_all add: unary [of _ "t # ts"])
  qed
qed

lemma andLoop_sound:
  assumes p: "\<And>ts ctx v rest ctx'. p ts ctx = Some (Inr (v, rest, ctx')) \<Longrightarrow> \<exists>us. ts = us @ rest \<and> gOr us ctx v ctx'"
    and "andLoop p n l ts ctx = Some (Inr (v, rest, ctx'))"
  shows "\<exists>us. ts = us @ rest \<and> gAnds l us ctx v ctx'"
  using assms(2)
proof (induction n arbitrary: l ts ctx)
  case (Suc n)
  show ?case
  proof (cases "next_is tkAnd ts")
    case True
    then obtain t ts' where ts: "ts = t # ts'" "tokKind t = tkAnd" by (cases ts) auto
    then obtain r rest0 ctx0 where r: "unary p ts' ctx = Some (Inr (r, rest0, ctx0))"
        and rest: "andLoop p n (conj l r) rest0 ctx0 = Some (Inr (v, rest, ctx'))"
      using Suc.prems by (auto simp: andLoop bindP_Inr)
    obtain us where us: "ts' = us @ rest0" "gTerm us ctx r ctx0" using unary_sound [OF p r] by blast
    obtain ws where ws: "rest0 = ws @ rest" "gAnds (conj l r) ws ctx0 v ctx'" using Suc.IH [OF rest] by blast
    show ?thesis using ands_Cons [OF ts(2) us(2) ws(2)] ts(1) us(1) ws(1) by (intro exI [of _ "t # us @ ws"]) simp
  qed (use Suc.prems in \<open>auto simp: andLoop intro: ands_Nil\<close>)
qed (simp add: no_rounds)

lemma andP_sound:
  assumes p: "\<And>ts ctx v rest ctx'. p ts ctx = Some (Inr (v, rest, ctx')) \<Longrightarrow> \<exists>us. ts = us @ rest \<and> gOr us ctx v ctx'"
    and "andP p n ts ctx = Some (Inr (v, rest, ctx'))"
  shows "\<exists>us. ts = us @ rest \<and> gAnd us ctx v ctx'"
proof -
  obtain l rest0 ctx0 where l: "unary p ts ctx = Some (Inr (l, rest0, ctx0))" "andLoop p n l rest0 ctx0 = Some (Inr (v, rest, ctx'))"
    using assms(2) by (auto simp: andP bindP_Inr)
  obtain us where us: "ts = us @ rest0" "gTerm us ctx l ctx0" using unary_sound [OF p l(1)] by blast
  obtain ws where "rest0 = ws @ rest" "gAnds l ws ctx0 v ctx'" using andLoop_sound [OF p l(2)] by blast
  then show ?thesis using and_start [OF us(2)] us(1) by auto
qed

lemma orLoop_sound:
  assumes p: "\<And>ts ctx v rest ctx'. p ts ctx = Some (Inr (v, rest, ctx')) \<Longrightarrow> \<exists>us. ts = us @ rest \<and> gOr us ctx v ctx'"
    and "orLoop p n l ts ctx = Some (Inr (v, rest, ctx'))"
  shows "\<exists>us. ts = us @ rest \<and> gOrs l us ctx v ctx'"
  using assms(2)
proof (induction n arbitrary: l ts ctx)
  case (Suc n)
  show ?case
  proof (cases "next_is tkOr ts")
    case True
    then obtain t ts' where ts: "ts = t # ts'" "tokKind t = tkOr" by (cases ts) auto
    then obtain r rest0 ctx0 where r: "andP p n ts' ctx = Some (Inr (r, rest0, ctx0))"
        and rest: "orLoop p n (disj l r) rest0 ctx0 = Some (Inr (v, rest, ctx'))"
      using Suc.prems by (auto simp: orLoop bindP_Inr)
    obtain us where us: "ts' = us @ rest0" "gAnd us ctx r ctx0" using andP_sound [OF p r] by blast
    obtain ws where ws: "rest0 = ws @ rest" "gOrs (disj l r) ws ctx0 v ctx'" using Suc.IH [OF rest] by blast
    show ?thesis using ors_Cons [OF ts(2) us(2) ws(2)] ts(1) us(1) ws(1) by (intro exI [of _ "t # us @ ws"]) simp
  qed (use Suc.prems in \<open>auto simp: orLoop intro: ors_Nil\<close>)
qed (simp add: no_rounds)

lemma orP_sound: "orP n ts ctx = Some (Inr (v, rest, ctx')) \<Longrightarrow> \<exists>us. ts = us @ rest \<and> gOr us ctx v ctx'"
proof (induction n arbitrary: ts ctx v rest ctx')
  case (Suc n)
  obtain l rest0 ctx0 where l: "andP (orP n) (Suc n) ts ctx = Some (Inr (l, rest0, ctx0))"
      "orLoop (orP n) (Suc n) l rest0 ctx0 = Some (Inr (v, rest, ctx'))"
    using Suc.prems by (auto simp: orP bindP_Inr)
  obtain us where us: "ts = us @ rest0" "gAnd us ctx l ctx0" using andP_sound [OF Suc.IH l(1)] by blast
  obtain ws where "rest0 = ws @ rest" "gOrs l ws ctx0 v ctx'" using orLoop_sound [OF Suc.IH l(2)] by blast
  then show ?case using or_start [OF us(2)] us(1) by auto
qed (simp add: no_rounds)

text \<open>What is in the grammar is parsed, with a large enough bound, up to a token that does not continue it.\<close>

lemma complete:
  "gTerm ts ctx v ctx' \<Longrightarrow> \<exists>m. \<forall>k \<ge> m. \<forall>rest. unary (orP k) (ts @ rest) ctx = Some (Inr (v, rest, ctx'))"
  "gAnds l ts ctx v ctx' \<Longrightarrow> \<exists>m. \<forall>k \<ge> m. \<forall>n \<ge> m. \<forall>rest. \<not> next_is tkAnd rest \<longrightarrow>
     andLoop (orP k) n l (ts @ rest) ctx = Some (Inr (v, rest, ctx'))"
  "gAnd ts ctx v ctx' \<Longrightarrow> \<exists>m. \<forall>k \<ge> m. \<forall>n \<ge> m. \<forall>rest. \<not> next_is tkAnd rest \<longrightarrow>
     andP (orP k) n (ts @ rest) ctx = Some (Inr (v, rest, ctx'))"
  "gOrs l ts ctx v ctx' \<Longrightarrow> (ts \<noteq> [] \<longrightarrow> next_is tkOr ts) \<and> (\<exists>m. \<forall>k \<ge> m. \<forall>n \<ge> m. \<forall>rest.
     \<not> next_is tkAnd rest \<and> \<not> next_is tkOr rest \<longrightarrow> orLoop (orP k) n l (ts @ rest) ctx = Some (Inr (v, rest, ctx')))"
  "gOr ts ctx v ctx' \<Longrightarrow> \<exists>m. \<forall>k \<ge> m. \<forall>rest. \<not> next_is tkAnd rest \<and> \<not> next_is tkOr rest \<longrightarrow>
     orP k (ts @ rest) ctx = Some (Inr (v, rest, ctx'))"
proof (induction rule: spellsTerm_spellsAnds_spellsAnd_spellsOrs_spellsOr.inducts)
  case (term_atom t ctx v ctx')
  then show ?case by (simp add: unary [of _ "t # _"] primary_Cons)
next
  case (term_group t ts ctx v ctx' u)
  then obtain m where m: "\<And>k rest. m \<le> k \<Longrightarrow> \<not> next_is tkAnd rest \<Longrightarrow> \<not> next_is tkOr rest \<Longrightarrow>
      orP k (ts @ rest) ctx = Some (Inr (v, rest, ctx'))" by blast
  have "unary (orP k) ((t # ts @ [u]) @ rest) ctx = Some (Inr (grp v, rest, ctx'))" if "m \<le> k" for k rest
    using m [OF that, of "u # rest"] term_group.hyps by (simp add: unary [of _ "t # _"] primary_Cons)
  then show ?case by blast
next
  case (term_not t ts ctx v ctx')
  then obtain m where m: "\<And>k rest. m \<le> k \<Longrightarrow> unary (orP k) (ts @ rest) ctx = Some (Inr (v, rest, ctx'))" by blast
  have "unary (orP k) ((t # ts) @ rest) ctx = Some (Inr (neg v, rest, ctx'))" if "m \<le> k" for k rest
    using m [OF that] term_not.hyps by (simp add: unary [of _ "t # _"])
  then show ?case by blast
next
  case (ands_Nil l ctx)
  have "andLoop (orP k) n l ([] @ rest) ctx = Some (Inr (l, rest, ctx))" if "1 \<le> n" "\<not> next_is tkAnd rest" for k n rest
    using that by (cases n) (simp_all add: andLoop)
  then show ?case by blast
next
  case (ands_Cons t ts ctx r ctx1 l us v ctx2)
  obtain m1 where m1: "\<And>k rest. m1 \<le> k \<Longrightarrow> unary (orP k) (ts @ rest) ctx = Some (Inr (r, rest, ctx1))"
    using ands_Cons.IH(2) by blast
  obtain m2 where m2: "\<And>k n rest. m2 \<le> k \<Longrightarrow> m2 \<le> n \<Longrightarrow> \<not> next_is tkAnd rest \<Longrightarrow>
      andLoop (orP k) n (conj l r) (us @ rest) ctx1 = Some (Inr (v, rest, ctx2))" using ands_Cons.IH(4) by blast
  have "andLoop (orP k) n l ((t # ts @ us) @ rest) ctx = Some (Inr (v, rest, ctx2))"
    if "max m1 (Suc m2) \<le> k" "max m1 (Suc m2) \<le> n" "\<not> next_is tkAnd rest" for k n rest
    using that m1 [of k "us @ rest"] m2 [of k "n - 1" rest] ands_Cons.hyps(1) by (cases n) (simp_all add: andLoop)
  then show ?case by blast
next
  case (and_start ts ctx l ctx1 us v ctx2)
  obtain m1 where m1: "\<And>k rest. m1 \<le> k \<Longrightarrow> unary (orP k) (ts @ rest) ctx = Some (Inr (l, rest, ctx1))"
    using and_start.IH(2) by blast
  obtain m2 where m2: "\<And>k n rest. m2 \<le> k \<Longrightarrow> m2 \<le> n \<Longrightarrow> \<not> next_is tkAnd rest \<Longrightarrow>
      andLoop (orP k) n l (us @ rest) ctx1 = Some (Inr (v, rest, ctx2))" using and_start.IH(4) by blast
  have "andP (orP k) n ((ts @ us) @ rest) ctx = Some (Inr (v, rest, ctx2))"
    if "max m1 m2 \<le> k" "max m1 m2 \<le> n" "\<not> next_is tkAnd rest" for k n rest
    using that m1 [of k "us @ rest"] m2 [of k n rest] by (simp add: andP)
  then show ?case by blast
next
  case (ors_Nil l ctx)
  have "orLoop (orP k) n l ([] @ rest) ctx = Some (Inr (l, rest, ctx))" if "1 \<le> n" "\<not> next_is tkOr rest" for k n rest
    using that by (cases n) (simp_all add: orLoop)
  then show ?case by blast
next
  case (ors_Cons t ts ctx r ctx1 l us v ctx2)
  obtain m1 where m1: "\<And>k n rest. m1 \<le> k \<Longrightarrow> m1 \<le> n \<Longrightarrow> \<not> next_is tkAnd rest \<Longrightarrow>
      andP (orP k) n (ts @ rest) ctx = Some (Inr (r, rest, ctx1))" using ors_Cons.IH(2) by blast
  obtain m2 where m2: "\<And>k n rest. m2 \<le> k \<Longrightarrow> m2 \<le> n \<Longrightarrow> \<not> next_is tkAnd rest \<Longrightarrow> \<not> next_is tkOr rest \<Longrightarrow>
      orLoop (orP k) n (disj l r) (us @ rest) ctx1 = Some (Inr (v, rest, ctx2))" using ors_Cons.IH(4) by blast
  have cont: "\<not> next_is tkAnd (us @ rest)" if "\<not> next_is tkAnd rest" for rest
    using ors_Cons.IH(4) that by (cases us) auto
  have "orLoop (orP k) n l ((t # ts @ us) @ rest) ctx = Some (Inr (v, rest, ctx2))"
    if "Suc (max m1 m2) \<le> k" "Suc (max m1 m2) \<le> n" "\<not> next_is tkAnd rest" "\<not> next_is tkOr rest" for k n rest
    using that m1 [of k "n - 1" "us @ rest"] m2 [of k "n - 1" rest] cont ors_Cons.hyps(1) by (cases n) (simp_all add: orLoop)
  moreover have "next_is tkOr (t # ts @ us)" using ors_Cons.hyps(1) by simp
  ultimately show ?case by blast
next
  case (or_start ts ctx l ctx1 us v ctx2)
  obtain m1 where m1: "\<And>k n rest. m1 \<le> k \<Longrightarrow> m1 \<le> n \<Longrightarrow> \<not> next_is tkAnd rest \<Longrightarrow>
      andP (orP k) n (ts @ rest) ctx = Some (Inr (l, rest, ctx1))" using or_start.IH(2) by blast
  obtain m2 where m2: "\<And>k n rest. m2 \<le> k \<Longrightarrow> m2 \<le> n \<Longrightarrow> \<not> next_is tkAnd rest \<Longrightarrow> \<not> next_is tkOr rest \<Longrightarrow>
      orLoop (orP k) n l (us @ rest) ctx1 = Some (Inr (v, rest, ctx2))" using or_start.IH(4) by blast
  have cont: "\<not> next_is tkAnd (us @ rest)" if "\<not> next_is tkAnd rest" for rest
    using or_start.IH(4) that by (cases us) auto
  have "orP k ((ts @ us) @ rest) ctx = Some (Inr (v, rest, ctx2))"
    if "Suc (max m1 m2) \<le> k" "\<not> next_is tkAnd rest" "\<not> next_is tkOr rest" for k rest
    using that m1 [of "k - 1" k "us @ rest"] m2 [of "k - 1" k rest] cont by (cases k) (simp_all add: orP)
  then show ?case by blast
qed

text \<open>The whole token list.\<close>

lemma parse_iff: "orP (length ts + 1) ts ctx = Some (Inr (v, [], ctx')) \<longleftrightarrow> gOr ts ctx v ctx'"
proof
  assume "orP (length ts + 1) ts ctx = Some (Inr (v, [], ctx'))"
  then show "gOr ts ctx v ctx'" using orP_sound by fastforce
next
  assume "gOr ts ctx v ctx'"
  then obtain m where "\<forall>k \<ge> m. \<forall>rest. \<not> next_is tkAnd rest \<and> \<not> next_is tkOr rest \<longrightarrow> orP k (ts @ rest) ctx = Some (Inr (v, rest, ctx'))"
    using complete(5) by blast
  then have m: "orP (max m (length ts + 1)) (ts @ []) ctx = Some (Inr (v, [], ctx'))"
    using next_is_simps(1) max.cobounded1 by blast
  have "returns (length ts) (orP (length ts + 1) ts ctx)" by (rule orP_returns) simp
  then obtain r where r: "orP (length ts + 1) ts ctx = Some r" by (cases "orP (length ts + 1) ts ctx") auto
  then have "orP (max m (length ts + 1)) ts ctx = Some r" by (rule orP_mono [rotated]) simp
  then show "orP (length ts + 1) ts ctx = Some (Inr (v, [], ctx'))" using m r by simp
qed

end

section \<open>The two parsers\<close>

definition exprAtomP :: "json_lib \<Rightarrow> string \<Rightarrow> parseContext \<Rightarrow> exprNode parsed" where
  "exprAtomP J s ctx = map_sum (\<lambda>e. e) (\<lambda>(c, ctx). (exprCmp c, ctx)) (parseComparison J s ctx)"

interpretation expr: logical_parser "exprAtomP J" exprGroup exprNot exprAnd exprOr
    "parseExprPrimary J" "parseExprUnary J" "parseExprAndLoop J" "parseExprOrLoop J" "parseExprAnd J" "parseExprOr J" for J
proof
  show "parseExprUnary J p ts ctx = (if next_is tkNot ts
      then bindP (parseExprUnary J p (tl ts) ctx) (\<lambda>(v, ts, ctx). Some (Inr (exprNot v, ts, ctx))) else parseExprPrimary J p ts ctx)" for p ts ctx
    by (cases ts) auto
qed (auto simp: parseExprPrimary_def parseExprAnd_def next_is_def exprAtomP_def split: tokenKind.splits sum.splits prod.splits intro!: arg_cong2 [where f = bindP])

text \<open>The parser of filters, whose values carry the collection of the leftmost anchor.\<close>

definition filterAtomP :: "json_lib \<Rightarrow> string \<Rightarrow> parseContext \<Rightarrow> filterRes parsed" where
  "filterAtomP J s ctx = map_sum (\<lambda>e. e) (\<lambda>((f, coll), ctx). ((filterAtom f, coll), ctx)) (parseFilterAtom J s ctx)"

definition withColl :: "(filterNode \<Rightarrow> filterNode \<Rightarrow> filterNode) \<Rightarrow> filterRes \<Rightarrow> filterRes \<Rightarrow> filterRes" where
  "withColl f l r = (f (fst l) (fst r), if snd l = '''' then snd r else snd l)"

interpretation filt: logical_parser "filterAtomP J" "\<lambda>(f, c). (filterGroup f, c)" "\<lambda>(f, c). (filterNot f, c)"
    "withColl filterAnd" "withColl filterOr"
    "parseFilterPrimary J" "parseFilterUnary J" "parseFilterAndLoop J" "parseFilterOrLoop J" "parseFilterAnd J" "parseFilterOr J" for J
proof
  show "parseFilterUnary J p ts ctx = (if next_is tkNot ts
      then bindP (parseFilterUnary J p (tl ts) ctx) (\<lambda>(v, ts, ctx). Some (Inr (case v of (f, c) \<Rightarrow> (filterNot f, c), ts, ctx)))
      else parseFilterPrimary J p ts ctx)" for p ts ctx
    by (cases ts) (auto intro!: arg_cong2 [where f = bindP])
qed (auto simp: parseFilterPrimary_def parseFilterAnd_def next_is_def filterAtomP_def withColl_def
    split: tokenKind.splits sum.splits prod.splits intro!: arg_cong2 [where f = bindP])

section \<open>The properties\<close>

text \<open>
  C25: termination. For every list of tokens the parser of expressions and the parser of filters return a node or an error: the
  bound on their recursion and their loops is never reached.
\<close>

theorem parser_returns:
  "(\<exists>r. parseExprOr J (length toks + 1) toks ctx = Some r) \<and> (\<exists>r. parseFilterOr J (length toks + 1) toks ctx = Some r)"
  using returns_Some [OF expr.orP_returns [of toks "length toks + 1" J ctx]]
    returns_Some [OF filt.orP_returns [of toks "length toks + 1" J ctx]] by simp

text \<open>
  C24: equivalence. A text parses to an expression, or to a filter, exactly when its tokens are spelled by the
  grammar for it: \<^verbatim>\<open>not\<close> binds tighter than \<^verbatim>\<open>and\<close>, \<^verbatim>\<open>and\<close> tighter than \<^verbatim>\<open>or\<close>, both associate to the left, parentheses
  group, and every token is used.
\<close>

theorem parsers_follow_grammar:
  "(parseExpr J s ctx = Inr (e, ctx') \<longleftrightarrow>
     (\<exists>toks. tokenizeLogical s = Inr toks \<and> spellsOr (exprAtomP J) exprGroup exprNot exprAnd exprOr toks ctx e ctx'))
   \<and> (parseFilterExpression J s ctx = Inr (fc, ctx') \<longleftrightarrow>
     (\<exists>toks. tokenizeLogical (if TrimSpace s = '''' then ''/*'' else TrimSpace s) = Inr toks
        \<and> spellsOr (filterAtomP J) (\<lambda>(f, c). (filterGroup f, c)) (\<lambda>(f, c). (filterNot f, c))
            (withColl filterAnd) (withColl filterOr) toks ctx fc ctx'))"
proof
  have "\<exists>r. parseExprOr J (length toks + 1) toks ctx = Some r" for toks
    by (rule returns_Some [OF expr.orP_returns]) simp
  then show "parseExpr J s ctx = Inr (e, ctx') \<longleftrightarrow>
     (\<exists>toks. tokenizeLogical s = Inr toks \<and> spellsOr (exprAtomP J) exprGroup exprNot exprAnd exprOr toks ctx e ctx')"
    unfolding expr.parse_iff [symmetric] parseExpr_def
    by (auto split: sum.splits if_splits) (metis option.sel)+
  have "\<exists>r. parseFilterOr J (length toks + 1) toks ctx = Some r" for toks
    by (rule returns_Some [OF filt.orP_returns]) simp
  then show "parseFilterExpression J s ctx = Inr (fc, ctx') \<longleftrightarrow>
     (\<exists>toks. tokenizeLogical (if TrimSpace s = '''' then ''/*'' else TrimSpace s) = Inr toks
        \<and> spellsOr (filterAtomP J) (\<lambda>(f, c). (filterGroup f, c)) (\<lambda>(f, c). (filterNot f, c))
            (withColl filterAnd) (withColl filterOr) toks ctx fc ctx')"
    unfolding filt.parse_iff [symmetric] parseFilterExpression_def Let_def
    by (auto split: sum.splits if_splits) (metis option.sel)+
qed

end
