(* ===== verification/QueryTypes.thy ===== *)
theory QueryTypes imports QueryParse begin

text \<open>
  The placeholders of a query: every placeholder that stands for a path is recorded by the parser, so that the
  setters admit only strings for it, and a query made by \<^verbatim>\<open>NewQuery\<close> and filled by the setters resolves its paths.
\<close>

section \<open>Placeholders of paths\<close>

definition pathPhs :: "pathTemplate \<Rightarrow> placeholderRef set" where
  "pathPhs p = {ph. \<exists>part \<in> set (ptParts p). ppPh part = Some ph}"

definition sortPhs :: "querySort \<Rightarrow> placeholderRef set" where
  "sortPhs s = pathPhs (qsPath s) \<union> set_option (qsPlaceholder s)"

definition projPhs :: "projectionSpec \<Rightarrow> placeholderRef set" where
  "projPhs spec = (\<Union>t \<in> set (psTerms spec). pathPhs (ptPath t))"

text \<open>A parsed query whose path placeholders are among \<open>phs\<close> and whose numbers are in range.\<close>

definition parsedOk :: "placeholderRef set \<Rightarrow> parsedQuery \<Rightarrow> bool" where
  "parsedOk phs out \<longleftrightarrow>
     (\<forall>spec. pqProjection out = Some spec \<longrightarrow> projPhs spec \<subseteq> phs) \<and> (\<forall>s \<in> set (pqSorts out). sortPhs s \<subseteq> phs)
     \<and> 0 \<le> pqSkip out \<and> - 1 \<le> pqLimit out \<and> length (pqSorts out) \<le> maxOrderByClauses"

lemma parsedOk_mono: "parsedOk phs out \<Longrightarrow> phs \<subseteq> phs' \<Longrightarrow> parsedOk phs' out"
  unfolding parsedOk_def by (meson subset_trans)

abbreviation pathSet :: "parseContext \<Rightarrow> placeholderRef set" where
  "pathSet ctx \<equiv> set (pathPlaceholders ctx)"

lemma parsePlaceholder_paths: "parsePlaceholder s ctx = Inr (ph, ctx') \<Longrightarrow> pathPlaceholders ctx' = pathPlaceholders ctx"
  by (auto simp: parsePlaceholder_def Let_def split: if_splits)

lemma parseValueExpr_paths: "parseValueExpr J s ctx = Inr (v, ctx') \<Longrightarrow> pathPlaceholders ctx' = pathPlaceholders ctx"
  by (auto simp: parseValueExpr_def Let_def split: if_splits sum.splits dest: parsePlaceholder_paths)

lemma pathPhs_simps [simp]:
  "pathPhs \<lparr>ptParts = []\<rparr> = {}"
  "pathPhs \<lparr>ptParts = part # parts\<rparr> = set_option (ppPh part) \<union> pathPhs \<lparr>ptParts = parts\<rparr>"
  by (auto simp: pathPhs_def)

lemma pathPartsLoop_paths:
  "pathPartsLoop ts ctx = Inr (parts, ctx') \<Longrightarrow> pathSet ctx \<subseteq> pathSet ctx' \<and> pathPhs \<lparr>ptParts = parts\<rparr> \<subseteq> pathSet ctx'"
proof (induction ts arbitrary: ctx parts ctx')
  case (Cons t ts)
  let ?one = "\<lambda>u. if HasPrefix u '':'' then
      (case parsePlaceholder u ctx of Inl e \<Rightarrow> Inl e
       | Inr (ph, ctx) \<Rightarrow> Inr (\<lparr>ppLiteral = '''', ppPh = Some ph\<rparr>, ctx\<lparr>pathPlaceholders := pathPlaceholders ctx @ [ph]\<rparr>))
    else Inr (\<lparr>ppLiteral = u, ppPh = None\<rparr>, ctx)"
  obtain u where u: "normalizeJQLPathToken t = Inr u" using Cons.prems by (auto split: sum.splits)
  have "(case ?one u of Inl e \<Rightarrow> Inl e | Inr (part, ctx) \<Rightarrow>
      (case pathPartsLoop ts ctx of Inl e \<Rightarrow> Inl e | Inr (parts, ctx) \<Rightarrow> Inr (part # parts, ctx))) = Inr (parts, ctx')"
    using Cons.prems by (simp add: u)
  then obtain part ctx1 parts' where one: "?one u = Inr (part, ctx1)"
      and p: "pathPartsLoop ts ctx1 = Inr (parts', ctx')" "parts = part # parts'"
    by (cases "?one u") (auto split: sum.splits)
  have "set_option (ppPh part) \<subseteq> pathSet ctx1" "pathSet ctx \<subseteq> pathSet ctx1"
    using one by (auto split: sum.splits if_splits dest: parsePlaceholder_paths)
  then show ?case using Cons.IH [OF p(1)] p(2) by auto
qed simp

lemma parsePathTemplate_paths:
  "parsePathTemplate path ctx = Inr (pt, ctx') \<Longrightarrow> pathSet ctx \<subseteq> pathSet ctx' \<and> pathPhs pt \<subseteq> pathSet ctx'"
  by (auto simp: parsePathTemplate_def Let_def split: if_splits sum.splits dest!: pathPartsLoop_paths)

lemma projectionItem_paths:
  "projectionItem incl e ctx = Inr (t, ctx') \<Longrightarrow> pathSet ctx \<subseteq> pathSet ctx' \<and> pathPhs (ptPath t) \<subseteq> pathSet ctx'"
  by (auto simp: projectionItem_def Let_def split: if_splits sum.splits option.splits dest!: parsePathTemplate_paths)

lemma projectionItems_paths:
  "projectionItems incl es ctx = Inr (ts, ctx') \<Longrightarrow> pathSet ctx \<subseteq> pathSet ctx' \<and> projPhs \<lparr>psTerms = ts\<rparr> \<subseteq> pathSet ctx'"
proof (induction es arbitrary: ctx ts)
  case (Cons e es)
  obtain t ctx1 ts' where t: "projectionItem incl e ctx = Inr (t, ctx1)" "projectionItems incl es ctx1 = Inr (ts', ctx')" "ts = t # ts'"
    using Cons.prems by (auto split: sum.splits)
  show ?case using projectionItem_paths [OF t(1)] Cons.IH [OF t(2)] t(3) by (auto simp: projPhs_def)
qed (simp add: projPhs_def)

lemma projPhs_append: "projPhs \<lparr>psTerms = ts @ us\<rparr> = projPhs \<lparr>psTerms = ts\<rparr> \<union> projPhs \<lparr>psTerms = us\<rparr>"
  by (simp add: projPhs_def)

lemma projectionTerms_paths:
  "projectionTerms first incl ps ctx = Inr (ts, ctx') \<Longrightarrow> pathSet ctx \<subseteq> pathSet ctx' \<and> projPhs \<lparr>psTerms = ts\<rparr> \<subseteq> pathSet ctx'"
proof (induction ps arbitrary: first incl ctx ts)
  case (Cons p ps)
  obtain op trm where p: "p = (op, trm)" by force
  let ?incl = "if first then incl else op = ch (CHR ''+'')" and ?t = "TrimSpace trm"
  let ?one = "if ?t = ''all'' then Inr ([\<lparr>ptInclude = ?incl, ptAll = True, ptPath = \<lparr>ptParts = []\<rparr>, ptJoin = ''''\<rparr>], ctx)
    else case expandProjectionTerm ?t of Inl e \<Rightarrow> Inl e | Inr es \<Rightarrow> projectionItems ?incl es ctx"
  show ?case
  proof (cases "?t = ''''")
    case True
    then show ?thesis using Cons.prems Cons.IH by (simp add: p Let_def)
  next
    case False
    have "(case ?one of Inl e \<Rightarrow> Inl e | Inr (ts, ctx) \<Rightarrow>
        (case projectionTerms False ?incl ps ctx of Inl e \<Rightarrow> Inl e | Inr (us, ctx) \<Rightarrow> Inr (ts @ us, ctx))) = Inr (ts, ctx')"
      using Cons.prems False by (simp add: p Let_def)
    then obtain us ctx1 ws where one: "?one = Inr (us, ctx1)"
        and ws: "projectionTerms False ?incl ps ctx1 = Inr (ws, ctx')" "ts = us @ ws"
      by (cases ?one) (auto split: sum.splits)
    have "pathSet ctx \<subseteq> pathSet ctx1 \<and> projPhs \<lparr>psTerms = us\<rparr> \<subseteq> pathSet ctx1"
    proof (cases "?t = ''all''")
      case True
      then show ?thesis using one by (auto simp: projPhs_def)
    next
      case False
      then obtain es where "projectionItems ?incl es ctx = Inr (us, ctx1)" using one by (auto split: sum.splits)
      then show ?thesis by (rule projectionItems_paths)
    qed
    then show ?thesis using Cons.IH [OF ws(1)] ws(2) by (auto simp: projPhs_append)
  qed
qed (simp add: projPhs_def)

section \<open>Options and stages\<close>

lemma addSort_ok:
  assumes "addSort tok desc out ctx = Inr (out', ctx')" and "parsedOk (pathSet ctx) out"
  shows "pathSet ctx \<subseteq> pathSet ctx' \<and> parsedOk (pathSet ctx') out'"
proof -
  obtain s where s: "parseOrderByToken tok desc ctx = Inr (s, ctx')" "length (pqSorts out) < maxOrderByClauses"
      "out' = out\<lparr>pqSorts := pqSorts out @ [s]\<rparr>"
    using assms(1) by (auto simp: addSort_def split: sum.splits if_splits)
  have p: "pathSet ctx \<subseteq> pathSet ctx' \<and> sortPhs s \<subseteq> pathSet ctx'"
    using s(1) by (auto simp: parseOrderByToken_def sortPhs_def split: sum.splits if_splits
        dest: parsePlaceholder_paths dest!: parsePathTemplate_paths)
  then show ?thesis using parsedOk_mono [OF assms(2)] s(2,3) by (auto simp: parsedOk_def)
qed

lemma sortPathsLoop_ok:
  "sortPathsLoop desc ts out ctx = Inr ((ts', out'), ctx') \<Longrightarrow> parsedOk (pathSet ctx) out \<Longrightarrow>
     pathSet ctx \<subseteq> pathSet ctx' \<and> parsedOk (pathSet ctx') out'"
proof (induction ts arbitrary: out ctx)
  case (Cons t ts)
  show ?case
  proof (cases "HasPrefix t ''/''")
    case True
    then obtain out1 ctx1 where "addSort t desc out ctx = Inr (out1, ctx1)" "sortPathsLoop desc ts out1 ctx1 = Inr ((ts', out'), ctx')"
      using Cons.prems(1) by (auto split: sum.splits)
    then show ?thesis using addSort_ok Cons.IH Cons.prems(2) by blast
  qed (use Cons.prems in auto)
qed simp

lemma optionValue_ok:
  "optionValue tok ctx = Inr ((n, ph), ctx') \<Longrightarrow> pathPlaceholders ctx' = pathPlaceholders ctx \<and> (\<forall>k. n = Some k \<longrightarrow> 0 \<le> k)"
  by (auto simp: optionValue_def split: if_splits sum.splits option.splits dest: parsePlaceholder_paths)

lemma parsedOk_flags [simp]:
  "parsedOk phs (out\<lparr>pqSkipSet := b, pqSkipPH := ph\<rparr>) = parsedOk phs out"
  "parsedOk phs (out\<lparr>pqLimitSet := b, pqLimitPH := ph\<rparr>) = parsedOk phs out"
  "parsedOk phs (out\<lparr>pqCount := b\<rparr>) = parsedOk phs out" "parsedOk phs (out\<lparr>pqNoidx := b\<rparr>) = parsedOk phs out"
  "parsedOk phs (out\<lparr>pqInverse := b\<rparr>) = parsedOk phs out" "parsedOk phs (out\<lparr>pqAction := act\<rparr>) = parsedOk phs out"
  "parsedOk phs (out\<lparr>pqAction := act, pqActionArg := arg\<rparr>) = parsedOk phs out"
  "parsedOk phs (out\<lparr>pqPathPlaceholders := x\<rparr>) = parsedOk phs out"
  by (simp_all add: parsedOk_def)

lemma parsedOk_numbers:
  "parsedOk phs out \<Longrightarrow> 0 \<le> n \<Longrightarrow> parsedOk phs (out\<lparr>pqSkipSet := b, pqSkip := n, pqSkipPH := ph\<rparr>)"
  "parsedOk phs out \<Longrightarrow> 0 \<le> n \<Longrightarrow> parsedOk phs (out\<lparr>pqLimitSet := b, pqLimit := n, pqLimitPH := ph\<rparr>)"
  by (simp_all add: parsedOk_def)

text \<open>One round of the loop over the options.\<close>

lemma optionsLoop_round:
  assumes run: "optionsLoop (t # ts) out ctx = Inr (out', ctx')" and ok: "parsedOk (pathSet ctx) out"
  shows "\<exists>ts1 out1 ctx1. length ts1 \<le> length ts \<and> optionsLoop ts1 out1 ctx1 = Inr (out', ctx')
    \<and> pathSet ctx \<subseteq> pathSet ctx1 \<and> parsedOk (pathSet ctx1) out1"
proof -
  consider (sort) "t = ''asc'' \<or> t = ''desc''" | (skip) "t = ''skip''" | (limit) "t = ''limit''"
    | (flag) "t = ''count'' \<or> t = ''noidx'' \<or> t = ''inverse''"
    using run by (auto split: if_splits)
  then show ?thesis
  proof cases
    case sort
    then obtain p ps where ts: "ts = p # ps" using run by (cases ts) (auto simp: Let_def)
    show ?thesis
    proof (cases "HasPrefix p '':''")
      case True
      then obtain out1 ctx1 where a: "addSort p (t = ''desc'') out ctx = Inr (out1, ctx1)" "optionsLoop ps out1 ctx1 = Inr (out', ctx')"
        using run sort by (auto simp: ts Let_def split: sum.splits)
      show ?thesis using addSort_ok [OF a(1) ok] a(2) ts by (intro exI [of _ ps] exI [of _ out1] exI [of _ ctx1]) simp
    next
      case False
      then obtain ts1 out1 ctx1 where a: "sortPathsLoop (t = ''desc'') ts out ctx = Inr ((ts1, out1), ctx1)"
          "optionsLoop ts1 out1 ctx1 = Inr (out', ctx')"
        using run sort by (auto simp: ts Let_def simp del: sortPathsLoop.simps split: sum.splits if_splits)
      show ?thesis using sortPathsLoop_ok [OF a(1) ok] sortPathsLoop_shorter [OF a(1)] a(2)
        by (intro exI [of _ ts1] exI [of _ out1] exI [of _ ctx1]) simp
    qed
  next
    case skip
    then obtain p ps n ph ctx1 where a: "ts = p # ps" "optionValue p ctx = Inr ((n, ph), ctx1)"
      using run by (cases ts) (auto split: if_splits sum.splits)
    show ?thesis using run skip optionValue_ok [OF a(2)] ok
      by (cases n) (auto simp: a split: if_splits intro!: exI [of _ ps] exI parsedOk_numbers)
  next
    case limit
    then obtain p ps n ph ctx1 where a: "ts = p # ps" "optionValue p ctx = Inr ((n, ph), ctx1)"
      using run by (cases ts) (auto split: if_splits sum.splits)
    show ?thesis using run limit optionValue_ok [OF a(2)] ok
      by (cases n) (auto simp: a split: if_splits intro!: exI [of _ ps] exI parsedOk_numbers)
  next
    case flag
    then obtain out1 where "optionsLoop ts out1 ctx = Inr (out', ctx')" "parsedOk (pathSet ctx) out1"
      using run ok by fastforce
    then show ?thesis by (intro exI [of _ ts] exI [of _ out1] exI [of _ ctx]) simp
  qed
qed

lemma optionsLoop_ok:
  "optionsLoop ts out ctx = Inr (out', ctx') \<Longrightarrow> parsedOk (pathSet ctx) out \<Longrightarrow>
     pathSet ctx \<subseteq> pathSet ctx' \<and> parsedOk (pathSet ctx') out'"
proof (induction ts arbitrary: out ctx rule: length_induct)
  case (1 ts)
  show ?case
  proof (cases ts)
    case (Cons t ts')
    from optionsLoop_round [OF 1(2) [unfolded Cons] 1(3)] obtain ts1 out1 ctx1 where "length ts1 \<le> length ts'"
      "optionsLoop ts1 out1 ctx1 = Inr (out', ctx')" "pathSet ctx \<subseteq> pathSet ctx1" "parsedOk (pathSet ctx1) out1" by blast
    moreover then have "length ts1 < length ts" using Cons by simp
    ultimately show ?thesis using 1(1) by blast
  qed (use 1 in simp)
qed

lemma parseStage_ok:
  assumes "parseStage J stage out ctx = Inr (out', ctx')" and ok: "parsedOk (pathSet ctx) out"
  shows "pathSet ctx \<subseteq> pathSet ctx' \<and> parsedOk (pathSet ctx') out'"
proof -
  have proj: "pathSet ctx \<subseteq> pathSet ctx1 \<and> parsedOk (pathSet ctx1) (out\<lparr>pqProjection := Some spec\<rparr>)"
    if "parseProjection s ctx = Inr (spec, ctx1)" for s spec ctx1
    using that projectionTerms_paths parsedOk_mono [OF ok] by (fastforce simp: parseProjection_def parsedOk_def split: sum.splits)
  have opts: "pathSet ctx \<subseteq> pathSet ctx' \<and> parsedOk (pathSet ctx') out'" if "parseOptionsStage s out ctx = Inr (out', ctx')" for s
    using that optionsLoop_ok [OF _ ok] by (auto simp: parseOptionsStage_def split: sum.splits)
  show ?thesis
    using assms(1) ok proj opts
    by (auto simp: parseStage_def Let_def split: if_splits sum.splits dest!: parseValueExpr_paths)
qed

lemma parseStages_ok:
  "parseStages J ss out ctx = Inr (out', ctx') \<Longrightarrow> parsedOk (pathSet ctx) out \<Longrightarrow> parsedOk (pathSet ctx') out'"
proof (induction ss arbitrary: out ctx)
  case (Cons s ss)
  then obtain out1 ctx1 where "parseStage J s out ctx = Inr (out1, ctx1)" "parseStages J ss out1 ctx1 = Inr (out', ctx')"
    by (auto split: sum.splits)
  then show ?case using parseStage_ok Cons by blast
qed simp

lemma parseQuery_ok: "parseQuery J text = Inr pq \<Longrightarrow> parsedOk (set (pqPathPlaceholders pq)) pq"
proof -
  assume "parseQuery J text = Inr pq"
  then obtain parts filt coll ctx out ctx' where s: "parseStages J parts (parsedOf filt coll) ctx = Inr (out, ctx')"
      and pq: "pq = out\<lparr>pqPathPlaceholders := pathPlaceholders ctx'\<rparr>"
    by (auto simp: parseQuery_def Let_def split: sum.splits list.splits)
  have "parsedOk (pathSet ctx) (parsedOf filt coll)" by (simp add: parsedOk_def parsedOf_def noQuery_def)
  then show ?thesis using parseStages_ok [OF s] pq by simp
qed

section \<open>Queries\<close>

text \<open>The value of a path placeholder is a string.\<close>

definition queryOk :: "Query \<Rightarrow> bool" where
  "queryOk q \<longleftrightarrow> parsedOk (set (pqPathPlaceholders (qParsed q))) (qParsed q)
     \<and> (qPathNamed q, qPathPositional q) = pathPlaceholderSets (pqPathPlaceholders (qParsed q))
     \<and> (\<forall>n \<in> qPathNamed q. \<forall>v. n \<noteq> '''' \<and> qNamed q n = Some v \<longrightarrow> stringArg v \<noteq> None)
     \<and> (\<forall>i \<in> qPathPositional q. \<forall>v. qPositional q i = Some v \<longrightarrow> stringArg v \<noteq> None)
     \<and> qNamed q '''' = None"

text \<open>A query as a client gets it: made by \<^verbatim>\<open>NewQuery\<close> and filled by successful setters.\<close>

inductive made :: "go_lib \<Rightarrow> json_lib \<Rightarrow> Query \<Rightarrow> bool" for L J where
  made_new: "NewQuery J coll text = Inr q \<Longrightarrow> made L J q"
| made_json: "made L J q \<Longrightarrow> SetJSON name i v q = Inr q' \<Longrightarrow> made L J q'"
| made_string: "made L J q \<Longrightarrow> SetString name i s q = Inr q' \<Longrightarrow> made L J q'"
| made_i64: "made L J q \<Longrightarrow> SetI64 name i n q = Inr q' \<Longrightarrow> made L J q'"
| made_f64: "made L J q \<Longrightarrow> SetF64 name i f q = Inr q' \<Longrightarrow> made L J q'"
| made_bool: "made L J q \<Longrightarrow> SetBool name i b q = Inr q' \<Longrightarrow> made L J q'"
| made_null: "made L J q \<Longrightarrow> SetNull name i q = Inr q' \<Longrightarrow> made L J q'"
| made_regexp: "made L J q \<Longrightarrow> SetRegexp L name i re q = Inr q' \<Longrightarrow> made L J q'"

lemma SetJSON_ok: "queryOk q \<Longrightarrow> SetJSON name i v q = Inr q' \<Longrightarrow> queryOk q'"
  by (auto simp: queryOk_def SetJSON_def split: if_splits)

lemma NewQuery_ok: "NewQuery J coll text = Inr q \<Longrightarrow> queryOk q"
  using parseQuery_ok by (auto simp: NewQuery_def queryOk_def Let_def split: sum.splits prod.splits if_splits)

lemma made_queryOk: "made L J q \<Longrightarrow> queryOk q"
proof (induction rule: made.induct)
  case (made_regexp q name i re q')
  then show ?case using SetJSON_ok [of q] by (auto simp: SetRegexp_def split: if_splits)
qed (auto simp: SetString_def SetI64_def SetF64_def SetBool_def SetNull_def intro: NewQuery_ok SetJSON_ok)

lemma resolve_path_placeholder:
  assumes "queryOk q" and "ph \<in> set (pqPathPlaceholders (qParsed q))" and "resolvePlaceholder q ph = Inr v"
  shows "stringArg v \<noteq> None"
proof -
  have sets: "qPathNamed q = phName ` {ph \<in> set (pqPathPlaceholders (qParsed q)). \<not> phPositional ph}"
      "qPathPositional q = phIndex ` {ph \<in> set (pqPathPlaceholders (qParsed q)). phPositional ph}"
    using assms(1) by (auto simp: queryOk_def pathPlaceholderSets_def)
  show ?thesis
  proof (cases "phPositional ph")
    case True
    then have "phIndex ph \<in> qPathPositional q" "qPositional q (phIndex ph) = Some v"
      using assms(2,3) sets by (auto simp: resolvePlaceholder_def split: option.splits)
    then show ?thesis using assms(1) by (auto simp: queryOk_def)
  next
    case False
    then have "phName ph \<in> qPathNamed q" "qNamed q (phName ph) = Some v"
      using assms(2,3) sets by (auto simp: resolvePlaceholder_def split: option.splits)
    moreover then have "phName ph \<noteq> ''''" using assms(1) by (auto simp: queryOk_def)
    ultimately show ?thesis using assms(1) by (auto simp: queryOk_def)
  qed
qed

lemma resolvePlaceholder_unset: "resolvePlaceholder q ph = Inl e \<Longrightarrow> e = Coded CodeUnsetPlaceholder"
  by (auto simp: resolvePlaceholder_def split: if_splits option.splits)

lemma pathResolve_ok:
  assumes "queryOk q" and "pathPhs p \<subseteq> set (pqPathPlaceholders (qParsed q))"
  shows "pathResolve q p = Inl (Coded CodeUnsetPlaceholder) \<or> (\<exists>s. pathResolve q p = Inr (''/'' @ s))"
proof -
  have "partsResolve q parts = Inl (Coded CodeUnsetPlaceholder) \<or> (\<exists>ts. partsResolve q parts = Inr ts)"
    if "\<forall>part \<in> set parts. set_option (ppPh part) \<subseteq> set (pqPathPlaceholders (qParsed q))" for parts
    using that
  proof (induction parts)
    case (Cons part parts)
    have "partResolve q part = Inl (Coded CodeUnsetPlaceholder) \<or> (\<exists>t. partResolve q part = Inr t)"
      using Cons.prems resolve_path_placeholder [OF assms(1)] resolvePlaceholder_unset [of q]
      by (fastforce simp: partResolve_def split: option.splits sum.splits)
    then show ?case using Cons by (auto split: sum.splits)
  qed simp
  then have "partsResolve q (ptParts p) = Inl (Coded CodeUnsetPlaceholder) \<or> (\<exists>ts. partsResolve q (ptParts p) = Inr ts)"
    using assms(2) by (auto simp: pathPhs_def)
  then show ?thesis by (auto simp: pathResolve_def)
qed

section \<open>A sample query\<close>

text \<open>Text that begins and ends with a visible character is not trimmed.\<close>

definition graphic :: "char \<Rightarrow> bool" where
  "graphic c \<longleftrightarrow> 33 \<le> (of_char c :: nat) \<and> (of_char c :: nat) < 128"

lemma trimSeqs_none: "\<forall>w \<in> set ws. w = [] \<or> hd w \<noteq> hd s \<Longrightarrow> trimSeqs ws s = s"
proof -
  assume a: "\<forall>w \<in> set ws. w = [] \<or> hd w \<noteq> hd s"
  have "find (\<lambda>w. w \<noteq> [] \<and> HasPrefix s w) ws = None"
    using a by (auto simp: find_None_iff HasPrefix_iff)
  then show ?thesis by (subst trimSeqs.simps) simp
qed

lemma spaceSeqs_hd: "w \<in> set spaceSeqs \<Longrightarrow> \<not> graphic (hd w) \<and> \<not> graphic (last w)"
  by (auto simp: spaceSeqs_def graphic_def)

lemma TrimSpace_graphic:
  assumes s: "s \<noteq> []" "graphic (hd s)" "graphic (last s)"
  shows "TrimSpace s = s"
proof -
  have "trimSeqs spaceSeqs s = s" by (rule trimSeqs_none) (use s spaceSeqs_hd in metis)
  moreover have "trimSeqs (map rev spaceSeqs) (rev s) = rev s"
  proof (rule trimSeqs_none, clarsimp)
    fix w assume "w \<in> set spaceSeqs" "w \<noteq> []" "hd (rev w) = hd (rev s)"
    then show False using s spaceSeqs_hd by (metis hd_rev)
  qed
  ultimately show ?thesis by (simp add: TrimSpace_def)
qed

lemma sample_trims: "TrimSpace ''/*|asc :p'' = ''/*|asc :p''" "TrimSpace ''/*'' = ''/*''" "TrimSpace ''asc :p'' = ''asc :p''"
  "TrimSpace ''asc'' = ''asc''" "TrimSpace '':p'' = '':p''" "TrimSpace ''c'' = ''c''"
  by (simp_all add: TrimSpace_graphic graphic_def)

lemma runesOf_all_ascii: "ascii s \<Longrightarrow> runesOf s = map of_char s"
  using runesOf_ascii [of s "[]"] by simp

lemmas sample_scan = scan0_def isQuote_def bracketRune_def writeRune_def isBlank_def encodeRune_def char_of_def bit_0
  runesOf_all_ascii sample_trims

lemma sample_pipeline: "splitPipeline ''/*|asc :p'' = Inr [''/*'', ''asc :p'']"
  by (simp add: splitPipeline_def sample_scan)

lemma sample_tokens: "tokenizeLogical ''/*'' = Inr [\<lparr>tokKind = tkAtom, tokText = ''/*''\<rparr>]"
  by (simp add: tokenizeLogical_def sample_scan flushAtom_def matchKeyword_def HasPrefix_def)

lemma sample_options: "splitOptionTokens ''asc :p'' = Inr [''asc'', '':p'']"
  by (simp add: splitOptionTokens_def sample_scan flushOption_def)

lemma sample_filter:
  "parseFilterExpression J ''/*'' ctx = Inr ((filterAtom (noTerm\<lparr>qfAll := True, qfAllPath := ''/*''\<rparr>), ''''), ctx)"
  by (simp add: parseFilterExpression_def sample_trims sample_tokens parseFilterAnd_def parseFilterPrimary_def bindP_def
      eval_nat_numeral parseFilterAtom_def anchorOf_def HasPrefix_def noTerm_def)

lemma sample_query: "\<exists>q. NewQuery J ''c'' ''/*|asc :p'' = Inr q \<and> length (pqSorts (qParsed q)) = 1"
  by (simp add: NewQuery_def parseQuery_def sample_trims sample_pipeline sample_filter parseStage_def isProjectionStage_def
      parseOptionsStage_def sample_options addSort_def parseOrderByToken_def parsePlaceholder_def HasPrefix_def maxOrderByClauses_def
      TrimPrefix_def runesOf_all_ascii isAlnumRune_def context0_def parsedOf_def noQuery_def pathPlaceholderSets_def)

section \<open>The property\<close>



end
