(* ===== verification/RuntimeInv.thy ===== *)
theory RuntimeInv
  imports ApiProps
begin

text \<open>
  The runtime indexes of the collections, \<^verbatim>\<open>types.go\<close> and \<^verbatim>\<open>db.go\<close>: in every reachable state the definition that a runtime
  index carries is that of the catalog, so that a plan made from the runtime indexes reads an index of the catalog.
\<close>

definition runtimeOk :: "collectionState \<Rightarrow> bool" where
  "runtimeOk c \<longleftrightarrow> distinct (map fst (colRuntime c)) \<and> (\<forall>(k, rt) \<in> set (colRuntime c). map_of (colIndexes c) k = Some (rtDef rt))"

definition runtimesOk :: "'e DB \<Rightarrow> bool" where
  "runtimesOk db \<longleftrightarrow> (\<forall>(n, c) \<in> set (collections db). runtimeOk c)"

lemma runtimesOk_cong: "collections db' = collections db \<Longrightarrow> runtimesOk db' = runtimesOk db"
  by (simp add: runtimesOk_def)

lemma set_alist_update: "set (AList.update k v xs) \<subseteq> insert (k, v) (set xs)"
  by (induction xs) auto

lemma runtimesOk_update [simp]:
  "runtimesOk db \<Longrightarrow> runtimeOk c \<Longrightarrow> \<forall>x \<in> set (AList.update n c (collections db)). case x of (n, c) \<Rightarrow> runtimeOk c"
  using set_alist_update [of n c "collections db"] by (fastforce simp: runtimesOk_def)

lemma runtimesOk_setCol: "runtimesOk db \<Longrightarrow> runtimeOk c \<Longrightarrow> runtimesOk (setCol c db)"
  using runtimesOk_update by (auto simp: runtimesOk_def)

lemma runtimeOk_numbers [simp]:
  "runtimeOk (c\<lparr>colName := n\<rparr>) = runtimeOk c" "runtimeOk (c\<lparr>colNextID := i\<rparr>) = runtimeOk c" "runtimeOk (c\<lparr>colRNum := r\<rparr>) = runtimeOk c"
  by (simp_all add: runtimeOk_def)

lemma runtimeOk_adjust: "runtimeOk c \<Longrightarrow> runtimeOk (adjustIndexRNums L c d d')"
  by (fastforce simp: runtimeOk_def adjustIndexRNums_def Let_def map_of_map comp_def split_beta split: option.splits)

lemma runtimeOk_of: "runtimesOk db \<Longrightarrow> map_of (collections db) n = Some c \<Longrightarrow> runtimeOk c"
  by (auto simp: runtimesOk_def dest: map_of_SomeD)

lemma ensureCollection_runtimes:
  assumes "runtimesOk db" and "ensureCollectionLocked n db = (c, db')"
  shows "runtimeOk c" and "runtimesOk db'"
proof -
  show c: "runtimeOk c"
  proof (cases "map_of (collections db) n")
    case None
    then show ?thesis using assms(2)
      by (auto simp: ensureCollectionLocked_def ensureCollectionOnStateLocked_def Let_def runtimeOk_def)
  next
    case (Some c0)
    then show ?thesis using assms runtimeOk_of [OF assms(1) Some]
      by (auto simp: ensureCollectionLocked_def ensureCollectionOnStateLocked_def Let_def)
  qed
  have "collections db' = AList.update n c (collections db)" using assms(2)
    by (auto simp: ensureCollectionLocked_def ensureCollectionOnStateLocked_def Let_def split: option.splits)
  then show "runtimesOk db'" using runtimesOk_update [OF assms(1) c] by (simp add: runtimesOk_def)
qed

lemma put_runtimes:
  assumes "runtimesOk db" and "runtimeOk c" and "putLocked E c i raw db = (r, db')"
  shows "runtimesOk db'"
proof -
  have rec: "runtimesOk (recordDocPut n i x y d d' (setCol c' db))" if "runtimeOk c'" for n x y d d' c'
    using runtimesOk_setCol [OF assms(1) that] by (simp add: recordDocPut_def runtimesOk_def)
  show ?thesis using assms(1,3) rec runtimeOk_adjust assms(2)
    by (auto simp: putLocked_def Let_def split: sum.splits prod.splits option.splits if_splits)
qed

lemma commit_runtimes:
  "commitLocked E db = (r, db') \<Longrightarrow> runtimesOk db' = runtimesOk db" "commitBatch E ops db = (r, db') \<Longrightarrow> runtimesOk db' = runtimesOk db"
  by (auto intro!: runtimesOk_cong simp: commitLocked_def persistFullLocked_def persistPendingLocked_def commitBatch_def clearPending_def
      split: if_splits sum.splits)

lemma thenCommit_runtimes: "thenCommit E (r, db) = (r', db') \<Longrightarrow> runtimesOk db \<Longrightarrow> runtimesOk db'"
  using commit_runtimes(1) by (fastforce simp: thenCommit_def split: sum.splits)

lemma putCommit_runtimes:
  assumes "thenCommit E (putLocked E c i raw db) = (r, db')" and "runtimesOk db" and "runtimeOk c"
  shows "runtimesOk db'"
proof -
  obtain r1 db1 where p: "putLocked E c i raw db = (r1, db1)" by force
  show ?thesis using thenCommit_runtimes [OF assms(1) [unfolded p] put_runtimes [OF assms(2,3) p]] .
qed

lemma runtimeOk_insert: "runtimeOk c \<Longrightarrow>
    runtimeOk (c\<lparr>colIndexes := AList.update k idx (colIndexes c), colRuntime := AList.update k (newRuntime idx) (colRuntime c)\<rparr>)"
proof -
  assume ok: "runtimeOk c"
  have "map_of (AList.update k idx (colIndexes c)) k' = Some (rtDef rt)"
    if "(k', rt) \<in> set (AList.update k (newRuntime idx) (colRuntime c))" for k' rt
  proof (cases "k' = k")
    case True
    have "distinct (map fst (AList.update k (newRuntime idx) (colRuntime c)))" using ok by (simp add: runtimeOk_def distinct_update)
    then have "map_of (AList.update k (newRuntime idx) (colRuntime c)) k' = Some rt" using that by (simp add: map_of_eq_Some_iff)
    then show ?thesis using True by (auto simp: update_conv newRuntime_def)
  next
    case False
    then have "(k', rt) \<in> set (colRuntime c)" using that set_alist_update [of k "newRuntime idx" "colRuntime c"] by auto
    then show ?thesis using ok False by (auto simp: runtimeOk_def update_conv)
  qed
  then show ?thesis using ok by (auto simp: runtimeOk_def distinct_update)
qed

lemma runtimeOk_remove: "runtimeOk c \<Longrightarrow> runtimeOk (removeIndexKeys ks c)"
proof -
  have f: "map_of (filter (\<lambda>(k, _). k \<notin> set ks) xs) k = (if k \<in> set ks then None else map_of xs k)" for k and xs :: "(string \<times> indexState) list"
    by (induction xs) auto
  show "runtimeOk c \<Longrightarrow> runtimeOk (removeIndexKeys ks c)"
    by (auto simp: runtimeOk_def removeIndexKeys_def f distinct_map_filter)
qed

lemma runtimeOk_rebuilt: "runtimeOk c \<Longrightarrow> runtimeOk (c\<lparr>colIndexes := AList.update k idx (colIndexes c),
    colRuntime := map (\<lambda>(k', rt). (k', if k' = k then rt\<lparr>rtDef := idx\<rparr> else rt)) (colRuntime c)\<rparr>)"
  by (auto simp: runtimeOk_def update_conv comp_def split_beta)

lemma rebuildIndex_runtimes:
  assumes "runtimesOk db" and "runtimeOk c" and "rebuildIndex E c k db = (r, db')"
  shows "runtimesOk db'"
  using assms runtimesOk_setCol [OF assms(1) runtimeOk_rebuilt [OF assms(2)]]
  by (auto simp: rebuildIndex_def Let_def commit_runtimes(2) split: option.splits sum.splits)

lemma ensureIndex_runtimes:
  assumes ok: "runtimesOk db" and run: "ensureIndexLocked E n path kind unique db = (r, db')"
  shows "runtimesOk db'"
proof -
  obtain c db1 where e: "ensureCollectionLocked n db = (c, db1)" by force
  note e' = ensureCollection_runtimes [OF ok e]
  let ?idx = "\<lparr>idxPath = path, idxKind = kind, idxUnique = unique, idxDBID = stNextCollectionID (dbSt db1) + 1, idxRNum = 0\<rparr>"
  let ?k = "indexKey path kind unique"
  let ?c = "c\<lparr>colIndexes := AList.update ?k ?idx (colIndexes c), colRuntime := AList.update ?k (newRuntime ?idx) (colRuntime c)\<rparr>"
  have c: "runtimeOk ?c" by (rule runtimeOk_insert [OF e'(1)])
  obtain r2 db2 where b: "rebuildIndex E ?c ?k (setCol ?c db1) = (r2, db2)" by force
  have db2: "runtimesOk db2" by (rule rebuildIndex_runtimes [OF runtimesOk_setCol [OF e'(2) c] c b])
  then have "runtimesOk (setCol c db2)" "runtimesOk (db2\<lparr>dbSt := (dbSt db2)\<lparr>stNextCollectionID := x\<rparr>\<rparr>)" for x
    using runtimesOk_setCol [OF db2 e'(1)] by (simp_all add: runtimesOk_def)
  then show ?thesis using run ok e'(2) e b
    by (auto simp: ensureIndexLocked_def Let_def split: sum.splits option.splits if_splits)
qed

lemma runtimesOk_sub: "runtimesOk db \<Longrightarrow> set cs \<subseteq> set (collections db) \<Longrightarrow> runtimesOk (setCollections cs db)"
  by (auto simp: runtimesOk_def setCollections_def)

lemma drop_runtimes:
  "dropCollectionDataAndCommitLocked E c db = (r, db') \<Longrightarrow> runtimesOk db' = runtimesOk db"
  "dropIndexesDataAndCommitLocked E ixs db = (r, db') \<Longrightarrow> runtimesOk db' = runtimesOk db"
  by (auto simp: dropCollectionDataAndCommitLocked_def dropIndexesDataAndCommitLocked_def commit_runtimes(2) split: sum.splits)

lemma putNext_runtimes:
  assumes "runtimesOk db" and "ensureCollectionLocked n db = (c, db1)" and "runtimeOk c \<Longrightarrow> runtimeOk c'"
    and "putLocked E c' i raw (setCol c' db1) = (r, db')"
  shows "runtimesOk db'"
  using put_runtimes [OF runtimesOk_setCol _ assms(4)] ensureCollection_runtimes [OF assms(1,2)] assms(3) by blast

lemma markMetaDirty_runtimes [simp]: "runtimesOk (markMetaDirty db) = runtimesOk db"
  by (simp add: markMetaDirty_def runtimesOk_def)

text \<open>Every call keeps the runtime indexes in step.\<close>

lemma rename_runtimes:
  assumes ok: "runtimesOk db" and run: "DB_RenameCollection E n n' db = (Inr (), db')"
  shows "runtimesOk db'"
proof -
  obtain c where c: "map_of (collections db) n = Some c"
      "commitLocked E (markMetaDirty (setCollections (AList.update n' (c\<lparr>colName := n'\<rparr>) (AList.delete n (collections db))) db)) = (Inr (), db')"
    using run by (auto simp: DB_RenameCollection_def split: if_splits option.splits)
  have "set (AList.update n' (c\<lparr>colName := n'\<rparr>) (AList.delete n (collections db))) \<subseteq> insert (n', c\<lparr>colName := n'\<rparr>) (set (collections db))"
    using set_alist_update [of n' "c\<lparr>colName := n'\<rparr>" "AList.delete n (collections db)"] by (auto simp: AList.delete_eq)
  then have "runtimesOk (setCollections (AList.update n' (c\<lparr>colName := n'\<rparr>) (AList.delete n (collections db))) db)"
    using ok runtimeOk_of [OF ok c(1)] by (fastforce simp: runtimesOk_def setCollections_def)
  then show ?thesis using commit_runtimes(1) [OF c(2)] by simp
qed

lemma putNew_runtimes:
  assumes ok: "runtimesOk db" and run: "DB_PutNew E n raw db = (Inr i, db')"
  shows "runtimesOk db'"
proof -
  obtain c db1 where e: "ensureCollectionLocked n db = (c, db1)" by force
  let ?c = "c\<lparr>colNextID := colNextID c + 1\<rparr>"
  obtain r db2 where p: "putLocked E ?c (colNextID ?c) raw (setCol ?c db1) = (r, db2)" by force
  have "runtimesOk db2" by (rule putNext_runtimes [OF ok e _ p]) simp
  then show ?thesis using run e p commit_runtimes(1)
    by (auto simp: DB_PutNew_def putNewLocked_def Let_def split: if_splits sum.splits prod.splits)
qed

lemma putId_runtimes:
  assumes ok: "runtimesOk db" and run: "DB_Put E n i raw db = (Inr (), db')"
  shows "runtimesOk db'"
proof -
  obtain c db1 where e: "ensureCollectionLocked n db = (c, db1)" by force
  let ?c = "if sint (colNextID c) < sint i then c\<lparr>colNextID := i\<rparr> else c"
  have "thenCommit E (putLocked E ?c i raw (setCol ?c db1)) = (Inr (), db')"
    using run e by (simp add: DB_Put_def putIdLocked_def Let_def split: if_splits)
  then show ?thesis by (rule putCommit_runtimes) (use ensureCollection_runtimes [OF ok e] in \<open>auto intro: runtimesOk_setCol\<close>)
qed

lemma delete_runtimes:
  assumes ok: "runtimesOk db" and run: "DB_Delete E n i db = (Inr (), db')"
  shows "runtimesOk db'"
proof -
  have "runtimesOk (deleteLocked E c i raw doc db)" if "runtimeOk c" for c raw doc
  proof -
    have "runtimeOk (adjustIndexRNums (envLib E) (if 0 < colRNum c then c\<lparr>colRNum := colRNum c - 1\<rparr> else c) doc VNil)"
      by (rule runtimeOk_adjust) (simp add: that)
    then show ?thesis using runtimesOk_setCol [of "recordDocDelete (colName c) i raw doc db"] ok
      by (simp add: deleteLocked_def Let_def recordDocDelete_def runtimesOk_def)
  qed
  then show ?thesis using run runtimeOk_of [OF ok]
    by (auto simp: DB_Delete_def dest!: commit_runtimes(1) split: if_splits option.splits sum.splits)
qed

lemma mergeOrPut_runtimes:
  assumes ok: "runtimesOk db" and run: "DB_MergeOrPut E n i patch db = (Inr (), db')"
  shows "runtimesOk db'"
proof -
  obtain c db1 where e: "ensureCollectionLocked n db = (c, db1)" by force
  note e' = ensureCollection_runtimes [OF ok e]
  show ?thesis using run e e' runtimesOk_setCol [OF e'(2)]
    by (auto simp: DB_MergeOrPut_def Let_def elim!: putCommit_runtimes split: if_splits sum.splits)
qed

lemma step_runtimes:
  assumes ok: "runtimesOk db" and st: "apiStep E ev db db'"
  shows "runtimesOk db'"
proof (cases ev)
  case (EEnsureCollection n)
  obtain c db1 where e: "ensureCollectionLocked n db = (c, db1)" by force
  then have "commitLocked E (markMetaDirty db1) = (Inr (), db')" using st EEnsureCollection by (auto simp: DB_EnsureCollection_def split: if_splits)
  from commit_runtimes(1) [OF this] show ?thesis using ensureCollection_runtimes(2) [OF ok e] by simp
next
  case (ERemoveCollection n)
  have "set (AList.delete n (collections db)) \<subseteq> set (collections db)" by (auto simp: AList.delete_eq)
  then show ?thesis using st ERemoveCollection ok
    by (auto simp: DB_RemoveCollection_def dest!: drop_runtimes(1) intro!: runtimesOk_sub split: if_splits option.splits)
next
  case (EPatch n i patch)
  then show ?thesis using st ok runtimeOk_of [OF ok]
    by (auto simp: DB_Patch_def elim!: putCommit_runtimes split: if_splits option.splits sum.splits)
next
  case (EEnsureIndex n path kind unique)
  obtain r db1 where e: "ensureIndexLocked E n path kind unique db = (r, db1)" by force
  then show ?thesis using st EEnsureIndex ensureIndex_runtimes [OF ok e]
    by (auto simp: DB_EnsureIndex_def dest!: commit_runtimes(1) split: if_splits sum.splits)
next
  case (ERemoveIndex n path kind)
  then show ?thesis using st ok runtimeOk_of [OF ok]
    by (auto simp: DB_RemoveIndex_def Let_def dest!: drop_runtimes(2) intro!: runtimesOk_setCol runtimeOk_remove
        split: if_splits option.splits)
qed (use assms rename_runtimes putNew_runtimes putId_runtimes delete_runtimes mergeOrPut_runtimes in auto)

context db_env
begin

lemma reachable_runtimes: "reachable E kv B db D \<Longrightarrow> runtimesOk db"
proof (induction rule: reachable.induct)
  case (init path e db)
  have "engGet (envEng E) e keyMetaState \<noteq> Inr raw" for raw using get_value init(2) by force
  then have "collections db = []" using init(1)
    by (auto simp: Open_def load_def prepareState_def newState_def split: if_splits sum.splits)
  then show ?case by (simp add: runtimesOk_def)
next
  case (step B db D ev db' D')
  then show ?case using step_runtimes by blast
qed

end

end
