(* ===== verification/IndexProps.thy ===== *)
theory IndexProps
  imports IndexSound RuntimeInv
begin

text \<open>
  The property of the index scans in the states the API reaches: a plan of the planner delivers exactly the
  documents that have a value it accepts.
\<close>

context db_env
begin

lemma reachable_indexOk:
  assumes "reachable E kv B db D" and "map_of (collections db) n = Some c" and "idx \<in> snd ` set (colIndexes c)" and "idxDBID idx \<notin> B"
  shows "indexOk E (kv (dbEngine db)) idx (D n)"
proof -
  have rel: "colRel E B (kv (dbEngine db)) c (D n)"
    using reachable_dbInv [OF assms(1)] assms(2) by (auto simp: dbInv_def dbRel_def storeRel_def dest: map_of_SomeD)
  have "length v < 2 ^ 32" if "D n i = Some d" "v \<in> set (idxVals E idx d)" for i d v
    using colRelD(2) [OF rel that(1)] that(2) by (simp add: docOk_def)
  moreover have "indexRel E (kv (dbEngine db)) idx (D n)" using colRelD(3) [OF rel] assms(3,4) by force
  ultimately show ?thesis by (auto simp: indexOk_def entriesOf_def)
qed

lemma reachable_plan:
  assumes "reachable E kv B db D" and "map_of (collections db) n = Some c" and "planOk c (plan, True)"
    and "idxDBID (cpIdx plan) \<notin> B"
  obtains rt where "cpIndex plan = Some rt" "cpIdx plan = rtDef rt" "oppositeBounds plan" "indexOk E (kv (dbEngine db)) (rtDef rt) (D n)"
proof -
  obtain k rt where rt: "(k, rt) \<in> set (colRuntime c)" "cpIndex plan = Some rt" "cpIdx plan = rtDef rt" "oppositeBounds plan"
    using assms(3) by (auto simp: planOk_def)
  have "runtimeOk c" using runtimeOk_of [OF reachable_runtimes [OF assms(1)] assms(2)] .
  then have "(k, rtDef rt) \<in> set (colIndexes c)" using rt(1) by (auto simp: runtimeOk_def intro: map_of_SomeD)
  then have "rtDef rt \<in> snd ` set (colIndexes c)" by force
  from reachable_indexOk [OF assms(1,2) this] show thesis using that rt assms(4) by metis
qed

lemma reachable_scan:
  assumes "reachable E kv B db D" and "map_of (collections db) n = Some c" and "planOk c (plan, True)"
    and "idxDBID (cpIdx plan) \<notin> B" and "planFits (envLib E) (idxKind (cpIdx plan)) plan"
    and "scanIndexCandidateIDs (envLib E) (envEng E) rev_it (dbEngine db) plan desc = Inr ids"
  shows "set ids = acceptedIds E (cpIdx plan) (D n) plan \<and> (cpOp plan \<noteq> ''in'' \<longrightarrow> distinct ids)"
proof -
  obtain rt where rt: "cpIndex plan = Some rt" "cpIdx plan = rtDef rt" "oppositeBounds plan" "indexOk E (kv (dbEngine db)) (rtDef rt) (D n)"
    using reachable_plan [OF assms(1-4)] .
  then show ?thesis using scan_plan [OF rt(4,1,2) refl rt(3) _ assms(6)] assms(5) by simp
qed

end

section \<open>A small plan\<close>

definition tinyCmp :: comparison where
  "tinyCmp = \<lparr>cmpKey = ''a'', cmpOp = ''='', cmpValue = \<lparr>veLiteral = VNumber ''1'', vePh = None\<rparr>\<rparr>"

definition tinyEq :: filterNode where
  "tinyEq = filterAtom (noTerm\<lparr>qfPathPattern := ''/'', qfExpr := Some (exprCmp tinyCmp)\<rparr>)"

definition tinyICol :: collectionState where
  "tinyICol = \<lparr>colName = ''c'', colDBID = 2, colNextID = 1, colRNum = 1,
    colIndexes = [(tinyKey, tinyIdx 1)], colRuntime = [(tinyKey, newRuntime (tinyIdx 1))]\<rparr>"

lemma tiny_candidate:
  "\<exists>plan. filterCandidate tinyLib tinyICol q tinyEq = (plan, True) \<and> cpIndex plan = Some (newRuntime (tinyIdx 1))
     \<and> cpIdx plan = tinyIdx 1 \<and> cpOp plan = ''='' \<and> cpValue plan = VNumber ''1'' \<and> cpOp2 plan = ''''"
  by (simp add: tinyEq_def noTerm_def termCandidate_def Contains_def tinyCmp_def candidateFromComparison_def isIndexableOp_def pointerJoin_def
      TrimPrefix_def valueResolve_def tinyICol_def newRuntime_def tinyIdx_def indexOpPlan_def tiny_number betterCandidate_def noPlan_def HasPrefix_def Let_def)

lemma tiny_planFits:
  "cpValue plan = VNumber ''1'' \<Longrightarrow> planFits tinyLib IndexInt64 plan"
  by (simp add: planFits_def tiny_number)

lemma tiny_iscan:
  assumes "cpIndex plan = Some (newRuntime (tinyIdx 1))" "cpIdx plan = tinyIdx 1" "cpOp plan = ''=''" "cpValue plan = VNumber ''1''"
  shows "scanIndexCandidateIDs tinyLib (PebbleEngine memPebble) rev_it (dbEngine tinyIDb) plan desc = Inr [1]"
proof -
  have g: "map_of (dbEngine tinyIDb) (keyUniqueIndex (tinyIdx 1) tinyVal) = Some (putU64 [] 1)" by (simp add: tinyIDb_def)
  have i: "idxKind (tinyIdx 1) = IndexInt64" "idxUnique (tinyIdx 1)" "idxPath (tinyIdx 1) = ''/a''" by (simp_all add: tinyIdx_def)
  show ?thesis
    by (simp add: scanIndexCandidateIDs_def scanIndexCandidateIDsFunc_def scanPlan_def assms i tiny_number tinyVal_def [symmetric]
        scanValue_def addUniqueValue_def g addID_def)
qed

section \<open>The property\<close>



end
