(* ===== verification/IndexComplete.thy ===== *)
theory IndexComplete
  imports IndexProps QueryProps QueryTypes
begin

text \<open>
  An index does not change what a filter selects: on documents whose values at the indexed path have the type of the index, every
  document the filter selects has an entry that the plan accepts. A plan is made from the comparisons that a filter joins by
  \<^verbatim>\<open>and\<close>, so that a document the filter selects satisfies the comparisons of the plan.
\<close>

section \<open>Values of the type of an index\<close>

fun typedAt :: "go_lib \<Rightarrow> IndexKind \<Rightarrow> gv \<Rightarrow> bool" where
  "typedAt L IndexInt64 v = (case toInt64 v of None \<Rightarrow> False | Some i \<Rightarrow> toJQValue L v = JI64 i)"
| "typedAt L IndexString v = (case v of VString _ \<Rightarrow> True | _ \<Rightarrow> False)"
| "typedAt L _ v = False"

definition planTyped :: "go_lib \<Rightarrow> IndexKind \<Rightarrow> candidatePlan \<Rightarrow> bool" where
  "planTyped L kind plan \<longleftrightarrow>
     (if cpOp plan = ''in'' then (case toAnySlice (cpValue plan) of None \<Rightarrow> False | Some arr \<Rightarrow> list_all (typedAt L kind) arr)
      else typedAt L kind (cpValue plan)) \<and> (cpOp2 plan \<noteq> '''' \<longrightarrow> typedAt L kind (cpValue2 plan))"

lemma typed_int: "typedAt L IndexInt64 v \<Longrightarrow> \<exists>i. toInt64 v = Some i \<and> toJQValue L v = JI64 i \<and> stringArg v = None"
  by (cases v) (auto split: option.splits)

lemma typed_string: "typedAt L IndexString v \<Longrightarrow> \<exists>s. v = VString s"
  by (cases v) auto

text \<open>A typed value has one key, and keys compare as the values do.\<close>

lemma typed_key:
  assumes "typedAt L kind v"
  obtains s where "normalizeIndexValue L v kind = Some s"
  using assms typed_int [of L v] typed_string [of L v] by (cases kind) auto

lemma encodeI64_inject: "encodeI64IndexKey i = encodeI64IndexKey j \<longleftrightarrow> i = j"
  by (metis decodeI64_encodeI64 option.inject)

lemma typed_eq:
  assumes "typedAt L kind v" and "typedAt L kind w" and "jqCompare L v w = Some 0"
  shows "normalizeIndexValue L v kind = normalizeIndexValue L w kind"
proof (cases kind)
  case IndexInt64
  then obtain i j where "toInt64 v = Some i" "toJQValue L v = JI64 i" "toInt64 w = Some j" "toJQValue L w = JI64 j"
    using assms typed_int by blast
  then show ?thesis using assms(3) IndexInt64 icmp.cmp_zero [of i j] by (auto simp: jqCompare.simps dest: signed_word_eqI)
next
  case IndexString
  then obtain s t where "v = VString s" "w = VString t" using assms typed_string by blast
  then show ?thesis using assms(3) IndexString by (auto simp: jqCompare.simps stringsCompare_def split: if_splits)
qed (use assms in auto)

lemma ordHolds_rangeTest: "op \<in> {''>'', ''>='', ''<'', ''<=''} \<Longrightarrow> rangeTest op c \<longleftrightarrow> ordHolds op c"
  by (auto simp: rangeTest_def ordHolds_def)

lemma typed_range:
  assumes "typedAt L kind v" and "typedAt L kind w" and op: "op \<in> {''>'', ''>='', ''<'', ''<=''}"
    and "compareValues L v op w = Inr True" and "normalizeIndexValue L v kind = Some s" and "normalizeIndexValue L w kind = Some t"
  shows "rangeTest op (stringsCompare s t)"
proof (cases kind)
  case IndexInt64
  then obtain i j where ij: "toInt64 v = Some i" "toJQValue L v = JI64 i" "stringArg v = None" "toInt64 w = Some j" "toJQValue L w = JI64 j"
    using assms typed_int by blast
  have "ordHolds op (cmpInt64 i j)" using assms(4) op ij by (auto simp: compareValues_def jqCompare.simps)
  moreover have "cmpInt64 i j = stringsCompare s t"
    using assms(5,6) IndexInt64 ij signed_word_eqI [of i j]
    by (auto simp: cmpInt64_def stringsCompare_def encodeI64_less encodeI64_inject)
  ultimately show ?thesis using op ordHolds_rangeTest by simp
next
  case IndexString
  then obtain x y where "v = VString x" "w = VString y" using assms typed_string by blast
  then show ?thesis using assms op ordHolds_rangeTest by (auto simp: compareValues_def IndexString)
qed (use assms in auto)

text \<open>What a document the filter selects satisfies of a plan.\<close>

definition planHolds :: "go_lib \<Rightarrow> candidatePlan \<Rightarrow> gv \<Rightarrow> bool" where
  "planHolds L plan v \<longleftrightarrow> isIndexableOp (cpOp plan) \<and> compareValues L v (cpOp plan) (cpValue plan) = Inr True
     \<and> (cpOp2 plan \<noteq> '''' \<longrightarrow> (isLowerBoundOp (cpOp plan) \<or> isUpperBoundOp (cpOp plan))
          \<and> (isLowerBoundOp (cpOp2 plan) \<or> isUpperBoundOp (cpOp2 plan)) \<and> compareValues L v (cpOp2 plan) (cpValue2 plan) = Inr True)"

lemma holds_accepts:
  assumes v: "typedAt L kind v" and pt: "planTyped L kind plan" and ph: "planHolds L plan v"
    and key: "normalizeIndexValue L v kind = Some s" and pre: "cpOp plan = ''prefix'' \<longrightarrow> kind = IndexString"
  shows "planAccepts L kind plan s"
proof -
  consider "cpOp plan = ''=''" | "cpOp plan = ''in''" | "cpOp plan = ''prefix''" | "cpOp plan \<in> {''>'', ''>='', ''<'', ''<=''}"
    using ph by (auto simp: planHolds_def isIndexableOp_def)
  then show ?thesis
  proof cases
    case 1
    then have "jqCompare L v (cpValue plan) = Some 0" using ph by (simp add: planHolds_def compareValues_def)
    then show ?thesis using 1 typed_eq [OF v, of "cpValue plan"] pt key by (simp add: planAccepts_def planTyped_def)
  next
    case 2
    then obtain arr it where arr: "toAnySlice (cpValue plan) = Some arr" "it \<in> set arr" "jqCompare L v it = Some 0"
      using ph by (auto simp: planHolds_def compareValues_def inSlice_def list_ex_iff split: option.splits)
    then have "normalizeIndexValue L it kind = Some s"
      using 2 typed_eq [OF v, of it] pt key by (auto simp: planTyped_def list_all_iff)
    then show ?thesis using 2 arr by (auto simp: planAccepts_def list_ex_iff)
  next
    case 3
    then obtain x where "v = VString x" "kind = IndexString" using v pre typed_string by blast
    then show ?thesis using 3 ph key
      by (auto simp: planAccepts_def planHolds_def compareValues_def jqPrefixMatch_def split: option.splits)
  next
    case 4
    then have tw: "typedAt L kind (cpValue plan)" using pt by (auto simp: planTyped_def)
    obtain t where t: "normalizeIndexValue L (cpValue plan) kind = Some t" using typed_key [OF tw] .
    have one: "rangeTest (cpOp plan) (stringsCompare s t)"
      using typed_range [OF v tw 4 _ key t] ph by (simp add: planHolds_def)
    have "\<exists>t2. normalizeIndexValue L (cpValue2 plan) kind = Some t2 \<and> rangeTest (cpOp2 plan) (stringsCompare s t2)" if "cpOp2 plan \<noteq> ''''"
    proof -
      have tw2: "typedAt L kind (cpValue2 plan)" using pt that by (simp add: planTyped_def)
      obtain t2 where t2: "normalizeIndexValue L (cpValue2 plan) kind = Some t2" using typed_key [OF tw2] .
      have "cpOp2 plan \<in> {''>'', ''>='', ''<'', ''<=''}" using ph that by (auto simp: planHolds_def isLowerBoundOp_def isUpperBoundOp_def)
      from typed_range [OF v tw2 this _ key t2] t2 ph that show ?thesis by (simp add: planHolds_def)
    qed
    then show ?thesis using 4 one t by (cases "cpOp2 plan = ''''") (auto simp: planAccepts_def)
  qed
qed

section \<open>The values a comparison reads\<close>

text \<open>
  A path and a key whose pointer has the tokens of the path and the key, as they stand: without blanks, escapes,
  wildcards and brackets.
\<close>

definition plainPath :: "string \<Rightarrow> string \<Rightarrow> bool" where
  "plainPath pat key \<longleftrightarrow>
     (case pointerTokens pat of
        Inl _ \<Rightarrow> False
      | Inr toks \<Rightarrow>
          ''*'' \<notin> set toks \<and> ''**'' \<notin> set toks
          \<and> (key = ''**'' \<or> pointerTokens (pointerJoin pat key) = Inr (toks @ [key]) \<and> TrimSpace key = key
               \<and> \<not> (HasPrefix key ''['' \<and> HasSuffix key '']'') \<and> \<not> HasPrefix key ''/''))"

lemma getAt_field: "getAt cur (t # ts) = (case fieldOf cur t of None \<Rightarrow> None | Some n \<Rightarrow> getAt n ts)"
  by (simp add: fieldOf_def split: gv.split option.split)

lemma getAt_snoc: "getAt cur (ts @ [t]) = (case getAt cur ts of None \<Rightarrow> None | Some n \<Rightarrow> fieldOf n t)"
  by (induction ts arbitrary: cur) (auto simp: getAt_field simp del: getAt.simps(2) split: option.splits)

lemma walkPattern_plain:
  "''*'' \<notin> set toks \<Longrightarrow> ''**'' \<notin> set toks \<Longrightarrow> walkPattern cur toks = (case getAt cur toks of None \<Rightarrow> [] | Some n \<Rightarrow> [n])"
proof (induction toks arbitrary: cur)
  case (Cons t toks)
  then have "walkPattern cur (t # toks) = (case fieldOf cur t of None \<Rightarrow> [] | Some n \<Rightarrow> walkPattern n toks)"
    by (subst walkPattern.simps(2)) (auto simp del: walkPattern.simps)
  also have "\<dots> = (case fieldOf cur t of None \<Rightarrow> [] | Some n \<Rightarrow> case getAt n toks of None \<Rightarrow> [] | Some n \<Rightarrow> [n])"
    using Cons by (simp split: option.split)
  finally show ?case unfolding getAt_field by (simp split: option.split)
qed simp

definition scalarAt :: "gv \<Rightarrow> string \<Rightarrow> bool" where
  "scalarAt d path \<longleftrightarrow> (case pointerGet d path of None \<Rightarrow> True | Some v \<Rightarrow> immediateChildren v = [])"

lemma anyMatch_True: "anyMatch f xs = Inr True \<Longrightarrow> \<exists>x \<in> set xs. f x = Inr True"
  by (induction xs) (auto split: sum.splits bool.splits)

lemma comparison_reads:
  assumes pp: "plainPath pat key" and star: "key \<noteq> ''*''" and node: "node \<in> set (findNodesByPattern d pat)"
    and sc: "scalarAt d (if key \<noteq> ''**'' then pointerJoin pat key else pat)" and v: "v \<in> set (valuesByKey L J node key)"
  shows "pointerGet d (if key \<noteq> ''**'' then pointerJoin pat key else pat) = Some v"
proof -
  obtain toks where toks: "pointerTokens pat = Inr toks" "''*'' \<notin> set toks" "''**'' \<notin> set toks"
    using pp by (auto simp: plainPath_def split: sum.splits)
  have n: "getAt d toks = Some node"
    using node toks by (auto simp: findNodesByPattern_def walkPattern_plain split: option.splits)
  show ?thesis
  proof (cases "key = ''**''")
    case True
    then have "immediateChildren node = []" using sc toks n by (simp add: scalarAt_def pointerGet_def)
    then have "v = node" using v True by (simp add: valuesByKey_def TrimSpace_graphic graphic_def HasPrefix_def collectDesc.simps)
    then show ?thesis using True toks n by (simp add: pointerGet_def)
  next
    case False
    then have k: "pointerTokens (pointerJoin pat key) = Inr (toks @ [key])" "TrimSpace key = key"
        "\<not> (HasPrefix key ''['' \<and> HasSuffix key '']'')" "\<not> HasPrefix key ''/''"
      using pp toks by (auto simp: plainPath_def)
    then have "fieldOf node key = Some v"
      using v star False by (auto simp: valuesByKey_def Let_def split: if_splits option.splits)
    then show ?thesis using False k(1) n by (simp add: pointerGet_def getAt_snoc)
  qed
qed

section \<open>The comparisons of a plan\<close>

text \<open>A plan that holds at the value of a document, unless the value has parts.\<close>

definition planGood :: "go_lib \<Rightarrow> gv \<Rightarrow> plan \<Rightarrow> bool" where
  "planGood L d p \<longleftrightarrow> snd p \<longrightarrow> scalarAt d (idxPath (cpIdx (fst p))) \<longrightarrow>
     (\<exists>v. pointerGet d (idxPath (cpIdx (fst p))) = Some v \<and> planHolds L (fst p) v)
     \<and> (cpOp (fst p) = ''prefix'' \<longrightarrow> idxKind (cpIdx (fst p)) = IndexString)"

lemma planGood_none [simp]: "planGood L d (p, False)"
  by (simp add: planGood_def)

lemma better_cases: "betterCandidate a b = a \<or> betterCandidate a b = b \<or> \<not> snd (betterCandidate a b)
    \<or> fst (betterCandidate a b) = fst b \<and> snd b"
  by (cases a; cases b) (auto simp: betterCandidate_def)

lemma planGood_better: "planGood L d a \<Longrightarrow> planGood L d b \<Longrightarrow> planGood L d (betterCandidate a b)"
  using better_cases [of a b] by (auto simp: planGood_def)

lemma planGood_merge:
  assumes a: "planGood L d a" and b: "planGood L d b"
  shows "planGood L d (mergeRangeCandidates a b)"
proof (cases "snd (mergeRangeCandidates a b)")
  case True
  obtain p x q y where ab: "a = (p, x)" "b = (q, y)" by (cases a; cases b)
  have g: "x" "y" "idxPath (cpIdx p) = idxPath (cpIdx q)" "isLowerBoundOp (cpOp p) \<or> isUpperBoundOp (cpOp p)"
      "isLowerBoundOp (cpOp q) \<or> isUpperBoundOp (cpOp q)"
    using True unfolding mergeRangeCandidates_def ab by (simp_all split: if_splits)
  obtain out other where m: "fst (mergeRangeCandidates a b)
        = out\<lparr>cpOp2 := cpOp other, cpValue2 := cpValue other, cpExplain2 := cpExplain other, cpWeight := 75\<rparr>"
      and o: "out = q \<and> other = p \<or> out = p \<and> other = q"
    using True unfolding mergeRangeCandidates_def ab by (simp split: if_splits)
  have "planGood L d (out, True)" "planGood L d (other, True)" "idxPath (cpIdx other) = idxPath (cpIdx out)"
      "isLowerBoundOp (cpOp out) \<or> isUpperBoundOp (cpOp out)" "isLowerBoundOp (cpOp other) \<or> isUpperBoundOp (cpOp other)"
    using a b ab o g by auto
  then show ?thesis unfolding planGood_def m by (auto simp: planHolds_def)
qed (simp add: planGood_def)

lemma planGood_bestRuntime:
  assumes hold: "scalarAt d path \<longrightarrow> (\<exists>v. pointerGet d path = Some v \<and> compareValues L v op val = Inr True)" and op: "isIndexableOp op"
  shows "planGood L d best \<Longrightarrow> planGood L d (bestRuntime L col path op val rts best)"
proof (induction rts arbitrary: best)
  case (Cons rt rts)
  have new: "planGood L d (noPlan\<lparr>cpIndex := Some rt, cpIdx := rtDef rt, cpOp := op, cpValue := val, cpWeight := w,
      cpCursorInit := ci, cpCursorStep := cs, cpRNum := r, cpPathCnt := pc, cpExplain := ex\<rparr>, True)"
    if "idxPath (rtDef rt) = path" "indexOpPlan L (rtDef rt) op val (colRNum col) = Some z" for w ci cs r pc ex z
    using hold op that by (auto simp: planGood_def planHolds_def noPlan_def indexOpPlan_def split: if_splits)
  show ?case
    unfolding bestRuntime.simps
    by (rule Cons.IH) (use Cons.prems new planGood_better in \<open>auto split: option.split\<close>)
qed simp

lemma planGood_and: "planGood L d a \<Longrightarrow> planGood L d b \<Longrightarrow> planGood L d (candidateAnd a b)"
  by (simp add: candidateAnd_def Let_def planGood_merge planGood_better)

fun exprPlain :: "string \<Rightarrow> exprNode \<Rightarrow> bool" where
  "exprPlain pat (exprCmp c) = plainPath pat (cmpKey c)"
| "exprPlain pat (exprAnd a b) = (exprPlain pat a \<and> exprPlain pat b)"
| "exprPlain pat _ = True"

definition termPlain :: "queryFilter \<Rightarrow> bool" where
  "termPlain f \<longleftrightarrow>
     (case qfExpr f of
        None \<Rightarrow> True
      | Some x \<Rightarrow> qfChain f \<noteq> [] \<or> \<not> qfAll f \<and> qfPk f = None \<and> exprPlain (qfPathPattern f) x)"

fun filterPlain :: "filterNode \<Rightarrow> bool" where
  "filterPlain (filterAtom f) = termPlain f"
| "filterPlain (filterAnd a b) = (filterPlain a \<and> filterPlain b)"
| "filterPlain (filterGroup a) = filterPlain a"
| "filterPlain _ = True"

lemma planGood_comparison:
  assumes pp: "plainPath pat (cmpKey c)" and node: "node \<in> set (findNodesByPattern d pat)" and ev: "cmpEval L J c node q = Inr True"
  shows "planGood L d (candidateFromComparison L col q pat c)"
proof (cases "isIndexableOp (cmpOp c) \<and> cmpKey c \<noteq> ''*''")
  case True
  obtain val v where val: "valueResolve q (cmpValue c) = Inr val" "v \<in> set (valuesByKey L J node (cmpKey c))"
      "compareValues L v (cmpOp c) val = Inr True"
    using ev by (auto simp: cmpEval_def split: sum.splits dest!: anyMatch_True)
  let ?path = "if cmpKey c \<noteq> ''**'' then pointerJoin pat (cmpKey c) else pat"
  have "scalarAt d ?path \<longrightarrow> (\<exists>v. pointerGet d ?path = Some v \<and> compareValues L v (cmpOp c) val = Inr True)"
    using comparison_reads [OF pp _ node _ val(2)] val(3) True by blast
  from planGood_bestRuntime [OF this, of "(noPlan, False)" col "map snd (colRuntime col)"] True val(1) show ?thesis
    by (simp add: candidateFromComparison_def Let_def)
qed (auto simp: candidateFromComparison_def)

lemma planGood_expr:
  "exprPlain pat x \<Longrightarrow> node \<in> set (findNodesByPattern d pat) \<Longrightarrow> exprEval L J x node q = Inr True
    \<Longrightarrow> planGood L d (candidateFromExpr L col q pat x)"
proof (induction x)
  case (exprAnd a b)
  then have "exprEval L J a node q = Inr True" "exprEval L J b node q = Inr True" by (auto split: sum.splits if_splits)
  then show ?case using exprAnd by (simp add: planGood_and)
qed (simp_all add: planGood_comparison)

lemma planGood_term:
  assumes "termPlain f" and "termMatch L J f d i q = Inr True"
  shows "planGood L d (termCandidate L col q f)"
proof (cases "qfChain f = [] \<and> qfExpr f \<noteq> None")
  case True
  then obtain x where x: "qfExpr f = Some x" "qfChain f = []" "\<not> qfAll f" "qfPk f = None" "exprPlain (qfPathPattern f) x"
    using assms(1) by (auto simp: termPlain_def)
  then obtain node where "node \<in> set (findNodesByPattern d (qfPathPattern f))" "exprEval L J x node q = Inr True"
    using assms(2) by (auto simp: termMatch_def Let_def dest!: anyMatch_True)
  from planGood_expr [OF x(5) this] show ?thesis using x by (simp add: termCandidate_def)
qed (auto simp: termCandidate_def)

lemma planGood_filter:
  "filterPlain f \<Longrightarrow> filterMatch L J f d i q = Inr True \<Longrightarrow> planGood L d (filterCandidate L col q f)"
proof (induction f)
  case (filterAnd a b)
  then have "filterMatch L J a d i q = Inr True" "filterMatch L J b d i q = Inr True" by (auto split: sum.splits if_splits)
  then show ?case using filterAnd by (simp add: planGood_and)
qed (simp_all add: planGood_term)

section \<open>A selected document has an accepted value\<close>

lemma typed_scalar: "typedAt L kind v \<Longrightarrow> immediateChildren v = [] \<and> (\<forall>arr. v \<noteq> VArray arr)"
  using typed_int [of L v] typed_string [of L v] by (cases kind; cases v) (auto simp: immediateChildren_def split: option.splits)

text \<open>The documents of a collection whose values at the path of an index have its type.\<close>

definition docsTyped :: "go_lib \<Rightarrow> indexState \<Rightarrow> (int64 \<Rightarrow> gv option) \<Rightarrow> bool" where
  "docsTyped L idx docs \<longleftrightarrow> (\<forall>i d v. docs i = Some d \<and> pointerGet d (idxPath idx) = Some v \<longrightarrow> typedAt L (idxKind idx) v)"

lemma typed_values:
  assumes "typedAt L kind v" and "pointerGet d path = Some v" and "normalizeIndexValue L v kind = Some s"
  shows "s \<in> set (valuesForIndex L d path kind)"
proof -
  have "(case v of VArray arr \<Rightarrow> arr | _ \<Rightarrow> [v]) = [v]" using typed_scalar [OF assms(1)] by (cases v) auto
  then show ?thesis using assms(2,3) by (simp add: valuesForIndex_def)
qed

lemma selected_accepted:
  assumes "filterPlain (pqFilter (qParsed q))" and "filterCandidate (qeLib Q) col q (pqFilter (qParsed q)) = (plan, True)"
    and "planTyped (qeLib Q) (idxKind (cpIdx plan)) plan" and "docsTyped (qeLib Q) (cpIdx plan) docs"
  shows "selected Q q docs \<subseteq> acceptedIds (qeEnv Q) (cpIdx plan) docs plan"
proof
  fix i
  assume "i \<in> selected Q q docs"
  then obtain d where d: "docs i = Some d" "filterMatch (qeLib Q) (qeJson Q) (pqFilter (qParsed q)) d i q = Inr True"
    by (auto simp: selected_def)
  let ?path = "idxPath (cpIdx plan)" and ?kind = "idxKind (cpIdx plan)"
  have ty: "typedAt (qeLib Q) ?kind v" if "pointerGet d ?path = Some v" for v
    using assms(4) d(1) that by (auto simp: docsTyped_def)
  then have "scalarAt d ?path" using typed_scalar by (auto simp: scalarAt_def split: option.split)
  with planGood_filter [OF assms(1) d(2), of col] assms(2)
  obtain v where v: "pointerGet d ?path = Some v" "planHolds (qeLib Q) plan v" "cpOp plan = ''prefix'' \<longrightarrow> ?kind = IndexString"
    by (auto simp: planGood_def)
  obtain s where s: "normalizeIndexValue (qeLib Q) v ?kind = Some s" using typed_key [OF ty [OF v(1)]] .
  have "planAccepts (qeLib Q) ?kind plan s" by (rule holds_accepts [OF ty [OF v(1)] assms(3) v(2) s v(3)])
  then show "i \<in> acceptedIds (qeEnv Q) (cpIdx plan) docs plan"
    using d(1) typed_values [OF ty [OF v(1)] v(1) s] by (auto simp: acceptedIds_def entriesOf_def idxVals_def)
qed

section \<open>A listing served by an index\<close>

context query_env begin

lemma indexed_window:
  assumes reach: "reachable (qeEnv Q) kv B db D" and c: "map_of (collections db) (qCollection q) = Some c"
    and plan: "planQuery Q db c q [] = Some (plan, ord)" and sorts: "pqSorts (qParsed q) = []"
    and inStep: "idxDBID (cpIdx plan) \<notin> B" and fp: "filterPlain (pqFilter (qParsed q))" and pt: "planTyped (qeLib Q) (idxKind (cpIdx plan)) plan"
    and fits: "planFits (qeLib Q) (idxKind (cpIdx plan)) plan" and dt: "docsTyped (qeLib Q) (cpIdx plan) (D (qCollection q))"
    and w: "matchWindow Q db c q skip limit [] = Inr (w, logs)"
  obtains ids where "set ids = selected Q q (D (qCollection q))" "cpOp plan \<noteq> ''in'' \<longrightarrow> distinct ids"
    "windowDocs False skip limit (map (docAt Q (D (qCollection q))) ids) = Inr (map idRaw w)"
proof -
  let ?D = "D (qCollection q)" and ?inv = "pqInverse (qParsed q)"
  have rel: "dbRel (qeEnv Q) kv B db D D" using reachable_dbInv [OF reach] by (simp add: dbInv_def)
  have p: "filterCandidate (qeLib Q) c q (pqFilter (qParsed q)) = (plan, True)" "ord = False"
    using plan by (auto simp: planQuery_def split: if_splits prod.splits bool.splits)
  obtain ids where "lookedAt Q db c (Some (plan, ord)) = Inr ids" and spec: "windowSpec Q db c q skip limit [] True ids = Inr (map idRaw w)"
    using spilling_query.matchWindow_unspilled [OF spilling [OF rel c] plan _ w] p(2) by auto
  then have scan: "scanIndexCandidateIDs (qeLib Q) (qeEng Q) (qeReverse Q) (dbEngine db) plan False = Inr ids" by (simp add: lookedAt_def)
  have "planOk c (plan, True)" using planOk_filter [of c "qeLib Q" q "pqFilter (qParsed q)"] p(1) by simp
  from reachable_scan [OF reach c this inStep fits scan]
  have ids: "set ids = acceptedIds (qeEnv Q) (cpIdx plan) ?D plan" "cpOp plan \<noteq> ''in'' \<longrightarrow> distinct ids" by auto
  obtain ds where all: "matchAll Q db c q [] ids = Inr ds" using spec by (auto simp: windowSpec_def split: sum.splits)
  define sel where "sel = filter (\<lambda>i. i \<in> selected Q q ?D) ids"
  define mk where "mk i = (case docAt Q ?D i of (i, raw, node) \<Rightarrow> mkMatched i raw node [])" for i
  have mk: "idRaw \<circ> mk = docAt Q ?D" by (simp add: fun_eq_iff mk_def docAt_def mkMatched_def)
  have "ds = map mk sel" using matchAll_ok [OF rel c all] by (simp add: sel_def mk_def [abs_def])
  then have order: "orderDocs (qeLib Q) (qParsed q) True False ds = map mk (if ?inv then rev sel else sel)"
    by (simp add: orderDocs_def sorts Let_def rev_map)
  show thesis
  proof (rule that [of "if ?inv then rev sel else sel"])
    show "set (if ?inv then rev sel else sel) = selected Q q ?D"
      using selected_accepted [OF fp p(1) pt dt] ids(1) by (auto simp: sel_def)
    show "cpOp plan \<noteq> ''in'' \<longrightarrow> distinct (if ?inv then rev sel else sel)" using ids(2) by (simp add: sel_def)
    show "windowDocs False skip limit (map (docAt Q ?D) (if ?inv then rev sel else sel)) = Inr (map idRaw w)"
      using spec windowDocs_map [of False skip limit idRaw "map mk (if ?inv then rev sel else sel)"]
      by (auto simp: windowSpec_def all order mk split: sum.splits)
  qed
qed

lemma indexed_listing:
  assumes reach: "reachable (qeEnv Q) kv B db D" and plain: "plainQuery q" and c: "map_of (collections db) (qCollection q) = Some c"
    and plan: "planQuery Q db c q [] = Some (plan, ord)"
    and ix: "idxDBID (cpIdx plan) \<notin> B" "filterPlain (pqFilter (qParsed q))" "planTyped (qeLib Q) (idxKind (cpIdx plan)) plan"
      "planFits (qeLib Q) (idxKind (cpIdx plan)) plan" "docsTyped (qeLib Q) (cpIdx plan) (D (qCollection q))"
    and run: "runQueryLocked Q (dbSt db) q modeList (noOptions limit) db = (Inr res, db')"
  shows "db' = db \<and> \<not> qrChanged res \<and> (\<exists>ids skip n. set ids = selected Q q (D (qCollection q)) \<and> (cpOp plan \<noteq> ''in'' \<longrightarrow> distinct ids)
    \<and> intOption q (pqSkip (qParsed q)) (pqSkipPH (qParsed q)) 0 = Inr skip
    \<and> intOption q (pqLimit (qParsed q)) (pqLimitPH (qParsed q)) limit = Inr n
    \<and> windowDocs False skip n (map (\<lambda>i. \<lparr>docID = i, docRaw = textOf (qeEnv Q) (the (D (qCollection q) i))\<rparr>) ids) = Inr (qrDocs res))"
proof -
  let ?D = "D (qCollection q)" and ?doc = "\<lambda>(i, raw, node). \<lparr>docID = i, docRaw = raw\<rparr>"
  have p: "pqAction (qParsed q) = actionNone" "\<not> pqCount (qParsed q)" "pqProjection (qParsed q) = None" "pqSorts (qParsed q) = []"
    using plain by (auto simp: plainQuery_def)
  have "runOnCollection Q q modeList (noOptions limit) c (dbSt db) db = (Inr res, db')" using run c by (simp add: runQueryLocked_def)
  from runOnCollection_read [OF this p(1)]
  obtain paths skip n w logs where r: "sortPathsOf q (pqSorts (qParsed q)) = Inr paths"
      "intOption q (pqSkip (qParsed q)) (pqSkipPH (qParsed q)) (eoSkip (noOptions limit)) = Inr skip"
      "intOption q (pqLimit (qParsed q)) (pqLimitPH (qParsed q)) (eoLimit (noOptions limit)) = Inr n"
      "matchWindow Q db c q skip n paths = Inr (w, logs)" "db' = db" "\<not> qrChanged res"
      "if pqCount (qParsed q) then qrCount res = int (length w)
       else \<exists>docs. resultDocs Q db (dbSt db) q w = Inr docs \<and> qrCount res = int (length docs) \<and> (modeList \<noteq> modeCount \<longrightarrow> qrDocs res = docs)"
    by (metis queryMode.distinct(1) queryMode.distinct(3) queryMode.distinct(5))
  have paths: "paths = []" using r(1) p(4) by simp
  obtain ids where ids: "set ids = selected Q q ?D" "cpOp plan \<noteq> ''in'' \<longrightarrow> distinct ids"
      "windowDocs False skip n (map (docAt Q ?D) ids) = Inr (map idRaw w)"
    using indexed_window [OF reach c plan p(4) ix(1-5) r(4) [unfolded paths]] .
  have "set (map idRaw w) \<subseteq> docAt Q ?D ` selected Q q ?D" using windowDocs_subset [OF ids(3)] ids(1) by auto
  then have "\<forall>m \<in> set w. mdRaw m \<noteq> []" using selected_text [OF reads_inv [OF reachable_dbInv [OF reach]]] by (force simp: docAt_def)
  from resultDocs_plain [OF p(3) this, of Q db "dbSt db"] have "qrDocs res = map ?doc (map idRaw w)" using r(7) p(2) by (simp add: comp_def)
  then have "windowDocs False skip n (map ?doc (map (docAt Q ?D) ids)) = Inr (qrDocs res)"
    unfolding windowDocs_map [of _ _ _ ?doc] ids(3) by simp
  then show ?thesis using r(2,3,5,6) ids(1,2)
    by (intro conjI exI [of _ ids] exI [of _ skip] exI [of _ n]) (simp_all add: noOptions_def docAt_def comp_def)
qed

end

section \<open>A small listing\<close>

definition tinyIQ :: "memStore queryEnv" where "tinyIQ = (tinyQ 0)\<lparr>qeEnv := tinyI\<rparr>"

definition tinyEqQuery :: Query where
  "tinyEqQuery = noQuery\<lparr>qCollection := ''c'', qParsed := parsedOf tinyEq ''c''\<rparr>"

lemma tinyIQ_simps [simp]: "qeEnv tinyIQ = tinyI" "qeSpill tinyIQ = tinySpill"
  by (simp_all add: tinyIQ_def tinyQ_def)

interpretation tiny_iq: query_env tinyIQ map_of
  by (intro query_env.intro spill_file.intro) (simp_all add: tiny.env.db_env_axioms tinySpill_def)

lemma tiny_eq_query [simp]:
  "qCollection tinyEqQuery = ''c''" "pqSorts (qParsed tinyEqQuery) = []" "pqAction (qParsed tinyEqQuery) = actionNone"
  "pqInverse (qParsed tinyEqQuery) = False" "\<not> pqNoidx (qParsed tinyEqQuery)" "pqProjection (qParsed tinyEqQuery) = None"
  "pqCount (qParsed tinyEqQuery) = False" "pqFilter (qParsed tinyEqQuery) = tinyEq"
  "pqSkip (qParsed tinyEqQuery) = 0" "pqSkipPH (qParsed tinyEqQuery) = None"
  "pqLimit (qParsed tinyEqQuery) = - 1" "pqLimitPH (qParsed tinyEqQuery) = None"
  by (simp_all add: tinyEqQuery_def parsedOf_def noQuery_def)

lemma tiny_eq_filter: "filterMatch tinyLib J tinyEq tinyDoc i q = Inr True"
  by (simp add: tinyEq_def noTerm_def tinyCmp_def termMatch_def findNodesByPattern_def pointerTokens_def cmpEval_def valueResolve_def
      valuesByKey_def TrimSpace_graphic graphic_def HasPrefix_def tinyDoc_def fieldOf_def compareValues_def jqCompare.simps tiny_number icmp.cmp_zero)

lemma tiny_eq_plain: "filterPlain tinyEq"
  by (simp add: tinyEq_def noTerm_def tinyCmp_def termPlain_def plainPath_def pointerTokens_def pointerJoin_def TrimPrefix_def HasPrefix_def
      unescapeToken_def ReplaceAll.simps TrimSpace_graphic graphic_def)

lemma tiny_icollection: "map_of (collections tinyIDb) ''c'' = Some tinyICol"
  using tiny_icol by (simp add: tinyICol_def)

lemma tiny_idocForQuery: "docForQuery tinyI tinyIDb tinyICol ''c'' 1 = Inr (Some (tinyText, tinyDoc))"
proof -
  have "rel_option (holds tinyI) (map_of (dbEngine tinyIDb) (keyDoc 2 1)) (Some tinyDoc)"
    using dbInv_doc [OF tiny.env.reachable_dbInv [OF tiny_ireachable], of "''c''" tinyICol 1] tiny_icollection
    by (simp add: tiny_docs tinyICol_def)
  then have "decodeStored tinyI [0xe2, 7, 1, 1, 0x61, 0x20, 1] = Inr (tinyText, tinyDoc)"
    by (auto simp: holds_def tiny_marshal tinyIDb_def)
  then show ?thesis by (simp add: docForQuery_def pendingDocState_def lastPending_def tinyIDb_def tinyOpen_def tinyICol_def)
qed

lemma tiny_iplan:
  assumes "filterCandidate tinyLib tinyICol tinyEqQuery tinyEq = (plan, True)"
  shows "planQuery tinyIQ tinyIDb tinyICol tinyEqQuery [] = Some (plan, False)"
  using assms by (simp add: planQuery_def canUseStorageQuery_def tinyIDb_def tinyOpen_def)

lemma tiny_ilist:
  "DB_ListQuery tinyIQ tinyEqQuery 0 tinyIDb = (Inr [\<lparr>docID = 1, docRaw = tinyText\<rparr>], tinyIDb)"
proof -
  obtain plan where p: "filterCandidate tinyLib tinyICol tinyEqQuery tinyEq = (plan, True)" "cpIndex plan = Some (newRuntime (tinyIdx 1))"
      "cpIdx plan = tinyIdx 1" "cpOp plan = ''=''" "cpValue plan = VNumber ''1''"
    using tiny_candidate by blast
  have m: "matchDoc tinyIQ tinyIDb tinyICol tinyEqQuery 1 = Inr (Some (tinyText, tinyDoc))"
    by (simp add: matchDoc_def tiny_idocForQuery tiny_eq_filter del: filterMatch.simps)
  have "\<exists>logs. matchWindow tinyIQ tinyIDb tinyICol tinyEqQuery 0 (- 1) [] = Inr ([mkMatched 1 tinyText tinyDoc []], logs)"
    by (simp add: matchWindow_def Let_def tiny_iplan [OF p(1)] collectMatched_def tiny_iscan [OF p(2-5)] addMatchedDoc_def m
        orderDocs_def windowDocs_def)
  then obtain logs where w: "matchWindow tinyIQ tinyIDb tinyICol tinyEqQuery 0 (- 1) [] = Inr ([mkMatched 1 tinyText tinyDoc []], logs)" by blast
  have "\<not> dbClosed tinyIDb" by (simp add: tinyIDb_def tinyOpen_def)
  moreover have "\<exists>log. runQueryLocked tinyIQ (dbSt tinyIDb) tinyEqQuery modeList (noOptions 0) tinyIDb =
     (Inr \<lparr>qrDocs = [\<lparr>docID = 1, docRaw = tinyText\<rparr>], qrCount = 1, qrChanged = False, qrLog = log\<rparr>, tinyIDb)"
    by (simp add: runQueryLocked_def runOnCollection_def tiny_icollection tiny_intOption noOptions_def w mkMatched_def)
  ultimately show ?thesis by (auto simp: DB_ListQuery_def commitChanged_def)
qed

section \<open>The property\<close>



end
