(* ===== verification/MemIndex.thy ===== *)
theory MemIndex
  imports IndexProps
begin

text \<open>
  The index maps in memory, \<^verbatim>\<open>db.go\<close>: the functions that fill them and those that answer a plan from them. No call of the
  package reaches them, since every plan is made for the store; they are modelled for the day they are, and agree with the scan of
  the store on maps that hold the entries of the documents. Go ranges over the maps in any order; the model takes the order of the lists.
\<close>

section \<open>Filling the maps\<close>

definition runtimeValues :: "go_lib \<Rightarrow> gv \<Rightarrow> indexRuntime \<Rightarrow> string list" where
  "runtimeValues L doc rt = valuesForIndex L doc (idxPath (rtDef rt)) (idxKind (rtDef rt))"

definition addEntry :: "int64 \<Rightarrow> string \<Rightarrow> indexRuntime \<Rightarrow> indexRuntime" where
  "addEntry i v rt =
     (if idxUnique (rtDef rt) then rt\<lparr>rtUnique := AList.update v i (rtUnique rt)\<rparr>
      else rt\<lparr>rtMulti := AList.update v (List.insert i (case map_of (rtMulti rt) v of None \<Rightarrow> [] | Some ids \<Rightarrow> ids)) (rtMulti rt)\<rparr>)"

text \<open>A value of a unique index that another document has.\<close>

definition taken :: "int64 \<Rightarrow> string \<Rightarrow> indexRuntime \<Rightarrow> bool" where
  "taken i v rt \<longleftrightarrow> idxUnique (rtDef rt) \<and> (case map_of (rtUnique rt) v of None \<Rightarrow> False | Some cur \<Rightarrow> cur \<noteq> i)"

definition addDocToIndexes :: "go_lib \<Rightarrow> collectionState \<Rightarrow> int64 \<Rightarrow> gv \<Rightarrow> collectionState result" where
  "addDocToIndexes L col i doc =
     (if list_ex (\<lambda>(k, rt). list_ex (\<lambda>v. taken i v rt) (runtimeValues L doc rt)) (colRuntime col) then Inl ErrUniqueConstraint
      else Inr (col\<lparr>colRuntime := map (\<lambda>(k, rt). (k, fold (addEntry i) (runtimeValues L doc rt) rt)) (colRuntime col)\<rparr>))"

definition removeEntry :: "int64 \<Rightarrow> string \<Rightarrow> indexRuntime \<Rightarrow> indexRuntime" where
  "removeEntry i v rt =
     (if idxUnique (rtDef rt) then
        (if map_of (rtUnique rt) v = Some i then rt\<lparr>rtUnique := AList.delete v (rtUnique rt)\<rparr> else rt)
      else case map_of (rtMulti rt) v of
             None \<Rightarrow> rt
           | Some ids \<Rightarrow>
               (let ids = removeAll i ids
                in rt\<lparr>rtMulti := (if ids = [] then AList.delete v (rtMulti rt) else AList.update v ids (rtMulti rt))\<rparr>))"

definition removeDocFromIndexes :: "go_lib \<Rightarrow> collectionState \<Rightarrow> int64 \<Rightarrow> gv \<Rightarrow> collectionState" where
  "removeDocFromIndexes L col i doc =
     col\<lparr>colRuntime := map (\<lambda>(k, rt). (k, fold (removeEntry i) (runtimeValues L doc rt) rt)) (colRuntime col)\<rparr>"

section \<open>Answering a plan\<close>

definition allRuntimeIndexKeys :: "indexRuntime \<Rightarrow> string list" where
  "allRuntimeIndexKeys rt = map fst (rtUnique rt) @ map fst (rtMulti rt)"

text \<open>The closure \<^verbatim>\<open>addKey\<close>: the ids of a key.\<close>

definition idsOfKey :: "indexRuntime \<Rightarrow> string \<Rightarrow> int64 list" where
  "idsOfKey rt k =
     (if idxUnique (rtDef rt) then (case map_of (rtUnique rt) k of None \<Rightarrow> [] | Some i \<Rightarrow> [i])
      else case map_of (rtMulti rt) k of None \<Rightarrow> [] | Some ids \<Rightarrow> ids)"

fun firstIDs :: "int64 list \<Rightarrow> int64 set \<Rightarrow> int64 list" where
  "firstIDs [] seen = []"
| "firstIDs (i # is) seen = (if i \<in> seen then firstIDs is seen else i # firstIDs is (insert i seen))"

definition entryBefore :: "go_lib \<Rightarrow> IndexKind \<Rightarrow> bool \<Rightarrow> string \<times> int64 list \<Rightarrow> string \<times> int64 list \<Rightarrow> bool" where
  "entryBefore L kind desc x y =
     (let cmp = compareIndexKeys L kind (fst x) (fst y)
      in if cmp = 0 then fst x < fst y else if desc then 0 < cmp else cmp < 0)"

definition orderedIDsFromIndex :: "go_lib \<Rightarrow> indexRuntime \<Rightarrow> bool \<Rightarrow> int64 list" where
  "orderedIDsFromIndex L rt desc =
     (let entries = (if idxUnique (rtDef rt) then map (\<lambda>(k, i). (k, [i])) (rtUnique rt)
                     else map (\<lambda>(k, ids). (k, if desc then rev (sort_key sint ids) else sort_key sint ids)) (rtMulti rt))
      in firstIDs (concat (map snd (sortBy (entryBefore L (idxKind (rtDef rt)) desc) entries))) {})"

definition orderIDsByRuntimeIndex :: "go_lib \<Rightarrow> indexRuntime \<Rightarrow> int64 list \<Rightarrow> bool \<Rightarrow> int64 list" where
  "orderIDsByRuntimeIndex L rt ids desc = firstIDs (filter (\<lambda>i. i \<in> set ids) (orderedIDsFromIndex L rt desc)) {}"

text \<open>The keys of a plan. A second bound that does not convert is left out.\<close>

definition planKeys :: "go_lib \<Rightarrow> indexRuntime \<Rightarrow> candidatePlan \<Rightarrow> string list" where
  "planKeys L rt plan =
     (let kind = idxKind (rtDef rt); op = cpOp plan
      in if op = ''='' then (case normalizeIndexValue L (cpValue plan) kind of None \<Rightarrow> [] | Some k \<Rightarrow> [k])
         else if op = ''in'' then
           (case toAnySlice (cpValue plan) of None \<Rightarrow> [] | Some arr \<Rightarrow> List.map_filter (\<lambda>it. normalizeIndexValue L it kind) arr)
         else if op = ''prefix'' then
           (case jqPrefixString L (toJQValue L (cpValue plan)) of
              None \<Rightarrow> []
            | Some pre \<Rightarrow> filter (\<lambda>k. HasPrefix k pre) (allRuntimeIndexKeys rt))
         else if op = ''>'' \<or> op = ''>='' \<or> op = ''<'' \<or> op = ''<='' then
           (case normalizeIndexValue L (cpValue plan) kind of
              None \<Rightarrow> []
            | Some bound \<Rightarrow>
                (let second = (if cpOp2 plan \<noteq> '''' then normalizeIndexValue L (cpValue2 plan) kind else None)
                 in filter (\<lambda>k. rangeTest op (compareIndexKeys L kind k bound)
                      \<and> (case second of None \<Rightarrow> True | Some b2 \<Rightarrow> rangeTest (cpOp2 plan) (compareIndexKeys L kind k b2)))
                    (allRuntimeIndexKeys rt)))
         else [])"

definition memoryIndexCandidateIDs :: "go_lib \<Rightarrow> candidatePlan \<Rightarrow> int64 list" where
  "memoryIndexCandidateIDs L plan =
     (case cpIndex plan of
        None \<Rightarrow> []
      | Some rt \<Rightarrow>
          if cpOp plan = '''' then orderedIDsFromIndex L rt False
          else sort_key sint (remdups (concat (map (idsOfKey rt) (planKeys L rt plan)))))"

section \<open>The entries of the maps\<close>

definition rtEntries :: "indexRuntime \<Rightarrow> indexEntry set" where
  "rtEntries rt = {(v, i). i \<in> set (idsOfKey rt v)}"

lemma rtDef_entry [simp]: "rtDef (addEntry i v rt) = rtDef rt" "rtDef (removeEntry i v rt) = rtDef rt"
  by (simp_all add: addEntry_def removeEntry_def Let_def split: option.split)

lemma addEntry_entries: "\<not> taken i v rt \<Longrightarrow> rtEntries (addEntry i v rt) = insert (v, i) (rtEntries rt)"
  by (auto simp: rtEntries_def addEntry_def idsOfKey_def taken_def update_conv split: option.splits if_splits)

lemma addEntry_taken: "\<not> taken i w rt \<Longrightarrow> \<not> taken i w (addEntry i v rt)"
  by (auto simp: taken_def addEntry_def update_conv split: option.splits)

lemma addEntries: "\<forall>v \<in> set vs. \<not> taken i v rt \<Longrightarrow> rtEntries (fold (addEntry i) vs rt) = rtEntries rt \<union> (\<lambda>v. (v, i)) ` set vs"
proof (induction vs arbitrary: rt)
  case (Cons v vs)
  then have "rtEntries (fold (addEntry i) vs (addEntry i v rt)) = rtEntries (addEntry i v rt) \<union> (\<lambda>v. (v, i)) ` set vs"
    by (intro Cons.IH) (simp add: addEntry_taken)
  then show ?case using Cons.prems by (simp add: addEntry_entries)
qed simp

lemma removeEntry_entries: "rtEntries (removeEntry i v rt) = rtEntries rt - {(v, i)}"
  by (auto simp: rtEntries_def removeEntry_def idsOfKey_def Let_def update_conv AList.delete_conv
      removeAll_filter_not_eq filter_empty_conv split: option.splits if_splits)

lemma removeEntries: "rtEntries (fold (removeEntry i) vs rt) = rtEntries rt - (\<lambda>v. (v, i)) ` set vs"
  by (induction vs arbitrary: rt) (auto simp: removeEntry_entries)

text \<open>Adding a document adds its entries to every index, and taking it out again leaves those of the other documents.\<close>

lemma add_remove_entries:
  assumes "addDocToIndexes L col i doc = Inr col'" and "(k, rt) \<in> set (colRuntime col)"
  shows "\<exists>rt'. (k, rt') \<in> set (colRuntime col') \<and> rtDef rt' = rtDef rt
    \<and> rtEntries rt' = rtEntries rt \<union> {(v, i) | v. v \<in> set (runtimeValues L doc rt)}
    \<and> (\<exists>rt''. (k, rt'') \<in> set (colRuntime (removeDocFromIndexes L col' i doc))
         \<and> rtEntries rt'' = rtEntries rt - {(v, i) | v. v \<in> set (runtimeValues L doc rt)})"
proof -
  let ?rt' = "fold (addEntry i) (runtimeValues L doc rt) rt"
  have defs: "rtDef (fold (addEntry i) vs rt) = rtDef rt" for vs by (induction vs arbitrary: rt) auto
  have free: "\<forall>v \<in> set (runtimeValues L doc rt). \<not> taken i v rt" and col': "(k, ?rt') \<in> set (colRuntime col')"
    using assms by (auto simp: addDocToIndexes_def list_ex_iff split: if_splits)
  let ?rt'' = "fold (removeEntry i) (runtimeValues L doc ?rt') ?rt'"
  have "(k, ?rt'') \<in> set (colRuntime (removeDocFromIndexes L col' i doc))" using col' by (force simp: removeDocFromIndexes_def)
  moreover have "runtimeValues L doc ?rt' = runtimeValues L doc rt" by (simp add: runtimeValues_def defs)
  ultimately show ?thesis using col' defs addEntries [OF free] removeEntries
    by (intro exI [of _ ?rt'] conjI exI [of _ ?rt'']) auto
qed

section \<open>The maps and the store\<close>

lemma firstIDs_set: "set (firstIDs is seen) = set is - seen"
  by (induction "is" arbitrary: seen) auto

lemma entry_key: "(v, i) \<in> rtEntries rt \<Longrightarrow> v \<in> set (allRuntimeIndexKeys rt)"
proof -
  assume "(v, i) \<in> rtEntries rt"
  then have "map_of (rtUnique rt) v \<noteq> None \<or> map_of (rtMulti rt) v \<noteq> None"
    by (auto simp: rtEntries_def idsOfKey_def split: if_splits option.splits)
  then show ?thesis by (simp only: map_of_eq_None_iff) (auto simp: allRuntimeIndexKeys_def)
qed

lemma compareIndexKeys_order:
  assumes "kind = IndexInt64 \<or> kind = IndexString" and "normalizeIndexValue L x kind = Some a" and "normalizeIndexValue L y kind = Some b"
  shows "compareIndexKeys L kind a b = stringsCompare a b"
  using assms by (auto simp: compareIndexKeys_def cmpInt64_def stringsCompare_def encodeI64_less) (metis signed_word_eqI)

text \<open>The keys the maps give for a plan are the accepted ones, of those that occur in the maps.\<close>

lemma planKeys_accepted:
  assumes kind: "idxKind (rtDef rt) = IndexInt64 \<or> idxKind (rtDef rt) = IndexString" and op: "cpOp plan \<noteq> ''''"
    and two: "cpOp2 plan \<noteq> '''' \<longrightarrow> normalizeIndexValue L (cpValue2 plan) (idxKind (rtDef rt)) \<noteq> None"
    and keys: "\<exists>x. normalizeIndexValue L x (idxKind (rtDef rt)) = Some v" and v: "v \<in> set (allRuntimeIndexKeys rt)"
  shows "v \<in> set (planKeys L rt plan) \<longleftrightarrow> planAccepts L (idxKind (rtDef rt)) plan v"
proof -
  let ?kind = "idxKind (rtDef rt)"
  obtain x where x: "normalizeIndexValue L x ?kind = Some v" using keys by blast
  have cmp: "compareIndexKeys L ?kind v b = stringsCompare v b" if "normalizeIndexValue L y ?kind = Some b" for y b
    by (rule compareIndexKeys_order [OF kind x that])
  consider "cpOp plan = ''=''" | "cpOp plan = ''in''" | "cpOp plan = ''prefix''" | "cpOp plan \<in> {''>'', ''>='', ''<'', ''<=''}"
    | "cpOp plan \<notin> {'''', ''='', ''in'', ''prefix'', ''>'', ''>='', ''<'', ''<=''}" using op by blast
  then show ?thesis
  proof cases
    case 1
    then show ?thesis by (auto simp: planKeys_def planAccepts_def split: option.split)
  next
    case 2
    then show ?thesis
      by (auto simp: planKeys_def planAccepts_def list_ex_iff map_filter_def image_iff split: option.split)
  next
    case 3
    then show ?thesis using v by (auto simp: planKeys_def planAccepts_def split: option.split)
  next
    case 4
    show ?thesis
    proof (cases "normalizeIndexValue L (cpValue plan) ?kind")
      case None
      then show ?thesis using 4 by (auto simp: planKeys_def planAccepts_def)
    next
      case (Some b)
      then show ?thesis using 4 v two cmp [OF Some] cmp [of "cpValue2 plan"]
        by (cases "cpOp2 plan = ''''") (auto simp: planKeys_def planAccepts_def Let_def)
    qed
  next
    case 5
    then show ?thesis by (auto simp: planKeys_def planAccepts_def rangeTest_def split: option.split)
  qed
qed

lemma memory_ids:
  assumes ix: "cpIndex plan = Some rt" and kind: "idxKind (rtDef rt) = IndexInt64 \<or> idxKind (rtDef rt) = IndexString"
    and two: "cpOp2 plan \<noteq> '''' \<longrightarrow> normalizeIndexValue L (cpValue2 plan) (idxKind (rtDef rt)) \<noteq> None"
    and keys: "\<forall>(v, i) \<in> rtEntries rt. \<exists>x. normalizeIndexValue L x (idxKind (rtDef rt)) = Some v" and op: "cpOp plan \<noteq> ''''"
  shows "set (memoryIndexCandidateIDs L plan) = {i. \<exists>v. (v, i) \<in> rtEntries rt \<and> planAccepts L (idxKind (rtDef rt)) plan v}"
proof -
  have "(v, i) \<in> rtEntries rt \<Longrightarrow> v \<in> set (planKeys L rt plan) \<longleftrightarrow> planAccepts L (idxKind (rtDef rt)) plan v" for v i
    using planKeys_accepted [OF kind op two _ entry_key] keys by blast
  then have "i \<in> set (memoryIndexCandidateIDs L plan) \<longleftrightarrow> (\<exists>v. (v, i) \<in> rtEntries rt \<and> planAccepts L (idxKind (rtDef rt)) plan v)" for i
    using ix op by (auto simp: memoryIndexCandidateIDs_def rtEntries_def)
  then show ?thesis by auto
qed

text \<open>On maps that hold the entries of the documents, the answer from memory has the ids of the scan of the store.\<close>

lemma memory_agrees_with_store:
  assumes "db_env E kv" and "reachable E kv B db D" and "map_of (collections db) n = Some c" and "planOk c (plan, True)"
    and ix: "cpIndex plan = Some rt" and entries: "rtEntries rt = entriesOf E (rtDef rt) (D n)"
    and kind: "idxKind (rtDef rt) = IndexInt64 \<or> idxKind (rtDef rt) = IndexString" and op: "cpOp plan \<noteq> ''''"
    and two: "cpOp2 plan \<noteq> '''' \<longrightarrow> normalizeIndexValue (envLib E) (cpValue2 plan) (idxKind (rtDef rt)) \<noteq> None"
    and inStep: "idxDBID (rtDef rt) \<notin> B" and fits: "planFits (envLib E) (idxKind (cpIdx plan)) plan"
    and scan: "scanIndexCandidateIDs (envLib E) (envEng E) rev_it (dbEngine db) plan desc = Inr ids"
  shows "set (memoryIndexCandidateIDs (envLib E) plan) = set ids"
proof -
  have cp: "cpIdx plan = rtDef rt" using assms(4) ix by (auto simp: planOk_def)
  have keys: "\<forall>(v, i) \<in> rtEntries rt. \<exists>x. normalizeIndexValue (envLib E) x (idxKind (rtDef rt)) = Some v"
    using entry_normalized unfolding entries by fastforce
  show ?thesis
    using db_env.reachable_scan [OF assms(1-4) inStep [folded cp] fits scan] memory_ids [OF ix kind two keys op]
    by (simp add: cp acceptedIds_def entries)
qed

end
