(* ===== verification/Spec2Isabelle.thy ===== *)
theory Spec2Isabelle
  imports Durability Cursor QueryFormat Projection QueryGrammar QueryTypes IndexComplete MemIndex
begin

text \<open>
  A verification development for ejdb-go, an embedded database of JSON documents with the query language JQL on an ordered
  key-value store.

  \<^bold>\<open>The program.\<close> The package \<^verbatim>\<open>ejdbgo\<close> is one library. \<^verbatim>\<open>types.go\<close> has the catalog: collections, their indexes and the counters. \<^verbatim>\<open>storage.go\<close>
  has the interface of the storage engine, the wrapper around Pebble, and the layout of the keys: one key per document, per entry of
  an index, per sequence, and one for the catalog. \<^verbatim>\<open>db.go\<close> has the database object: it reads from the engine, collects the mutations of
  documents, and commits them with the entries of the indexes and the catalog in one batch; it also runs queries. \<^verbatim>\<open>tx.go\<close> has
  transactions, which use the same operations and commit or roll back at the end. \<^verbatim>\<open>jbl.go\<close> is the binary format of stored documents,
  \<^verbatim>\<open>json.go\<close> the reader of JSON, \<^verbatim>\<open>pointer.go\<close> and \<^verbatim>\<open>patch.go\<close> are JSON pointers and the patches of documents, \<^verbatim>\<open>jqvalue.go\<close> compares
  values, and \<^verbatim>\<open>query.go\<close> and \<^verbatim>\<open>query_format.go\<close> parse, evaluate, plan and print queries.

  \<^bold>\<open>Data.\<close> A Go string is a list of characters, a byte slice a list of 8-bit words, \<^verbatim>\<open>int64\<close> and \<^verbatim>\<open>float64\<close> are 64-bit words, the former
  read with \<open>sint\<close>, and \<^verbatim>\<open>int\<close> is \<open>int\<close>, with the wrap-around written out where sums may exceed 64 bits. A Go map is an
  association list; where the code ranges over a map the model takes the order of the list, and the results that depend on that order say
  so. Dynamic values (\<^verbatim>\<open>any\<close>) are the datatype \<open>gv\<close>. Errors are values of the datatype \<open>error\<close> in a sum; every function returns the
  error of the branch the code takes. An operation on the database object returns its result and the object it leaves behind. The lock of
  the object makes each operation one step.

  \<^bold>\<open>Theories.\<close>
  \<^item> \<open>Prelude\<close>, \<open>Strconv\<close>, \<open>Runes\<close>: error values (\<^verbatim>\<open>errors.go\<close>), byte order words with the locales of the codecs of key fields, and what the code uses
    of \<^verbatim>\<open>strconv\<close>, \<^verbatim>\<open>strings\<close> and \<^verbatim>\<open>unicode\<close>.
  \<^item> \<open>Types\<close>: the catalog and its persisted form (\<^verbatim>\<open>types.go\<close>, parts of \<^verbatim>\<open>storage.go\<close>), its round trip and the order of the metadata report.
  \<^item> \<open>Values\<close>, \<open>Jqvalue\<close>: dynamic values, conversions, the reader of JSON over the tokens of the JSON package, and the comparison of values.
  \<^item> \<open>Jbl\<close>: the encoder and the decoder of stored documents, which documents are accepted, and the round trip.
  \<^item> \<open>Pointer\<close>, \<open>Patch\<close>: lookup, set, replace, remove and removal by patterns with the laws between them, the operations of a JSON patch,
    and merge patches.
  \<^item> \<open>Store\<close>, \<open>StoreRefine\<close>, \<open>StoreLevels\<close>, \<open>StoreProps\<close>: the functions of \<^verbatim>\<open>pointer.go\<close> again, on values in memory. A map and the array behind a slice
    are cells of a store, and values refer to them by address. \<open>own\<close> relates a value that shares nothing to a tree, with its footprint; the
    functions keep it and do on it what those of \<open>Pointer\<close> do on trees. \<open>leveled\<close> says that no value contains itself, shared or not, so
    that reading and removal by patterns end.
  \<^item> \<open>Keys\<close>, \<open>IndexKeys\<close>: the storage keys, their decoding, that keys sort as what they encode does, that \<^verbatim>\<open>prefixEnd\<close> bounds exactly the keys
    with a prefix, and the keys of index values.
  \<^item> \<open>Engine\<close>: the storage engine as a record of functions with its contract as the locale \<open>storage_engine\<close>; the wrapper meets the contract when
    Pebble does (\<open>pebble_db\<close>), and an engine on association lists is an executable instance.
  \<^item> \<open>Cursor\<close>: iterators as cursors that are moved and the loops that drive them, with no bound on the rounds. Under the documented behaviour
    of Pebble's iterators (\<open>pebble_cursor\<close>) the loops end and give what the scans over the list of entries give, which the rest uses.
  \<^item> \<open>Lifecycle\<close>: the Pebble engine as the code has it, with its options, its write option and its handle, and opening, closing, \<^verbatim>\<open>ForceSync\<close> and
    \<^verbatim>\<open>Backup\<close> of the database. Pebble and the file system are a record of functions on a disk.
  \<^item> \<open>Durability\<close>: the laws of that record as the locale \<open>pebble_platform\<close>, with the contents that opening a directory may find after a crash. A
    session is any sequence of calls, transactions, syncs, backups, crashes and restarts; what is found after a crash, a restart or in
    a backup is a state of the session.
  \<^item> \<open>Db\<close>, \<open>Tx\<close>: the database object and the transactions, one definition per operation.
  \<^item> \<open>DbInv\<close>, \<open>Pending\<close>, \<open>Refine\<close>, \<open>RefineCat\<close>, \<open>RefineIndex\<close>, \<open>Api\<close>, \<open>ApiProps\<close>, \<open>TxProps\<close>: the abstract database is a map from collections and ids to
    documents. The invariant says that the store holds the encodings of exactly these documents and exactly the entries of their
    indexes. Every successful call of the API does to the abstract map what it should, from which follow the invariant of the reachable states, the
    safety of unique indexes, durability, what \<^verbatim>\<open>Get\<close> returns, and that transactions commit or roll back as a whole.
  \<^item> \<open>QueryAst\<close>, \<open>QueryLex\<close>, \<open>QueryParse\<close>: the syntax trees, the splitters and searches on runes, and the recursive descent parsers. \<open>QueryGrammar\<close> states the
    grammar of expressions and of filters as inductive relations, proves in one locale for both parsers that they terminate and accept
    exactly what the grammar spells, and interprets it twice. \<open>QueryTypes\<close> has the types of placeholders. \<open>QueryFormat\<close> is the printer.
  \<^item> \<open>QueryEval\<close>, \<open>QueryPlan\<close>, \<open>IndexScan\<close>, \<open>QueryExec\<close>: evaluation on a document, the choice of an index, the scan of an index, and the run of
    a query with its order, spill file, window, action, projection and visitor.
  \<^item> \<open>QueryWindow\<close>, \<open>QueryRefine\<close>, \<open>QueryProps\<close>: a query against the abstract map: a listing returns the window of the documents the filter selects,
    inside a write transaction of the documents as the transaction has left them; an action changes exactly the documents of the window, counting agrees with listing, the spill file is invisible, the window is
    exact within 64 bits, and the visitor loop ends.
  \<^item> \<open>Projection\<close>: the terms of a projection run on values in memory, since the result shares containers with the source; they end, and they
    give what copies give unless a path is included of which a part was included before.
  \<^item> \<open>IndexSound\<close>, \<open>RuntimeInv\<close>, \<open>IndexProps\<close>, \<open>IndexComplete\<close>: the runtime indexes agree with the catalog in every reachable state; a scan delivers exactly the
    documents with an accepted value; and on documents whose values have the type of the index a query served by the index returns what
    the filter selects, as the query without the index does.
  \<^item> \<open>MemIndex\<close>: the index maps in memory, which no call reaches, and their agreement with the scan of the store.

  \<^bold>\<open>Bounds.\<close> The reader of JSON runs with twice the number of tokens and one as fuel, the decoder of stored documents with the number of
  bytes and one, the parsers with the number of tokens and one: all three are shown to be enough, so that the result
  \<open>None\<close> never occurs. \<^verbatim>\<open>walkPattern\<close>, \<^verbatim>\<open>collectDesc\<close> and the removal by patterns terminate by the depth of the
  document. The visitor loop is a partial function, since a visitor may step back for ever; it ends for visitors that do not. The round trip
  of stored documents is for encodings below \<open>2 ^ 31\<close> bytes and index values below \<open>2 ^ 32\<close>, the widths of the length fields. The theorems
  on the API assume that the counters of collections have not reached the end of their 64 bits.

  \<^bold>\<open>Parameters.\<close> Code outside the repository is an argument of the definitions: the tokenizer and the printer of the JSON package, the text
  of floating-point numbers, regular expressions, \<^verbatim>\<open>fmt.Sprint\<close>, Pebble, the clock, the file system, the spare capacity of slices, and the JSON
  form of the catalog. The theorems name what they rely on: that a printed document reads back as itself, the contract of the engine, the laws of Pebble on what a crash leaves, and that
  a successful read of the spill file gives what was written.

  \<^bold>\<open>Not modelled.\<close> The text of the catalog is a parameter with its round trip. \<^verbatim>\<open>compareOrdered\<close> is never called. \<^verbatim>\<open>example/main.go\<close> prints the results
  of sample calls. The log of a query is modelled for runs that succeed. A crash is taken between two calls, not inside one.
\<close>

end
